(* ===== verification/Prelude.thy ===== *)
theory Prelude
  imports Main "HOL-Library.Sublist" "HOL-Library.Char_ord" "HOL-Library.List_Lexorder"
begin

section \<open>Shared vocabulary: Go strings, results and list lemmas\<close>

text \<open>
  What every component of the model shares. A Go string is a sequence of bytes, and so is the
  type \<^typ>\<open>string\<close> (a list of 8-bit characters), so \<open>length\<close> is Go's \<open>len\<close> and the order of
  \<^theory_text>\<open>List_Lexorder\<close> is Go's string comparison. The functions of the packages \<open>strings\<close> and
  \<open>strconv\<close> the linter calls are defined here, over bytes, under their Go names.
  \<^item> \<open>strings.TrimSpace\<close> trims the UTF-8 encodings of every code point \<open>unicode.IsSpace\<close> accepts.
  \<^item> \<open>strings.ToLower\<close> and \<open>strings.EqualFold\<close> are defined on ASCII letters and leave other bytes
    as they are: case folding of non-ASCII letters is not modelled.
\<close>

named_theorems go_string_simps
named_theorems go_defs

type_synonym 'a go_result = "string + 'a"

lemma find_SomeD: "find P xs = Some y \<Longrightarrow> y \<in> set xs \<and> P y"
  by (induction xs) (auto split: if_splits)

lemma find_exists: "x \<in> set xs \<Longrightarrow> P x \<Longrightarrow> \<exists>y. find P xs = Some y"
  by (induction xs) auto

subsection \<open>Prefixes, suffixes and cuts\<close>

abbreviation has_prefix :: "string \<Rightarrow> string \<Rightarrow> bool" where
  "has_prefix s p \<equiv> prefix p s"

abbreviation has_suffix :: "string \<Rightarrow> string \<Rightarrow> bool" where
  "has_suffix s p \<equiv> suffix p s"

definition cut_prefix :: "string \<Rightarrow> string \<Rightarrow> string option" where
  "cut_prefix s p = (if prefix p s then Some (drop (length p) s) else None)"

definition cut_suffix :: "string \<Rightarrow> string \<Rightarrow> string option" where
  "cut_suffix s p = (if suffix p s then Some (take (length s - length p) s) else None)"

definition trim_prefix :: "string \<Rightarrow> string \<Rightarrow> string" where
  "trim_prefix s p = (case cut_prefix s p of Some r \<Rightarrow> r | None \<Rightarrow> s)"

text \<open>\<open>strings.Cut\<close>: the text before and after the first separator, and whether it was found.\<close>

fun cut :: "string \<Rightarrow> string \<Rightarrow> string \<times> string \<times> bool" where
  "cut [] sep = ([], [], sep = [])"
| "cut (c # cs) sep =
     (if prefix sep (c # cs) then ([], drop (length sep) (c # cs), True)
      else (case cut cs sep of (a, b, found) \<Rightarrow> (c # a, b, found)))"

fun contains :: "string \<Rightarrow> string \<Rightarrow> bool" where
  "contains [] sub = (sub = [])"
| "contains (c # cs) sub = (prefix sub (c # cs) \<or> contains cs sub)"

text \<open>\<open>strings.Split\<close> at a one-byte separator, and \<open>strings.SplitN\<close> with at most \<open>n\<close> parts.\<close>

fun split_on :: "char \<Rightarrow> string \<Rightarrow> string list" where
  "split_on d [] = [[]]"
| "split_on d (c # cs) =
     (if c = d then [] # split_on d cs
      else (case split_on d cs of [] \<Rightarrow> [[c]] | w # ws \<Rightarrow> (c # w) # ws))"

fun split_n :: "nat \<Rightarrow> char \<Rightarrow> string \<Rightarrow> string list" where
  "split_n 0 d s = []"
| "split_n (Suc 0) d s = [s]"
| "split_n (Suc (Suc n)) d s =
     (case cut s [d] of (a, b, found) \<Rightarrow> if found then a # split_n (Suc n) d b else [s])"

fun join_strings :: "string \<Rightarrow> string list \<Rightarrow> string" where
  "join_strings sep [] = []"
| "join_strings sep [x] = x"
| "join_strings sep (x # y # ys) = x @ sep @ join_strings sep (y # ys)"

definition nl :: string where "nl = [CHR 0x0A]"

definition remove_chars :: "string \<Rightarrow> string \<Rightarrow> string" where
  "remove_chars cs s = filter (\<lambda>c. c \<notin> set cs) s"

subsection \<open>Space and case\<close>

text \<open>
  The UTF-8 encodings of the code points of \<open>unicode.IsSpace\<close>: tab, newline, vertical tab, form
  feed, carriage return, space, U+0085, U+00A0, U+1680, U+2000 to U+200A, U+2028, U+2029, U+202F,
  U+205F and U+3000.
\<close>

definition bytes :: "nat list \<Rightarrow> string" where
  "bytes = map char_of"

definition space_seqs :: "string list" where
  "space_seqs =
     [[CHR 0x09], [CHR 0x0A], [CHR 0x0B], [CHR 0x0C], [CHR 0x0D], [CHR 0x20],
      [CHR 0xC2, CHR 0x85], [CHR 0xC2, CHR 0xA0], [CHR 0xE1, CHR 0x9A, CHR 0x80],
      [CHR 0xE2, CHR 0x80, CHR 0x80], [CHR 0xE2, CHR 0x80, CHR 0x81], [CHR 0xE2, CHR 0x80, CHR 0x82],
      [CHR 0xE2, CHR 0x80, CHR 0x83], [CHR 0xE2, CHR 0x80, CHR 0x84], [CHR 0xE2, CHR 0x80, CHR 0x85],
      [CHR 0xE2, CHR 0x80, CHR 0x86], [CHR 0xE2, CHR 0x80, CHR 0x87], [CHR 0xE2, CHR 0x80, CHR 0x88],
      [CHR 0xE2, CHR 0x80, CHR 0x89], [CHR 0xE2, CHR 0x80, CHR 0x8A],
      [CHR 0xE2, CHR 0x80, CHR 0xA8], [CHR 0xE2, CHR 0x80, CHR 0xA9], [CHR 0xE2, CHR 0x80, CHR 0xAF],
      [CHR 0xE2, CHR 0x81, CHR 0x9F], [CHR 0xE3, CHR 0x80, CHR 0x80]]"

definition leading_space :: "string \<Rightarrow> nat option" where
  "leading_space s = map_option length (find (\<lambda>q. prefix q s) space_seqs)"

definition trailing_space :: "string \<Rightarrow> nat option" where
  "trailing_space s = map_option length (find (\<lambda>q. suffix q s) space_seqs)"

lemma space_seqs_nonempty: "[] \<notin> set space_seqs"
  by (simp add: space_seqs_def)

lemma space_seqs_nth: "i < length space_seqs \<Longrightarrow> space_seqs ! i \<noteq> []"
  using space_seqs_nonempty by (metis nth_mem)

lemma leading_space_pos: "leading_space s = Some n \<Longrightarrow> 0 < n \<and> n \<le> length s"
  by (auto simp: leading_space_def find_Some_iff space_seqs_nth dest: prefix_length_le)

lemma trailing_space_pos: "trailing_space s = Some n \<Longrightarrow> 0 < n \<and> n \<le> length s"
  by (auto simp: trailing_space_def find_Some_iff space_seqs_nth dest: suffix_length_le)

text \<open>
  On an ASCII byte the search is one comparison. These equations are what evaluation uses, so a
  witness does not walk the list of encodings.
\<close>

definition ascii_space :: "char \<Rightarrow> bool" where
  "ascii_space c \<longleftrightarrow> c \<in> {CHR 0x09, CHR 0x0A, CHR 0x0B, CHR 0x0C, CHR 0x0D, CHR 0x20}"

definition is_ascii :: "char \<Rightarrow> bool" where
  "is_ascii c \<longleftrightarrow> (case c of Char _ _ _ _ _ _ _ b7 \<Rightarrow> \<not> b7)"

lemma space_seqs_shape:
  "q \<in> set space_seqs \<Longrightarrow>
     (length q = 1 \<and> ascii_space (hd q)) \<or> (q \<noteq> [] \<and> \<not> is_ascii (hd q) \<and> \<not> is_ascii (last q))"
proof -
  have "list_all (\<lambda>q. (length q = 1 \<and> ascii_space (hd q)) \<or>
      (q \<noteq> [] \<and> \<not> is_ascii (hd q) \<and> \<not> is_ascii (last q))) space_seqs"
    by code_simp
  then show "q \<in> set space_seqs \<Longrightarrow> ?thesis" by (auto simp: list_all_iff)
qed

lemma ascii_space_seq: "ascii_space c \<Longrightarrow> [c] \<in> set space_seqs"
  by (auto simp: ascii_space_def space_seqs_def)

lemma ascii_space_ascii: "ascii_space c \<Longrightarrow> is_ascii c"
  by (auto simp: ascii_space_def is_ascii_def)

text \<open>A search for an encoding that matches at an ASCII byte \<open>c\<close>, whatever "matches" is.\<close>

lemma find_space_ascii:
  assumes "\<And>q. q \<in> set space_seqs \<Longrightarrow> match q \<Longrightarrow> hd q = c \<or> last q = c" "match [c]" "is_ascii c"
  shows "map_option length (find match space_seqs) = (if ascii_space c then Some 1 else None)"
proof (cases "find match space_seqs")
  case None
  then show ?thesis using assms(2) ascii_space_seq by (auto simp: find_None_iff)
next
  case (Some q)
  then have q: "q \<in> set space_seqs" "match q"
    by (metis find_Some_iff nth_mem)+
  have "length q = 1 \<and> ascii_space (hd q)"
    using space_seqs_shape [OF q(1)] assms(1) [OF q] assms(3) by auto
  moreover from this have "hd q = c"
    using assms(1) [OF q] by (cases q) auto
  ultimately show ?thesis using Some by auto
qed

lemma leading_space_code [code]:
  "leading_space s =
     (case s of
        [] \<Rightarrow> None
      | c # _ \<Rightarrow> if is_ascii c then (if ascii_space c then Some 1 else None)
                else map_option length (find (\<lambda>q. prefix q s) space_seqs))"
proof (cases s)
  case Nil
  then show ?thesis
    using space_seqs_nonempty by (auto simp: leading_space_def find_None_iff)
next
  case (Cons c cs)
  have "q \<in> set space_seqs \<Longrightarrow> prefix q s \<Longrightarrow> hd q = c \<or> last q = c" for q
    using Cons space_seqs_nonempty by (cases q) auto
  then show ?thesis
    using Cons find_space_ascii [of "\<lambda>q. prefix q s" c] by (simp add: leading_space_def)
qed

lemma trailing_space_code [code]:
  "trailing_space s =
     (case rev s of
        [] \<Rightarrow> None
      | c # _ \<Rightarrow> if is_ascii c then (if ascii_space c then Some 1 else None)
                else map_option length (find (\<lambda>q. suffix q s) space_seqs))"
proof (cases s rule: rev_cases)
  case Nil
  then show ?thesis
    using space_seqs_nonempty by (auto simp: trailing_space_def find_None_iff)
next
  case (snoc cs c)
  have "q \<in> set space_seqs \<Longrightarrow> suffix q s \<Longrightarrow> hd q = c \<or> last q = c" for q
    using snoc space_seqs_nonempty by (cases q rule: rev_cases) auto
  then show ?thesis
    using snoc find_space_ascii [of "\<lambda>q. suffix q s" c] by (simp add: trailing_space_def suffix_def)
qed

function trim_left_space :: "string \<Rightarrow> string" where
  "trim_left_space s =
     (case leading_space s of None \<Rightarrow> s | Some n \<Rightarrow> trim_left_space (drop n s))"
  by pat_completeness auto
termination
  by (relation "measure length") (auto dest: leading_space_pos)

function trim_right_space :: "string \<Rightarrow> string" where
  "trim_right_space s =
     (case trailing_space s of None \<Rightarrow> s | Some n \<Rightarrow> trim_right_space (take (length s - n) s))"
  by pat_completeness auto
termination
  by (relation "measure length") (auto dest: trailing_space_pos)

declare trim_left_space.simps [simp del] trim_right_space.simps [simp del]

definition trim_space :: "string \<Rightarrow> string" where
  "trim_space s = trim_right_space (trim_left_space s)"

definition lower_char :: "char \<Rightarrow> char" where
  "lower_char c =
     (let n = of_char c :: nat in if 65 \<le> n \<and> n \<le> 90 then char_of (n + 32) else c)"

definition to_lower :: "string \<Rightarrow> string" where
  "to_lower = map lower_char"

definition equal_fold :: "string \<Rightarrow> string \<Rightarrow> bool" where
  "equal_fold s t \<longleftrightarrow> to_lower s = to_lower t"

definition quote :: "string \<Rightarrow> string" where
  "quote s = CHR 0x22 # s @ [CHR 0x22]"

end
