(* ===== verification/Strconv.thy ===== *)
theory Strconv
  imports Prelude
begin

section \<open>Numbers in text: the strconv functions the linter calls\<close>

text \<open>
  \<open>strconv.Itoa\<close>, \<open>FormatInt\<close> and \<open>FormatUint\<close> in base 10, \<open>Atoi\<close>, \<open>ParseInt\<close> and \<open>ParseUint\<close>
  (base 10 and base 0, with Go's prefixes and underscores) and \<open>ParseBool\<close>. A failed conversion
  (a syntax or a range error) is \<^term>\<open>None\<close>: the callers in this repository only ask whether the
  error is nil. Machine integers are \<^typ>\<open>int\<close> with the range of the Go type checked where the
  code checks it.
\<close>

definition min_int64 :: int where "min_int64 = - (2 ^ 63)"
definition max_int64 :: int where "max_int64 = 2 ^ 63 - 1"
definition max_uint32 :: int where "max_uint32 = 2 ^ 32 - 1"

text \<open>Two's complement reading of an out-of-range result, as Go's \<open>int\<close> arithmetic wraps.\<close>

definition wrap64 :: "int \<Rightarrow> int" where
  "wrap64 n = (n + 2 ^ 63) mod 2 ^ 64 - 2 ^ 63"

lemma wrap64_id: "min_int64 \<le> n \<Longrightarrow> n \<le> max_int64 \<Longrightarrow> wrap64 n = n"
  by (simp add: wrap64_def min_int64_def max_int64_def)

subsection \<open>Formatting\<close>

definition digit_char :: "int \<Rightarrow> char" where
  "digit_char d = char_of (48 + d)"

function show_digits :: "int \<Rightarrow> string" where
  "show_digits n =
     (if n < 10 then [digit_char n] else show_digits (n div 10) @ [digit_char (n mod 10)])"
  by pat_completeness auto
termination
  by (relation "measure nat") auto

declare show_digits.simps [simp del]

definition itoa :: "int \<Rightarrow> string" where
  "itoa n = (if n < 0 then CHR ''-'' # show_digits (- n) else show_digits n)"

subsection \<open>Parsing\<close>

definition digit_value :: "char \<Rightarrow> int option" where
  "digit_value c =
     (let n = of_char c :: int in
      if 48 \<le> n \<and> n \<le> 57 then Some (n - 48)
      else if 97 \<le> n \<and> n \<le> 122 then Some (n - 97 + 10)
      else if 65 \<le> n \<and> n \<le> 90 then Some (n - 65 + 10)
      else None)"

definition is_digit :: "char \<Rightarrow> bool" where
  "is_digit c \<longleftrightarrow> 48 \<le> (of_char c :: int) \<and> (of_char c :: int) \<le> 57"

text \<open>
  The digit loop of \<open>strconv.ParseUint\<close> in the given base: underscores are skipped when the base
  was to be read from the text.
\<close>

fun parse_digits :: "int \<Rightarrow> bool \<Rightarrow> int \<Rightarrow> string \<Rightarrow> int option" where
  "parse_digits base us acc [] = Some acc"
| "parse_digits base us acc (c # cs) =
     (if us \<and> c = CHR ''_'' then parse_digits base us acc cs
      else (case digit_value c of
              None \<Rightarrow> None
            | Some d \<Rightarrow> if d < base then parse_digits base us (acc * base + d) cs else None))"

definition parse_uint10 :: "int \<Rightarrow> string \<Rightarrow> int option" where
  "parse_uint10 maxv s =
     (if s = [] then None
      else (case parse_digits 10 False 0 s of
              None \<Rightarrow> None | Some n \<Rightarrow> if n \<le> maxv then Some n else None))"

definition parse_int10 :: "string \<Rightarrow> int option" where
  "parse_int10 s =
     (case s of
        [] \<Rightarrow> None
      | c # cs \<Rightarrow>
          (let neg = (c = CHR ''-''); body = (if c = CHR ''-'' \<or> c = CHR ''+'' then cs else s) in
           case parse_uint10 (2 ^ 64 - 1) body of
             None \<Rightarrow> None
           | Some n \<Rightarrow> (if \<not> neg \<and> n \<ge> 2 ^ 63 then None
                       else if neg \<and> n > 2 ^ 63 then None
                       else Some (if neg then - n else n))))"

abbreviation atoi :: "string \<Rightarrow> int option" where "atoi \<equiv> parse_int10"

text \<open>\<open>underscoreOK\<close>: underscores only between digits, or after a base prefix.\<close>

datatype saw = SawStart | SawDigit | SawUnderscore | SawOther

fun underscore_scan :: "bool \<Rightarrow> saw \<Rightarrow> string \<Rightarrow> bool" where
  "underscore_scan hex w [] = (w \<noteq> SawUnderscore)"
| "underscore_scan hex w (c # cs) =
     (if is_digit c \<or> (hex \<and> (case digit_value c of None \<Rightarrow> False | Some d \<Rightarrow> 10 \<le> d \<and> d < 16))
      then underscore_scan hex SawDigit cs
      else if c = CHR ''_'' then (w = SawDigit \<and> underscore_scan hex SawUnderscore cs)
      else w \<noteq> SawUnderscore \<and> underscore_scan hex SawOther cs)"

definition base_prefix :: "string \<Rightarrow> char option" where
  "base_prefix s =
     (case s of
        z # p # _ \<Rightarrow> (if z = CHR ''0'' \<and> lower_char p \<in> {CHR ''b'', CHR ''o'', CHR ''x''}
                      then Some (lower_char p) else None)
      | _ \<Rightarrow> None)"

definition underscore_ok :: "string \<Rightarrow> bool" where
  "underscore_ok s0 =
     (let s = (case s0 of c # cs \<Rightarrow> if c = CHR ''-'' \<or> c = CHR ''+'' then cs else s0 | [] \<Rightarrow> []) in
      case base_prefix s of
        Some p \<Rightarrow> underscore_scan (p = CHR ''x'') SawDigit (drop 2 s)
      | None \<Rightarrow> underscore_scan False SawStart s)"

text \<open>\<open>strconv.ParseUint(s, 0, bits)\<close>.\<close>

definition parse_uint0 :: "int \<Rightarrow> string \<Rightarrow> int option" where
  "parse_uint0 maxv s =
     (if s = [] then None
      else
        (let (base, body) =
           (if hd s = CHR ''0'' then
              (case (if length s \<ge> 3 then base_prefix s else None) of
                 Some p \<Rightarrow> (if p = CHR ''b'' then 2 else if p = CHR ''o'' then 8 else 16, drop 2 s)
               | None \<Rightarrow> (8, tl s))
            else (10, s))
         in case parse_digits base True 0 body of
              None \<Rightarrow> None
            | Some n \<Rightarrow> (if maxv < n then None
                        else if CHR ''_'' \<in> set body \<and> \<not> underscore_ok s then None
                        else Some n)))"

text \<open>\<open>strconv.ParseInt(s, 0, 64)\<close>.\<close>

definition parse_int0 :: "string \<Rightarrow> int option" where
  "parse_int0 s =
     (case s of
        [] \<Rightarrow> None
      | c # cs \<Rightarrow>
          (let neg = (c = CHR ''-''); body = (if c = CHR ''-'' \<or> c = CHR ''+'' then cs else s) in
           case parse_uint0 (2 ^ 64 - 1) body of
             None \<Rightarrow> None
           | Some n \<Rightarrow> (if \<not> neg \<and> n \<ge> 2 ^ 63 then None
                       else if neg \<and> n > 2 ^ 63 then None
                       else Some (if neg then - n else n))))"

definition parse_bool :: "string \<Rightarrow> bool option" where
  "parse_bool s =
     (if s \<in> set [''1'', ''t'', ''T'', ''true'', ''TRUE'', ''True''] then Some True
      else if s \<in> set [''0'', ''f'', ''F'', ''false'', ''FALSE'', ''False''] then Some False
      else None)"

subsection \<open>Round trip and bounds\<close>

lemma of_char_digit_char [simp]:
  "0 \<le> d \<Longrightarrow> d < 10 \<Longrightarrow> (of_char (digit_char d) :: int) = 48 + d"
  by (simp add: digit_char_def)

lemma digit_value_digit_char [simp]: "0 \<le> d \<Longrightarrow> d < 10 \<Longrightarrow> digit_value (digit_char d) = Some d"
  by (simp add: digit_value_def)

lemma is_digit_digit_char [simp]: "0 \<le> d \<Longrightarrow> d < 10 \<Longrightarrow> is_digit (digit_char d)"
  by (simp add: is_digit_def)

lemma show_digits_nonempty [simp]: "show_digits n \<noteq> []"
  by (subst show_digits.simps) simp

lemma show_digits_digits: "0 \<le> n \<Longrightarrow> c \<in> set (show_digits n) \<Longrightarrow> is_digit c"
proof (induction n rule: show_digits.induct)
  case (1 n)
  then show ?case by (cases "n < 10") (auto simp: show_digits.simps [of n])
qed

lemma parse_digits_append:
  "parse_digits b us a (xs @ ys) =
     (case parse_digits b us a xs of None \<Rightarrow> None | Some n \<Rightarrow> parse_digits b us n ys)"
  by (induction b us a xs rule: parse_digits.induct) (auto split: option.splits)

lemma parse_digits_show_digits: "0 \<le> n \<Longrightarrow> parse_digits 10 False 0 (show_digits n) = Some n"
proof (induction n rule: show_digits.induct)
  case (1 n)
  then show ?case
    by (cases "n < 10") (simp_all add: show_digits.simps [of n] parse_digits_append)
qed

lemma parse_uint10_show_digits: "0 \<le> n \<Longrightarrow> n \<le> m \<Longrightarrow> parse_uint10 m (show_digits n) = Some n"
  by (simp add: parse_uint10_def parse_digits_show_digits)

lemma digit_not_sign:
  "is_digit c \<Longrightarrow> c \<noteq> CHR ''-'' \<and> c \<noteq> CHR ''+'' \<and> c \<noteq> CHR ''_'' \<and> c \<noteq> CHR ''.''"
  by (auto simp: is_digit_def)

lemma itoa_atoi:
  assumes "min_int64 \<le> n" "n \<le> max_int64"
  shows "atoi (itoa n) = Some n"
proof (cases "n < 0")
  case True
  then show ?thesis using assms
    by (simp add: itoa_def parse_int10_def Let_def parse_uint10_show_digits min_int64_def)
next
  case False
  obtain c cs where s: "show_digits n = c # cs" by (cases "show_digits n") auto
  then have "is_digit c" using False show_digits_digits [of n c] by simp
  then have "c \<noteq> CHR ''-'' \<and> c \<noteq> CHR ''+''" by (simp add: digit_not_sign)
  then show ?thesis using False assms s parse_uint10_show_digits [of n "2 ^ 64 - 1"]
    by (simp add: itoa_def parse_int10_def Let_def max_int64_def)
qed

lemma digit_value_nonneg: "digit_value c = Some d \<Longrightarrow> 0 \<le> d"
  by (auto simp: digit_value_def Let_def split: if_splits)

lemma parse_digits_nonneg:
  "parse_digits b us a s = Some n \<Longrightarrow> 0 \<le> a \<Longrightarrow> 0 < b \<Longrightarrow> 0 \<le> n"
  by (induction b us a s rule: parse_digits.induct)
    (auto simp: digit_value_nonneg split: if_splits option.splits)

lemma parse_uint10_range: "parse_uint10 m s = Some n \<Longrightarrow> 0 \<le> n \<and> n \<le> m"
  by (auto simp: parse_uint10_def intro: parse_digits_nonneg split: if_splits option.splits)

lemma parse_uint0_range: "parse_uint0 m s = Some n \<Longrightarrow> 0 \<le> n \<and> n \<le> m"
  by (auto simp: parse_uint0_def Let_def elim!: parse_digits_nonneg
      split: if_splits option.splits prod.splits)

lemma atoi_range: "atoi s = Some n \<Longrightarrow> min_int64 \<le> n \<and> n \<le> max_int64"
  by (auto simp: parse_int10_def Let_def min_int64_def max_int64_def dest!: parse_uint10_range
      split: list.splits option.splits if_splits)

lemma parse_int0_range: "parse_int0 s = Some n \<Longrightarrow> min_int64 \<le> n \<and> n \<le> max_int64"
  by (auto simp: parse_int0_def Let_def min_int64_def max_int64_def dest!: parse_uint0_range
      split: list.splits option.splits if_splits)

subsection \<open>The verb \<open>%q\<close>\<close>

text \<open>
  \<open>strconv.Quote\<close>: a double-quoted literal with the escapes of Go. Bytes from 128 up are kept, as it
  does for printable text; a non-ASCII character that is not printable is not modelled.
\<close>

definition hex_byte :: "nat \<Rightarrow> string" where
  "hex_byte n = [''0123456789abcdef'' ! (n div 16), ''0123456789abcdef'' ! (n mod 16)]"

definition quote_char :: "char \<Rightarrow> string" where
  "quote_char ch =
     (let n = of_char ch :: nat; esc = (\<lambda>x. [CHR 0x5C, x]) in
      if n = 0x22 \<or> n = 0x5C then esc ch
      else if n = 7 then esc (CHR ''a'') else if n = 8 then esc (CHR ''b'')
      else if n = 12 then esc (CHR ''f'') else if n = 10 then esc (CHR ''n'')
      else if n = 13 then esc (CHR ''r'') else if n = 9 then esc (CHR ''t'')
      else if n = 11 then esc (CHR ''v'')
      else if n < 32 \<or> n = 127 then esc (CHR ''x'') @ hex_byte n
      else [ch])"

definition go_quote :: "string \<Rightarrow> string" where
  "go_quote s = CHR 0x22 # concat (map quote_char s) @ [CHR 0x22]"

end
