(* ===== verification/Sets.thy ===== *)
theory Sets
  imports Prelude "HOL-Library.Multiset"
begin

section \<open>pkg/sets: a set built on a map\<close>

text \<open>
  \<open>sets.Set[T]\<close> is \<open>map[T]Empty\<close>. The model keeps the map's keys in the order of one iteration over
  it, so what holds of every value of \<open>go_set\<close> holds whatever order Go picks; the invariant \<open>set_ok\<close>
  is that a map has each key once. The interface \<open>set_api\<close> names what the rest of the linter
  relies on (membership after insertion), and the lemmas in it are about the loop "report an item
  whose key was seen before, then remember the key" that several rules run.
\<close>

datatype 'a go_set = GoSet (set_keys: "'a list")

definition set_ok :: "'a go_set \<Rightarrow> bool" where
  "set_ok s \<longleftrightarrow> distinct (set_keys s)"

definition set_elems :: "'a go_set \<Rightarrow> 'a set" where
  "set_elems s = set (set_keys s)"

subsection \<open>The operations\<close>

definition set_empty :: "'a go_set" where
  "set_empty = GoSet []"

definition set_has :: "'a go_set \<Rightarrow> 'a \<Rightarrow> bool" where
  "set_has s x \<longleftrightarrow> x \<in> set (set_keys s)"

definition set_put :: "'a go_set \<Rightarrow> 'a \<Rightarrow> 'a go_set" where
  "set_put s x = (if set_has s x then s else GoSet (set_keys s @ [x]))"

definition set_insert :: "'a go_set \<Rightarrow> 'a list \<Rightarrow> 'a go_set" where
  "set_insert s items = foldl set_put s items"

definition set_new :: "'a list \<Rightarrow> 'a go_set" where
  "set_new items = set_insert set_empty items"

definition set_key_set :: "('a \<times> 'v) list \<Rightarrow> 'a go_set" where
  "set_key_set source = foldl set_put set_empty (map fst source)"

definition set_remove :: "'a go_set \<Rightarrow> 'a \<Rightarrow> 'a go_set" where
  "set_remove s x = GoSet (removeAll x (set_keys s))"

definition set_delete :: "'a go_set \<Rightarrow> 'a list \<Rightarrow> 'a go_set" where
  "set_delete s items = foldl set_remove s items"

fun set_has_all :: "'a go_set \<Rightarrow> 'a list \<Rightarrow> bool" where
  "set_has_all s [] = True"
| "set_has_all s (x # xs) = (if \<not> set_has s x then False else set_has_all s xs)"

definition set_has_any :: "'a go_set \<Rightarrow> 'a list \<Rightarrow> bool" where
  "set_has_any s items = list_ex (set_has s) items"

definition set_len :: "'a go_set \<Rightarrow> nat" where
  "set_len s = length (set_keys s)"

definition set_clone :: "'a go_set \<Rightarrow> 'a go_set" where
  "set_clone s = s"

definition set_union :: "'a go_set \<Rightarrow> 'a go_set \<Rightarrow> 'a go_set" where
  "set_union s other = foldl set_put (foldl set_put set_empty (set_keys s)) (set_keys other)"

definition set_intersection :: "'a go_set \<Rightarrow> 'a go_set \<Rightarrow> 'a go_set" where
  "set_intersection s other =
     (let (small, large) = (if set_len other < set_len s then (other, s) else (s, other)) in
      foldl (\<lambda>out item. if set_has large item then set_put out item else out) set_empty
        (set_keys small))"

definition set_difference :: "'a go_set \<Rightarrow> 'a go_set \<Rightarrow> 'a go_set" where
  "set_difference s other =
     foldl (\<lambda>out item. if \<not> set_has other item then set_put out item else out) set_empty
       (set_keys s)"

definition set_is_superset :: "'a go_set \<Rightarrow> 'a go_set \<Rightarrow> bool" where
  "set_is_superset s other = set_has_all s (set_keys other)"

definition set_equal :: "'a go_set \<Rightarrow> 'a go_set \<Rightarrow> bool" where
  "set_equal s other \<longleftrightarrow> set_len s = set_len other \<and> set_is_superset s other"

definition set_unsorted_list :: "'a go_set \<Rightarrow> 'a list" where
  "set_unsorted_list s = set_keys s"

definition set_list :: "'a::linorder go_set \<Rightarrow> 'a list" where
  "set_list s = sort (set_unsorted_list s)"

subsection \<open>Every operation refines the operation on sets\<close>

lemma set_has_elems [simp]: "set_has s x \<longleftrightarrow> x \<in> set_elems s"
  by (simp add: set_has_def set_elems_def)

lemma set_put_elems [simp]: "set_elems (set_put s x) = insert x (set_elems s)"
  by (auto simp: set_put_def set_elems_def set_has_def)

lemma set_put_ok [simp]: "set_ok s \<Longrightarrow> set_ok (set_put s x)"
  by (auto simp: set_put_def set_ok_def set_elems_def)

lemma set_empty_elems [simp]: "set_elems set_empty = {}" "set_ok set_empty"
  by (simp_all add: set_empty_def set_elems_def set_ok_def)

lemma set_insert_elems [simp]: "set_elems (set_insert s xs) = set_elems s \<union> set xs"
  unfolding set_insert_def by (induction xs arbitrary: s) auto

lemma set_insert_ok [simp]: "set_ok s \<Longrightarrow> set_ok (set_insert s xs)"
  unfolding set_insert_def by (induction xs arbitrary: s) auto

lemma set_new_elems [simp]: "set_elems (set_new xs) = set xs" "set_ok (set_new xs)"
  by (simp_all add: set_new_def)

lemma set_key_set_elems [simp]: "set_elems (set_key_set m) = fst ` set m" "set_ok (set_key_set m)"
  using set_insert_elems [of set_empty "map fst m"] set_insert_ok [of set_empty "map fst m"]
  by (simp_all add: set_key_set_def set_insert_def)

lemma set_remove_elems [simp]: "set_elems (set_remove s x) = set_elems s - {x}"
  by (auto simp: set_remove_def set_elems_def)

lemma set_remove_ok [simp]: "set_ok s \<Longrightarrow> set_ok (set_remove s x)"
  by (simp add: set_remove_def set_ok_def distinct_removeAll)

lemma set_delete_elems [simp]: "set_elems (set_delete s xs) = set_elems s - set xs"
  unfolding set_delete_def by (induction xs arbitrary: s) auto

lemma set_delete_ok [simp]: "set_ok s \<Longrightarrow> set_ok (set_delete s xs)"
  unfolding set_delete_def by (induction xs arbitrary: s) auto

lemma set_has_all_elems [simp]: "set_has_all s xs \<longleftrightarrow> set xs \<subseteq> set_elems s"
  by (induction xs) auto

lemma set_has_any_elems [simp]: "set_has_any s xs \<longleftrightarrow> set xs \<inter> set_elems s \<noteq> {}"
  by (auto simp: set_has_any_def list_ex_iff)

lemma set_union_insert:
  "set_union s t = set_insert (set_insert set_empty (set_keys s)) (set_keys t)"
  by (simp add: set_union_def set_insert_def)

lemma set_union_elems [simp]: "set_elems (set_union s t) = set_elems s \<union> set_elems t"
  by (simp add: set_union_insert) (simp add: set_elems_def)

lemma set_union_ok [simp]: "set_ok (set_union s t)"
  by (simp add: set_union_insert)

lemma set_filter_fold_elems:
  "set_elems (foldl (\<lambda>out x. if P x then set_put out x else out) s xs) =
     set_elems s \<union> {x \<in> set xs. P x}"
  by (induction xs arbitrary: s) auto

lemma set_filter_fold_ok:
  "set_ok s \<Longrightarrow> set_ok (foldl (\<lambda>out x. if P x then set_put out x else out) s xs)"
  by (induction xs arbitrary: s) auto

lemma set_intersection_elems [simp]:
  "set_elems (set_intersection s t) = set_elems s \<inter> set_elems t" "set_ok (set_intersection s t)"
  by (auto simp: set_intersection_def set_filter_fold_elems set_filter_fold_ok)
    (auto simp: set_elems_def)

lemma set_difference_elems [simp]:
  "set_elems (set_difference s t) = set_elems s - set_elems t" "set_ok (set_difference s t)"
  by (auto simp: set_difference_def set_filter_fold_elems set_filter_fold_ok)
    (auto simp: set_elems_def)

lemma set_is_superset_elems [simp]: "set_is_superset s t \<longleftrightarrow> set_elems t \<subseteq> set_elems s"
  by (simp add: set_is_superset_def) (simp add: set_elems_def)

lemma set_len_card: "set_ok s \<Longrightarrow> set_len s = card (set_elems s)"
  by (simp add: set_len_def set_ok_def set_elems_def distinct_card)

lemma set_list_sorted: "sorted (set_list s)" "set (set_list s) = set_elems s"
  by (simp_all add: set_list_def set_unsorted_list_def set_elems_def)

lemma set_list_distinct: "set_ok s \<Longrightarrow> distinct (set_list s)"
  by (simp add: set_list_def set_unsorted_list_def set_ok_def)

text \<open>
  Two sets built by the package are \<open>Equal\<close> exactly when they hold the same elements, and then
  \<open>List\<close> gives the same strictly increasing list for both, whatever order the maps iterate in.
\<close>

theorem set_equal_iff:
  assumes "set_ok s" "set_ok t"
  shows "(set_equal s t \<longleftrightarrow> set_elems s = set_elems t) \<and>
    (set_equal s t \<longleftrightarrow> set_list s = set_list t) \<and> sorted_wrt (<) (set_list s)"
proof -
  have 1: "set_equal s t \<longleftrightarrow> set_elems s = set_elems t"
  proof -
    have fin: "finite (set_elems s)" by (simp add: set_elems_def)
    show ?thesis
      unfolding set_equal_def set_len_card [OF assms(1)] set_len_card [OF assms(2)] set_is_superset_elems
      using card_subset_eq [OF fin, of "set_elems t"] by auto
  qed
  moreover have "set_elems s = set_elems t \<longleftrightarrow> set_list s = set_list t"
    using assms by (metis set_list_sorted set_list_distinct sorted_distinct_set_unique)
  ultimately show ?thesis
    using assms by (simp add: strict_sorted_iff set_list_sorted set_list_distinct)
qed

lemma set_equal_iff_witness:
  "set_equal (set_new [3, 1, 1 :: int]) (set_new [1, 3]) \<and> set_list (set_new [3, 1, 1 :: int]) = [1, 3]"
proof -
  have "set_elems (set_new [3, 1, 1 :: int]) = set_elems (set_new [1, 3])" by auto
  then have "set_equal (set_new [3, 1, 1 :: int]) (set_new [1, 3])"
    using set_equal_iff [of "set_new [3, 1, 1 :: int]" "set_new [1, 3]"] by simp
  then show ?thesis by (simp add: set_list_def set_unsorted_list_def set_new_def set_insert_def
      set_empty_def set_put_def set_elems_def)
qed

subsection \<open>The interface the rest of the linter uses, and its loop\<close>

text \<open>
  The loop over a list with a set of keys seen so far, and its meaning over sets: the items whose
  key was in the set or came earlier in the list.
\<close>

fun repeats :: "('s \<Rightarrow> 'k \<Rightarrow> bool) \<Rightarrow> ('s \<Rightarrow> 'k \<Rightarrow> 's) \<Rightarrow> ('a \<Rightarrow> 'k) \<Rightarrow> 's \<Rightarrow> 'a list \<Rightarrow> 'a list" where
  "repeats has put key seen [] = []"
| "repeats has put key seen (x # xs) =
     (if has seen (key x) then [x] else []) @ repeats has put key (put seen (key x)) xs"

fun later_items :: "('a \<Rightarrow> 'k) \<Rightarrow> 'k set \<Rightarrow> 'a list \<Rightarrow> 'a list" where
  "later_items key K [] = []"
| "later_items key K (x # xs) =
     (if key x \<in> K then [x] else []) @ later_items key (insert (key x) K) xs"

lemma later_items_nil_iff:
  "later_items key K xs = [] \<longleftrightarrow> distinct (map key xs) \<and> key ` set xs \<inter> K = {}"
  by (induction xs arbitrary: K) auto

lemma later_items_subset: "set (later_items key K xs) \<subseteq> set xs"
  by (induction xs arbitrary: K) auto

lemma later_items_length:
  "finite K \<Longrightarrow> length (later_items key K xs) + card (K \<union> key ` set xs) = length xs + card K"
proof (induction xs arbitrary: K)
  case Nil
  then show ?case by simp
next
  case (Cons x xs)
  from Cons.IH [of "insert (key x) K"] Cons.prems show ?case
    by (auto simp: insert_absorb card_insert_if Un_insert_right)
qed

locale set_api =
  fixes empty :: "'s" and has :: "'s \<Rightarrow> 'k \<Rightarrow> bool" and put :: "'s \<Rightarrow> 'k \<Rightarrow> 's"
    and elems :: "'s \<Rightarrow> 'k set" and ok :: "'s \<Rightarrow> bool"
  assumes ok_empty: "ok empty"
    and elems_empty: "elems empty = {}"
    and has_elems: "ok s \<Longrightarrow> has s x \<longleftrightarrow> x \<in> elems s"
    and put_elems: "ok s \<Longrightarrow> elems (put s x) = insert x (elems s)"
    and put_ok: "ok s \<Longrightarrow> ok (put s x)"
begin

lemma repeats_eq: "ok s \<Longrightarrow> repeats has put key s xs = later_items key (elems s) xs"
  by (induction xs arbitrary: s) (simp_all add: has_elems put_elems put_ok)

lemma repeats_empty: "repeats has put key empty xs = later_items key {} xs"
  by (simp add: repeats_eq ok_empty elems_empty)

lemma repeats_none_iff: "repeats has put key empty xs = [] \<longleftrightarrow> distinct (map key xs)"
  by (simp add: repeats_empty later_items_nil_iff)

lemma repeats_count:
  "length (repeats has put key empty xs) + card (key ` set xs) = length xs"
  using later_items_length [of "{}" key xs] by (simp add: repeats_empty)

end

interpretation gs: set_api set_empty set_has set_put set_elems set_ok
  by unfold_locales simp_all

end
