(* ===== verification/Slices.thy ===== *)
theory Slices
  imports Prelude "HOL-Library.Multiset"
begin

section \<open>Sorting slices: sort.Slice and the contract of a comparison\<close>

text \<open>
  The linter orders every list it prints with \<open>sort.Slice\<close>, \<open>sort.SliceStable\<close> or
  \<open>slices.SortFunc\<close>. The sort is modelled by insertion from the left, which is what the Go
  library runs on slices of at most twelve elements and which is stable. On a longer slice
  \<open>sort.Slice\<close> may order elements that compare equal differently, so a property about such a
  list is stated up to equal elements or for a comparison that tells all elements apart
  (\<open>sort_slice_unique\<close>).

  The locale \<open>strict_weak\<close> is what the library asks of a \<open>less\<close> function; \<open>comparator\<close> is the
  contract of a three-way comparison such as \<open>schema.Compare\<close>, and gives the former.
\<close>

fun insert_by :: "('a \<Rightarrow> 'a \<Rightarrow> bool) \<Rightarrow> 'a \<Rightarrow> 'a list \<Rightarrow> 'a list" where
  "insert_by lt x [] = [x]"
| "insert_by lt x (y # ys) = (if lt x y then x # y # ys else y # insert_by lt x ys)"

definition sort_slice :: "('a \<Rightarrow> 'a \<Rightarrow> bool) \<Rightarrow> 'a list \<Rightarrow> 'a list" where
  "sort_slice lt xs = foldl (\<lambda>out x. insert_by lt x out) [] xs"

lemma mset_insert_by [simp]: "mset (insert_by lt x ys) = add_mset x (mset ys)"
  by (induction ys) auto

lemma set_insert_by [simp]: "set (insert_by lt x ys) = insert x (set ys)"
  by (induction ys) auto

lemma mset_sort_slice [simp]: "mset (sort_slice lt xs) = mset xs"
proof -
  have "mset (foldl (\<lambda>out x. insert_by lt x out) out xs) = mset out + mset xs" for out
    by (induction xs arbitrary: out) auto
  then show ?thesis by (simp add: sort_slice_def)
qed

lemma set_sort_slice [simp]: "set (sort_slice lt xs) = set xs"
  by (metis mset_sort_slice set_mset_mset)

lemma length_sort_slice [simp]: "length (sort_slice lt xs) = length xs"
  by (metis mset_sort_slice size_mset)

lemma distinct_sort_slice [simp]: "distinct (sort_slice lt xs) = distinct xs"
  by (metis mset_sort_slice mset_eq_imp_distinct_iff)

lemma distinct_map_sort_slice [simp]: "distinct (map f (sort_slice lt xs)) = distinct (map f xs)"
  by (metis mset_sort_slice mset_map mset_eq_imp_distinct_iff)

lemma sort_slice_nil [simp]: "sort_slice lt [] = []"
  by (simp add: sort_slice_def)

lemma sort_slice_nil_iff [simp]: "sort_slice lt xs = [] \<longleftrightarrow> xs = []"
  by (metis length_sort_slice length_0_conv)

lemma sort_slice_snoc: "sort_slice lt (xs @ [x]) = insert_by lt x (sort_slice lt xs)"
  by (simp add: sort_slice_def)

lemma sorted_wrt_strict:
  assumes "sorted_wrt R xs" "distinct xs"
    and "\<And>x y. x \<in> set xs \<Longrightarrow> y \<in> set xs \<Longrightarrow> x \<noteq> y \<Longrightarrow> R x y \<Longrightarrow> S x y"
  shows "sorted_wrt S xs"
  using assms by (induction xs) auto

locale strict_weak =
  fixes lt :: "'a \<Rightarrow> 'a \<Rightarrow> bool"
  assumes less_asym: "lt x y \<Longrightarrow> \<not> lt y x"
    and geq_trans: "\<not> lt y x \<Longrightarrow> \<not> lt z y \<Longrightarrow> \<not> lt z x"
begin

lemma less_irrefl: "\<not> lt x x"
  using less_asym by blast

lemma less_trans: "lt x y \<Longrightarrow> lt y z \<Longrightarrow> lt x z"
  using less_asym geq_trans by blast

lemma insert_by_sorted:
  "sorted_wrt (\<lambda>x y. \<not> lt y x) ys \<Longrightarrow> sorted_wrt (\<lambda>x y. \<not> lt y x) (insert_by lt x ys)"
proof (induction ys)
  case (Cons y ys)
  show ?case
  proof (cases "lt x y")
    case True
    then have "\<not> lt y x" by (rule less_asym)
    moreover have "\<forall>z \<in> set ys. \<not> lt z x"
      using Cons.prems \<open>\<not> lt y x\<close> geq_trans by (metis sorted_wrt.simps(2))
    ultimately show ?thesis using Cons.prems True by simp
  next
    case False
    then show ?thesis using Cons by simp
  qed
qed simp

lemma sort_slice_sorted: "sorted_wrt (\<lambda>x y. \<not> lt y x) (sort_slice lt xs)"
  by (induction xs rule: rev_induct) (simp_all add: sort_slice_snoc insert_by_sorted)

lemma sort_slice_unique:
  assumes "\<And>x y. x \<in> set xs \<Longrightarrow> y \<in> set xs \<Longrightarrow> x \<noteq> y \<Longrightarrow> lt x y \<or> lt y x"
    and "mset ys = mset xs" "sorted_wrt (\<lambda>x y. \<not> lt y x) ys"
  shows "ys = sort_slice lt xs"
proof -
  have "ys = zs"
    if "mset ys = mset zs" "sorted_wrt (\<lambda>x y. \<not> lt y x) ys" "sorted_wrt (\<lambda>x y. \<not> lt y x) zs"
      "\<forall>x \<in> set ys. \<forall>y \<in> set ys. x \<noteq> y \<longrightarrow> lt x y \<or> lt y x" for ys zs
    using that
  proof (induction ys arbitrary: zs)
    case (Cons y ys)
    then obtain z zs' where zs: "zs = z # zs'" by (cases zs) auto
    have sets: "set (y # ys) = set (z # zs')"
      using Cons.prems(1) zs by (metis set_mset_mset)
    have "y = z"
      using Cons.prems sets zs by (metis list.set_intros(1) set_ConsD sorted_wrt.simps(2))
    then show ?case
      using Cons.IH [of zs'] Cons.prems zs by simp
  qed simp
  then show ?thesis
    using assms sort_slice_sorted [of xs] by (metis mset_sort_slice set_mset_mset)
qed

text \<open>Stability: the elements that compare equal to a given one keep their order.\<close>

lemma insert_by_stable:
  assumes "sorted_wrt (\<lambda>x y. \<not> lt y x) ys"
  shows "filter (\<lambda>y. \<not> lt a y \<and> \<not> lt y a) (insert_by lt x ys) =
    filter (\<lambda>y. \<not> lt a y \<and> \<not> lt y a) ys @ (if \<not> lt a x \<and> \<not> lt x a then [x] else [])"
  using assms
proof (induction ys)
  case (Cons y ys)
  show ?case
  proof (cases "lt x y \<and> \<not> lt a x \<and> \<not> lt x a")
    case True
    have "lt a z" if "z \<in> set (y # ys)" for z
    proof (rule ccontr)
      assume "\<not> lt a z"
      moreover have "\<not> lt z y" using that Cons.prems less_irrefl by auto
      ultimately have "\<not> lt a y" using geq_trans by blast
      then have "\<not> lt x y" using True geq_trans by blast
      then show False using True by blast
    qed
    then have "filter (\<lambda>y. \<not> lt a y \<and> \<not> lt y a) (y # ys) = []"
      by (auto simp: filter_empty_conv)
    then show ?thesis using True by simp
  next
    case False
    then show ?thesis using Cons by auto
  qed
qed auto

lemma sort_slice_stable:
  "filter (\<lambda>y. \<not> lt a y \<and> \<not> lt y a) (sort_slice lt xs) =
   filter (\<lambda>y. \<not> lt a y \<and> \<not> lt y a) xs"
  by (induction xs rule: rev_induct)
    (simp_all add: sort_slice_snoc insert_by_stable sort_slice_sorted)

end

text \<open>A three-way comparison: its sign is antisymmetric, and not-older is transitive.\<close>

locale comparator =
  fixes cmp :: "'a \<Rightarrow> 'a \<Rightarrow> int"
  assumes cmp_antisym: "sgn (cmp y x) = - sgn (cmp x y)"
    and cmp_trans: "cmp x y \<le> 0 \<Longrightarrow> cmp y z \<le> 0 \<Longrightarrow> cmp x z \<le> 0"
begin

lemma cmp_refl: "cmp x x = 0"
  using cmp_antisym [of x x] by (simp add: sgn_if split: if_splits)

lemma cmp_less_iff: "cmp y x < 0 \<longleftrightarrow> 0 < cmp x y"
  using cmp_antisym [of x y] by (auto simp: sgn_if split: if_splits)

lemma cmp_zero_iff: "cmp y x = 0 \<longleftrightarrow> cmp x y = 0"
  using cmp_antisym [of x y] by (auto simp: sgn_if split: if_splits)

lemma cmp_le_iff: "cmp y x \<le> 0 \<longleftrightarrow> 0 \<le> cmp x y"
  using cmp_less_iff [of y x] cmp_zero_iff [of y x] by linarith

lemma cmp_total: "cmp x y \<le> 0 \<or> cmp y x \<le> 0"
  using cmp_le_iff [of y x] by linarith

lemma cmp_equal_cong: "cmp x y = 0 \<Longrightarrow> cmp x z \<le> 0 \<longleftrightarrow> cmp y z \<le> 0"
  using cmp_trans cmp_zero_iff by (metis order_refl)

end

sublocale comparator \<subseteq> strict_weak "\<lambda>x y. cmp x y < 0"
  by unfold_locales (metis cmp_less_iff not_less_iff_gr_or_eq, metis cmp_le_iff cmp_trans not_less)

sublocale comparator \<subseteq> newest: strict_weak "\<lambda>x y. 0 < cmp x y"
  by unfold_locales (metis cmp_less_iff not_less_iff_gr_or_eq, metis cmp_trans not_less)

context comparator
begin

lemma oldest_first_sorted: "sorted_wrt (\<lambda>x y. cmp x y \<le> 0) (sort_slice (\<lambda>x y. cmp x y < 0) xs)"
  using sort_slice_sorted [of xs] by (simp add: not_less cmp_le_iff)

lemma newest_first_sorted: "sorted_wrt (\<lambda>x y. 0 \<le> cmp x y) (sort_slice (\<lambda>x y. 0 < cmp x y) xs)"
  using newest.sort_slice_sorted [of xs] by (simp add: not_less cmp_le_iff)

text \<open>In a list sorted newest first, the first element not newer than a bound is the newest such.\<close>

lemma find_newest:
  assumes "sorted_wrt (\<lambda>x y. 0 \<le> cmp x y) xs" "find (\<lambda>v. cmp v b \<le> 0) xs = Some v"
  shows "v \<in> set xs \<and> cmp v b \<le> 0 \<and> (\<forall>w \<in> set xs. cmp w b \<le> 0 \<longrightarrow> cmp w v \<le> 0)"
  using assms
  by (induction xs) (auto simp: cmp_le_iff cmp_refl split: if_splits)

end

subsection \<open>Building comparisons\<close>

lemma comparator_on: "comparator c \<Longrightarrow> comparator (\<lambda>x y. c (f x) (f y))"
  unfolding comparator_def by blast

lemma comparator_minus: "comparator (\<lambda>x y :: int. x - y)"
  by unfold_locales (auto simp: sgn_if)

lemma comparator_zero: "comparator (\<lambda>x y. 0)"
  by unfold_locales auto

lemma comparator_then:
  assumes "comparator c1" "comparator c2"
  shows "comparator (\<lambda>x y. if c1 x y \<noteq> 0 then c1 x y else c2 x y)"
proof -
  show ?thesis
  proof unfold_locales
    fix x y z
    show "sgn (if c1 y x \<noteq> 0 then c1 y x else c2 y x) = - sgn (if c1 x y \<noteq> 0 then c1 x y else c2 x y)"
      using comparator.cmp_zero_iff [OF assms(1), of x y] comparator.cmp_antisym [OF assms(1), of x y] comparator.cmp_antisym [OF assms(2), of x y]
      by (cases "c1 x y = 0") (simp_all only: if_True if_False not_not simp_thms)
    assume a: "(if c1 x y \<noteq> 0 then c1 x y else c2 x y) \<le> 0"
      and b: "(if c1 y z \<noteq> 0 then c1 y z else c2 y z) \<le> 0"
    have xy: "c1 x y \<le> 0" and yz: "c1 y z \<le> 0" using a b by (auto split: if_splits)
    then have xz: "c1 x z \<le> 0" by (rule comparator.cmp_trans [OF assms(1)])
    show "(if c1 x z \<noteq> 0 then c1 x z else c2 x z) \<le> 0"
    proof (cases "c1 x z = 0")
      case True
      then have "c1 z x \<le> 0" using comparator.cmp_zero_iff [OF assms(1), of x z] by simp
      then have "c1 y x \<le> 0" "c1 z y \<le> 0" using comparator.cmp_trans [OF assms(1)] xy yz by blast+
      then have "c1 x y = 0" "c1 y z = 0" using xy yz comparator.cmp_le_iff [OF assms(1)] by (metis order_antisym)+
      then show ?thesis using a b True comparator.cmp_trans [OF assms(2)] by auto
    qed (use xz in simp)
  qed
qed

lemma comparator_split:
  assumes "comparator c1" "comparator c2"
  shows "comparator (\<lambda>x y. if P x \<and> P y then c1 x y else if P x then - 1 else if P y then 1 else c2 x y)"
proof -
  show ?thesis
  proof unfold_locales
    fix x y z
    show "sgn (if P y \<and> P x then c1 y x else if P y then - 1 else if P x then 1 else c2 y x) =
      - sgn (if P x \<and> P y then c1 x y else if P x then - 1 else if P y then 1 else c2 x y)"
      using comparator.cmp_antisym [OF assms(1), of y x] comparator.cmp_antisym [OF assms(2), of y x] by (cases "P x"; cases "P y") simp_all
    assume "(if P x \<and> P y then c1 x y else if P x then - 1 else if P y then 1 else c2 x y) \<le> 0"
      "(if P y \<and> P z then c1 y z else if P y then - 1 else if P z then 1 else c2 y z) \<le> 0"
    then show "(if P x \<and> P z then c1 x z else if P x then - 1 else if P z then 1 else c2 x z) \<le> 0"
      using comparator.cmp_trans [OF assms(1), of x y z] comparator.cmp_trans [OF assms(2), of x y z]
      by (cases "P x"; cases "P y"; cases "P z") simp_all
  qed
qed

text \<open>Field by field, the first difference deciding, and the shorter list first.\<close>

definition compare_lists :: "('a \<Rightarrow> 'a \<Rightarrow> int) \<Rightarrow> 'a list \<Rightarrow> 'a list \<Rightarrow> int" where
  "compare_lists c xs ys =
     (case find (\<lambda>n. n \<noteq> 0) (map2 c xs ys) of
        Some n \<Rightarrow> n
      | None \<Rightarrow> int (length xs) - int (length ys))"

lemma compare_lists_simps [simp]:
  "compare_lists c [] ys = - int (length ys)"
  "compare_lists c xs [] = int (length xs)"
  "compare_lists c (x # xs) (y # ys) = (if c x y \<noteq> 0 then c x y else compare_lists c xs ys)"
  by (auto simp: compare_lists_def split: option.splits)

lemma comparator_lists:
  assumes "comparator c"
  shows "comparator (compare_lists c)"
proof -
  show ?thesis
  proof unfold_locales
    show "sgn (compare_lists c ys xs) = - sgn (compare_lists c xs ys)" for xs ys
    proof (induction xs arbitrary: ys)
      case Nil
      then show ?case by (cases ys) (auto simp: sgn_if)
    next
      case IH: (Cons x xs)
      show ?case
      proof (cases ys)
        case Nil
        then show ?thesis by (simp add: sgn_if)
      next
        case (Cons y ys')
        then show ?thesis
          using IH.IH [of ys'] comparator.cmp_antisym [OF assms, of y x] comparator.cmp_zero_iff [OF assms, of y x] by simp
      qed
    qed
    show "compare_lists c xs ys \<le> 0 \<Longrightarrow> compare_lists c ys zs \<le> 0 \<Longrightarrow> compare_lists c xs zs \<le> 0"
      for xs ys zs
    proof (induction xs arbitrary: ys zs)
      case Nil
      then show ?case by simp
    next
      case (Cons x xs)
      obtain y ys' z zs' where eqs: "ys = y # ys'" "zs = z # zs'"
        using Cons.prems by (cases ys; cases zs) auto
      have xy: "c x y \<le> 0" and yz: "c y z \<le> 0"
        using Cons.prems eqs by (auto split: if_splits)
      then have xz: "c x z \<le> 0" by (rule comparator.cmp_trans [OF assms])
      show ?case
      proof (cases "c x z = 0")
        case True
        then have "c z x \<le> 0" using comparator.cmp_zero_iff [OF assms, of x z] by simp
        then have "c y x \<le> 0" "c z y \<le> 0" using comparator.cmp_trans [OF assms] xy yz by blast+
        then have "c x y = 0" "c y z = 0" using xy yz comparator.cmp_le_iff [OF assms] by (metis order_antisym)+
        then show ?thesis using Cons eqs True by auto
      qed (use xz eqs in simp)
    qed
  qed
qed

text \<open>\<open>strings.Compare\<close>.\<close>

definition compare_text :: "string \<Rightarrow> string \<Rightarrow> int" where
  "compare_text a b = (if a = b then 0 else if a < b then - 1 else 1)"

lemma comparator_linorder: "comparator (\<lambda>a b :: 'a :: linorder. if a = b then 0 else if a < b then - 1 else 1)"
proof unfold_locales
  fix x y z :: 'a
  show "sgn (if y = x then 0 else if y < x then - 1 else 1) =
      - sgn (if x = y then 0 else if x < y then - 1 else 1 :: int)"
    by (cases x y rule: linorder_cases) (simp_all add: not_less_iff_gr_or_eq)
  have iff: "(if a = b then 0 else if a < b then - 1 else 1 :: int) \<le> 0 \<longleftrightarrow> a \<le> b" for a b :: 'a
    by (cases a b rule: linorder_cases) auto
  show "(if x = y then 0 else if x < y then - 1 else 1 :: int) \<le> 0 \<Longrightarrow>
      (if y = z then 0 else if y < z then - 1 else 1 :: int) \<le> 0 \<Longrightarrow>
      (if x = z then 0 else if x < z then - 1 else 1 :: int) \<le> 0"
    unfolding iff by (rule order_trans)
qed

lemma comparator_text: "comparator compare_text"
  using comparator_linorder unfolding compare_text_def by blast

end
