(* ===== verification/Releases.thy ===== *)
theory Releases
  imports Strconv Slices
begin

section \<open>Collector releases: Normalize, Compare and the nearest schema\<close>

text \<open>
  The version half of \<open>pkg/schema/store.go\<close>, and \<open>pkg/schema/index.go\<close>: how release names are put
  into the form of schema file names, ordered, and picked from when a schema is missing. A Go \<open>int\<close>
  is 64 bits wide, so the difference \<open>Compare\<close> returns is written with \<^const>\<open>wrap64\<close>;
  \<open>compare_no_wrap\<close> shows it never wraps.
\<close>

subsection \<open>store.go: versions\<close>

definition latest :: string where "latest = ''latest''"

definition normalize :: "string \<Rightarrow> string" where
  "normalize v0 =
     (let v = trim_space v0 in
      if v = [] \<or> v = latest then v
      else if \<not> has_prefix v ''v'' then ''v'' @ v
      else v)"

definition trim_leading_zeros :: "string \<Rightarrow> string" where
  "trim_leading_zeros s =
     (let trimmed = dropWhile (\<lambda>c. c = CHR ''0'') s in if trimmed = [] then ''0'' else trimmed)"

definition is_numeric :: "string \<Rightarrow> bool" where
  "is_numeric s \<longleftrightarrow> s \<noteq> [] \<and> list_all is_digit s"

definition prerelease :: "string \<Rightarrow> string" where
  "prerelease v = (case cut (normalize v) ''-'' of (_, rest, _) \<Rightarrow> rest)"

definition parse_version :: "string \<Rightarrow> int list" where
  "parse_version v0 =
     (let v1 = trim_prefix (normalize v0) ''v'';
          v = fst (cut v1 ''-'');
          parts = split_n 3 (CHR ''.'') v
      in map (\<lambda>i. if length parts \<le> i then 0
                  else (case atoi (parts ! i) of None \<Rightarrow> 0 | Some n \<Rightarrow> n)) [0..<3])"

definition compare_numeric :: "string \<Rightarrow> string \<Rightarrow> int" where
  "compare_numeric a0 b0 =
     (let a = trim_leading_zeros a0; b = trim_leading_zeros b0 in
      if length a \<noteq> length b then int (length a) - int (length b) else compare_text a b)"

definition compare_identifier :: "string \<Rightarrow> string \<Rightarrow> int" where
  "compare_identifier a b =
     (if is_numeric a \<and> is_numeric b then compare_numeric a b
      else if is_numeric a then - 1
      else if is_numeric b then 1
      else compare_text a b)"

definition compare_prerelease :: "string \<Rightarrow> string \<Rightarrow> int" where
  "compare_prerelease ra rb =
     compare_lists compare_identifier (split_on (CHR ''.'') ra) (split_on (CHR ''.'') rb)"

definition compare_version :: "string \<Rightarrow> string \<Rightarrow> int" where
  "compare_version a b =
     (case find (\<lambda>(x, y). x \<noteq> y) (zip (parse_version a) (parse_version b)) of
        Some (x, y) \<Rightarrow> wrap64 (x - y)
      | None \<Rightarrow>
          (let ra = prerelease a; rb = prerelease b in
           if ra = rb then 0
           else if ra = [] then 1
           else if rb = [] then - 1
           else compare_prerelease ra rb))"

record unknown_version_error =
  uv_version :: string
  uv_available :: "string list"
  uv_tried :: "string list"

definition unknown_version_message :: "unknown_version_error \<Rightarrow> string" where
  "unknown_version_message e =
     ''no schema for collector version '' @ uv_version e @
     (if 0 < length (uv_available e) then '' (available: '' @ join_strings '', '' (uv_available e) @ '')''
      else if 0 < length (uv_tried e) then '' (tried: '' @ join_strings '', '' (uv_tried e) @ '')''
      else [])"

definition nearest :: "unknown_version_error \<Rightarrow> string option" where
  "nearest e = find (\<lambda>v. compare_version v (uv_version e) \<le> 0) (uv_available e)"

definition extensions :: "string list" where
  "extensions = [''.yaml'', ''.yml'', ''.json'']"

definition trim_ext :: "string \<Rightarrow> string" where
  "trim_ext name =
     (case List.map_filter (cut_suffix name) extensions of base # _ \<Rightarrow> base | [] \<Rightarrow> [])"

subsection \<open>index.go: what a registry serves\<close>

definition index_file :: string where "index_file = ''index.json''"

record registry_index =
  idx_distributions :: "(string \<times> string list) list"
  idx_extensions :: "(string \<times> string) list"

definition default_distribution :: string where "default_distribution = ''contrib''"

definition index_extension :: "registry_index \<Rightarrow> string \<Rightarrow> string option" where
  "index_extension i distribution =
     (case map_of (idx_extensions i) distribution of
        None \<Rightarrow> None
      | Some ext \<Rightarrow> if ext \<notin> set extensions then None else Some ext)"

definition index_names :: "registry_index \<Rightarrow> string list" where
  "index_names i = sort (map fst (idx_distributions i))"

definition index_versions :: "registry_index \<Rightarrow> string \<Rightarrow> string list" where
  "index_versions i distribution =
     (case map_of (idx_distributions i) distribution of None \<Rightarrow> [] | Some vs \<Rightarrow> vs)"

definition index_sort :: "registry_index \<Rightarrow> registry_index" where
  "index_sort i = i\<lparr>idx_distributions :=
     map (\<lambda>(d, vs). (d, sort_slice (\<lambda>a b. 0 < compare_version a b) vs)) (idx_distributions i)\<rparr>"

definition index_has :: "registry_index \<Rightarrow> string \<Rightarrow> bool" where
  "index_has i distribution \<longleftrightarrow> map_of (idx_distributions i) distribution \<noteq> None"

definition oldest_first :: "string list \<Rightarrow> string list" where
  "oldest_first releases = sort_slice (\<lambda>a b. compare_version a b < 0) releases"

subsection \<open>No difference of version numbers wraps\<close>

lemma cut_fst_no_sep: "c \<notin> set (fst (cut s [c]))"
  by (induction s) (auto split: prod.splits)

lemma cut_subset: "set (fst (cut s sep)) \<subseteq> set s" "set (fst (snd (cut s sep))) \<subseteq> set s"
  by (induction s) (auto split: prod.splits dest: in_set_dropD)

lemma split_n_subset: "w \<in> set (split_n n d s) \<Longrightarrow> set w \<subseteq> set s"
proof (induction n d s rule: split_n.induct)
  case (3 n d s)
  have sub: "set (fst (cut s [d])) \<subseteq> set s" "set (fst (snd (cut s [d]))) \<subseteq> set s"
    by (rule cut_subset)+
  obtain a b f where abf: "cut s [d] = (a, b, f)" by (cases "cut s [d]") auto
  show ?case
  proof (cases f)
    case True
    then show ?thesis using 3 sub abf by auto blast
  qed (use 3 abf in auto)
qed auto

lemma atoi_nonneg: "atoi s = Some n \<Longrightarrow> CHR ''-'' \<notin> set s \<Longrightarrow> 0 \<le> n"
  by (auto simp: parse_int10_def Let_def dest!: parse_uint10_range
      split: list.splits option.splits if_splits)

lemma parse_version_range:
  assumes "n \<in> set (parse_version v)"
  shows "0 \<le> n \<and> n \<le> max_int64"
proof -
  define u where "u = fst (cut (trim_prefix (normalize v) ''v'') ''-'')"
  have no: "CHR ''-'' \<notin> set u" unfolding u_def by (rule cut_fst_no_sep)
  have "n = 0 \<or> (\<exists>w \<in> set (split_n 3 (CHR ''.'') u). atoi w = Some n)"
  proof -
    obtain i where "n = (if length (split_n 3 (CHR ''.'') u) \<le> i then 0
        else (case atoi (split_n 3 (CHR ''.'') u ! i) of None \<Rightarrow> 0 | Some n \<Rightarrow> n))"
      using assms unfolding parse_version_def Let_def u_def [symmetric] by (auto simp only: set_map image_iff)
    then show ?thesis
      by (cases "i < length (split_n 3 (CHR ''.'') u)") (auto split: option.splits)
  qed
  then show ?thesis
    using no split_n_subset atoi_nonneg atoi_range by (fastforce simp: max_int64_def)
qed

lemma parse_version_length [simp]: "length (parse_version v) = 3"
  by (simp add: parse_version_def Let_def)

lemma compare_no_wrap:
  assumes "(x, y) \<in> set (zip (parse_version a) (parse_version b))"
  shows "wrap64 (x - y) = x - y"
proof -
  have "x \<in> set (parse_version a)" "y \<in> set (parse_version b)"
    using assms by (auto dest: set_zip_leftD set_zip_rightD)
  then have "0 \<le> x" "x \<le> max_int64" "0 \<le> y" "y \<le> max_int64"
    using parse_version_range by auto
  then show ?thesis
    by (intro wrap64_id) (auto simp: min_int64_def max_int64_def)
qed

subsection \<open>Compare is a total preorder\<close>

definition version_key_compare :: "string \<Rightarrow> string \<Rightarrow> int" where
  "version_key_compare a b =
     (let c = compare_lists (-) (parse_version a) (parse_version b) in
      if c \<noteq> 0 then c
      else if prerelease a \<noteq> [] \<and> prerelease b \<noteq> [] then compare_prerelease (prerelease a) (prerelease b)
      else if prerelease a \<noteq> [] then - 1
      else if prerelease b \<noteq> [] then 1
      else 0)"

lemma comparator_identifier: "comparator compare_identifier"
proof -
  have "comparator (\<lambda>a b. if int (length (trim_leading_zeros a)) - int (length (trim_leading_zeros b)) \<noteq> 0
      then int (length (trim_leading_zeros a)) - int (length (trim_leading_zeros b))
      else compare_text (trim_leading_zeros a) (trim_leading_zeros b))"
    by (intro comparator_then comparator_on [OF comparator_minus] comparator_on [OF comparator_text])
  moreover have "(if int (length (trim_leading_zeros a)) - int (length (trim_leading_zeros b)) \<noteq> 0
      then int (length (trim_leading_zeros a)) - int (length (trim_leading_zeros b))
      else compare_text (trim_leading_zeros a) (trim_leading_zeros b)) = compare_numeric a b" for a b
    by (simp add: compare_numeric_def Let_def)
  ultimately have "comparator compare_numeric" by simp
  from comparator_split [OF this comparator_text, of is_numeric] show ?thesis
    by (simp add: compare_identifier_def [abs_def])
qed

lemma comparator_prerelease: "comparator compare_prerelease"
  using comparator_on [OF comparator_lists [OF comparator_identifier], of "split_on (CHR ''.'')"]
  by (simp add: compare_prerelease_def [abs_def])

lemma comparator_version_key: "comparator version_key_compare"
  unfolding version_key_compare_def Let_def
  by (intro comparator_then comparator_split comparator_on [OF comparator_lists [OF comparator_minus]]
      comparator_on [OF comparator_prerelease] comparator_zero)

lemma find_diff:
  "length xs = length ys \<Longrightarrow>
   (case find (\<lambda>(x, y). x \<noteq> y) (zip xs ys) of Some (x, y) \<Rightarrow> x - y | None \<Rightarrow> (0 :: int)) =
   compare_lists (-) xs ys"
  by (induction xs ys rule: list_induct2) auto

lemma find_diff_none:
  "length xs = length ys \<Longrightarrow> find (\<lambda>(x, y). x \<noteq> y) (zip xs ys) = None \<longleftrightarrow> xs = ys"
  by (induction xs ys rule: list_induct2) auto

lemma find_diff_some: "find (\<lambda>(x, y). x \<noteq> y) zs = Some (x, y) \<Longrightarrow> x \<noteq> y \<and> (x, y) \<in> set zs"
  by (induction zs) (auto split: if_splits)

lemma compare_version_key: "compare_version a b = version_key_compare a b"
proof -
  let ?f = "find (\<lambda>(x, y). x \<noteq> y) (zip (parse_version a) (parse_version b))"
  have cl: "(case ?f of Some (x, y) \<Rightarrow> x - y | None \<Rightarrow> 0) =
      compare_lists (-) (parse_version a) (parse_version b)"
    by (rule find_diff) simp
  show ?thesis
  proof (cases ?f)
    case None
    then show ?thesis using cl comparator.cmp_refl [OF comparator_prerelease]
      by (auto simp: compare_version_def version_key_compare_def Let_def)
  next
    case (Some p)
    obtain x y where p: "p = (x, y)" by (cases p)
    have "x \<noteq> y" and "wrap64 (x - y) = x - y"
      using find_diff_some [of "zip (parse_version a) (parse_version b)" x y] compare_no_wrap Some p
      by auto
    then show ?thesis using cl Some p
      by (auto simp: compare_version_def version_key_compare_def Let_def)
  qed
qed

interpretation rel: comparator compare_version
  using comparator_version_key by (simp add: compare_version_key [abs_def])

text \<open>
  \<open>schema.Compare\<close> is a total preorder on every pair of strings, well formed or not: swapping
  the arguments swaps the sign, not-newer is transitive, and the difference of the numbers never
  wraps around \<open>int\<close>. Two releases with the same numbers are ordered with the pre-release first.
\<close>

theorem compare_version_order:
  "sgn (compare_version b a) = - sgn (compare_version a b) \<and>
   (compare_version a b \<le> 0 \<longrightarrow> compare_version b c \<le> 0 \<longrightarrow> compare_version a c \<le> 0) \<and>
   (parse_version a \<noteq> parse_version b \<longrightarrow>
      compare_version a b = compare_lists (-) (parse_version a) (parse_version b)) \<and>
   (parse_version a = parse_version b \<and> prerelease a \<noteq> [] \<and> prerelease b = [] \<longrightarrow>
      compare_version a b < 0)"
proof -
  have "compare_lists (-) (parse_version a) (parse_version b) \<noteq> 0" if "parse_version a \<noteq> parse_version b"
    using that find_diff [of "parse_version a" "parse_version b"]
      find_diff_none [of "parse_version a" "parse_version b"]
    by (auto split: option.splits prod.splits dest!: find_diff_some)
  moreover have "compare_lists (-) (parse_version a) (parse_version b) = 0" if "parse_version a = parse_version b"
    using that comparator.cmp_refl [OF comparator_lists [OF comparator_minus]] by simp
  ultimately show ?thesis
    using rel.cmp_antisym [of b a] rel.cmp_trans [of a b c]
    by (auto simp: compare_version_key version_key_compare_def Let_def)
qed

lemma compare_version_order_witness:
  "compare_version ''v0.110.0'' ''v0.120.0'' \<le> 0 \<and> compare_version ''0.120.0-rc.2'' ''0.120.0-rc.10'' < 0 \<and>
   compare_version ''0.120.0-rc.2'' ''v0.120.0'' < 0"
proof -
  have "parse_version ''0.120.0-rc.2'' = parse_version ''v0.120.0''"
    "prerelease ''0.120.0-rc.2'' \<noteq> []" "prerelease ''v0.120.0'' = []"
    by code_simp+
  then have 1: "compare_version ''0.120.0-rc.2'' ''v0.120.0'' < 0"
    using compare_version_order [where a = "''0.120.0-rc.2''" and b = "''v0.120.0''"] by blast
  show ?thesis using 1 by code_simp
qed

text \<open>
  when no schema exists for a release, \<open>Nearest\<close> answers the newest available release that is
  not newer than the one asked for, and answers nothing only when all of them are newer. The list
  it reads is the one the index sorted.
\<close>

theorem nearest_newest:
  assumes "e = \<lparr>uv_version = v, uv_available = index_versions (index_sort i) d, uv_tried = tried\<rparr>"
  shows "case nearest e of
      None \<Rightarrow> \<forall>w \<in> set (index_versions i d). 0 < compare_version w v
    | Some u \<Rightarrow> u \<in> set (index_versions i d) \<and> compare_version u v \<le> 0 \<and>
        (\<forall>w \<in> set (index_versions i d). compare_version w v \<le> 0 \<longrightarrow> compare_version w u \<le> 0)"
proof -
  have vs: "index_versions (index_sort i) d = sort_slice (\<lambda>a b. 0 < compare_version a b) (index_versions i d)"
    by (simp add: index_versions_def index_sort_def map_of_map split: option.splits)
  have near: "nearest e = find (\<lambda>u. compare_version u v \<le> 0)
      (sort_slice (\<lambda>a b. 0 < compare_version a b) (index_versions i d))"
    by (simp add: nearest_def assms vs)
  show ?thesis
  proof (cases "nearest e")
    case None
    from None [unfolded near] show ?thesis by (simp add: None find_None_iff not_le)
  next
    case (Some u)
    from rel.find_newest [OF rel.newest_first_sorted Some [unfolded near]] show ?thesis
      by (simp add: Some)
  qed
qed

lemma nearest_newest_witness:
  "let i = \<lparr>idx_distributions = [(''contrib'', [''v0.110.0'', ''v0.130.0'', ''v0.120.0''])], idx_extensions = []\<rparr>;
       e = \<lparr>uv_version = ''v0.125.0'', uv_available = index_versions (index_sort i) ''contrib'', uv_tried = []\<rparr>
   in nearest e = Some ''v0.120.0'' \<and> compare_version ''v0.110.0'' ''v0.120.0'' \<le> 0"
proof -
  define i where "i = \<lparr>idx_distributions = [(''contrib'', [''v0.110.0'', ''v0.130.0'', ''v0.120.0''])], idx_extensions = []\<rparr>"
  define e where "e = \<lparr>uv_version = ''v0.125.0'', uv_available = index_versions (index_sort i) ''contrib'', uv_tried = []\<rparr>"
  have n: "nearest e = Some ''v0.120.0''" unfolding e_def i_def by code_simp
  have "''v0.110.0'' \<in> set (index_versions i ''contrib'')" "compare_version ''v0.110.0'' ''v0.125.0'' \<le> 0"
    unfolding i_def by code_simp+
  then have "compare_version ''v0.110.0'' ''v0.120.0'' \<le> 0"
    using nearest_newest [OF e_def] n by simp
  then show ?thesis using n by (simp add: e_def i_def)
qed

end
