(* ===== verification/Component.thy ===== *)
theory Component
  imports Strconv
begin

section \<open>Component kinds, signals and identifiers\<close>

text \<open>
  \<open>pkg/config/component.go\<close>: the five kinds of component and the config section that declares
  each, the pipeline signals, and the identifiers \<open>type[/name]\<close> that name component instances.
\<close>

datatype kind = Receiver | Processor | Exporter | Extension | Connector

fun kind_string :: "kind \<Rightarrow> string" where
  "kind_string Receiver = ''receiver''"
| "kind_string Processor = ''processor''"
| "kind_string Exporter = ''exporter''"
| "kind_string Extension = ''extension''"
| "kind_string Connector = ''connector''"

definition kinds :: "kind list" where
  "kinds = [Receiver, Processor, Exporter, Extension, Connector]"

definition section_key :: "kind \<Rightarrow> string" where
  "section_key k = kind_string k @ ''s''"

definition section_kind :: "string \<Rightarrow> kind option" where
  "section_kind key = find (\<lambda>k. section_key k = key) kinds"

type_synonym signal = string

definition signal_traces :: signal where "signal_traces = ''traces''"
definition signal_metrics :: signal where "signal_metrics = ''metrics''"
definition signal_logs :: signal where "signal_logs = ''logs''"
definition signal_profiles :: signal where "signal_profiles = ''profiles''"

definition signals :: "signal list" where
  "signals = [signal_traces, signal_metrics, signal_logs, signal_profiles]"

record cid =
  id_type :: string
  id_name :: string

definition parse_id :: "string \<Rightarrow> cid" where
  "parse_id s = (case cut s ''/'' of (typ, name, _) \<Rightarrow>
     \<lparr>id_type = trim_space typ, id_name = trim_space name\<rparr>)"

definition id_string :: "cid \<Rightarrow> string" where
  "id_string i = (if id_name i = [] then id_type i else id_type i @ ''/'' @ id_name i)"

lemma kinds_all [simp]: "set kinds = UNIV"
  by (auto simp: kinds_def) (metis kind.exhaust)

lemma kinds_distinct [simp]: "distinct kinds"
  by (simp add: kinds_def)

lemma kind_string_inj: "inj kind_string"
proof (rule injI)
  fix a b show "kind_string a = kind_string b \<Longrightarrow> a = b" by (cases a; cases b) simp_all
qed

lemma section_kind_key [simp]: "section_kind (section_key k) = Some k"
  by (cases k) (simp_all add: section_kind_def section_key_def kinds_def)

lemma section_kind_some: "section_kind key = Some k \<longleftrightarrow> key = section_key k"
proof
  assume "section_kind key = Some k"
  then show "key = section_key k"
    by (auto simp: section_kind_def find_Some_iff)
qed simp

subsection \<open>Trimming\<close>

lemma trim_left_space_leading: "leading_space (trim_left_space s) = None"
proof (induction s rule: trim_left_space.induct)
  case (1 s)
  then show ?case by (cases "leading_space s") (simp_all add: trim_left_space.simps [of s])
qed

lemma trim_right_space_trailing: "trailing_space (trim_right_space s) = None"
proof (induction s rule: trim_right_space.induct)
  case (1 s)
  then show ?case by (cases "trailing_space s") (simp_all add: trim_right_space.simps [of s])
qed

lemma trim_right_space_prefix: "prefix (trim_right_space s) s"
proof (induction s rule: trim_right_space.induct)
  case (1 s)
  then show ?case
    by (cases "trailing_space s")
      (auto simp: trim_right_space.simps [of s] intro: prefix_order.trans take_is_prefix)
qed

lemma trim_left_space_suffix: "suffix (trim_left_space s) s"
proof (induction s rule: trim_left_space.induct)
  case (1 s)
  then show ?case
    by (cases "leading_space s")
      (auto simp: trim_left_space.simps [of s] intro: suffix_order.trans suffix_drop)
qed

lemma leading_space_none_prefix: "leading_space s = None \<Longrightarrow> prefix t s \<Longrightarrow> leading_space t = None"
  by (auto simp: leading_space_def find_None_iff dest: prefix_order.trans)

definition trimmed :: "string \<Rightarrow> bool" where
  "trimmed s \<longleftrightarrow> leading_space s = None \<and> trailing_space s = None"

lemma trimmed_trim_space [simp]: "trimmed (trim_space s)"
  unfolding trimmed_def trim_space_def
  using trim_left_space_leading trim_right_space_prefix trim_right_space_trailing
    leading_space_none_prefix by blast

lemma trim_space_trimmed: "trimmed s \<Longrightarrow> trim_space s = s"
  by (simp add: trimmed_def trim_space_def trim_left_space.simps [of s] trim_right_space.simps [of s])

lemma trimmed_nil [simp]: "trimmed []"
  by (simp add: trimmed_def leading_space_code trailing_space_code)

lemma trim_space_nil [simp]: "trim_space [] = []"
  by (simp add: trim_space_trimmed)

lemma trim_space_subset: "set (trim_space s) \<subseteq> set s"
  unfolding trim_space_def
  using set_mono_prefix [OF trim_right_space_prefix] set_mono_suffix [OF trim_left_space_suffix]
  by blast

subsection \<open>Round trip of identifiers\<close>

lemma cut_append_sep: "c \<notin> set a \<Longrightarrow> cut (a @ c # b) [c] = (a, b, True)"
  by (induction a) auto

lemma cut_no_sep: "c \<notin> set a \<Longrightarrow> cut a [c] = (a, [], False)"
  by (induction a) auto

lemma cut_head_no_sep: "c \<notin> set (fst (cut s [c]))"
  by (induction s) (auto split: prod.splits)

lemma parse_id_string:
  assumes "CHR ''/'' \<notin> set (id_type i)" "trimmed (id_type i)" "trimmed (id_name i)"
  shows "parse_id (id_string i) = i"
  using assms by (simp add: parse_id_def id_string_def cut_append_sep cut_no_sep trim_space_trimmed)

text \<open>
  reading a component key and writing it back gives a key that is read as the same identifier,
  for every key, however it is spaced; and an identifier whose type has no slash survives being
  written as a key and read, when neither part is surrounded by space.
\<close>

theorem parse_id_roundtrip:
  "parse_id (id_string (parse_id s)) = parse_id s \<and>
   (CHR ''/'' \<notin> set (id_type i) \<and> trimmed (id_type i) \<and> trimmed (id_name i) \<longrightarrow>
      parse_id (id_string i) = i)"
proof -
  obtain a b f where c: "cut s ''/'' = (a, b, f)" by (cases "cut s ''/''") auto
  then have "CHR ''/'' \<notin> set a" using cut_head_no_sep [of "CHR ''/''" s] by simp
  then have "CHR ''/'' \<notin> set (trim_space a)" using trim_space_subset by blast
  then show ?thesis
    using c parse_id_string [of "parse_id s"] parse_id_string [of i] by (auto simp: parse_id_def)
qed

lemma parse_id_roundtrip_witness:
  "parse_id (id_string \<lparr>id_type = ''otlp'', id_name = ''in/2''\<rparr>) = \<lparr>id_type = ''otlp'', id_name = ''in/2''\<rparr> \<and>
   parse_id '' otlp / in '' = \<lparr>id_type = ''otlp'', id_name = ''in''\<rparr>"
proof -
  have "CHR ''/'' \<notin> set ''otlp'' \<and> trimmed ''otlp'' \<and> trimmed ''in/2''" by code_simp
  then have "parse_id (id_string \<lparr>id_type = ''otlp'', id_name = ''in/2''\<rparr>) = \<lparr>id_type = ''otlp'', id_name = ''in/2''\<rparr>"
    using parse_id_roundtrip [where i = "\<lparr>id_type = ''otlp'', id_name = ''in/2''\<rparr>"] by simp
  moreover have "parse_id '' otlp / in '' = \<lparr>id_type = ''otlp'', id_name = ''in''\<rparr>" by code_simp
  ultimately show ?thesis by simp
qed

text \<open>
  A top-level key names a component section exactly when it is the plural of a kind, and then
  \<open>SectionKind\<close> answers that kind: the two functions are inverse to each other.
\<close>

theorem section_kind_inverse:
  "(section_kind key = Some k \<longleftrightarrow> section_key k = key) \<and> (section_kind key = None \<longleftrightarrow> key \<notin> section_key ` set kinds)"
  using section_kind_some [of key] by (auto simp: section_kind_def find_None_iff)

end
