(* ===== verification/Spans.thy ===== *)
theory Spans
  imports Component Releases Sets
begin

section \<open>Component availability: releases collapsed into spans\<close>

text \<open>
  \<open>pkg/schema/components.go\<close>: which releases ship each component type, stored as runs of
  consecutive releases (\<open>SpansOf\<close>) and read back against the releases a registry serves
  (\<open>Expand\<close>). Writing the JSON document is not modelled.
\<close>

definition components_file :: string where "components_file = ''components.json''"

record span =
  sp_from :: string
  sp_to :: string

type_synonym component_spans = "(kind \<times> (string \<times> span list) list) list"

record components_doc =
  cd_distributions :: "(string \<times> component_spans) list"

definition span_covers :: "span \<Rightarrow> string \<Rightarrow> bool" where
  "span_covers s version =
     (if compare_version version (sp_from s) < 0 then False
      else sp_to s = [] \<or> compare_version version (sp_to s) \<le> 0)"

text \<open>One step of the loop of \<open>SpansOf\<close>: the spans so far and \<open>cur\<close>, the open run or -1.\<close>

fun spans_step :: "string go_set \<Rightarrow> span list \<times> int \<Rightarrow> string \<Rightarrow> span list \<times> int" where
  "spans_step present (spans, cur) v =
     (if \<not> set_has present v then (spans, - 1)
      else if cur < 0 then
        (let spans' = spans @ [\<lparr>sp_from = v, sp_to = v\<rparr>] in (spans', int (length spans') - 1))
      else (spans[nat cur := (spans ! nat cur)\<lparr>sp_to := v\<rparr>], cur))"

definition spans_of :: "string list \<Rightarrow> string go_set \<Rightarrow> span list" where
  "spans_of releases present =
     (let ordered = oldest_first releases;
          spans = fst (foldl (spans_step present) ([], - 1) ordered)
      in if 0 < length spans \<and> 0 < length ordered \<and>
            sp_to (spans ! (length spans - 1)) = ordered ! (length ordered - 1)
         then spans[length spans - 1 := (spans ! (length spans - 1))\<lparr>sp_to := []\<rparr>]
         else spans)"

definition covers :: "span list \<Rightarrow> string \<Rightarrow> bool" where
  "covers spans version \<longleftrightarrow> list_ex (\<lambda>s. span_covers s version) spans"

definition expand :: "components_doc \<Rightarrow> string \<Rightarrow> string list \<Rightarrow> (kind \<times> (string \<times> string list) list) list option" where
  "expand c distribution releases =
     (case map_of (cd_distributions c) distribution of
        None \<Rightarrow> None
      | Some by_kind \<Rightarrow>
          (let ordered = oldest_first releases in
           Some (map (\<lambda>(k, by_type). (k, map (\<lambda>(typ, spans). (typ, filter (covers spans) ordered)) by_type)) by_kind)))"

definition components_has :: "components_doc \<Rightarrow> string \<Rightarrow> bool" where
  "components_has c distribution \<longleftrightarrow> map_of (cd_distributions c) distribution \<noteq> None"

subsection \<open>The loop invariant of SpansOf\<close>

text \<open>
  After the releases \<open>done\<close>, sorted strictly oldest first: the spans cover exactly the releases of
  \<open>done\<close> that ship the component, they reach into \<open>done\<close> only, and \<open>cur\<close> names the last span,
  ending at the last release, exactly when that release ships it.
\<close>

definition spans_inv :: "string go_set \<Rightarrow> string list \<Rightarrow> span list \<times> int \<Rightarrow> bool" where
  "spans_inv present done st \<longleftrightarrow>
     (\<forall>w \<in> set done. covers (fst st) w \<longleftrightarrow> set_has present w) \<and>
     (\<forall>s \<in> set (fst st). sp_from s \<in> set done \<and> sp_to s \<in> set done) \<and>
     (if done \<noteq> [] \<and> set_has present (last done)
      then fst st \<noteq> [] \<and> snd st = int (length (fst st)) - 1 \<and> sp_to (last (fst st)) = last done
      else snd st = - 1)"

lemma covers_append [simp]: "covers (xs @ ys) v \<longleftrightarrow> covers xs v \<or> covers ys v"
  by (simp add: covers_def)

lemma covers_single: "covers [s] v \<longleftrightarrow> span_covers s v"
  by (simp add: covers_def)

lemma span_covers_iff:
  "span_covers s v \<longleftrightarrow> compare_version (sp_from s) v \<le> 0 \<and> (sp_to s = [] \<or> compare_version v (sp_to s) \<le> 0)"
  using rel.cmp_le_iff [of "sp_from s" v] by (auto simp: span_covers_def)

lemma spans_step_inv:
  assumes inv: "spans_inv present done st" and names: "[] \<notin> set (done @ [v])"
    and newer: "\<forall>w \<in> set done. compare_version w v < 0"
    and ordered: "sorted_wrt (\<lambda>x y. compare_version x y < 0) done"
  shows "spans_inv present (done @ [v]) (spans_step present st v)"
proof -
  obtain spans cur where st: "st = (spans, cur)" by (cases st)
  have old: "\<not> covers spans v"
  proof
    assume "covers spans v"
    then obtain s where s: "s \<in> set spans" "span_covers s v" by (auto simp: covers_def list_ex_iff)
    then have "sp_to s \<in> set done" using inv st by (auto simp: spans_inv_def)
    then have "compare_version (sp_to s) v < 0" "sp_to s \<noteq> []" using newer names by auto
    then show False
      using s(2) rel.cmp_le_iff [of v "sp_to s"] by (simp add: span_covers_iff)
  qed
  have self: "compare_version v v = 0" by (rule rel.cmp_refl)
  have before: "0 < compare_version v w" if "w \<in> set done" for w
    using newer that rel.cmp_less_iff by blast
  consider (absent) "\<not> set_has present v" | (fresh) "set_has present v" "cur < 0"
    | (grow) "set_has present v" "\<not> cur < 0" by blast
  then show ?thesis
  proof cases
    case absent
    then show ?thesis using inv old st by (auto simp: spans_inv_def simp del: set_has_elems)
  next
    case fresh
    then show ?thesis
      using inv st before self old names
      by (auto simp: spans_inv_def Let_def covers_single span_covers_iff simp del: set_has_elems)
        (meson before leD)+
  next
    case grow
    then have last: "done \<noteq> [] \<and> set_has present (last done)" "spans \<noteq> []"
      "cur = int (length spans) - 1" "sp_to (last spans) = last done"
      using inv st by (auto simp: spans_inv_def simp del: set_has_elems split: if_splits)
    obtain init l where spans: "spans = init @ [l]" using last(2) by (cases spans rule: rev_cases) auto
    have upd: "spans_step present st v = (init @ [l\<lparr>sp_to := v\<rparr>], cur)"
      using grow st spans last(3) by (simp del: set_has_elems)
    have l: "sp_from l \<in> set done" "sp_to l = last done" "last done \<noteq> []"
      using inv st spans last names by (auto simp: spans_inv_def simp del: set_has_elems)
    have to: "compare_version w (last done) \<le> 0" if "w \<in> set done" for w
      using that ordered last(1)
      by (cases "done" rule: rev_cases) (auto simp: sorted_wrt_append rel.cmp_refl)
    have same: "span_covers (l\<lparr>sp_to := v\<rparr>) w \<longleftrightarrow> span_covers l w" if "w \<in> set done" for w
      using that to newer l names by (auto simp: span_covers_iff)
    have "compare_version (sp_from l) v \<le> 0" using l newer by fastforce
    then have here: "span_covers (l\<lparr>sp_to := v\<rparr>) v" by (simp add: span_covers_iff self)
    show ?thesis
      using inv upd st spans same here grow(1) last(3)
      by (auto simp: spans_inv_def covers_single simp del: set_has_elems)
  qed
qed

lemma spans_fold_inv:
  assumes "[] \<notin> set xs" "sorted_wrt (\<lambda>x y. compare_version x y < 0) xs"
  shows "spans_inv present xs (foldl (spans_step present) ([], - 1) xs)"
  using assms
proof (induction xs rule: rev_induct)
  case Nil
  then show ?case by (simp add: spans_inv_def)
next
  case (snoc v xs)
  then show ?case by (auto simp: sorted_wrt_append intro!: spans_step_inv)
qed

text \<open>Opening the last span loses nothing: every release served is at most the newest one.\<close>

lemma spans_of_covers:
  assumes names: "[] \<notin> set releases" "distinct releases"
    and order: "\<And>a b. a \<in> set releases \<Longrightarrow> b \<in> set releases \<Longrightarrow> compare_version a b = 0 \<Longrightarrow> a = b"
  shows "\<forall>v \<in> set releases. covers (spans_of releases present) v \<longleftrightarrow> set_has present v"
    and "releases \<noteq> [] \<Longrightarrow> \<forall>w \<in> set releases. compare_version w v < 0 \<Longrightarrow>
      covers (spans_of releases present) v \<longleftrightarrow> set_has present (last (oldest_first releases))"
proof -
  define xs where "xs = oldest_first releases"
  define st where "st = foldl (spans_step present) ([], - 1) xs"
  have set_xs: "set xs = set releases" and dist: "distinct xs"
    using names(2) by (simp_all add: xs_def oldest_first_def)
  have sorted: "sorted_wrt (\<lambda>x y. compare_version x y < 0) xs"
  proof (rule sorted_wrt_strict [OF _ dist])
    show "sorted_wrt (\<lambda>x y. compare_version x y \<le> 0) xs"
      unfolding xs_def oldest_first_def by (rule rel.oldest_first_sorted)
  qed (use order set_xs in fastforce)
  have inv: "spans_inv present xs st"
    unfolding st_def using names(1) set_xs sorted by (intro spans_fold_inv) auto
  have newest: "compare_version w (last xs) \<le> 0" if "w \<in> set xs" for w
    using that sorted by (cases xs rule: rev_cases) (auto simp: sorted_wrt_append rel.cmp_refl)
  define open_last where "open_last \<longleftrightarrow> fst st \<noteq> [] \<and> xs \<noteq> [] \<and> sp_to (last (fst st)) = last xs"
  have spans: "spans_of releases present =
      (if open_last then butlast (fst st) @ [(last (fst st))\<lparr>sp_to := []\<rparr>] else fst st)"
    unfolding spans_of_def Let_def xs_def [symmetric] st_def [symmetric] open_last_def
    by (auto simp: last_conv_nth list_update_append simp flip: append_butlast_last_id
        elim!: list.set_cases) (cases "fst st" rule: rev_cases; simp)+
  have last_open: "span_covers ((last (fst st))\<lparr>sp_to := []\<rparr>) w \<longleftrightarrow> span_covers (last (fst st)) w"
    if "open_last" "w \<in> set xs" for w
    using that newest by (auto simp: open_last_def span_covers_iff)
  have split: "covers (fst st) w \<longleftrightarrow> covers (butlast (fst st)) w \<or> span_covers (last (fst st)) w"
    if open_last for w
    using that covers_append [of "butlast (fst st)" "[last (fst st)]" w]
    by (simp add: open_last_def covers_single)
  show "\<forall>v \<in> set releases. covers (spans_of releases present) v \<longleftrightarrow> set_has present v"
    using inv set_xs spans last_open split
    by (auto simp: spans_inv_def covers_single simp del: set_has_elems)
  assume "releases \<noteq> []" and later: "\<forall>w \<in> set releases. compare_version w v < 0"
  then have ne: "xs \<noteq> []" using set_xs by auto
  have none: "\<not> span_covers s v" if "s \<in> set (fst st)" for s
  proof -
    have "sp_to s \<in> set xs" using inv that by (auto simp: spans_inv_def)
    then have "compare_version (sp_to s) v < 0" "sp_to s \<noteq> []" using later set_xs names by auto
    then show ?thesis using rel.cmp_le_iff [of v "sp_to s"] by (simp add: span_covers_iff)
  qed
  have "open_last \<longleftrightarrow> set_has present (last xs)"
  proof
    assume o: open_last
    then have l: "last (fst st) \<in> set (fst st)" "sp_to (last (fst st)) = last xs"
      by (auto simp: open_last_def)
    then have "span_covers (last (fst st)) (last xs)"
      using inv newest by (auto simp: spans_inv_def span_covers_iff rel.cmp_refl)
    then have "covers (fst st) (last xs)" using l(1) by (auto simp: covers_def list_ex_iff)
    then show "set_has present (last xs)"
      using inv ne by (simp add: spans_inv_def del: set_has_elems)
  next
    assume "set_has present (last xs)"
    then show open_last
      using inv ne by (simp add: spans_inv_def open_last_def del: set_has_elems)
  qed
  moreover have "covers (spans_of releases present) v \<longleftrightarrow> open_last"
  proof (cases open_last)
    case True
    then have l: "last (fst st) \<in> set (fst st)" by (simp add: open_last_def)
    then have "compare_version (sp_from (last (fst st))) v < 0"
      using inv later set_xs by (auto simp: spans_inv_def)
    then show ?thesis using True spans by (simp add: covers_single span_covers_iff)
  next
    case False
    then show ?thesis using spans none by (auto simp: covers_def list_ex_iff)
  qed
  ultimately show "covers (spans_of releases present) v \<longleftrightarrow> set_has present (last (oldest_first releases))"
    by (simp add: xs_def)
qed

text \<open>The document a generator writes for an inventory of component types per kind.\<close>

abbreviation spans_doc ::
  "string \<Rightarrow> string list \<Rightarrow> (kind \<times> (string \<times> string go_set) list) list \<Rightarrow> components_doc" where
  "spans_doc d releases inventory \<equiv>
     \<lparr>cd_distributions =
        [(d, map (\<lambda>(k, ts). (k, map (\<lambda>(t, present). (t, spans_of releases present)) ts)) inventory)]\<rparr>"

text \<open>
  C12: an inventory collapsed with \<open>SpansOf\<close> and expanded again against the releases a registry
  still serves gives back exactly the releases that ship each component, oldest first; and a
  release newer than all of them is covered exactly when the newest one ships the component. The
  releases have names and \<open>Compare\<close> tells them apart.
\<close>

theorem expand_spans_roundtrip:
  assumes "[] \<notin> set releases" "distinct releases"
    and "\<forall>a \<in> set releases. \<forall>b \<in> set releases. compare_version a b = 0 \<longrightarrow> a = b"
    and "set served \<subseteq> set releases"
  shows "expand (spans_doc d releases inventory) d served =
      Some (map (\<lambda>(k, ts). (k, map (\<lambda>(t, present). (t, filter (set_has present) (oldest_first served))) ts)) inventory)
    \<and> (releases \<noteq> [] \<longrightarrow> (\<forall>w \<in> set releases. compare_version w v < 0) \<longrightarrow>
      (covers (spans_of releases present) v \<longleftrightarrow> set_has present (last (oldest_first releases))))"
    (is "?expand \<and> ?newer")
proof
  have "filter (covers (spans_of releases present)) (oldest_first served) =
      filter (set_has present) (oldest_first served)" for present
    using spans_of_covers(1) [of releases present] assms
    by (intro filter_cong) (auto simp: oldest_first_def)
  then show ?expand by (auto simp: expand_def Let_def)
  show ?newer
    using spans_of_covers(2) assms by blast
qed

lemma expand_spans_roundtrip_witness:
  "let releases = [''v0.101.0'', ''v0.100.0'']; present = set_new [''v0.101.0''] in
   expand (spans_doc ''core'' releases [(Receiver, [(''otlp'', present)])]) ''core'' releases =
     Some [(Receiver, [(''otlp'', [''v0.101.0''])])] \<and>
   covers (spans_of releases present) ''v0.102.0''"
proof -
  define releases where "releases = [''v0.101.0'', ''v0.100.0'']"
  define present where "present = set_new [''v0.101.0'']"
  have 1: "[] \<notin> set releases" "distinct releases" by (simp_all add: releases_def)
  have 2: "\<forall>a \<in> set releases. \<forall>b \<in> set releases. compare_version a b = 0 \<longrightarrow> a = b"
    unfolding releases_def by code_simp
  have 3: "\<forall>w \<in> set releases. compare_version w ''v0.102.0'' < 0"
    unfolding releases_def by code_simp
  have 4: "set_has present (last (oldest_first releases))"
    "filter (set_has present) (oldest_first releases) = [''v0.101.0'']"
    unfolding releases_def present_def by code_simp+
  note rt = expand_spans_roundtrip [OF 1 2 order_refl, where d = "''core''" and
      inventory = "[(Receiver, [(''otlp'', present)])]" and v = "''v0.102.0''" and present = present]
  have "expand (spans_doc ''core'' releases [(Receiver, [(''otlp'', present)])]) ''core'' releases =
      Some [(Receiver, [(''otlp'', [''v0.101.0''])])]"
    using rt 4(2) by (simp del: set_has_elems)
  moreover have "covers (spans_of releases present) ''v0.102.0''"
    using rt 3 4(1) by (simp add: releases_def del: set_has_elems)
  ultimately show ?thesis by (simp add: releases_def present_def)
qed

end
