(* ===== verification/Diag.thy ===== *)
theory Diag
  imports Strconv Slices
begin

section \<open>Diagnostics\<close>

text \<open>
  \<open>pkg/diag/diag.go\<close>: severities, positions, diagnostics and the order they are printed in. A Go
  \<open>Severity\<close> is a string with four constants and the empty string for "not set"; the constants are
  the datatype \<open>severity\<close>, and a place where the code keeps an unset severity is an option.
\<close>

datatype severity = Error | Warning | Info | Off

fun severity_string :: "severity \<Rightarrow> string" where
  "severity_string Error = ''error''"
| "severity_string Warning = ''warning''"
| "severity_string Info = ''info''"
| "severity_string Off = ''off''"

definition unknown_severity_message :: "string \<Rightarrow> string" where
  "unknown_severity_message s =
     ''unknown severity '' @ go_quote s @ '' (want error, warning, info or off)''"

definition parse_severity :: "string \<Rightarrow> severity go_result" where
  "parse_severity s =
     (let t = to_lower (trim_space s) in
      if t = ''error'' then Inr Error
      else if t = ''warning'' then Inr Warning
      else if t = ''info'' then Inr Info
      else if t = ''off'' then Inr Off
      else Inl (unknown_severity_message s))"

fun severity_rank :: "severity \<Rightarrow> int" where
  "severity_rank Error = 0"
| "severity_rank Warning = 1"
| "severity_rank Info = 2"
| "severity_rank Off = 3"

definition at_least :: "severity \<Rightarrow> severity \<Rightarrow> bool" where
  "at_least s floor \<longleftrightarrow> severity_rank s \<le> severity_rank floor"

record position =
  pos_file :: string
  pos_line :: int
  pos_column :: int

definition position_string :: "position \<Rightarrow> string" where
  "position_string p =
     (if pos_line p = 0 then pos_file p
      else if pos_column p = 0 then pos_file p @ '':'' @ itoa (pos_line p)
      else pos_file p @ '':'' @ itoa (pos_line p) @ '':'' @ itoa (pos_column p))"

record diagnostic =
  d_rule :: string
  d_severity :: severity
  d_message :: string
  d_position :: position
  d_path :: string
  d_hint :: string
  d_docs :: string

definition diag_less :: "diagnostic \<Rightarrow> diagnostic \<Rightarrow> bool" where
  "diag_less a b \<longleftrightarrow>
     (let pa = d_position a; pb = d_position b in
      if pos_file pa \<noteq> pos_file pb then pos_file pa < pos_file pb
      else if pos_line pa \<noteq> pos_line pb then pos_line pa < pos_line pb
      else if pos_column pa \<noteq> pos_column pb then pos_column pa < pos_column pb
      else d_rule a < d_rule b)"

definition diag_sort :: "diagnostic list \<Rightarrow> diagnostic list" where
  "diag_sort d = sort_slice diag_less d"

definition diag_count :: "severity \<Rightarrow> diagnostic list \<Rightarrow> nat" where
  "diag_count s d = foldl (\<lambda>n x. if d_severity x = s then n + 1 else n) 0 d"

definition has_errors :: "diagnostic list \<Rightarrow> bool" where
  "has_errors d \<longleftrightarrow> 0 < diag_count Error d"

subsection \<open>Severities\<close>

lemma severity_rank_inj [simp]: "severity_rank a = severity_rank b \<longleftrightarrow> a = b"
  by (cases a; cases b) simp_all

lemma at_least_refl [simp]: "at_least s s"
  by (simp add: at_least_def)

lemma at_least_trans: "at_least a b \<Longrightarrow> at_least b c \<Longrightarrow> at_least a c"
  by (simp add: at_least_def)

lemma at_least_off [simp]: "at_least s Off"
  by (cases s) (simp_all add: at_least_def)

lemma at_least_error: "at_least s Error \<longleftrightarrow> s = Error"
  by (cases s) (simp_all add: at_least_def)

lemma parse_severity_string: "parse_severity (severity_string s) = Inr s"
proof -
  have "list_all (\<lambda>s. parse_severity (severity_string s) = Inr s) [Error, Warning, Info, Off]"
    by code_simp
  then show ?thesis by (cases s) simp_all
qed

lemma diag_count_acc:
  "foldl (\<lambda>n x. if d_severity x = s then n + 1 else n) (n :: nat) d = n + length (filter (\<lambda>x. d_severity x = s) d)"
  by (induction d arbitrary: n) simp_all

lemma diag_count_eq: "diag_count s d = length (filter (\<lambda>x. d_severity x = s) d)"
  by (simp add: diag_count_def diag_count_acc)

lemma diag_count_append [simp]: "diag_count s (xs @ ys) = diag_count s xs + diag_count s ys"
  by (simp add: diag_count_eq)

lemma has_errors_iff: "has_errors d \<longleftrightarrow> (\<exists>x \<in> set d. d_severity x = Error)"
  by (auto simp: has_errors_def diag_count_eq filter_empty_conv)

subsection \<open>The order of a report\<close>

definition diag_compare :: "diagnostic \<Rightarrow> diagnostic \<Rightarrow> int" where
  "diag_compare a b =
     (let f = compare_text (pos_file (d_position a)) (pos_file (d_position b));
          l = pos_line (d_position a) - pos_line (d_position b);
          c = pos_column (d_position a) - pos_column (d_position b) in
      if f \<noteq> 0 then f else if l \<noteq> 0 then l else if c \<noteq> 0 then c
      else compare_text (d_rule a) (d_rule b))"

lemma comparator_diag: "comparator diag_compare"
  unfolding diag_compare_def Let_def
  by (intro comparator_then comparator_on [OF comparator_text] comparator_on [OF comparator_minus])

lemma diag_less_compare: "diag_less a b \<longleftrightarrow> diag_compare a b < 0"
  by (simp add: diag_less_def diag_compare_def Let_def compare_text_def)

interpretation diags: comparator diag_compare
  by (rule comparator_diag)

lemma diag_sort_compare: "diag_sort = sort_slice (\<lambda>a b. diag_compare a b < 0)"
  by (simp add: diag_sort_def [abs_def] diag_less_compare [abs_def])

text \<open>Two diagnostics the order does not tell apart: same position and same rule.\<close>

definition same_place :: "diagnostic \<Rightarrow> diagnostic \<Rightarrow> bool" where
  "same_place a b \<longleftrightarrow> d_position a = d_position b \<and> d_rule a = d_rule b"

lemma same_place_iff: "same_place a b \<longleftrightarrow> \<not> diag_less a b \<and> \<not> diag_less b a"
  by (auto simp: same_place_def diag_less_def Let_def not_less_iff_gr_or_eq split: if_splits)

text \<open>
  \<open>Diagnostics.Sort\<close> only reorders the findings, puts no finding before one that is earlier in
  file, line, column and rule name, and keeps the findings of one rule at one position in the order
  they were reported in.
\<close>

theorem diag_sort_correct:
  "mset (diag_sort d) = mset d \<and>
   sorted_wrt (\<lambda>a b. \<not> diag_less b a) (diag_sort d) \<and>
   filter (same_place x) (diag_sort d) = filter (same_place x) d"
proof -
  have "filter (same_place x) (diag_sort d) = filter (same_place x) d"
    using diags.sort_slice_stable [of x d]
    by (simp add: same_place_iff [abs_def] diag_sort_compare diag_less_compare)
  then show ?thesis
    using diags.sort_slice_sorted [of d] by (simp add: diag_sort_compare diag_less_compare)
qed

end
