(* ===== verification/Text.thy ===== *)
theory Text
  imports Strconv
begin

section \<open>Names, paths and suggestions\<close>

text \<open>
  \<open>pkg/rule/text.go\<close> and the string half of \<open>pkg/rule/node.go\<close>: how a finding quotes and lists
  names, the paths it is reported at, the "did you mean" suggestion with its edit distance, and
  the confmap expansions \<open>${env:HOST}\<close> inside a scalar.
\<close>

subsection \<open>text.go: phrases\<close>

definition list_names :: "string list \<Rightarrow> string" where
  "list_names items =
     (let items' = (if 8 < length items then take 8 items @ [''...''] else items)
      in join_strings '', '' items')"

definition article :: "string \<Rightarrow> string" where
  "article word =
     (case word of
        [] \<Rightarrow> ''a''
      | c # _ \<Rightarrow> if c \<in> set ''aeiou'' then ''an'' else ''a'')"

definition sorted_keys :: "(string \<times> 'v) list \<Rightarrow> string list" where
  "sorted_keys m = sort (map fst m)"

definition component_of :: "string \<Rightarrow> string" where
  "component_of path =
     (let parts = split_n 3 (CHR ''.'') path in
      if length parts < 2 then path else parts ! 0 @ ''.'' @ parts ! 1)"

definition short_path :: "string \<Rightarrow> string" where
  "short_path path =
     (let parts = split_n 3 (CHR ''.'') path in if length parts < 3 then path else parts ! 2)"

definition join_path :: "string \<Rightarrow> string \<Rightarrow> string" where
  "join_path parent key = (if parent = [] then key else parent @ ''.'' @ key)"

definition index_path :: "string \<Rightarrow> nat \<Rightarrow> string" where
  "index_path path i = path @ ''['' @ itoa (int i) @ '']''"

subsection \<open>text.go: the edit distance\<close>

text \<open>
  The two rows of the matrix are the two slices of the code, updated by index and swapped after
  each row. \<open>curr\<close> keeps the values of the row before last until they are overwritten.
\<close>

definition edit_cell :: "char \<Rightarrow> string \<Rightarrow> nat list \<Rightarrow> nat list \<Rightarrow> nat \<Rightarrow> nat list" where
  "edit_cell c b prev row j =
     (let cost = (if c = b ! (j - 1) then 0 else 1)
      in row[j := min (prev ! j + 1) (min (row ! (j - 1) + 1) (prev ! (j - 1) + cost))])"

definition edit_row :: "string \<Rightarrow> string \<Rightarrow> nat list \<times> nat list \<Rightarrow> nat \<Rightarrow> nat list \<times> nat list" where
  "edit_row a b = (\<lambda>(prev, row) i.
     (foldl (edit_cell (a ! (i - 1)) b prev) (row[0 := i]) [1..<length b + 1], prev))"

definition edit_distance :: "string \<Rightarrow> string \<Rightarrow> nat" where
  "edit_distance a b =
     fst (foldl (edit_row a b) ([0..<length b + 1], replicate (length b + 1) 0) [1..<length a + 1])
       ! length b"

fun best_loop :: "string \<Rightarrow> string \<Rightarrow> string \<Rightarrow> nat \<Rightarrow> string list \<Rightarrow> string \<times> bool" where
  "best_loop trimmed squashed best best_dist [] = (best, best \<noteq> [])"
| "best_loop trimmed squashed best best_dist (c # cs) =
     (if remove_chars ''_'' c = squashed then (c, True)
      else let d = edit_distance trimmed c in
        if d < best_dist then best_loop trimmed squashed c d cs
        else best_loop trimmed squashed best best_dist cs)"

definition package_suffixes :: "string list" where
  "package_suffixes = [''receiver'', ''processor'', ''exporter'', ''extension'', ''connector'']"

definition trim_package :: "string \<Rightarrow> string" where
  "trim_package got =
     (case find (\<lambda>suf. cut_suffix got suf \<noteq> None \<and> cut_suffix got suf \<noteq> Some []) package_suffixes of
        Some suf \<Rightarrow> the (cut_suffix got suf)
      | None \<Rightarrow> got)"

definition best_match :: "string \<Rightarrow> string list \<Rightarrow> string \<times> bool" where
  "best_match got candidates =
     (let trimmed = trim_package (to_lower got); squashed = remove_chars ''_'' trimmed
      in best_loop trimmed squashed [] 3 candidates)"

definition suggest :: "string \<Rightarrow> string list \<Rightarrow> string" where
  "suggest got candidates =
     (case best_match got candidates of (best, ok) \<Rightarrow>
        if ok then ''; did you mean '' @ quote best @ ''?'' else [])"

subsection \<open>node.go: confmap expansions\<close>

text \<open>
  The matches of the expression \<open>\$\$|\$\{[^}]*\}|\$[A-Za-z_][A-Za-z0-9_]*\<close>, leftmost first and
  not overlapping: a string is cut into matches and the single bytes between them.
\<close>

datatype segment = Plain char | Match string

definition ident_start :: "char \<Rightarrow> bool" where
  "ident_start c \<longleftrightarrow>
     (let n = of_char c :: int in 65 \<le> n \<and> n \<le> 90 \<or> 97 \<le> n \<and> n \<le> 122 \<or> n = 95)"

definition ident_char :: "char \<Rightarrow> bool" where
  "ident_char c \<longleftrightarrow> ident_start c \<or> is_digit c"

text \<open>The length of the match at the start of a string, if there is one.\<close>

definition expansion_match :: "string \<Rightarrow> nat option" where
  "expansion_match s =
     (case s of
        d # c # r \<Rightarrow>
          if d \<noteq> CHR ''$'' then None
          else if c = CHR ''$'' then Some 2
          else if c = CHR ''{'' then
            (if CHR 0x7D \<in> set r then Some (3 + length (takeWhile (\<lambda>x. x \<noteq> CHR 0x7D) r)) else None)
          else if ident_start c then Some (2 + length (takeWhile ident_char r))
          else None
      | _ \<Rightarrow> None)"

lemma expansion_match_pos: "expansion_match s = Some n \<Longrightarrow> 2 \<le> n \<and> n \<le> length s"
proof -
  have "length (takeWhile (\<lambda>x. x \<noteq> c) r) < length r" if "c \<in> set r" for c :: char and r
    using that by (induction r) auto
  then show "expansion_match s = Some n \<Longrightarrow> 2 \<le> n \<and> n \<le> length s"
    by (auto simp: expansion_match_def length_takeWhile_le Suc_le_eq split: list.splits if_splits)
qed

function segments :: "string \<Rightarrow> segment list" where
  "segments [] = []"
| "segments (c # cs) =
     (case expansion_match (c # cs) of
        Some n \<Rightarrow> Match (take n (c # cs)) # segments (drop n (c # cs))
      | None \<Rightarrow> Plain c # segments cs)"
  by pat_completeness auto
termination
  by (relation "measure length") (auto dest!: expansion_match_pos)

fun segment_text :: "segment \<Rightarrow> string" where
  "segment_text (Plain c) = [c]"
| "segment_text (Match m) = m"

definition has_expansion :: "string \<Rightarrow> bool" where
  "has_expansion s \<longleftrightarrow> (\<exists>x \<in> set (segments s). case x of Match m \<Rightarrow> m \<noteq> ''$$'' | Plain _ \<Rightarrow> False)"

definition mask_expansions :: "string \<Rightarrow> string \<Rightarrow> string" where
  "mask_expansions value msk =
     concat (map (\<lambda>x. case x of Match m \<Rightarrow> if m = ''$$'' then m else msk | Plain c \<Rightarrow> [c]) (segments value))"

subsection \<open>The edit distance is the least number of edits\<close>

text \<open>Editing one string into another, at the end, with \<open>n\<close> single-byte edits.\<close>

inductive edits :: "nat \<Rightarrow> string \<Rightarrow> string \<Rightarrow> bool" where
  edits_nil: "edits 0 [] []"
| edits_keep: "edits n a b \<Longrightarrow> edits n (a @ [c]) (b @ [c])"
| edits_replace: "edits n a b \<Longrightarrow> edits (Suc n) (a @ [c]) (b @ [d])"
| edits_insert: "edits n a b \<Longrightarrow> edits (Suc n) a (b @ [d])"
| edits_delete: "edits n a b \<Longrightarrow> edits (Suc n) (a @ [c]) b"

text \<open>The recurrence of the matrix: row \<open>i\<close>, column \<open>j\<close>, over the prefixes of both strings.\<close>

fun edit_matrix :: "string \<Rightarrow> string \<Rightarrow> nat \<Rightarrow> nat \<Rightarrow> nat" where
  "edit_matrix a b 0 j = j"
| "edit_matrix a b (Suc i) 0 = Suc i"
| "edit_matrix a b (Suc i) (Suc j) =
     min (edit_matrix a b i (Suc j) + 1)
       (min (edit_matrix a b (Suc i) j + 1) (edit_matrix a b i j + (if a ! i = b ! j then 0 else 1)))"

lemma edit_matrix_col0 [simp]: "edit_matrix a b i 0 = i"
  by (cases i) simp_all

lemma edit_matrix_edits:
  "i \<le> length a \<Longrightarrow> j \<le> length b \<Longrightarrow> edits (edit_matrix a b i j) (take i a) (take j b)"
proof (induction a b i j rule: edit_matrix.induct)
  case (1 a b j)
  then show ?case
    by (induction j) (auto simp: take_Suc_conv_app_nth intro: edits.intros)
next
  case (2 a b i)
  have "edits i (take i a) []" if "i \<le> length a" for i
    using that by (induction i) (auto simp: take_Suc_conv_app_nth intro: edits.intros)
  then show ?case using 2 by simp
next
  case (3 a b i j)
  have del: "edits (edit_matrix a b i (Suc j) + 1) (take (Suc i) a) (take (Suc j) b)"
    using 3 edits_delete by (simp add: take_Suc_conv_app_nth [of i a])
  have ins: "edits (edit_matrix a b (Suc i) j + 1) (take (Suc i) a) (take (Suc j) b)"
    using 3 edits_insert by (simp add: take_Suc_conv_app_nth [of j b])
  have keep: "edits (edit_matrix a b i j + (if a ! i = b ! j then 0 else 1)) (take (Suc i) a) (take (Suc j) b)"
    using 3 edits_keep edits_replace by (simp add: take_Suc_conv_app_nth)
  have min3: "P (min x (min y z))" if "P x" "P y" "P z" for P and x y z :: nat
    using that by (simp add: min_def)
  show ?case unfolding edit_matrix.simps
    by (rule min3 [of "\<lambda>n. edits n (take (Suc i) a) (take (Suc j) b)", OF del ins keep])
qed

lemma edit_matrix_append:
  "i \<le> length a \<Longrightarrow> j \<le> length b \<Longrightarrow> edit_matrix (a @ x) (b @ y) i j = edit_matrix a b i j"
  by (induction a b i j rule: edit_matrix.induct) (simp_all add: nth_append)

lemma edit_matrix_least: "edits n a b \<Longrightarrow> edit_matrix a b (length a) (length b) \<le> n"
proof (induction n a b rule: edits.induct)
  case (edits_keep n a b c)
  then show ?case by (simp add: edit_matrix_append nth_append)
next
  case (edits_replace n a b c d)
  then show ?case by (simp add: edit_matrix_append nth_append min_le_iff_disj)
next
  case (edits_insert n a b d)
  then show ?case
    using edit_matrix_append [of "length a" a "length b" b "[]" "[d]"] by (cases "length a") simp_all
next
  case (edits_delete n a b c)
  then show ?case
    using edit_matrix_append [of "length a" a "length b" b "[c]" "[]"] by (cases "length b") simp_all
qed simp

lemma edit_row_loop:
  assumes "k \<le> length b" "length row = length b + 1" "length prev = length b + 1"
    and "\<forall>j \<le> length b. prev ! j = edit_matrix a b i j" "i < length a"
  shows "let row' = foldl (edit_cell (a ! i) b prev) (row[0 := Suc i]) [1..<k + 1] in
    length row' = length b + 1 \<and> (\<forall>j \<le> k. row' ! j = edit_matrix a b (Suc i) j)"
  using assms
proof (induction k)
  case 0
  then show ?case by simp
next
  case (Suc k)
  define r where "r = foldl (edit_cell (a ! i) b prev) (row[0 := Suc i]) [1..<k + 1]"
  have r: "length r = length b + 1" "\<forall>j \<le> k. r ! j = edit_matrix a b (Suc i) j"
    using Suc by (simp_all add: r_def Let_def)
  have "foldl (edit_cell (a ! i) b prev) (row[0 := Suc i]) [1..<Suc k + 1] = edit_cell (a ! i) b prev r (Suc k)"
    by (simp add: r_def)
  also have "\<dots> = r[Suc k := edit_matrix a b (Suc i) (Suc k)]"
    using Suc.prems(1,4) r(2) by (simp add: edit_cell_def Let_def)
  finally show ?case
    using Suc.prems(1) r by (simp add: Let_def nth_list_update le_Suc_eq del: edit_matrix.simps)
qed

lemma edit_rows:
  assumes "i \<le> length a"
  shows "let st = foldl (edit_row a b) ([0..<length b + 1], replicate (length b + 1) 0) [1..<i + 1] in
    length (fst st) = length b + 1 \<and> length (snd st) = length b + 1 \<and>
    (\<forall>j \<le> length b. fst st ! j = edit_matrix a b i j)"
  using assms
proof (induction i)
  case 0
  then show ?case by (simp add: nth_upt del: upt_Suc)
next
  case (Suc i)
  define st where "st = foldl (edit_row a b) ([0..<length b + 1], replicate (length b + 1) 0) [1..<i + 1]"
  obtain prev row where pr: "st = (prev, row)" by (cases st)
  have st: "length prev = length b + 1" "length row = length b + 1" "\<forall>j \<le> length b. prev ! j = edit_matrix a b i j"
    using Suc pr by (simp_all add: st_def Let_def)
  have "foldl (edit_row a b) ([0..<length b + 1], replicate (length b + 1) 0) [1..<Suc i + 1] =
      edit_row a b st (Suc i)"
    by (simp add: st_def del: upt_Suc add: upt_Suc_append)
  then show ?case
    using edit_row_loop [OF order_refl st(2,1,3)] Suc.prems st pr
    by (simp add: edit_row_def Let_def)
qed

lemma edit_distance_matrix: "edit_distance a b = edit_matrix a b (length a) (length b)"
  using edit_rows [of "length a" a b] by (simp add: edit_distance_def Let_def)

text \<open>
  The edit distance the suggestions rank by, computed with two rows that are swapped and
  overwritten, is the least number of one-byte insertions, deletions and replacements that turn
  one string into the other.
\<close>

theorem edit_distance_least:
  "edits (edit_distance a b) a b \<and> (edits n a b \<longrightarrow> edit_distance a b \<le> n)"
  using edit_matrix_edits [of "length a" a "length b" b] edit_matrix_least [of n a b]
  by (simp add: edit_distance_matrix)

lemma edit_distance_least_witness: "edit_distance ''otlp'' ''oltp'' \<le> 2"
proof -
  have "edits 0 ''o'' ''o''"
    using edits_keep [OF edits_nil, of "CHR ''o''"] by simp
  from edits_replace [OF this, of "CHR ''t''" "CHR ''l''"] have "edits 1 ''ot'' ''ol''" by simp
  from edits_replace [OF this, of "CHR ''l''" "CHR ''t''"] have "edits 2 ''otl'' ''olt''"
    by (simp add: numeral_2_eq_2)
  from edits_keep [OF this, of "CHR ''p''"] have "edits 2 ''otlp'' ''oltp''" by simp
  then show ?thesis using edit_distance_least [of "''otlp''" "''oltp''" 2] by simp
qed

subsection \<open>What a suggestion suggests\<close>

lemma best_loop_spec:
  assumes "best_loop t sq best d cs = (c, ok)"
  shows "if \<exists>x \<in> set cs. remove_chars ''_'' x = sq
    then ok \<and> c \<in> set cs \<and> remove_chars ''_'' c = sq
    else ok = (c \<noteq> []) \<and>
      (if \<exists>x \<in> set cs. edit_distance t x < d
       then c \<in> set cs \<and> edit_distance t c < d \<and> (\<forall>x \<in> set cs. edit_distance t c \<le> edit_distance t x)
       else c = best)"
  using assms
proof (induction t sq best d cs rule: best_loop.induct)
  case (2 t sq best d c' cs)
  show ?case
  proof (cases "remove_chars ''_'' c' = sq")
    case False
    show ?thesis
    proof (cases "edit_distance t c' < d")
      case True
      then show ?thesis
        using 2(1) [OF False refl True] 2(3) False
        by (auto simp: Let_def split: if_splits)
    next
      case far: False
      then show ?thesis
        using 2(2) [OF False refl far] 2(3) False
        by (auto simp: Let_def split: if_splits)
    qed
  qed (use 2 in auto)
qed auto

text \<open>
  A suggestion is one of the candidates. It either spells the name (lower case, without the
  kind a Go package appends) up to underscores, or it is within two edits of it and no candidate
  is closer; and no suggestion is made only when no candidate is that close.
\<close>

theorem best_match_sound_complete:
  assumes "[] \<notin> set candidates" and t_def: "t = trim_package (to_lower got)"
  shows "case best_match got candidates of
      (c, True) \<Rightarrow> c \<in> set candidates \<and>
        (remove_chars ''_'' c = remove_chars ''_'' t \<or>
         edit_distance t c \<le> 2 \<and> (\<forall>x \<in> set candidates. edit_distance t c \<le> edit_distance t x))
    | (_, False) \<Rightarrow> \<forall>x \<in> set candidates. 3 \<le> edit_distance t x \<and> remove_chars ''_'' x \<noteq> remove_chars ''_'' t"
proof -
  obtain c ok where b: "best_match got candidates = (c, ok)" by (cases "best_match got candidates") auto
  then have "best_loop t (remove_chars ''_'' t) [] 3 candidates = (c, ok)"
    by (simp add: best_match_def Let_def t_def)
  note spec = best_loop_spec [OF this]
  show ?thesis
  proof (cases "\<exists>x \<in> set candidates. remove_chars ''_'' x = remove_chars ''_'' t")
    case True
    then have "ok \<and> c \<in> set candidates \<and> remove_chars ''_'' c = remove_chars ''_'' t"
      using spec by (simp only: if_True)
    then show ?thesis using b by simp
  next
    case unlike: False
    show ?thesis
    proof (cases "\<exists>x \<in> set candidates. edit_distance t x < 3")
      case True
      then have c: "c \<in> set candidates" "edit_distance t c < 3" "ok \<longleftrightarrow> c \<noteq> []"
        "\<forall>x \<in> set candidates. edit_distance t c \<le> edit_distance t x"
        using spec unfolding if_not_P [OF unlike] if_P [OF True] by blast+
      then have ok using assms(1) by auto
      then show ?thesis using b c by simp
    next
      case False
      then have "\<not> ok" using spec unfolding if_not_P [OF unlike] if_not_P [OF False] by simp
      then show ?thesis using b False unlike by auto
    qed
  qed
qed

lemma best_match_sound_complete_witness:
  "best_match ''otp'' [''otlp''] = (''otlp'', True) \<and> edit_distance ''otp'' ''otlp'' \<le> 2"
proof -
  have b: "best_match ''otp'' [''otlp''] = (''otlp'', True)"
    "trim_package (to_lower ''otp'') = ''otp''" "remove_chars ''_'' ''otlp'' \<noteq> remove_chars ''_'' ''otp''"
    by code_simp+
  moreover have "[] \<notin> set [''otlp'']" by simp
  ultimately show ?thesis
    using best_match_sound_complete [of "[''otlp'']" "''otp''" "''otp''"] by simp
qed

subsection \<open>Masking expansions\<close>

lemma segments_text: "concat (map segment_text (segments s)) = s"
  by (induction s rule: segments.induct) (auto split: option.splits)

lemma expansion_match_plain: "CHR ''$'' \<noteq> c \<Longrightarrow> expansion_match (c # cs) = None"
  by (simp add: expansion_match_def split: list.splits)

lemma not_ident_start [simp]: "\<not> ident_start (CHR ''{'')"
  by (simp add: ident_start_def)

lemma segments_plain: "CHR ''$'' \<notin> set m \<Longrightarrow> segments (m @ x) = map Plain m @ segments x"
  by (induction m) (simp_all add: expansion_match_plain)

lemma mask_expansions_set: "set (mask_expansions v m) \<subseteq> set v \<union> set m"
proof -
  have "set (case x of Match m' \<Rightarrow> if m' = ''$$'' then m' else m | Plain c \<Rightarrow> [c]) \<subseteq> set v \<union> set m"
    if "x \<in> set (segments v)" for x
  proof -
    have "set (segment_text x) \<subseteq> set v"
      using that segments_text [of v] by (metis UN_upper image_eqI image_set set_concat set_map)
    then show ?thesis by (cases x) auto
  qed
  then show ?thesis unfolding mask_expansions_def by auto
qed

lemma mask_expansions_Cons:
  "expansion_match (c # cs) = None \<Longrightarrow> mask_expansions (c # cs) m = c # mask_expansions cs m"
  by (simp add: mask_expansions_def)

lemma mask_expansions_match:
  "expansion_match (c # cs) = Some n \<Longrightarrow>
   mask_expansions (c # cs) m =
     (if take n (c # cs) = ''$$'' then ''$$'' else m) @ mask_expansions (drop n (c # cs)) m"
  by (simp add: mask_expansions_def)

definition mask_segment :: "string \<Rightarrow> segment \<Rightarrow> segment list" where
  "mask_segment m x = (case x of Match t \<Rightarrow> if t = ''$$'' then [x] else map Plain m | Plain c \<Rightarrow> [x])"

lemma segments_mask:
  assumes m: "CHR ''$'' \<notin> set m" "CHR 0x7D \<notin> set m"
  shows "segments (mask_expansions v m) = concat (map (mask_segment m) (segments v))"
proof (induction v rule: segments.induct)
  case 1
  then show ?case by (simp add: mask_expansions_def)
next
  case (2 c cs)
  show ?case
  proof (cases "expansion_match (c # cs)")
    case (Some n)
    show ?thesis
    proof (cases "take n (c # cs) = ''$$''")
      case True
      then show ?thesis
        using 2(2) [OF Some] Some
        by (simp add: mask_expansions_match [OF Some] mask_segment_def expansion_match_def)
    next
      case False
      then show ?thesis
        using 2(2) [OF Some] Some
        by (simp add: mask_expansions_match [OF Some] mask_segment_def segments_plain [OF m(1)])
    qed
  next
    case None
    have "expansion_match (c # mask_expansions cs m) = None"
    proof (cases "c = CHR ''$''")
      case True
      show ?thesis
      proof (cases cs)
        case (Cons d r)
        then have d: "d \<noteq> CHR ''$''" "\<not> ident_start d" "d = CHR ''{'' \<longrightarrow> CHR 0x7D \<notin> set r"
          using None True by (auto simp: expansion_match_def split: if_splits)
        then have "expansion_match cs = None"
          using Cons by (auto simp: expansion_match_def split: list.splits)
        then have "mask_expansions cs m = d # mask_expansions r m"
          using Cons by (simp add: mask_expansions_Cons)
        moreover have "d = CHR ''{'' \<longrightarrow> CHR 0x7D \<notin> set (mask_expansions r m)"
          using d m mask_expansions_set by blast
        ultimately show ?thesis using True d by (auto simp: expansion_match_def)
      qed (simp add: mask_expansions_def expansion_match_def)
    qed (auto simp: expansion_match_def split: list.splits)
    then show ?thesis
      using 2(1) [OF None] None by (simp add: mask_expansions_Cons mask_segment_def)
  qed
qed

lemma has_expansion_mask_segment:
  "x \<in> set (mask_segment m y) \<Longrightarrow> (case x of Match t \<Rightarrow> t = ''$$'' | Plain c \<Rightarrow> True)"
  by (auto simp: mask_segment_def split: segment.splits if_splits)

text \<open>
  masking leaves no expansion behind and does not make one out of the text around it, and a
  value without an expansion is left as it is, escaped dollars included. The mask has no dollar
  and no closing brace.
\<close>

theorem mask_expansions_clean:
  assumes "CHR ''$'' \<notin> set m" "CHR 0x7D \<notin> set m"
  shows "\<not> has_expansion (mask_expansions v m) \<and>
    (\<not> has_expansion v \<longrightarrow> mask_expansions v m = v) \<and>
    mask_expansions (mask_expansions v m) m = mask_expansions v m"
proof -
  have keep: "mask_expansions v m = v" if "\<not> has_expansion v" for v
  proof -
    have "map (\<lambda>x. case x of Match t \<Rightarrow> if t = ''$$'' then t else m | Plain c \<Rightarrow> [c]) (segments v) =
        map segment_text (segments v)"
      using that by (auto simp: has_expansion_def split: segment.splits)
    then show ?thesis by (simp only: mask_expansions_def segments_text)
  qed
  have "\<not> has_expansion (mask_expansions v m)"
    using has_expansion_mask_segment [of _ m]
    by (auto simp: has_expansion_def segments_mask [OF assms] split: segment.splits; fastforce)
  then show ?thesis using keep by blast
qed

lemma mask_expansions_clean_witness:
  "mask_expansions ''0.0.0.0:${env:PORT}$$'' ''#'' = ''0.0.0.0:#$$'' \<and> \<not> has_expansion ''0.0.0.0:#$$''"
proof -
  have e: "mask_expansions ''0.0.0.0:${env:PORT}$$'' ''#'' = ''0.0.0.0:#$$''" by code_simp
  have "CHR ''$'' \<notin> set ''#''" "CHR 0x7D \<notin> set ''#''" by simp_all
  from mask_expansions_clean [OF this, of "''0.0.0.0:${env:PORT}$$''"] e show ?thesis by simp
qed

end
