(* ===== verification/Quantity.thy ===== *)
theory Quantity
  imports Component "HOL-Library.Log_Nat" Complex_Main
begin

section \<open>Memory quantities\<close>

text \<open>
  \<open>pkg/quantity/quantity.go\<close>: Kubernetes memory sizes such as \<open>512Mi\<close>. The package computes in
  \<open>float64\<close>; the model computes in rationals and rounds where the processor does, to 53 bits and
  ties to even. \<open>round_f64\<close> is that rounding for a non-negative number, \<open>None\<close> standing for
  positive infinity. \<open>strconv.ParseFloat\<close> is modelled on the strings \<open>split\<close> leaves it, which are
  digits and dots; \<open>strconv.FormatFloat\<close> with one decimal rounds the exact value, ties to even.
\<close>

subsection \<open>Floating point\<close>

definition round_half_even :: "rat \<Rightarrow> int" where
  "round_half_even x =
     (let f = \<lfloor>x\<rfloor>; d = x - of_int f in
      if d < 1 / 2 then f else if 1 / 2 < d then f + 1 else if even f then f else f + 1)"

definition pow2 :: "int \<Rightarrow> rat" where
  "pow2 e = 2 powi e"

text \<open>The exponent of the last bit of a number: 53 significant bits, and never below \<open>2^-1074\<close>.\<close>

definition ulp_exponent :: "rat \<Rightarrow> int" where
  "ulp_exponent x =
     (case quotient_of x of (p, q) \<Rightarrow>
       (let g = bitlen p - bitlen q;
            top = (if pow2 g \<le> x then g else g - 1)
        in max (top - 52) (- 1074)))"

definition f64_limit :: rat where
  "f64_limit = 2 ^ 1024"

definition round_f64 :: "rat \<Rightarrow> rat option" where
  "round_f64 x =
     (if x = 0 then Some 0
      else
        let e = ulp_exponent x; r = of_int (round_half_even (x / pow2 e)) * pow2 e
        in if f64_limit \<le> r then None else Some r)"

subsection \<open>Parse\<close>

definition Ki :: int where "Ki = 2 ^ 10"
definition Mi :: int where "Mi = 2 ^ 20"
definition Gi :: int where "Gi = 2 ^ 30"
definition Ti :: int where "Ti = 2 ^ 40"
definition Pi :: int where "Pi = 2 ^ 50"
definition Ei :: int where "Ei = 2 ^ 60"

definition kilo :: int where "kilo = 10 ^ 3"
definition mega :: int where "mega = 10 ^ 6"
definition giga :: int where "giga = 10 ^ 9"
definition tera :: int where "tera = 10 ^ 12"
definition peta :: int where "peta = 10 ^ 15"
definition exa :: int where "exa = 10 ^ 18"

definition overflow :: int where "overflow = 2 ^ 63"

definition units :: "(string \<times> int) list" where
  "units =
     [(''Ki'', Ki), (''Mi'', Mi), (''Gi'', Gi), (''Ti'', Ti), (''Pi'', Pi), (''Ei'', Ei),
      (''k'', kilo), (''M'', mega), (''G'', giga), (''T'', tera), (''P'', peta), (''E'', exa), ([], 1)]"

definition split_quantity :: "string \<Rightarrow> string \<times> string" where
  "split_quantity text =
     (let end = length (takeWhile (\<lambda>c. is_digit c \<or> c = CHR ''.'') text)
      in (take end text, drop end text))"

definition factor_of :: "string \<Rightarrow> int option" where
  "factor_of suf = map_option snd (find (\<lambda>u. fst u = suf) units)"

text \<open>
  \<open>strconv.ParseFloat\<close> on digits and dots: at least one digit and at most one dot, and an error when
  the number is too large for a \<open>float64\<close>.
\<close>

definition parse_decimal :: "string \<Rightarrow> rat option" where
  "parse_decimal s =
     (case cut s ''.'' of (whole, fpart, found) \<Rightarrow>
        if whole = [] \<and> fpart = [] then None
        else (case parse_digits 10 False 0 (whole @ fpart) of
            None \<Rightarrow> None
          | Some n \<Rightarrow> round_f64 (of_int n / 10 ^ length fpart)))"

definition quantity_error :: "string \<Rightarrow> string \<Rightarrow> string" where
  "quantity_error text rest = go_quote text @ '' is not a memory quantity'' @ rest"

definition parse_quantity :: "string \<Rightarrow> int go_result" where
  "parse_quantity text =
     (let trimmed = trim_space text in
      if trimmed = [] then Inl (quantity_error text [])
      else (case split_quantity trimmed of (digits, suf) \<Rightarrow>
        (case factor_of suf of
           None \<Rightarrow> Inl (quantity_error text ('': '' @ go_quote suf @
             '' is not a memory suffix (want Ki, Mi, Gi, Ti, Pi, Ei, k, M, G, T, P or E)''))
         | Some factor \<Rightarrow>
             (case parse_decimal digits of
                None \<Rightarrow> Inl (quantity_error text '': want a non-negative number, optionally with a suffix'')
              | Some value \<Rightarrow>
                  (case round_f64 (value * of_int factor) of
                     None \<Rightarrow> Inl (quantity_error text '': it does not fit in a byte count'')
                   | Some product \<Rightarrow>
                       (let n = \<lfloor>product + 1 / 2\<rfloor> in
                        if overflow \<le> n
                        then Inl (quantity_error text '': it does not fit in a byte count'')
                        else Inr n))))))"

subsection \<open>Format\<close>

text \<open>One decimal place of a non-negative number, as \<open>FormatFloat(x, 'f', 1, 64)\<close> prints it.\<close>

definition format_tenths :: "rat \<Rightarrow> string" where
  "format_tenths x =
     (let t = round_half_even (x * 10) in itoa (t div 10) @ ''.'' @ itoa (t mod 10))"

definition binary_units :: "(string \<times> int) list" where
  "binary_units =
     [(''Ei'', Ei), (''Pi'', Pi), (''Ti'', Ti), (''Gi'', Gi), (''Mi'', Mi), (''Ki'', Ki)]"

definition format_quantity :: "int \<Rightarrow> string" where
  "format_quantity n =
     (if n < Ki then itoa n
      else (case find (\<lambda>(_, sz). sz \<le> n \<and> n mod sz = 0) binary_units of
          Some (suf, sz) \<Rightarrow> itoa (n div sz) @ suf
        | None \<Rightarrow>
            (let f = (case round_f64 (of_int n) of Some f \<Rightarrow> f | None \<Rightarrow> 0) in
             if Mi \<le> n then format_tenths (f / of_int Mi) @ ''Mi''
             else format_tenths (f / of_int Ki) @ ''Ki'')))"

subsection \<open>Small integers times powers of two are exact\<close>

lemma round_half_even_int [simp]: "round_half_even (of_int n) = n"
  by (simp add: round_half_even_def)

lemma round_half_even_nonneg: "0 \<le> x \<Longrightarrow> 0 \<le> round_half_even x"
  by (auto simp: round_half_even_def Let_def)

lemma pow2_pos: "0 < pow2 e"
  by (simp add: pow2_def)

lemma round_f64_nonneg: "0 \<le> x \<Longrightarrow> round_f64 x = Some y \<Longrightarrow> 0 \<le> y"
proof -
  assume x: "0 \<le> x" and y: "round_f64 x = Some y"
  have "0 \<le> of_int (round_half_even (x / pow2 e)) * pow2 e" for e
    using x pow2_pos [of e] by (simp add: round_half_even_nonneg)
  then show "0 \<le> y" using y by (auto simp: round_f64_def Let_def split: if_splits)
qed

lemma ulp_exponent_int:
  assumes "0 < n"
  shows "ulp_exponent (of_int n) = max (bitlen n - 53) (- 1074)"
proof -
  have "2 ^ nat (bitlen n - 1) \<le> n"
    using assms bitlen_bounds [of n] by simp
  moreover have "0 \<le> bitlen n - 1"
    using assms bitlen_eq_zero_iff [of n] bitlen_nonneg [of n] by linarith
  ultimately have "pow2 (bitlen n - 1) \<le> of_int n"
    by (simp add: pow2_def power_int_def)
  moreover have "bitlen 1 = 1" by (simp add: compute_bitlen)
  ultimately show ?thesis
    by (simp add: ulp_exponent_def Let_def quotient_of_int)
qed

lemma round_f64_exact:
  assumes "0 \<le> n" "n < 2 ^ 53" "k \<le> 64"
  shows "round_f64 (of_int (n * 2 ^ k)) = Some (of_int (n * 2 ^ k))"
proof (cases "n = 0")
  case False
  then have n: "0 < n" using assms by simp
  define x where "x = n * 2 ^ k"
  have x: "0 < x" using n by (simp add: x_def)
  define e where "e = max (bitlen x - 53) (- 1074)"
  have "bitlen n \<le> 53" using n assms(2) by (simp add: bitlen_le_iff_power)
  moreover have "bitlen x = bitlen n + k"
    using bitlen_pow2 [of n k] n by (simp add: x_def)
  ultimately have e: "e \<le> int k" by (simp add: e_def)
  have "of_int x / pow2 e = (of_int (n * 2 ^ nat (int k - e)) :: rat)"
  proof -
    have "(2 :: rat) ^ nat (int k - e) = 2 powi (int k - e)" using e by (simp add: power_int_def)
    also have "\<dots> = 2 ^ k / 2 powi e" by (simp add: power_int_diff)
    finally show ?thesis by (simp add: x_def pow2_def)
  qed
  then have "of_int (round_half_even (of_int x / pow2 e)) * pow2 e = (of_int x :: rat)"
    using pow2_pos [of e] by (metis nonzero_eq_divide_eq order_less_irrefl round_half_even_int)
  moreover have "\<not> f64_limit \<le> of_int x"
  proof -
    have "x < 2 ^ 53 * 2 ^ 64" unfolding x_def
      using assms n power_increasing [of k 64 "2 :: int"] by (intro mult_less_le_imp_less) auto
    moreover have "(2 :: int) ^ 53 * 2 ^ 64 < 2 ^ 1024" by simp
    ultimately have "x < 2 ^ 1024" by (rule less_trans)
    then have "(of_int x :: rat) < of_int (2 ^ 1024)" by (simp only: of_int_less_iff)
    then show ?thesis by (simp only: f64_limit_def of_int_power of_int_numeral not_le)
  qed
  ultimately show ?thesis
    using x by (simp add: round_f64_def Let_def ulp_exponent_int [OF x] flip: x_def e_def)
qed (simp add: round_f64_def)

subsection \<open>Parse gives back what Format printed\<close>

lemma trimmed_ascii:
  assumes "s \<noteq> []" "is_ascii (hd s)" "\<not> ascii_space (hd s)" "is_ascii (last s)" "\<not> ascii_space (last s)"
  shows "trimmed s"
proof -
  have "leading_space s = None" using assms by (cases s) (simp_all add: leading_space_code)
  moreover have "trailing_space s = None"
    using assms by (cases s rule: rev_cases) (simp_all add: trailing_space_code)
  ultimately show ?thesis by (simp add: trimmed_def)
qed

lemma digit_ascii: "is_digit c \<Longrightarrow> is_ascii c \<and> \<not> ascii_space c"
proof -
  assume "is_digit c"
  then have "(of_char c :: int) \<in> set [48..57]"
    unfolding is_digit_def set_upto atLeastAtMost_iff .
  then have "c \<in> set (map char_of [48 :: int..57])"
    by (metis char_of_char image_eqI set_map)
  also have "map char_of [48 :: int..57] = ''0123456789''"
    by code_simp
  finally show ?thesis by (auto simp: is_ascii_def ascii_space_def)
qed

lemma parse_decimal_digits:
  assumes "0 \<le> m" "m < 2 ^ 53"
  shows "parse_decimal (show_digits m) = Some (of_int m)"
proof -
  have "CHR ''.'' \<notin> set (show_digits m)"
    using show_digits_digits [OF assms(1)] digit_not_sign by blast
  then show ?thesis
    using assms round_f64_exact [of m 0] parse_digits_show_digits [of m]
    by (simp add: parse_decimal_def cut_no_sep)
qed

lemma parse_units:
  assumes "(suf, 2 ^ k) \<in> set (([], 1) # binary_units)" "k \<le> 64" "0 \<le> m" "m < 2 ^ 53" "m * 2 ^ k < 2 ^ 63"
  shows "parse_quantity (show_digits m @ suf) = Inr (m * 2 ^ k)"
proof -
  have digits: "\<And>c. c \<in> set (show_digits m) \<Longrightarrow> is_digit c"
    using show_digits_digits [OF assms(3)] by blast
  have suf: "suf = [] \<or> \<not> is_digit (hd suf) \<and> hd suf \<noteq> CHR ''.'' \<and> is_ascii (last suf) \<and> \<not> ascii_space (last suf)"
    "factor_of suf = Some (2 ^ k)"
  proof -
    have "list_all (\<lambda>(suf, f). (suf = [] \<or> \<not> is_digit (hd suf) \<and> hd suf \<noteq> CHR ''.'' \<and> is_ascii (last suf) \<and>
        \<not> ascii_space (last suf)) \<and> factor_of suf = Some f) (([], 1) # binary_units)"
      by code_simp
    then show "suf = [] \<or> \<not> is_digit (hd suf) \<and> hd suf \<noteq> CHR ''.'' \<and> is_ascii (last suf) \<and> \<not> ascii_space (last suf)"
      "factor_of suf = Some (2 ^ k)"
      using assms(1) by (auto simp: list_all_iff)
  qed
  have "trimmed (show_digits m @ suf)"
  proof (rule trimmed_ascii)
    show "is_ascii (hd (show_digits m @ suf))" "\<not> ascii_space (hd (show_digits m @ suf))"
      using digits [of "hd (show_digits m)"] digit_ascii by simp_all
    show "is_ascii (last (show_digits m @ suf))" "\<not> ascii_space (last (show_digits m @ suf))"
      using digits [of "last (show_digits m)"] digit_ascii suf(1) by (auto simp: last_append)
  qed simp
  moreover have "split_quantity (show_digits m @ suf) = (show_digits m, suf)"
  proof -
    have "takeWhile (\<lambda>c. is_digit c \<or> c = CHR ''.'') suf = []"
      using suf(1) by (cases suf) auto
    then show ?thesis using digits by (simp add: split_quantity_def takeWhile_append)
  qed
  moreover have "round_f64 (of_int m * of_int (2 ^ k)) = Some (of_int (m * 2 ^ k))"
    using round_f64_exact [OF assms(3,4,2)] by simp
  moreover have "\<lfloor>of_int (m * 2 ^ k) + 1 / 2 :: rat\<rfloor> = m * 2 ^ k" by linarith
  ultimately show ?thesis
    using assms suf(2) parse_decimal_digits
    by (simp add: parse_quantity_def trim_space_trimmed overflow_def Let_def)
qed

text \<open>
  A byte count that is below 1024 or a whole number of kibibytes survives being printed by
  \<open>Format\<close> and read by \<open>Parse\<close>, up to the largest \<open>int64\<close>, although both compute in \<open>float64\<close>.
\<close>

theorem quantity_roundtrip:
  assumes "0 \<le> b" "b < 2 ^ 63" "b < 1024 \<or> 1024 dvd b"
  shows "parse_quantity (format_quantity b) = Inr b"
proof (cases "b < Ki")
  case True
  then show ?thesis
    using parse_units [of "[]" 0 b] assms by (simp add: format_quantity_def itoa_def Ki_def)
next
  case False
  then have dvd: "b mod Ki = 0" "Ki \<le> b" using assms(3) by (auto simp: Ki_def)
  have "\<exists>u. find (\<lambda>(_, sz). sz \<le> b \<and> b mod sz = 0) binary_units = Some u"
    by (rule find_exists [of "(''Ki'', Ki)"]) (use dvd in \<open>simp_all add: binary_units_def\<close>)
  then obtain u where u: "find (\<lambda>(_, sz). sz \<le> b \<and> b mod sz = 0) binary_units = Some u"
    by (elim exE)
  obtain suf sz where us: "u = (suf, sz)" by (cases u)
  have mem: "(suf, sz) \<in> set binary_units" and sz: "sz \<le> b" "b mod sz = 0"
    using find_SomeD [OF u] us by simp_all
  have "\<exists>k \<in> {10, 20, 30, 40, 50, 60}. sz = 2 ^ k"
    using mem by (auto simp: binary_units_def Ki_def Mi_def Gi_def Ti_def Pi_def Ei_def)
  then obtain k :: nat where "k \<in> {10, 20, 30, 40, 50, 60}" "sz = 2 ^ k" by blast
  then have k: "sz = 2 ^ k" "10 \<le> k" "k \<le> 64" by auto
  define m where "m = b div sz"
  have b: "m * 2 ^ k = b" using sz k by (simp add: m_def) (metis mult.commute mult_div_mod_eq add.right_neutral)
  have "0 \<le> m" using assms(1) k by (simp add: m_def pos_imp_zdiv_nonneg_iff)
  moreover have "m * 2 ^ 10 < 2 ^ 53 * 2 ^ 10"
  proof -
    have "m * 2 ^ 10 \<le> m * 2 ^ k" using \<open>0 \<le> m\<close> k(2) by (intro mult_left_mono power_increasing) simp_all
    then show ?thesis using b assms(2) by simp
  qed
  ultimately have m: "0 \<le> m" "m < 2 ^ 53" by simp_all
  have "format_quantity b = show_digits m @ suf"
    using False u us m by (simp add: format_quantity_def itoa_def m_def)
  then show ?thesis
    using parse_units [of suf k m] mem k m b assms(2) by simp
qed

lemma quantity_roundtrip_witness:
  "parse_quantity (format_quantity (512 * 1024 * 1024)) = Inr (512 * 1024 * 1024) \<and>
   format_quantity (512 * 1024 * 1024) = ''512Mi''"
proof -
  have "parse_quantity (format_quantity (512 * 1024 * 1024)) = Inr (512 * 1024 * 1024)"
    by (rule quantity_roundtrip) simp_all
  moreover have "format_quantity (512 * 1024 * 1024) = ''512Mi''" by code_simp
  ultimately show ?thesis by blast
qed

text \<open>
  every quantity \<open>Parse\<close> accepts is a byte count in the range of a non-negative \<open>int64\<close>, so the
  conversion from \<open>float64\<close> is exact; and a text without a number, with an unknown suffix or with
  a second dot is an error.
\<close>

theorem parse_quantity_bounds:
  "(parse_quantity text = Inr n \<longrightarrow> 0 \<le> n \<and> n < 2 ^ 63) \<and>
   (factor_of (snd (split_quantity (trim_space text))) = None \<longrightarrow> (\<exists>e. parse_quantity text = Inl e)) \<and>
   (parse_decimal (fst (split_quantity (trim_space text))) = None \<longrightarrow> (\<exists>e. parse_quantity text = Inl e))"
proof -
  have dec: "0 \<le> v" if "parse_decimal s = Some v" for s v
    using that parse_digits_nonneg [of 10 False 0]
    by (auto simp: parse_decimal_def intro: round_f64_nonneg [rotated] split: prod.splits if_splits option.splits)
  have fac: "0 \<le> f" if "factor_of s = Some f" for s f
  proof -
    note factor = that
    have "list_all (\<lambda>u. 0 \<le> snd u) units" by code_simp
    moreover obtain u where u: "find (\<lambda>u. fst u = s) units = Some u" "f = snd u"
      using factor by (cases "find (\<lambda>u. fst u = s) units") (simp_all add: factor_of_def)
    moreover have "u \<in> set units" using find_SomeD [OF u(1)] by simp
    ultimately show ?thesis by (auto simp: list_all_iff)
  qed
  have "0 \<le> n \<and> n < 2 ^ 63" if ok: "parse_quantity text = Inr n"
  proof -
    obtain digits suf f v p where "factor_of suf = Some f" "parse_decimal digits = Some v"
      "round_f64 (v * of_int f) = Some p" "n = \<lfloor>p + 1 / 2\<rfloor>" "n < overflow"
      using ok by (auto simp: parse_quantity_def Let_def not_le split: if_splits prod.splits option.splits)
    then show ?thesis
      using dec fac round_f64_nonneg [of "v * of_int f" p] by (simp add: overflow_def)
  qed
  then show ?thesis
    by (auto simp: parse_quantity_def Let_def split: prod.splits option.splits)
qed

lemma parse_quantity_bounds_witness:
  "parse_quantity ''512Mi'' = Inr 536870912 \<and> (536870912 :: int) < 2 ^ 63 \<and> (\<exists>e. parse_quantity ''5mb'' = Inl e)"
proof -
  have "show_digits 512 = ''512''" "(''Mi'', 2 ^ 20) \<in> set (([], 1) # binary_units)" by code_simp+
  then have "parse_quantity ''512Mi'' = Inr 536870912"
    using parse_units [of "''Mi''" 20 512] by simp
  moreover have "factor_of (snd (split_quantity (trim_space ''5mb''))) = None"
    by code_simp
  ultimately show ?thesis
    using parse_quantity_bounds [of "''512Mi''" 536870912] parse_quantity_bounds [of "''5mb''"] by blast
qed

end
