(* ===== verification/Yaml.thy ===== *)
theory Yaml
  imports Text
begin

section \<open>YAML nodes as the rules read them\<close>

text \<open>
  The tree of \<open>yaml.Node\<close> values and the readers of \<open>pkg/rule/node.go\<close>. The parser is third-party
  code: a tree is what it hands over, with the fields of a \<open>yaml.Node\<close> the linter reads.
  \<open>n_id\<close> is the identity of the node, its Go pointer, which \<open>hardcoded-secret\<close> compares. A nil
  pointer is \<open>None\<close>. \<open>n_alias\<close> is the node an alias names. A tree is finite, so a self-containing
  anchor has none; \<open>config.Parse\<close> rejects those before a rule runs (theory \<open>Resolve\<close>).
\<close>

datatype ykind = DocumentNode | SequenceNode | MappingNode | ScalarNode | AliasNode

datatype ynode =
  YNode (n_id: nat) (n_kind: ykind) (n_tag: string) (n_value: string)
    (n_content: "ynode list") (n_alias: "ynode option") (n_line: int) (n_column: int)

text \<open>The loops with stride two over a mapping's alternating keys and values.\<close>

fun pairs :: "'a list \<Rightarrow> ('a \<times> 'a) list" where
  "pairs (k # v # rest) = (k, v) # pairs rest"
| "pairs _ = []"

definition max_settings_depth :: nat where "max_settings_depth = 16"

fun follow_alias :: "nat \<Rightarrow> ynode option \<Rightarrow> ynode option" where
  "follow_alias i None = None"
| "follow_alias 0 (Some n) = Some n"
| "follow_alias (Suc i) (Some n) = (if n_kind n = AliasNode then follow_alias i (n_alias n) else Some n)"

definition resolve_alias :: "ynode option \<Rightarrow> ynode option" where
  "resolve_alias n = follow_alias max_settings_depth n"

record map_entry =
  me_key :: string
  me_key_node :: ynode
  me_node :: ynode
  me_path :: string

definition map_entries :: "ynode \<Rightarrow> string \<Rightarrow> map_entry list" where
  "map_entries n path =
     map (\<lambda>(k, v). \<lparr>me_key = n_value k, me_key_node = k, me_node = v, me_path = join_path path (n_value k)\<rparr>)
       (pairs (n_content n))"

definition child_node :: "ynode option \<Rightarrow> string \<Rightarrow> ynode option" where
  "child_node n0 key =
     (case resolve_alias n0 of
        None \<Rightarrow> None
      | Some n \<Rightarrow>
          if n_kind n \<noteq> MappingNode then None
          else map_option me_node (find (\<lambda>e. me_key e = key) (map_entries n [])))"

definition scalar_name :: "ynode option \<Rightarrow> ynode option" where
  "scalar_name n0 =
     (case resolve_alias n0 of
        None \<Rightarrow> None
      | Some n \<Rightarrow>
          if n_kind n \<noteq> ScalarNode \<or> n_value n = [] \<or> has_expansion (n_value n) then None else Some n)"

definition scalar_child :: "ynode option \<Rightarrow> string \<Rightarrow> ynode option" where
  "scalar_child n key =
     (case child_node n key of None \<Rightarrow> None | Some v \<Rightarrow> scalar_name (Some v))"

text \<open>\<open>WalkSettings\<close> calls its visitor on these mappings and paths, in this order.\<close>

function walk_settings :: "ynode option \<Rightarrow> string \<Rightarrow> nat \<Rightarrow> (ynode \<times> string) list" where
  "walk_settings n0 path depth =
     (case resolve_alias n0 of
        None \<Rightarrow> []
      | Some n \<Rightarrow>
          if max_settings_depth < depth then []
          else (case n_kind n of
              MappingNode \<Rightarrow>
                (n, path) # concat (map (\<lambda>e. walk_settings (Some (me_node e)) (me_path e) (depth + 1))
                  (map_entries n path))
            | SequenceNode \<Rightarrow>
                concat (map (\<lambda>(i, item). walk_settings (Some item) (index_path path i) (depth + 1))
                  (List.enumerate 0 (n_content n)))
            | _ \<Rightarrow> []))"
  by pat_completeness auto
termination
  by (relation "measure (\<lambda>(_, _, depth). 17 - depth)") (auto simp: max_settings_depth_def)

declare walk_settings.simps [simp del]

definition null_tag :: string where "null_tag = ''!!null''"
definition bool_tag :: string where "bool_tag = ''!!bool''"
definition str_tag :: string where "str_tag = ''!!str''"
definition int_tag :: string where "int_tag = ''!!int''"
definition float_tag :: string where "float_tag = ''!!float''"
definition merge_tag :: string where "merge_tag = ''!!merge''"

definition is_null :: "ynode option \<Rightarrow> bool" where
  "is_null n \<longleftrightarrow> (case n of None \<Rightarrow> True | Some m \<Rightarrow> n_tag m = null_tag)"

definition node_or :: "ynode option \<Rightarrow> ynode option \<Rightarrow> ynode option" where
  "node_or n fallback = (if n \<noteq> None then n else fallback)"

definition node_kind :: "ynode \<Rightarrow> string" where
  "node_kind n =
     (case n_kind n of
        MappingNode \<Rightarrow> ''a mapping''
      | SequenceNode \<Rightarrow> ''a list''
      | ScalarNode \<Rightarrow> ''a scalar''
      | AliasNode \<Rightarrow> ''an alias''
      | _ \<Rightarrow> ''an unexpected node'')"

definition is_expansion :: "ynode option \<Rightarrow> bool" where
  "is_expansion n0 \<longleftrightarrow>
     (case resolve_alias n0 of None \<Rightarrow> False | Some n \<Rightarrow> n_kind n = ScalarNode \<and> has_expansion (n_value n))"

subsection \<open>Sizes and entries\<close>

lemma size_content [termination_simp]: "x \<in> set (n_content n) \<Longrightarrow> size x < size n"
proof (cases n)
  case (YNode i k t v xs a l c)
  assume "x \<in> set (n_content n)"
  then have "size x \<le> size_list size xs"
    using YNode size_list_estimation' [of x xs "size x" size] by simp
  then show ?thesis using YNode by simp
qed

lemma size_alias [termination_simp]: "n_alias n = Some x \<Longrightarrow> size x < size n"
  by (cases n) auto

lemma pairs_set: "(k, v) \<in> set (pairs xs) \<Longrightarrow> k \<in> set xs \<and> v \<in> set xs"
  by (induction xs rule: pairs.induct) auto

lemma pairs_size [termination_simp]:
  "(k, v) \<in> set (pairs (n_content n)) \<Longrightarrow> size k < size n \<and> size v < size n"
  by (auto dest!: pairs_set intro: size_content)

lemma enumerate_mem: "(i, x) \<in> set (List.enumerate k xs) \<Longrightarrow> x \<in> set xs"
  by (auto simp: in_set_enumerate_eq)

lemma enumerate_size [termination_simp]:
  "(i, x) \<in> set (List.enumerate k (n_content n)) \<Longrightarrow> size x < size n"
  by (rule size_content [OF enumerate_mem])

lemma map_entries_node: "e \<in> set (map_entries n path) \<Longrightarrow> me_node e \<in> set (n_content n)"
  by (auto simp: map_entries_def dest: pairs_set)

lemma map_entries_size [termination_simp]:
  "e \<in> set (map_entries n path) \<Longrightarrow> size (me_node e) < size n"
  by (rule size_content [OF map_entries_node])

lemma follow_alias_id: "n_kind n \<noteq> AliasNode \<Longrightarrow> follow_alias i (Some n) = Some n"
  by (cases i) simp_all

lemma resolve_alias_id [simp]: "n_kind n \<noteq> AliasNode \<Longrightarrow> resolve_alias (Some n) = Some n"
  by (simp add: resolve_alias_def follow_alias_id)

lemma resolve_alias_None [simp]: "resolve_alias None = None"
  by (simp add: resolve_alias_def)

lemma pairs_append: "even (length xs) \<Longrightarrow> pairs (xs @ ys) = pairs xs @ pairs ys"
  by (induction xs rule: pairs.induct) auto

lemma pairs_flat: "pairs (concat (map (\<lambda>(k, v). [k, v]) ps)) = ps"
  by (induction ps) auto

lemma pairs_map: "pairs (map f xs) = map (\<lambda>(k, v). (f k, f v)) (pairs xs)"
  by (induction xs rule: pairs.induct) auto

text \<open>Small documents for the concrete instances of the properties.\<close>

abbreviation y_str :: "string \<Rightarrow> ynode" where
  "y_str s \<equiv> YNode 0 ScalarNode str_tag s [] None 1 1"

abbreviation y_int :: "string \<Rightarrow> ynode" where
  "y_int s \<equiv> YNode 0 ScalarNode int_tag s [] None 1 1"

abbreviation y_null :: ynode where
  "y_null \<equiv> YNode 0 ScalarNode null_tag [] [] None 1 1"

abbreviation y_map :: "(string \<times> ynode) list \<Rightarrow> ynode" where
  "y_map kvs \<equiv> YNode 0 MappingNode ''!!map'' [] (concat (map (\<lambda>(k, v). [y_str k, v]) kvs)) None 1 1"

abbreviation y_seq :: "ynode list \<Rightarrow> ynode" where
  "y_seq xs \<equiv> YNode 0 SequenceNode ''!!seq'' [] xs None 1 1"

end
