(* ===== verification/Config.thy ===== *)
theory Config
  imports Component Yaml Diag Sets
begin

section \<open>The parsed config\<close>

text \<open>
  The data of \<open>pkg/config/parse.go\<close> and the functions that read it out of a document: sections with
  their components, the service block with pipelines, references and telemetry, duplicate keys,
  and syntax errors with their diagnostics. They work on the tree of nodes; the passes that work
  on the shared graph of nodes (aliases and merges), and \<open>Parse\<close> itself, are in theory \<open>Resolve\<close>.
  A Go map from kinds to sections is a function to an option.
\<close>

record entry =
  e_key :: string
  e_key_node :: ynode
  e_node :: ynode
  e_path :: string

record comp =
  c_id :: cid
  c_kind :: kind
  c_key_node :: ynode
  c_value_node :: ynode

record sect =
  sec_kind :: kind
  sec_key_node :: ynode
  sec_node :: ynode
  sec_components :: "comp list"

record cref =
  r_id :: cid
  r_node :: ynode
  r_path :: string

record telemetry_signal =
  ts_key :: string
  ts_key_node :: ynode
  ts_node :: ynode
  ts_settings :: "entry list"

record telemetry =
  tel_key_node :: "ynode option"
  tel_node :: "ynode option"
  tel_logs :: "telemetry_signal option"
  tel_metrics :: "telemetry_signal option"
  tel_traces :: "telemetry_signal option"
  tel_other :: "entry list"

record pipeline =
  p_key :: string
  p_signal :: signal
  p_name :: string
  p_key_node :: ynode
  p_node :: ynode
  p_receivers :: "cref list"
  p_processors :: "cref list"
  p_exporters :: "cref list"
  p_receivers_node :: "ynode option"
  p_processors_node :: "ynode option"
  p_exporters_node :: "ynode option"
  p_unknown :: "entry list"

record service =
  svc_key_node :: "ynode option"
  svc_node :: "ynode option"
  svc_extensions :: "cref list"
  svc_extensions_node :: "ynode option"
  svc_pipelines :: "pipeline list"
  svc_pipelines_node :: "ynode option"
  svc_telemetry :: telemetry
  svc_unknown :: "entry list"

record cfile =
  f_path :: string
  f_root :: "ynode option"
  f_head_comments :: "(int \<times> string) list"
  f_sections :: "kind \<Rightarrow> sect option"
  f_service :: service
  f_unknown :: "entry list"
  f_duplicates :: "entry list"

definition empty_telemetry :: telemetry where
  "empty_telemetry = \<lparr>tel_key_node = None, tel_node = None, tel_logs = None, tel_metrics = None,
     tel_traces = None, tel_other = []\<rparr>"

definition empty_service :: service where
  "empty_service = \<lparr>svc_key_node = None, svc_node = None, svc_extensions = [],
     svc_extensions_node = None, svc_pipelines = [], svc_pipelines_node = None,
     svc_telemetry = empty_telemetry, svc_unknown = []\<rparr>"

definition empty_file :: "string \<Rightarrow> cfile" where
  "empty_file path = \<lparr>f_path = path, f_root = None, f_head_comments = [], f_sections = (\<lambda>_. None),
     f_service = empty_service, f_unknown = [], f_duplicates = []\<rparr>"

subsection \<open>Lookups\<close>

definition telemetry_setting :: "telemetry_signal option \<Rightarrow> string \<Rightarrow> entry option" where
  "telemetry_setting t key =
     (case t of None \<Rightarrow> None | Some s \<Rightarrow> find (\<lambda>e. e_key e = key) (ts_settings s))"

definition pipeline_refs :: "pipeline \<Rightarrow> kind \<Rightarrow> cref list" where
  "pipeline_refs p k =
     (case k of
        Receiver \<Rightarrow> p_receivers p
      | Processor \<Rightarrow> p_processors p
      | Exporter \<Rightarrow> p_exporters p
      | _ \<Rightarrow> [])"

definition file_pos :: "cfile \<Rightarrow> ynode option \<Rightarrow> position" where
  "file_pos f n =
     (case n of
        None \<Rightarrow> \<lparr>pos_file = f_path f, pos_line = 0, pos_column = 0\<rparr>
      | Some m \<Rightarrow> \<lparr>pos_file = f_path f, pos_line = n_line m, pos_column = n_column m\<rparr>)"

definition file_component :: "cfile \<Rightarrow> kind \<Rightarrow> cid \<Rightarrow> comp option" where
  "file_component f k i =
     (case f_sections f k of
        None \<Rightarrow> None
      | Some s \<Rightarrow> find (\<lambda>c. c_id c = i) (sec_components s))"

subsection \<open>Reading the document\<close>

fun alias_target :: "ynode \<Rightarrow> ynode" where
  "alias_target (YNode i k t v xs None l c) = YNode i k t v xs None l c"
| "alias_target (YNode i k t v xs (Some m) l c) =
     (if k = AliasNode then alias_target m else YNode i k t v xs (Some m) l c)"

definition entries :: "ynode \<Rightarrow> string \<Rightarrow> entry list" where
  "entries n parent =
     (if n_kind n \<noteq> MappingNode then []
      else map (\<lambda>(k, v). let key = n_value (alias_target k) in
             \<lparr>e_key = key, e_key_node = k, e_node = v, e_path = join_path parent key\<rparr>)
           (pairs (n_content n)))"

definition refs :: "ynode \<Rightarrow> string \<Rightarrow> cref list" where
  "refs n path =
     (if n_kind n \<noteq> SequenceNode then []
      else concat (map (\<lambda>(i, item).
             if n_kind item \<noteq> ScalarNode then []
             else [\<lparr>r_id = parse_id (n_value item), r_node = item, r_path = index_path path i\<rparr>])
           (List.enumerate 0 (n_content n))))"

definition parse_section :: "kind \<Rightarrow> entry \<Rightarrow> sect" where
  "parse_section k e =
     \<lparr>sec_kind = k, sec_key_node = e_key_node e, sec_node = e_node e,
      sec_components = map (\<lambda>c. \<lparr>c_id = parse_id (e_key c), c_kind = k, c_key_node = e_key_node c,
        c_value_node = e_node c\<rparr>) (entries (e_node e) (e_path e))\<rparr>"

definition read_telemetry_signal :: "entry \<Rightarrow> telemetry_signal" where
  "read_telemetry_signal e =
     \<lparr>ts_key = e_key e, ts_key_node = e_key_node e, ts_node = e_node e,
      ts_settings = entries (e_node e) (e_path e)\<rparr>"

definition parse_telemetry :: "entry \<Rightarrow> telemetry" where
  "parse_telemetry e =
     foldl (\<lambda>tel sub.
        if e_key sub = ''logs'' then tel\<lparr>tel_logs := Some (read_telemetry_signal sub)\<rparr>
        else if e_key sub = ''metrics'' then tel\<lparr>tel_metrics := Some (read_telemetry_signal sub)\<rparr>
        else if e_key sub = ''traces'' then tel\<lparr>tel_traces := Some (read_telemetry_signal sub)\<rparr>
        else tel\<lparr>tel_other := tel_other tel @ [sub]\<rparr>)
      (empty_telemetry\<lparr>tel_key_node := Some (e_key_node e), tel_node := Some (e_node e)\<rparr>)
      (entries (e_node e) (e_path e))"

definition parse_pipeline :: "entry \<Rightarrow> pipeline" where
  "parse_pipeline e =
     (let i = parse_id (e_key e) in
      foldl (\<lambda>p sub.
        if e_key sub = ''receivers'' then
          p\<lparr>p_receivers_node := Some (e_node sub), p_receivers := refs (e_node sub) (e_path sub)\<rparr>
        else if e_key sub = ''processors'' then
          p\<lparr>p_processors_node := Some (e_node sub), p_processors := refs (e_node sub) (e_path sub)\<rparr>
        else if e_key sub = ''exporters'' then
          p\<lparr>p_exporters_node := Some (e_node sub), p_exporters := refs (e_node sub) (e_path sub)\<rparr>
        else p\<lparr>p_unknown := p_unknown p @ [sub]\<rparr>)
      \<lparr>p_key = e_key e, p_signal = id_type i, p_name = id_name i, p_key_node = e_key_node e,
       p_node = e_node e, p_receivers = [], p_processors = [], p_exporters = [],
       p_receivers_node = None, p_processors_node = None, p_exporters_node = None, p_unknown = []\<rparr>
      (entries (e_node e) (e_path e)))"

definition parse_service :: "entry \<Rightarrow> service" where
  "parse_service e =
     foldl (\<lambda>s sub.
        if e_key sub = ''extensions'' then
          s\<lparr>svc_extensions_node := Some (e_node sub), svc_extensions := refs (e_node sub) (e_path sub)\<rparr>
        else if e_key sub = ''telemetry'' then s\<lparr>svc_telemetry := parse_telemetry sub\<rparr>
        else if e_key sub = ''pipelines'' then
          s\<lparr>svc_pipelines_node := Some (e_node sub),
            svc_pipelines := svc_pipelines s @ map parse_pipeline (entries (e_node sub) (e_path sub))\<rparr>
        else s\<lparr>svc_unknown := svc_unknown s @ [sub]\<rparr>)
      (empty_service\<lparr>svc_key_node := Some (e_key_node e), svc_node := Some (e_node e)\<rparr>)
      (entries (e_node e) (e_path e))"

text \<open>The last loop of \<open>Parse\<close>: the top-level entries of the resolved document.\<close>

definition read_top_level :: "cfile \<Rightarrow> ynode \<Rightarrow> cfile" where
  "read_top_level f root =
     foldl (\<lambda>f e.
        (case section_kind (e_key e) of
           Some k \<Rightarrow> f\<lparr>f_sections := (f_sections f)(k := Some (parse_section k e))\<rparr>
         | None \<Rightarrow>
             if e_key e = ''service'' then f\<lparr>f_service := parse_service e\<rparr>
             else f\<lparr>f_unknown := f_unknown f @ [e]\<rparr>))
      f (entries root [])"

lemma entries_node_size [termination_simp]:
  "e \<in> set (entries n p) \<Longrightarrow> size (e_node e) < size n"
  by (auto simp: entries_def Let_def dest: pairs_size split: if_splits)

subsection \<open>Duplicate keys\<close>

text \<open>
  The loop over a mapping's entries with the keys seen so far: each entry with whether its key was
  seen before it.
\<close>

fun mark_seen :: "string go_set \<Rightarrow> entry list \<Rightarrow> (entry \<times> bool) list" where
  "mark_seen seen [] = []"
| "mark_seen seen (e # es) =
     (e, set_has seen (e_key e)) # mark_seen (set_insert seen [e_key e]) es"

lemma mark_seen_fst [simp]: "map fst (mark_seen seen es) = es"
  by (induction es arbitrary: seen) simp_all

lemma mark_seen_ex: "e \<in> set es \<Longrightarrow> \<exists>d. (e, d) \<in> set (mark_seen seen es)"
  by (induction es arbitrary: seen) auto

lemma mark_seen_mem [termination_simp]: "(e, d) \<in> set (mark_seen seen es) \<Longrightarrow> e \<in> set es"
  using mark_seen_fst [of seen es] by (metis fst_conv image_eqI set_map)

function collect_duplicates :: "ynode \<Rightarrow> string \<Rightarrow> entry list" where
  "collect_duplicates n path =
     (case n_kind n of
        MappingNode \<Rightarrow>
          concat (map (\<lambda>(e, dup). (if dup then [e] else []) @ collect_duplicates (e_node e) (e_path e))
            (mark_seen set_empty (entries n path)))
      | SequenceNode \<Rightarrow>
          concat (map (\<lambda>(i, item). collect_duplicates item (index_path path i))
            (List.enumerate 0 (n_content n)))
      | _ \<Rightarrow> [])"
  by pat_completeness auto
termination
  by (relation "measure (\<lambda>(n, _). size n)")
    (auto intro: entries_node_size mark_seen_mem enumerate_size)

declare collect_duplicates.simps [simp del]

text \<open>The mappings of a document as written, aliases not followed.\<close>

function mappings_of :: "ynode \<Rightarrow> ynode list" where
  "mappings_of n =
     (case n_kind n of
        MappingNode \<Rightarrow> n # concat (map (\<lambda>(k, v). mappings_of v) (pairs (n_content n)))
      | SequenceNode \<Rightarrow> concat (map mappings_of (n_content n))
      | _ \<Rightarrow> [])"
  by pat_completeness auto
termination
  by (relation "measure size") (auto dest: pairs_size size_content)

declare mappings_of.simps [simp del]

lemma mark_seen_dups:
  "map fst (filter snd (mark_seen seen es)) = repeats set_has (\<lambda>s k. set_insert s [k]) e_key seen es"
  by (induction es arbitrary: seen) simp_all

interpretation gi: set_api set_empty set_has "\<lambda>s k. set_insert s [k]" set_elems set_ok
  by unfold_locales simp_all

lemma mark_seen_none: "(\<forall>(e, dup) \<in> set (mark_seen set_empty es). \<not> dup) \<longleftrightarrow> distinct (map e_key es)"
proof -
  have "(\<forall>(e, dup) \<in> set (mark_seen set_empty es). \<not> dup) \<longleftrightarrow>
      map fst (filter snd (mark_seen set_empty es)) = []"
    by (auto simp: filter_empty_conv)
  then show ?thesis
    using gi.repeats_none_iff [of e_key es] by (simp only: mark_seen_dups)
qed

lemma entries_keys: "map e_key (entries n p) = map e_key (entries n q)"
  by (simp add: entries_def Let_def comp_def case_prod_beta)

lemma entries_nodes: "e_node ` set (entries n p) = (if n_kind n = MappingNode then snd ` set (pairs (n_content n)) else {})"
  by (force simp: entries_def Let_def)

text \<open>
  no duplicate key is reported exactly when every mapping the document writes, at any depth,
  has distinct keys; and within one mapping the reported entries are those whose key an earlier
  entry has, so their number is what the mapping loses when the last value of each key wins.
\<close>

theorem collect_duplicates_none_iff:
  "(collect_duplicates n path = [] \<longleftrightarrow> (\<forall>m \<in> set (mappings_of n). distinct (map e_key (entries m [])))) \<and>
   length (filter snd (mark_seen set_empty (entries n path))) + card (e_key ` set (entries n path)) =
     length (entries n path)"
proof
  show "collect_duplicates n path = [] \<longleftrightarrow> (\<forall>m \<in> set (mappings_of n). distinct (map e_key (entries m [])))"
  proof (induction n path rule: collect_duplicates.induct)
    case (1 n path)
    show ?case
    proof (cases "n_kind n")
      case MappingNode
      have sub: "collect_duplicates (e_node e) (e_path e) = [] \<longleftrightarrow>
          (\<forall>m \<in> set (mappings_of (e_node e)). distinct (map e_key (entries m [])))"
        if mem: "e \<in> set (entries n path)" for e
      proof -
        obtain d where "(e, d) \<in> set (mark_seen set_empty (entries n path))"
          using mark_seen_ex [OF mem] by blast
        then show ?thesis by (rule 1(2) [OF MappingNode _ refl])
      qed
      have "collect_duplicates n path = [] \<longleftrightarrow> (\<forall>(e, dup) \<in> set (mark_seen set_empty (entries n path)). \<not> dup) \<and>
          (\<forall>e \<in> fst ` set (mark_seen set_empty (entries n path)). collect_duplicates (e_node e) (e_path e) = [])"
        by (subst collect_duplicates.simps) (simp add: MappingNode case_prod_beta ball_conj_distrib)
      also have "fst ` set (mark_seen set_empty (entries n path)) = set (entries n path)"
        using mark_seen_fst [of set_empty "entries n path"] by (metis list.set_map)
      also have "(\<forall>e \<in> set (entries n path). collect_duplicates (e_node e) (e_path e) = []) \<longleftrightarrow>
          (\<forall>v \<in> e_node ` set (entries n path). \<forall>m \<in> set (mappings_of v). distinct (map e_key (entries m [])))"
        by (simp add: sub)
      also have "e_node ` set (entries n path) = snd ` set (pairs (n_content n))"
        by (simp add: entries_nodes MappingNode)
      also have "(\<forall>(e, dup) \<in> set (mark_seen set_empty (entries n path)). \<not> dup) \<longleftrightarrow> distinct (map e_key (entries n []))"
        by (simp only: mark_seen_none entries_keys [of n path "[]"])
      finally show ?thesis
        by (subst mappings_of.simps) (auto simp: MappingNode)
    next
      case SequenceNode
      have "collect_duplicates n path = [] \<longleftrightarrow>
          (\<forall>(i, item) \<in> set (List.enumerate 0 (n_content n)). collect_duplicates item (index_path path i) = [])"
        by (subst collect_duplicates.simps) (auto simp: SequenceNode)
      also have "\<dots> \<longleftrightarrow> (\<forall>(i, item) \<in> set (List.enumerate 0 (n_content n)).
          \<forall>m \<in> set (mappings_of item). distinct (map e_key (entries m [])))"
        using 1(1) [OF SequenceNode _ refl] by (intro ball_cong) auto
      also have "\<dots> \<longleftrightarrow> (\<forall>item \<in> snd ` set (List.enumerate 0 (n_content n)).
          \<forall>m \<in> set (mappings_of item). distinct (map e_key (entries m [])))"
        by force
      also have "snd ` set (List.enumerate 0 (n_content n)) = set (n_content n)"
        by (metis list.set_map map_snd_enumerate)
      finally show ?thesis
        by (subst mappings_of.simps) (auto simp: SequenceNode)
    qed (simp_all add: collect_duplicates.simps mappings_of.simps)
  qed
  show "length (filter snd (mark_seen set_empty (entries n path))) + card (e_key ` set (entries n path)) =
     length (entries n path)"
    using gi.repeats_count [of e_key "entries n path"] by (metis mark_seen_dups length_map)
qed

lemma collect_duplicates_none_iff_witness:
  "map e_path (collect_duplicates (y_map [(''a'', y_str ''1''), (''b'', y_map [(''c'', y_null), (''c'', y_null)])]) []) = [''b.c''] \<and>
   collect_duplicates (y_map [(''a'', y_str ''1''), (''b'', y_map [(''c'', y_null), (''d'', y_null)])]) [] = []"
proof -
  have "list_all (\<lambda>m. distinct (map e_key (entries m [])))
      (mappings_of (y_map [(''a'', y_str ''1''), (''b'', y_map [(''c'', y_null), (''d'', y_null)])]))"
    by code_simp
  then have "collect_duplicates (y_map [(''a'', y_str ''1''), (''b'', y_map [(''c'', y_null), (''d'', y_null)])]) [] = []"
    using collect_duplicates_none_iff by (simp only: list_all_iff)
  moreover have "map e_path (collect_duplicates (y_map [(''a'', y_str ''1''), (''b'', y_map [(''c'', y_null), (''c'', y_null)])]) []) = [''b.c'']"
    by code_simp
  ultimately show ?thesis by blast
qed

subsection \<open>Syntax errors\<close>

record fault =
  ft_line :: int
  ft_column :: int
  ft_msg :: string

record syntax_error =
  se_path :: string
  se_line :: int
  se_column :: int
  se_msg :: string
  se_rest :: "fault list"

definition faults :: "syntax_error \<Rightarrow> fault list" where
  "faults e = \<lparr>ft_line = se_line e, ft_column = se_column e, ft_msg = se_msg e\<rparr> # se_rest e"

definition syntax_error_text :: "syntax_error \<Rightarrow> string" where
  "syntax_error_text e =
     join_strings ''; '' (map (\<lambda>f. position_string \<lparr>pos_file = se_path e, pos_line = ft_line f, pos_column = ft_column f\<rparr>
       @ '': '' @ ft_msg f) (faults e))"

definition yaml_syntax :: string where "yaml_syntax = ''yaml-syntax''"

definition syntax_diagnostics :: "syntax_error \<Rightarrow> diagnostic list" where
  "syntax_diagnostics e =
     map (\<lambda>f. \<lparr>d_rule = yaml_syntax, d_severity = Error, d_message = ft_msg f,
       d_position = \<lparr>pos_file = se_path e, pos_line = ft_line f, pos_column = ft_column f\<rparr>,
       d_path = [], d_hint = [], d_docs = []\<rparr>) (faults e)"

definition unlocated :: string where
  "unlocated = '' (the parser reported no line for this)''"

definition read_fault :: "string \<Rightarrow> fault" where
  "read_fault msg0 =
     (let msg = trim_prefix msg0 ''yaml: '';
          lost = \<lparr>ft_line = 0, ft_column = 0, ft_msg = msg @ unlocated\<rparr>
      in case cut_prefix msg ''line '' of
           None \<Rightarrow> lost
         | Some rest \<Rightarrow>
             (case cut rest '':'' of (num, tail, found) \<Rightarrow>
                if \<not> found then lost
                else (case atoi (trim_space num) of
                    None \<Rightarrow> lost
                  | Some line \<Rightarrow> \<lparr>ft_line = line, ft_column = 0, ft_msg = trim_space tail\<rparr>)))"

text \<open>
  The errors of the parser: the messages of a \<open>yaml.TypeError\<close>, or the one message of any other
  error (an error with no messages of its own counts as the latter).
\<close>

definition parser_error :: "string \<Rightarrow> string \<Rightarrow> string list \<Rightarrow> syntax_error" where
  "parser_error path err type_errors =
     (let msgs = (if 0 < length type_errors then type_errors else [err]);
          first = read_fault (hd msgs)
      in \<lparr>se_path = path, se_line = ft_line first, se_column = ft_column first, se_msg = ft_msg first,
          se_rest = map read_fault (tl msgs)\<rparr>)"

lemma syntax_diagnostics_length: "length (syntax_diagnostics e) = Suc (length (se_rest e))"
  by (simp add: syntax_diagnostics_def faults_def)

lemma parser_error_reports_all:
  "type_errors \<noteq> [] \<Longrightarrow> faults (parser_error path err type_errors) = map read_fault type_errors"
  by (cases type_errors) (simp_all add: parser_error_def faults_def Let_def)

end
