(* ===== verification/Resolve.thy ===== *)
theory Resolve
  imports Config
begin

section \<open>Aliases, merge keys and Parse\<close>

text \<open>
  \<open>pkg/config/resolve.go\<close> and \<open>Parse\<close>. The document is the graph of nodes yaml.v3 hands over: nodes
  live at addresses, the content of a node and the target of an alias are addresses, and an
  anchor reached through several aliases is one node. \<open>expandedSize\<close> walks it with a memo of the
  subtree sizes, \<open>resolve\<close> rewrites it in place with a set of nodes already walked.

  The recursion of the code is over this graph, so it is bounded by fuel; \<open>None\<close> is running out of
  it. Every recursive call of \<open>expandedSize\<close> that goes deeper has first entered its node in the
  memo, so \<open>length h + 1\<close> is enough (\<open>expanded_size_terminates\<close>).
\<close>

record hnode =
  h_kind :: ykind
  h_tag :: string
  h_value :: string
  h_tagged :: bool \<comment> \<open>whether the style carries \<open>TaggedStyle\<close>\<close>
  h_head :: string
  h_content :: "nat list"
  h_alias :: "nat option"
  h_line :: int
  h_column :: int

type_synonym heap = "hnode list"

definition max_expanded_nodes :: int where "max_expanded_nodes = 100000"

definition node_error :: "string \<Rightarrow> hnode \<Rightarrow> string \<Rightarrow> syntax_error" where
  "node_error path n msg =
     \<lparr>se_path = path, se_line = h_line n, se_column = h_column n, se_msg = msg, se_rest = []\<rparr>"

definition msg_cyclic :: string where "msg_cyclic = ''config contains a cyclic YAML alias''"
definition msg_expansion :: string where
  "msg_expansion = ''config exceeds YAML expansion limit of '' @ itoa max_expanded_nodes @ '' nodes''"
definition msg_map_key :: string where "msg_map_key = ''invalid map key: keys must be scalar values''"
definition msg_merge :: string where
  "msg_merge = ''map merge requires map or sequence of maps as the value''"

subsection \<open>validateNode\<close>

fun alias_target_h :: "nat \<Rightarrow> heap \<Rightarrow> nat \<Rightarrow> nat" where
  "alias_target_h 0 h a = a"
| "alias_target_h (Suc f) h a =
     (if h_kind (h ! a) = AliasNode
      then (case h_alias (h ! a) of Some b \<Rightarrow> alias_target_h f h b | None \<Rightarrow> a)
      else a)"

text \<open>
  \<open>decode\<close> stands for decoding an explicitly tagged scalar with yaml.v3: the error it reports, if any.
\<close>

definition validate_entry :: "string \<Rightarrow> heap \<Rightarrow> nat \<times> nat \<Rightarrow> syntax_error option" where
  "validate_entry path h = (\<lambda>(k, v).
     let kind = (\<lambda>a. h_kind (h ! alias_target_h (length h) h a)) in
     if kind k = MappingNode \<or> kind k = SequenceNode then Some (node_error path (h ! k) msg_map_key)
     else if h_tag (h ! k) \<noteq> merge_tag then None
     else
       (let value = alias_target_h (length h) h v;
            sources = (if h_kind (h ! value) = SequenceNode then h_content (h ! value) else [value])
        in if \<forall>s \<in> set sources. kind s = MappingNode then None
           else Some (node_error path (h ! v) msg_merge)))"

fun first_error :: "('a \<Rightarrow> 'e option) \<Rightarrow> 'a list \<Rightarrow> 'e option" where
  "first_error f [] = None"
| "first_error f (x # xs) = (case f x of Some e \<Rightarrow> Some e | None \<Rightarrow> first_error f xs)"

definition validate_node ::
  "(hnode \<Rightarrow> string option) \<Rightarrow> string \<Rightarrow> heap \<Rightarrow> nat \<Rightarrow> syntax_error option" where
  "validate_node decode path h a =
     (let n = h ! a in
      case h_kind n of
        ScalarNode \<Rightarrow>
          if \<not> h_tagged n then None
          else map_option (\<lambda>e. node_error path n (trim_prefix e ''yaml: '')) (decode n)
      | MappingNode \<Rightarrow> first_error (validate_entry path h) (pairs (h_content n))
      | _ \<Rightarrow> None)"

subsection \<open>expandedSize\<close>

type_synonym memo = "nat \<Rightarrow> int option"

type_synonym sized = "(syntax_error + int) \<times> memo"

text \<open>The loop over a node's children; \<open>visit\<close> is the recursive call.\<close>

fun count_children ::
  "(nat \<Rightarrow> memo \<Rightarrow> sized option) \<Rightarrow> string \<Rightarrow> heap \<Rightarrow> nat list \<Rightarrow> int \<Rightarrow> memo \<Rightarrow> sized option" where
  "count_children visit path h [] sz sizes = Some (Inr sz, sizes)"
| "count_children visit path h (c # cs) sz sizes =
     (case visit c sizes of
        None \<Rightarrow> None
      | Some (Inl e, sizes') \<Rightarrow> Some (Inl e, sizes')
      | Some (Inr k, sizes') \<Rightarrow>
          if max_expanded_nodes < sz + k
          then Some (Inl (node_error path (h ! c) msg_expansion), sizes')
          else count_children visit path h cs (sz + k) sizes')"

fun expanded_size ::
  "(hnode \<Rightarrow> string option) \<Rightarrow> nat \<Rightarrow> string \<Rightarrow> heap \<Rightarrow> nat \<Rightarrow> memo \<Rightarrow> sized option" where
  "expanded_size decode 0 path h a sizes = None"
| "expanded_size decode (Suc f) path h a sizes =
     (case sizes a of
        Some s \<Rightarrow> Some (Inr s, sizes)
      | None \<Rightarrow>
          let n = h ! a; sizes1 = sizes(a \<mapsto> - 1) in
          if h_kind n = AliasNode \<and> (case h_alias n of Some b \<Rightarrow> sizes1 b = Some (- 1) | None \<Rightarrow> False)
          then Some (Inl (node_error path n msg_cyclic), sizes1)
          else
            let children = (if h_kind n = AliasNode
                            then (case h_alias n of Some b \<Rightarrow> [b] | None \<Rightarrow> [])
                            else h_content n)
            in (case count_children (expanded_size decode f path h) path h children 1 sizes1 of
                  None \<Rightarrow> None
                | Some (Inl e, sizes2) \<Rightarrow> Some (Inl e, sizes2)
                | Some (Inr sz, sizes2) \<Rightarrow>
                    (case validate_node decode path h a of
                       Some e \<Rightarrow> Some (Inl e, sizes2)
                     | None \<Rightarrow> Some (Inr sz, sizes2(a \<mapsto> sz)))))"

subsection \<open>resolve\<close>

text \<open>The state of a pass: the graph, and the nodes already rewritten.\<close>

record resolver =
  rs_heap :: heap
  rs_walked :: "nat go_set"

definition set_content :: "nat \<Rightarrow> nat list \<Rightarrow> resolver \<Rightarrow> resolver" where
  "set_content a xs r = r\<lparr>rs_heap := (rs_heap r)[a := (rs_heap r ! a)\<lparr>h_content := xs\<rparr>]\<rparr>"

text \<open>\<open>mergedEntries\<close>, over the contents of the local entries and of the merged mappings.\<close>

fun merge_source :: "heap \<Rightarrow> string go_set \<times> nat list \<Rightarrow> (nat \<times> nat) list \<Rightarrow> string go_set \<times> nat list" where
  "merge_source h (seen, out) [] = (seen, out)"
| "merge_source h (seen, out) ((k, v) # rest) =
     (if set_has seen (h_value (h ! k)) then merge_source h (seen, out) rest
      else merge_source h (set_insert seen [h_value (h ! k)], out @ [k, v]) rest)"

definition merged_entries :: "heap \<Rightarrow> nat list \<Rightarrow> nat list \<Rightarrow> nat list" where
  "merged_entries h local merged =
     (if merged = [] then []
      else
        let seen = foldl (\<lambda>s (k, v). set_insert s [h_value (h ! k)]) set_empty (pairs local)
        in snd (foldl (\<lambda>st src. merge_source h st (pairs (h_content (h ! src)))) (seen, []) merged))"

text \<open>
  \<open>value\<close>, with \<open>walk\<close> and \<open>mapping\<close> inlined where they are called. The two loops take the recursive
  call as an argument; \<open>None\<close> is running out of fuel.
\<close>

fun resolve_items ::
  "(resolver \<Rightarrow> nat \<Rightarrow> (resolver \<times> nat) option) \<Rightarrow> nat \<Rightarrow> nat \<Rightarrow> nat list \<Rightarrow> resolver \<Rightarrow> resolver option" where
  "resolve_items value a i [] r = Some r"
| "resolve_items value a i (c # cs) r =
     (case value r c of
        None \<Rightarrow> None
      | Some (r', c') \<Rightarrow>
          resolve_items value a (Suc i) cs
            (set_content a ((h_content (rs_heap r' ! a))[i := c']) r'))"

fun resolve_entries ::
  "(resolver \<Rightarrow> nat \<Rightarrow> (resolver \<times> nat) option) \<Rightarrow> (nat \<times> nat) list \<Rightarrow> nat list \<Rightarrow> nat list \<Rightarrow> resolver \<Rightarrow>
     (resolver \<times> nat list \<times> nat list) option" where
  "resolve_entries value [] local merged r = Some (r, local, merged)"
| "resolve_entries value ((k, v) # rest) local merged r =
     (if h_tag (rs_heap r ! k) = merge_tag then
        (case value r v of
           None \<Rightarrow> None
         | Some (r', v') \<Rightarrow>
             resolve_entries value rest local
               (merged @ (if h_kind (rs_heap r' ! v') = MappingNode then [v'] else h_content (rs_heap r' ! v'))) r')
      else
        (case value r k of
           None \<Rightarrow> None
         | Some (r', k') \<Rightarrow>
             (case value r' v of
                None \<Rightarrow> None
              | Some (r'', v') \<Rightarrow> resolve_entries value rest (local @ [k', v']) merged r'')))"

fun resolve_value :: "nat \<Rightarrow> resolver \<Rightarrow> nat \<Rightarrow> (resolver \<times> nat) option" where
  "resolve_value 0 r a = None"
| "resolve_value (Suc f) r a =
     (let n = rs_heap r ! a in
      if h_kind n = AliasNode then
        (case h_alias n of None \<Rightarrow> Some (r, a) | Some b \<Rightarrow> resolve_value f r b)
      else if set_has (rs_walked r) a then Some (r, a)
      else
        let r1 = r\<lparr>rs_walked := set_insert (rs_walked r) [a]\<rparr> in
        if h_kind n = MappingNode then
          (case resolve_entries (resolve_value f) (pairs (h_content n)) [] [] r1 of
             None \<Rightarrow> None
           | Some (r2, local, merged) \<Rightarrow>
               Some (set_content a (local @ merged_entries (rs_heap r2) local merged) r2, a))
        else
          map_option (\<lambda>r2. (r2, a)) (resolve_items (resolve_value f) a 0 (h_content n) r1))"

definition resolve :: "nat \<Rightarrow> heap \<Rightarrow> nat \<Rightarrow> heap option" where
  "resolve f h root =
     map_option (\<lambda>(r, _). rs_heap r) (resolve_value f \<lparr>rs_heap = h, rs_walked = set_empty\<rparr> root)"

subsection \<open>The tree a node of the graph stands for\<close>

fun tree_of :: "nat \<Rightarrow> heap \<Rightarrow> nat \<Rightarrow> ynode" where
  "tree_of 0 h a =
     (let n = h ! a in YNode a (h_kind n) (h_tag n) (h_value n) [] None (h_line n) (h_column n))"
| "tree_of (Suc f) h a =
     (let n = h ! a in
      YNode a (h_kind n) (h_tag n) (h_value n) (map (tree_of f h) (h_content n))
        (map_option (tree_of f h) (h_alias n)) (h_line n) (h_column n))"

subsection \<open>Enough fuel\<close>

definition closed_heap :: "heap \<Rightarrow> bool" where
  "closed_heap h \<longleftrightarrow>
     (\<forall>a < length h. set (h_content (h ! a)) \<subseteq> {..<length h} \<and>
        (case h_alias (h ! a) of Some b \<Rightarrow> b < length h | None \<Rightarrow> True))"

definition free :: "heap \<Rightarrow> memo \<Rightarrow> nat" where
  "free h sizes = card {a. a < length h \<and> sizes a = None}"

lemma free_mono: "dom s \<subseteq> dom t \<Longrightarrow> free h t \<le> free h s"
  unfolding free_def by (rule card_mono) (auto simp: dom_def)

lemma free_enter: "a < length h \<Longrightarrow> s a = None \<Longrightarrow> free h (s(a \<mapsto> x)) < free h s"
  unfolding free_def by (rule psubset_card_mono) auto

lemma count_children_returns:
  assumes "\<And>c s. c \<in> set cs \<Longrightarrow> dom sizes \<subseteq> dom s \<Longrightarrow> \<exists>r s'. visit c s = Some (r, s') \<and> dom s \<subseteq> dom s'"
  shows "\<exists>r s'. count_children visit path h cs sz sizes = Some (r, s') \<and> dom sizes \<subseteq> dom s'"
  using assms
proof (induction cs arbitrary: sz sizes)
  case (Cons c cs)
  obtain r s' where v: "visit c sizes = Some (r, s')" "dom sizes \<subseteq> dom s'"
    using Cons.prems [of c sizes] by auto
  have "\<exists>r' t. count_children visit path h cs n s' = Some (r', t) \<and> dom s' \<subseteq> dom t" for n
    using v(2) by (intro Cons.IH Cons.prems) auto
  then have "\<exists>r' t. count_children visit path h cs n s' = Some (r', t) \<and> dom sizes \<subseteq> dom t" for n
    using v(2) by (meson order_trans)
  then show ?case using v by (cases r) auto
qed auto

lemma expanded_size_returns:
  assumes "closed_heap h"
  shows "a < length h \<Longrightarrow> free h sizes < f \<Longrightarrow>
    \<exists>r s'. expanded_size decode f path h a sizes = Some (r, s') \<and> dom sizes \<subseteq> dom s'"
proof (induction f arbitrary: a sizes)
  case (Suc f)
  show ?case
  proof (cases "sizes a")
    case None
    define s1 where "s1 = sizes(a \<mapsto> - 1)"
    define cs where "cs = (if h_kind (h ! a) = AliasNode
        then (case h_alias (h ! a) of Some b \<Rightarrow> [b] | None \<Rightarrow> []) else h_content (h ! a))"
    have cs: "set cs \<subseteq> {..<length h}"
      using assms Suc.prems(1) by (auto simp: cs_def closed_heap_def split: option.splits)
    have "free h s1 < f" using free_enter [of a h sizes "- 1"] None Suc.prems(1) Suc.prems(2) by (simp add: s1_def)
    then have "\<exists>r s'. expanded_size decode f path h c s = Some (r, s') \<and> dom s \<subseteq> dom s'"
      if "c \<in> set cs" "dom s1 \<subseteq> dom s" for c s
      using that cs free_mono [OF that(2), of h] by (intro Suc.IH) auto
    then obtain r s2 where c: "count_children (expanded_size decode f path h) path h cs 1 s1 = Some (r, s2)"
      "dom s1 \<subseteq> dom s2"
      using count_children_returns [of cs s1 "expanded_size decode f path h" path h 1] by blast
    have "dom sizes \<subseteq> dom s1" by (auto simp: s1_def)
    moreover from this have "dom sizes \<subseteq> dom s2" using c(2) by (rule order_trans)
    ultimately show ?thesis
      using None c by (auto simp: Let_def cs_def [symmetric] s1_def [symmetric] split: sum.splits option.splits)
  qed auto
qed simp

subsection \<open>What expandedSize accepts\<close>

text \<open>The finite tree a node stands for, when there is one: no node is inside itself.\<close>

inductive unfolds :: "heap \<Rightarrow> nat \<Rightarrow> ynode \<Rightarrow> bool" for h where
  unfolds_node:
    "a < length h \<Longrightarrow> list_all2 (unfolds h) (h_content (h ! a)) ts \<Longrightarrow> h_alias (h ! a) = None \<Longrightarrow>
     unfolds h a (YNode a (h_kind (h ! a)) (h_tag (h ! a)) (h_value (h ! a)) ts None
       (h_line (h ! a)) (h_column (h ! a)))"
| unfolds_alias:
    "a < length h \<Longrightarrow> h_content (h ! a) = [] \<Longrightarrow> h_alias (h ! a) = Some b \<Longrightarrow> unfolds h b t \<Longrightarrow>
     unfolds h a (YNode a (h_kind (h ! a)) (h_tag (h ! a)) (h_value (h ! a)) [] (Some t)
       (h_line (h ! a)) (h_column (h ! a)))"

text \<open>The number of nodes of a tree, an alias counting with everything it names.\<close>

fun tree_count :: "ynode \<Rightarrow> int" where
  "tree_count (YNode i k t v xs al l c) =
     1 + sum_list (map tree_count xs) + (case al of None \<Rightarrow> 0 | Some m \<Rightarrow> tree_count m)"

text \<open>
  A document as yaml.v3 builds it: the nodes are numbered in the order the parser creates them, so
  the nodes below one are the addresses that follow it; an alias names an anchor that was defined
  before it and has no content of its own.
\<close>

inductive laid :: "heap \<Rightarrow> nat \<Rightarrow> nat \<Rightarrow> bool" and laid_list :: "heap \<Rightarrow> nat list \<Rightarrow> nat \<Rightarrow> nat \<Rightarrow> bool"
  for h where
  laid_node: "laid_list h (h_content (h ! a)) (Suc a) b \<Longrightarrow> laid h a b"
| laid_nil: "laid_list h [] a a"
| laid_cons: "laid h a b \<Longrightarrow> laid_list h cs b e \<Longrightarrow> laid_list h (a # cs) a e"

inductive_simps laid_iff: "laid h a b"
inductive_simps laid_list_nil [simp]: "laid_list h [] a b"
inductive_simps laid_list_cons [simp]: "laid_list h (c # cs) a b"

definition document :: "heap \<Rightarrow> bool" where
  "document h \<longleftrightarrow>
     laid h 0 (length h) \<and>
     (\<forall>a < length h.
        if h_kind (h ! a) = AliasNode then h_content (h ! a) = [] \<and> (\<exists>b < a. h_alias (h ! a) = Some b)
        else h_alias (h ! a) = None)"

lemma laid_less: "laid h a b \<Longrightarrow> a < b" and laid_list_le: "laid_list h cs a b \<Longrightarrow> a \<le> b"
  by (induction rule: laid_laid_list.inducts) auto

lemma laid_content:
  "laid h a b \<Longrightarrow> a \<le> x \<Longrightarrow> x < b \<Longrightarrow> set (h_content (h ! x)) \<subseteq> {x<..<b}"
  "laid_list h cs a b \<Longrightarrow> set cs \<subseteq> {a..<b} \<and> (a \<le> x \<longrightarrow> x < b \<longrightarrow> set (h_content (h ! x)) \<subseteq> {x<..<b})"
proof (induction rule: laid_laid_list.inducts)
  case (laid_node a b)
  then show ?case by (cases "x = a") auto
next
  case (laid_cons a b cs e)
  then have le: "a < b" "b \<le> e" using laid_less laid_list_le by blast+
  have sub: "set cs \<subseteq> {b..<e}" and later: "b \<le> x \<Longrightarrow> x < e \<Longrightarrow> set (h_content (h ! x)) \<subseteq> {x<..<e}"
    using laid_cons(4) by auto
  have "set (h_content (h ! x)) \<subseteq> {x<..<e}" if "a \<le> x" "x < e"
  proof (cases "x < b")
    case True
    then have "set (h_content (h ! x)) \<subseteq> {x<..<b}" using laid_cons(2) that by simp
    then show ?thesis using le by force
  next
    case False
    then show ?thesis using later that by simp
  qed
  moreover have "set (a # cs) \<subseteq> {a..<e}" using sub le by auto
  ultimately show ?case by blast
qed simp

lemma document_alias:
  "document h \<Longrightarrow> a < length h \<Longrightarrow> h_kind (h ! a) = AliasNode \<Longrightarrow>
   h_content (h ! a) = [] \<and> (\<exists>b < a. h_alias (h ! a) = Some b)"
  unfolding document_def by presburger

lemma document_other:
  "document h \<Longrightarrow> a < length h \<Longrightarrow> h_kind (h ! a) \<noteq> AliasNode \<Longrightarrow> h_alias (h ! a) = None"
  unfolding document_def by presburger

lemma document_closed: "document h \<Longrightarrow> closed_heap h"
  unfolding closed_heap_def
proof (intro allI impI conjI)
  fix a assume d: "document h" and a: "a < length h"
  have "set (h_content (h ! a)) \<subseteq> {a<..<length h}"
    using d laid_content(1) [of h 0 "length h" a] a by (simp add: document_def)
  then show "set (h_content (h ! a)) \<subseteq> {..<length h}" by auto
  show "case h_alias (h ! a) of Some b \<Rightarrow> b < length h | None \<Rightarrow> True"
    using document_alias [OF d a] document_other [OF d a] a by (cases "h_kind (h ! a) = AliasNode") auto
qed

text \<open>
  The memo when the pass enters address \<open>a\<close>: everything before \<open>a\<close> is entered, a finished node
  maps to the size of its tree.
\<close>

definition memo_ok :: "heap \<Rightarrow> nat \<Rightarrow> memo \<Rightarrow> bool" where
  "memo_ok h a sizes \<longleftrightarrow> dom sizes = {..<a} \<and>
     (\<forall>x < a. sizes x = Some (- 1) \<or> (\<exists>t. unfolds h x t \<and> sizes x = Some (tree_count t)))"

lemma tree_count_pos: "0 < tree_count t"
proof (induction t rule: tree_count.induct)
  case (1 i k t v xs al l c)
  then have "0 \<le> sum_list (map tree_count xs)"
    by (intro sum_list_nonneg) (auto intro: less_imp_le)
  then show ?case using 1 by (cases al) (auto intro: add_pos_pos)
qed

lemma memo_enter: "memo_ok h a sizes \<Longrightarrow> memo_ok h (Suc a) (sizes(a \<mapsto> - 1))"
  by (auto simp: memo_ok_def less_Suc_eq)

lemma memo_leave:
  "memo_ok h b sizes \<Longrightarrow> a < b \<Longrightarrow> unfolds h a t \<Longrightarrow> memo_ok h b (sizes(a \<mapsto> tree_count t))"
  by (auto simp: memo_ok_def)

lemma memo_ok_fresh: "memo_ok h a sizes \<Longrightarrow> sizes a = None"
  by (auto simp: memo_ok_def dom_def)

lemma expanded_size_accepts:
  assumes doc: "document h"
  shows "laid h a b \<Longrightarrow> b \<le> length h \<Longrightarrow> memo_ok h a sizes \<Longrightarrow>
      expanded_size decode f path h a sizes = Some (Inr k, s') \<Longrightarrow>
      memo_ok h b s' \<and> k \<le> max_expanded_nodes \<and> (\<exists>t. unfolds h a t \<and> k = tree_count t) \<and>
      (\<forall>x \<in> {a..<b}. validate_node decode path h x = None)"
    and "laid_list h cs a e \<Longrightarrow> e \<le> length h \<Longrightarrow> memo_ok h a sizes \<Longrightarrow> sz \<le> max_expanded_nodes \<Longrightarrow>
      count_children (expanded_size decode f path h) path h cs sz sizes = Some (Inr k, s') \<Longrightarrow>
      memo_ok h e s' \<and> k \<le> max_expanded_nodes \<and>
      (\<exists>ts. list_all2 (unfolds h) cs ts \<and> k = sz + sum_list (map tree_count ts)) \<and>
      (\<forall>x \<in> {a..<e}. validate_node decode path h x = None)"
proof (induction arbitrary: f sizes k s' and f sizes sz k s' rule: laid_laid_list.inducts)
  case (laid_node a b)
  have a: "a < b" "a < length h" using laid_list_le laid_node by fastforce+
  obtain f' where f: "f = Suc f'" using laid_node.prems by (cases f) auto
  note fresh = memo_ok_fresh [OF laid_node.prems(2)]
  define s1 where "s1 = sizes(a \<mapsto> - 1)"
  have s1: "memo_ok h (Suc a) s1" unfolding s1_def by (rule memo_enter [OF laid_node.prems(2)])
  show ?case
  proof (cases "h_kind (h ! a) = AliasNode")
    case True
    then obtain c where c: "h_content (h ! a) = []" "c < a" "h_alias (h ! a) = Some c"
      using document_alias [OF doc a(2)] by blast
    then have b: "b = Suc a" using laid_node(1) by (auto elim: laid_list.cases)
    have "s1 c \<noteq> Some (- 1)"
    proof
      assume "s1 c = Some (- 1)"
      then show False
        using laid_node.prems(3) f fresh True c(3) by (simp add: s1_def [symmetric])
    qed
    then obtain t where t: "unfolds h c t" "s1 c = Some (tree_count t)"
      using s1 c(2) unfolding memo_ok_def by (metis less_SucI)
    have f': "expanded_size decode f' path h c s1 = (if f' = 0 then None else Some (Inr (tree_count t), s1))"
      using t(2) by (cases f') simp_all
    have res: "f' \<noteq> 0" "1 + tree_count t \<le> max_expanded_nodes" "validate_node decode path h a = None"
      "k = 1 + tree_count t" "s' = s1(a \<mapsto> k)"
      using laid_node.prems(3) f fresh True c f' \<open>s1 c \<noteq> Some (- 1)\<close>
      by (auto simp: s1_def [symmetric] Let_def split: if_splits option.splits)
    define u where "u = YNode a (h_kind (h ! a)) (h_tag (h ! a)) (h_value (h ! a)) [] (Some t)
       (h_line (h ! a)) (h_column (h ! a))"
    have "unfolds h a u" unfolding u_def by (rule unfolds_alias [OF a(2) c(1,3) t(1)])
    moreover have "k = tree_count u" using res(4) by (simp add: u_def)
    moreover from calculation have "memo_ok h b s'"
      using memo_leave [OF s1, of a u] b res(5) by simp
    ultimately show ?thesis using res(2,3,4) b by (auto simp: less_Suc_eq)
  next
    case False
    obtain s2 where res: "count_children (expanded_size decode f' path h) path h (h_content (h ! a)) 1 s1 = Some (Inr k, s2)"
      "validate_node decode path h a = None" "s' = s2(a \<mapsto> k)"
      using laid_node.prems(3) f fresh False
      by (auto simp: s1_def [symmetric] Let_def split: option.splits sum.splits prod.splits)
    obtain ts where ih: "memo_ok h b s2" "k \<le> max_expanded_nodes"
      "list_all2 (unfolds h) (h_content (h ! a)) ts" "k = 1 + sum_list (map tree_count ts)"
      "\<forall>x \<in> {Suc a..<b}. validate_node decode path h x = None"
      using laid_node(2) [OF laid_node.prems(1) s1 _ res(1)] by (auto simp: max_expanded_nodes_def)
    define u where "u = YNode a (h_kind (h ! a)) (h_tag (h ! a)) (h_value (h ! a)) ts None
       (h_line (h ! a)) (h_column (h ! a))"
    have u: "unfolds h a u" unfolding u_def
      by (rule unfolds_node [OF a(2) ih(3) document_other [OF doc a(2) False]])
    moreover have "k = tree_count u" using ih(4) by (simp add: u_def)
    moreover from calculation have "memo_ok h b s'"
      using memo_leave [OF ih(1) a(1) u] res(3) by simp
    moreover have "validate_node decode path h x = None" if "x \<in> {a..<b}" for x
      using ih(5) res(2) that by (cases "x = a") auto
    ultimately show ?thesis using ih(2) by blast
  qed
next
  case (laid_cons a b cs e)
  have b: "b \<le> length h" using laid_list_le [OF laid_cons(3)] laid_cons.prems(1) by simp
  obtain j s1 where v: "expanded_size decode f path h a sizes = Some (Inr j, s1)"
    "sz + j \<le> max_expanded_nodes" "count_children (expanded_size decode f path h) path h cs (sz + j) s1 = Some (Inr k, s')"
    using laid_cons.prems(4) by (auto split: option.splits sum.splits prod.splits if_splits)
  obtain t where t: "memo_ok h b s1" "unfolds h a t" "j = tree_count t"
    "\<forall>x \<in> {a..<b}. validate_node decode path h x = None"
    using laid_cons(2) [OF b laid_cons.prems(2) v(1)] by blast
  obtain ts where ts: "memo_ok h e s'" "k \<le> max_expanded_nodes" "list_all2 (unfolds h) cs ts"
    "k = sz + j + sum_list (map tree_count ts)" "\<forall>x \<in> {b..<e}. validate_node decode path h x = None"
    using laid_cons(4) [OF laid_cons.prems(1) t(1) v(2,3)] by blast
  have "list_all2 (unfolds h) (a # cs) (t # ts)" "k = sz + sum_list (map tree_count (t # ts))"
    using t ts by simp_all
  moreover have "validate_node decode path h x = None" if "x \<in> {a..<e}" for x
    using t(4) ts(5) that by (cases "x < b") auto
  ultimately show ?case using ts(1,2) by blast
qed auto

subsection \<open>What expandedSize rejects\<close>

definition edge :: "heap \<Rightarrow> nat \<Rightarrow> nat \<Rightarrow> bool" where
  "edge h x y \<longleftrightarrow> y \<in> set (h_content (h ! x)) \<or> h_alias (h ! x) = Some y"

lemma unfolds_det: "unfolds h a t \<Longrightarrow> unfolds h a u \<Longrightarrow> u = t"
proof (induction a t arbitrary: u rule: unfolds.induct)
  case (unfolds_node a ts)
  then obtain us where u: "list_all2 (unfolds h) (h_content (h ! a)) us"
    "u = YNode a (h_kind (h ! a)) (h_tag (h ! a)) (h_value (h ! a)) us None (h_line (h ! a)) (h_column (h ! a))"
    by (auto elim: unfolds.cases)
  have "ts = us"
    using unfolds_node.IH u(1)
    by (induction arbitrary: us rule: list_all2_induct) (auto simp: list_all2_Cons1)
  then show ?case using u(2) by simp
next
  case (unfolds_alias a b t)
  from unfolds_alias.prems obtain t' where "unfolds h b t'"
    "u = YNode a (h_kind (h ! a)) (h_tag (h ! a)) (h_value (h ! a)) [] (Some t') (h_line (h ! a)) (h_column (h ! a))"
    by (cases rule: unfolds.cases) (simp_all add: unfolds_alias.hyps)
  then show ?case using unfolds_alias.IH by simp
qed

lemma unfolds_edge: "unfolds h x t \<Longrightarrow> edge h x y \<Longrightarrow> \<exists>u. unfolds h y u \<and> size u < size t"
proof (induction x t rule: unfolds.induct)
  case (unfolds_node a ts)
  then obtain i where i: "i < length ts" "h_content (h ! a) ! i = y"
    using list_all2_lengthD [OF unfolds_node.IH] by (auto simp: edge_def in_set_conv_nth)
  then have "unfolds h y (ts ! i)"
    using list_all2_nthD2 [OF unfolds_node.IH i(1)] by simp
  moreover have "size (ts ! i) < size (YNode a k t v ts None l c)" for k t v l c
    using size_content [of "ts ! i" "YNode a k t v ts None l c"] i(1) by simp
  ultimately show ?case by blast
qed (auto simp: edge_def)

lemma unfolds_reach: "(edge h)\<^sup>+\<^sup>+ x y \<Longrightarrow> unfolds h x t \<Longrightarrow> \<exists>u. unfolds h y u \<and> size u < size t"
  by (induction rule: tranclp_induct) (use unfolds_edge less_trans in blast)+

lemma unfolds_acyclic: "unfolds h x t \<Longrightarrow> \<not> (edge h)\<^sup>+\<^sup>+ x x"
  using unfolds_reach unfolds_det by (metis less_irrefl)

definition above :: "heap \<Rightarrow> nat \<Rightarrow> memo \<Rightarrow> bool" where
  "above h a sizes \<longleftrightarrow> (\<forall>x. sizes x = Some (- 1) \<longrightarrow> (edge h)\<^sup>+\<^sup>+ x a)"

lemma tree_counts_nonneg: "0 \<le> sum_list (map tree_count ts)"
  by (intro sum_list_nonneg) (auto intro: less_imp_le [OF tree_count_pos])

lemma above_enter: "above h a sizes \<Longrightarrow> edge h a c \<Longrightarrow> above h c (sizes(a \<mapsto> - 1))"
  by (auto simp: above_def intro: tranclp.trancl_into_trancl)

lemma expanded_size_complete:
  assumes doc: "document h"
  shows "laid h a b \<Longrightarrow> b \<le> length h \<Longrightarrow> memo_ok h a sizes \<Longrightarrow> above h a sizes \<Longrightarrow>
      unfolds h a t \<Longrightarrow> tree_count t \<le> max_expanded_nodes \<Longrightarrow>
      \<forall>x \<in> {a..<b}. validate_node decode path h x = None \<Longrightarrow>
      expanded_size decode f path h a sizes = Some (r, s') \<Longrightarrow>
      (\<exists>k. r = Inr k) \<and> (\<forall>x. s' x = Some (- 1) \<longrightarrow> sizes x = Some (- 1))"
    and "laid_list h cs a e \<Longrightarrow> e \<le> length h \<Longrightarrow> memo_ok h a sizes \<Longrightarrow> (\<forall>c \<in> set cs. above h c sizes) \<Longrightarrow>
      list_all2 (unfolds h) cs ts \<Longrightarrow> sz + sum_list (map tree_count ts) \<le> max_expanded_nodes \<Longrightarrow>
      0 \<le> sz \<Longrightarrow>
      \<forall>x \<in> {a..<e}. validate_node decode path h x = None \<Longrightarrow>
      count_children (expanded_size decode f path h) path h cs sz sizes = Some (r, s') \<Longrightarrow>
      (\<exists>k. r = Inr k) \<and> (\<forall>x. s' x = Some (- 1) \<longrightarrow> sizes x = Some (- 1))"
proof (induction arbitrary: t f sizes r s' and ts f sizes sz r s' rule: laid_laid_list.inducts)
  case (laid_node a b)
  have a: "a < b" "a < length h" using laid_list_le laid_node by fastforce+
  obtain f' where f: "f = Suc f'" using laid_node.prems by (cases f) auto
  note fresh = memo_ok_fresh [OF laid_node.prems(2)]
  define s1 where "s1 = sizes(a \<mapsto> - 1)"
  have s1: "memo_ok h (Suc a) s1" unfolding s1_def by (rule memo_enter [OF laid_node.prems(2)])
  have valid: "validate_node decode path h a = None" using laid_node.prems(6) a(1) by simp
  show ?case
  proof (cases "h_kind (h ! a) = AliasNode")
    case True
    then obtain c where c: "h_content (h ! a) = []" "c < a" "h_alias (h ! a) = Some c"
      using document_alias [OF doc a(2)] by blast
    have "s1 c \<noteq> Some (- 1)"
    proof
      assume "s1 c = Some (- 1)"
      then have "(edge h)\<^sup>+\<^sup>+ c a" using laid_node.prems(3) c(2) by (simp add: s1_def above_def)
      then have "(edge h)\<^sup>+\<^sup>+ a a"
        using c(3) by (auto simp: edge_def intro: tranclp_into_tranclp2)
      then show False using unfolds_acyclic [OF laid_node.prems(4)] by blast
    qed
    then obtain u where u: "unfolds h c u" "s1 c = Some (tree_count u)"
      using s1 c(2) unfolding memo_ok_def by (metis less_SucI)
    obtain u' where u': "unfolds h c u'" "t = YNode a (h_kind (h ! a)) (h_tag (h ! a)) (h_value (h ! a)) [] (Some u')
       (h_line (h ! a)) (h_column (h ! a))"
      using laid_node.prems(4) c(3) by (auto elim: unfolds.cases)
    have "1 + tree_count u \<le> max_expanded_nodes"
      using laid_node.prems(5) u' unfolds_det [OF u(1) u'(1)] by simp
    moreover have "expanded_size decode f' path h c s1 = (if f' = 0 then None else Some (Inr (tree_count u), s1))"
      using u(2) by (cases f') simp_all
    ultimately show ?thesis
      using laid_node.prems(7) f fresh True c valid \<open>s1 c \<noteq> Some (- 1)\<close> tree_count_pos [of u] by (auto simp: s1_def Let_def split: if_splits)
  next
    case False
    obtain ts where ts: "list_all2 (unfolds h) (h_content (h ! a)) ts"
      "t = YNode a (h_kind (h ! a)) (h_tag (h ! a)) (h_value (h ! a)) ts None (h_line (h ! a)) (h_column (h ! a))"
      using laid_node.prems(4) document_other [OF doc a(2) False] by (auto elim: unfolds.cases)
    obtain r' s2 where c: "count_children (expanded_size decode f' path h) path h (h_content (h ! a)) 1 s1 = Some (r', s2)"
      using laid_node.prems(7) f fresh False
      by (auto simp: s1_def [symmetric] Let_def split: option.splits)
    have "\<forall>c \<in> set (h_content (h ! a)). above h c s1"
      using above_enter [OF laid_node.prems(3)] by (auto simp: s1_def edge_def)
    moreover have "1 + sum_list (map tree_count ts) \<le> max_expanded_nodes"
      using laid_node.prems(5) ts(2) by simp
    ultimately have "(\<exists>k. r' = Inr k) \<and> (\<forall>x. s2 x = Some (- 1) \<longrightarrow> s1 x = Some (- 1))"
      using laid_node(2) [OF laid_node.prems(1) s1 _ ts(1) _ _ _ c] laid_node.prems(6) by simp
    then obtain k where k: "r' = Inr k" "\<forall>x. s2 x = Some (- 1) \<longrightarrow> s1 x = Some (- 1)" by blast
    obtain us where "k = 1 + sum_list (map tree_count us)"
      using expanded_size_accepts(2) [OF doc laid_node(1) laid_node.prems(1) s1 _ c [unfolded k(1)]]
      by (auto simp: max_expanded_nodes_def)
    then have "k \<noteq> - 1" using tree_counts_nonneg [of us] by simp
    then show ?thesis
      using laid_node.prems(7) f fresh False valid c k
      by (auto simp: s1_def Let_def split: if_splits)
  qed
next
  case (laid_cons a b cs e)
  have b: "b \<le> length h" using laid_list_le [OF laid_cons(3)] laid_cons.prems(1) by simp
  have ab: "a < b" "b \<le> e" using laid_less [OF laid_cons(1)] laid_list_le [OF laid_cons(3)] by simp_all
  obtain u us where ts: "ts = u # us" "unfolds h a u" "list_all2 (unfolds h) cs us"
    using laid_cons.prems(4) by (auto simp: list_all2_Cons1)
  have sum: "sz + tree_count u + sum_list (map tree_count us) \<le> max_expanded_nodes"
    using laid_cons.prems(5) ts(1) by simp
  then have u_le: "tree_count u \<le> max_expanded_nodes"
    using laid_cons.prems(6) tree_counts_nonneg [of us] by linarith
  obtain r1 s1 where v: "expanded_size decode f path h a sizes = Some (r1, s1)"
    using laid_cons.prems(8) by (auto split: option.splits)
  have "(\<exists>k. r1 = Inr k) \<and> (\<forall>x. s1 x = Some (- 1) \<longrightarrow> sizes x = Some (- 1))"
    using laid_cons(2) [OF b laid_cons.prems(2) _ ts(2) u_le _ v] laid_cons.prems(3,7) ab by simp
  then obtain j where j: "r1 = Inr j" "\<forall>x. s1 x = Some (- 1) \<longrightarrow> sizes x = Some (- 1)" by blast
  obtain u' where u': "memo_ok h b s1" "unfolds h a u'" "j = tree_count u'"
    using expanded_size_accepts(1) [OF doc laid_cons(1) b laid_cons.prems(2) v [unfolded j(1)]] by blast
  then have ju: "j = tree_count u" using unfolds_det [OF ts(2) u'(2)] by simp
  have "\<not> max_expanded_nodes < sz + j"
    using sum ju tree_counts_nonneg [of us] by simp
  then have rest: "count_children (expanded_size decode f path h) path h cs (sz + j) s1 = Some (r, s')"
    using laid_cons.prems(8) v j(1) by simp
  have above: "\<forall>c \<in> set cs. above h c s1"
    using laid_cons.prems(3) j(2) by (auto simp: above_def)
  have "(\<exists>k. r = Inr k) \<and> (\<forall>x. s' x = Some (- 1) \<longrightarrow> s1 x = Some (- 1))"
    using laid_cons(4) [OF laid_cons.prems(1) u'(1) above ts(3) _ _ _ rest] sum ju laid_cons.prems(6,7) ab
      tree_count_pos [of u] by simp
  then show ?case using j(2) by blast
qed auto

lemma expanded_size_char:
  assumes "document h" "length h < f"
  shows "\<exists>r s. expanded_size decode f path h 0 (\<lambda>_. None) = Some (r, s) \<and>
    (\<forall>k. r = Inr k \<longleftrightarrow>
      (\<exists>t. unfolds h 0 t \<and> k = tree_count t \<and> tree_count t \<le> 100000) \<and>
      (\<forall>a < length h. validate_node decode path h a = None))"
proof -
  have laid: "laid h 0 (length h)" using assms(1) by (simp add: document_def)
  have memo: "memo_ok h 0 (\<lambda>_. None)" by (simp add: memo_ok_def)
  have "free h (\<lambda>_. None) < f" using assms(2) by (simp add: free_def)
  then obtain r s where r: "expanded_size decode f path h 0 (\<lambda>_. None) = Some (r, s)"
    using expanded_size_returns [OF document_closed [OF assms(1)], of 0] laid_less [OF laid] by blast
  have "(\<exists>t. unfolds h 0 t \<and> k = tree_count t \<and> tree_count t \<le> 100000) \<and>
      (\<forall>a < length h. validate_node decode path h a = None)" if "r = Inr k" for k
    using expanded_size_accepts(1) [OF assms(1) laid order_refl memo r [unfolded that]]
    by (auto simp: max_expanded_nodes_def)
  moreover have "r = Inr k"
    if t: "unfolds h 0 t" "k = tree_count t" "tree_count t \<le> 100000"
      and valid: "\<forall>a < length h. validate_node decode path h a = None" for k t
  proof -
    obtain j where j: "r = Inr j"
      using expanded_size_complete(1) [OF assms(1) laid order_refl memo _ t(1) _ _ r] t valid
      by (auto simp: above_def max_expanded_nodes_def)
    obtain u where "unfolds h 0 u" "j = tree_count u"
      using expanded_size_accepts(1) [OF assms(1) laid order_refl memo r [unfolded j]] by blast
    then show ?thesis using unfolds_det [OF t(1)] t(2) j by simp
  qed
  ultimately show ?thesis using r by blast
qed

text \<open>
  C1: the preflight of \<open>Parse\<close> accepts a document exactly when no node is inside itself through an
  alias, the tree with every alias written out has at most 100000 nodes, and every node passes the
  check of its own; the size it returns, from a memo, is then that of the written-out tree. It
  never runs out of fuel and never overflows: each node is entered once.
\<close>

theorem expanded_size_correct:
  assumes "document h" "length h < f"
  shows "\<exists>r s. expanded_size decode f path h 0 (\<lambda>_. None) = Some (r, s) \<and>
    (\<forall>k. r = Inr k \<longleftrightarrow>
      (\<exists>t. unfolds h 0 t \<and> k = tree_count t \<and> tree_count t \<le> 100000) \<and>
      (\<forall>a < length h. validate_node decode path h a = None))"
  by (rule expanded_size_char [OF assms])

text \<open>The document \<open>a: &x {k: 1}\<close>, \<open>b: *x\<close>, node by node.\<close>

definition hn :: "ykind \<Rightarrow> string \<Rightarrow> string \<Rightarrow> nat list \<Rightarrow> nat option \<Rightarrow> hnode" where
  "hn k t v xs al = \<lparr>h_kind = k, h_tag = t, h_value = v, h_tagged = False, h_head = [], h_content = xs,
     h_alias = al, h_line = 1, h_column = 1\<rparr>"

definition alias_doc :: heap where
  "alias_doc =
     [hn MappingNode ''!!map'' [] [1, 2, 5, 6] None, hn ScalarNode str_tag ''a'' [] None,
      hn MappingNode ''!!map'' [] [3, 4] None, hn ScalarNode str_tag ''k'' [] None,
      hn ScalarNode int_tag ''1'' [] None, hn ScalarNode str_tag ''b'' [] None,
      hn AliasNode [] ''x'' [] (Some 2)]"

lemma expanded_size_correct_witness:
  "\<exists>t. unfolds alias_doc 0 t \<and> tree_count t = 10"
proof -
  have "document alias_doc"
    unfolding document_def alias_doc_def hn_def
    by (intro conjI) (simp add: laid_iff, simp add: All_less_Suc numeral_eq_Suc)
  moreover have "length alias_doc < 8" by (simp add: alias_doc_def)
  ultimately obtain r s where
    r: "expanded_size (\<lambda>_. None) 8 [] alias_doc 0 (\<lambda>_. None) = Some (r, s)" and
    iff: "\<forall>k. r = Inr k \<longleftrightarrow> (\<exists>t. unfolds alias_doc 0 t \<and> k = tree_count t \<and> tree_count t \<le> 100000) \<and>
      (\<forall>a < length alias_doc. validate_node (\<lambda>_. None) [] alias_doc a = None)"
    using expanded_size_correct [of alias_doc 8 "\<lambda>_. None" "[]"] by blast
  have "map_option fst (expanded_size (\<lambda>_. None) 8 [] alias_doc 0 (\<lambda>_. None)) = Some (Inr 10)"
    by code_simp
  then have "r = Inr 10" using r by simp
  then show ?thesis using iff by auto
qed

end
