(* ===== verification/ResolveTree.thy ===== *)
theory ResolveTree
  imports Resolve
begin

section \<open>What resolve computes\<close>

text \<open>
  The specification of \<open>resolve\<close> on the written-out tree, and the proof that the pass over the shared
  graph, with its set of nodes already walked, computes it; then \<open>Parse\<close>, which runs it.
\<close>

subsection \<open>Merged entries\<close>

text \<open>The items whose key is not taken yet, in order, each key once.\<close>

fun keep_new :: "('a \<Rightarrow> 'k) \<Rightarrow> 'k set \<Rightarrow> 'a list \<Rightarrow> 'a list" where
  "keep_new key K [] = []"
| "keep_new key K (x # xs) =
     (if key x \<in> K then keep_new key K xs else x # keep_new key (insert (key x) K) xs)"

lemma keep_new_append:
  "keep_new key K (xs @ ys) = keep_new key K xs @ keep_new key (K \<union> key ` set xs) ys"
  by (induction xs arbitrary: K) (auto simp: insert_absorb)

lemma keep_new_map: "keep_new key K (map f xs) = map f (keep_new (\<lambda>x. key (f x)) K xs)"
  by (induction xs arbitrary: K) auto

lemma keep_new_cong: "(\<And>x. x \<in> set xs \<Longrightarrow> key x = key' x) \<Longrightarrow> keep_new key K xs = keep_new key' K xs"
  by (induction xs arbitrary: K) auto

lemma keep_new_subset: "set (keep_new key K xs) \<subseteq> set xs"
proof (induction xs arbitrary: K)
  case (Cons x xs)
  show ?case using Cons [of K] Cons [of "insert (key x) K"] by auto
qed simp

lemma keep_new_distinct: "distinct (map key (keep_new key K xs)) \<and> key ` set (keep_new key K xs) \<inter> K = {}"
  by (induction xs arbitrary: K) auto

lemma keep_new_keys: "key ` set (keep_new key K xs) = key ` set xs - K"
  by (induction xs arbitrary: K) auto

lemma keep_new_find:
  "find (\<lambda>x. key x = y) (keep_new key K xs) = (if y \<in> K then None else find (\<lambda>x. key x = y) xs)"
  by (induction xs arbitrary: K) auto

lemma find_app: "find P (xs @ ys) = (case find P xs of Some x \<Rightarrow> Some x | None \<Rightarrow> find P ys)"
  by (induction xs) auto

abbreviation flat :: "('a \<times> 'a) list \<Rightarrow> 'a list" where
  "flat ps \<equiv> concat (map (\<lambda>(k, v). [k, v]) ps)"

lemma merge_source_eq:
  "snd (merge_source h (seen, out) ps) =
     out @ flat (keep_new (\<lambda>(k, v). h_value (h ! k)) (set_elems seen) ps) \<and>
   set_elems (fst (merge_source h (seen, out) ps)) = set_elems seen \<union> (\<lambda>(k, v). h_value (h ! k)) ` set ps"
  by (induction ps arbitrary: seen out) (auto simp: insert_absorb)

lemma merge_sources_eq:
  "snd (foldl (\<lambda>st src. merge_source h st (pairs (h_content (h ! src)))) (seen, out) merged) =
     out @ flat (keep_new (\<lambda>(k, v). h_value (h ! k)) (set_elems seen)
       (concat (map (\<lambda>src. pairs (h_content (h ! src))) merged)))"
proof (induction merged arbitrary: seen out)
  case (Cons src merged)
  obtain seen' out' where st: "merge_source h (seen, out) (pairs (h_content (h ! src))) = (seen', out')"
    by fastforce
  then show ?case
    using merge_source_eq [of h seen out "pairs (h_content (h ! src))"] Cons.IH [of seen' out']
    by (simp add: keep_new_append)
qed simp

lemma merged_entries_eq:
  "merged_entries h local merged =
     flat (keep_new (\<lambda>(k, v). h_value (h ! k)) ((\<lambda>(k, v). h_value (h ! k)) ` set (pairs local))
       (concat (map (\<lambda>src. pairs (h_content (h ! src))) merged)))"
proof -
  have seen: "set_elems (foldl (\<lambda>s (k, v). set_insert s [h_value (h ! k)]) s ps) =
      set_elems s \<union> (\<lambda>(k, v). h_value (h ! k)) ` set ps" for s ps
    by (induction ps arbitrary: s) auto
  show ?thesis
    unfolding merged_entries_def Let_def merge_sources_eq seen by simp
qed

text \<open>
  A merge key supplies what the mapping lacks. In the entries of the mapping followed by the
  merged ones, the first entry of every key is the one the mapping writes itself, else that of the
  first merged mapping to carry the key; the mapping's own entries come first and unchanged, and no
  key is merged in twice or over one of the mapping's.
\<close>

theorem merged_entries_precedence:
  assumes "even (length local)"
  shows "let key = (\<lambda>(k, v). h_value (h ! k));
             sources = concat (map (\<lambda>src. pairs (h_content (h ! src))) merged);
             result = pairs (local @ merged_entries h local merged)
         in take (length (pairs local)) result = pairs local \<and>
            find (\<lambda>e. key e = y) result = find (\<lambda>e. key e = y) (pairs local @ sources) \<and>
            distinct (map key (drop (length (pairs local)) result)) \<and>
            key ` set (drop (length (pairs local)) result) = key ` set sources - key ` set (pairs local)"
proof -
  define key :: "nat \<times> nat \<Rightarrow> string" where "key = (\<lambda>(k, v). h_value (h ! k))"
  define sources where "sources = concat (map (\<lambda>src. pairs (h_content (h ! src))) merged)"
  define new where "new = keep_new key (key ` set (pairs local)) sources"
  have res: "pairs (local @ merged_entries h local merged) = pairs local @ new"
    using assms by (simp add: merged_entries_eq pairs_append pairs_flat new_def key_def sources_def)
  have "find (\<lambda>e. key e = y) (pairs local @ new) = find (\<lambda>e. key e = y) (pairs local @ sources)"
  proof (cases "y \<in> key ` set (pairs local)")
    case True
    then obtain e where "e \<in> set (pairs local)" "key e = y" by auto
    then obtain x where "find (\<lambda>e. key e = y) (pairs local) = Some x"
      using find_exists [of e "pairs local" "\<lambda>e. key e = y"] by auto
    then show ?thesis by (simp add: find_app)
  next
    case False
    then have "find (\<lambda>e. key e = y) (pairs local) = None" by (auto simp: find_None_iff)
    then show ?thesis using False keep_new_find [of key y] by (simp add: find_app new_def)
  qed
  then show ?thesis
    using keep_new_distinct [of key "key ` set (pairs local)" sources]
      keep_new_keys [of key "key ` set (pairs local)" sources]
    unfolding Let_def key_def [symmetric] sources_def [symmetric] res by (simp add: new_def)
qed

lemma merged_entries_precedence_witness:
  "pairs ([3, 4] @ merged_entries alias_doc [3, 4] [2, 0]) = [(3, 4), (1, 2), (5, 6)]"
proof -
  have "merged_entries alias_doc [3, 4] [2, 0] = [1, 2, 5, 6]" by code_simp
  then show ?thesis using merged_entries_precedence [of "[3, 4]" alias_doc "[2, 0]" "''a''"] by simp
qed

subsection \<open>The written-out tree, resolved\<close>

definition with_content :: "ynode \<Rightarrow> ynode list \<Rightarrow> ynode" where
  "with_content n xs = YNode (n_id n) (n_kind n) (n_tag n) (n_value n) xs None (n_line n) (n_column n)"

definition is_merge :: "ynode \<times> ynode \<Rightarrow> bool" where
  "is_merge = (\<lambda>(k, v). n_tag k = merge_tag)"

definition merge_sources :: "ynode \<Rightarrow> ynode list" where
  "merge_sources v = (if n_kind v = MappingNode then [v] else n_content v)"

function resolve_tree :: "ynode \<Rightarrow> ynode" where
  "resolve_tree n =
     (case n_kind n of
        AliasNode \<Rightarrow> (case n_alias n of Some m \<Rightarrow> resolve_tree m | None \<Rightarrow> n)
      | MappingNode \<Rightarrow>
          (let es = pairs (n_content n);
               local = map (\<lambda>(k, v). (resolve_tree k, resolve_tree v)) (filter (\<lambda>e. \<not> is_merge e) es);
               sources = concat (map (\<lambda>(k, v). merge_sources (resolve_tree v)) (filter is_merge es));
               key = (\<lambda>(k, v). n_value k)
           in with_content n (flat local @
                flat (keep_new key (key ` set local) (concat (map (\<lambda>src. pairs (n_content src)) sources)))))
      | _ \<Rightarrow> with_content n (map resolve_tree (n_content n)))"
  by pat_completeness auto
termination
  by (relation "measure size") (auto dest: pairs_size size_content size_alias)

declare resolve_tree.simps [simp del]

fun height :: "ynode \<Rightarrow> nat" where
  "height (YNode i k t v xs al l c) =
     Suc (max (foldr (\<lambda>x m. max (height x) m) xs 0) (case al of None \<Rightarrow> 0 | Some m \<Rightarrow> height m))"

lemma height_content: "x \<in> set xs \<Longrightarrow> height x < height (YNode i k t v xs al l c)"
proof -
  have "x \<in> set ys \<Longrightarrow> height x \<le> foldr (\<lambda>x m. max (height x) m) ys 0" for ys
    by (induction ys) auto
  then show "x \<in> set xs \<Longrightarrow> height x < height (YNode i k t v xs al l c)"
    by (simp add: less_Suc_eq_le le_max_iff_disj)
qed

lemma height_alias: "height x < height (YNode i k t v xs (Some x) l c)"
  by simp

lemma unfolds_height: "unfolds h x t \<Longrightarrow> edge h x y \<Longrightarrow> \<exists>u. unfolds h y u \<and> height u < height t"
proof (induction x t rule: unfolds.induct)
  case (unfolds_node a ts)
  then obtain i where i: "i < length ts" "h_content (h ! a) ! i = y"
    using list_all2_lengthD [OF unfolds_node.IH] by (auto simp: edge_def in_set_conv_nth)
  then have "unfolds h y (ts ! i)"
    using list_all2_nthD2 [OF unfolds_node.IH i(1)] by simp
  then show ?case using height_content [OF nth_mem [OF i(1)]] by blast
next
  case (unfolds_alias a b t)
  then show ?case using height_alias by (auto simp: edge_def)
qed

subsection \<open>The pass over the graph\<close>

definition tree :: "heap \<Rightarrow> nat \<Rightarrow> ynode" where
  "tree h x = (THE t. unfolds h x t)"

lemma tree_eq: "unfolds h x t \<Longrightarrow> tree h x = t"
  unfolding tree_def using unfolds_det by blast

lemma unfolds_fields:
  assumes "unfolds h a t"
  shows "n_id t = a" "n_kind t = h_kind (h ! a)" "n_tag t = h_tag (h ! a)" "n_value t = h_value (h ! a)"
    "n_line t = h_line (h ! a)" "n_column t = h_column (h ! a)"
    "list_all2 (unfolds h) (h_content (h ! a)) (n_content t)"
    "rel_option (unfolds h) (h_alias (h ! a)) (n_alias t)" "a < length h"
  using assms by (cases, simp, simp)+

definition same_fields :: "hnode \<Rightarrow> hnode \<Rightarrow> bool" where
  "same_fields n m \<longleftrightarrow> h_kind n = h_kind m \<and> h_tag n = h_tag m \<and> h_value n = h_value m \<and>
     h_alias n = h_alias m \<and> h_line n = h_line m \<and> h_column n = h_column m"

abbreviation walked :: "resolver \<Rightarrow> nat set" where
  "walked r \<equiv> set_elems (rs_walked r)"

abbreviation reach :: "heap \<Rightarrow> nat \<Rightarrow> nat \<Rightarrow> bool" where
  "reach h \<equiv> (edge h)\<^sup>*\<^sup>*"

text \<open>
  \<open>D\<close> are the nodes the pass is done with: they reach only nodes that are done, and stand for the
  resolved tree of what they stood for. A node not walked is as it was.
\<close>

definition pass_inv :: "heap \<Rightarrow> nat set \<Rightarrow> resolver \<Rightarrow> bool" where
  "pass_inv h D r \<longleftrightarrow>
     length (rs_heap r) = length h \<and>
     (\<forall>x < length h. same_fields (rs_heap r ! x) (h ! x)) \<and>
     (\<forall>x \<in> D. x < length h \<and> x \<in> walked r \<and> h_alias (h ! x) = None \<and> set (h_content (rs_heap r ! x)) \<subseteq> D \<and>
        unfolds (rs_heap r) x (resolve_tree (tree h x))) \<and>
     (\<forall>x < length h. x \<notin> walked r \<longrightarrow> rs_heap r ! x = h ! x)"

text \<open>A part of the pass: it finishes nodes, and leaves alone every node entered before but those of \<open>E\<close>.\<close>

definition pass_step :: "nat set \<Rightarrow> nat set \<Rightarrow> resolver \<Rightarrow> nat set \<Rightarrow> resolver \<Rightarrow> bool" where
  "pass_step E D r D' r' \<longleftrightarrow>
     D \<subseteq> D' \<and> walked r' - D' = walked r - D \<and> (\<forall>x \<in> walked r - E. rs_heap r' ! x = rs_heap r ! x)"

definition clear_below :: "heap \<Rightarrow> nat set \<Rightarrow> resolver \<Rightarrow> nat \<Rightarrow> bool" where
  "clear_below h D r x \<longleftrightarrow> (\<forall>y. reach h x y \<longrightarrow> y \<in> walked r \<longrightarrow> y \<in> D)"

lemma pass_step_refl: "pass_step E D r D r"
  by (simp add: pass_step_def)

lemma pass_step_walked: "pass_step E D r D' r' \<Longrightarrow> D' \<subseteq> walked r' \<Longrightarrow> walked r \<subseteq> walked r'"
  unfolding pass_step_def by blast

lemma pass_step_trans:
  "pass_step E D r D' r' \<Longrightarrow> pass_step E D' r' D'' r'' \<Longrightarrow> walked r \<subseteq> walked r' \<Longrightarrow> pass_step E D r D'' r''"
  unfolding pass_step_def by (simp add: subset_iff)

lemma clear_below_step: "pass_step E D r D' r' \<Longrightarrow> clear_below h D r x \<Longrightarrow> clear_below h D' r' x"
  unfolding pass_step_def clear_below_def by blast

lemma clear_below_edge: "clear_below h D r x \<Longrightarrow> edge h x y \<Longrightarrow> clear_below h D r y"
  unfolding clear_below_def by (meson converse_rtranclp_into_rtranclp)

lemma unfolds_frame:
  assumes "unfolds h x t" "x \<in> D" "length h' = length h" "\<forall>y \<in> D. h' ! y = h ! y"
    and "\<forall>y \<in> D. set (h_content (h ! y)) \<subseteq> D \<and> h_alias (h ! y) = None"
  shows "unfolds h' x t"
  using assms(1,2)
proof (induction x t rule: unfolds.induct)
  case (unfolds_node a ts)
  have eq: "h' ! a = h ! a" using assms(4) unfolds_node.prems by blast
  have "list_all2 (unfolds h') (h_content (h ! a)) ts"
    using unfolds_node.prems assms(5) by (intro list.rel_mono_strong [OF unfolds_node.IH]) auto
  then show ?case
    using unfolds.unfolds_node [of a h' ts] unfolds_node eq assms(3) by simp
next
  case (unfolds_alias a b t)
  then show ?case using assms(5) by auto
qed

text \<open>What one recursive call achieves, and that the fuel \<open>f\<close> is enough for it.\<close>

definition value_ok :: "heap \<Rightarrow> nat \<Rightarrow> nat \<Rightarrow> bool" where
  "value_ok h f x \<longleftrightarrow>
     (\<forall>r D. pass_inv h D r \<longrightarrow> clear_below h D r x \<longrightarrow>
        (\<exists>r' x' D'. resolve_value f r x = Some (r', x') \<and> pass_inv h D' r' \<and> pass_step {} D r D' r' \<and>
           x' \<in> D' \<and> unfolds (rs_heap r') x' (resolve_tree (tree h x))))"

lemma pass_inv_walked: "pass_inv h D r \<Longrightarrow> D \<subseteq> walked r"
  by (auto simp: pass_inv_def)

lemma pass_step_unfolds:
  assumes "pass_inv h D r" "pass_step E D r D' r'" "pass_inv h D' r'" "E \<inter> D = {}"
    and "x \<in> D" "unfolds (rs_heap r) x t"
  shows "unfolds (rs_heap r') x t"
proof (rule unfolds_frame [OF assms(6,5)])
  show "length (rs_heap r') = length (rs_heap r)" using assms(1,3) by (simp add: pass_inv_def)
  show "\<forall>y \<in> D. rs_heap r' ! y = rs_heap r ! y"
    using assms(2,4) pass_inv_walked [OF assms(1)] unfolding pass_step_def by blast
  show "\<forall>y \<in> D. set (h_content (rs_heap r ! y)) \<subseteq> D \<and> h_alias (rs_heap r ! y) = None"
  proof
    fix y assume "y \<in> D"
    then have "y < length h" "h_alias (h ! y) = None" "set (h_content (rs_heap r ! y)) \<subseteq> D"
      using assms(1) unfolding pass_inv_def by blast+
    moreover have "h_alias (rs_heap r ! y) = h_alias (h ! y)"
      using assms(1) \<open>y < length h\<close> unfolding pass_inv_def same_fields_def by blast
    ultimately show "set (h_content (rs_heap r ! y)) \<subseteq> D \<and> h_alias (rs_heap r ! y) = None" by simp
  qed
qed

lemma set_content_heap:
  "a < length (rs_heap r) \<Longrightarrow> h_content (rs_heap (set_content a xs r) ! a) = xs"
  "x \<noteq> a \<Longrightarrow> rs_heap (set_content a xs r) ! x = rs_heap r ! x"
  "rs_walked (set_content a xs r) = rs_walked r"
  "length (rs_heap (set_content a xs r)) = length (rs_heap r)"
  by (simp_all add: set_content_def)

text \<open>The node in progress is not done, so writing its content disturbs nothing.\<close>

lemma set_content_inv:
  assumes "pass_inv h D r" "a \<in> walked r" "a \<notin> D" "a < length h"
  shows "pass_inv h D (set_content a xs r)"
proof -
  have "unfolds (rs_heap (set_content a xs r)) x t" if "x \<in> D" "unfolds (rs_heap r) x t" for x t
  proof (rule unfolds_frame [OF that(2,1)])
    show "\<forall>y \<in> D. rs_heap (set_content a xs r) ! y = rs_heap r ! y"
      using assms(3) set_content_heap(2) by metis
    show "\<forall>y \<in> D. set (h_content (rs_heap r ! y)) \<subseteq> D \<and> h_alias (rs_heap r ! y) = None"
      using assms(1) unfolding pass_inv_def same_fields_def by metis
  qed (simp add: set_content_heap)
  moreover have "same_fields (rs_heap (set_content a xs r) ! x) (h ! x)" if "x < length h" for x
    using that assms by (cases "x = a") (auto simp: set_content_def pass_inv_def same_fields_def)
  ultimately show ?thesis
    using assms unfolding pass_inv_def set_content_heap(3,4)
    by (metis set_content_heap(2))
qed

lemma set_content_step: "a \<in> walked r \<Longrightarrow> pass_step {a} D r D (set_content a xs r)"
  by (auto simp: pass_step_def set_content_heap)

lemma pass_step_weaken: "pass_step {} D r D' r' \<Longrightarrow> pass_step E D r D' r'"
  by (auto simp: pass_step_def)

lemma pass_step_progress:
  "pass_step E D r D' r' \<Longrightarrow> a \<in> walked r \<Longrightarrow> a \<notin> D \<Longrightarrow> a \<in> walked r' \<and> a \<notin> D'"
  unfolding pass_step_def by blast

lemma resolve_items_ok:
  assumes "\<forall>c \<in> set cs. value_ok h f c" "pass_inv h D r" "a \<in> walked r" "a \<notin> D" "a < length h"
    and "h_content (rs_heap r ! a) = pre @ cs" "\<forall>c \<in> set cs. clear_below h D r c"
  shows "\<exists>r' D' cs'. resolve_items (resolve_value f) a (length pre) cs r = Some r' \<and> pass_inv h D' r' \<and>
    pass_step {a} D r D' r' \<and> h_content (rs_heap r' ! a) = pre @ cs' \<and> set cs' \<subseteq> D' \<and>
    list_all2 (unfolds (rs_heap r')) cs' (map (\<lambda>c. resolve_tree (tree h c)) cs)"
  using assms
proof (induction cs arbitrary: D r pre)
  case Nil
  then show ?case using pass_step_refl by fastforce
next
  case (Cons c cs)
  have "value_ok h f c" "clear_below h D r c" using Cons.prems by simp_all
  then obtain r1 c' D1 where v: "resolve_value f r c = Some (r1, c')" "pass_inv h D1 r1" "pass_step {} D r D1 r1"
    "c' \<in> D1" "unfolds (rs_heap r1) c' (resolve_tree (tree h c))"
    using Cons.prems(2) unfolding value_ok_def by blast
  define r2 where "r2 = set_content a ((pre @ c # cs)[length pre := c']) r1"
  have a1: "a \<in> walked r1" "a \<notin> D1" using pass_step_progress [OF v(3) Cons.prems(3,4)] by simp_all
  have "rs_heap r1 ! a = rs_heap r ! a" using v(3) Cons.prems(3) by (simp add: pass_step_def)
  then have content: "h_content (rs_heap r1 ! a) = pre @ c # cs" using Cons.prems(6) by simp
  have len: "length (rs_heap r1) = length h" using v(2) by (simp add: pass_inv_def)
  have i2: "pass_inv h D1 r2" unfolding r2_def by (rule set_content_inv [OF v(2) a1 Cons.prems(5)])
  have s12: "pass_step {a} D1 r1 D1 r2" unfolding r2_def by (rule set_content_step [OF a1(1)])
  have w2: "walked r1 \<subseteq> walked r2" by (simp add: r2_def set_content_heap)
  have w1: "walked r \<subseteq> walked r1" using pass_step_walked [OF v(3)] pass_inv_walked [OF v(2)] by blast
  have s2: "pass_step {a} D r D1 r2"
    using pass_step_trans [OF pass_step_weaken [OF v(3)] s12 w1] .
  have "\<forall>x \<in> set cs. clear_below h D1 r2 x"
    using clear_below_step [OF s2] Cons.prems(7) by simp
  moreover have "a \<in> walked r2" using a1(1) w2 by blast
  moreover have "h_content (rs_heap r2 ! a) = (pre @ [c']) @ cs"
    using Cons.prems(5) len by (simp add: r2_def set_content_heap)
  ultimately obtain r' D' cs' where r': "resolve_items (resolve_value f) a (length (pre @ [c'])) cs r2 = Some r'"
    "pass_inv h D' r'" "pass_step {a} D1 r2 D' r'" "h_content (rs_heap r' ! a) = (pre @ [c']) @ cs'" "set cs' \<subseteq> D'"
    "list_all2 (unfolds (rs_heap r')) cs' (map (\<lambda>c. resolve_tree (tree h c)) cs)"
    using Cons.IH [OF _ i2 _ a1(2) Cons.prems(5)] Cons.prems(1) by (metis list.set_intros(2))
  have "unfolds (rs_heap r2) c' (resolve_tree (tree h c))"
    using pass_step_unfolds [OF v(2) s12 i2 _ v(4,5)] a1(2) by simp
  then have "unfolds (rs_heap r') c' (resolve_tree (tree h c))"
    using pass_step_unfolds [OF i2 r'(3,2) _ v(4)] a1(2) by simp
  moreover have "c' \<in> D'" using v(4) r'(3) by (auto simp: pass_step_def)
  moreover have "pass_step {a} D r D' r'"
    using pass_step_trans [OF s2 r'(3)] w1 w2 by blast
  moreover have "resolve_items (resolve_value f) a (length pre) (c # cs) r = Some r'"
    using v(1) content r'(1) by (simp add: r2_def)
  ultimately show ?case
    using r'(2,4,5,6) by (intro exI [of _ r'] exI [of _ D'] exI [of _ "c' # cs'"]) simp
qed

lemma unfolds_trees: "list_all2 (unfolds h) xs ts \<longleftrightarrow> (\<forall>x \<in> set xs. \<exists>t. unfolds h x t) \<and> ts = map (tree h) xs"
proof (induction xs arbitrary: ts)
  case (Cons x xs)
  then show ?case by (auto simp: list_all2_Cons1 tree_eq intro: exI)
qed simp

lemma done_unfolds: "pass_inv h D r \<Longrightarrow> x \<in> D \<Longrightarrow> unfolds (rs_heap r) x (resolve_tree (tree h x))"
  unfolding pass_inv_def by blast

lemma done_list:
  "pass_inv h D r \<Longrightarrow> set xs \<subseteq> D \<Longrightarrow> list_all2 (unfolds (rs_heap r)) xs (map (tree (rs_heap r)) xs)"
  using done_unfolds unfolding unfolds_trees by blast

abbreviation trees :: "heap \<Rightarrow> (nat \<times> nat) list \<Rightarrow> (ynode \<times> ynode) list" where
  "trees h ps \<equiv> map (\<lambda>(k, v). (tree h k, tree h v)) ps"

lemma resolve_entries_ok:
  assumes "\<forall>(k, v) \<in> set ps. value_ok h f k \<and> value_ok h f v \<and> clear_below h D r k \<and> clear_below h D r v \<and>
      k < length h \<and> n_tag (tree h k) = h_tag (h ! k)"
    and "pass_inv h D r"
  shows "\<exists>r' D' loc mer. resolve_entries (resolve_value f) ps local merged r = Some (r', local @ loc, merged @ mer) \<and>
    pass_inv h D' r' \<and> pass_step {} D r D' r' \<and> set loc \<subseteq> D' \<and> set mer \<subseteq> D' \<and> even (length loc) \<and>
    list_all2 (unfolds (rs_heap r')) loc
      (flat (map (\<lambda>(k, v). (resolve_tree k, resolve_tree v)) (filter (\<lambda>e. \<not> is_merge e) (trees h ps)))) \<and>
    list_all2 (unfolds (rs_heap r')) mer
      (concat (map (\<lambda>(k, v). merge_sources (resolve_tree v)) (filter is_merge (trees h ps))))"
  using assms
proof (induction ps arbitrary: D r local merged)
  case Nil
  then show ?case using pass_step_refl by fastforce
next
  case (Cons p ps)
  obtain k v where p: "p = (k, v)" by (cases p)
  have kv: "value_ok h f k" "value_ok h f v" "clear_below h D r k" "clear_below h D r v" "k < length h"
    "n_tag (tree h k) = h_tag (h ! k)" using Cons.prems(1) p by auto
  have tag: "h_tag (rs_heap r ! k) = n_tag (tree h k)"
    using Cons.prems(2) kv(5,6) by (simp add: pass_inv_def same_fields_def)
  show ?case
  proof (cases "n_tag (tree h k) = merge_tag")
    case True
    obtain r1 v' D1 where v: "resolve_value f r v = Some (r1, v')" "pass_inv h D1 r1" "pass_step {} D r D1 r1"
      "v' \<in> D1" "unfolds (rs_heap r1) v' (resolve_tree (tree h v))"
      using kv(2,4) Cons.prems(2) unfolding value_ok_def by blast
    define new where "new = (if h_kind (rs_heap r1 ! v') = MappingNode then [v'] else h_content (rs_heap r1 ! v'))"
    have new: "set new \<subseteq> D1" using v(2,4) by (auto simp: new_def pass_inv_def)
    have new_trees: "list_all2 (unfolds (rs_heap r1)) new (merge_sources (resolve_tree (tree h v)))"
      using v(5) unfolds_fields(2,7) [OF v(5)] by (simp add: new_def merge_sources_def)
    have "\<forall>(k, v) \<in> set ps. value_ok h f k \<and> value_ok h f v \<and> clear_below h D1 r1 k \<and> clear_below h D1 r1 v \<and>
      k < length h \<and> n_tag (tree h k) = h_tag (h ! k)"
      using Cons.prems(1) clear_below_step [OF v(3)] by auto
    from Cons.IH [OF this v(2), of local "merged @ new"] obtain r' D' loc mer where
      ih: "resolve_entries (resolve_value f) ps local (merged @ new) r1 = Some (r', local @ loc, (merged @ new) @ mer)"
      "pass_inv h D' r'" "pass_step {} D1 r1 D' r'" "set loc \<subseteq> D'" "set mer \<subseteq> D'" "even (length loc)"
      "list_all2 (unfolds (rs_heap r')) loc
        (flat (map (\<lambda>(k, v). (resolve_tree k, resolve_tree v)) (filter (\<lambda>e. \<not> is_merge e) (trees h ps))))"
      "list_all2 (unfolds (rs_heap r')) mer
        (concat (map (\<lambda>(k, v). merge_sources (resolve_tree v)) (filter is_merge (trees h ps))))"
      by blast
    have "list_all2 (unfolds (rs_heap r')) new (merge_sources (resolve_tree (tree h v)))"
      using new new_trees pass_step_unfolds [OF v(2) ih(3,2)]
      by (intro list.rel_mono_strong [OF new_trees]) auto
    moreover have "pass_step {} D r D' r'"
      using pass_step_trans [OF v(3) ih(3)] pass_step_walked [OF v(3)] pass_inv_walked [OF v(2)] by blast
    moreover have "set new \<subseteq> D'" using new ih(3) by (auto simp: pass_step_def)
    ultimately show ?thesis
      using ih v(1) True tag p
      by (intro exI [of _ r'] exI [of _ D'] exI [of _ loc] exI [of _ "new @ mer"])
        (simp add: new_def [symmetric] is_merge_def list_all2_appendI)
  next
    case False
    obtain r1 k' D1 where k: "resolve_value f r k = Some (r1, k')" "pass_inv h D1 r1" "pass_step {} D r D1 r1"
      "k' \<in> D1" "unfolds (rs_heap r1) k' (resolve_tree (tree h k))"
      using kv(1,3) Cons.prems(2) unfolding value_ok_def by blast
    obtain r2 v' D2 where v: "resolve_value f r1 v = Some (r2, v')" "pass_inv h D2 r2" "pass_step {} D1 r1 D2 r2"
      "v' \<in> D2" "unfolds (rs_heap r2) v' (resolve_tree (tree h v))"
      using kv(2) k(2) clear_below_step [OF k(3) kv(4)] unfolding value_ok_def by blast
    have s2: "pass_step {} D r D2 r2"
      using pass_step_trans [OF k(3) v(3)] pass_step_walked [OF k(3)] pass_inv_walked [OF k(2)] by blast
    have "\<forall>(k, v) \<in> set ps. value_ok h f k \<and> value_ok h f v \<and> clear_below h D2 r2 k \<and> clear_below h D2 r2 v \<and>
      k < length h \<and> n_tag (tree h k) = h_tag (h ! k)"
      using Cons.prems(1) clear_below_step [OF s2] by auto
    from Cons.IH [OF this v(2), of "local @ [k', v']" merged] obtain r' D' loc mer where
      ih: "resolve_entries (resolve_value f) ps (local @ [k', v']) merged r2 = Some (r', (local @ [k', v']) @ loc, merged @ mer)"
      "pass_inv h D' r'" "pass_step {} D2 r2 D' r'" "set loc \<subseteq> D'" "set mer \<subseteq> D'" "even (length loc)"
      "list_all2 (unfolds (rs_heap r')) loc
        (flat (map (\<lambda>(k, v). (resolve_tree k, resolve_tree v)) (filter (\<lambda>e. \<not> is_merge e) (trees h ps))))"
      "list_all2 (unfolds (rs_heap r')) mer
        (concat (map (\<lambda>(k, v). merge_sources (resolve_tree v)) (filter is_merge (trees h ps))))"
      by blast
    have "k' \<in> D2" using k(4) v(3) by (auto simp: pass_step_def)
    have "unfolds (rs_heap r2) k' (resolve_tree (tree h k))"
      using pass_step_unfolds [OF k(2) v(3,2) _ k(4,5)] by simp
    then have "unfolds (rs_heap r') k' (resolve_tree (tree h k))" "unfolds (rs_heap r') v' (resolve_tree (tree h v))"
      using pass_step_unfolds [OF v(2) ih(3,2)] \<open>k' \<in> D2\<close> v(4,5) by simp_all
    moreover have "k' \<in> D'" "v' \<in> D'" using \<open>k' \<in> D2\<close> v(4) ih(3) by (auto simp: pass_step_def)
    moreover have "pass_step {} D r D' r'"
      using pass_step_trans [OF s2 ih(3)] pass_step_walked [OF s2] pass_inv_walked [OF v(2)] by blast
    ultimately show ?thesis
      using ih k(1) v(1) False tag p
      by (intro exI [of _ r'] exI [of _ D'] exI [of _ "[k', v'] @ loc"] exI [of _ mer]) (simp add: is_merge_def)
  qed
qed

text \<open>Leaving a node: its children are done, and it gets its new content.\<close>

lemma pass_finish:
  assumes inv: "pass_inv h D r" and x: "x \<notin> walked r" "x < length h" "h_alias (h ! x) = None"
    and r1: "rs_heap r1 = rs_heap r" "walked r1 = insert x (walked r)"
    and inv2: "pass_inv h D2 r2" and step: "pass_step {x} D r1 D2 r2"
    and xs: "set xs \<subseteq> D2" "list_all2 (unfolds (rs_heap r2)) xs ts"
    and tree: "resolve_tree (tree h x) = YNode x (h_kind (h ! x)) (h_tag (h ! x)) (h_value (h ! x)) ts None
      (h_line (h ! x)) (h_column (h ! x))"
  defines "r3 \<equiv> set_content x xs r2"
  shows "pass_inv h (insert x D2) r3 \<and> pass_step {} D r (insert x D2) r3 \<and>
    unfolds (rs_heap r3) x (resolve_tree (tree h x))"
proof -
  have "x \<notin> D" using x(1) pass_inv_walked [OF inv] by blast
  then have x2: "x \<in> walked r2" "x \<notin> D2" using pass_step_progress [OF step] r1(2) by simp_all
  have inv3: "pass_inv h D2 r3" unfolding r3_def by (rule set_content_inv [OF inv2 x2 x(2)])
  have s23: "pass_step {x} D2 r2 D2 r3" unfolding r3_def by (rule set_content_step [OF x2(1)])
  have len: "length (rs_heap r2) = length h" "length (rs_heap r3) = length h"
    using inv2 inv3 by (simp_all add: pass_inv_def)
  have content: "h_content (rs_heap r3 ! x) = xs"
    using x(2) len(1) by (simp add: r3_def set_content_heap)
  have fields: "same_fields (rs_heap r3 ! x) (h ! x)" using inv3 x(2) by (simp add: pass_inv_def)
  have "list_all2 (unfolds (rs_heap r3)) xs ts"
    using pass_step_unfolds [OF inv2 s23 inv3] x2(2) xs(1) by (intro list.rel_mono_strong [OF xs(2)]) auto
  then have unf: "unfolds (rs_heap r3) x (resolve_tree (tree h x))"
    using unfolds_node [of x "rs_heap r3" ts] x(2,3) len(2) content fields tree
    by (simp add: same_fields_def)
  have "pass_inv h (insert x D2) r3"
    using inv3 unf xs(1) x x2 content unfolding pass_inv_def by (auto simp: r3_def set_content_heap)
  moreover have "pass_step {} D r (insert x D2) r3"
    using step x(1) x2 r1 \<open>x \<notin> D\<close> unfolding pass_step_def
    by (auto simp: r3_def set_content_heap) (metis Diff_iff insert_iff set_content_heap(2) singletonD)+
  ultimately show ?thesis using unf by blast
qed

lemma set_content_same: "h_content (rs_heap r ! x) = xs \<Longrightarrow> set_content x xs r = r"
proof -
  assume "h_content (rs_heap r ! x) = xs"
  then have "(rs_heap r ! x)\<lparr>h_content := xs\<rparr> = rs_heap r ! x" by (metis hnode.surjective hnode.update_convs(6))
  then show ?thesis by (simp add: set_content_def)
qed

lemma tree_unfold:
  assumes "document h" "\<exists>t. unfolds h x t"
  shows "unfolds h x (tree h x)"
    "h_kind (h ! x) = AliasNode \<Longrightarrow> h_alias (h ! x) = Some b \<Longrightarrow> n_alias (tree h x) = Some (tree h b)"
    "h_kind (h ! x) \<noteq> AliasNode \<Longrightarrow> n_content (tree h x) = map (tree h) (h_content (h ! x)) \<and> n_alias (tree h x) = None"
proof -
  show u: "unfolds h x (tree h x)" using assms(2) tree_eq by blast
  show "h_kind (h ! x) = AliasNode \<Longrightarrow> h_alias (h ! x) = Some b \<Longrightarrow> n_alias (tree h x) = Some (tree h b)"
    using unfolds_fields(8) [OF u] tree_eq by (auto simp: option_rel_Some1)
  show "h_kind (h ! x) \<noteq> AliasNode \<Longrightarrow> n_content (tree h x) = map (tree h) (h_content (h ! x)) \<and> n_alias (tree h x) = None"
    using unfolds_fields(7,8,9) [OF u] document_other [OF assms(1)] by (simp add: unfolds_trees)
qed

lemma resolve_tree_items:
  "n_kind n \<noteq> AliasNode \<Longrightarrow> n_kind n \<noteq> MappingNode \<Longrightarrow>
   resolve_tree n = with_content n (map resolve_tree (n_content n))"
  by (cases "n_kind n") (simp_all add: resolve_tree.simps)

text \<open>The new content of a mapping, over the graph and over the tree.\<close>

lemma resolve_tree_mapping:
  assumes inv: "pass_inv h D r" and kind: "n_kind n = MappingNode"
    and loc: "set loc \<subseteq> D" "even (length loc)" "list_all2 (unfolds (rs_heap r)) loc
      (flat (map (\<lambda>(k, v). (resolve_tree k, resolve_tree v)) (filter (\<lambda>e. \<not> is_merge e) (pairs (n_content n)))))"
    and mer: "set mer \<subseteq> D" "list_all2 (unfolds (rs_heap r)) mer
      (concat (map (\<lambda>(k, v). merge_sources (resolve_tree v)) (filter is_merge (pairs (n_content n)))))"
  defines "xs \<equiv> loc @ merged_entries (rs_heap r) loc mer"
  shows "resolve_tree n = with_content n (map (tree (rs_heap r)) xs) \<and> set xs \<subseteq> D"
proof -
  define U where "U = tree (rs_heap r)"
  define keyh where "keyh = (\<lambda>(k, v :: nat). h_value (rs_heap r ! k))"
  define key where "key = (\<lambda>(k, v :: ynode). n_value k)"
  define U2 where "U2 = (\<lambda>(k, v). (U k, U v))"
  have unf: "unfolds (rs_heap r) y (U y)" if "y \<in> D" for y
    using done_unfolds [OF inv that] tree_eq [OF done_unfolds [OF inv that]] by (simp add: U_def)
  define lt where "lt = map (\<lambda>(k, v). (resolve_tree k, resolve_tree v)) (filter (\<lambda>e. \<not> is_merge e) (pairs (n_content n)))"
  have lt: "flat lt = map U loc" using loc(3) by (simp add: unfolds_trees U_def lt_def)
  then have "pairs (map U loc) = lt" by (metis pairs_flat)
  then have lt2: "lt = map U2 (pairs loc)" by (simp add: pairs_map U2_def)
  define src where "src = concat (map (\<lambda>s. pairs (h_content (rs_heap r ! s))) mer)"
  have in_D: "k \<in> D \<and> v \<in> D" if mem: "(k, v) \<in> set src" for k v
  proof -
    obtain s where "s \<in> set mer" "(k, v) \<in> set (pairs (h_content (rs_heap r ! s)))"
      using mem by (auto simp: src_def)
    moreover from calculation have "set (h_content (rs_heap r ! s)) \<subseteq> D"
      using mer(1) inv unfolding pass_inv_def by blast
    ultimately show ?thesis using pairs_set by fastforce
  qed
  have loc_D: "k \<in> D \<and> v \<in> D" if "(k, v) \<in> set (pairs loc)" for k v
    using that loc(1) pairs_set by fastforce
  have key: "key (U2 e) = keyh e" if "e \<in> set src \<union> set (pairs loc)" for e
    using that in_D loc_D unfolds_fields(4) [OF unf] by (cases e) (auto simp: key_def keyh_def U2_def)
  have mer_src: "concat (map (\<lambda>s. pairs (n_content s)) (map U mer)) = map U2 src"
  proof -
    have "pairs (n_content (U s)) = map U2 (pairs (h_content (rs_heap r ! s)))" if "s \<in> set mer" for s
      using unfolds_fields(7) [OF unf] that mer(1) by (auto simp: unfolds_trees U_def U2_def pairs_map)
    then show ?thesis by (simp add: src_def map_concat comp_def cong: map_cong)
  qed
  have keys: "key ` set lt = keyh ` set (pairs loc)"
    using key by (simp add: lt2 image_image cong: image_cong_simp)
  have "keep_new key (key ` set lt) (map U2 src) = map U2 (keep_new keyh (keyh ` set (pairs loc)) src)"
    unfolding keep_new_map keys by (intro arg_cong [of _ _ "map U2"] keep_new_cong) (use key in simp)
  then have "flat (keep_new key (key ` set lt) (map U2 src)) = map U (merged_entries (rs_heap r) loc mer)"
    by (simp add: merged_entries_eq keyh_def src_def map_concat comp_def U2_def case_prod_beta)
  moreover have "resolve_tree n = with_content n (flat lt @ flat (keep_new key (key ` set lt)
      (concat (map (\<lambda>s. pairs (n_content s))
        (concat (map (\<lambda>(k, v). merge_sources (resolve_tree v)) (filter is_merge (pairs (n_content n)))))))))"
    by (subst resolve_tree.simps) (simp only: kind ykind.case Let_def lt_def key_def)
  moreover have "concat (map (\<lambda>(k, v). merge_sources (resolve_tree v)) (filter is_merge (pairs (n_content n)))) = map U mer"
    using mer(2) by (simp only: unfolds_trees U_def)
  ultimately have "resolve_tree n = with_content n (map U xs)"
    by (simp only: mer_src lt xs_def map_append)
  moreover have "set (merged_entries (rs_heap r) loc mer) \<subseteq> D"
  proof -
    have "set (keep_new keyh K src) \<subseteq> set src" for K by (rule keep_new_subset)
    then show ?thesis unfolding merged_entries_eq src_def [symmetric] keyh_def [symmetric] using in_D by fastforce
  qed
  ultimately show ?thesis using loc(1) by (simp add: U_def xs_def)
qed

lemma value_ok_all:
  assumes doc: "document h" and all: "\<And>x. x < length h \<Longrightarrow> \<exists>t. unfolds h x t"
  shows "x < length h \<Longrightarrow> height (tree h x) \<le> f \<Longrightarrow> value_ok h f x"
proof (induction f arbitrary: x)
  case 0
  then show ?case by (cases "tree h x") simp
next
  case (Suc f)
  note T = tree_unfold [OF doc all]
  have below: "y < length h \<and> value_ok h f y" if e: "edge h x y" for y
  proof -
    obtain u where "unfolds h y u" "height u < height (tree h x)"
      using unfolds_height [OF T(1) [OF Suc.prems(1)] e] by blast
    moreover from calculation have "tree h y = u" "y < length h" using tree_eq unfolds_fields(9) by blast+
    ultimately show ?thesis using Suc.IH [of y] Suc.prems(2) by simp
  qed
  show ?case
    unfolding value_ok_def
  proof (intro allI impI)
    fix r D assume inv: "pass_inv h D r" and clear: "clear_below h D r x"
    have fields: "same_fields (rs_heap r ! x) (h ! x)" using inv Suc.prems(1) by (simp add: pass_inv_def)
    show "\<exists>r' x' D'. resolve_value (Suc f) r x = Some (r', x') \<and> pass_inv h D' r' \<and> pass_step {} D r D' r' \<and>
        x' \<in> D' \<and> unfolds (rs_heap r') x' (resolve_tree (tree h x))"
    proof (cases "h_kind (h ! x) = AliasNode")
      case True
      then obtain b where b: "h_alias (h ! x) = Some b" using document_alias [OF doc Suc.prems(1)] by blast
      then have e: "edge h x b" by (simp add: edge_def)
      have "resolve_tree (tree h x) = resolve_tree (tree h b)"
        using True T(2) [OF Suc.prems(1) True b] unfolds_fields(2) [OF T(1) [OF Suc.prems(1)]]
        by (subst resolve_tree.simps) simp
      moreover have "resolve_value (Suc f) r x = resolve_value f r b"
        using True b fields by (simp add: same_fields_def)
      ultimately show ?thesis
        using below [OF e] inv clear_below_edge [OF clear e] unfolding value_ok_def by simp
    next
      case False
      note no_alias = document_other [OF doc Suc.prems(1) False]
      have kind: "h_kind (rs_heap r ! x) \<noteq> AliasNode" using False fields by (simp add: same_fields_def)
      show ?thesis
      proof (cases "x \<in> walked r")
        case True
        then have "x \<in> D" using clear by (auto simp: clear_below_def)
        then show ?thesis
          using kind True inv pass_step_refl done_unfolds [OF inv] by fastforce
      next
        case fresh: False
        define r1 where "r1 = r\<lparr>rs_walked := set_insert (rs_walked r) [x]\<rparr>"
        have same: "rs_heap r ! x = h ! x" using inv fresh Suc.prems(1) by (simp add: pass_inv_def)
        have r1: "rs_heap r1 = rs_heap r" "walked r1 = insert x (walked r)" by (simp_all add: r1_def)
        have inv1: "pass_inv h D r1" using inv unfolding pass_inv_def r1 by blast
        have x1: "x \<in> walked r1" "x \<notin> D" using fresh pass_inv_walked [OF inv] by (auto simp: r1)
        have acyclic: "\<not> (edge h)\<^sup>+\<^sup>+ x x" using unfolds_acyclic [OF T(1) [OF Suc.prems(1)]] .
        have clear1: "clear_below h D r1 c" if "edge h x c" for c
          using clear_below_edge [OF clear that] that acyclic
          unfolding clear_below_def r1 by (metis insertE rtranclp_into_tranclp2)
        have child: "edge h x c" if "c \<in> set (h_content (h ! x))" for c using that by (simp add: edge_def)
        have content: "n_content (tree h x) = map (tree h) (h_content (h ! x))"
          using T(3) [OF Suc.prems(1) False] by simp
        have kind_t: "n_kind (tree h x) = h_kind (h ! x)"
          using unfolds_fields(2) [OF T(1) [OF Suc.prems(1)]] .
        have frame: "with_content (tree h x) ts = YNode x (h_kind (h ! x)) (h_tag (h ! x)) (h_value (h ! x)) ts None
            (h_line (h ! x)) (h_column (h ! x))" for ts
          using unfolds_fields [OF T(1) [OF Suc.prems(1)]] by (simp add: with_content_def)
        note finish = pass_finish [OF inv fresh Suc.prems(1) no_alias r1]
        show ?thesis
        proof (cases "h_kind (h ! x) = MappingNode")
          case True
          have "\<forall>(k, v) \<in> set (pairs (h_content (h ! x))). value_ok h f k \<and> value_ok h f v \<and>
              clear_below h D r1 k \<and> clear_below h D r1 v \<and> k < length h \<and> n_tag (tree h k) = h_tag (h ! k)"
          proof (clarify)
            fix k v assume "(k, v) \<in> set (pairs (h_content (h ! x)))"
            then have "edge h x k" "edge h x v" using pairs_set child by fast+
            then show "value_ok h f k \<and> value_ok h f v \<and> clear_below h D r1 k \<and> clear_below h D r1 v \<and>
                k < length h \<and> n_tag (tree h k) = h_tag (h ! k)"
              using below clear1 unfolds_fields(3) [OF T(1)] by simp
          qed
          from resolve_entries_ok [OF this inv1, of "[]" "[]"] obtain r2 D2 loc mer where
            en: "resolve_entries (resolve_value f) (pairs (h_content (h ! x))) [] [] r1 = Some (r2, loc, mer)"
            "pass_inv h D2 r2" "pass_step {} D r1 D2 r2" "set loc \<subseteq> D2" "set mer \<subseteq> D2" "even (length loc)"
            "list_all2 (unfolds (rs_heap r2)) loc
              (flat (map (\<lambda>(k, v). (resolve_tree k, resolve_tree v)) (filter (\<lambda>e. \<not> is_merge e) (trees h (pairs (h_content (h ! x)))))))"
            "list_all2 (unfolds (rs_heap r2)) mer
              (concat (map (\<lambda>(k, v). merge_sources (resolve_tree v)) (filter is_merge (trees h (pairs (h_content (h ! x)))))))"
            by auto
          define xs where "xs = loc @ merged_entries (rs_heap r2) loc mer"
          have ps: "pairs (n_content (tree h x)) = trees h (pairs (h_content (h ! x)))"
            by (simp add: content pairs_map)
          have map: "resolve_tree (tree h x) = with_content (tree h x) (map (tree (rs_heap r2)) xs)" "set xs \<subseteq> D2"
            using resolve_tree_mapping [OF en(2), of "tree h x" loc mer] True kind_t en(4-8)
            by (simp_all add: ps xs_def)
          have "pass_inv h (insert x D2) (set_content x xs r2) \<and> pass_step {} D r (insert x D2) (set_content x xs r2) \<and>
              unfolds (rs_heap (set_content x xs r2)) x (resolve_tree (tree h x))"
            using finish [OF en(2) pass_step_weaken [OF en(3)] map(2) done_list [OF en(2) map(2)]] map(1) frame by simp
          moreover have "resolve_value (Suc f) r x = Some (set_content x xs r2, x)"
            using True same fresh en(1) by (simp add: Let_def r1_def xs_def)
          ultimately show ?thesis by blast
        next
          case noMap: False
          have "\<forall>c \<in> set (h_content (h ! x)). value_ok h f c \<and> clear_below h D r1 c"
            using below clear1 child by blast
          then obtain r' D' cs' where it: "resolve_items (resolve_value f) x 0 (h_content (h ! x)) r1 = Some r'"
            "pass_inv h D' r'" "pass_step {x} D r1 D' r'" "h_content (rs_heap r' ! x) = cs'" "set cs' \<subseteq> D'"
            "list_all2 (unfolds (rs_heap r')) cs' (map (\<lambda>c. resolve_tree (tree h c)) (h_content (h ! x)))"
            using resolve_items_ok [of "h_content (h ! x)" h f D r1 x "[]"] inv1 x1 Suc.prems(1) same by (auto simp: r1)
          have "resolve_tree (tree h x) = with_content (tree h x) (map (\<lambda>c. resolve_tree (tree h c)) (h_content (h ! x)))"
            using resolve_tree_items [of "tree h x"] noMap False kind_t content by (simp add: comp_def)
          then have "pass_inv h (insert x D') r' \<and> pass_step {} D r (insert x D') r' \<and> unfolds (rs_heap r') x (resolve_tree (tree h x))"
            using finish [OF it(2,3,5,6)] frame set_content_same [OF it(4)] by simp
          moreover have "resolve_value (Suc f) r x = Some (r', x)"
            using False noMap same fresh it(1) by (simp add: Let_def r1_def)
          ultimately show ?thesis by blast
        qed
      qed
    qed
  qed
qed

subsection \<open>The root is enough, and so is the number of nodes as fuel\<close>

lemma laid_unfolds:
  "laid h a b \<Longrightarrow> unfolds h a t \<Longrightarrow> a \<le> x \<Longrightarrow> x < b \<Longrightarrow> \<exists>u. unfolds h x u"
  "laid_list h cs a b \<Longrightarrow> list_all2 (unfolds h) cs ts \<Longrightarrow> a \<le> x \<Longrightarrow> x < b \<Longrightarrow> \<exists>u. unfolds h x u"
proof (induction arbitrary: t and ts rule: laid_laid_list.inducts)
  case (laid_node a b)
  show ?case
  proof (cases "x = a")
    case False
    then show ?thesis
      using laid_node(2) [OF unfolds_fields(7) [OF laid_node.prems(1)]] laid_node.prems by simp
  qed (use laid_node in blast)
next
  case (laid_cons a b cs e)
  obtain u us where "ts = u # us" "unfolds h a u" "list_all2 (unfolds h) cs us"
    using laid_cons.prems(1) by (auto simp: list_all2_Cons1)
  then show ?case using laid_cons by (cases "x < b") auto
qed simp

lemma reach_range: "reach h x y \<Longrightarrow> unfolds h x t \<Longrightarrow> \<exists>u. unfolds h y u \<and> height u \<le> height t"
proof (induction rule: rtranclp_induct)
  case (step y z)
  then obtain u where "unfolds h y u" "height u \<le> height t" by blast
  then show ?case using unfolds_height [OF _ step(2)] by (metis le_trans less_imp_le)
qed blast

lemma height_reach: "unfolds h x t \<Longrightarrow> height t \<le> card {y. reach h x y}"
proof (induction "height t" arbitrary: x t rule: less_induct)
  case less
  have fin: "finite {y. reach h z y}" if "unfolds h z u" for z u
    using reach_range [OF _ that] unfolds_fields(9) by (blast intro: finite_subset [of _ "{..<length h}"])
  have child: "height u < card {y. reach h x y}" if e: "edge h x c" and u: "unfolds h c u" for c u
  proof -
    have "height u < height t" using unfolds_height [OF less.prems e] unfolds_det [OF u] by blast
    then have "height u \<le> card {y. reach h c y}" using less.hyps u by blast
    moreover have "x \<notin> {y. reach h c y}"
      using unfolds_acyclic [OF less.prems] e by (auto intro: rtranclp_into_tranclp2)
    then have "{y. reach h c y} \<subset> {y. reach h x y}"
      using e by (auto intro: converse_rtranclp_into_rtranclp)
    then have "card {y. reach h c y} < card {y. reach h x y}"
      using fin [OF less.prems] by (rule psubset_card_mono [rotated])
    ultimately show ?thesis by simp
  qed
  have pos: "0 < card {y. reach h x y}" using fin [OF less.prems] by (auto simp: card_gt_0_iff)
  from less.prems show ?case
  proof cases
    case (unfolds_node ts)
    have "\<forall>u \<in> set ts. height u < card {y. reach h x y}"
    proof
      fix u assume "u \<in> set ts"
      then obtain i where i: "i < length ts" "u = ts ! i" by (auto simp: in_set_conv_nth)
      then show "height u < card {y. reach h x y}"
        using list_all2_nthD2 [OF unfolds_node(3) i(1)] list_all2_lengthD [OF unfolds_node(3)]
        by (intro child [of "h_content (h ! x) ! i"]) (auto simp: edge_def)
    qed
    then have "foldr (\<lambda>x m. max (height x) m) ts 0 < card {y. reach h x y}" using pos by (induction ts) auto
    then show ?thesis using unfolds_node(1) by simp
  next
    case (unfolds_alias b u)
    then show ?thesis using child [of b u] by (simp add: edge_def)
  qed
qed

lemma height_le_length: "unfolds h x t \<Longrightarrow> height t \<le> length h"
proof -
  assume u: "unfolds h x t"
  have "{y. reach h x y} \<subseteq> {..<length h}" using reach_range [OF _ u] unfolds_fields(9) by blast
  then have "card {y. reach h x y} \<le> length h" using card_mono [of "{..<length h}"] by fastforce
  then show ?thesis using height_reach [OF u] by simp
qed

lemma resolve_unfolds:
  assumes "document h" "unfolds h 0 t" "length h \<le> f"
  shows "\<exists>h' r. resolve_value f \<lparr>rs_heap = h, rs_walked = set_empty\<rparr> 0 = Some (r, n_id (resolve_tree t)) \<and>
    resolve f h 0 = Some h' \<and> unfolds h' (n_id (resolve_tree t)) (resolve_tree t)"
proof -
  have "laid h 0 (length h)" using assms(1) by (simp add: document_def)
  then have all: "\<exists>t. unfolds h x t" if "x < length h" for x
    using laid_unfolds(1) [of h 0 "length h" t x] assms(2) that by simp
  define r0 where "r0 = \<lparr>rs_heap = h, rs_walked = set_empty\<rparr>"
  have "tree h 0 = t" using tree_eq [OF assms(2)] .
  then have "value_ok h f 0"
    using value_ok_all [OF assms(1) all] unfolds_fields(9) [OF assms(2)] height_le_length [OF assms(2)] assms(3)
    by simp
  moreover have "pass_inv h {} r0" by (simp add: pass_inv_def r0_def same_fields_def)
  moreover have "clear_below h {} r0 0" by (simp add: clear_below_def r0_def)
  ultimately obtain r' x' where "resolve_value f r0 0 = Some (r', x')" "unfolds (rs_heap r') x' (resolve_tree t)"
    unfolding value_ok_def \<open>tree h 0 = t\<close> by blast
  then show ?thesis using unfolds_fields(1) by (fastforce simp: resolve_def r0_def)
qed

text \<open>
  C2: \<open>resolve\<close> turns the shared graph of an accepted document into the document the collector reads:
  from the root, it stands for the tree with every alias replaced by what it names and every merge
  key by the entries it supplies, although each shared node is rewritten in place and only once.
  The pass returns, with as much fuel as there are nodes.
\<close>

theorem resolve_correct:
  assumes "document h" "unfolds h 0 t" "length h \<le> f"
  shows "\<exists>h' r. resolve_value f \<lparr>rs_heap = h, rs_walked = set_empty\<rparr> 0 = Some (r, n_id (resolve_tree t)) \<and>
    resolve f h 0 = Some h' \<and> unfolds h' (n_id (resolve_tree t)) (resolve_tree t)"
  by (rule resolve_unfolds [OF assms])

text \<open>The document \<open>a: &x {k: 1}\<close>, \<open>b: {<<: *x}\<close>: the merge brings \<open>k\<close> into \<open>b\<close>.\<close>

definition merge_doc :: heap where
  "merge_doc =
     [hn MappingNode ''!!map'' [] [1, 2, 5, 6] None, hn ScalarNode str_tag ''a'' [] None,
      hn MappingNode ''!!map'' [] [3, 4] None, hn ScalarNode str_tag ''k'' [] None,
      hn ScalarNode int_tag ''1'' [] None, hn ScalarNode str_tag ''b'' [] None,
      hn MappingNode ''!!map'' [] [7, 8] None, hn ScalarNode merge_tag ''<<'' [] None,
      hn AliasNode [] ''x'' [] (Some 2)]"

lemma merge_doc_document: "document merge_doc"
  unfolding document_def merge_doc_def hn_def
  by (intro conjI) (simp add: laid_iff, simp add: All_less_Suc numeral_eq_Suc)

lemma merge_doc_unfolds: "\<exists>t. unfolds merge_doc 0 t"
proof -
  have "map_option fst (expanded_size (\<lambda>_. None) 10 [] merge_doc 0 (\<lambda>_. None)) = Some (Inr 12)"
    by code_simp
  then obtain s where "expanded_size (\<lambda>_. None) 10 [] merge_doc 0 (\<lambda>_. None) = Some (Inr 12, s)" by auto
  moreover have "laid merge_doc 0 (length merge_doc)" using merge_doc_document by (simp add: document_def)
  moreover have "memo_ok merge_doc 0 (\<lambda>_. None)" by (simp add: memo_ok_def)
  ultimately show ?thesis using expanded_size_accepts(1) [OF merge_doc_document] by blast
qed

lemma resolve_correct_witness:
  "map_option (\<lambda>h. h_content (h ! 6)) (resolve 9 merge_doc 0) = Some [3, 4] \<and>
   (\<exists>h t. resolve 9 merge_doc 0 = Some h \<and> unfolds h (n_id t) t)"
proof -
  have "length merge_doc \<le> 9" by (simp add: merge_doc_def)
  then have "\<exists>h t. resolve 9 merge_doc 0 = Some h \<and> unfolds h (n_id t) t"
    using merge_doc_unfolds resolve_correct [OF merge_doc_document] by blast
  moreover have "map_option (\<lambda>h. h_content (h ! 6)) (resolve 9 merge_doc 0) = Some [3, 4]" by code_simp
  ultimately show ?thesis by blast
qed

end
