(* ===== verification/Parse.thy ===== *)
theory Parse
  imports ResolveTree
begin

section \<open>Parse\<close>

text \<open>
  \<open>Parse\<close> of \<open>pkg/config/parse.go\<close> and \<open>headComments\<close> of \<open>pkg/config/comments.go\<close>. What yaml.v3 makes of
  the bytes is an argument: the outcome of decoding the first document and of asking for a second.
  The graph has the root mapping at address 0; the document node around it comes separately.
\<close>

subsection \<open>comments.go\<close>

definition line_breaks :: "string list" where
  "line_breaks =
     [[CHR 0x0D, CHR 0x0A], [CHR 0x0D], [CHR 0xC2, CHR 0x85], [CHR 0xE2, CHR 0x80, CHR 0xA8],
      [CHR 0xE2, CHR 0x80, CHR 0xA9]]"

function normal_breaks :: "string \<Rightarrow> string" where
  "normal_breaks [] = []"
| "normal_breaks (c # s) =
     (case find (\<lambda>b. prefix b (c # s)) line_breaks of
        Some b \<Rightarrow> CHR 0x0A # normal_breaks (drop (length b - 1) s)
      | None \<Rightarrow> c # normal_breaks s)"
  by pat_completeness auto
termination
  by (relation "measure length") auto

text \<open>
  The loop that walks the source lines upwards from a node, matching its comment lines from the
  last one: \<open>n\<close> lines remain above, \<open>comments\<close> are the comment lines still to match, last first.
\<close>

fun head_loop :: "string list \<Rightarrow> nat \<Rightarrow> string list \<Rightarrow> (int \<times> string) list" where
  "head_loop lines 0 comments = []"
| "head_loop lines (Suc n) [] = []"
| "head_loop lines (Suc n) (c # cs) =
     (let text = trim_space (lines ! n) in
      if text = [] then head_loop lines n (c # cs)
      else (case dropWhile (\<lambda>c. trim_space c = []) (c # cs) of
          [] \<Rightarrow> []
        | c' # cs' \<Rightarrow>
            if text \<noteq> trim_space c' then []
            else (int n + 1, text) # head_loop lines n cs'))"

definition node_head_comments :: "string list \<Rightarrow> hnode \<Rightarrow> (int \<times> string) list" where
  "node_head_comments lines n =
     (if h_head n = [] then []
      else head_loop lines (nat (h_line n - 1)) (rev (split_on (CHR 0x0A) (h_head n))))"

definition head_comments :: "hnode list \<Rightarrow> string \<Rightarrow> (int \<times> string) list" where
  "head_comments nodes source =
     concat (map (node_head_comments (split_on (CHR 0x0A) (normal_breaks source))) nodes)"

subsection \<open>parse.go: Parse\<close>

datatype first_document = FirstError string "string list" | NoDocument | FirstDocument hnode heap

datatype second_document = NoSecond | SecondError string "string list" | SecondDocument int int

definition msg_one_document :: string where
  "msg_one_document = ''config must contain no more than one document''"

definition msg_root :: string where
  "msg_root = ''config root must be a mapping''"

definition parse ::
  "(hnode \<Rightarrow> string option) \<Rightarrow> string \<Rightarrow> string \<Rightarrow> first_document \<Rightarrow> second_document \<Rightarrow> syntax_error + cfile" where
  "parse decode path source doc extra =
     (case doc of
        FirstError err errs \<Rightarrow> Inl (parser_error path err errs)
      | _ \<Rightarrow>
         (case extra of
            SecondDocument line column \<Rightarrow>
              Inl \<lparr>se_path = path, se_line = line, se_column = column, se_msg = msg_one_document, se_rest = []\<rparr>
          | SecondError err errs \<Rightarrow> Inl (parser_error path err errs)
          | NoSecond \<Rightarrow>
             (case doc of
                FirstDocument d h \<Rightarrow>
                  if h_kind (h ! 0) \<noteq> MappingNode then Inl (node_error path (h ! 0) msg_root)
                  else (case expanded_size decode (Suc (length h)) path h 0 (\<lambda>_. None) of
                      Some (Inr _, _) \<Rightarrow>
                        (let written = tree_of (length h) h 0;
                             h' = (case resolve (length h) h 0 of Some h' \<Rightarrow> h' | None \<Rightarrow> h);
                             root = tree_of (length h') h' 0
                         in Inr (read_top_level
                              ((empty_file path)\<lparr>f_root := Some root,
                                 f_head_comments := head_comments (d # h) source,
                                 f_duplicates := collect_duplicates written []\<rparr>) root))
                    | Some (Inl e, _) \<Rightarrow> Inl e
                    | None \<Rightarrow> Inl (node_error path (h ! 0) []))
              | _ \<Rightarrow> Inr (empty_file path))))"

lemma tree_of_unfolds: "unfolds h a t \<Longrightarrow> height t \<le> Suc f \<Longrightarrow> tree_of f h a = t"
proof (induction f arbitrary: a t)
  case 0
  from 0(1) show ?case
  proof cases
    case (unfolds_node ts)
    have pos: "0 < height u" for u by (cases u) simp
    have "ts = []"
    proof (rule ccontr)
      assume "ts \<noteq> []"
      then have "height (hd ts) < height t" unfolding unfolds_node(1) by (rule height_content [OF hd_in_set])
      then show False using 0(2) pos [of "hd ts"] by simp
    qed
    then show ?thesis using unfolds_node by (simp add: Let_def)
  next
    case (unfolds_alias b t')
    then show ?thesis using 0(2) by (cases t') simp
  qed
next
  case (Suc f)
  from Suc.prems(1) show ?case
  proof cases
    case (unfolds_node ts)
    have "map (tree_of f h) (h_content (h ! a)) = ts"
    proof (rule nth_equalityI)
      show l: "length (map (tree_of f h) (h_content (h ! a))) = length ts"
        using list_all2_lengthD [OF unfolds_node(3)] by simp
      fix i assume "i < length (map (tree_of f h) (h_content (h ! a)))"
      then have i: "i < length ts" using l by simp
      have "height (ts ! i) < height t"
        unfolding unfolds_node(1) by (rule height_content [OF nth_mem [OF i]])
      then have "height (ts ! i) \<le> Suc f" using Suc.prems(2) by simp
      then show "map (tree_of f h) (h_content (h ! a)) ! i = ts ! i"
        using Suc.IH list_all2_nthD2 [OF unfolds_node(3) i] l i by simp
    qed
    then show ?thesis using unfolds_node by (simp add: Let_def)
  next
    case (unfolds_alias b t')
    then have "tree_of f h b = t'" using Suc.IH [of b t'] Suc.prems(2) by simp
    then show ?thesis using unfolds_alias by (simp add: Let_def)
  qed
qed

text \<open>
  C3: on a document as yaml.v3 builds it, with a mapping at its root, \<open>Parse\<close> succeeds exactly when the
  preflight accepts; the file then holds the sections, the service and the unknown keys of the
  resolved tree, aliases and merges replaced, and the duplicate keys of the tree as written.
\<close>

theorem parse_correct:
  assumes "document h" "h_kind (h ! 0) = MappingNode"
  shows "((\<exists>f. parse decode path source (FirstDocument d h) NoSecond = Inr f) \<longleftrightarrow>
      (\<exists>t. unfolds h 0 t \<and> tree_count t \<le> 100000) \<and> (\<forall>a < length h. validate_node decode path h a = None)) \<and>
    (\<forall>f. parse decode path source (FirstDocument d h) NoSecond = Inr f \<longrightarrow>
      (\<exists>t. unfolds h 0 t \<and> f = read_top_level
        ((empty_file path)\<lparr>f_root := Some (resolve_tree t), f_head_comments := head_comments (d # h) source,
           f_duplicates := collect_duplicates t []\<rparr>) (resolve_tree t)))"
proof -
  obtain r s where es: "expanded_size decode (Suc (length h)) path h 0 (\<lambda>_. None) = Some (r, s)"
    and iff: "\<forall>k. r = Inr k \<longleftrightarrow> (\<exists>t. unfolds h 0 t \<and> k = tree_count t \<and> tree_count t \<le> 100000) \<and>
      (\<forall>a < length h. validate_node decode path h a = None)"
    using expanded_size_char [OF assms(1), of "Suc (length h)" decode path] by auto
  have ok: "(\<exists>f. parse decode path source (FirstDocument d h) NoSecond = Inr f) \<longleftrightarrow> (\<exists>k. r = Inr k)"
    using assms(2) es by (cases r) (simp_all add: parse_def Let_def)
  have read: "\<exists>t. unfolds h 0 t \<and> f = read_top_level
        ((empty_file path)\<lparr>f_root := Some (resolve_tree t), f_head_comments := head_comments (d # h) source,
           f_duplicates := collect_duplicates t []\<rparr>) (resolve_tree t)"
    if f: "parse decode path source (FirstDocument d h) NoSecond = Inr f" for f
  proof -
    obtain k where k: "r = Inr k" using ok f by blast
    then obtain t where t: "unfolds h 0 t" using iff by blast
    obtain h' where h': "resolve (length h) h 0 = Some h'" "unfolds h' (n_id (resolve_tree t)) (resolve_tree t)"
      using resolve_unfolds [OF assms(1) t order_refl] by blast
    have "n_id (resolve_tree t) = 0"
      using unfolds_fields(1,2) [OF t] assms(2) by (subst resolve_tree.simps) (simp add: Let_def with_content_def)
    then have "tree_of (length h') h' 0 = resolve_tree t"
      using h'(2) height_le_length [OF h'(2)] by (intro tree_of_unfolds) simp_all
    moreover have "tree_of (length h) h 0 = t"
      using t height_le_length [OF t] by (intro tree_of_unfolds) simp_all
    ultimately show ?thesis
      using f assms(2) es k h'(1) t by (auto simp: parse_def Let_def)
  qed
  show ?thesis using ok read iff by blast
qed

lemma parse_correct_witness:
  "\<exists>f t. parse (\<lambda>_. None) ''c.yaml'' [] (FirstDocument (hn DocumentNode [] [] [0] None) merge_doc) NoSecond = Inr f \<and>
     unfolds merge_doc 0 t \<and> f_duplicates f = [] \<and> map e_key (f_unknown f) = [''a'', ''b'']"
proof -
  define result where "result = parse (\<lambda>_. None) ''c.yaml'' [] (FirstDocument (hn DocumentNode [] [] [0] None) merge_doc) NoSecond"
  have "case result of Inr f \<Rightarrow> f_duplicates f = [] \<and> map e_key (f_unknown f) = [''a'', ''b''] | Inl _ \<Rightarrow> False"
    unfolding result_def by code_simp
  then obtain f where f: "result = Inr f" "f_duplicates f = []" "map e_key (f_unknown f) = [''a'', ''b'']"
    by (cases result) auto
  have "h_kind (merge_doc ! 0) = MappingNode" by (simp add: merge_doc_def hn_def)
  then obtain t where "unfolds merge_doc 0 t"
    using parse_correct [OF merge_doc_document, of "\<lambda>_. None" "''c.yaml''" "[]" "hn DocumentNode [] [] [0] None"]
      f(1) unfolding result_def by blast
  then show ?thesis
    using f unfolding result_def by (intro exI [of _ f] exI [of _ t]) simp
qed

end
