(* ===== verification/Schema.thy ===== *)
theory Schema
  imports Component Releases
begin

section \<open>The component inventory of a release\<close>

text \<open>
  \<open>pkg/schema/schema.go\<close> and \<open>decoder.go\<close>: what a release ships, what each component supports,
  the field schema of its settings, and what is known about the release's scalar decoding. A Go map
  is the list of its entries in the order of one iteration; a schema read from a file has each key
  once (\<open>schema_ok\<close>). An inventory is kept per kind, so components filed under a kind the linter
  does not know are not represented. \<open>Read\<close> refuses nil components and nil fields, so neither has a
  value here; decoding itself is third-party code.
\<close>

type_synonym stability = string

definition development :: stability where "development = ''development''"
definition alpha :: stability where "alpha = ''alpha''"
definition beta :: stability where "beta = ''beta''"
definition stable :: stability where "stable = ''stable''"
definition deprecated_level :: stability where "deprecated_level = ''deprecated''"
definition unmaintained :: stability where "unmaintained = ''unmaintained''"

record pair =
  pair_from :: signal
  pair_to :: signal

datatype field =
  Field (fd_type: string) (fd_children: "(string \<times> field) list") (fd_required: "string list")
    (fd_enum: "string list") (fd_open: bool) (fd_deprecated: string) (fd_doc: string)
    (fd_extension_ref: string)

record scomp =
  sc_type :: string
  sc_signals :: "signal list"
  sc_stability :: "(string \<times> stability) list"
  sc_pairs :: "pair list"
  sc_distributions :: "string list"
  sc_module :: string
  sc_deprecated :: string
  sc_alias_of :: string
  sc_alias :: string
  sc_fields :: "field option"

record decoder =
  dec_confmap_version :: string
  dec_incomplete :: bool
  dec_modified :: bool

record schema =
  sch_collector_version :: string
  sch_distribution :: string
  sch_decoder :: "decoder option"
  sch_generated_at :: string
  sch_sources :: "(string \<times> string) list"
  sch_components :: "kind \<Rightarrow> (string \<times> scomp) list"

definition role_storage :: string where "role_storage = ''storage''"
definition role_auth :: string where "role_auth = ''auth''"
definition role_extension :: string where "role_extension = ''extension''"

definition schema_ok :: "schema \<Rightarrow> bool" where
  "schema_ok s \<longleftrightarrow> (\<forall>k. distinct (map fst (sch_components s k)))"

subsection \<open>Lookups\<close>

definition lookup :: "schema \<Rightarrow> kind \<Rightarrow> string \<Rightarrow> scomp option" where
  "lookup s k typ = map_of (sch_components s k) typ"

definition schema_types :: "schema \<Rightarrow> kind \<Rightarrow> string list" where
  "schema_types s k = sort (map fst (sch_components s k))"

definition schema_count :: "schema \<Rightarrow> nat" where
  "schema_count s = foldl (\<lambda>n k. n + length (sch_components s k)) 0 kinds"

definition supports_signal :: "scomp \<Rightarrow> signal \<Rightarrow> bool" where
  "supports_signal c s \<longleftrightarrow>
     s \<in> set (sc_signals c) \<or> list_ex (\<lambda>p. pair_from p = s \<or> pair_to p = s) (sc_pairs c)"

definition supports_as_exporter :: "scomp \<Rightarrow> signal \<Rightarrow> bool" where
  "supports_as_exporter c s \<longleftrightarrow> list_ex (\<lambda>p. pair_from p = s) (sc_pairs c)"

definition supports_as_receiver :: "scomp \<Rightarrow> signal \<Rightarrow> bool" where
  "supports_as_receiver c s \<longleftrightarrow> list_ex (\<lambda>p. pair_to p = s) (sc_pairs c)"

definition signal_list :: "scomp \<Rightarrow> string" where
  "signal_list c =
     (if 0 < length (sc_pairs c) then
        join_strings '', '' (map (\<lambda>p. pair_from p @ ''->'' @ pair_to p) (sc_pairs c))
      else if sc_signals c = [] then ''none''
      else join_strings '', '' (sc_signals c))"

definition stability_for :: "scomp \<Rightarrow> signal \<Rightarrow> stability option" where
  "stability_for c s =
     (case map_of (sc_stability c) s of
        Some v \<Rightarrow> Some v
      | None \<Rightarrow> (case sc_stability c of [(_, v)] \<Rightarrow> Some v | _ \<Rightarrow> None))"

definition at_least_beta :: "stability \<Rightarrow> bool" where
  "at_least_beta s \<longleftrightarrow> s = beta \<or> s = stable"

text \<open>\<open>ReadFile\<close>'s guard on the format, and the entry of a field's children.\<close>

datatype schema_format = FormatYAML | FormatJSON

definition format_of :: "string \<Rightarrow> schema_format" where
  "format_of path = (if has_suffix path ''.json'' then FormatJSON else FormatYAML)"

definition field_child :: "field \<Rightarrow> string \<Rightarrow> field option" where
  "field_child f key = map_of (fd_children f) key"

lemma field_child_size [termination_simp]: "field_child f key = Some c \<Longrightarrow> size c < size f"
proof (cases f)
  case (Field t cs r e op d doc x)
  assume "field_child f key = Some c"
  then have m: "(key, c) \<in> set cs" using Field by (auto simp: field_child_def dest: map_of_SomeD)
  have "size_prod (\<lambda>x. 0) size (key, c) \<le> size_list (size_prod (\<lambda>x. 0) size) cs"
    using m by (rule size_list_estimation') simp
  then show ?thesis using Field by simp
qed

subsection \<open>decoder.go: how a release decodes scalars\<close>

definition release_version :: "string \<Rightarrow> string option" where
  "release_version v0 =
     (let v = fst (cut (normalize v0) ''+''); parts = split_on (CHR ''.'') (trim_prefix v ''v'') in
      if length parts \<noteq> 3 then None
      else if list_all (\<lambda>part. case parse_uint10 max_uint32 part of
                None \<Rightarrow> False | Some n \<Rightarrow> show_digits n = part) parts then Some v
      else None)"

text \<open>The weak conversion of strings, null read as zero, and whether these defaults are known.\<close>

definition scalar_decoding :: "schema option \<Rightarrow> bool \<times> bool \<times> bool" where
  "scalar_decoding s0 =
     (let verdict = (\<lambda>version boundary.
            case release_version version of
              None \<Rightarrow> (False, False, False)
            | Some v \<Rightarrow> (compare_version v ''v0.105.0'' < 0, 0 \<le> compare_version v boundary, True))
      in case s0 of
        None \<Rightarrow> (False, False, False)
      | Some s \<Rightarrow>
          (case sch_decoder s of
             Some d \<Rightarrow>
               if dec_modified d \<or> dec_incomplete d then (False, False, False)
               else verdict (dec_confmap_version d) ''v1.33.0''
           | None \<Rightarrow>
               if sch_distribution s \<in> set [[], ''core'', ''contrib'', ''k8s'', ''otlp'']
               then verdict (sch_collector_version s) ''v0.127.0''
               else (False, False, False)))"

lemma scalar_decoding_unknown:
  "scalar_decoding s = (weak, zero, False) \<Longrightarrow> \<not> weak \<and> \<not> zero"
  by (auto simp: scalar_decoding_def Let_def split: option.splits if_splits)

text \<open>A release tag that decodes is its three numbers, so the labels it drops play no part.\<close>

lemma release_version_numbers:
  assumes "release_version v0 = Some v"
  shows "v = fst (cut (normalize v0) ''+'') \<and> length (split_on (CHR ''.'') (trim_prefix v ''v'')) = 3"
  using assms by (auto simp: release_version_def Let_def split: if_splits)

lemma schema_count_pos: "0 < schema_count s \<longleftrightarrow> (\<exists>k. sch_components s k \<noteq> [])"
proof -
  have "0 < schema_count s \<longleftrightarrow> (\<exists>k \<in> set kinds. sch_components s k \<noteq> [])"
    by (auto simp: schema_count_def kinds_def)
  then show ?thesis by simp
qed

end
