(* ===== verification/Vocabulary.thy ===== *)
theory Vocabulary
  imports Prelude
begin

section \<open>The names rules share\<close>

text \<open>
  \<open>pkg/rule/component.go\<close> and \<open>docs.go\<close>: the component types and settings keys more than one rule
  reads, and the pages findings point at.
\<close>

definition memory_limiter_type :: string where "memory_limiter_type = ''memory_limiter''"
definition batch_type :: string where "batch_type = ''batch''"
definition debug_type :: string where "debug_type = ''debug''"
definition sending_queue_key :: string where "sending_queue_key = ''sending_queue''"
definition storage_key :: string where "storage_key = ''storage''"
definition batch_key :: string where "batch_key = ''batch''"
definition endpoint_key :: string where "endpoint_key = ''endpoint''"

subsection \<open>docs.go\<close>

definition memory_limiter_docs :: string where
  "memory_limiter_docs =
     ''https://github.com/open-telemetry/opentelemetry-collector/blob/main/pr'' @
     ''ocessor/memorylimiterprocessor/README.md''"

definition batch_docs :: string where
  "batch_docs =
     ''https://github.com/open-telemetry/opentelemetry-collector/blob/main/pr'' @
     ''ocessor/batchprocessor/README.md''"

definition tail_sampling_docs :: string where
  "tail_sampling_docs =
     ''https://github.com/open-telemetry/opentelemetry-collector-contrib/blob'' @
     ''/main/processor/tailsamplingprocessor/README.md''"

definition probabilistic_sampler_docs :: string where
  "probabilistic_sampler_docs =
     ''https://github.com/open-telemetry/opentelemetry-collector-contrib/blob'' @
     ''/main/processor/probabilisticsamplerprocessor/README.md''"

definition debug_docs :: string where
  "debug_docs =
     ''https://github.com/open-telemetry/opentelemetry-collector/blob/main/ex'' @
     ''porter/debugexporter/README.md''"

definition tls_docs :: string where
  "tls_docs =
     ''https://github.com/open-telemetry/opentelemetry-collector/blob/main/co'' @
     ''nfig/configtls/README.md''"

definition exporter_queue_docs :: string where
  "exporter_queue_docs =
     ''https://github.com/open-telemetry/opentelemetry-collector/blob/main/ex'' @
     ''porter/exporterhelper/README.md''"

definition auth_docs :: string where
  "auth_docs =
     ''https://github.com/open-telemetry/opentelemetry-collector/blob/main/co'' @
     ''nfig/configauth/README.md''"

definition security_docs :: string where
  "security_docs =
     ''https://github.com/open-telemetry/opentelemetry-collector/blob/main/do'' @
     ''cs/security-best-practices.md''"

definition config_security_docs :: string where
  "config_security_docs =
     ''https://opentelemetry.io/docs/security/config-best-practices/''"

definition internal_telemetry_docs :: string where
  "internal_telemetry_docs =
     ''https://opentelemetry.io/docs/collector/internal-telemetry/''"

definition kubernetes_resource_docs :: string where
  "kubernetes_resource_docs =
     ''https://kubernetes.io/docs/concepts/configuration/manage-resources-con'' @
     ''tainers/''"

end
