(* ===== verification/Index.thy ===== *)
theory Index
  imports Config Schema Vocabulary
begin

section \<open>Resolving references\<close>

text \<open>
  \<open>pkg/rule/index.go\<close>: the declarations of a config, which of them the service block and other
  components' settings use, the extension references inside settings, and the pipelines a connector
  joins. A Go map from a key to a value is a function, a missing key giving \<^term>\<open>None\<close>, the empty
  set or the empty list, as reading a missing key of the Go map does.
\<close>

record extension_ref =
  xr_id :: cid
  xr_node :: ynode
  xr_path :: string
  xr_component :: comp
  xr_role :: string
  xr_docs :: string

definition xr_subject :: "extension_ref \<Rightarrow> string" where
  "xr_subject r =
     (if xr_role r = [] \<or> xr_role r = role_extension then ''extension''
      else xr_role r @ '' extension'')"

record index =
  ix_file :: cfile
  ix_declared :: "kind \<Rightarrow> cid \<Rightarrow> comp option"
  ix_used :: "kind \<Rightarrow> cid go_set"
  ix_dynamic :: "kind \<Rightarrow> bool"
  ix_enabled :: "cid go_set"
  ix_ext_refs :: "extension_ref list"
  ix_as_receiver :: "cid \<Rightarrow> pipeline list"
  ix_as_exporter :: "cid \<Rightarrow> pipeline list"

subsection \<open>Extension references in settings\<close>

record extension_field =
  xf_parent :: string
  xf_key :: string
  xf_role :: string

definition extension_fields :: "extension_field list" where
  "extension_fields =
     [\<lparr>xf_parent = sending_queue_key, xf_key = storage_key, xf_role = role_storage\<rparr>,
      \<lparr>xf_parent = ''auth'', xf_key = ''authenticator'', xf_role = role_auth\<rparr>]"

definition extension_ref_docs :: "string \<Rightarrow> string" where
  "extension_ref_docs role =
     (if role = role_storage then exporter_queue_docs
      else if role = role_auth then auth_docs
      else [])"

definition child_schema :: "field option \<Rightarrow> string \<Rightarrow> field option" where
  "child_schema fd key = (case fd of None \<Rightarrow> None | Some f \<Rightarrow> field_child f key)"

definition marked :: "field option \<Rightarrow> string \<Rightarrow> bool" where
  "marked fd key \<longleftrightarrow>
     (case child_schema fd key of None \<Rightarrow> False | Some child \<Rightarrow> fd_extension_ref child \<noteq> [])"

definition record_ref :: "comp \<Rightarrow> ynode \<Rightarrow> string \<Rightarrow> string \<Rightarrow> extension_ref" where
  "record_ref c name path role =
     \<lparr>xr_id = parse_id (n_value name), xr_node = name, xr_path = path, xr_component = c,
      xr_role = role, xr_docs = extension_ref_docs role\<rparr>"

definition record_named :: "comp \<Rightarrow> ynode option \<Rightarrow> string \<Rightarrow> string \<Rightarrow> extension_ref list" where
  "record_named c name path role =
     (case name of None \<Rightarrow> [] | Some n \<Rightarrow> [record_ref c n path role])"

text \<open>The loop over the built-in pairs: only the first pair whose parent is the key counts.\<close>

definition builtin_refs :: "comp \<Rightarrow> field option \<Rightarrow> map_entry \<Rightarrow> extension_ref list" where
  "builtin_refs c child e =
     (case find (\<lambda>b. xf_parent b = me_key e) extension_fields of
        None \<Rightarrow> []
      | Some b \<Rightarrow>
          if marked child (xf_key b) then []
          else record_named c (scalar_child (Some (me_node e)) (xf_key b))
                 (join_path (me_path e) (xf_key b)) (xf_role b))"

function ref_walk :: "comp \<Rightarrow> field option \<Rightarrow> ynode option \<Rightarrow> string \<Rightarrow> nat \<Rightarrow> extension_ref list" where
  "ref_walk c fd n0 path depth =
     (case resolve_alias n0 of
        None \<Rightarrow> []
      | Some n \<Rightarrow>
          if max_settings_depth < depth then []
          else (case n_kind n of
              MappingNode \<Rightarrow>
                concat (map (\<lambda>e.
                  let child = child_schema fd (me_key e) in
                  if child \<noteq> None \<and> fd_extension_ref (the child) \<noteq> [] then
                    record_named c (scalar_name (Some (me_node e))) (me_path e)
                      (fd_extension_ref (the child))
                  else builtin_refs c child e @
                    ref_walk c child (Some (me_node e)) (me_path e) (depth + 1))
                  (map_entries n path))
            | SequenceNode \<Rightarrow>
                concat (map (\<lambda>(i, el).
                    ref_walk c (child_schema fd ''item'') (Some el) (index_path path i) (depth + 1))
                  (List.enumerate 0 (n_content n)))
            | _ \<Rightarrow> []))"
  by pat_completeness auto
termination
  by (relation "measure (\<lambda>(_, _, _, _, depth). 17 - depth)") (auto simp: max_settings_depth_def)

declare ref_walk.simps [simp del]

definition component_extension_refs :: "comp \<Rightarrow> field option \<Rightarrow> extension_ref list" where
  "component_extension_refs c fds =
     ref_walk c fds (Some (c_value_node c)) (section_key (c_kind c) @ ''.'' @ id_string (c_id c)) 0"

definition settings_schema :: "schema option \<Rightarrow> kind \<Rightarrow> comp \<Rightarrow> field option" where
  "settings_schema sch k c =
     (case sch of
        None \<Rightarrow> None
      | Some s \<Rightarrow> (case lookup s k (id_type (c_id c)) of None \<Rightarrow> None | Some sc \<Rightarrow> sc_fields sc))"

definition extension_refs :: "cfile \<Rightarrow> schema option \<Rightarrow> extension_ref list" where
  "extension_refs f sch =
     concat (map (\<lambda>k.
       (case f_sections f k of
          None \<Rightarrow> []
        | Some sec \<Rightarrow> concat (map (\<lambda>c. component_extension_refs c (settings_schema sch k c))
            (sec_components sec)))) kinds)"

subsection \<open>Lookups\<close>

definition has_dynamic_refs_in :: "cref list \<Rightarrow> bool" where
  "has_dynamic_refs_in rs \<longleftrightarrow> list_ex (\<lambda>r. has_expansion (id_string (r_id r))) rs"

definition slot_node :: "pipeline \<Rightarrow> kind \<Rightarrow> ynode option" where
  "slot_node p slot =
     (case slot of
        Receiver \<Rightarrow> p_receivers_node p
      | Processor \<Rightarrow> p_processors_node p
      | Exporter \<Rightarrow> p_exporters_node p
      | _ \<Rightarrow> None)"

definition slots :: "kind list" where "slots = [Receiver, Processor, Exporter]"

definition dynamic_references :: "service \<Rightarrow> kind \<Rightarrow> bool" where
  "dynamic_references svc k \<longleftrightarrow>
     (case k of
        Extension \<Rightarrow>
          is_expansion (svc_node svc) \<or> is_expansion (svc_extensions_node svc) \<or>
          has_dynamic_refs_in (svc_extensions svc)
      | Connector \<Rightarrow> False
      | _ \<Rightarrow>
          is_expansion (svc_node svc) \<or> is_expansion (svc_pipelines_node svc) \<or>
          list_ex (\<lambda>p. is_expansion (Some (p_node p)) \<or> is_expansion (slot_node p k) \<or>
            has_dynamic_refs_in (pipeline_refs p k)) (svc_pipelines svc))"

definition declared :: "index \<Rightarrow> kind \<Rightarrow> cid \<Rightarrow> comp option" where
  "declared idx k i = ix_declared idx k i"

definition section_expansion :: "index \<Rightarrow> kind \<Rightarrow> bool" where
  "section_expansion idx k \<longleftrightarrow>
     (case f_sections (ix_file idx) k of None \<Rightarrow> False | Some s \<Rightarrow> is_expansion (Some (sec_node s)))"

definition has_dynamic_declarations :: "index \<Rightarrow> kind \<Rightarrow> bool" where
  "has_dynamic_declarations idx slot \<longleftrightarrow>
     section_expansion idx slot \<or>
     ((slot = Receiver \<or> slot = Exporter) \<and> section_expansion idx Connector)"

definition resolve_ref :: "index \<Rightarrow> kind \<Rightarrow> cid \<Rightarrow> comp option" where
  "resolve_ref idx slot i =
     (if has_expansion (id_string i) then None
      else (case ix_declared idx slot i of
              Some c \<Rightarrow> Some c
            | None \<Rightarrow>
                if slot = Receiver \<or> slot = Exporter then ix_declared idx Connector i else None))"

definition used :: "index \<Rightarrow> kind \<Rightarrow> cid \<Rightarrow> bool" where
  "used idx k i \<longleftrightarrow> set_has (ix_used idx k) i"

definition has_dynamic_refs :: "index \<Rightarrow> kind \<Rightarrow> bool" where
  "has_dynamic_refs idx k \<longleftrightarrow>
     (if k = Connector then ix_dynamic idx Receiver \<or> ix_dynamic idx Exporter else ix_dynamic idx k)"

definition enabled :: "index \<Rightarrow> cid \<Rightarrow> bool" where
  "enabled idx i \<longleftrightarrow> set_has (ix_enabled idx) i"

definition connector_pipelines :: "index \<Rightarrow> cid \<Rightarrow> pipeline list \<times> pipeline list" where
  "connector_pipelines idx i = (ix_as_receiver idx i, ix_as_exporter idx i)"

definition kind_of :: "index \<Rightarrow> cid \<Rightarrow> kind option" where
  "kind_of idx i = find (\<lambda>k. ix_declared idx k i \<noteq> None) kinds"

subsection \<open>Building the index\<close>

definition mark_used :: "kind \<Rightarrow> cid \<Rightarrow> index \<Rightarrow> index" where
  "mark_used k i idx = idx\<lparr>ix_used := (ix_used idx)(k := set_insert (ix_used idx k) [i])\<rparr>"

definition declare_section :: "cfile \<Rightarrow> kind \<Rightarrow> cid \<Rightarrow> comp option" where
  "declare_section f k =
     (case f_sections f k of
        None \<Rightarrow> (\<lambda>_. None)
      | Some sec \<Rightarrow> foldl (\<lambda>m c. m(c_id c := Some c)) (\<lambda>_. None) (sec_components sec))"

definition enable_ref :: "index \<Rightarrow> cref \<Rightarrow> index" where
  "enable_ref idx r =
     (if has_expansion (id_string (r_id r)) then idx
      else mark_used Extension (r_id r)
             (idx\<lparr>ix_enabled := set_insert (ix_enabled idx) [r_id r]\<rparr>))"

definition wire_ref :: "pipeline \<Rightarrow> kind \<Rightarrow> index \<Rightarrow> cref \<Rightarrow> index" where
  "wire_ref p slot idx r =
     (case resolve_ref idx slot (r_id r) of
        None \<Rightarrow> idx
      | Some c \<Rightarrow>
          (let idx' = mark_used (c_kind c) (r_id r) idx in
           if c_kind c \<noteq> Connector then idx'
           else (case slot of
               Receiver \<Rightarrow>
                 idx'\<lparr>ix_as_receiver := (ix_as_receiver idx')(r_id r := ix_as_receiver idx' (r_id r) @ [p])\<rparr>
             | Exporter \<Rightarrow>
                 idx'\<lparr>ix_as_exporter := (ix_as_exporter idx')(r_id r := ix_as_exporter idx' (r_id r) @ [p])\<rparr>
             | _ \<Rightarrow> idx')))"

definition wire_slot :: "pipeline \<Rightarrow> index \<Rightarrow> kind \<Rightarrow> index" where
  "wire_slot p idx slot = foldl (wire_ref p slot) idx (pipeline_refs p slot)"

definition wire_pipeline :: "index \<Rightarrow> pipeline \<Rightarrow> index" where
  "wire_pipeline idx p = foldl (wire_slot p) idx slots"

definition new_index :: "cfile \<Rightarrow> schema option \<Rightarrow> index" where
  "new_index f sch =
     (let idx0 = \<lparr>ix_file = f, ix_declared = declare_section f, ix_used = (\<lambda>_. set_empty),
            ix_dynamic = dynamic_references (f_service f), ix_enabled = set_empty,
            ix_ext_refs = extension_refs f sch, ix_as_receiver = (\<lambda>_. []),
            ix_as_exporter = (\<lambda>_. [])\<rparr>;
          idx1 = foldl enable_ref idx0 (svc_extensions (f_service f));
          idx2 = foldl (\<lambda>idx r. mark_used Extension (xr_id r) idx) idx1 (ix_ext_refs idx1)
      in foldl wire_pipeline idx2 (svc_pipelines (f_service f)))"

subsection \<open>What the index records\<close>

text \<open>
  Building the index only adds to \<open>used\<close>, \<open>enabled\<close> and the wiring, so resolution, which the later
  steps rest on, is settled by the declarations alone.
\<close>

definition static_part :: "index \<Rightarrow> index" where
  "static_part idx = idx\<lparr>ix_used := (\<lambda>_. set_empty), ix_enabled := set_empty,
     ix_as_receiver := (\<lambda>_. []), ix_as_exporter := (\<lambda>_. [])\<rparr>"

lemma static_part_sel:
  "ix_file (static_part idx) = ix_file idx" "ix_declared (static_part idx) = ix_declared idx"
  "ix_dynamic (static_part idx) = ix_dynamic idx" "ix_ext_refs (static_part idx) = ix_ext_refs idx"
  by (simp_all add: static_part_def)

lemma resolve_ref_static: "resolve_ref (static_part idx) = resolve_ref idx"
  by (simp add: resolve_ref_def static_part_sel fun_eq_iff split: option.split)

lemma mark_used_static [simp]: "static_part (mark_used k i idx) = static_part idx"
  by (simp add: mark_used_def static_part_def)

lemma mark_used_iff [simp]:
  "used (mark_used k i idx) k' i' \<longleftrightarrow> used idx k' i' \<or> k' = k \<and> i' = i"
  by (auto simp: mark_used_def used_def)

lemma mark_used_wiring [simp]:
  "ix_as_receiver (mark_used k i idx) = ix_as_receiver idx"
  "ix_as_exporter (mark_used k i idx) = ix_as_exporter idx"
  "ix_enabled (mark_used k i idx) = ix_enabled idx"
  "ix_ext_refs (mark_used k i idx) = ix_ext_refs idx"
  by (simp_all add: mark_used_def)

lemma static_eqD:
  assumes "static_part a = static_part b"
  shows "resolve_ref a = resolve_ref b" "ix_file a = ix_file b" "ix_declared a = ix_declared b"
    "ix_dynamic a = ix_dynamic b" "ix_ext_refs a = ix_ext_refs b"
  using assms by (metis resolve_ref_static static_part_sel)+

lemma enable_ref_static [simp]: "static_part (enable_ref idx r) = static_part idx"
  by (simp add: enable_ref_def) (simp add: mark_used_def static_part_def)

lemma wire_ref_static [simp]: "static_part (wire_ref p slot idx r) = static_part idx"
  by (simp add: wire_ref_def mark_used_def static_part_def Let_def split: option.split kind.split)

lemma foldl_static:
  "(\<And>x y. static_part (g x y) = static_part x) \<Longrightarrow> static_part (foldl g idx ys) = static_part idx"
  by (induction ys arbitrary: idx) simp_all

lemma wire_slot_static [simp]: "static_part (wire_slot p idx slot) = static_part idx"
  unfolding wire_slot_def by (rule foldl_static) simp

lemma wire_pipeline_static [simp]: "static_part (wire_pipeline idx p) = static_part idx"
  unfolding wire_pipeline_def by (rule foldl_static) simp

lemma enable_fold:
  "used (foldl enable_ref idx rs) k i \<longleftrightarrow>
     used idx k i \<or> k = Extension \<and> (\<exists>r \<in> set rs. r_id r = i \<and> \<not> has_expansion (id_string i))"
  "enabled (foldl enable_ref idx rs) i \<longleftrightarrow>
     enabled idx i \<or> (\<exists>r \<in> set rs. r_id r = i \<and> \<not> has_expansion (id_string i))"
proof -
  have u: "used (enable_ref idx r) k i \<longleftrightarrow>
      used idx k i \<or> k = Extension \<and> r_id r = i \<and> \<not> has_expansion (id_string i)" for idx r
    by (auto simp: enable_ref_def used_def mark_used_def)
  have e: "enabled (enable_ref idx r) i \<longleftrightarrow>
      enabled idx i \<or> r_id r = i \<and> \<not> has_expansion (id_string i)" for idx r
    by (auto simp: enable_ref_def enabled_def)
  show "used (foldl enable_ref idx rs) k i \<longleftrightarrow>
     used idx k i \<or> k = Extension \<and> (\<exists>r \<in> set rs. r_id r = i \<and> \<not> has_expansion (id_string i))"
    by (induction rs arbitrary: idx) (auto simp: u)
  show "enabled (foldl enable_ref idx rs) i \<longleftrightarrow>
     enabled idx i \<or> (\<exists>r \<in> set rs. r_id r = i \<and> \<not> has_expansion (id_string i))"
    by (induction rs arbitrary: idx) (auto simp: e)
qed

lemma enable_fold_wiring:
  "ix_as_receiver (foldl enable_ref idx rs) = ix_as_receiver idx"
  "ix_as_exporter (foldl enable_ref idx rs) = ix_as_exporter idx"
proof -
  have "ix_as_receiver (enable_ref idx r) = ix_as_receiver idx"
    "ix_as_exporter (enable_ref idx r) = ix_as_exporter idx" for idx r
    by (simp_all add: enable_ref_def)
  then show "ix_as_receiver (foldl enable_ref idx rs) = ix_as_receiver idx"
    "ix_as_exporter (foldl enable_ref idx rs) = ix_as_exporter idx"
    by (induction rs arbitrary: idx) simp_all
qed

lemma mark_fold:
  "used (foldl (\<lambda>idx r. mark_used Extension (xr_id r) idx) idx rs) k i \<longleftrightarrow>
     used idx k i \<or> k = Extension \<and> (\<exists>r \<in> set rs. xr_id r = i)"
  "enabled (foldl (\<lambda>idx r. mark_used Extension (xr_id r) idx) idx rs) i \<longleftrightarrow> enabled idx i"
  "ix_as_receiver (foldl (\<lambda>idx r. mark_used Extension (xr_id r) idx) idx rs) = ix_as_receiver idx"
  "ix_as_exporter (foldl (\<lambda>idx r. mark_used Extension (xr_id r) idx) idx rs) = ix_as_exporter idx"
  by (induction rs arbitrary: idx) (auto simp: enabled_def)

text \<open>The pipelines that name a connector in a slot, once for each time they do.\<close>

definition wired :: "index \<Rightarrow> kind \<Rightarrow> cid \<Rightarrow> pipeline \<Rightarrow> pipeline list" where
  "wired idx slot i p =
     map (\<lambda>r. p) (filter (\<lambda>r. r_id r = i \<and>
       (\<exists>c. resolve_ref idx slot i = Some c \<and> c_kind c = Connector)) (pipeline_refs p slot))"

definition names_component :: "index \<Rightarrow> kind \<Rightarrow> cid \<Rightarrow> pipeline \<Rightarrow> kind \<Rightarrow> bool" where
  "names_component idx k i p slot \<longleftrightarrow>
     (\<exists>r \<in> set (pipeline_refs p slot). r_id r = i) \<and>
     (\<exists>c. resolve_ref idx slot i = Some c \<and> c_kind c = k)"

lemma names_component_code [code]:
  "names_component idx k i p slot \<longleftrightarrow>
     list_ex (\<lambda>r. r_id r = i) (pipeline_refs p slot) \<and>
     (case resolve_ref idx slot i of None \<Rightarrow> False | Some c \<Rightarrow> c_kind c = k)"
  by (auto simp: names_component_def list_ex_iff split: option.splits)

lemma wire_ref_used:
  "used (wire_ref p slot idx r) k i \<longleftrightarrow>
     used idx k i \<or> r_id r = i \<and> (\<exists>c. resolve_ref idx slot i = Some c \<and> c_kind c = k)"
proof (cases "resolve_ref idx slot (r_id r)")
  case None
  then show ?thesis by (auto simp: wire_ref_def)
next
  case (Some c)
  have "ix_used (wire_ref p slot idx r) = ix_used (mark_used (c_kind c) (r_id r) idx)"
    using Some by (simp add: wire_ref_def Let_def split: kind.split)
  then have "used (wire_ref p slot idx r) k i = used (mark_used (c_kind c) (r_id r) idx) k i"
    by (simp add: used_def)
  then show ?thesis using Some by auto
qed

lemma wire_ref_enabled [simp]: "ix_enabled (wire_ref p slot idx r) = ix_enabled idx"
  by (simp add: wire_ref_def Let_def split: option.split kind.split)

lemma wire_ref_receiver:
  "ix_as_receiver (wire_ref p slot idx r) i =
     ix_as_receiver idx i @
     (if slot = Receiver \<and> r_id r = i \<and> (\<exists>c. resolve_ref idx slot i = Some c \<and> c_kind c = Connector)
      then [p] else [])"
  by (auto simp: wire_ref_def Let_def split: option.split kind.split)

lemma wire_ref_exporter:
  "ix_as_exporter (wire_ref p slot idx r) i =
     ix_as_exporter idx i @
     (if slot = Exporter \<and> r_id r = i \<and> (\<exists>c. resolve_ref idx slot i = Some c \<and> c_kind c = Connector)
      then [p] else [])"
  by (auto simp: wire_ref_def Let_def split: option.split kind.split)

lemma wire_refs:
  fixes p slot idx rs
  defines "idx' \<equiv> foldl (wire_ref p slot) idx rs"
    and "hit \<equiv> \<lambda>i r. r_id r = i \<and> (\<exists>c. resolve_ref idx slot i = Some c \<and> c_kind c = Connector)"
  shows "used idx' k i \<longleftrightarrow> used idx k i \<or>
      (\<exists>r \<in> set rs. r_id r = i) \<and> (\<exists>c. resolve_ref idx slot i = Some c \<and> c_kind c = k)"
    and "ix_as_receiver idx' i =
      ix_as_receiver idx i @ (if slot = Receiver then map (\<lambda>r. p) (filter (hit i) rs) else [])"
    and "ix_as_exporter idx' i =
      ix_as_exporter idx i @ (if slot = Exporter then map (\<lambda>r. p) (filter (hit i) rs) else [])"
    and "ix_enabled idx' = ix_enabled idx"
proof -
  have r: "resolve_ref (wire_ref p s idx r) = resolve_ref idx" for s idx r
    by (rule static_eqD) simp
  show "used idx' k i \<longleftrightarrow> used idx k i \<or>
      (\<exists>r \<in> set rs. r_id r = i) \<and> (\<exists>c. resolve_ref idx slot i = Some c \<and> c_kind c = k)"
    unfolding idx'_def by (induction rs arbitrary: idx) (auto simp: r wire_ref_used)
  show "ix_as_receiver idx' i =
      ix_as_receiver idx i @ (if slot = Receiver then map (\<lambda>r. p) (filter (hit i) rs) else [])"
    unfolding idx'_def hit_def by (induction rs arbitrary: idx) (auto simp: r wire_ref_receiver)
  show "ix_as_exporter idx' i =
      ix_as_exporter idx i @ (if slot = Exporter then map (\<lambda>r. p) (filter (hit i) rs) else [])"
    unfolding idx'_def hit_def by (induction rs arbitrary: idx) (auto simp: r wire_ref_exporter)
  show "ix_enabled idx' = ix_enabled idx"
    unfolding idx'_def by (induction rs arbitrary: idx) auto
qed

lemma wire_pipeline_effect:
  "used (wire_pipeline idx p) k i \<longleftrightarrow> used idx k i \<or> (\<exists>slot \<in> set slots. names_component idx k i p slot)"
  "ix_as_receiver (wire_pipeline idx p) i = ix_as_receiver idx i @ wired idx Receiver i p"
  "ix_as_exporter (wire_pipeline idx p) i = ix_as_exporter idx i @ wired idx Exporter i p"
  "ix_enabled (wire_pipeline idx p) = ix_enabled idx"
proof -
  have r: "resolve_ref (wire_slot p idx slot) = resolve_ref idx" for idx slot
    by (rule static_eqD) simp
  show "used (wire_pipeline idx p) k i \<longleftrightarrow> used idx k i \<or> (\<exists>slot \<in> set slots. names_component idx k i p slot)"
    by (auto simp: wire_pipeline_def slots_def wire_slot_def wire_refs names_component_def
        r [unfolded wire_slot_def])
  show "ix_as_receiver (wire_pipeline idx p) i = ix_as_receiver idx i @ wired idx Receiver i p"
    "ix_as_exporter (wire_pipeline idx p) i = ix_as_exporter idx i @ wired idx Exporter i p"
    "ix_enabled (wire_pipeline idx p) = ix_enabled idx"
    by (simp_all add: wire_pipeline_def slots_def wire_slot_def wire_refs wired_def
        r [unfolded wire_slot_def])
qed

lemma wire_pipelines:
  "used (foldl wire_pipeline idx ps) k i \<longleftrightarrow>
     used idx k i \<or> (\<exists>p \<in> set ps. \<exists>slot \<in> set slots. names_component idx k i p slot)"
  "ix_as_receiver (foldl wire_pipeline idx ps) i =
     ix_as_receiver idx i @ concat (map (wired idx Receiver i) ps)"
  "ix_as_exporter (foldl wire_pipeline idx ps) i =
     ix_as_exporter idx i @ concat (map (wired idx Exporter i) ps)"
  "ix_enabled (foldl wire_pipeline idx ps) = ix_enabled idx"
proof -
  have r: "resolve_ref (wire_pipeline idx p) = resolve_ref idx" for idx p
    by (rule static_eqD) simp
  have n: "names_component (wire_pipeline idx p) = names_component idx"
    "wired (wire_pipeline idx p) = wired idx" for idx p
    by (simp_all add: names_component_def wired_def r fun_eq_iff)
  show "used (foldl wire_pipeline idx ps) k i \<longleftrightarrow>
     used idx k i \<or> (\<exists>p \<in> set ps. \<exists>slot \<in> set slots. names_component idx k i p slot)"
    by (induction ps arbitrary: idx) (auto simp: n wire_pipeline_effect)
  show "ix_as_receiver (foldl wire_pipeline idx ps) i =
     ix_as_receiver idx i @ concat (map (wired idx Receiver i) ps)"
    "ix_as_exporter (foldl wire_pipeline idx ps) i =
     ix_as_exporter idx i @ concat (map (wired idx Exporter i) ps)"
    "ix_enabled (foldl wire_pipeline idx ps) = ix_enabled idx"
    by (induction ps arbitrary: idx) (simp_all add: n wire_pipeline_effect)
qed

lemma declare_fold:
  "foldl (\<lambda>m c. m(c_id c := Some c)) m cs i =
     (case find (\<lambda>c. c_id c = i) (rev cs) of None \<Rightarrow> m i | Some c \<Rightarrow> Some c)"
  by (induction cs rule: rev_induct) auto

lemma declare_section_last:
  "declare_section f k i =
     (case f_sections f k of
        None \<Rightarrow> None
      | Some sec \<Rightarrow> find (\<lambda>c. c_id c = i) (rev (sec_components sec)))"
  by (auto simp: declare_section_def declare_fold split: option.split)

lemma declare_section_kind:
  assumes "declare_section f k i = Some c"
  shows "c_id c = i \<and> (\<exists>sec. f_sections f k = Some sec \<and> c \<in> set (sec_components sec))"
  using assms by (auto simp: declare_section_last split: option.splits dest: find_SomeD)

lemma new_index_declared [simp]: "ix_declared (new_index f sch) = declare_section f"
  and new_index_file [simp]: "ix_file (new_index f sch) = f"
  and new_index_dynamic [simp]: "ix_dynamic (new_index f sch) = dynamic_references (f_service f)"
  and new_index_ext_refs [simp]: "ix_ext_refs (new_index f sch) = extension_refs f sch"
proof -
  define idx0 where "idx0 = \<lparr>ix_file = f, ix_declared = declare_section f, ix_used = (\<lambda>_. set_empty),
            ix_dynamic = dynamic_references (f_service f), ix_enabled = set_empty,
            ix_ext_refs = extension_refs f sch, ix_as_receiver = (\<lambda>_. []),
            ix_as_exporter = (\<lambda>_. [])\<rparr>"
  have "static_part (new_index f sch) = static_part idx0"
    unfolding new_index_def Let_def idx0_def [symmetric] by (simp add: foldl_static)
  from static_eqD [OF this] show "ix_declared (new_index f sch) = declare_section f"
    "ix_file (new_index f sch) = f" "ix_dynamic (new_index f sch) = dynamic_references (f_service f)"
    "ix_ext_refs (new_index f sch) = extension_refs f sch"
    by (simp_all add: idx0_def)
qed

lemma new_index_facts:
  "(used (new_index f sch) k i \<longleftrightarrow>
      (\<exists>p \<in> set (svc_pipelines (f_service f)). \<exists>slot \<in> set slots.
         names_component (new_index f sch) k i p slot) \<or>
      k = Extension \<and>
        ((\<exists>r \<in> set (svc_extensions (f_service f)). r_id r = i \<and> \<not> has_expansion (id_string i)) \<or>
         (\<exists>x \<in> set (extension_refs f sch). xr_id x = i))) \<and>
   (enabled (new_index f sch) i \<longleftrightarrow>
      (\<exists>r \<in> set (svc_extensions (f_service f)). r_id r = i \<and> \<not> has_expansion (id_string i))) \<and>
   declared (new_index f sch) k i =
     (case f_sections f k of
        None \<Rightarrow> None
      | Some sec \<Rightarrow> find (\<lambda>c. c_id c = i) (rev (sec_components sec))) \<and>
   connector_pipelines (new_index f sch) i =
     (concat (map (wired (new_index f sch) Receiver i) (svc_pipelines (f_service f))),
      concat (map (wired (new_index f sch) Exporter i) (svc_pipelines (f_service f))))"
proof -
  define idx0 where "idx0 = \<lparr>ix_file = f, ix_declared = declare_section f, ix_used = (\<lambda>_. set_empty),
            ix_dynamic = dynamic_references (f_service f), ix_enabled = set_empty,
            ix_ext_refs = extension_refs f sch, ix_as_receiver = (\<lambda>_. []),
            ix_as_exporter = (\<lambda>_. [])\<rparr>"
  define idx1 where "idx1 = foldl enable_ref idx0 (svc_extensions (f_service f))"
  define idx2 where "idx2 = foldl (\<lambda>idx r. mark_used Extension (xr_id r) idx) idx1 (extension_refs f sch)"
  have st: "static_part idx1 = static_part idx0" "static_part idx2 = static_part idx0"
    by (simp_all add: idx1_def idx2_def foldl_static)
  have "ix_ext_refs idx1 = extension_refs f sch"
    using static_eqD(5) [OF st(1)] by (simp add: idx0_def)
  then have new: "new_index f sch = foldl wire_pipeline idx2 (svc_pipelines (f_service f))"
    by (simp add: new_index_def Let_def idx2_def idx1_def idx0_def)
  have "static_part (new_index f sch) = static_part idx2"
    unfolding new by (rule foldl_static) simp
  then have r: "resolve_ref (new_index f sch) = resolve_ref idx2" by (rule static_eqD)
  have n: "names_component (new_index f sch) = names_component idx2"
    "wired (new_index f sch) = wired idx2"
    by (simp_all add: names_component_def wired_def r fun_eq_iff)
  have u2: "used idx2 k i \<longleftrightarrow> k = Extension \<and>
      ((\<exists>r \<in> set (svc_extensions (f_service f)). r_id r = i \<and> \<not> has_expansion (id_string i)) \<or>
       (\<exists>x \<in> set (extension_refs f sch). xr_id x = i))"
    by (auto simp: idx2_def idx1_def mark_fold enable_fold) (simp_all add: idx0_def used_def)
  have e2: "enabled idx2 i \<longleftrightarrow>
      (\<exists>r \<in> set (svc_extensions (f_service f)). r_id r = i \<and> \<not> has_expansion (id_string i))"
    by (auto simp: idx2_def idx1_def mark_fold enable_fold) (simp_all add: idx0_def enabled_def)
  have w2: "ix_as_receiver idx2 i = []" "ix_as_exporter idx2 i = []"
    by (simp_all add: idx2_def idx1_def mark_fold enable_fold_wiring) (simp_all add: idx0_def)
  have "used (new_index f sch) k i \<longleftrightarrow> used idx2 k i \<or>
      (\<exists>p \<in> set (svc_pipelines (f_service f)). \<exists>slot \<in> set slots. names_component idx2 k i p slot)"
    by (simp add: new wire_pipelines)
  moreover have "enabled (new_index f sch) i \<longleftrightarrow> enabled idx2 i"
    by (simp add: enabled_def new wire_pipelines)
  moreover have "connector_pipelines (new_index f sch) i =
      (concat (map (wired idx2 Receiver i) (svc_pipelines (f_service f))),
       concat (map (wired idx2 Exporter i) (svc_pipelines (f_service f))))"
    by (simp add: connector_pipelines_def new wire_pipelines w2)
  ultimately show ?thesis
    using u2 e2 by (auto simp: n declared_def declare_section_last)
qed

text \<open>
  C6: the index of a config records what the service block says. A component is used exactly when a
  pipeline slot names it and resolves to its kind, or, for an extension, when \<open>service.extensions\<close>
  or a setting names it; only the service block enables an extension; a duplicate key keeps the
  last declaration; and a connector's two lists are the pipelines that name it as a receiver and as
  an exporter, in order.
\<close>

theorem new_index_correct:
  "(used (new_index f sch) k i \<longleftrightarrow>
      (\<exists>p \<in> set (svc_pipelines (f_service f)). \<exists>slot \<in> set slots.
         names_component (new_index f sch) k i p slot) \<or>
      k = Extension \<and>
        ((\<exists>r \<in> set (svc_extensions (f_service f)). r_id r = i \<and> \<not> has_expansion (id_string i)) \<or>
         (\<exists>x \<in> set (extension_refs f sch). xr_id x = i))) \<and>
   (enabled (new_index f sch) i \<longleftrightarrow>
      (\<exists>r \<in> set (svc_extensions (f_service f)). r_id r = i \<and> \<not> has_expansion (id_string i))) \<and>
   declared (new_index f sch) k i =
     (case f_sections f k of
        None \<Rightarrow> None
      | Some sec \<Rightarrow> find (\<lambda>c. c_id c = i) (rev (sec_components sec))) \<and>
   connector_pipelines (new_index f sch) i =
     (concat (map (wired (new_index f sch) Receiver i) (svc_pipelines (f_service f))),
      concat (map (wired (new_index f sch) Exporter i) (svc_pipelines (f_service f))))"
  by (rule new_index_facts)

end
