(* ===== verification/Upstream.thy ===== *)
theory Upstream
  imports Index
begin

section \<open>Is everything that enters a pipeline processed upstream?\<close>

text \<open>
  \<open>pkg/rule/upstream.go\<close>: the memoised walk from a pipeline back through its receivers and the
  connectors that feed it. The memo is the Go map with the visits as keys; a visit is marked false
  when it starts. The recursion of the code is bounded by fuel, and \<open>upstream_covered\<close> starts with
  one more than the number of visits there are, so the walk never runs out (\<open>walk_returns\<close>).
\<close>

type_synonym visit = "string \<times> bool"
type_synonym visits = "visit \<Rightarrow> bool option"

definition has_processor :: "index \<Rightarrow> pipeline \<Rightarrow> string list \<Rightarrow> bool" where
  "has_processor idx p types \<longleftrightarrow>
     list_ex (\<lambda>r. case resolve_ref idx Processor (r_id r) of
        None \<Rightarrow> False | Some c \<Rightarrow> id_type (c_id c) \<in> set types) (p_processors p)"

fun all_producers ::
  "(pipeline \<Rightarrow> bool \<Rightarrow> visits \<Rightarrow> (bool \<times> visits) option) \<Rightarrow> signal \<Rightarrow> bool \<Rightarrow> visits \<Rightarrow> pipeline list \<Rightarrow>
   (bool \<times> visits) option" where
  "all_producers w sig cov m [] = Some (True, m)"
| "all_producers w sig cov m (q # qs) =
     (if p_signal q \<noteq> sig then Some (False, m)
      else (case w q cov m of
              None \<Rightarrow> None
            | Some (ok, m') \<Rightarrow> if ok then all_producers w sig cov m' qs else Some (False, m')))"

fun all_receivers ::
  "(pipeline \<Rightarrow> bool \<Rightarrow> visits \<Rightarrow> (bool \<times> visits) option) \<Rightarrow> index \<Rightarrow> string list \<Rightarrow> signal \<Rightarrow> bool \<Rightarrow>
   visits \<Rightarrow> cref list \<Rightarrow> (bool \<times> visits) option" where
  "all_receivers w idx connectors sig cov m [] = Some (True, m)"
| "all_receivers w idx connectors sig cov m (r # rs) =
     (case resolve_ref idx Receiver (r_id r) of
        None \<Rightarrow> Some (False, m)
      | Some c \<Rightarrow>
          if c_kind c = Receiver \<and> cov then all_receivers w idx connectors sig cov m rs
          else if c_kind c \<noteq> Connector \<or> id_type (c_id c) \<notin> set connectors then Some (False, m)
          else (let producers = snd (connector_pipelines idx (c_id c)) in
             if producers = [] then Some (False, m)
             else (case all_producers w sig cov m producers of
                     None \<Rightarrow> None
                   | Some (ok, m') \<Rightarrow>
                       if ok then all_receivers w idx connectors sig cov m' rs else Some (False, m'))))"

fun walk_upstream ::
  "nat \<Rightarrow> index \<Rightarrow> string list \<Rightarrow> string list \<Rightarrow> pipeline \<Rightarrow> bool \<Rightarrow> visits \<Rightarrow> (bool \<times> visits) option" where
  "walk_upstream 0 idx types connectors cur cov0 m = None"
| "walk_upstream (Suc n) idx types connectors cur cov0 m =
     (let key = (p_key cur, cov0) in
      case m key of
        Some result \<Rightarrow> Some (result, m)
      | None \<Rightarrow>
          (let m1 = m(key := Some False); cov = (cov0 \<or> has_processor idx cur types) in
           if p_receivers cur = [] \<or> is_expansion (p_receivers_node cur) then Some (False, m1)
           else (case all_receivers (walk_upstream n idx types connectors) idx connectors (p_signal cur)
                    cov m1 (p_receivers cur) of
                   None \<Rightarrow> None
                 | Some (ok, m2) \<Rightarrow> if ok then Some (True, m2(key := Some True)) else Some (False, m2))))"

definition upstream_fuel :: "index \<Rightarrow> nat" where
  "upstream_fuel idx = Suc (2 * length (svc_pipelines (f_service (ix_file idx))))"

definition upstream_covered :: "index \<Rightarrow> pipeline \<Rightarrow> string list \<Rightarrow> string list \<Rightarrow> bool" where
  "upstream_covered idx p processors connectors \<longleftrightarrow>
     (if has_dynamic_refs idx Exporter then False
      else (case walk_upstream (upstream_fuel idx) idx processors connectors p False (\<lambda>_. None) of
              None \<Rightarrow> False | Some (ok, _) \<Rightarrow> ok))"

subsection \<open>What it is meant to decide\<close>

text \<open>
  A pipeline is covered when each receiver is covered: a receiver of the collector's own once a
  processor of the right type was passed, or an allowed connector with producers, all of the same
  signal and all covered in turn. Being the least such predicate, it admits no cycle.
\<close>

inductive covered :: "index \<Rightarrow> string list \<Rightarrow> string list \<Rightarrow> pipeline \<Rightarrow> bool \<Rightarrow> bool"
  for idx types connectors where
  covered_pipeline:
    "covered idx types connectors p c" if
      "p_receivers p \<noteq> []" "\<not> is_expansion (p_receivers_node p)"
      "c' = (c \<or> has_processor idx p types)"
      "\<And>r. r \<in> set (p_receivers p) \<Longrightarrow>
         \<exists>d. resolve_ref idx Receiver (r_id r) = Some d \<and>
           (c_kind d = Receiver \<and> c' \<or>
            c_kind d = Connector \<and> id_type (c_id d) \<in> set connectors \<and>
            ix_as_exporter idx (c_id d) \<noteq> [] \<and>
            (\<forall>q \<in> set (ix_as_exporter idx (c_id d)).
               p_signal q = p_signal p \<and> covered idx types connectors q c'))"

text \<open>The visits a visit waits for.\<close>

definition waits_for ::
  "index \<Rightarrow> string list \<Rightarrow> string list \<Rightarrow> ((pipeline \<times> bool) \<times> (pipeline \<times> bool)) set" where
  "waits_for idx types connectors =
     {((p, c), (q, c')). c' = (c \<or> has_processor idx p types) \<and>
        (\<exists>r \<in> set (p_receivers p). \<exists>d. resolve_ref idx Receiver (r_id r) = Some d \<and>
           c_kind d = Connector \<and> q \<in> set (ix_as_exporter idx (c_id d)))}"

lemma covered_acyclic:
  "covered idx types connectors p c \<Longrightarrow> ((p, c), (p, c)) \<notin> (waits_for idx types connectors)\<^sup>+"
proof (induction rule: covered.induct)
  case (covered_pipeline p c' c)
  let ?R = "waits_for idx types connectors"
  show ?case
  proof
    assume "((p, c), (p, c)) \<in> ?R\<^sup>+"
    then obtain v where v: "((p, c), v) \<in> ?R" "(v, (p, c)) \<in> ?R\<^sup>*" by (auto dest: tranclD)
    then obtain r d q where q: "v = (q, c')" and r: "r \<in> set (p_receivers p)"
      and d: "resolve_ref idx Receiver (r_id r) = Some d" "c_kind d = Connector"
        "q \<in> set (ix_as_exporter idx (c_id d))"
      using covered_pipeline(3) by (auto simp: waits_for_def)
    have "(v, v) \<in> ?R\<^sup>+" using v by (meson rtrancl_into_trancl1)
    moreover have "(v, v) \<notin> ?R\<^sup>+" using covered_pipeline(4) [OF r] d q by auto
    ultimately show False by blast
  qed
qed

subsection \<open>The walk decides it\<close>

definition unvisited :: "pipeline list \<Rightarrow> visits \<Rightarrow> visit set" where
  "unvisited ps m = {v \<in> (p_key ` set ps) \<times> UNIV. m v = None}"

definition producers_listed :: "index \<Rightarrow> pipeline list \<Rightarrow> bool" where
  "producers_listed idx ps \<longleftrightarrow> (\<forall>i. set (ix_as_exporter idx i) \<subseteq> set ps)"

lemma unvisited_finite [simp]: "finite (unvisited ps m)"
  by (simp add: unvisited_def)

lemma unvisited_mono: "dom m \<subseteq> dom m' \<Longrightarrow> unvisited ps m' \<subseteq> unvisited ps m"
  by (auto simp: unvisited_def domIff)

lemma unvisited_card_mono: "dom m \<subseteq> dom m' \<Longrightarrow> card (unvisited ps m') \<le> card (unvisited ps m)"
  by (simp add: card_mono unvisited_mono)

lemma unvisited_enter:
  assumes "p \<in> set ps" "m (p_key p, c) = None"
  shows "card (unvisited ps (m((p_key p, c) := Some b))) < card (unvisited ps m)"
proof (rule psubset_card_mono)
  show "unvisited ps (m((p_key p, c) := Some b)) \<subset> unvisited ps m"
    using assms by (auto simp: unvisited_def)
qed simp

text \<open>A result that only added to the memo.\<close>

definition grows :: "visits \<Rightarrow> (bool \<times> visits) option \<Rightarrow> bool" where
  "grows m res \<longleftrightarrow> (\<exists>b m'. res = Some (b, m') \<and> dom m \<subseteq> dom m')"

lemma grows_same [simp]: "grows m (Some (b, m))"
  by (simp add: grows_def)

lemma grows_trans: "dom m \<subseteq> dom m' \<Longrightarrow> grows m' res \<Longrightarrow> grows m res"
  by (cases res) (auto simp: grows_def)

lemma growsE:
  assumes "grows m res"
  obtains b m' where "res = Some (b, m')" "dom m \<subseteq> dom m'"
  using assms unfolding grows_def by blast

text \<open>A walker that returns within a budget of visits, as one with less fuel does.\<close>

definition returns_within ::
  "pipeline list \<Rightarrow> nat \<Rightarrow> (pipeline \<Rightarrow> bool \<Rightarrow> visits \<Rightarrow> (bool \<times> visits) option) \<Rightarrow> bool" where
  "returns_within ps k w \<longleftrightarrow>
     (\<forall>q c m. q \<in> set ps \<longrightarrow> card (unvisited ps m) < k \<longrightarrow> grows m (w q c m))"

lemma all_producers_returns:
  assumes "returns_within ps k w" "set qs \<subseteq> set ps" "card (unvisited ps m) < k"
  shows "grows m (all_producers w sig c m qs)"
  using assms(2,3)
proof (induction qs arbitrary: m)
  case (Cons q qs)
  have "grows m (w q c m)" using assms(1) Cons.prems by (simp add: returns_within_def)
  then obtain b m' where w: "w q c m = Some (b, m')" "dom m \<subseteq> dom m'" by (rule growsE)
  have "card (unvisited ps m') < k"
    using unvisited_card_mono [OF w(2), of ps] Cons.prems(2) by simp
  then have "grows m (all_producers w sig c m' qs)"
    using Cons.IH [of m'] Cons.prems(1) grows_trans [OF w(2)] by simp
  moreover have "grows m (Some (False, m'))" by (rule grows_trans [OF w(2)]) simp
  ultimately show ?case using w(1) by simp
qed simp

lemma all_receivers_returns:
  assumes "returns_within ps k w" "producers_listed idx ps" "card (unvisited ps m) < k"
  shows "grows m (all_receivers w idx connectors sig c m rs)"
  using assms(3)
proof (induction rs arbitrary: m)
  case (Cons r rs)
  have rest: "grows m (all_receivers w idx connectors sig c m' rs)" if "dom m \<subseteq> dom m'" for m'
    using grows_trans [OF that Cons.IH] unvisited_card_mono [OF that, of ps] Cons.prems by simp
  show ?case
  proof (cases "resolve_ref idx Receiver (r_id r)")
    case (Some d)
    have "set (ix_as_exporter idx (c_id d)) \<subseteq> set ps" using assms(2) by (simp add: producers_listed_def)
    then have "grows m (all_producers w sig c m (ix_as_exporter idx (c_id d)))"
      using all_producers_returns [OF assms(1)] Cons.prems by blast
    then obtain b m' where a: "all_producers w sig c m (ix_as_exporter idx (c_id d)) = Some (b, m')"
      "dom m \<subseteq> dom m'" by (rule growsE)
    have "grows m (Some (False, m'))" by (rule grows_trans [OF a(2)]) simp
    then show ?thesis
      using Some a(1) rest [OF a(2)] rest [OF order_refl]
      by (cases c) (simp_all add: connector_pipelines_def Let_def)
  qed simp
qed simp

lemma walk_returns:
  assumes "producers_listed idx ps"
  shows "returns_within ps n (walk_upstream n idx types connectors)"
proof (induction n)
  case 0
  show ?case by (simp add: returns_within_def)
next
  case (Suc n)
  show ?case
    unfolding returns_within_def
  proof (intro allI impI)
    fix q c m assume q: "q \<in> set ps" and k: "card (unvisited ps m) < Suc n"
    show "grows m (walk_upstream (Suc n) idx types connectors q c m)"
    proof (cases "m (p_key q, c)")
      case None
      let ?m = "m((p_key q, c) := Some False)" and ?c = "c \<or> has_processor idx q types"
      have "card (unvisited ps ?m) < card (unvisited ps m)" using q None by (rule unvisited_enter)
      then have "card (unvisited ps ?m) < n" using k by simp
      from all_receivers_returns [OF Suc assms this]
      have "grows ?m (all_receivers (walk_upstream n idx types connectors) idx connectors (p_signal q) ?c ?m
           (p_receivers q))" .
      then obtain b m' where
        a: "all_receivers (walk_upstream n idx types connectors) idx connectors (p_signal q) ?c ?m
           (p_receivers q) = Some (b, m')" and d: "dom ?m \<subseteq> dom m'" by (rule growsE)
      have "grows m (Some (x, ?m))" "grows m (Some (False, m'))"
        "grows m (Some (True, m'((p_key q, c) := Some True)))" for x
        using d by (auto simp: grows_def)
      then show ?thesis using None a by (simp add: Let_def)
    qed simp
  qed
qed

lemma unvisited_bound: "card (unvisited ps m) \<le> 2 * length ps"
proof -
  have "card (unvisited ps m) \<le> card ((p_key ` set ps) \<times> (UNIV :: bool set))"
    by (rule card_mono) (auto simp: unvisited_def)
  also have "\<dots> = card (p_key ` set ps) * 2" by (simp add: card_cartesian_product)
  also have "card (p_key ` set ps) \<le> length ps" by (meson card_image_le card_length finite_set le_trans)
  finally show ?thesis by simp
qed

text \<open>Soundness: a visit the memo holds as covered is covered.\<close>

definition memo_sound :: "(pipeline \<Rightarrow> bool \<Rightarrow> bool) \<Rightarrow> pipeline list \<Rightarrow> visits \<Rightarrow> bool" where
  "memo_sound C ps m \<longleftrightarrow> (\<forall>q \<in> set ps. \<forall>c. m (p_key q, c) = Some True \<longrightarrow> C q c)"

definition walker_sound ::
  "(pipeline \<Rightarrow> bool \<Rightarrow> bool) \<Rightarrow> pipeline list \<Rightarrow>
   (pipeline \<Rightarrow> bool \<Rightarrow> visits \<Rightarrow> (bool \<times> visits) option) \<Rightarrow> bool" where
  "walker_sound C ps w \<longleftrightarrow>
     (\<forall>q c m b m'. q \<in> set ps \<longrightarrow> memo_sound C ps m \<longrightarrow> w q c m = Some (b, m') \<longrightarrow>
        memo_sound C ps m' \<and> (b \<longrightarrow> C q c))"

lemma walker_soundD:
  "walker_sound C ps w \<Longrightarrow> q \<in> set ps \<Longrightarrow> memo_sound C ps m \<Longrightarrow> w q c m = Some (b, m') \<Longrightarrow>
     memo_sound C ps m' \<and> (b \<longrightarrow> C q c)"
  unfolding walker_sound_def by blast

lemma all_producers_sound:
  assumes "walker_sound C ps w"
  shows "set qs \<subseteq> set ps \<Longrightarrow> memo_sound C ps m \<Longrightarrow> all_producers w sig c m qs = Some (b, m') \<Longrightarrow>
     memo_sound C ps m' \<and> (b \<longrightarrow> (\<forall>q \<in> set qs. p_signal q = sig \<and> C q c))"
proof (induction qs arbitrary: m)
  case (Cons q qs)
  show ?case
  proof (cases "p_signal q = sig")
    case True
    then obtain ok m1 where w: "w q c m = Some (ok, m1)"
      using Cons.prems(3) by (cases "w q c m") auto
    then have "memo_sound C ps m1 \<and> (ok \<longrightarrow> C q c)"
      using walker_soundD [OF assms, of q m c ok m1] Cons.prems by simp
    then show ?thesis using Cons.IH [of m1] Cons.prems w True by (cases ok) auto
  qed (use Cons.prems in auto)
qed simp

abbreviation receiver_covered ::
  "index \<Rightarrow> string list \<Rightarrow> (pipeline \<Rightarrow> bool \<Rightarrow> bool) \<Rightarrow> signal \<Rightarrow> bool \<Rightarrow> cref \<Rightarrow> bool" where
  "receiver_covered idx connectors C sig c' r \<equiv>
     \<exists>d. resolve_ref idx Receiver (r_id r) = Some d \<and>
       (c_kind d = Receiver \<and> c' \<or>
        c_kind d = Connector \<and> id_type (c_id d) \<in> set connectors \<and>
        ix_as_exporter idx (c_id d) \<noteq> [] \<and>
        (\<forall>q \<in> set (ix_as_exporter idx (c_id d)). p_signal q = sig \<and> C q c'))"

lemma all_receivers_sound:
  assumes "walker_sound C ps w" "producers_listed idx ps"
  shows "memo_sound C ps m \<Longrightarrow> all_receivers w idx connectors sig c m rs = Some (b, m') \<Longrightarrow>
     memo_sound C ps m' \<and> (b \<longrightarrow> (\<forall>r \<in> set rs. receiver_covered idx connectors C sig c r))"
proof (induction rs arbitrary: m)
  case (Cons r rs)
  show ?case
  proof (cases "resolve_ref idx Receiver (r_id r)")
    case None
    then show ?thesis using Cons.prems by simp
  next
    case (Some d)
    consider (own) "c_kind d = Receiver \<and> c"
      | (stop) "\<not> (c_kind d = Receiver \<and> c)"
          "c_kind d \<noteq> Connector \<or> id_type (c_id d) \<notin> set connectors \<or> ix_as_exporter idx (c_id d) = []"
      | (conn) "c_kind d = Connector" "id_type (c_id d) \<in> set connectors" "ix_as_exporter idx (c_id d) \<noteq> []"
      by blast
    then show ?thesis
    proof cases
      case own
      then show ?thesis using Cons Some by simp
    next
      case stop
      have "all_receivers w idx connectors sig c m (r # rs) = Some (False, m)"
        using Some stop by (auto simp: connector_pipelines_def)
      then show ?thesis using Cons.prems by simp
    next
      case conn
      let ?qs = "ix_as_exporter idx (c_id d)"
      obtain ok m1 where p: "all_producers w sig c m ?qs = Some (ok, m1)"
        using Cons.prems(2) Some conn
        by (cases "all_producers w sig c m ?qs") (auto simp: connector_pipelines_def)
      have ps: "set ?qs \<subseteq> set ps" using assms(2) by (simp add: producers_listed_def)
      have s: "memo_sound C ps m1 \<and> (ok \<longrightarrow> (\<forall>q \<in> set ?qs. p_signal q = sig \<and> C q c))"
        by (rule all_producers_sound [OF assms(1) ps Cons.prems(1) p])
      show ?thesis
      proof (cases ok)
        case True
        then have "all_receivers w idx connectors sig c m1 rs = Some (b, m')"
          using Cons.prems(2) Some conn p by (simp add: connector_pipelines_def)
        then show ?thesis using Cons.IH [of m1] s True Some conn by auto
      next
        case False
        then show ?thesis using Cons.prems(2) Some conn p s by (simp add: connector_pipelines_def)
      qed
    qed
  qed
qed simp

lemma walk_sound:
  assumes "producers_listed idx ps" "inj_on p_key (set ps)"
  shows "walker_sound (covered idx types connectors) ps (walk_upstream n idx types connectors)"
proof (induction n)
  case 0
  show ?case by (simp add: walker_sound_def)
next
  case (Suc n)
  let ?C = "covered idx types connectors"
  show ?case
    unfolding walker_sound_def
  proof (intro allI impI)
    fix q c m b m'
    assume q: "q \<in> set ps" and m: "memo_sound ?C ps m"
      and w: "walk_upstream (Suc n) idx types connectors q c m = Some (b, m')"
    show "memo_sound ?C ps m' \<and> (b \<longrightarrow> ?C q c)"
    proof (cases "m (p_key q, c)")
      case (Some result)
      then show ?thesis using m w q by (auto simp: memo_sound_def)
    next
      case None
      let ?m = "m((p_key q, c) := Some False)" and ?c = "c \<or> has_processor idx q types"
      have m1: "memo_sound ?C ps ?m" using m by (auto simp: memo_sound_def)
      show ?thesis
      proof (cases "p_receivers q = [] \<or> is_expansion (p_receivers_node q)")
        case True
        then show ?thesis using None w m1 by (auto simp: Let_def)
      next
        case False
        obtain ok m2 where a: "all_receivers (walk_upstream n idx types connectors) idx connectors (p_signal q)
            ?c ?m (p_receivers q) = Some (ok, m2)"
          using None False w by (auto simp: Let_def split: option.splits)
        have s: "memo_sound ?C ps m2 \<and>
            (ok \<longrightarrow> (\<forall>r \<in> set (p_receivers q). receiver_covered idx connectors ?C (p_signal q) ?c r))"
          by (rule all_receivers_sound [OF Suc assms(1) m1 a])
        have bm: "(b, m') = (if ok then (True, m2((p_key q, c) := Some True)) else (False, m2))"
          using None False w a by (simp add: Let_def split: if_splits)
        show ?thesis
        proof (cases ok)
          case True
          have "?C q c"
            by (rule covered_pipeline [where c' = ?c]) (use False s True in blast)+
          moreover have "memo_sound ?C ps (m2((p_key q, c) := Some True))"
            using s \<open>?C q c\<close> assms(2) q by (auto simp: memo_sound_def inj_on_def)
          ultimately show ?thesis using bm True by simp
        qed (use bm s in simp)
      qed
    qed
  qed
qed

text \<open>
  Completeness: from a covered visit, no visit in progress is waited for again, so the walk answers
  true and leaves no visit behind that is marked false.
\<close>

definition pending :: "pipeline list \<Rightarrow> visits \<Rightarrow> (pipeline \<times> bool) set" where
  "pending ps m = {(q, c). q \<in> set ps \<and> m (p_key q, c) = Some False}"

definition answers_true ::
  "pipeline list \<Rightarrow> (pipeline \<Rightarrow> bool \<Rightarrow> visits \<Rightarrow> (bool \<times> visits) option) \<Rightarrow> (pipeline \<times> bool) set \<Rightarrow>
   pipeline \<Rightarrow> bool \<Rightarrow> bool" where
  "answers_true ps w N q c \<longleftrightarrow>
     (\<forall>m b m'. pending ps m \<subseteq> N \<longrightarrow> w q c m = Some (b, m') \<longrightarrow> b \<and> pending ps m' \<subseteq> pending ps m)"

lemma answers_trueD:
  "answers_true ps w N q c \<Longrightarrow> pending ps m \<subseteq> N \<Longrightarrow> w q c m = Some (b, m') \<Longrightarrow>
     b \<and> pending ps m' \<subseteq> pending ps m"
  unfolding answers_true_def by blast

lemma all_producers_complete:
  "\<forall>q \<in> set qs. p_signal q = sig \<and> answers_true ps w N q c \<Longrightarrow> pending ps m \<subseteq> N \<Longrightarrow>
   all_producers w sig c m qs = Some (b, m') \<Longrightarrow> b \<and> pending ps m' \<subseteq> pending ps m"
proof (induction qs arbitrary: m)
  case (Cons q qs)
  obtain ok m1 where w: "w q c m = Some (ok, m1)"
    using Cons.prems by (cases "w q c m") auto
  have q: "ok \<and> pending ps m1 \<subseteq> pending ps m"
    using answers_trueD [of ps w N q c m ok m1] Cons.prems w by simp
  then show ?case using Cons.IH [of m1] Cons.prems w by auto
qed simp

lemma all_receivers_complete:
  "\<forall>r \<in> set rs. receiver_covered idx connectors (answers_true ps w N) sig c r \<Longrightarrow> pending ps m \<subseteq> N \<Longrightarrow>
   all_receivers w idx connectors sig c m rs = Some (b, m') \<Longrightarrow> b \<and> pending ps m' \<subseteq> pending ps m"
proof (induction rs arbitrary: m)
  case (Cons r rs)
  obtain d where d: "resolve_ref idx Receiver (r_id r) = Some d"
    and k: "c_kind d = Receiver \<and> c \<or>
        c_kind d = Connector \<and> id_type (c_id d) \<in> set connectors \<and>
        ix_as_exporter idx (c_id d) \<noteq> [] \<and>
        (\<forall>q \<in> set (ix_as_exporter idx (c_id d)). p_signal q = sig \<and> answers_true ps w N q c)"
    using Cons.prems(1) by auto
  show ?case
  proof (cases "c_kind d = Receiver")
    case True
    then have "all_receivers w idx connectors sig c m rs = Some (b, m')" using Cons.prems(3) d k by simp
    then show ?thesis using Cons.IH [OF _ Cons.prems(2)] Cons.prems(1) by simp
  next
    case False
    let ?qs = "ix_as_exporter idx (c_id d)"
    obtain ok m1 where p: "all_producers w sig c m ?qs = Some (ok, m1)"
      using Cons.prems(3) d k False
      by (cases "all_producers w sig c m ?qs") (auto simp: connector_pipelines_def)
    have a: "ok \<and> pending ps m1 \<subseteq> pending ps m"
      using all_producers_complete [OF _ Cons.prems(2) p] k False by simp
    then have "all_receivers w idx connectors sig c m1 rs = Some (b, m')"
      using Cons.prems(3) d k False p by (simp add: connector_pipelines_def)
    moreover have "pending ps m1 \<subseteq> N" using a Cons.prems(2) by blast
    ultimately have "b \<and> pending ps m' \<subseteq> pending ps m1" using Cons.IH [of m1] Cons.prems(1) by simp
    then show ?thesis using a by blast
  qed
qed simp

lemma walk_complete:
  assumes "producers_listed idx ps" "inj_on p_key (set ps)"
  shows "covered idx types connectors p c \<Longrightarrow> p \<in> set ps \<Longrightarrow>
    \<forall>v \<in> pending ps m. ((p, c), v) \<notin> (waits_for idx types connectors)\<^sup>* \<Longrightarrow>
    walk_upstream n idx types connectors p c m = Some (b, m') \<Longrightarrow>
    b \<and> pending ps m' \<subseteq> pending ps m"
proof (induction arbitrary: n m b m' rule: covered.induct)
  case (covered_pipeline p c' c)
  let ?R = "waits_for idx types connectors"
  let ?w = "\<lambda>n. walk_upstream n idx types connectors"
  have cov: "covered idx types connectors p c"
    by (rule covered.covered_pipeline [OF covered_pipeline(1-3)]) (use covered_pipeline(4) in blast)
  have IH: "\<forall>n m b m'. q \<in> set ps \<longrightarrow> (\<forall>v \<in> pending ps m. ((q, c'), v) \<notin> ?R\<^sup>*) \<longrightarrow>
      ?w n q c' m = Some (b, m') \<longrightarrow> b \<and> pending ps m' \<subseteq> pending ps m"
    if "r \<in> set (p_receivers p)" "resolve_ref idx Receiver (r_id r) = Some d" "c_kind d = Connector"
      "q \<in> set (ix_as_exporter idx (c_id d))" for r d q
    using covered_pipeline(4) [OF that(1)] that(2-4)
    by (elim exE conjE) (simp, blast)
  obtain k where n: "n = Suc k" using covered_pipeline.prems(3) by (cases n) auto
  show ?case
  proof (cases "m (p_key p, c)")
    case (Some result)
    have "(p, c) \<notin> pending ps m" using covered_pipeline.prems(2) by blast
    then have "result" using Some covered_pipeline.prems(1) by (simp add: pending_def)
    then show ?thesis using Some covered_pipeline.prems(3) n by simp
  next
    case None
    let ?m = "m((p_key p, c) := Some False)"
    have m1: "pending ps ?m \<subseteq> insert (p, c) (pending ps m)"
      using assms(2) covered_pipeline.prems(1) by (auto simp: pending_def inj_on_def split: if_splits)
    have ans: "answers_true ps (?w k) (pending ps ?m) q c'"
      if r: "r \<in> set (p_receivers p)" and d: "resolve_ref idx Receiver (r_id r) = Some d"
        "c_kind d = Connector" "q \<in> set (ix_as_exporter idx (c_id d))" for r d q
      unfolding answers_true_def
    proof (intro allI impI)
      fix m1 b1 m1' assume sub: "pending ps m1 \<subseteq> pending ps ?m" and w: "?w k q c' m1 = Some (b1, m1')"
      have edge: "((p, c), (q, c')) \<in> ?R" using r d covered_pipeline(3) by (auto simp: waits_for_def)
      have "((q, c'), v) \<notin> ?R\<^sup>*" if v: "v \<in> pending ps m1" for v
      proof
        assume reach: "((q, c'), v) \<in> ?R\<^sup>*"
        then have "((p, c), v) \<in> ?R\<^sup>+" using edge by (rule rtrancl_into_trancl2 [rotated])
        then have "v \<noteq> (p, c)" "((p, c), v) \<in> ?R\<^sup>*"
          using covered_acyclic [OF cov] trancl_into_rtrancl by metis+
        moreover have "v \<in> insert (p, c) (pending ps m)" using v sub m1 by (meson subsetD)
        ultimately show False using covered_pipeline.prems(2) by (metis insertE)
      qed
      moreover have "q \<in> set ps" using assms(1) d(3) by (auto simp: producers_listed_def)
      ultimately show "b1 \<and> pending ps m1' \<subseteq> pending ps m1"
        using w by (intro IH [OF r d, rule_format]) blast+
    qed
    have rc: "\<forall>r \<in> set (p_receivers p).
        receiver_covered idx connectors (answers_true ps (?w k) (pending ps ?m)) (p_signal p) c' r"
    proof
      fix r assume r: "r \<in> set (p_receivers p)"
      then show "receiver_covered idx connectors (answers_true ps (?w k) (pending ps ?m)) (p_signal p) c' r"
        using covered_pipeline(4) [OF r] ans [OF r] by (elim exE conjE) auto
    qed
    obtain ok m2 where a: "all_receivers (?w k) idx connectors (p_signal p) c' ?m (p_receivers p) = Some (ok, m2)"
      using covered_pipeline.prems(3) None n covered_pipeline(1-3)
      by (auto simp: Let_def split: option.splits)
    have ok: "ok \<and> pending ps m2 \<subseteq> pending ps ?m"
      by (rule all_receivers_complete [OF rc order_refl a])
    then have "b \<and> m' = m2((p_key p, c) := Some True)"
      using covered_pipeline.prems(3) None n covered_pipeline(1-3) a by (simp add: Let_def)
    moreover have "pending ps (m2((p_key p, c) := Some True)) \<subseteq> pending ps m"
      using ok m1 by (auto simp: pending_def split: if_splits)
    ultimately show ?thesis by blast
  qed
qed

lemma new_index_producers: "producers_listed (new_index f sch) (svc_pipelines (f_service f))"
  using new_index_facts [of f sch Exporter]
  by (auto simp: producers_listed_def connector_pipelines_def wired_def)

lemma upstream_fuel_enough:
  "card (unvisited (svc_pipelines (f_service f)) m) < upstream_fuel (new_index f sch)"
  using unvisited_bound [of "svc_pipelines (f_service f)" m] by (simp add: upstream_fuel_def)

lemma upstream_covered_facts:
  assumes "distinct (map p_key (svc_pipelines (f_service f)))" "p \<in> set (svc_pipelines (f_service f))"
  shows "(\<exists>ok m. walk_upstream (upstream_fuel (new_index f sch)) (new_index f sch) types connectors p False
             (\<lambda>_. None) = Some (ok, m)) \<and>
    (upstream_covered (new_index f sch) p types connectors \<longleftrightarrow>
       \<not> has_dynamic_refs (new_index f sch) Exporter \<and>
       covered (new_index f sch) types connectors p False)"
proof -
  let ?idx = "new_index f sch" and ?ps = "svc_pipelines (f_service f)"
  let ?walk = "walk_upstream (upstream_fuel ?idx) ?idx types connectors p False (\<lambda>_. None)"
  have inj: "inj_on p_key (set ?ps)" using assms(1) by (simp add: distinct_map)
  have "grows (\<lambda>_. None) ?walk"
    using walk_returns [OF new_index_producers] assms(2) upstream_fuel_enough
    by (simp add: returns_within_def)
  then obtain ok m where w: "?walk = Some (ok, m)" by (rule growsE)
  have "ok \<Longrightarrow> covered ?idx types connectors p False"
    using walker_soundD [OF walk_sound [OF new_index_producers inj] assms(2) _ w]
    by (simp add: memo_sound_def)
  moreover have "covered ?idx types connectors p False \<Longrightarrow> ok"
    using walk_complete [OF new_index_producers inj _ assms(2) _ w] by (simp add: pending_def)
  ultimately show ?thesis using w by (auto simp: upstream_covered_def)
qed

text \<open>
  C5: when the pipelines of a config have distinct keys, the walk always returns, and \<open>UpstreamCovered\<close>
  holds exactly when no exporter reference is left to a provider and every way data enters the
  pipeline passes a processor of a given type: through receivers of the collector's own, and through
  allowed connectors whose producers all carry the same signal and are covered themselves. A cycle
  of connectors, an unknown reference or a connector without producers is never covered.
\<close>

theorem upstream_covered_correct:
  assumes "distinct (map p_key (svc_pipelines (f_service f)))" "p \<in> set (svc_pipelines (f_service f))"
  shows "(\<exists>ok m. walk_upstream (upstream_fuel (new_index f sch)) (new_index f sch) types connectors p False
             (\<lambda>_. None) = Some (ok, m)) \<and>
    (upstream_covered (new_index f sch) p types connectors \<longleftrightarrow>
       \<not> has_dynamic_refs (new_index f sch) Exporter \<and>
       covered (new_index f sch) types connectors p False)"
  using upstream_covered_facts [OF assms] .

text \<open>One pipeline that limits memory and hands its data to a second through a connector.\<close>

definition demo_ref :: "string \<Rightarrow> cref" where
  "demo_ref s = \<lparr>r_id = parse_id s, r_node = y_str s, r_path = []\<rparr>"

definition demo_pipe :: "string \<Rightarrow> string list \<Rightarrow> string list \<Rightarrow> string list \<Rightarrow> pipeline" where
  "demo_pipe key rs ps es =
     \<lparr>p_key = key, p_signal = id_type (parse_id key), p_name = id_name (parse_id key), p_key_node = y_str key,
      p_node = y_map [], p_receivers = map demo_ref rs, p_processors = map demo_ref ps,
      p_exporters = map demo_ref es, p_receivers_node = None, p_processors_node = None,
      p_exporters_node = None, p_unknown = []\<rparr>"

definition demo_sect :: "kind \<Rightarrow> string list \<Rightarrow> sect" where
  "demo_sect k names =
     \<lparr>sec_kind = k, sec_key_node = y_str [], sec_node = y_map [],
      sec_components = map (\<lambda>s. \<lparr>c_id = parse_id s, c_kind = k, c_key_node = y_str s, c_value_node = y_null\<rparr>)
        names\<rparr>"

definition demo_file :: cfile where
  "demo_file = (empty_file ''c'')\<lparr>
     f_sections := (\<lambda>_. None)(Receiver := Some (demo_sect Receiver [''a'']),
       Processor := Some (demo_sect Processor [''m'']), Connector := Some (demo_sect Connector [''f'', ''g'']),
       Exporter := Some (demo_sect Exporter [''d''])),
     f_service := empty_service\<lparr>svc_pipelines :=
       [demo_pipe ''logs/1'' [''a''] [''m''] [''f''], demo_pipe ''logs/2'' [''f''] [] [''d''],
        demo_pipe ''logs/3'' [''g''] [] [''g'']]\<rparr>\<rparr>"

lemma upstream_covered_correct_witness:
  "upstream_covered (new_index demo_file None) (demo_pipe ''logs/2'' [''f''] [] [''d'']) [''m''] [''f''] \<and>
   covered (new_index demo_file None) [''m''] [''f''] (demo_pipe ''logs/2'' [''f''] [] [''d'']) False \<and>
   \<not> covered (new_index demo_file None) [''m''] [''g''] (demo_pipe ''logs/3'' [''g''] [] [''g'']) False"
proof -
  let ?p = "demo_pipe ''logs/2'' [''f''] [] [''d'']" and ?q = "demo_pipe ''logs/3'' [''g''] [] [''g'']"
  have d: "distinct (map p_key (svc_pipelines (f_service demo_file)))"
    "?p \<in> set (svc_pipelines (f_service demo_file))" "?q \<in> set (svc_pipelines (f_service demo_file))"
    by (simp_all add: demo_file_def demo_pipe_def)
  have "upstream_covered (new_index demo_file None) ?p [''m''] [''f'']" by code_simp
  moreover have "\<not> upstream_covered (new_index demo_file None) ?q [''m''] [''g'']" by code_simp
  moreover have "\<not> has_dynamic_refs (new_index demo_file None) Exporter" by code_simp
  ultimately show ?thesis
    using upstream_covered_correct [OF d(1,2), where types = "[''m'']" and connectors = "[''f'']" and sch = None]
      upstream_covered_correct [OF d(1,3), where types = "[''m'']" and connectors = "[''g'']" and sch = None]
    by blast
qed

end
