(* ===== verification/Durations.thy ===== *)
theory Durations
  imports Quantity
begin

section \<open>Durations in text\<close>

text \<open>
  \<open>time.ParseDuration\<close> and \<open>Duration.String\<close> of the Go library, as the rules that read and quote
  durations use them. A duration is a number of nanoseconds. Fractions go through \<open>float64\<close>, with the
  rounding of theory \<open>Quantity\<close>; a failed parse is \<^term>\<open>None\<close>.
\<close>

definition duration_units :: "(string \<times> int) list" where
  "duration_units =
     [(''ns'', 1), (''us'', 10 ^ 3), ([CHR 0xC2, CHR 0xB5, CHR ''s''], 10 ^ 3),
      ([CHR 0xCE, CHR 0xBC, CHR ''s''], 10 ^ 3), (''ms'', 10 ^ 6), (''s'', 10 ^ 9),
      (''m'', 60 * 10 ^ 9), (''h'', 3600 * 10 ^ 9)]"

text \<open>\<open>leadingInt\<close>: the number and what follows it, \<^term>\<open>None\<close> when it passes \<open>1 << 63\<close>.\<close>

fun leading_int :: "int \<Rightarrow> string \<Rightarrow> (int \<times> string) option" where
  "leading_int x [] = Some (x, [])"
| "leading_int x (c # cs) =
     (if \<not> is_digit c then Some (x, c # cs)
      else if 2 ^ 63 div 10 < x then None
      else let y = x * 10 + (of_char c - 48) in if 2 ^ 63 < y then None else leading_int y cs)"

text \<open>\<open>leadingFraction\<close>: digits that no longer fit are read and ignored.\<close>

fun leading_fraction :: "int \<Rightarrow> int \<Rightarrow> bool \<Rightarrow> string \<Rightarrow> int \<times> int \<times> string" where
  "leading_fraction x scale ov [] = (x, scale, [])"
| "leading_fraction x scale ov (c # cs) =
     (if \<not> is_digit c then (x, scale, c # cs)
      else if ov \<or> (2 ^ 63 - 1) div 10 < x then leading_fraction x scale True cs
      else let y = x * 10 + (of_char c - 48) in
        if 2 ^ 63 < y then leading_fraction x scale True cs
        else leading_fraction y (scale * 10) False cs)"

definition fraction_ns :: "int \<Rightarrow> int \<Rightarrow> int \<Rightarrow> int" where
  "fraction_ns f scale unit =
     (case (round_f64 (of_int f), round_f64 (of_int unit / of_int scale)) of
        (Some a, Some b) \<Rightarrow> (case round_f64 (a * b) of Some p \<Rightarrow> \<lfloor>p\<rfloor> | None \<Rightarrow> 0)
      | _ \<Rightarrow> 0)"

lemma leading_int_suffix: "leading_int x s = Some (v, r) \<Longrightarrow> length r \<le> length s"
  by (induction x s rule: leading_int.induct) (force simp: Let_def split: if_splits)+

lemma leading_fraction_suffix: "leading_fraction x sc ov s = (f, sc', r) \<Longrightarrow> length r \<le> length s"
  by (induction x sc ov s rule: leading_fraction.induct) (force simp: Let_def split: if_splits)+

text \<open>The unit after a number, and the nanoseconds of both, with the rest of the text.\<close>

definition unit_term :: "int \<Rightarrow> int \<Rightarrow> int \<Rightarrow> string \<Rightarrow> (int \<times> string) option" where
  "unit_term v f scale s =
     (let u = takeWhile (\<lambda>c. c \<noteq> CHR ''.'' \<and> \<not> is_digit c) s in
      case map_of duration_units u of
        None \<Rightarrow> None
      | Some unit \<Rightarrow>
          if 2 ^ 63 div unit < v then None
          else let w = v * unit + (if 0 < f then fraction_ns f scale unit else 0) in
            if 2 ^ 63 < w then None else Some (w, drop (length u) s))"

definition fraction_part :: "string \<Rightarrow> int \<times> int \<times> string \<times> bool" where
  "fraction_part s =
     (if s \<noteq> [] \<and> hd s = CHR ''.'' then
        (case leading_fraction 0 1 False (tl s) of (f, scale, r) \<Rightarrow> (f, scale, r, length r \<noteq> length (tl s)))
      else (0, 1, s, False))"

definition duration_term :: "string \<Rightarrow> (int \<times> string) option" where
  "duration_term s =
     (if s = [] \<or> \<not> (hd s = CHR ''.'' \<or> is_digit (hd s)) then None
      else (case leading_int 0 s of
        None \<Rightarrow> None
      | Some (v, s1) \<Rightarrow>
          (case fraction_part s1 of (f, scale, s2, post) \<Rightarrow>
             if length s1 = length s \<and> \<not> post then None else unit_term v f scale s2)))"

lemma unit_term_rest:
  assumes "unit_term v f scale s = Some (w, rest)"
  shows "length rest < length s \<and> w \<le> 2 ^ 63"
proof -
  let ?u = "takeWhile (\<lambda>c. c \<noteq> CHR ''.'' \<and> \<not> is_digit c) s"
  obtain unit where "map_of duration_units ?u = Some unit" "rest = drop (length ?u) s" "w \<le> 2 ^ 63"
    using assms by (auto simp: unit_term_def Let_def split: option.splits if_splits)
  moreover from this have "?u \<noteq> []" by (auto simp: duration_units_def)
  moreover have "s \<noteq> []" using \<open>?u \<noteq> []\<close> by auto
  ultimately show ?thesis by simp
qed

lemma fraction_part_rest: "fraction_part s = (f, scale, r, post) \<Longrightarrow> length r \<le> length s"
  by (auto simp: fraction_part_def dest: leading_fraction_suffix split: if_splits prod.splits)

lemma duration_term_rest:
  assumes "duration_term s = Some (w, rest)"
  shows "length rest < length s \<and> w \<le> 2 ^ 63"
proof -
  obtain v s1 where l: "leading_int 0 s = Some (v, s1)"
    using assms by (auto simp: duration_term_def split: if_splits option.splits)
  obtain f scale s2 post where p: "fraction_part s1 = (f, scale, s2, post)" by (cases "fraction_part s1")
  have "unit_term v f scale s2 = Some (w, rest)"
    using assms l p by (simp add: duration_term_def split: if_splits)
  then show ?thesis
    using unit_term_rest fraction_part_rest [OF p] leading_int_suffix [OF l] by fastforce
qed

function duration_sum :: "int \<Rightarrow> string \<Rightarrow> int option" where
  "duration_sum d s =
     (if s = [] then Some d
      else (case duration_term s of
              None \<Rightarrow> None
            | Some (w, rest) \<Rightarrow> if 2 ^ 63 < d + w then None else duration_sum (d + w) rest))"
  by pat_completeness auto
termination
  by (relation "measure (\<lambda>(_, s). length s)") (auto dest: duration_term_rest)

declare duration_sum.simps [simp del]

definition parse_duration :: "string \<Rightarrow> int option" where
  "parse_duration s0 =
     (let neg = (s0 \<noteq> [] \<and> hd s0 = CHR ''-'');
          s = (if s0 \<noteq> [] \<and> (hd s0 = CHR ''-'' \<or> hd s0 = CHR ''+'') then tl s0 else s0)
      in if s = ''0'' then Some 0
         else if s = [] then None
         else (case duration_sum 0 s of
                 None \<Rightarrow> None
               | Some d \<Rightarrow> if neg then Some (- d) else if max_int64 < d then None else Some d))"

subsection \<open>Duration.String\<close>

fun strip_zeros :: "string \<Rightarrow> string" where
  "strip_zeros s = rev (dropWhile (\<lambda>c. c = CHR ''0'') (rev s))"

definition frac_text :: "int \<Rightarrow> nat \<Rightarrow> string" where
  "frac_text u prec =
     (let d = show_digits (u mod 10 ^ prec);
          s = strip_zeros (replicate (prec - length d) (CHR ''0'') @ d)
      in if s = [] then [] else CHR ''.'' # s)"

definition duration_string :: "int \<Rightarrow> string" where
  "duration_string d =
     (let u = \<bar>d\<bar>;
          body =
            (if u = 0 then ''0s''
             else if u < 10 ^ 3 then show_digits u @ ''ns''
             else if u < 10 ^ 6 then show_digits (u div 10 ^ 3) @ frac_text u 3 @ [CHR 0xC2, CHR 0xB5, CHR ''s'']
             else if u < 10 ^ 9 then show_digits (u div 10 ^ 6) @ frac_text u 6 @ ''ms''
             else
               (let secs = u div 10 ^ 9; mins = secs div 60; hours = mins div 60
                in (if 0 < hours then show_digits hours @ ''h'' else []) @
                   (if 0 < mins then show_digits (mins mod 60) @ ''m'' else []) @
                   show_digits (secs mod 60) @ frac_text u 9 @ ''s''))
      in if d < 0 then CHR ''-'' # body else body)"

lemma duration_sum_range: "duration_sum d s = Some n \<Longrightarrow> d \<le> 2 ^ 63 \<Longrightarrow> n \<le> 2 ^ 63"
proof (induction d s rule: duration_sum.induct)
  case (1 d s)
  then show ?case
    by (auto simp: duration_sum.simps [of d s] split: if_splits option.splits prod.splits)
qed

end
