(* ===== verification/Rule.thy ===== *)
theory Rule
  imports Upstream Durations
begin

section \<open>Rules, contexts and findings\<close>

text \<open>
  \<open>pkg/rule/rule.go\<close>, \<open>schema.go\<close>, \<open>setting.go\<close>, \<open>legacy.go\<close>, \<open>exporter.go\<close> and \<open>identifier.go\<close>: what
  a rule is, what it is given, and the readers rules share. \<open>Check\<close> returns the findings it reports,
  in order; \<open>run_rule\<close> turns them into diagnostics as \<open>Run\<close> and \<open>Context.Report\<close> do.

  The record \<open>go_lib\<close> holds what is not under \<open>src/\<close>: \<open>yaml.Node.Decode\<close> into an \<open>int64\<close>, a \<open>float64\<close>
  and a \<open>bool\<close> (\<^term>\<open>None\<close> when it fails), the printing of a float (\<open>strconv.FormatFloat\<close> of
  what \<open>strconv.ParseFloat\<close> reads), whose digits no rule looks at, and the Unicode tables: whether a
  text has a non-ASCII character of class Z, C or S.
\<close>

datatype go_float = Finite rat | PosInf | NegInf | NaN

record go_lib =
  lib_decode_int :: "ynode \<Rightarrow> int option"
  lib_decode_float :: "ynode \<Rightarrow> go_float option"
  lib_decode_bool :: "ynode \<Rightarrow> bool option"
  lib_float_text :: "string \<Rightarrow> string option"
  lib_bad_runes :: "string \<Rightarrow> bool"

record environment =
  env_kubernetes :: bool
  env_host_network :: "bool option"
  env_memory_request :: int
  env_memory_limit :: int

definition no_environment :: environment where
  "no_environment = \<lparr>env_kubernetes = False, env_host_network = None, env_memory_request = 0,
     env_memory_limit = 0\<rparr>"

definition env_known :: "environment \<Rightarrow> bool" where
  "env_known e \<longleftrightarrow> env_kubernetes e \<and> (0 < env_memory_request e \<or> 0 < env_memory_limit e)"

record ctx =
  cx_file :: cfile
  cx_schema :: "schema option"
  cx_index :: index
  cx_avail :: "(kind \<Rightarrow> string \<Rightarrow> string list) option"
  cx_dists :: "(kind \<Rightarrow> string \<Rightarrow> string list) option"
  cx_strict :: bool
  cx_env :: environment
  cx_lib :: go_lib

record finding =
  fi_node :: "ynode option"
  fi_path :: string
  fi_message :: string
  fi_hint :: string
  fi_docs :: string
  fi_severity :: "severity option"

definition finding_at :: "ynode option \<Rightarrow> string \<Rightarrow> string \<Rightarrow> finding" where
  "finding_at n path message = \<lparr>fi_node = n, fi_path = path, fi_message = message, fi_hint = [],
     fi_docs = [], fi_severity = None\<rparr>"

type_synonym check = "ctx \<Rightarrow> finding list"

text \<open>\<open>WithSettings\<close> gives a new check for the same rule; a rule that takes no settings has none.\<close>

record rule =
  ru_name :: string
  ru_desc :: string
  ru_severity :: severity
  ru_check :: check
  ru_with_settings :: "(go_lib \<Rightarrow> ynode \<Rightarrow> check go_result) option"

definition new_rule :: "string \<Rightarrow> string \<Rightarrow> severity \<Rightarrow> check \<Rightarrow> rule" where
  "new_rule name desc sev check =
     \<lparr>ru_name = name, ru_desc = desc, ru_severity = sev, ru_check = check, ru_with_settings = None\<rparr>"

definition report :: "string \<Rightarrow> severity \<Rightarrow> cfile \<Rightarrow> finding \<Rightarrow> diagnostic" where
  "report name sev file f =
     \<lparr>d_rule = name,
      d_severity = (case fi_severity f of None \<Rightarrow> sev | Some s \<Rightarrow> if sev \<noteq> Off then s else sev),
      d_message = fi_message f, d_position = file_pos file (fi_node f), d_path = fi_path f,
      d_hint = fi_hint f, d_docs = fi_docs f\<rparr>"

definition run_rule :: "rule \<Rightarrow> ctx \<Rightarrow> severity \<Rightarrow> diagnostic list" where
  "run_rule r c sev =
     (if sev = Off then [] else map (report (ru_name r) sev (cx_file c)) (ru_check r c))"

definition is_signal :: "signal \<Rightarrow> bool" where
  "is_signal s \<longleftrightarrow> s \<in> set signals"

subsection \<open>configure.go: per-rule settings\<close>

definition err_no_settings :: string where "err_no_settings = ''rule takes no settings''"

definition configure_rule :: "go_lib \<Rightarrow> (string \<times> ynode) list \<Rightarrow> rule \<Rightarrow> rule go_result" where
  "configure_rule lib settings r =
     (case map_of settings (ru_name r) of
        None \<Rightarrow> Inr r
      | Some node \<Rightarrow>
          (case ru_with_settings r of
             None \<Rightarrow> Inl (ru_name r @ '': '' @ err_no_settings)
           | Some conf \<Rightarrow>
               (case conf lib node of
                  Inl e \<Rightarrow> Inl (ru_name r @ '': '' @ e)
                | Inr check \<Rightarrow> Inr (r\<lparr>ru_check := check\<rparr>))))"

fun configure_rules :: "go_lib \<Rightarrow> (string \<times> ynode) list \<Rightarrow> rule list \<Rightarrow> rule list go_result" where
  "configure_rules lib settings [] = Inr []"
| "configure_rules lib settings (r # rs) =
     (case configure_rule lib settings r of
        Inl e \<Rightarrow> Inl e
      | Inr r' \<Rightarrow>
          (case configure_rules lib settings rs of Inl e \<Rightarrow> Inl e | Inr rs' \<Rightarrow> Inr (r' # rs')))"

definition configure :: "go_lib \<Rightarrow> rule list \<Rightarrow> (string \<times> ynode) list \<Rightarrow> rule list go_result" where
  "configure lib rules settings = (if settings = [] then Inr rules else configure_rules lib settings rules)"

subsection \<open>schema.go: the targeted release\<close>

definition schema_ready :: "ctx \<Rightarrow> bool" where
  "schema_ready c \<longleftrightarrow> (case cx_schema c of None \<Rightarrow> False | Some s \<Rightarrow> 0 < schema_count s)"

definition ctx_lookup :: "ctx \<Rightarrow> kind \<Rightarrow> string \<Rightarrow> scomp option" where
  "ctx_lookup c k typ = (case cx_schema c of None \<Rightarrow> None | Some s \<Rightarrow> lookup s k typ)"

definition ctx_version :: "ctx \<Rightarrow> string" where
  "ctx_version c =
     (case cx_schema c of
        None \<Rightarrow> ''the targeted release''
      | Some s \<Rightarrow>
          if sch_collector_version s = [] then ''the targeted release''
          else if sch_distribution s \<noteq> [] then
            ''collector '' @ sch_collector_version s @ '' ('' @ sch_distribution s @ '')''
          else ''collector '' @ sch_collector_version s)"

definition section_components :: "cfile \<Rightarrow> kind \<Rightarrow> comp list" where
  "section_components f k = (case f_sections f k of None \<Rightarrow> [] | Some s \<Rightarrow> sec_components s)"

definition each_used_component :: "ctx \<Rightarrow> (comp \<Rightarrow> scomp \<Rightarrow> 'a list) \<Rightarrow> 'a list" where
  "each_used_component c visit =
     concat (map (\<lambda>k. concat (map (\<lambda>d.
        if \<not> used (cx_index c) k (c_id d) then []
        else (case ctx_lookup c k (id_type (c_id d)) of None \<Rightarrow> [] | Some sc \<Rightarrow> visit d sc))
       (section_components (cx_file c) k))) kinds)"

definition declared_ids :: "ctx \<Rightarrow> kind \<Rightarrow> string list" where
  "declared_ids c k = map (\<lambda>d. id_string (c_id d)) (section_components (cx_file c) k)"

definition misplaced_hint :: "ctx \<Rightarrow> cid \<Rightarrow> kind \<Rightarrow> string" where
  "misplaced_hint c i want =
     (let fallback =
        (if 0 < length (declared_ids c want) then
           ''declared '' @ section_key want @ '': '' @ list_names (declared_ids c want) @
             suggest (id_string i) (declared_ids c want)
         else ''no '' @ section_key want @ '' are declared in this config'')
      in case kind_of (cx_index c) i of
           Some k \<Rightarrow>
             if k \<noteq> want then
               quote (id_string i) @ '' is declared under '' @ section_key k @ ''; it cannot be used as '' @
                 article (kind_string want) @ '' '' @ kind_string want
             else fallback
         | None \<Rightarrow> fallback)"

subsection \<open>exporter.go\<close>

definition exporter_fields :: "ctx \<Rightarrow> string \<Rightarrow> field option" where
  "exporter_fields c typ =
     (if \<not> schema_ready c then None
      else (case ctx_lookup c Exporter typ of None \<Rightarrow> None | Some sc \<Rightarrow> sc_fields sc))"

definition described_exporter :: "ctx \<Rightarrow> string \<Rightarrow> bool" where
  "described_exporter c typ \<longleftrightarrow>
     (case exporter_fields c typ of
        None \<Rightarrow> False | Some f \<Rightarrow> \<not> fd_open f \<and> 0 < length (fd_children f))"

definition accepts_queue :: "ctx \<Rightarrow> string \<Rightarrow> bool \<Rightarrow> bool" where
  "accepts_queue c typ written \<longleftrightarrow>
     (if \<not> described_exporter c typ then written
      else child_schema (exporter_fields c typ) sending_queue_key \<noteq> None)"

definition has_processor_type :: "pipeline \<Rightarrow> string \<Rightarrow> bool" where
  "has_processor_type p typ \<longleftrightarrow> list_ex (\<lambda>r. id_type (r_id r) = typ) (p_processors p)"

subsection \<open>setting.go\<close>

record setting =
  st_node :: "ynode option"
  st_present :: bool
  st_known :: bool
  st_num :: int

definition absent :: setting where
  "absent = \<lparr>st_node = None, st_present = False, st_known = False, st_num = 0\<rparr>"

definition trunc :: "rat \<Rightarrow> int" where
  "trunc x = (if 0 \<le> x then \<lfloor>x\<rfloor> else \<lceil>x\<rceil>)"

definition read_int :: "go_lib \<Rightarrow> ynode option \<Rightarrow> setting" where
  "read_int lib n0 =
     (case n0 of
        None \<Rightarrow> absent
      | Some n \<Rightarrow>
          (let out = \<lparr>st_node = Some n, st_present = True, st_known = is_null (Some n), st_num = 0\<rparr> in
           if st_known out \<or> n_kind n \<noteq> ScalarNode \<or> has_expansion (n_value n) then out
           else if n_tag n = int_tag then
             (case lib_decode_int lib n of None \<Rightarrow> out | Some i \<Rightarrow> out\<lparr>st_known := True, st_num := i\<rparr>)
           else if n_tag n = float_tag then
             (case lib_decode_float lib n of
                Some (Finite x) \<Rightarrow>
                  if of_int min_int64 \<le> x \<and> x < 2 ^ 63
                  then out\<lparr>st_known := True, st_num := trunc x\<rparr> else out
              | _ \<Rightarrow> out)
           else out))"

definition read_duration :: "go_lib \<Rightarrow> ynode option \<Rightarrow> setting" where
  "read_duration lib n0 =
     (case n0 of
        None \<Rightarrow> absent
      | Some n \<Rightarrow>
          (let out = \<lparr>st_node = Some n, st_present = True, st_known = is_null (Some n), st_num = 0\<rparr> in
           if st_known out \<or> n_kind n \<noteq> ScalarNode \<or> has_expansion (n_value n) then out
           else if n_tag n = int_tag \<or> n_tag n = float_tag then read_int lib n0
           else (case parse_duration (n_value n) of
                   None \<Rightarrow> out | Some d \<Rightarrow> out\<lparr>st_known := True, st_num := d\<rparr>)))"

definition positive :: "setting \<Rightarrow> bool" where
  "positive s \<longleftrightarrow> st_known s \<and> 0 < st_num s"

definition unknown :: "setting \<Rightarrow> bool" where
  "unknown s \<longleftrightarrow> st_present s \<and> \<not> st_known s"

definition processors_of_type :: "cfile \<Rightarrow> string \<Rightarrow> (comp \<Rightarrow> 'a) \<Rightarrow> 'a list" where
  "processors_of_type f typ read =
     concat (map (\<lambda>d. if id_type (c_id d) = typ \<and> \<not> is_expansion (Some (c_value_node d)) then [read d] else [])
       (section_components f Processor))"

definition negative_float :: "go_float option \<Rightarrow> bool" where
  "negative_float x \<longleftrightarrow> (case x of Some (Finite r) \<Rightarrow> r < 0 | Some NegInf \<Rightarrow> True | _ \<Rightarrow> False)"

definition invalid_uint32 :: "go_lib \<Rightarrow> setting \<Rightarrow> bool" where
  "invalid_uint32 lib s \<longleftrightarrow>
     (if \<not> st_known s then False
      else if st_num s < 0 \<or> max_uint32 < st_num s then True
      else (case st_node s of
          None \<Rightarrow> False
        | Some n \<Rightarrow>
            if n_tag n = str_tag then
              parse_uint0 max_uint32 (if n_value n = [] then ''0'' else n_value n) = None
            else if n_tag n = float_tag then negative_float (lib_decode_float lib n)
            else False))"

subsection \<open>identifier.go\<close>

definition max_identifier_name_bytes :: nat where "max_identifier_name_bytes = 1024"

definition is_letter :: "char \<Rightarrow> bool" where
  "is_letter ch \<longleftrightarrow> ident_start ch \<and> ch \<noteq> CHR ''_''"

text \<open>\<open>^[a-zA-Z][0-9a-zA-Z_]{0,62}$\<close>\<close>

definition identifier_type :: "string \<Rightarrow> bool" where
  "identifier_type s \<longleftrightarrow>
     (case s of [] \<Rightarrow> False | ch # cs \<Rightarrow> is_letter ch \<and> list_all ident_char cs \<and> length cs \<le> 62)"

text \<open>\<open>^[^\pZ\pC\pS]+$\<close>: of ASCII, the space, the control characters and the symbols are excluded.\<close>

definition bad_ascii :: "char \<Rightarrow> bool" where
  "bad_ascii ch \<longleftrightarrow> (of_char ch :: nat) \<le> 32 \<or> (of_char ch :: nat) = 127 \<or> ch \<in> set ''$+<=>^`|~''"

definition identifier_name :: "go_lib \<Rightarrow> string \<Rightarrow> bool" where
  "identifier_name lib s \<longleftrightarrow> s \<noteq> [] \<and> \<not> list_ex bad_ascii s \<and> \<not> lib_bad_runes lib s"

definition identifier_error :: "go_lib \<Rightarrow> string \<Rightarrow> string" where
  "identifier_error lib raw =
     (case cut raw ''/'' of (typ0, name0, has_name) \<Rightarrow>
       (let typ = trim_space typ0; name = trim_space name0 in
        if typ = [] then ''the type before / must not be empty''
        else if \<not> identifier_type typ then
          ''the type must be 1'' @ [CHR 0xE2, CHR 0x80, CHR 0x93] @
          ''63 ASCII letters, digits or underscores, starting with a letter''
        else if has_name \<and> name = [] then ''the name after / must not be empty''
        else if max_identifier_name_bytes < length name then ''the name must not exceed 1024 bytes''
        else if has_name \<and> \<not> identifier_name lib name then
          ''the name must not contain whitespace, control characters or Unicode symbols''
        else []))"

subsection \<open>legacy.go: quoted scalars under the release's decoder\<close>

definition type_map :: string where "type_map = ''map''"
definition type_list :: string where "type_list = ''list''"
definition type_int :: string where "type_int = ''int''"
definition type_float :: string where "type_float = ''float''"
definition type_bool :: string where "type_bool = ''bool''"

definition with_scalar :: "ynode \<Rightarrow> string \<Rightarrow> string \<Rightarrow> ynode" where
  "with_scalar n value tag =
     YNode (n_id n) (n_kind n) tag value (n_content n) (n_alias n) (n_line n) (n_column n)"

definition decode_quoted_scalar :: "go_lib \<Rightarrow> ynode \<Rightarrow> string \<Rightarrow> ynode" where
  "decode_quoted_scalar lib n typ =
     (if typ = type_int then
        (case parse_int0 (if n_value n = [] then ''0'' else n_value n) of
           None \<Rightarrow> n | Some i \<Rightarrow> with_scalar n (itoa i) int_tag)
      else if typ = type_float then
        (case lib_float_text lib (if n_value n = [] then ''0'' else n_value n) of
           None \<Rightarrow> n | Some t \<Rightarrow> with_scalar n t float_tag)
      else if typ = type_bool then
        (case parse_bool (if n_value n = [] then ''false'' else n_value n) of
           None \<Rightarrow> n | Some b \<Rightarrow> with_scalar n (if b then ''true'' else ''false'') bool_tag)
      else n)"

definition decode_scalar :: "ctx \<Rightarrow> ynode \<Rightarrow> string \<Rightarrow> ynode" where
  "decode_scalar c n typ =
     (if n_kind n \<noteq> ScalarNode \<or> n_tag n \<noteq> str_tag \<or> has_expansion (n_value n) \<or> cx_schema c = None then n
      else (case scalar_decoding (cx_schema c) of (weak, _, known) \<Rightarrow>
        if \<not> known \<or> \<not> weak then n else decode_quoted_scalar (cx_lib c) n typ))"

definition ctx_read_int :: "ctx \<Rightarrow> ynode option \<Rightarrow> setting" where
  "ctx_read_int c n =
     (read_int (cx_lib c) (map_option (\<lambda>m. decode_scalar c m type_int) n))\<lparr>st_node := n\<rparr>"

lemma read_int_range:
  assumes "\<And>n i. lib_decode_int lib n = Some i \<Longrightarrow> min_int64 \<le> i \<and> i \<le> max_int64"
  shows "min_int64 \<le> st_num (read_int lib n) \<and> st_num (read_int lib n) \<le> max_int64"
proof -
  have z: "min_int64 \<le> 0 \<and> 0 \<le> max_int64" by (simp add: min_int64_def max_int64_def)
  have t: "min_int64 \<le> trunc x \<and> trunc x \<le> max_int64" if "of_int min_int64 \<le> x" "x < 2 ^ 63" for x :: rat
  proof -
    have "\<lfloor>x\<rfloor> < 2 ^ 63" using that(2) by (simp add: floor_less_iff)
    moreover have "\<lceil>x\<rceil> \<le> 0" if "x < 0" using that by (simp add: ceiling_le_iff)
    moreover have "min_int64 \<le> \<lfloor>x\<rfloor>" using that(1) by (simp add: le_floor_iff)
    moreover have "min_int64 \<le> \<lceil>x\<rceil>" using \<open>min_int64 \<le> \<lfloor>x\<rfloor>\<close> floor_le_ceiling [of x] by linarith
    ultimately show ?thesis using z by (auto simp: trunc_def max_int64_def)
  qed
  show ?thesis
  proof (cases n)
    case (Some m)
    then show ?thesis
      using z t assms by (auto simp: read_int_def Let_def split: option.split go_float.split)
  qed (use z in \<open>simp add: read_int_def absent_def\<close>)
qed

end
