(* ===== verification/FieldWalker.thy ===== *)
theory FieldWalker
  imports Rule
begin

section \<open>Settings against their field schema\<close>

text \<open>
  \<open>pkg/rule/fieldwalker.go\<close> and the four rules built on it. The walk calls the rule back at each
  point; the model returns the calls in order, as events, and a rule hears the events its callback
  would get. A callback a rule leaves nil hears nothing, which is dropping its events.
\<close>

datatype field_event =
  Unknown string ynode string "string list"
| Required string ynode string
| Invalid ynode string string
| Deprecated string ynode string string
| Skipped string string

definition states_no_shape :: "field \<Rightarrow> bool" where
  "states_no_shape f \<longleftrightarrow> fd_type f = type_map \<and> fd_open f \<and> fd_children f = []"

definition matches_type :: "go_lib \<Rightarrow> field \<Rightarrow> ynode \<Rightarrow> bool" where
  "matches_type lib f n \<longleftrightarrow>
     (let t = fd_type f in
      if t = type_map then n_kind n = MappingNode
      else if t = type_list then n_kind n = SequenceNode
      else if t = ''string'' then n_kind n = ScalarNode \<and> n_tag n = str_tag
      else if t = type_bool then n_tag n = bool_tag
      else if t = type_int then
        n_tag n = int_tag \<or> n_tag n = float_tag \<and> st_known (read_int lib (Some n))
      else if t = type_float then n_tag n = float_tag \<or> n_tag n = int_tag
      else if t = ''duration'' then st_known (read_duration lib (Some n))
      else True)"

definition describe_type :: "field \<Rightarrow> string" where
  "describe_type f =
     (if fd_type f = ''duration'' then ''a duration such as 5s, 200ms or 1m30s''
      else if fd_type f = type_map then ''a mapping''
      else if fd_type f = type_list then ''a list''
      else ''a '' @ fd_type f)"

definition unknown_scalar :: "ctx \<Rightarrow> field \<Rightarrow> ynode \<Rightarrow> bool" where
  "unknown_scalar c f n \<longleftrightarrow>
     (if n_tag n \<noteq> str_tag then False
      else if fd_type f \<noteq> type_int \<and> fd_type f \<noteq> type_float \<and> fd_type f \<noteq> type_bool then False
      else \<not> snd (snd (scalar_decoding (cx_schema c))) \<and>
        matches_type (cx_lib c) f (decode_quoted_scalar (cx_lib c) n (fd_type f)))"

text \<open>The events of \<open>checkType\<close>, and whether it is safe to descend.\<close>

definition check_type :: "ctx \<Rightarrow> field \<Rightarrow> ynode \<Rightarrow> string \<Rightarrow> field_event list \<times> bool" where
  "check_type c f n path =
     (if fd_type f = [] \<or> states_no_shape f then ([], True)
      else if n_kind n = ScalarNode \<and> has_expansion (n_value n) then ([], False)
      else if unknown_scalar c f n then ([Skipped path ''unknown_decoder''], False)
      else if \<not> matches_type (cx_lib c) f (decode_scalar c n (fd_type f)) then
        ([Invalid n path (describe_type f)], False)
      else if 0 < length (fd_enum f) \<and> n_kind n = ScalarNode \<and> n_value n \<notin> set (fd_enum f) then
        ([Invalid n path (''one of '' @ list_names (fd_enum f))], False)
      else ([], True))"

definition check_required :: "field \<Rightarrow> string go_set \<Rightarrow> ynode \<Rightarrow> string \<Rightarrow> field_event list" where
  "check_required f present n path =
     map (\<lambda>req. Required req n (join_path path req)) (filter (\<lambda>req. \<not> set_has present req) (fd_required f))"

definition open_field :: "field \<Rightarrow> bool" where
  "open_field f \<longleftrightarrow> fd_open f \<or> (fd_type f = [] \<and> fd_children f = []) \<or>
     (fd_type f = type_map \<and> fd_children f = [])"

lemma follow_alias_size: "follow_alias i (Some n) = Some m \<Longrightarrow> size m \<le> size n"
proof (induction i arbitrary: n)
  case (Suc i)
  show ?case
  proof (cases "n_kind n = AliasNode")
    case True
    then obtain k where "n_alias n = Some k" "follow_alias i (Some k) = Some m"
      using Suc.prems by (cases "n_alias n") auto
    then show ?thesis using Suc.IH [of k] size_alias [of n k] by simp
  qed (use Suc.prems in simp)
qed simp

lemma resolve_alias_size: "resolve_alias (Some n) = Some m \<Longrightarrow> size m \<le> size n"
  unfolding resolve_alias_def by (rule follow_alias_size)

function walk_field :: "ctx \<Rightarrow> field \<Rightarrow> ynode \<Rightarrow> string \<Rightarrow> field_event list" where
  "walk_field c f n0 path =
     (case resolve_alias (Some n0) of
        None \<Rightarrow> []
      | Some n \<Rightarrow>
          if n_kind n = AliasNode then []
          else (if open_field f then [Skipped path ''open_schema''] else []) @
            (if is_null (Some n) then check_required f (set_new []) n path
             else (case check_type c f n path of (events, descend) \<Rightarrow> events @
               (if \<not> descend then []
                else if fd_type f = type_map \<or> fd_type f = [] then
                  (if n_kind n \<noteq> MappingNode then []
                   else concat (map (\<lambda>e.
                       (case field_child f (me_key e) of
                          Some child \<Rightarrow>
                            (if fd_deprecated child \<noteq> []
                             then [Deprecated (me_key e) (me_key_node e) (me_path e) (fd_deprecated child)]
                             else []) @ walk_field c child (me_node e) (me_path e)
                        | None \<Rightarrow>
                            if \<not> fd_open f \<and> 0 < length (fd_children f)
                            then [Unknown (me_key e) (me_key_node e) (me_path e) (sorted_keys (fd_children f))]
                            else []))
                     (map_entries n path)) @
                     check_required f (set_new (map me_key (map_entries n path))) n path)
                else if fd_type f = type_list then
                  (if n_kind n \<noteq> SequenceNode then []
                   else (case field_child f ''item'' of
                       None \<Rightarrow> [Skipped path ''missing_schema'']
                     | Some item \<Rightarrow> concat (map (\<lambda>(i, el). walk_field c item el (index_path path i))
                         (List.enumerate 0 (n_content n)))))
                else []))))"
  by pat_completeness auto
termination
  by (relation "measure (\<lambda>(_, _, n, _). size n)")
    (auto dest!: resolve_alias_size map_entries_size enumerate_size)

declare walk_field.simps [simp del]

definition walk_components :: "ctx \<Rightarrow> field_event list" where
  "walk_components c =
     (if \<not> schema_ready c then []
      else concat (map (\<lambda>k. concat (map (\<lambda>d.
          let path = section_key k @ ''.'' @ id_string (c_id d) in
          (case ctx_lookup c k (id_type (c_id d)) of
             None \<Rightarrow> [Skipped path ''missing_schema'']
           | Some sc \<Rightarrow>
               (case sc_fields sc of
                  None \<Rightarrow> [Skipped path ''missing_schema'']
                | Some f \<Rightarrow> walk_field c f (c_value_node d) path)))
        (section_components (cx_file c) k))) kinds))"

subsection \<open>The rules\<close>

definition unknown_field_check :: check where
  "unknown_field_check c =
     (let sev = (if cx_strict c then Error else Warning) in
      List.map_filter (\<lambda>e. case e of
          Unknown key n path known \<Rightarrow>
            Some ((finding_at (Some n) path (''unknown setting '' @ quote key @ '' for '' @ component_of path))
              \<lparr>fi_severity := Some sev,
               fi_hint := ''accepted settings: '' @ list_names known @ suggest key known\<rparr>)
        | _ \<Rightarrow> None) (walk_components c))"

definition unknown_field :: rule where
  "unknown_field = new_rule ''unknown-field''
     ''a setting the component does not accept; the collector rejects these'' Warning unknown_field_check"

definition required_field_check :: check where
  "required_field_check c =
     List.map_filter (\<lambda>e. case e of
         Required key n path \<Rightarrow>
           Some (finding_at (Some n) path
             (''missing required setting '' @ quote key @ '' for '' @ component_of path))
       | _ \<Rightarrow> None) (walk_components c)"

definition required_field :: rule where
  "required_field = new_rule ''required-field''
     ''a setting the component cannot start without'' Error required_field_check"

definition invalid_value_check :: check where
  "invalid_value_check c =
     List.map_filter (\<lambda>e. case e of
         Invalid n path want \<Rightarrow>
           Some (finding_at (Some n) path (quote (short_path path) @ '' must be '' @ want))
       | _ \<Rightarrow> None) (walk_components c)"

definition invalid_value :: rule where
  "invalid_value = new_rule ''invalid-value''
     ''a setting whose value has the wrong type or is outside the allowed set'' Error invalid_value_check"

definition deprecated_field_check :: check where
  "deprecated_field_check c =
     List.map_filter (\<lambda>e. case e of
         Deprecated key n path note \<Rightarrow>
           Some ((finding_at (Some n) path (''setting '' @ quote key @ '' is deprecated''))\<lparr>fi_hint := note\<rparr>)
       | _ \<Rightarrow> None) (walk_components c)"

definition deprecated_field :: rule where
  "deprecated_field = new_rule ''deprecated-field'' ''a setting upstream has replaced'' Warning
     deprecated_field_check"

subsection \<open>What a conforming document is\<close>

text \<open>A value left to the collector: an expansion, or a quoted scalar an unknown decoder may convert.\<close>

definition deferred :: "ctx \<Rightarrow> field \<Rightarrow> ynode \<Rightarrow> bool" where
  "deferred c f n \<longleftrightarrow>
     fd_type f \<noteq> [] \<and> \<not> states_no_shape f \<and>
     (n_kind n = ScalarNode \<and> has_expansion (n_value n) \<or> unknown_scalar c f n)"

definition type_ok :: "ctx \<Rightarrow> field \<Rightarrow> ynode \<Rightarrow> bool" where
  "type_ok c f n \<longleftrightarrow>
     fd_type f = [] \<or> states_no_shape f \<or>
     matches_type (cx_lib c) f (decode_scalar c n (fd_type f)) \<and>
     (fd_enum f = [] \<or> n_kind n \<noteq> ScalarNode \<or> n_value n \<in> set (fd_enum f))"

definition map_like :: "field \<Rightarrow> bool" where
  "map_like f \<longleftrightarrow> fd_type f = type_map \<or> fd_type f = []"

definition read_as :: "ynode \<Rightarrow> ynode \<Rightarrow> bool" where
  "read_as n m \<longleftrightarrow> resolve_alias (Some n) = Some m \<and> n_kind m \<noteq> AliasNode"

inductive conforms :: "ctx \<Rightarrow> field \<Rightarrow> ynode \<Rightarrow> bool" for c where
  conforms_unresolved: "\<nexists>m. read_as n m \<Longrightarrow> conforms c f n"
| conforms_null: "read_as n m \<Longrightarrow> is_null (Some m) \<Longrightarrow> fd_required f = [] \<Longrightarrow> conforms c f n"
| conforms_deferred: "read_as n m \<Longrightarrow> \<not> is_null (Some m) \<Longrightarrow> deferred c f m \<Longrightarrow> conforms c f n"
| conforms_leaf: "read_as n m \<Longrightarrow> \<not> is_null (Some m) \<Longrightarrow> \<not> deferred c f m \<Longrightarrow> type_ok c f m \<Longrightarrow>
    \<not> (map_like f \<and> n_kind m = MappingNode) \<Longrightarrow>
    \<not> (fd_type f = type_list \<and> n_kind m = SequenceNode \<and> field_child f ''item'' \<noteq> None) \<Longrightarrow> conforms c f n"
| conforms_mapping: "read_as n m \<Longrightarrow> \<not> is_null (Some m) \<Longrightarrow> \<not> deferred c f m \<Longrightarrow> type_ok c f m \<Longrightarrow>
    map_like f \<Longrightarrow> n_kind m = MappingNode \<Longrightarrow>
    (\<And>k v. (k, v) \<in> set (pairs (n_content m)) \<Longrightarrow>
       (\<exists>child. field_child f (n_value k) = Some child \<and> conforms c child v) \<or>
       field_child f (n_value k) = None \<and> (fd_open f \<or> fd_children f = [])) \<Longrightarrow>
    set (fd_required f) \<subseteq> n_value ` fst ` set (pairs (n_content m)) \<Longrightarrow> conforms c f n"
| conforms_list: "read_as n m \<Longrightarrow> \<not> is_null (Some m) \<Longrightarrow> \<not> deferred c f m \<Longrightarrow> type_ok c f m \<Longrightarrow>
    fd_type f = type_list \<Longrightarrow> n_kind m = SequenceNode \<Longrightarrow> field_child f ''item'' = Some item \<Longrightarrow>
    (\<And>el. el \<in> set (n_content m) \<Longrightarrow> conforms c item el) \<Longrightarrow> conforms c f n"

text \<open>The events that are findings: an unknown or a missing key, or a wrong value.\<close>

definition no_fault :: "field_event list \<Rightarrow> bool" where
  "no_fault events \<longleftrightarrow>
     list_all (\<lambda>e. case e of Deprecated _ _ _ _ \<Rightarrow> True | Skipped _ _ \<Rightarrow> True | _ \<Rightarrow> False) events"

lemma no_fault_simps [simp]:
  "no_fault []" "no_fault (xs @ ys) \<longleftrightarrow> no_fault xs \<and> no_fault ys"
  "no_fault (concat xss) \<longleftrightarrow> (\<forall>xs \<in> set xss. no_fault xs)"
  "no_fault (Deprecated k n p d # xs) \<longleftrightarrow> no_fault xs" "no_fault (Skipped p r # xs) \<longleftrightarrow> no_fault xs"
  "\<not> no_fault (Unknown k n p ks # xs)" "\<not> no_fault (Required k n p # xs)" "\<not> no_fault (Invalid n p w # xs)"
  by (auto simp: no_fault_def list_all_iff)

lemma no_fault_check_required:
  "no_fault (check_required f present n path) \<longleftrightarrow> set (fd_required f) \<subseteq> set_elems present"
proof -
  have "no_fault (map (\<lambda>req. Required req n (join_path path req)) xs) \<longleftrightarrow> xs = []" for xs
    by (cases xs) simp_all
  then show ?thesis by (auto simp: check_required_def filter_empty_conv)
qed

lemma check_type_deferred:
  "deferred c f n \<Longrightarrow> no_fault (fst (check_type c f n path)) \<and> \<not> snd (check_type c f n path)"
  by (auto simp: deferred_def check_type_def)

lemma check_type_not_deferred:
  assumes "\<not> deferred c f n"
  shows "no_fault (fst (check_type c f n path)) = type_ok c f n"
    and "snd (check_type c f n path) = type_ok c f n"
  using assms by (auto simp: deferred_def check_type_def type_ok_def)

lemma map_entries_keys: "me_key ` set (map_entries n path) = n_value ` fst ` set (pairs (n_content n))"
  by (force simp: map_entries_def)

lemma read_as_det: "read_as n m \<Longrightarrow> read_as n m' \<Longrightarrow> m' = m"
  by (simp add: read_as_def)

lemma map_like_not_list: "map_like f \<Longrightarrow> fd_type f \<noteq> type_list"
  by (auto simp: map_like_def type_map_def type_list_def)

lemma conforms_read:
  assumes "read_as n m"
  shows "conforms c f n \<longleftrightarrow>
    (if is_null (Some m) then fd_required f = []
     else if deferred c f m then True
     else type_ok c f m \<and>
       (if map_like f \<and> n_kind m = MappingNode then
          (\<forall>(k, v) \<in> set (pairs (n_content m)).
             (case field_child f (n_value k) of
                Some child \<Rightarrow> conforms c child v | None \<Rightarrow> fd_open f \<or> fd_children f = [])) \<and>
          set (fd_required f) \<subseteq> n_value ` fst ` set (pairs (n_content m))
        else if fd_type f = type_list \<and> n_kind m = SequenceNode then
          (case field_child f ''item'' of
             None \<Rightarrow> True | Some item \<Rightarrow> \<forall>el \<in> set (n_content m). conforms c item el)
        else True))" (is "_ = ?rhs")
proof
  assume "conforms c f n"
  then show ?rhs
  proof cases
    case (conforms_mapping m')
    note [simp] = read_as_det [OF assms conforms_mapping(1)]
    show ?thesis using conforms_mapping by (force split: option.splits)
  next
    case (conforms_list m' item)
    note [simp] = read_as_det [OF assms conforms_list(1)]
    show ?thesis using conforms_list map_like_not_list [of f] by auto
  qed (use assms in \<open>auto dest: read_as_det [OF assms] split: option.splits\<close>)
next
  assume rhs: ?rhs
  consider (null) "is_null (Some m)" | (deferred) "\<not> is_null (Some m)" "deferred c f m"
    | (mapping) "\<not> is_null (Some m)" "\<not> deferred c f m" "map_like f" "n_kind m = MappingNode"
    | (listing) item where "\<not> is_null (Some m)" "\<not> deferred c f m" "fd_type f = type_list"
        "n_kind m = SequenceNode" "field_child f ''item'' = Some item"
    | (leaf) "\<not> is_null (Some m)" "\<not> deferred c f m" "\<not> (map_like f \<and> n_kind m = MappingNode)"
        "\<not> (fd_type f = type_list \<and> n_kind m = SequenceNode \<and> field_child f ''item'' \<noteq> None)"
    by blast
  then show "conforms c f n"
  proof cases
    case null
    then show ?thesis using rhs conforms_null [OF assms] by simp
  next
    case deferred
    then show ?thesis using conforms_deferred [OF assms] by simp
  next
    case mapping
    then have r: "type_ok c f m" "set (fd_required f) \<subseteq> n_value ` fst ` set (pairs (n_content m))"
      "\<And>k v. (k, v) \<in> set (pairs (n_content m)) \<Longrightarrow>
         (case field_child f (n_value k) of
            Some child \<Rightarrow> conforms c child v | None \<Rightarrow> fd_open f \<or> fd_children f = [])"
      using rhs by auto
    show ?thesis
      by (rule conforms_mapping [OF assms mapping(1,2) r(1) mapping(3,4) _ r(2)])
        (use r(3) in \<open>force split: option.splits\<close>)
  next
    case listing
    then have "type_ok c f m" "\<And>el. el \<in> set (n_content m) \<Longrightarrow> conforms c item el"
      using rhs map_like_not_list by auto
    then show ?thesis using conforms_list [OF assms listing(1,2) _ listing(3-5)] by blast
  next
    case leaf
    then show ?thesis using rhs conforms_leaf [OF assms leaf(1,2) _ leaf(3,4)] by (auto split: if_splits)
  qed
qed

lemma walk_field_read:
  assumes "read_as n m"
  shows "no_fault (walk_field c f n path) \<longleftrightarrow>
    (if is_null (Some m) then fd_required f = []
     else if deferred c f m then True
     else type_ok c f m \<and>
       (if map_like f \<and> n_kind m = MappingNode then
          (\<forall>e \<in> set (map_entries m path).
             (case field_child f (me_key e) of
                Some child \<Rightarrow> no_fault (walk_field c child (me_node e) (me_path e))
              | None \<Rightarrow> fd_open f \<or> fd_children f = [])) \<and>
          set (fd_required f) \<subseteq> n_value ` fst ` set (pairs (n_content m))
        else if fd_type f = type_list \<and> n_kind m = SequenceNode then
          (case field_child f ''item'' of
             None \<Rightarrow> True
           | Some item \<Rightarrow> \<forall>(i, el) \<in> set (List.enumerate 0 (n_content m)).
               no_fault (walk_field c item el (index_path path i)))
        else True))"
proof -
  let ?open = "if open_field f then [Skipped path ''open_schema''] else []"
  have o: "no_fault ?open" by simp
  have r: "resolve_alias (Some n) = Some m" "n_kind m \<noteq> AliasNode" using assms by (auto simp: read_as_def)
  obtain events descend where ct: "check_type c f m path = (events, descend)" by fastforce
  consider (null) "is_null (Some m)" | (deferred) "\<not> is_null (Some m)" "deferred c f m"
    | (bad) "\<not> is_null (Some m)" "\<not> deferred c f m" "\<not> type_ok c f m"
    | (ok) "\<not> is_null (Some m)" "\<not> deferred c f m" "type_ok c f m" by blast
  then show ?thesis
  proof cases
    case null
    then show ?thesis using r o by (simp add: walk_field.simps [of c f n] no_fault_check_required)
  next
    case deferred
    then have "no_fault events \<and> \<not> descend" using check_type_deferred [of c f m path] ct by simp
    then show ?thesis using deferred r ct o by (simp add: walk_field.simps [of c f n])
  next
    case bad
    then have "\<not> no_fault events" using check_type_not_deferred(1) [of c f m path] ct by simp
    then show ?thesis using bad r ct by (simp add: walk_field.simps [of c f n])
  next
    case ok
    have e: "no_fault events" "descend"
      using check_type_not_deferred [OF ok(2), of path] ok(3) ct by simp_all
    have len: "0 < length (fd_children f) \<longleftrightarrow> fd_children f \<noteq> []" by simp
    show ?thesis
    proof (cases "map_like f \<and> n_kind m = MappingNode")
      case True
      have "no_fault (walk_field c f n path) \<longleftrightarrow>
          (\<forall>e \<in> set (map_entries m path).
             (case field_child f (me_key e) of
                Some child \<Rightarrow> no_fault (walk_field c child (me_node e) (me_path e))
              | None \<Rightarrow> fd_open f \<or> fd_children f = [])) \<and>
          set (fd_required f) \<subseteq> me_key ` set (map_entries m path)"
        using True ok r ct e o
        by (simp add: walk_field.simps [of c f n] map_like_def no_fault_check_required cong: ball_cong option.case_cong)
          (auto split: option.splits)
      then show ?thesis using True ok by (simp add: map_entries_keys)
    next
      case False
      show ?thesis
      proof (cases "fd_type f = type_list \<and> n_kind m = SequenceNode")
        case True
        then show ?thesis
          using ok r ct e o False
          by (cases "field_child f ''item''")
            (auto simp: walk_field.simps [of c f n] type_list_def type_map_def map_like_def)
      next
        case nolist: False
        then show ?thesis
          using ok r ct e o False by (auto simp: walk_field.simps [of c f n] map_like_def)
      qed
    qed
  qed
qed

lemma ball_enumerate: "(\<forall>(i, v) \<in> set (List.enumerate k xs). P v) \<longleftrightarrow> (\<forall>v \<in> set xs. P v)"
  by (induction xs arbitrary: k) auto

lemma walk_field_conforms: "no_fault (walk_field c f n path) \<longleftrightarrow> conforms c f n"
proof (induction "size n" arbitrary: f n path rule: less_induct)
  case less
  show ?case
  proof (cases "\<exists>m. read_as n m")
    case False
    then have "walk_field c f n path = []"
      by (simp add: walk_field.simps [of c f n] read_as_def split: option.split)
    then show ?thesis using False conforms_unresolved by simp
  next
    case True
    then obtain m where m: "read_as n m" by blast
    then have sz: "size m \<le> size n" by (simp add: read_as_def resolve_alias_size)
    have IH: "no_fault (walk_field c g v p) \<longleftrightarrow> conforms c g v" if "size v < size m" for g v p
      using less [of v g p] that sz by simp
    have kv: "no_fault (walk_field c g v p) \<longleftrightarrow> conforms c g v" if "(k, v) \<in> set (pairs (n_content m))" for g k v p
      using IH pairs_size [OF that] by simp
    have el: "no_fault (walk_field c g v p) \<longleftrightarrow> conforms c g v" if "v \<in> set (n_content m)" for g v p
      using IH size_content [OF that] by simp
    have maps: "(\<forall>e \<in> set (map_entries m path).
             (case field_child f (me_key e) of
                Some child \<Rightarrow> no_fault (walk_field c child (me_node e) (me_path e))
              | None \<Rightarrow> fd_open f \<or> fd_children f = [])) \<longleftrightarrow>
          (\<forall>(k, v) \<in> set (pairs (n_content m)).
             (case field_child f (n_value k) of
                Some child \<Rightarrow> conforms c child v | None \<Rightarrow> fd_open f \<or> fd_children f = []))"
      using kv by (fastforce simp: map_entries_def split: option.splits)
    have lists: "(\<forall>(i, v) \<in> set (List.enumerate 0 (n_content m)). no_fault (walk_field c g v (index_path path i)))
        \<longleftrightarrow> (\<forall>v \<in> set (n_content m). conforms c g v)" for g
    proof -
      have "(\<forall>(i, v) \<in> set (List.enumerate 0 (n_content m)). no_fault (walk_field c g v (index_path path i)))
        \<longleftrightarrow> (\<forall>(i, v) \<in> set (List.enumerate 0 (n_content m)). conforms c g v)"
        by (rule ball_cong [OF refl]) (use el in \<open>auto dest: enumerate_mem\<close>)
      then show ?thesis by (simp only: ball_enumerate)
    qed
    show ?thesis
      unfolding conforms_read [OF m] walk_field_read [OF m] maps lists ..
  qed
qed

lemma map_filter_nil: "List.map_filter g xs = [] \<longleftrightarrow> (\<forall>x \<in> set xs. g x = None)"
  by (auto simp: List.map_filter_def filter_empty_conv)

lemma faults_silent:
  "unknown_field_check c = [] \<and> required_field_check c = [] \<and> invalid_value_check c = [] \<longleftrightarrow>
     no_fault (walk_components c)"
proof -
  have "no_fault es \<longleftrightarrow> (\<forall>e \<in> set es. (\<forall>k n p ks. e \<noteq> Unknown k n p ks) \<and> (\<forall>k n p. e \<noteq> Required k n p) \<and>
      (\<forall>n p w. e \<noteq> Invalid n p w))" for es
    by (auto simp: no_fault_def list_all_iff split: field_event.splits)
  then show ?thesis
    by (auto simp: unknown_field_check_def required_field_check_def invalid_value_check_def Let_def
        map_filter_nil split: field_event.splits)
qed

text \<open>
  C4: the rules unknown-field, required-field and invalid-value are silent on a config exactly when
  every declared component whose type has a field schema conforms to it, by the rules of
  \<open>conforms\<close>: keys known or the map open, required keys present, values of the declared type and in
  the enumeration, aliases and lists followed, and what only the collector can resolve let through.
\<close>

theorem field_rules_silent_iff_conforms:
  "(unknown_field_check c = [] \<and> required_field_check c = [] \<and> invalid_value_check c = []) \<longleftrightarrow>
   (schema_ready c \<longrightarrow>
      (\<forall>k. \<forall>d \<in> set (section_components (cx_file c) k). \<forall>sc f.
         ctx_lookup c k (id_type (c_id d)) = Some sc \<longrightarrow> sc_fields sc = Some f \<longrightarrow>
         conforms c f (c_value_node d)))"
proof -
  have "no_fault (walk_components c) \<longleftrightarrow> (schema_ready c \<longrightarrow>
      (\<forall>k \<in> set kinds. \<forall>d \<in> set (section_components (cx_file c) k). \<forall>sc f.
         ctx_lookup c k (id_type (c_id d)) = Some sc \<longrightarrow> sc_fields sc = Some f \<longrightarrow>
         conforms c f (c_value_node d)))"
    by (auto simp: walk_components_def Let_def walk_field_conforms split: option.splits)
  then show ?thesis unfolding faults_silent by simp
qed

definition demo_lib :: go_lib where
  "demo_lib = \<lparr>lib_decode_int = (\<lambda>n. atoi (n_value n)),
     lib_decode_float = (\<lambda>n. map_option Finite (parse_decimal (n_value n))),
     lib_decode_bool = (\<lambda>n. parse_bool (n_value n)),
     lib_float_text = (\<lambda>s. if parse_decimal s = None then None else Some s),
     lib_bad_runes = (\<lambda>s. list_ex (\<lambda>ch. \<not> is_ascii ch) s)\<rparr>"

definition demo_schema :: "kind \<Rightarrow> string \<Rightarrow> field \<Rightarrow> schema" where
  "demo_schema k typ f =
     \<lparr>sch_collector_version = ''v0.157.0'', sch_distribution = ''core'', sch_decoder = None,
      sch_generated_at = [], sch_sources = [],
      sch_components = (\<lambda>_. [])(k := [(typ,
        \<lparr>sc_type = typ, sc_signals = [''traces''], sc_stability = [(''traces'', alpha)], sc_pairs = [],
         sc_distributions = [], sc_module = [], sc_deprecated = [], sc_alias_of = [], sc_alias = [],
         sc_fields = Some f\<rparr>)])\<rparr>"

definition demo_component :: "kind \<Rightarrow> string \<Rightarrow> ynode \<Rightarrow> comp" where
  "demo_component k typ v = \<lparr>c_id = parse_id typ, c_kind = k, c_key_node = y_str typ, c_value_node = v\<rparr>"

definition demo_ctx :: "schema \<Rightarrow> comp list \<Rightarrow> pipeline list \<Rightarrow> environment \<Rightarrow> ctx" where
  "demo_ctx s cs ps env =
     (let f = (empty_file ''c'')\<lparr>
        f_sections := (\<lambda>k. Some \<lparr>sec_kind = k, sec_key_node = y_str [], sec_node = y_map [],
          sec_components = filter (\<lambda>d. c_kind d = k) cs\<rparr>),
        f_service := empty_service\<lparr>svc_node := Some (y_map []), svc_pipelines := ps\<rparr>\<rparr>
      in \<lparr>cx_file = f, cx_schema = Some s, cx_index = new_index f (Some s), cx_avail = None, cx_dists = None,
          cx_strict = False, cx_env = env, cx_lib = demo_lib\<rparr>)"

definition demo_field :: field where
  "demo_field = Field type_map [(''size'', Field type_int [] [] [] False [] [] []),
     (''name'', Field ''string'' [] [] [] False [] [] [])] [''size''] [] False [] [] []"

definition demo_fields_ctx :: "(string \<times> ynode) list \<Rightarrow> ctx" where
  "demo_fields_ctx kvs =
     demo_ctx (demo_schema Exporter ''e'' demo_field) [demo_component Exporter ''e'' (y_map kvs)] [] no_environment"

lemma field_rules_silent_iff_conforms_witness:
  "conforms (demo_fields_ctx [(''size'', y_int ''3'')]) demo_field (y_map [(''size'', y_int ''3'')]) \<and>
   length (unknown_field_check (demo_fields_ctx [(''sise'', y_int ''3'')])) = 1 \<and>
   length (required_field_check (demo_fields_ctx [(''sise'', y_int ''3'')])) = 1 \<and>
   length (invalid_value_check (demo_fields_ctx [(''size'', y_str ''x'')])) = 1"
proof -
  let ?c = "demo_fields_ctx [(''size'', y_int ''3'')]"
  have "unknown_field_check ?c = [] \<and> required_field_check ?c = [] \<and> invalid_value_check ?c = []" by code_simp
  moreover have "schema_ready ?c" by code_simp
  moreover have "demo_component Exporter ''e'' (y_map [(''size'', y_int ''3'')]) \<in>
      set (section_components (cx_file ?c) Exporter)"
    by (simp add: demo_fields_ctx_def demo_ctx_def Let_def section_components_def demo_component_def)
  moreover have "ctx_lookup ?c Exporter (id_type (c_id (demo_component Exporter ''e''
      (y_map [(''size'', y_int ''3'')])))) =
      Some (snd (hd (sch_components (demo_schema Exporter ''e'' demo_field) Exporter)))"
    by code_simp
  moreover have "sc_fields (snd (hd (sch_components (demo_schema Exporter ''e'' demo_field) Exporter))) =
      Some demo_field"
    by (simp add: demo_schema_def)
  ultimately have "conforms ?c demo_field (c_value_node (demo_component Exporter ''e''
      (y_map [(''size'', y_int ''3'')])))"
    using field_rules_silent_iff_conforms [of ?c] by blast
  moreover have "length (unknown_field_check (demo_fields_ctx [(''sise'', y_int ''3'')])) = 1" by code_simp
  moreover have "length (required_field_check (demo_fields_ctx [(''sise'', y_int ''3'')])) = 1" by code_simp
  moreover have "length (invalid_value_check (demo_fields_ctx [(''size'', y_str ''x'')])) = 1" by code_simp
  ultimately show ?thesis by (simp add: demo_component_def)
qed

end
