(* ===== verification/ReferenceRules.thy ===== *)
theory ReferenceRules
  imports FieldWalker
begin

section \<open>Rules about references\<close>

text \<open>
  The rules that compare what the service block and settings name with what the config declares:
  undefined-reference, duplicate-reference, undefined-extension-reference, unused-component and
  connector-wiring, each its own package under \<open>pkg/rule\<close>.
\<close>

text \<open>The three nested loops over pipelines, slots and references.\<close>

definition each_slot_ref :: "ctx \<Rightarrow> (pipeline \<Rightarrow> kind \<Rightarrow> cref \<Rightarrow> 'a list) \<Rightarrow> 'a list" where
  "each_slot_ref c visit =
     concat (map (\<lambda>p. concat (map (\<lambda>slot. concat (map (visit p slot) (pipeline_refs p slot))) slots))
       (svc_pipelines (f_service (cx_file c))))"

lemma each_slot_ref_nil:
  "each_slot_ref c visit = [] \<longleftrightarrow>
     (\<forall>p \<in> set (svc_pipelines (f_service (cx_file c))). \<forall>slot \<in> set slots.
        \<forall>r \<in> set (pipeline_refs p slot). visit p slot r = [])"
  by (simp add: each_slot_ref_def)

subsection \<open>undefined-reference\<close>

definition undefined_extension :: "ctx \<Rightarrow> cref \<Rightarrow> finding list" where
  "undefined_extension c r =
     (if has_expansion (id_string (r_id r)) \<or> has_dynamic_declarations (cx_index c) Extension then []
      else if declared (cx_index c) Extension (r_id r) \<noteq> None then []
      else [(finding_at (Some (r_node r)) (r_path r)
               (''service.extensions references '' @ quote (id_string (r_id r)) @
                '' which is not declared under extensions''))
             \<lparr>fi_hint := misplaced_hint c (r_id r) Extension\<rparr>])"

definition undefined_slot :: "ctx \<Rightarrow> pipeline \<Rightarrow> kind \<Rightarrow> cref \<Rightarrow> finding list" where
  "undefined_slot c p slot r =
     (if has_expansion (id_string (r_id r)) \<or> has_dynamic_declarations (cx_index c) slot then []
      else if resolve_ref (cx_index c) slot (r_id r) \<noteq> None then []
      else [(finding_at (Some (r_node r)) (r_path r)
               (''pipeline '' @ quote (p_key p) @ '' references '' @ kind_string slot @ '' '' @
                quote (id_string (r_id r)) @ '' which is not declared under '' @ section_key slot))
             \<lparr>fi_hint := misplaced_hint c (r_id r) slot\<rparr>])"

definition undefined_reference_check :: check where
  "undefined_reference_check c =
     concat (map (undefined_extension c) (svc_extensions (f_service (cx_file c)))) @
     each_slot_ref c (undefined_slot c)"

definition undefined_reference :: rule where
  "undefined_reference = new_rule ''undefined-reference''
     ''the service block may only reference components declared in the config'' Error
     undefined_reference_check"

subsection \<open>duplicate-reference\<close>

definition duplicates_in_slot :: "pipeline \<Rightarrow> kind \<Rightarrow> finding list" where
  "duplicates_in_slot p slot =
     map (\<lambda>r. finding_at (Some (r_node r)) (r_path r)
            (quote (id_string (r_id r)) @ '' is listed twice in '' @ p_key p @ ''.'' @ section_key slot))
       (repeats set_has (\<lambda>s x. set_insert s [x]) r_id (set_new [])
         (filter (\<lambda>r. \<not> has_expansion (id_string (r_id r))) (pipeline_refs p slot)))"

definition duplicate_reference_check :: check where
  "duplicate_reference_check c =
     concat (map (\<lambda>p. concat (map (duplicates_in_slot p) slots)) (svc_pipelines (f_service (cx_file c))))"

definition duplicate_reference :: rule where
  "duplicate_reference = new_rule ''duplicate-reference''
     ''listing the same component twice in one pipeline slot'' Warning duplicate_reference_check"

subsection \<open>undefined-extension-reference\<close>

definition check_extension_ref :: "ctx \<Rightarrow> extension_ref \<Rightarrow> finding list" where
  "check_extension_ref c x =
     (let subject = kind_string (c_kind (xr_component x)) @ '' '' @
            quote (id_string (c_id (xr_component x))) @ '' references '' @ xr_subject x @ '' '' @
            quote (id_string (xr_id x));
          dynamic = has_dynamic_declarations (cx_index c) Extension
      in if declared (cx_index c) Extension (xr_id x) = None \<and> \<not> dynamic then
           [(finding_at (Some (xr_node x)) (xr_path x) (subject @ '' which is not declared under extensions''))
             \<lparr>fi_hint := misplaced_hint c (xr_id x) Extension, fi_docs := xr_docs x\<rparr>]
         else if svc_node (f_service (cx_file c)) = None \<or> enabled (cx_index c) (xr_id x) \<or>
           has_dynamic_refs (cx_index c) Extension then []
         else
           [(finding_at (Some (xr_node x)) (xr_path x)
               (subject @
                (if dynamic then '' which is missing from service.extensions, ''
                 else '' which is declared but missing from service.extensions, '') @
                ''so the collector never starts it''))
             \<lparr>fi_hint := ''add '' @ quote (id_string (xr_id x)) @ '' to service.extensions'',
              fi_docs := xr_docs x\<rparr>])"

definition undefined_extension_reference_check :: check where
  "undefined_extension_reference_check c =
     concat (map (check_extension_ref c) (ix_ext_refs (cx_index c)))"

definition undefined_extension_reference :: rule where
  "undefined_extension_reference = new_rule ''undefined-extension-reference''
     ''an extension a component's own settings name, that nothing declares or starts'' Error
     undefined_extension_reference_check"

subsection \<open>unused-component\<close>

definition unused_component_check :: check where
  "unused_component_check c =
     (if svc_node (f_service (cx_file c)) = None then []
      else concat (map (\<lambda>k.
        if has_dynamic_refs (cx_index c) k then []
        else concat (map (\<lambda>d.
          if used (cx_index c) k (c_id d) then []
          else [(finding_at (Some (c_key_node d)) (section_key k @ ''.'' @ id_string (c_id d))
                  (kind_string k @ '' '' @ quote (id_string (c_id d)) @ '' is declared but '' @
                   (if k = Extension then ''not listed in service.extensions'' else ''referenced by no pipeline'')))
                \<lparr>fi_hint := ''remove it, or reference it so it actually runs''\<rparr>])
          (section_components (cx_file c) k))) kinds))"

definition unused_component :: rule where
  "unused_component = new_rule ''unused-component''
     ''a declared component that no pipeline references is never instantiated'' Warning unused_component_check"

subsection \<open>connector-wiring\<close>

definition check_sides :: "ctx \<Rightarrow> comp \<Rightarrow> pipeline list \<Rightarrow> pipeline list \<Rightarrow> finding list" where
  "check_sides c d as_receiver as_exporter =
     (let path = ''connectors.'' @ id_string (c_id d) in
      if as_exporter = [] \<and> \<not> has_dynamic_refs (cx_index c) Exporter then
        [(finding_at (Some (c_key_node d)) path
            (''connector '' @ quote (id_string (c_id d)) @
             '' is used as a receiver but never as an exporter, so it gets no input''))
          \<lparr>fi_hint := ''list it under exporters in the pipeline that should feed it''\<rparr>]
      else if as_receiver = [] \<and> \<not> has_dynamic_refs (cx_index c) Receiver then
        [(finding_at (Some (c_key_node d)) path
            (''connector '' @ quote (id_string (c_id d)) @
             '' is used as an exporter but never as a receiver, so its output is dropped''))
          \<lparr>fi_hint := ''list it under receivers in the pipeline that should consume it''\<rparr>]
      else [])"

definition check_loop :: "comp \<Rightarrow> pipeline list \<Rightarrow> pipeline list \<Rightarrow> finding list" where
  "check_loop d as_receiver as_exporter =
     concat (map (\<lambda>p. concat (map (\<lambda>q.
        if p_key p = p_key q then
          [finding_at (Some (c_key_node d)) (''connectors.'' @ id_string (c_id d))
             (''connector '' @ quote (id_string (c_id d)) @ '' is both a receiver and an exporter of pipeline '' @
              quote (p_key p) @ '', which forms a loop'')]
        else []) as_receiver)) as_exporter)"

definition connector_wiring_check :: check where
  "connector_wiring_check c =
     (if f_sections (cx_file c) Connector = None \<or> svc_node (f_service (cx_file c)) = None then []
      else concat (map (\<lambda>d.
        (case connector_pipelines (cx_index c) (c_id d) of (as_receiver, as_exporter) \<Rightarrow>
           if as_receiver = [] \<and> as_exporter = [] then []
           else check_sides c d as_receiver as_exporter @ check_loop d as_receiver as_exporter))
        (section_components (cx_file c) Connector)))"

definition connector_wiring :: rule where
  "connector_wiring = new_rule ''connector-wiring''
     ''a connector must be an exporter in one pipeline and a receiver in another'' Error
     connector_wiring_check"

subsection \<open>What silence means\<close>

text \<open>A context whose index is the one \<open>NewIndex\<close> builds for its file.\<close>

definition indexed :: "ctx \<Rightarrow> bool" where
  "indexed c \<longleftrightarrow> cx_index c = new_index (cx_file c) (cx_schema c)"

definition declares :: "cfile \<Rightarrow> kind \<Rightarrow> cid \<Rightarrow> bool" where
  "declares f k i \<longleftrightarrow> (\<exists>d \<in> set (section_components f k). c_id d = i)"

definition static_id :: "cid \<Rightarrow> bool" where
  "static_id i \<longleftrightarrow> \<not> has_expansion (id_string i)"

lemma declare_section_iff: "declare_section f k i \<noteq> None \<longleftrightarrow> declares f k i"
proof -
  have "find (\<lambda>c. c_id c = i) (rev xs) \<noteq> None \<longleftrightarrow> (\<exists>c \<in> set xs. c_id c = i)" for xs :: "comp list"
    by (auto simp: find_None_iff)
  then show ?thesis
    by (auto simp: declare_section_last declares_def section_components_def split: option.split)
qed

lemma declared_iff: "indexed c \<Longrightarrow> declared (cx_index c) k i \<noteq> None \<longleftrightarrow> declares (cx_file c) k i"
  by (simp only: indexed_def declared_def new_index_declared declare_section_iff)

lemma resolve_ref_iff:
  assumes "indexed c"
  shows "resolve_ref (cx_index c) slot i \<noteq> None \<longleftrightarrow>
    static_id i \<and> (declares (cx_file c) slot i \<or>
      (slot = Receiver \<or> slot = Exporter) \<and> declares (cx_file c) Connector i)"
proof -
  have d: "ix_declared (cx_index c) k i \<noteq> None \<longleftrightarrow> declares (cx_file c) k i" for k
    using declared_iff [OF assms] by (simp add: declared_def)
  show ?thesis
    using d [of slot] d [of Connector]
    by (cases "ix_declared (cx_index c) slot i") (auto simp: resolve_ref_def static_id_def)
qed

lemma dynamic_declarations_iff:
  "indexed c \<Longrightarrow> has_dynamic_declarations (cx_index c) slot \<longleftrightarrow>
     section_expansion (new_index (cx_file c) None) slot \<or>
     (slot = Receiver \<or> slot = Exporter) \<and> section_expansion (new_index (cx_file c) None) Connector"
  by (simp add: has_dynamic_declarations_def section_expansion_def indexed_def)

text \<open>
  C7: undefined-reference is silent exactly when every reference the file itself settles is to a
  declared component: an extension in \<open>service.extensions\<close> to one under \<open>extensions\<close>, a pipeline
  slot's to one of its section or, for receivers and exporters, to a connector. References with an
  expansion, and sections a provider supplies, are left alone.
\<close>

theorem undefined_reference_silent_iff:
  assumes "indexed c"
  shows "undefined_reference_check c = [] \<longleftrightarrow>
    (\<forall>r \<in> set (svc_extensions (f_service (cx_file c))). static_id (r_id r) \<longrightarrow>
       has_dynamic_declarations (cx_index c) Extension \<or> declares (cx_file c) Extension (r_id r)) \<and>
    (\<forall>p \<in> set (svc_pipelines (f_service (cx_file c))). \<forall>slot \<in> set slots.
       \<forall>r \<in> set (pipeline_refs p slot). static_id (r_id r) \<longrightarrow>
         has_dynamic_declarations (cx_index c) slot \<or> declares (cx_file c) slot (r_id r) \<or>
         (slot = Receiver \<or> slot = Exporter) \<and> declares (cx_file c) Connector (r_id r))"
proof -
  have "undefined_extension c r = [] \<longleftrightarrow> (static_id (r_id r) \<longrightarrow>
      has_dynamic_declarations (cx_index c) Extension \<or> declares (cx_file c) Extension (r_id r))" for r
    using declared_iff [OF assms, of Extension "r_id r"] by (auto simp: undefined_extension_def static_id_def)
  moreover have "undefined_slot c p slot r = [] \<longleftrightarrow> (static_id (r_id r) \<longrightarrow>
      has_dynamic_declarations (cx_index c) slot \<or> declares (cx_file c) slot (r_id r) \<or>
      (slot = Receiver \<or> slot = Exporter) \<and> declares (cx_file c) Connector (r_id r))" for p slot r
    using resolve_ref_iff [OF assms, of slot "r_id r"] by (auto simp: undefined_slot_def static_id_def)
  ultimately show ?thesis by (simp add: undefined_reference_check_def each_slot_ref_nil)
qed

definition demo_wiring :: "pipeline list \<Rightarrow> ctx" where
  "demo_wiring ps = demo_ctx (demo_schema Exporter ''e'' demo_field)
     [demo_component Receiver ''a'' y_null, demo_component Exporter ''e'' y_null,
      demo_component Connector ''f'' y_null] ps no_environment"

lemma demo_indexed [simp]: "indexed (demo_ctx s cs ps env)"
  by (simp add: demo_ctx_def indexed_def Let_def)

lemma undefined_reference_silent_iff_witness:
  "undefined_reference_check (demo_wiring [demo_pipe ''logs'' [''a''] [] [''f'', ''${x}'']]) = [] \<and>
   length (undefined_reference_check (demo_wiring [demo_pipe ''logs'' [''a''] [''b''] [''e'']])) = 1 \<and>
   \<not> declares (cx_file (demo_wiring [demo_pipe ''logs'' [''a''] [''b''] [''e'']])) Processor (parse_id ''b'')"
proof -
  let ?c = "demo_wiring [demo_pipe ''logs'' [''a''] [] [''f'', ''${x}'']]"
  let ?d = "demo_wiring [demo_pipe ''logs'' [''a''] [''b''] [''e'']]"
  have 1: "undefined_reference_check ?c = []" by code_simp
  have 2: "length (undefined_reference_check ?d) = 1" by code_simp
  have i: "indexed ?d" by (simp add: demo_wiring_def)
  have a: "declares (cx_file ?d) Receiver (parse_id ''a'')" "declares (cx_file ?d) Exporter (parse_id ''e'')"
    "svc_extensions (f_service (cx_file ?d)) = []"
    by code_simp+
  have "undefined_reference_check ?d \<noteq> []" using 2 by auto
  then have "\<not> declares (cx_file ?d) Processor (parse_id ''b'')"
    using undefined_reference_silent_iff [OF i] a
    by (auto simp: demo_wiring_def demo_ctx_def Let_def demo_pipe_def demo_ref_def pipeline_refs_def slots_def)
  then show ?thesis using 1 2 by blast
qed

lemma duplicates_in_slot_count:
  "length (duplicates_in_slot p slot) + card (r_id ` {r \<in> set (pipeline_refs p slot). static_id (r_id r)}) =
     length (filter (\<lambda>r. static_id (r_id r)) (pipeline_refs p slot))"
  "duplicates_in_slot p slot = [] \<longleftrightarrow>
     distinct (map r_id (filter (\<lambda>r. static_id (r_id r)) (pipeline_refs p slot)))"
proof -
  have put: "(\<lambda>s x. set_insert s [x]) = set_put" by (simp add: set_insert_def fun_eq_iff)
  have new: "set_new [] = set_empty" by (simp add: set_new_def set_insert_def)
  show "length (duplicates_in_slot p slot) + card (r_id ` {r \<in> set (pipeline_refs p slot). static_id (r_id r)}) =
     length (filter (\<lambda>r. static_id (r_id r)) (pipeline_refs p slot))"
    using gs.repeats_count [of r_id "filter (\<lambda>r. static_id (r_id r)) (pipeline_refs p slot)"]
    by (simp add: duplicates_in_slot_def put new static_id_def)
  show "duplicates_in_slot p slot = [] \<longleftrightarrow>
     distinct (map r_id (filter (\<lambda>r. static_id (r_id r)) (pipeline_refs p slot)))"
    using gs.repeats_none_iff [of r_id "filter (\<lambda>r. static_id (r_id r)) (pipeline_refs p slot)"]
    by (simp add: duplicates_in_slot_def put new static_id_def)
qed

text \<open>
  duplicate-reference is silent exactly when no slot of a pipeline lists a component twice, and
  otherwise reports each listing after the first, once: as many findings as there are references
  too many. References with an expansion do not count.
\<close>

theorem duplicate_reference_counts:
  "(duplicate_reference_check c = [] \<longleftrightarrow>
      (\<forall>p \<in> set (svc_pipelines (f_service (cx_file c))). \<forall>slot \<in> set slots.
         distinct (map r_id (filter (\<lambda>r. static_id (r_id r)) (pipeline_refs p slot))))) \<and>
   int (length (duplicate_reference_check c)) =
     (\<Sum>p \<leftarrow> svc_pipelines (f_service (cx_file c)). \<Sum>slot \<leftarrow> slots.
        int (length (filter (\<lambda>r. static_id (r_id r)) (pipeline_refs p slot))) -
        int (card (r_id ` {r \<in> set (pipeline_refs p slot). static_id (r_id r)})))"
proof -
  have "int (length (duplicates_in_slot p slot)) =
      int (length (filter (\<lambda>r. static_id (r_id r)) (pipeline_refs p slot))) -
      int (card (r_id ` {r \<in> set (pipeline_refs p slot). static_id (r_id r)}))" for p slot
    using duplicates_in_slot_count(1) [of p slot] by linarith
  then have "int (length (concat (map (duplicates_in_slot p) ks))) =
     (\<Sum>slot \<leftarrow> ks. int (length (filter (\<lambda>r. static_id (r_id r)) (pipeline_refs p slot))) -
        int (card (r_id ` {r \<in> set (pipeline_refs p slot). static_id (r_id r)})))" for p ks
    by (induction ks) simp_all
  moreover have "int (length (concat (map g ps))) = (\<Sum>p \<leftarrow> ps. int (length (g p)))"
    for g :: "pipeline \<Rightarrow> finding list" and ps
    by (induction ps) simp_all
  ultimately show ?thesis
    by (simp add: duplicate_reference_check_def duplicates_in_slot_count(2))
qed

lemma duplicate_reference_counts_witness:
  "int (length (duplicate_reference_check (demo_wiring [demo_pipe ''logs'' [''a'', ''a'', '' a'', ''${x}'', ''${x}''] [] [''e'']]))) = 2 \<and>
   \<not> distinct (map r_id (filter (\<lambda>r. static_id (r_id r)) (pipeline_refs
     (demo_pipe ''logs'' [''a'', ''a'', '' a'', ''${x}'', ''${x}''] [] [''e'']) Receiver)))"
proof -
  let ?p = "demo_pipe ''logs'' [''a'', ''a'', '' a'', ''${x}'', ''${x}''] [] [''e'']"
  have 1: "length (duplicate_reference_check (demo_wiring [?p])) = 2" by code_simp
  then have "duplicate_reference_check (demo_wiring [?p]) \<noteq> []" by auto
  moreover have "svc_pipelines (f_service (cx_file (demo_wiring [?p]))) = [?p]"
    by (simp add: demo_wiring_def demo_ctx_def Let_def)
  moreover have "\<forall>slot \<in> set slots. slot = Receiver \<or>
      distinct (map r_id (filter (\<lambda>r. static_id (r_id r)) (pipeline_refs ?p slot)))" by code_simp
  ultimately show ?thesis using duplicate_reference_counts [of "demo_wiring [?p]"] 1 by auto
qed

lemma set_wired: "set (concat (map (wired idx slot i) ps)) = {p \<in> set ps. names_component idx Connector i p slot}"
  by (auto simp: wired_def names_component_def)

lemma connector_pipelines_indexed:
  assumes "indexed c"
  shows "set (fst (connector_pipelines (cx_index c) i)) =
      {p \<in> set (svc_pipelines (f_service (cx_file c))). names_component (cx_index c) Connector i p Receiver}"
    and "set (snd (connector_pipelines (cx_index c) i)) =
      {p \<in> set (svc_pipelines (f_service (cx_file c))). names_component (cx_index c) Connector i p Exporter}"
  using new_index_facts [of "cx_file c" "cx_schema c" Connector i] assms
  unfolding indexed_def by (simp_all only: set_wired fst_conv snd_conv)

text \<open>
  C8: connector-wiring is silent exactly when every declared connector that some pipeline names is
  listed as an exporter and as a receiver somewhere (or a provider may still do so), and no pipeline,
  nor two of the same key, lists it on both sides.
\<close>

theorem connector_wiring_silent_iff:
  assumes "indexed c" "svc_node (f_service (cx_file c)) \<noteq> None"
  defines "feeds \<equiv> \<lambda>i. {p \<in> set (svc_pipelines (f_service (cx_file c))). names_component (cx_index c) Connector i p Exporter}"
    and "takes \<equiv> \<lambda>i. {p \<in> set (svc_pipelines (f_service (cx_file c))). names_component (cx_index c) Connector i p Receiver}"
  shows "connector_wiring_check c = [] \<longleftrightarrow>
    (\<forall>i. declares (cx_file c) Connector i \<longrightarrow> feeds i \<union> takes i \<noteq> {} \<longrightarrow>
       (feeds i \<noteq> {} \<or> has_dynamic_refs (cx_index c) Exporter) \<and>
       (takes i \<noteq> {} \<or> has_dynamic_refs (cx_index c) Receiver) \<and>
       p_key ` feeds i \<inter> p_key ` takes i = {})"
proof -
  have eq: "set (fst (connector_pipelines (cx_index c) i)) = takes i"
    "set (snd (connector_pipelines (cx_index c) i)) = feeds i" for i
    using connector_pipelines_indexed [OF assms(1)] by (simp_all add: feeds_def takes_def)
  have one: "(case connector_pipelines (cx_index c) i of (as_receiver, as_exporter) \<Rightarrow>
        if as_receiver = [] \<and> as_exporter = [] then []
        else check_sides c d as_receiver as_exporter @ check_loop d as_receiver as_exporter) = [] \<longleftrightarrow>
      (feeds i \<union> takes i \<noteq> {} \<longrightarrow>
         (feeds i \<noteq> {} \<or> has_dynamic_refs (cx_index c) Exporter) \<and>
         (takes i \<noteq> {} \<or> has_dynamic_refs (cx_index c) Receiver) \<and>
         p_key ` feeds i \<inter> p_key ` takes i = {})" for d i
  proof -
    obtain rs es where w: "connector_pipelines (cx_index c) i = (rs, es)" by fastforce
    then have s: "takes i = set rs" "feeds i = set es" using eq [of i] by simp_all
    have "check_loop d rs es = [] \<longleftrightarrow> p_key ` set es \<inter> p_key ` set rs = {}"
      by (fastforce simp: check_loop_def)
    moreover have "check_sides c d rs es = [] \<longleftrightarrow>
        (es \<noteq> [] \<or> has_dynamic_refs (cx_index c) Exporter) \<and> (rs \<noteq> [] \<or> has_dynamic_refs (cx_index c) Receiver)"
      by (auto simp: check_sides_def Let_def)
    ultimately show ?thesis unfolding w s by auto
  qed
  have "connector_wiring_check c = [] \<longleftrightarrow>
    (\<forall>d \<in> set (section_components (cx_file c) Connector).
      (case connector_pipelines (cx_index c) (c_id d) of (as_receiver, as_exporter) \<Rightarrow>
        if as_receiver = [] \<and> as_exporter = [] then []
        else check_sides c d as_receiver as_exporter @ check_loop d as_receiver as_exporter) = [])"
    using assms(2) by (auto simp: connector_wiring_check_def section_components_def)
  then show ?thesis unfolding one declares_def by blast
qed

lemma connector_wiring_silent_iff_witness:
  "connector_wiring_check (demo_wiring [demo_pipe ''logs/1'' [''a''] [] [''f''], demo_pipe ''logs/2'' [''f''] [] [''e'']]) = [] \<and>
   p_key ` {p \<in> {demo_pipe ''logs/1'' [''a''] [] [''f''], demo_pipe ''logs/2'' [''f''] [] [''e'']}.
      names_component (cx_index (demo_wiring [demo_pipe ''logs/1'' [''a''] [] [''f''], demo_pipe ''logs/2'' [''f''] [] [''e'']]))
        Connector (parse_id ''f'') p Receiver} \<noteq> {}"
proof -
  let ?p = "demo_pipe ''logs/1'' [''a''] [] [''f'']" and ?q = "demo_pipe ''logs/2'' [''f''] [] [''e'']"
  let ?c = "demo_wiring [?p, ?q]"
  have 1: "connector_wiring_check ?c = []" by code_simp
  have i: "indexed ?c" "svc_node (f_service (cx_file ?c)) \<noteq> None" "svc_pipelines (f_service (cx_file ?c)) = [?p, ?q]"
    by (simp_all add: demo_wiring_def) (simp_all add: demo_ctx_def Let_def)
  have d: "\<not> has_dynamic_refs (cx_index ?c) Receiver" "declares (cx_file ?c) Connector (parse_id ''f'')"
    "names_component (cx_index ?c) Connector (parse_id ''f'') ?p Exporter"
    by code_simp+
  then have "{p \<in> {?p, ?q}. names_component (cx_index ?c) Connector (parse_id ''f'') p Exporter} \<noteq> {}" by blast
  then show ?thesis using 1 connector_wiring_silent_iff [OF i(1,2)] i(3) d(1,2) by auto
qed

end
