(* ===== verification/StructureRules.thy ===== *)
theory StructureRules
  imports FieldWalker
begin

section \<open>Rules about the shape of the document\<close>

text \<open>
  The rules that read the parsed config alone: duplicate-key, the unknown keys, invalid-pipeline-key,
  invalid-component-id, service-required, empty-pipeline, wrong-node-type and the two telemetry rules,
  each its own package under \<open>pkg/rule\<close>.
\<close>

subsection \<open>Keys\<close>

definition duplicate_key_check :: check where
  "duplicate_key_check c =
     map (\<lambda>e. finding_at (Some (e_key_node e)) (e_path e)
            (''duplicate key '' @ quote (e_key e) @ ''; the earlier value is discarded''))
       (f_duplicates (cx_file c))"

definition duplicate_key :: rule where
  "duplicate_key = new_rule ''duplicate-key''
     ''a mapping key declared twice silently discards the first value'' Error duplicate_key_check"

definition top_level_keys :: "string list" where
  "top_level_keys = [''connectors'', ''exporters'', ''extensions'', ''processors'', ''receivers'', ''service'']"

definition unknown_top_level_key_check :: check where
  "unknown_top_level_key_check c =
     map (\<lambda>e. (finding_at (Some (e_key_node e)) (e_path e) (''unknown top-level key '' @ quote (e_key e)))
            \<lparr>fi_hint := ''valid top-level keys: '' @ list_names top_level_keys @ suggest (e_key e) top_level_keys\<rparr>)
       (f_unknown (cx_file c))"

definition unknown_top_level_key :: rule where
  "unknown_top_level_key = new_rule ''unknown-top-level-key''
     ''top-level keys other than the component sections and service are rejected by the collector'' Error
     unknown_top_level_key_check"

definition service_keys :: "string list" where
  "service_keys = [''extensions'', ''pipelines'', ''telemetry'']"

definition unknown_service_key_check :: check where
  "unknown_service_key_check c =
     map (\<lambda>e. (finding_at (Some (e_key_node e)) (e_path e) (''unknown key '' @ quote (e_key e) @ '' in service''))
            \<lparr>fi_hint := ''service accepts extensions, pipelines and telemetry'' @ suggest (e_key e) service_keys\<rparr>)
       (svc_unknown (f_service (cx_file c)))"

definition unknown_service_key :: rule where
  "unknown_service_key = new_rule ''unknown-service-key''
     ''service accepts only extensions, pipelines and telemetry'' Error unknown_service_key_check"

definition pipeline_keys :: "string list" where
  "pipeline_keys = [''receivers'', ''processors'', ''exporters'']"

definition unknown_pipeline_key_check :: check where
  "unknown_pipeline_key_check c =
     concat (map (\<lambda>p. map (\<lambda>e.
         (finding_at (Some (e_key_node e)) (e_path e)
            (''unknown key '' @ quote (e_key e) @ '' in pipeline '' @ quote (p_key p)))
         \<lparr>fi_hint := ''pipelines accept receivers, processors and exporters'' @ suggest (e_key e) pipeline_keys\<rparr>)
       (p_unknown p)) (svc_pipelines (f_service (cx_file c))))"

definition unknown_pipeline_key :: rule where
  "unknown_pipeline_key = new_rule ''unknown-pipeline-key''
     ''pipelines accept only receivers, processors and exporters'' Error unknown_pipeline_key_check"

subsection \<open>Identifiers\<close>

definition invalid_pipeline_key_check :: check where
  "invalid_pipeline_key_check c =
     concat (map (\<lambda>p.
       (let reason = identifier_error (cx_lib c) (p_key p); path = ''service.pipelines.'' @ p_key p in
        if reason \<noteq> [] then
          [finding_at (Some (p_key_node p)) path
             (''invalid pipeline identifier '' @ quote (p_key p) @ '': '' @ reason)]
        else if is_signal (p_signal p) then []
        else [(finding_at (Some (p_key_node p)) path
                 (''pipeline '' @ quote (p_key p) @ '' does not name a known signal''))
               \<lparr>fi_hint := ''pipeline keys look like traces, metrics/internal or logs/2'' @
                  suggest (p_signal p) signals\<rparr>]))
       (svc_pipelines (f_service (cx_file c))))"

definition invalid_pipeline_key :: rule where
  "invalid_pipeline_key = new_rule ''invalid-pipeline-key''
     ''pipeline keys must be <signal> or <signal>/<name>'' Error invalid_pipeline_key_check"

definition check_identifier :: "ctx \<Rightarrow> ynode \<Rightarrow> string \<Rightarrow> finding list" where
  "check_identifier c n path =
     (let reason = identifier_error (cx_lib c) (n_value n) in
      if reason \<noteq> [] then
        [finding_at (Some n) path (''invalid component identifier '' @ quote (n_value n) @ '': '' @ reason)]
      else [])"

definition check_reference_identifier :: "ctx \<Rightarrow> cref \<Rightarrow> finding list" where
  "check_reference_identifier c r =
     (if has_expansion (n_value (r_node r)) then [] else check_identifier c (r_node r) (r_path r))"

definition invalid_component_id_check :: check where
  "invalid_component_id_check c =
     concat (map (\<lambda>k. concat (map (\<lambda>d.
         check_identifier c (c_key_node d) (section_key k @ ''.'' @ n_value (c_key_node d)))
       (section_components (cx_file c) k))) kinds) @
     concat (map (check_reference_identifier c) (svc_extensions (f_service (cx_file c)))) @
     concat (map (\<lambda>p. concat (map (\<lambda>slot. concat (map (check_reference_identifier c) (pipeline_refs p slot)))
       slots)) (svc_pipelines (f_service (cx_file c)))) @
     concat (map (\<lambda>x. check_identifier c (xr_node x) (xr_path x)) (ix_ext_refs (cx_index c)))"

definition invalid_component_id :: rule where
  "invalid_component_id = new_rule ''invalid-component-id''
     ''component identifiers must be <type> or <type>/<nonempty-name>'' Error invalid_component_id_check"

subsection \<open>Blocks that must be there\<close>

definition service_required_check :: check where
  "service_required_check c =
     (let svc = f_service (cx_file c) in
      if is_expansion (svc_node svc) \<or> is_expansion (svc_pipelines_node svc) then []
      else if svc_node svc = None then
        [(finding_at (f_root (cx_file c)) ''service'' ''config has no service block, so nothing will run'')
          \<lparr>fi_hint := ''add a service.pipelines section wiring the declared components together''\<rparr>]
      else if svc_pipelines_node svc = None then
        [finding_at (svc_key_node svc) ''service''
           ''service has no pipelines, so no telemetry will be processed'']
      else if svc_pipelines svc = [] then
        [finding_at (svc_pipelines_node svc) ''service.pipelines''
           ''service.pipelines is empty, so no telemetry will be processed'']
      else [])"

definition service_required :: rule where
  "service_required = new_rule ''service-required''
     ''a config must declare a service block with at least one pipeline'' Error service_required_check"

definition empty_pipeline_check :: check where
  "empty_pipeline_check c =
     concat (map (\<lambda>p.
       if is_expansion (Some (p_node p)) then []
       else
         (if p_receivers p = [] \<and> \<not> is_expansion (p_receivers_node p) then
            [finding_at (node_or (p_receivers_node p) (Some (p_key_node p)))
               (''service.pipelines.'' @ p_key p @ ''.receivers'')
               (''pipeline '' @ quote (p_key p) @ '' has no receivers'')]
          else []) @
         (if p_exporters p = [] \<and> \<not> is_expansion (p_exporters_node p) then
            [finding_at (node_or (p_exporters_node p) (Some (p_key_node p)))
               (''service.pipelines.'' @ p_key p @ ''.exporters'')
               (''pipeline '' @ quote (p_key p) @ '' has no exporters'')]
          else []))
       (svc_pipelines (f_service (cx_file c))))"

definition empty_pipeline :: rule where
  "empty_pipeline = new_rule ''empty-pipeline''
     ''every pipeline needs at least one receiver and one exporter'' Error empty_pipeline_check"

subsection \<open>wrong-node-type\<close>

definition wrong_kind :: "ynode option \<Rightarrow> ykind \<Rightarrow> bool" where
  "wrong_kind n k \<longleftrightarrow>
     \<not> is_null n \<and> \<not> is_expansion n \<and> (case n of None \<Rightarrow> False | Some m \<Rightarrow> n_kind m \<noteq> k)"

definition node_kind_of :: "ynode option \<Rightarrow> string" where
  "node_kind_of n = (case n of None \<Rightarrow> [] | Some m \<Rightarrow> node_kind m)"

definition check_sections :: "ctx \<Rightarrow> finding list" where
  "check_sections c =
     concat (map (\<lambda>k.
       (case f_sections (cx_file c) k of
          None \<Rightarrow> []
        | Some sec \<Rightarrow>
            if wrong_kind (Some (sec_node sec)) MappingNode then
              [finding_at (Some (sec_node sec)) (section_key k)
                 (section_key k @ '' must be a mapping of component id to settings, got '' @
                  node_kind (sec_node sec))]
            else [])) kinds)"

definition check_reference_items :: "ynode option \<Rightarrow> string \<Rightarrow> finding list" where
  "check_reference_items n path =
     (case n of
        None \<Rightarrow> []
      | Some m \<Rightarrow>
          if n_kind m \<noteq> SequenceNode then []
          else concat (map (\<lambda>(i, item).
            if n_kind item = ScalarNode then []
            else [finding_at (Some item) (index_path path i)
                    (''component reference must be a scalar, got '' @ node_kind item)])
            (List.enumerate 0 (n_content m))))"

definition check_slot_node :: "pipeline \<Rightarrow> string \<times> ynode option \<Rightarrow> finding list" where
  "check_slot_node p = (\<lambda>(name, n).
     (let path = ''service.pipelines.'' @ p_key p @ ''.'' @ name in
      check_reference_items n path @
      (if wrong_kind n SequenceNode then
         [(finding_at n path (name @ '' must be a list, got '' @ node_kind_of n))
           \<lparr>fi_hint := ''write it as a YAML sequence, e.g. '' @ name @ '': [otlp]''\<rparr>]
       else [])))"

definition check_service :: "ctx \<Rightarrow> finding list" where
  "check_service c =
     (let svc = f_service (cx_file c) in
      (if wrong_kind (svc_extensions_node svc) SequenceNode then
         [finding_at (svc_extensions_node svc) ''service.extensions''
            (''service.extensions must be a list, got '' @ node_kind_of (svc_extensions_node svc))]
       else []) @
      check_reference_items (svc_extensions_node svc) ''service.extensions'' @
      concat (map (\<lambda>p. concat (map (check_slot_node p)
        [(''receivers'', p_receivers_node p), (''processors'', p_processors_node p),
         (''exporters'', p_exporters_node p)])) (svc_pipelines svc)))"

definition check_mapping :: "ynode option \<Rightarrow> string \<Rightarrow> finding list" where
  "check_mapping n path =
     (case n of
        None \<Rightarrow> []
      | Some m \<Rightarrow>
          if is_null n \<or> n_kind m = MappingNode then []
          else if n_kind m = ScalarNode \<and> has_expansion (n_value m) then []
          else [finding_at n path (path @ '' must be a mapping, got '' @ node_kind m)])"

definition check_telemetry :: "ctx \<Rightarrow> finding list" where
  "check_telemetry c =
     (let tel = svc_telemetry (f_service (cx_file c)) in
      check_mapping (tel_node tel) ''service.telemetry'' @
      concat (map (\<lambda>sig. case sig of
          None \<Rightarrow> []
        | Some s \<Rightarrow> check_mapping (Some (ts_node s)) (''service.telemetry.'' @ ts_key s))
        [tel_logs tel, tel_metrics tel, tel_traces tel]))"

definition wrong_node_type_check :: check where
  "wrong_node_type_check c = check_sections c @ check_service c @ check_telemetry c"

definition wrong_node_type :: rule where
  "wrong_node_type = new_rule ''wrong-node-type''
     ''component sections must be mappings and pipeline slots must be lists'' Error wrong_node_type_check"

subsection \<open>service.telemetry\<close>

definition metrics_disabled :: "ynode option \<Rightarrow> bool" where
  "metrics_disabled n0 \<longleftrightarrow>
     (case resolve_alias n0 of
        None \<Rightarrow> False
      | Some n \<Rightarrow>
          if n_kind n \<noteq> ScalarNode \<or> has_expansion (n_value n) then False
          else equal_fold (trim_space (n_value n)) ''none'')"

definition telemetry_metrics_disabled_check :: check where
  "telemetry_metrics_disabled_check c =
     (case telemetry_setting (tel_metrics (svc_telemetry (f_service (cx_file c)))) ''level'' of
        None \<Rightarrow> []
      | Some e \<Rightarrow>
          if \<not> metrics_disabled (Some (e_node e)) then []
          else [(finding_at (Some (e_node e)) (e_path e)
                   (''service.telemetry.metrics.level is '' @ quote ''none'' @
                    '', so the collector reports no metrics about itself''))
                 \<lparr>fi_hint := ''there are reasons to run without them, but they are the metrics that say the '' @
                    ''collector is dropping data -- otelcol_exporter_send_failed_* and the queue sizes among '' @
                    ''them; '' @ quote ''basic'' @ '' is the level that keeps those'',
                  fi_docs := internal_telemetry_docs\<rparr>])"

definition telemetry_metrics_disabled :: rule where
  "telemetry_metrics_disabled = new_rule ''telemetry-metrics-disabled''
     ''the collector's own metrics are turned off'' Info telemetry_metrics_disabled_check"

definition deprecated_telemetry_key_check :: check where
  "deprecated_telemetry_key_check c =
     (if \<not> schema_ready c \<or>
         (case cx_schema c of None \<Rightarrow> True | Some s \<Rightarrow> compare_version (sch_collector_version s) ''v0.123.0'' < 0)
      then []
      else (case telemetry_setting (tel_metrics (svc_telemetry (f_service (cx_file c)))) ''address'' of
        None \<Rightarrow> []
      | Some e \<Rightarrow>
          [(finding_at (Some (e_key_node e)) (e_path e)
              (''setting '' @ quote ''address'' @ '' in service.telemetry.metrics is ignored from '' @
               ''collector v0.123.0 onward''))
            \<lparr>fi_hint := ''its host and port move into a pull reader: '' @
               ''readers: [{pull: {exporter: {prometheus: {host: localhost, port: 8888}}}}]; '' @
               ''as written, the collector serves its metrics where the readers say and not here'',
             fi_docs := internal_telemetry_docs\<rparr>]))"

definition deprecated_telemetry_key :: rule where
  "deprecated_telemetry_key = new_rule ''deprecated-telemetry-key''
     ''a service.telemetry key the collector no longer reads'' Warning deprecated_telemetry_key_check"

end
