(* ===== verification/ComponentRules.thy ===== *)
theory ComponentRules
  imports FieldWalker
begin

section \<open>Rules about components and the targeted release\<close>

text \<open>
  unknown-component, signal-support, component-stability and deprecated-component, each its own
  package under \<open>pkg/rule\<close>: what the schema of the release says about the types a config declares.
\<close>

subsection \<open>unknown-component\<close>

definition unknown_component_hint :: "ctx \<Rightarrow> schema \<Rightarrow> kind \<Rightarrow> string \<Rightarrow> string" where
  "unknown_component_hint c s k typ =
     (case find (\<lambda>other. other \<noteq> k \<and> lookup s other typ \<noteq> None) kinds of
        Some other \<Rightarrow>
          quote typ @ '' is '' @ article (kind_string other) @ '' '' @ kind_string other @
          ''; declare it under '' @ section_key other
      | None \<Rightarrow>
          (let dists = (case cx_dists c of
                 Some d \<Rightarrow> if sch_distribution s \<noteq> [] then d k typ else [] | None \<Rightarrow> []);
               versions = (case cx_avail c of Some a \<Rightarrow> a k typ | None \<Rightarrow> [])
           in if 0 < length dists then
                quote typ @ '' is not in the '' @ sch_distribution s @ '' distribution; it ships in '' @
                list_names dists
              else if 0 < length versions then
                quote typ @ '' exists in '' @ list_names versions @ '' but not in '' @ sch_collector_version s
              else ''checked against '' @ ctx_version c @ suggest typ (schema_types s k)))"

definition unknown_component_check :: check where
  "unknown_component_check c =
     (case cx_schema c of
        None \<Rightarrow> []
      | Some s \<Rightarrow>
          if \<not> schema_ready c then []
          else concat (map (\<lambda>k. concat (map (\<lambda>d.
            if lookup s k (id_type (c_id d)) \<noteq> None then []
            else [(finding_at (Some (c_key_node d)) (section_key k @ ''.'' @ id_string (c_id d))
                     (''unknown '' @ kind_string k @ '' type '' @ quote (id_type (c_id d)) @ '' in '' @ ctx_version c))
                   \<lparr>fi_hint := unknown_component_hint c s k (id_type (c_id d))\<rparr>])
            (section_components (cx_file c) k))) kinds))"

definition unknown_component :: rule where
  "unknown_component = new_rule ''unknown-component''
     ''a component type that does not exist in the targeted collector release'' Error unknown_component_check"

subsection \<open>signal-support\<close>

definition states_signals :: "scomp \<Rightarrow> kind \<Rightarrow> bool" where
  "states_signals sc decl_kind \<longleftrightarrow>
     (if decl_kind = Connector then 0 < length (sc_pairs sc)
      else 0 < length (sc_signals sc) \<or> 0 < length (sc_pairs sc))"

definition supports :: "scomp \<Rightarrow> kind \<Rightarrow> kind \<Rightarrow> signal \<Rightarrow> bool" where
  "supports sc decl_kind slot s \<longleftrightarrow>
     (if decl_kind \<noteq> Connector then supports_signal sc s
      else (case slot of
          Receiver \<Rightarrow> supports_as_receiver sc s
        | Exporter \<Rightarrow> supports_as_exporter sc s
        | _ \<Rightarrow> supports_signal sc s))"

definition check_signal :: "ctx \<Rightarrow> pipeline \<Rightarrow> kind \<Rightarrow> cref \<Rightarrow> finding list" where
  "check_signal c p slot r =
     (case resolve_ref (cx_index c) slot (r_id r) of
        None \<Rightarrow> []
      | Some d \<Rightarrow>
          (case ctx_lookup c (c_kind d) (id_type (r_id r)) of
             None \<Rightarrow> []
           | Some sc \<Rightarrow>
               if \<not> states_signals sc (c_kind d) \<or> supports sc (c_kind d) slot (p_signal p) then []
               else [(finding_at (Some (r_node r)) (r_path r)
                        (kind_string (c_kind d) @ '' '' @ quote (id_type (r_id r)) @ '' does not support '' @
                         p_signal p @ '' in pipeline '' @ quote (p_key p)))
                      \<lparr>fi_hint := ''it supports: '' @ signal_list sc\<rparr>]))"

definition signal_support_check :: check where
  "signal_support_check c =
     (if \<not> schema_ready c then []
      else concat (map (\<lambda>p.
        if \<not> is_signal (p_signal p) then []
        else concat (map (\<lambda>slot. concat (map (check_signal c p slot) (pipeline_refs p slot))) slots))
       (svc_pipelines (f_service (cx_file c)))))"

definition signal_support :: rule where
  "signal_support = new_rule ''signal-support''
     ''a component used in a pipeline whose signal it does not support'' Error signal_support_check"

subsection \<open>component-stability\<close>

text \<open>The loop over pipelines, slots and references, collecting each signal once, in order.\<close>

fun use_signal :: "cid \<Rightarrow> signal list \<times> signal go_set \<Rightarrow> pipeline \<times> cref \<Rightarrow> signal list \<times> signal go_set" where
  "use_signal i (out, seen) (p, r) =
     (if r_id r = i \<and> \<not> set_has seen (p_signal p)
      then (out @ [p_signal p], set_insert seen [p_signal p]) else (out, seen))"

definition used_signals :: "ctx \<Rightarrow> comp \<Rightarrow> signal list" where
  "used_signals c d =
     (if c_kind d = Extension then [[]]
      else fst (foldl (use_signal (c_id d)) ([], set_new [])
        (concat (map (\<lambda>p. concat (map (\<lambda>slot. map (\<lambda>r. (p, r)) (pipeline_refs p slot)) slots))
          (svc_pipelines (f_service (cx_file c)))))))"

definition for_signal :: "signal \<Rightarrow> string" where
  "for_signal s = (if s = [] then [] else '' for '' @ s)"

fun report_stability :: "bool \<Rightarrow> comp \<Rightarrow> scomp \<Rightarrow> signal list \<Rightarrow> finding list" where
  "report_stability report_alpha d sc [] = []"
| "report_stability report_alpha d sc (s # ss) =
     (let subject = kind_string (c_kind d) @ '' '' @ quote (id_type (c_id d)) @ for_signal s;
          path = section_key (c_kind d) @ ''.'' @ id_string (c_id d);
          base = finding_at (Some (c_key_node d)) path
      in case stability_for sc s of
           None \<Rightarrow> report_stability report_alpha d sc ss
         | Some level \<Rightarrow>
             if level = development then
               [(base (subject @ '' is in development and may change without notice''))\<lparr>fi_severity := Some Warning\<rparr>]
             else if level = alpha \<and> report_alpha then
               [base (subject @ '' is alpha; its configuration can change between releases'')]
             else report_stability report_alpha d sc ss)"

definition component_stability_check :: "bool \<Rightarrow> check" where
  "component_stability_check report_alpha c =
     (if \<not> schema_ready c then []
      else each_used_component c (\<lambda>d sc. report_stability report_alpha d sc (used_signals c d)))"

definition err_stability_settings :: string where
  "err_stability_settings = ''expected report_alpha: true or false''"

fun stability_settings :: "go_lib \<Rightarrow> bool \<Rightarrow> map_entry list \<Rightarrow> bool go_result" where
  "stability_settings lib report_alpha [] = Inr report_alpha"
| "stability_settings lib report_alpha (e # es) =
     (if me_key e \<noteq> ''report_alpha'' \<or> n_tag (me_node e) \<noteq> bool_tag then Inl err_stability_settings
      else (case lib_decode_bool lib (me_node e) of
              None \<Rightarrow> Inl err_stability_settings
            | Some b \<Rightarrow> stability_settings lib b es))"

definition stability_with_settings :: "go_lib \<Rightarrow> ynode \<Rightarrow> check go_result" where
  "stability_with_settings lib n =
     (if n_kind n \<noteq> MappingNode then Inl err_stability_settings
      else (case stability_settings lib True (map_entries n []) of
              Inl e \<Rightarrow> Inl e | Inr b \<Rightarrow> Inr (component_stability_check b)))"

definition component_stability :: rule where
  "component_stability = (new_rule ''component-stability''
     ''components below beta stability can change or break without notice'' Info
     (component_stability_check True))\<lparr>ru_with_settings := Some stability_with_settings\<rparr>"

subsection \<open>deprecated-component\<close>

definition report_deprecated :: "comp \<Rightarrow> scomp \<Rightarrow> finding list" where
  "report_deprecated d sc =
     (let path = section_key (c_kind d) @ ''.'' @ id_string (c_id d);
          subject = kind_string (c_kind d) @ '' '' @ quote (id_type (c_id d));
          base = finding_at (Some (c_key_node d)) path
      in if sc_deprecated sc \<noteq> [] then [(base (subject @ '' is deprecated''))\<lparr>fi_hint := sc_deprecated sc\<rparr>]
         else (case find (\<lambda>level. level = deprecated_level \<or> level = unmaintained) (map snd (sc_stability sc)) of
             None \<Rightarrow> []
           | Some level \<Rightarrow>
               [(base (subject @ '' is marked '' @ level @ '' upstream''))
                 \<lparr>fi_hint := ''plan a migration; it may be removed in a future release''\<rparr>]))"

definition deprecated_component_check :: check where
  "deprecated_component_check c =
     (if \<not> schema_ready c then [] else each_used_component c report_deprecated)"

definition deprecated_component :: rule where
  "deprecated_component = new_rule ''deprecated-component''
     ''a component upstream has marked as deprecated or unmaintained'' Warning deprecated_component_check"

subsection \<open>What they report\<close>

lemma used_signals_fold:
  fixes prs :: "(pipeline \<times> cref) list"
  assumes "distinct out" "set_elems seen = set out"
  shows "distinct (fst (foldl (use_signal i) (out, seen) prs)) \<and>
    set (fst (foldl (use_signal i) (out, seen) prs)) = set out \<union> {p_signal p | p r. (p, r) \<in> set prs \<and> r_id r = i}"
  using assms
proof (induction prs arbitrary: out seen)
  case Nil
  then show ?case by simp
next
  case (Cons x prs)
  obtain p r where x: "x = (p, r)" by fastforce
  show ?case
  proof (cases "r_id r = i \<and> p_signal p \<notin> set out")
    case True
    then have "use_signal i (out, seen) x = (out @ [p_signal p], set_insert seen [p_signal p])"
      using x Cons.prems(2) by simp
    then show ?thesis
      using Cons.IH [of "out @ [p_signal p]" "set_insert seen [p_signal p]"] Cons.prems True x by auto
  next
    case False
    then have "use_signal i (out, seen) x = (out, seen)" using x Cons.prems(2) by auto
    then show ?thesis using Cons.IH [of out seen] Cons.prems False x by auto
  qed
qed

text \<open>
  The signals component-stability reports on are those of the pipelines that mention the
  component's identifier in any slot, each once. The slot plays no part, so a receiver is judged
  for the signals of an exporter of the same identifier.
\<close>

lemma used_signals_set:
  assumes "c_kind d \<noteq> Extension"
  shows "distinct (used_signals c d) \<and> set (used_signals c d) =
    {p_signal p | p. p \<in> set (svc_pipelines (f_service (cx_file c))) \<and>
       (\<exists>slot \<in> set slots. \<exists>r \<in> set (pipeline_refs p slot). r_id r = c_id d)}"
proof -
  let ?prs = "concat (map (\<lambda>p. concat (map (\<lambda>slot. map (\<lambda>r. (p, r)) (pipeline_refs p slot)) slots))
          (svc_pipelines (f_service (cx_file c))))"
  have "{p_signal p | p r. (p, r) \<in> set ?prs \<and> r_id r = c_id d} =
      {p_signal p | p. p \<in> set (svc_pipelines (f_service (cx_file c))) \<and>
       (\<exists>slot \<in> set slots. \<exists>r \<in> set (pipeline_refs p slot). r_id r = c_id d)}"
    by (simp add: image_iff) blast
  then show ?thesis
    using used_signals_fold [of "[]" "set_new []" "c_id d" ?prs] assms by (simp add: used_signals_def)
qed

end
