(* ===== verification/MemoryLimiter.thy ===== *)
theory MemoryLimiter
  imports FieldWalker "HOL-Library.Signed_Division"
begin

section \<open>The memory limiter\<close>

text \<open>
  \<open>pkg/rule/memorylimiter.go\<close>, the settings of a \<open>memory_limiter\<close> and the limit it enforces, and the
  two rules that read it: \<open>pkg/rule/memorylimiterconfig\<close>, for values the collector refuses, and
  \<open>pkg/rule/memorylimitersizing\<close>, for values that do not fit the container. Products and sums of
  byte counts are 64 bits wide, so each is written with \<^const>\<open>wrap64\<close>.
\<close>

definition spike_default_percent :: int where "spike_default_percent = 20"
definition whole_percent :: int where "whole_percent = 100"

record memory_limiter =
  ml_id :: cid
  ml_node :: "ynode option"
  ml_path :: string
  ml_check_interval :: setting
  ml_limit_mib :: setting
  ml_limit_percent :: setting
  ml_spike_mib :: setting
  ml_spike_percent :: setting

definition limiter_name :: "memory_limiter \<Rightarrow> string" where
  "limiter_name m = ''processor '' @ quote (id_string (ml_id m))"

definition limiter_at :: "memory_limiter \<Rightarrow> setting \<Rightarrow> ynode option" where
  "limiter_at m s = node_or (st_node s) (ml_node m)"

definition hard_limit :: "memory_limiter \<Rightarrow> environment \<Rightarrow> int option" where
  "hard_limit m env =
     (if unknown (ml_limit_mib m) \<or> unknown (ml_limit_percent m) then None
      else if positive (ml_limit_mib m) then
        (if max_int64 div Mi < st_num (ml_limit_mib m) then None
         else Some (wrap64 (st_num (ml_limit_mib m) * Mi)))
      else if positive (ml_limit_percent m) \<and> 0 < env_memory_limit env then
        (if max_int64 div st_num (ml_limit_percent m) < env_memory_limit env then None
         else Some (wrap64 (env_memory_limit env * st_num (ml_limit_percent m)) sdiv whole_percent))
      else None)"

definition read_limiter_entry :: "ctx \<Rightarrow> memory_limiter \<Rightarrow> map_entry \<Rightarrow> memory_limiter" where
  "read_limiter_entry c m e =
     (let n = Some (me_node e) in
      if me_key e = ''check_interval'' then m\<lparr>ml_check_interval := read_duration (cx_lib c) n\<rparr>
      else if me_key e = ''limit_mib'' then m\<lparr>ml_limit_mib := ctx_read_int c n\<rparr>
      else if me_key e = ''limit_percentage'' then m\<lparr>ml_limit_percent := ctx_read_int c n\<rparr>
      else if me_key e = ''spike_limit_mib'' then m\<lparr>ml_spike_mib := ctx_read_int c n\<rparr>
      else if me_key e = ''spike_limit_percentage'' then m\<lparr>ml_spike_percent := ctx_read_int c n\<rparr>
      else m)"

definition read_memory_limiter :: "ctx \<Rightarrow> comp \<Rightarrow> memory_limiter" where
  "read_memory_limiter c d =
     (let lim = \<lparr>ml_id = c_id d, ml_node = node_or (Some (c_key_node d)) (Some (c_value_node d)),
            ml_path = section_key Processor @ ''.'' @ id_string (c_id d),
            ml_check_interval = absent, ml_limit_mib = absent, ml_limit_percent = absent,
            ml_spike_mib = absent, ml_spike_percent = absent\<rparr>
      in if n_kind (c_value_node d) \<noteq> MappingNode then lim
         else foldl (read_limiter_entry c) lim (map_entries (c_value_node d) (ml_path lim)))"

definition memory_limiters :: "ctx \<Rightarrow> memory_limiter list" where
  "memory_limiters c = processors_of_type (cx_file c) memory_limiter_type (read_memory_limiter c)"

subsection \<open>memory-limiter-config\<close>

definition millisecond :: int where "millisecond = 1000000"
definition second :: int where "second = 1000 * millisecond"

definition recommended_interval :: int where "recommended_interval = second"
definition interval_floor :: int where "interval_floor = 100 * millisecond"
definition interval_ceiling :: int where "interval_ceiling = 5 * second"

definition interval_hint :: string where
  "interval_hint = ''set check_interval: 1s, the value upstream recommends''"

definition check_interval :: "memory_limiter \<Rightarrow> finding list" where
  "check_interval m =
     (let path = join_path (ml_path m) ''check_interval'';
          s = ml_check_interval m; interval = st_num s
      in if \<not> st_present s then
           [(finding_at (ml_node m) path (limiter_name m @
               '' has no check_interval, and its default of 0s is rejected: '' @
               [CHR 0x27] @ ''check_interval' must be greater than zero''))
             \<lparr>fi_hint := interval_hint, fi_docs := memory_limiter_docs\<rparr>]
         else if st_known s \<and> interval \<le> 0 then
           [(finding_at (limiter_at m s) path (limiter_name m @ '' sets check_interval to '' @
               duration_string interval @ '': 'check_interval' must be greater than zero''))
             \<lparr>fi_hint := interval_hint, fi_docs := memory_limiter_docs\<rparr>]
         else if st_known s \<and> (interval < interval_floor \<or> interval_ceiling < interval) then
           [(finding_at (limiter_at m s) path (limiter_name m @ '' checks memory every '' @
               duration_string interval @ ''; upstream recommends '' @ duration_string recommended_interval))
             \<lparr>fi_hint := ''a long interval lets memory run away between checks, a very short one costs CPU'',
              fi_docs := memory_limiter_docs, fi_severity := Some Info\<rparr>]
         else [])"

definition check_limits :: "memory_limiter \<Rightarrow> finding list" where
  "check_limits m =
     (if positive (ml_limit_mib m) \<or> positive (ml_limit_percent m) then []
      else if unknown (ml_limit_mib m) \<or> unknown (ml_limit_percent m) then []
      else [(finding_at (ml_node m) (join_path (ml_path m) ''limit_mib'')
               (limiter_name m @ '' sets neither limit_mib nor limit_percentage: '' @
                [CHR 0x27] @ ''limit_mib' or 'limit_percentage' must be greater than zero''))
             \<lparr>fi_hint := ''set limit_mib to the memory the collector may use; spike_limit_mib then defaults to '' @
                itoa spike_default_percent @ ''% of it'', fi_docs := memory_limiter_docs\<rparr>])"

definition check_percentage_range :: "memory_limiter \<Rightarrow> string \<times> setting \<Rightarrow> finding list" where
  "check_percentage_range m kv =
     (case kv of (key, s) \<Rightarrow>
       if st_known s \<and> whole_percent < st_num s then
         [(finding_at (limiter_at m s) (join_path (ml_path m) key)
            (limiter_name m @ '' sets '' @ key @ '' to '' @ itoa (st_num s) @ '': '' @
             [CHR 0x27] @ ''limit_percentage' and 'spike_limit_percentage' must be greater than zero '' @
             ''and less than or equal to hundred''))
          \<lparr>fi_docs := memory_limiter_docs\<rparr>]
       else [])"

definition check_percentages :: "memory_limiter \<Rightarrow> finding list" where
  "check_percentages m = concat (map (check_percentage_range m)
     [(''limit_percentage'', ml_limit_percent m), (''spike_limit_percentage'', ml_spike_percent m)])"

definition check_spikes :: "memory_limiter \<Rightarrow> finding list" where
  "check_spikes m =
     (if st_known (ml_spike_mib m) \<and> positive (ml_limit_mib m) \<and>
         st_num (ml_limit_mib m) \<le> st_num (ml_spike_mib m) then
        [(finding_at (limiter_at m (ml_spike_mib m)) (join_path (ml_path m) ''spike_limit_mib'')
           (limiter_name m @ '' sets spike_limit_mib to '' @ itoa (st_num (ml_spike_mib m)) @
            '' and limit_mib to '' @ itoa (st_num (ml_limit_mib m)) @ '': '' @
            [CHR 0x27] @ ''spike_limit_mib' must be smaller than 'limit_mib'' @ [CHR 0x27]))
         \<lparr>fi_hint := ''leave spike_limit_mib out to take the default of '' @ itoa spike_default_percent @
            ''% of limit_mib, which is where upstream suggests starting'', fi_docs := memory_limiter_docs\<rparr>]
      else []) @
     (if st_known (ml_spike_percent m) \<and> positive (ml_limit_percent m) \<and>
         st_num (ml_limit_percent m) \<le> st_num (ml_spike_percent m) then
        [(finding_at (limiter_at m (ml_spike_percent m)) (join_path (ml_path m) ''spike_limit_percentage'')
           (limiter_name m @ '' sets spike_limit_percentage to '' @ itoa (st_num (ml_spike_percent m)) @
            '' and limit_percentage to '' @ itoa (st_num (ml_limit_percent m)) @ '': '' @
            [CHR 0x27] @ ''spike_limit_percentage' must be smaller than 'limit_percentage'' @ [CHR 0x27]))
         \<lparr>fi_docs := memory_limiter_docs\<rparr>]
      else []) @
     check_percentages m"

definition check_uint32 :: "ctx \<Rightarrow> memory_limiter \<Rightarrow> string \<times> setting \<Rightarrow> finding list" where
  "check_uint32 c m kv =
     (case kv of (key, s) \<Rightarrow>
       if \<not> invalid_uint32 (cx_lib c) s then []
       else [(finding_at (limiter_at m s) (join_path (ml_path m) key)
               (limiter_name m @ '' sets '' @ key @ '' to a value the uint32 field cannot decode''))
             \<lparr>fi_hint := ''use an unsigned integer between 0 and 4294967295'', fi_docs := memory_limiter_docs\<rparr>])"

definition check_range :: "ctx \<Rightarrow> memory_limiter \<Rightarrow> finding list" where
  "check_range c m = concat (map (check_uint32 c m)
     [(''limit_mib'', ml_limit_mib m), (''spike_limit_mib'', ml_spike_mib m),
      (''limit_percentage'', ml_limit_percent m), (''spike_limit_percentage'', ml_spike_percent m)])"

text \<open>A value out of range ends the checks of the instance (\<open>continue\<close>).\<close>

definition check_limiter :: "ctx \<Rightarrow> memory_limiter \<Rightarrow> finding list" where
  "check_limiter c m =
     check_interval m @
     (if check_range c m \<noteq> [] then check_range c m else check_limits m @ check_spikes m)"

definition memory_limiter_config_check :: check where
  "memory_limiter_config_check c = concat (map (check_limiter c) (memory_limiters c))"

definition memory_limiter_config :: rule where
  "memory_limiter_config = new_rule ''memory-limiter-config''
     ''a memory_limiter the collector will refuse to start'' Error memory_limiter_config_check"

subsection \<open>memory-limiter-sizing\<close>

definition process_overhead :: int where "process_overhead = 50 * Mi"
definition ceiling_percent :: int where "ceiling_percent = 80"

definition check_percentage :: "ctx \<Rightarrow> memory_limiter \<Rightarrow> finding list" where
  "check_percentage c m =
     (if 0 < env_memory_limit (cx_env c) \<or> positive (ml_limit_mib m) \<or> unknown (ml_limit_mib m) then []
      else if \<not> positive (ml_limit_percent m) \<or> whole_percent < st_num (ml_limit_percent m) then []
      else [(finding_at (limiter_at m (ml_limit_percent m)) (join_path (ml_path m) ''limit_percentage'')
               (limiter_name m @ '' limits memory by percentage, but the container has no memory limit''))
             \<lparr>fi_hint := ''the percentage resolves against the node's memory instead, so the limiter is '' @
                ''effectively off; set a container memory limit, or use limit_mib'',
              fi_docs := memory_limiter_docs\<rparr>])"

definition sizing_hint :: string where
  "sizing_hint = ''keep the hard limit near '' @ itoa ceiling_percent @
     ''% of the container memory limit, and set GOMEMLIMIT to about '' @ itoa ceiling_percent @
     ''% of the hard limit so the collector collects garbage before the limiter has to refuse data''"

definition check_limit :: "ctx \<Rightarrow> memory_limiter \<Rightarrow> int \<Rightarrow> finding list" where
  "check_limit c m hard =
     (let limit = env_memory_limit (cx_env c);
          f = (\<lambda>message. (finding_at (limiter_at m (ml_limit_mib m)) (ml_path m) message)
                \<lparr>fi_hint := sizing_hint, fi_docs := memory_limiter_docs\<rparr>)
      in if limit \<le> 0 then []
         else if limit \<le> hard then
           [(f (limiter_name m @ '' enforces '' @ format_quantity hard @
                '', at or above the container memory limit of '' @ format_quantity limit @
                ''; the kernel kills the collector before the limiter engages''))
             \<lparr>fi_severity := Some Error\<rparr>]
         else if limit < wrap64 (hard + process_overhead) then
           [f (limiter_name m @ '' enforces '' @ format_quantity hard @ '' of the container's '' @
               format_quantity limit @ '', leaving '' @ format_quantity (wrap64 (limit - hard)) @
               ''; the process runs about '' @ format_quantity process_overhead @
               '' above what the limiter counts'')]
         else if wrap64 (limit * ceiling_percent) sdiv whole_percent < hard then
           [f (limiter_name m @ '' enforces '' @ format_quantity hard @ '', above '' @
               itoa ceiling_percent @ ''% of the container memory limit of '' @ format_quantity limit)]
         else [])"

definition check_request :: "ctx \<Rightarrow> memory_limiter \<Rightarrow> int \<Rightarrow> finding list" where
  "check_request c m hard =
     (let request = env_memory_request (cx_env c) in
      if request \<le> 0 \<or> hard \<le> request then []
      else [(finding_at (limiter_at m (ml_limit_mib m)) (ml_path m)
               (limiter_name m @ '' may use '' @ format_quantity hard @
                '', above the container memory request of '' @ format_quantity request))
             \<lparr>fi_hint := ''the pod is Burstable and is evicted first under node pressure; '' @
                ''collectors usually set the memory request equal to the limit'',
              fi_docs := kubernetes_resource_docs, fi_severity := Some Info\<rparr>])"

definition memory_limiter_sizing_check :: check where
  "memory_limiter_sizing_check c =
     (if \<not> env_known (cx_env c) then []
      else concat (map (\<lambda>m. check_percentage c m @
        (case hard_limit m (cx_env c) of
           None \<Rightarrow> []
         | Some hard \<Rightarrow> check_limit c m hard @ check_request c m hard)) (memory_limiters c)))"

definition memory_limiter_sizing :: rule where
  "memory_limiter_sizing = new_rule ''memory-limiter-sizing''
     ''a memory_limiter whose limits do not fit the container it runs in'' Warning
     memory_limiter_sizing_check"

subsection \<open>What the limit is\<close>

lemma wrap64_nonneg: "0 \<le> n \<Longrightarrow> n \<le> max_int64 \<Longrightarrow> wrap64 n = n"
  by (rule wrap64_id) (auto simp: min_int64_def)

lemma le_div_iff_mult_le:
  fixes a b k :: int
  assumes "0 < b"
  shows "a \<le> k div b \<longleftrightarrow> a * b \<le> k"
proof
  assume "a \<le> k div b"
  then have "a * b \<le> k div b * b" using assms by (simp add: mult_right_mono)
  also have "\<dots> \<le> k" using pos_mod_sign [OF assms, of k] by (simp flip: minus_mod_eq_div_mult)
  finally show "a * b \<le> k" .
next
  assume "a * b \<le> k"
  then have "a * b div b \<le> k div b" using assms by (rule zdiv_mono1)
  then show "a \<le> k div b" using assms by simp
qed

lemma sdiv_pos: "0 \<le> (a::int) \<Longrightarrow> 0 < b \<Longrightarrow> a sdiv b = a div b"
  by (auto simp: signed_divide_int_def sgn_if)

lemma hard_limit_facts:
  "hard_limit m env =
     (if unknown (ml_limit_mib m) \<or> unknown (ml_limit_percent m) then None
      else if positive (ml_limit_mib m) then
        (if st_num (ml_limit_mib m) * Mi \<le> max_int64 then Some (st_num (ml_limit_mib m) * Mi) else None)
      else if positive (ml_limit_percent m) \<and> 0 < env_memory_limit env then
        (if env_memory_limit env * st_num (ml_limit_percent m) \<le> max_int64
         then Some (env_memory_limit env * st_num (ml_limit_percent m) div 100) else None)
      else None) \<and>
   (case hard_limit m env of None \<Rightarrow> True | Some h \<Rightarrow> 0 \<le> h \<and> h \<le> max_int64)"
proof -
  have Mi: "0 < Mi" by (simp add: Mi_def)
  have fits: "max_int64 div b < a \<longleftrightarrow> max_int64 < a * b" if "0 < b" for a b
    using le_div_iff_mult_le [OF that, of a max_int64] by linarith
  have exact: "wrap64 (a * b) = a * b" "0 \<le> a * b" if "0 < a" "0 < b" "a * b \<le> max_int64" for a b
    using that by (simp_all add: wrap64_nonneg)
  have shrink: "0 \<le> x div 100 \<and> x div 100 \<le> max_int64" if "0 \<le> x" "x \<le> max_int64" for x :: int
    using that by linarith
  show ?thesis
    using fits [OF Mi] fits exact Mi shrink
    by (auto simp: hard_limit_def positive_def whole_percent_def sdiv_pos not_less)
qed

text \<open>
  C10: \<open>HardLimit\<close> answers the exact number of bytes the settings stand for, never a wrapped one:
  \<open>limit_mib\<close> mebibytes when it is positive, else the percentage of the container's limit rounded
  down, and nothing when either setting is unknown, neither applies, or the product the code forms
  does not fit an int64.
\<close>

theorem hard_limit_exact:
  "hard_limit m env =
     (if unknown (ml_limit_mib m) \<or> unknown (ml_limit_percent m) then None
      else if positive (ml_limit_mib m) then
        (if st_num (ml_limit_mib m) * Mi \<le> max_int64 then Some (st_num (ml_limit_mib m) * Mi) else None)
      else if positive (ml_limit_percent m) \<and> 0 < env_memory_limit env then
        (if env_memory_limit env * st_num (ml_limit_percent m) \<le> max_int64
         then Some (env_memory_limit env * st_num (ml_limit_percent m) div 100) else None)
      else None) \<and>
   (case hard_limit m env of None \<Rightarrow> True | Some h \<Rightarrow> 0 \<le> h \<and> h \<le> max_int64)"
  by (rule hard_limit_facts)

text \<open>A limiter of 400 mebibytes, then one whose percentage of the container does not fit.\<close>

definition demo_setting :: "int \<Rightarrow> setting" where
  "demo_setting i = \<lparr>st_node = Some (y_int (itoa i)), st_present = True, st_known = True, st_num = i\<rparr>"

definition demo_limiter :: "setting \<Rightarrow> setting \<Rightarrow> memory_limiter" where
  "demo_limiter mib percent =
     \<lparr>ml_id = parse_id ''memory_limiter'', ml_node = None, ml_path = ''processors.memory_limiter'',
      ml_check_interval = demo_setting second, ml_limit_mib = mib, ml_limit_percent = percent,
      ml_spike_mib = absent, ml_spike_percent = absent\<rparr>"

definition demo_env :: "int \<Rightarrow> int \<Rightarrow> environment" where
  "demo_env request limit = \<lparr>env_kubernetes = True, env_host_network = None,
     env_memory_request = request, env_memory_limit = limit\<rparr>"

lemma hard_limit_exact_witness:
  "hard_limit (demo_limiter (demo_setting 400) absent) (demo_env 0 0) = Some (400 * Mi) \<and>
   hard_limit (demo_limiter absent (demo_setting 75)) (demo_env 0 (512 * Mi)) = Some (384 * Mi) \<and>
   hard_limit (demo_limiter absent (demo_setting 75)) (demo_env 0 (2 ^ 60)) = None"
  using hard_limit_exact [of "demo_limiter (demo_setting 400) absent" "demo_env 0 0"]
    hard_limit_exact [of "demo_limiter absent (demo_setting 75)" "demo_env 0 (512 * Mi)"]
    hard_limit_exact [of "demo_limiter absent (demo_setting 75)" "demo_env 0 (2 ^ 60)"]
  by (simp add: demo_limiter_def demo_setting_def demo_env_def absent_def unknown_def positive_def
      Mi_def max_int64_def)

subsection \<open>What the collector refuses\<close>

text \<open>
  What the messages of memory-limiter-config quote from upstream's validation, on settings that are
  all written out: the interval is positive, the sizes are uint32 values, one of the limits is
  positive, a spike is below its limit, and a percentage is at most a hundred. A setting left out
  counts as zero.
\<close>

definition limiter_settings :: "memory_limiter \<Rightarrow> setting list" where
  "limiter_settings m =
     [ml_check_interval m, ml_limit_mib m, ml_limit_percent m, ml_spike_mib m, ml_spike_percent m]"

definition limiter_starts :: "go_lib \<Rightarrow> memory_limiter \<Rightarrow> bool" where
  "limiter_starts lib m \<longleftrightarrow>
     0 < st_num (ml_check_interval m) \<and>
     list_all (\<lambda>s. \<not> invalid_uint32 lib s)
       [ml_limit_mib m, ml_limit_percent m, ml_spike_mib m, ml_spike_percent m] \<and>
     (0 < st_num (ml_limit_mib m) \<or> 0 < st_num (ml_limit_percent m)) \<and>
     (0 < st_num (ml_limit_mib m) \<longrightarrow> st_num (ml_spike_mib m) < st_num (ml_limit_mib m)) \<and>
     (0 < st_num (ml_limit_percent m) \<longrightarrow> st_num (ml_spike_percent m) < st_num (ml_limit_percent m)) \<and>
     st_num (ml_limit_percent m) \<le> 100 \<and> st_num (ml_spike_percent m) \<le> 100"

definition setting_ok :: "setting \<Rightarrow> bool" where
  "setting_ok s \<longleftrightarrow> st_present s \<or> s = absent"

lemma setting_ok_read [simp]:
  "setting_ok absent" "setting_ok (read_int lib n)" "setting_ok (read_duration lib n)"
  by (auto simp: setting_ok_def read_int_def read_duration_def Let_def split: option.split go_float.split)

lemma setting_ok_ctx_read [simp]: "setting_ok (ctx_read_int c (Some n))"
  by (auto simp: setting_ok_def ctx_read_int_def read_int_def Let_def split: option.split go_float.split)

lemma read_limiter_entry_ok:
  "list_all setting_ok (limiter_settings m) \<Longrightarrow> list_all setting_ok (limiter_settings (read_limiter_entry c m e))"
  by (simp add: read_limiter_entry_def limiter_settings_def Let_def)

lemma memory_limiters_ok: "m \<in> set (memory_limiters c) \<Longrightarrow> list_all setting_ok (limiter_settings m)"
proof -
  have "list_all setting_ok (limiter_settings m) \<Longrightarrow>
      list_all setting_ok (limiter_settings (foldl (read_limiter_entry c) m es))" for m es
    by (induction es arbitrary: m) (simp_all add: read_limiter_entry_ok)
  then show "m \<in> set (memory_limiters c) \<Longrightarrow> list_all setting_ok (limiter_settings m)"
    by (auto simp: memory_limiters_def processors_of_type_def read_memory_limiter_def Let_def
        limiter_settings_def split: if_splits)
qed

definition info_only :: "finding list \<Rightarrow> bool" where
  "info_only fs \<longleftrightarrow> list_all (\<lambda>f. fi_severity f = Some Info) fs"

lemma info_only_append [simp]: "info_only (xs @ ys) \<longleftrightarrow> info_only xs \<and> info_only ys"
  by (simp add: info_only_def)

lemma info_only_errors: "list_all (\<lambda>f. fi_severity f = None) fs \<Longrightarrow> info_only fs \<longleftrightarrow> fs = []"
  by (cases fs) (auto simp: info_only_def)

lemma errors_only:
  "list_all (\<lambda>f. fi_severity f = None) (check_range c m)"
  "list_all (\<lambda>f. fi_severity f = None) (check_limits m)"
  "list_all (\<lambda>f. fi_severity f = None) (check_spikes m)"
  by (simp_all add: check_range_def check_uint32_def check_limits_def check_spikes_def check_percentages_def
      check_percentage_range_def finding_at_def)

lemma check_limiter_info_only:
  assumes "list_all setting_ok (limiter_settings m)" "list_all (\<lambda>s. \<not> unknown s) (limiter_settings m)"
  shows "info_only (check_limiter c m) \<longleftrightarrow> limiter_starts (cx_lib c) m"
proof -
  have known_or_absent: "st_known s \<or> s = absent" if "s \<in> set (limiter_settings m)" for s
    using assms that by (auto simp: list_all_iff unknown_def setting_ok_def)
  note known = known_or_absent [of "ml_check_interval m"] known_or_absent [of "ml_limit_mib m"]
    known_or_absent [of "ml_limit_percent m"]
  have "st_present (ml_check_interval m) \<or> ml_check_interval m = absent"
    using assms(1) by (simp add: limiter_settings_def setting_ok_def)
  then have 1: "info_only (check_interval m) \<longleftrightarrow> 0 < st_num (ml_check_interval m)"
    using known(1) by (auto simp: limiter_settings_def check_interval_def info_only_def Let_def finding_at_def absent_def)
  have 2: "check_range c m = [] \<longleftrightarrow> list_all (\<lambda>s. \<not> invalid_uint32 (cx_lib c) s)
       [ml_limit_mib m, ml_limit_percent m, ml_spike_mib m, ml_spike_percent m]"
    by (auto simp: check_range_def check_uint32_def)
  have 3: "check_limits m = [] \<longleftrightarrow> 0 < st_num (ml_limit_mib m) \<or> 0 < st_num (ml_limit_percent m)"
    using known(2,3) by (auto simp: limiter_settings_def check_limits_def positive_def unknown_def absent_def)
  have 4: "check_spikes m = [] \<longleftrightarrow>
     (0 < st_num (ml_limit_mib m) \<longrightarrow> st_num (ml_spike_mib m) < st_num (ml_limit_mib m)) \<and>
     (0 < st_num (ml_limit_percent m) \<longrightarrow> st_num (ml_spike_percent m) < st_num (ml_limit_percent m)) \<and>
     st_num (ml_limit_percent m) \<le> 100 \<and> st_num (ml_spike_percent m) \<le> 100"
  proof -
    have zero: "\<not> st_known s \<Longrightarrow> st_num s = 0" if "s \<in> set (limiter_settings m)" for s
      using known_or_absent [OF that] by (auto simp: absent_def)
    have below: "\<not> (ka \<and> (kb \<and> 0 < b) \<and> b \<le> a) \<longleftrightarrow> (0 < b \<longrightarrow> a < b)"
      if "\<not> ka \<Longrightarrow> a = 0" "\<not> kb \<Longrightarrow> b = 0" for ka kb and a b :: int
      using that by (cases ka; cases kb) auto
    have most: "\<not> (k \<and> 100 < a) \<longleftrightarrow> a \<le> 100" if "\<not> k \<Longrightarrow> a = 0" for k and a :: int
      using that by (cases k) auto
    have "check_spikes m = [] \<longleftrightarrow>
       \<not> (st_known (ml_spike_mib m) \<and> positive (ml_limit_mib m) \<and> st_num (ml_limit_mib m) \<le> st_num (ml_spike_mib m)) \<and>
       \<not> (st_known (ml_spike_percent m) \<and> positive (ml_limit_percent m) \<and>
          st_num (ml_limit_percent m) \<le> st_num (ml_spike_percent m)) \<and>
       \<not> (st_known (ml_limit_percent m) \<and> 100 < st_num (ml_limit_percent m)) \<and>
       \<not> (st_known (ml_spike_percent m) \<and> 100 < st_num (ml_spike_percent m))"
      by (simp add: check_spikes_def check_percentages_def check_percentage_range_def whole_percent_def)
    then show ?thesis
      using below [OF zero [of "ml_spike_mib m"] zero [of "ml_limit_mib m"]]
        below [OF zero [of "ml_spike_percent m"] zero [of "ml_limit_percent m"]]
        most [OF zero [of "ml_limit_percent m"]] most [OF zero [of "ml_spike_percent m"]]
      by (simp add: limiter_settings_def positive_def)
  qed
  show ?thesis
    using 1 2 3 4 by (auto simp: check_limiter_def limiter_starts_def info_only_errors errors_only)
qed

text \<open>
  C11: on limiters whose settings are all written out, memory-limiter-config reports an error exactly
  when some limiter is one the collector refuses to start: what is left otherwise are remarks, at
  severity info, about an unusual interval.
\<close>

theorem memory_limiter_config_exact:
  assumes "\<forall>m \<in> set (memory_limiters c). list_all (\<lambda>s. \<not> unknown s) (limiter_settings m)"
  shows "(\<exists>f \<in> set (memory_limiter_config_check c). fi_severity f \<noteq> Some Info) \<longleftrightarrow>
    (\<exists>m \<in> set (memory_limiters c). \<not> limiter_starts (cx_lib c) m)"
proof -
  have "info_only (check_limiter c m) \<longleftrightarrow> limiter_starts (cx_lib c) m" if "m \<in> set (memory_limiters c)" for m
    using check_limiter_info_only memory_limiters_ok assms that by blast
  then show ?thesis
    by (fastforce simp: memory_limiter_config_check_def info_only_def list_all_iff)
qed

definition demo_limiter_ctx :: "(string \<times> ynode) list \<Rightarrow> environment \<Rightarrow> ctx" where
  "demo_limiter_ctx kvs env = demo_ctx (demo_schema Exporter ''e'' demo_field)
     [demo_component Processor ''memory_limiter'' (y_map kvs)] [] env"

lemma memory_limiter_config_exact_witness:
  "length (memory_limiter_config_check (demo_limiter_ctx
      [(''check_interval'', y_str ''10s''), (''limit_mib'', y_int ''400'')] no_environment)) = 1 \<and>
   list_all (limiter_starts demo_lib) (memory_limiters (demo_limiter_ctx
      [(''check_interval'', y_str ''10s''), (''limit_mib'', y_int ''400'')] no_environment)) \<and>
   length (memory_limiter_config_check (demo_limiter_ctx
      [(''check_interval'', y_str ''1s''), (''limit_mib'', y_int ''400''), (''spike_limit_mib'', y_int ''400'')]
      no_environment)) = 1 \<and>
   list_ex (\<lambda>m. \<not> limiter_starts demo_lib m) (memory_limiters (demo_limiter_ctx
      [(''check_interval'', y_str ''1s''), (''limit_mib'', y_int ''400''), (''spike_limit_mib'', y_int ''400'')]
      no_environment))"
proof -
  let ?c = "demo_limiter_ctx [(''check_interval'', y_str ''10s''), (''limit_mib'', y_int ''400'')] no_environment"
  let ?d = "demo_limiter_ctx [(''check_interval'', y_str ''1s''), (''limit_mib'', y_int ''400''),
    (''spike_limit_mib'', y_int ''400'')] no_environment"
  have l: "cx_lib ?c = demo_lib" "cx_lib ?d = demo_lib"
    by (simp_all add: demo_limiter_ctx_def demo_ctx_def Let_def)
  have "list_all (\<lambda>m. list_all (\<lambda>s. \<not> unknown s) (limiter_settings m)) (memory_limiters ?c)"
    "list_all (\<lambda>m. list_all (\<lambda>s. \<not> unknown s) (limiter_settings m)) (memory_limiters ?d)"
    by code_simp+
  then have h: "\<forall>m \<in> set (memory_limiters ?c). list_all (\<lambda>s. \<not> unknown s) (limiter_settings m)"
    "\<forall>m \<in> set (memory_limiters ?d). list_all (\<lambda>s. \<not> unknown s) (limiter_settings m)"
    by (simp_all only: list_all_iff)
  have 1: "length (memory_limiter_config_check ?c) = 1 \<and> info_only (memory_limiter_config_check ?c)" by code_simp
  have 2: "length (memory_limiter_config_check ?d) = 1 \<and> \<not> info_only (memory_limiter_config_check ?d)" by code_simp
  have "list_all (limiter_starts demo_lib) (memory_limiters ?c)"
    using memory_limiter_config_exact [OF h(1)] 1 l by (auto simp: info_only_def list_all_iff)
  moreover have "list_ex (\<lambda>m. \<not> limiter_starts demo_lib m) (memory_limiters ?d)"
    using memory_limiter_config_exact [OF h(2)] 2 l by (auto simp: info_only_def list_all_iff list_ex_iff)
  ultimately show ?thesis using 1 2 by blast
qed

subsection \<open>What fits the container\<close>

lemma hard_limit_range: "hard_limit m env = Some h \<Longrightarrow> 0 \<le> h \<and> h \<le> max_int64"
  using hard_limit_facts [of m env] by (auto split: option.splits)

lemma check_limit_severities:
  assumes "env_memory_limit (cx_env c) \<le> max_int64 div 80" "0 \<le> hard"
  shows "map fi_severity (check_limit c m hard) =
    (if env_memory_limit (cx_env c) \<le> 0 then []
     else if env_memory_limit (cx_env c) \<le> hard then [Some Error]
     else if env_memory_limit (cx_env c) < hard + 50 * Mi \<or> 80 * env_memory_limit (cx_env c) < 100 * hard
     then [None] else [])"
proof -
  let ?l = "env_memory_limit (cx_env c)"
  have "hard + 50 * Mi \<le> max_int64" if "hard < ?l"
    using that assms(1) by (simp add: max_int64_def Mi_def)
  then have over: "wrap64 (hard + process_overhead) = hard + 50 * Mi" if "hard < ?l"
    using that assms(2) by (simp add: process_overhead_def Mi_def wrap64_nonneg)
  have "wrap64 (?l * ceiling_percent) sdiv whole_percent = ?l * 80 div 100" if "0 < ?l"
    using that assms(1) by (simp add: ceiling_percent_def whole_percent_def wrap64_nonneg sdiv_pos max_int64_def)
  then have share: "wrap64 (?l * ceiling_percent) sdiv whole_percent < hard \<longleftrightarrow> 80 * ?l < 100 * hard" if "0 < ?l"
    using that by linarith
  show ?thesis
    using over share by (simp add: check_limit_def Let_def finding_at_def)
qed

definition fits_container :: "environment \<Rightarrow> int \<Rightarrow> bool" where
  "fits_container env hard \<longleftrightarrow>
     (0 < env_memory_limit env \<longrightarrow>
        hard + 50 * Mi \<le> env_memory_limit env \<and> 100 * hard \<le> 80 * env_memory_limit env) \<and>
     (0 < env_memory_request env \<longrightarrow> hard \<le> env_memory_request env)"

definition bounded_percentage :: "environment \<Rightarrow> memory_limiter \<Rightarrow> bool" where
  "bounded_percentage env m \<longleftrightarrow>
     0 < env_memory_limit env \<or> positive (ml_limit_mib m) \<or> unknown (ml_limit_mib m) \<or>
     \<not> positive (ml_limit_percent m) \<or> 100 < st_num (ml_limit_percent m)"

lemma check_limit_request_nil:
  assumes "env_memory_limit (cx_env c) \<le> max_int64 div 80" "0 \<le> hard"
  shows "check_limit c m hard @ check_request c m hard = [] \<longleftrightarrow> fits_container (cx_env c) hard"
proof -
  have "check_limit c m hard = [] \<longleftrightarrow> map fi_severity (check_limit c m hard) = []" by simp
  also have "\<dots> \<longleftrightarrow> (0 < env_memory_limit (cx_env c) \<longrightarrow>
      hard + 50 * Mi \<le> env_memory_limit (cx_env c) \<and> 100 * hard \<le> 80 * env_memory_limit (cx_env c))"
    using assms(2) unfolding check_limit_severities [OF assms] by (auto simp: Mi_def)
  finally have "check_limit c m hard = [] \<longleftrightarrow> (0 < env_memory_limit (cx_env c) \<longrightarrow>
      hard + 50 * Mi \<le> env_memory_limit (cx_env c) \<and> 100 * hard \<le> 80 * env_memory_limit (cx_env c))" .
  moreover have "check_request c m hard = [] \<longleftrightarrow>
      (0 < env_memory_request (cx_env c) \<longrightarrow> hard \<le> env_memory_request (cx_env c))"
    by (auto simp: check_request_def Let_def)
  ultimately show ?thesis by (simp add: fits_container_def)
qed

text \<open>
  For a container limit up to an eightieth of the int64 range, where none of the rule's sums
  and products wraps, memory-limiter-sizing says nothing exactly when every limiter stays 50 mebibytes
  and a fifth below the container's limit, within its request, and has a limit to take its
  percentage of; and it reports an error exactly when the kernel's limit is reached first.
\<close>

theorem memory_limiter_sizing_exact:
  assumes "env_memory_limit (cx_env c) \<le> max_int64 div 80"
  shows "(memory_limiter_sizing_check c = [] \<longleftrightarrow>
      (env_known (cx_env c) \<longrightarrow>
        (\<forall>m \<in> set (memory_limiters c). bounded_percentage (cx_env c) m \<and>
           (\<forall>h. hard_limit m (cx_env c) = Some h \<longrightarrow> fits_container (cx_env c) h)))) \<and>
    ((\<exists>f \<in> set (memory_limiter_sizing_check c). fi_severity f = Some Error) \<longleftrightarrow>
      env_known (cx_env c) \<and>
      (\<exists>m \<in> set (memory_limiters c). \<exists>h. hard_limit m (cx_env c) = Some h \<and>
         0 < env_memory_limit (cx_env c) \<and> env_memory_limit (cx_env c) \<le> h))"
proof -
  let ?one = "\<lambda>m. check_percentage c m @ (case hard_limit m (cx_env c) of
      None \<Rightarrow> [] | Some hard \<Rightarrow> check_limit c m hard @ check_request c m hard)"
  have range: "0 \<le> h" if "hard_limit m (cx_env c) = Some h" for m h
    using hard_limit_range [OF that] by simp
  have "check_percentage c m = [] \<longleftrightarrow> bounded_percentage (cx_env c) m" for m
    by (auto simp: check_percentage_def bounded_percentage_def whole_percent_def)
  then have nil: "?one m = [] \<longleftrightarrow> bounded_percentage (cx_env c) m \<and>
      (\<forall>h. hard_limit m (cx_env c) = Some h \<longrightarrow> fits_container (cx_env c) h)" for m
    using check_limit_request_nil [OF assms range, of m] by (auto split: option.splits)
  have lim: "(\<exists>f \<in> set (check_limit c m h). fi_severity f = Some Error) \<longleftrightarrow>
      0 < env_memory_limit (cx_env c) \<and> env_memory_limit (cx_env c) \<le> h"
    if "hard_limit m (cx_env c) = Some h" for m h
  proof -
    have "(\<exists>f \<in> set (check_limit c m h). fi_severity f = Some Error) \<longleftrightarrow>
        Some Error \<in> set (map fi_severity (check_limit c m h))"
      by (auto simp: image_iff intro: bexI [rotated] dest: sym)
    then show ?thesis unfolding check_limit_severities [OF assms range [OF that]] by auto
  qed
  have other: "\<not> (\<exists>f \<in> set (check_percentage c m). fi_severity f = Some Error)"
    "\<not> (\<exists>f \<in> set (check_request c m h). fi_severity f = Some Error)" for m h
    by (simp_all add: check_percentage_def check_request_def Let_def finding_at_def)
  have err: "(\<exists>f \<in> set (?one m). fi_severity f = Some Error) \<longleftrightarrow>
      (\<exists>h. hard_limit m (cx_env c) = Some h \<and>
         0 < env_memory_limit (cx_env c) \<and> env_memory_limit (cx_env c) \<le> h)" for m
    using other lim [of m] by (cases "hard_limit m (cx_env c)") (auto simp: Bex_def)
  show ?thesis
    using nil err by (simp add: memory_limiter_sizing_check_def)
qed

lemma memory_limiter_sizing_exact_witness:
  "memory_limiter_sizing_check (demo_limiter_ctx [(''limit_mib'', y_int ''400'')]
      (demo_env (512 * Mi) (512 * Mi))) = [] \<and>
   fits_container (demo_env (512 * Mi) (512 * Mi)) (400 * Mi) \<and>
   (\<exists>f \<in> set (memory_limiter_sizing_check (demo_limiter_ctx [(''limit_mib'', y_int ''600'')]
      (demo_env (512 * Mi) (512 * Mi)))). fi_severity f = Some Error)"
proof -
  let ?e = "demo_env (512 * Mi) (512 * Mi)"
  let ?c = "demo_limiter_ctx [(''limit_mib'', y_int ''400'')] ?e"
  let ?d = "demo_limiter_ctx [(''limit_mib'', y_int ''600'')] ?e"
  have env: "cx_env ?c = ?e" "cx_env ?d = ?e" by (simp_all add: demo_limiter_ctx_def demo_ctx_def Let_def)
  have small: "env_memory_limit ?e \<le> max_int64 div 80"
    by (simp add: demo_env_def Mi_def max_int64_def)
  have c: "memory_limiter_sizing_check ?c = []" by code_simp
  have l: "map (\<lambda>m. hard_limit m ?e) (memory_limiters ?c) = [Some (400 * Mi)]" by code_simp
  have d: "map (\<lambda>m. hard_limit m ?e) (memory_limiters ?d) = [Some (600 * Mi)]" by code_simp
  have "env_known ?e" by (simp add: env_known_def demo_env_def Mi_def)
  moreover obtain m where "m \<in> set (memory_limiters ?c)" "hard_limit m ?e = Some (400 * Mi)"
    using l by (cases "memory_limiters ?c") auto
  ultimately have "fits_container ?e (400 * Mi)"
    using memory_limiter_sizing_exact [of ?c] c small env by auto
  moreover obtain m' where m': "m' \<in> set (memory_limiters ?d)" "hard_limit m' ?e = Some (600 * Mi)"
    using d by (cases "memory_limiters ?d") auto
  have "0 < env_memory_limit ?e" "env_memory_limit ?e \<le> 600 * Mi" by (simp_all add: demo_env_def Mi_def)
  then have "\<exists>f \<in> set (memory_limiter_sizing_check ?d). fi_severity f = Some Error"
    using memory_limiter_sizing_exact [of ?d] small env m' \<open>env_known ?e\<close> by auto
  ultimately show ?thesis using c by blast
qed

text \<open>
  Beyond that range the product \<open>limit*ceilingPercent\<close> wraps: against a container limit of one
  exbibyte, a limiter of one mebibyte is reported to be above 80% of it.
\<close>

lemma check_limit_wraps:
  assumes "env_memory_limit (cx_env c) = 2 ^ 60"
  shows "check_limit c m Mi \<noteq> []"
proof -
  have w: "wrap64 (1152921504606846976 * ceiling_percent) sdiv whole_percent = 0"
    by (simp add: wrap64_def ceiling_percent_def whole_percent_def)
  show ?thesis by (simp add: check_limit_def Let_def assms w Mi_def)
qed

end
