(* ===== verification/ProcessorRules.thy ===== *)
theory ProcessorRules
  imports MemoryLimiter ReferenceRules
begin

section \<open>Rules about the processors of a pipeline\<close>

text \<open>
  processor-order, missing-memory-limiter and batch-size-bounds, each its own package under
  \<open>pkg/rule\<close>: where memory limiters, batchers, samplers and enrichers stand, what bounds a pipeline's
  memory, and what the batch processor refuses to start with.
\<close>

subsection \<open>processor-order\<close>

definition k8sattributes_type :: string where "k8sattributes_type = ''k8sattributes''"
definition k8s_attributes_renamed_type :: string where "k8s_attributes_renamed_type = ''k8s_attributes''"
definition resourcedetection_type :: string where "resourcedetection_type = ''resourcedetection''"
definition resourcedetection_renamed_type :: string where
  "resourcedetection_renamed_type = ''resource_detection''"
definition resource_type :: string where "resource_type = ''resource''"
definition tail_sampling_type :: string where "tail_sampling_type = ''tail_sampling''"
definition probabilistic_sampler_type :: string where
  "probabilistic_sampler_type = ''probabilistic_sampler''"

definition enriches :: "string \<Rightarrow> bool" where
  "enriches typ \<longleftrightarrow> typ \<in> set [k8sattributes_type, k8s_attributes_renamed_type,
     resourcedetection_type, resourcedetection_renamed_type, resource_type]"

definition sampler_docs :: "string \<Rightarrow> string option" where
  "sampler_docs typ =
     (if typ = tail_sampling_type then Some tail_sampling_docs
      else if typ = probabilistic_sampler_type then Some probabilistic_sampler_docs
      else None)"

text \<open>The first sampler among the references before index \<open>i\<close>, when the one at \<open>i\<close> enriches.\<close>

fun first_sampler :: "cref list \<Rightarrow> (cref \<times> string) option" where
  "first_sampler [] = None"
| "first_sampler (before # rs) =
     (case sampler_docs (id_type (r_id before)) of
        Some docs \<Rightarrow> Some (before, docs) | None \<Rightarrow> first_sampler rs)"

definition sampler_before :: "cref list \<Rightarrow> nat \<Rightarrow> (cref \<times> string) option" where
  "sampler_before rs i =
     (if \<not> enriches (id_type (r_id (rs ! i))) then None else first_sampler (take i rs))"

definition processors_path :: "pipeline \<Rightarrow> string" where
  "processors_path p = ''service.pipelines.'' @ p_key p @ ''.processors''"

definition check_limiter_first :: "pipeline \<Rightarrow> nat \<Rightarrow> cref \<Rightarrow> finding list" where
  "check_limiter_first p i r =
     (if id_type (r_id r) \<noteq> memory_limiter_type \<or> i = 0 then []
      else [(finding_at (Some (r_node r)) (r_path r)
               (''memory_limiter is processor '' @ itoa (int i + 1) @ '' in pipeline '' @ quote (p_key p) @
                ''; it must be first''))
             \<lparr>fi_hint := ''move '' @ quote (id_string (r_id r)) @ '' to the front of '' @ processors_path p,
              fi_docs := memory_limiter_docs\<rparr>])"

definition check_batch_last :: "pipeline \<Rightarrow> nat \<Rightarrow> cref \<Rightarrow> finding list" where
  "check_batch_last p i r =
     (if id_type (r_id r) \<noteq> batch_type \<or> int (length (p_processors p)) - 1 \<le> int i then []
      else if id_type (r_id (p_processors p ! (i + 1))) = memory_limiter_type then []
      else [(finding_at (Some (r_node r)) (r_path r)
               (''batch runs before other processors in pipeline '' @ quote (p_key p)))
             \<lparr>fi_hint := ''put batch last so upstream processors see individual items and cannot drop whole batches'',
              fi_docs := batch_docs, fi_severity := Some Info\<rparr>])"

definition check_sampling :: "pipeline \<Rightarrow> nat \<Rightarrow> cref \<Rightarrow> finding list" where
  "check_sampling p i r =
     (case sampler_before (p_processors p) i of
        None \<Rightarrow> []
      | Some (sampler, docs) \<Rightarrow>
          [(finding_at (Some (r_node r)) (r_path r)
              (quote (id_string (r_id r)) @ '' runs after '' @ quote (id_string (r_id sampler)) @
               '' in pipeline '' @ quote (p_key p) @
               '', so sampling policies cannot match the attributes it adds''))
            \<lparr>fi_hint := ''move '' @ quote (id_string (r_id r)) @ '' ahead of '' @
               quote (id_string (r_id sampler)) @ '' in '' @ processors_path p @
               '' so the decision is made against enriched telemetry'', fi_docs := docs\<rparr>])"

definition processor_order_check :: check where
  "processor_order_check c =
     concat (map (\<lambda>p. concat (map (\<lambda>(i, r).
        check_limiter_first p i r @ check_batch_last p i r @ check_sampling p i r)
       (enumerate 0 (p_processors p)))) (svc_pipelines (f_service (cx_file c))))"

definition processor_order :: rule where
  "processor_order = new_rule ''processor-order''
     ''processors run in the order they are listed, and some of them have one place they work'' Warning
     processor_order_check"

subsection \<open>missing-memory-limiter\<close>

definition missing_memory_limiter_check :: check where
  "missing_memory_limiter_check c =
     concat (map (\<lambda>p.
       if is_expansion (p_processors_node p) then []
       else if has_processor_type p memory_limiter_type \<or> has_dynamic_refs_in (p_processors p) \<or>
               length (p_receivers p) = 0 then []
       else if upstream_covered (cx_index c) p [memory_limiter_type] [''forward'', ''routing''] then []
       else [(finding_at (node_or (p_processors_node p) (Some (p_key_node p))) (processors_path p)
                (''pipeline '' @ quote (p_key p) @ '' has no memory_limiter processor''))
              \<lparr>fi_hint := ''add memory_limiter as the first processor to bound the collector's memory use'',
               fi_docs := memory_limiter_docs\<rparr>])
      (svc_pipelines (f_service (cx_file c))))"

definition missing_memory_limiter :: rule where
  "missing_memory_limiter = new_rule ''missing-memory-limiter''
     ''a pipeline without memory_limiter can be OOM-killed under load'' Info missing_memory_limiter_check"

subsection \<open>batch-size-bounds\<close>

definition default_send_batch_size :: int where "default_send_batch_size = 8192"
definition default_batch_timeout :: int where "default_batch_timeout = 200 * millisecond"
definition max_batch_size :: int where "max_batch_size = max_uint32"

record batch_processor =
  bp_id :: cid
  bp_node :: "ynode option"
  bp_path :: string
  bp_send_batch_size :: setting
  bp_send_batch_max_size :: setting
  bp_timeout :: setting
  bp_metadata_keys :: "ynode option"

definition batch_name :: "batch_processor \<Rightarrow> string" where
  "batch_name b = ''processor '' @ quote (id_string (bp_id b))"

definition batch_at :: "batch_processor \<Rightarrow> setting \<Rightarrow> ynode option" where
  "batch_at b s = node_or (st_node s) (bp_node b)"

definition read_batch_entry :: "ctx \<Rightarrow> batch_processor \<Rightarrow> map_entry \<Rightarrow> batch_processor" where
  "read_batch_entry c b e =
     (let n = Some (me_node e) in
      if me_key e = ''send_batch_size'' then b\<lparr>bp_send_batch_size := ctx_read_int c n\<rparr>
      else if me_key e = ''send_batch_max_size'' then b\<lparr>bp_send_batch_max_size := ctx_read_int c n\<rparr>
      else if me_key e = ''timeout'' then b\<lparr>bp_timeout := read_duration (cx_lib c) n\<rparr>
      else if me_key e = ''metadata_keys'' then b\<lparr>bp_metadata_keys := n\<rparr>
      else b)"

definition read_batch :: "ctx \<Rightarrow> comp \<Rightarrow> batch_processor" where
  "read_batch c d =
     (let b = \<lparr>bp_id = c_id d, bp_node = node_or (Some (c_key_node d)) (Some (c_value_node d)),
            bp_path = section_key Processor @ ''.'' @ id_string (c_id d),
            bp_send_batch_size = absent, bp_send_batch_max_size = absent, bp_timeout = absent,
            bp_metadata_keys = None\<rparr>
      in if n_kind (c_value_node d) \<noteq> MappingNode then b
         else foldl (read_batch_entry c) b (map_entries (c_value_node d) (bp_path b)))"

definition batch_processors :: "ctx \<Rightarrow> batch_processor list" where
  "batch_processors c = processors_of_type (cx_file c) batch_type (read_batch c)"

text \<open>
  The size the cap is compared with, and whether it is the default; nothing when a null is written
  and the release's decoder is not known.
\<close>

definition batch_threshold :: "ctx \<Rightarrow> batch_processor \<Rightarrow> (int \<times> bool) option" where
  "batch_threshold c b =
     (let s = bp_send_batch_size b;
          answer = (\<lambda>use_default.
            (if st_known s \<and> \<not> use_default then st_num s else default_send_batch_size, use_default))
      in if st_present s \<and> is_null (st_node s) then
           (case scalar_decoding (cx_schema c) of (_, zero, known) \<Rightarrow>
              if \<not> known then None else Some (answer (\<not> zero)))
         else Some (answer (\<not> st_present s)))"

definition check_sizes :: "ctx \<Rightarrow> batch_processor \<Rightarrow> finding list" where
  "check_sizes c b =
     (if unknown (bp_send_batch_size b) \<or> unknown (bp_send_batch_max_size b) then []
      else if \<not> positive (bp_send_batch_max_size b) then []
      else (case batch_threshold c b of
          None \<Rightarrow> []
        | Some (sz, use_default) \<Rightarrow>
            if sz \<le> st_num (bp_send_batch_max_size b) then []
            else [(finding_at (batch_at b (bp_send_batch_max_size b)) (join_path (bp_path b) ''send_batch_max_size'')
                     (batch_name b @ '' sets send_batch_max_size to '' @
                      itoa (st_num (bp_send_batch_max_size b)) @
                      (if use_default then '', below the default send_batch_size of '' @ itoa sz
                       else '' and send_batch_size to '' @ itoa sz) @
                      '': send_batch_max_size must be greater or equal to send_batch_size''))
                   \<lparr>fi_hint := ''raise send_batch_max_size to '' @ itoa sz @
                      '' or more, or leave it out so batches are not split at all'',
                    fi_docs := batch_docs\<rparr>]))"

definition check_batch_uint32 :: "ctx \<Rightarrow> batch_processor \<Rightarrow> string \<times> setting \<Rightarrow> finding list" where
  "check_batch_uint32 c b kv =
     (case kv of (key, s) \<Rightarrow>
       if \<not> invalid_uint32 (cx_lib c) s then []
       else [(finding_at (batch_at b s) (join_path (bp_path b) key)
               (batch_name b @ '' sets '' @ key @ '' to '' @
                (case st_node s of None \<Rightarrow> itoa (st_num s) | Some n \<Rightarrow> n_value n) @
                '', which the field cannot hold: it counts items as a uint32, '' @
                ''so the collector fails to load the config before it validates it''))
             \<lparr>fi_hint := ''write a whole number between 0 and '' @ itoa max_batch_size, fi_docs := batch_docs\<rparr>])"

definition check_batch_range :: "ctx \<Rightarrow> batch_processor \<Rightarrow> finding list" where
  "check_batch_range c b = concat (map (check_batch_uint32 c b)
     [(''send_batch_size'', bp_send_batch_size b), (''send_batch_max_size'', bp_send_batch_max_size b)])"

definition check_batch_timeout :: "batch_processor \<Rightarrow> finding list" where
  "check_batch_timeout b =
     (if \<not> st_known (bp_timeout b) \<or> 0 \<le> st_num (bp_timeout b) then []
      else [(finding_at (batch_at b (bp_timeout b)) (join_path (bp_path b) ''timeout'')
               (batch_name b @ '' sets timeout to '' @ duration_string (st_num (bp_timeout b)) @
                '': timeout must be greater or equal to 0''))
             \<lparr>fi_hint := ''leave timeout out to take the default of '' @ duration_string default_batch_timeout @
                '', or set 0 to send each batch as soon as it is formed'', fi_docs := batch_docs\<rparr>])"

definition metadata_items :: "batch_processor \<Rightarrow> (nat \<times> ynode) list" where
  "metadata_items b =
     (case bp_metadata_keys b of
        None \<Rightarrow> []
      | Some n \<Rightarrow>
          if n_kind n \<noteq> SequenceNode then []
          else filter (\<lambda>(i, item). n_kind item = ScalarNode \<and> \<not> has_expansion (n_value item))
                 (enumerate 0 (n_content n)))"

definition repeated_key :: "batch_processor \<Rightarrow> nat \<times> ynode \<Rightarrow> finding" where
  "repeated_key b x =
     (case x of (i, item) \<Rightarrow>
       (finding_at (Some item) (index_path (join_path (bp_path b) ''metadata_keys'') i)
          (batch_name b @ '' repeats '' @ quote (n_value item) @ '': '' @
           ''duplicate entry in metadata_keys: '' @ quote (to_lower (n_value item)) @ '' (case-insensitive)''))
        \<lparr>fi_hint := ''the keys are compared case-insensitively, so '' @ quote (n_value item) @
           '' is one already listed; remove it'', fi_docs := batch_docs\<rparr>)"

definition check_metadata_keys :: "batch_processor \<Rightarrow> finding list" where
  "check_metadata_keys b =
     map (repeated_key b)
       (repeats set_has (\<lambda>s x. set_insert s [x]) (\<lambda>(i, item). to_lower (n_value item)) (set_new [])
         (metadata_items b))"

definition check_batch :: "ctx \<Rightarrow> batch_processor \<Rightarrow> finding list" where
  "check_batch c b =
     (if check_batch_range c b \<noteq> [] then check_batch_range c b else check_sizes c b) @
     check_batch_timeout b @ check_metadata_keys b"

definition batch_size_bounds_check :: check where
  "batch_size_bounds_check c = concat (map (check_batch c) (batch_processors c))"

definition batch_size_bounds :: rule where
  "batch_size_bounds = new_rule ''batch-size-bounds''
     ''a batch processor the collector will refuse to start'' Error batch_size_bounds_check"

subsection \<open>What they decide\<close>

lemma first_sampler_none_iff:
  "first_sampler rs = None \<longleftrightarrow> (\<forall>r \<in> set rs. sampler_docs (id_type (r_id r)) = None)"
  by (induction rs) (auto split: option.splits)

lemma enumerate_split: "(i, r) \<in> set (enumerate 0 xs) \<longleftrightarrow> (\<exists>us vs. xs = us @ r # vs \<and> length us = i)"
proof
  assume "(i, r) \<in> set (enumerate 0 xs)"
  then have i: "i < length xs" "r = xs ! i" by (auto simp: in_set_enumerate_eq)
  then have "xs = take i xs @ r # drop (Suc i) xs \<and> length (take i xs) = i" by (simp add: id_take_nth_drop)
  then show "\<exists>us vs. xs = us @ r # vs \<and> length us = i" by blast
qed (auto simp: in_set_enumerate_eq nth_append)

lemma enumerate_checks_nil:
  "concat (map (\<lambda>(i, r). g i r) (enumerate 0 xs)) = [] \<longleftrightarrow>
     (\<forall>us r vs. xs = us @ r # vs \<longrightarrow> g (length us) r = [])"
proof -
  have "concat (map (\<lambda>(i, r). g i r) (enumerate 0 xs)) = [] \<longleftrightarrow>
      (\<forall>i r. (i, r) \<in> set (enumerate 0 xs) \<longrightarrow> g i r = [])"
    by (auto simp: concat_eq_Nil_conv)
  then show ?thesis unfolding enumerate_split by blast
qed

definition well_placed :: "cref list \<Rightarrow> cref \<Rightarrow> cref list \<Rightarrow> bool" where
  "well_placed before r after \<longleftrightarrow>
     (id_type (r_id r) = memory_limiter_type \<longrightarrow> before = []) \<and>
     (id_type (r_id r) = batch_type \<longrightarrow> after = []) \<and>
     (enriches (id_type (r_id r)) \<longrightarrow> (\<forall>b \<in> set before. sampler_docs (id_type (r_id b)) = None))"

definition leaves_batch :: "cref \<Rightarrow> cref list \<Rightarrow> bool" where
  "leaves_batch r after \<longleftrightarrow> (id_type (r_id r) = batch_type \<longrightarrow>
     after = [] \<or> id_type (r_id (hd after)) = memory_limiter_type)"

lemma processor_checks_nil:
  assumes "p_processors p = before @ r # after"
  shows "check_limiter_first p (length before) r = [] \<longleftrightarrow>
      (id_type (r_id r) = memory_limiter_type \<longrightarrow> before = [])"
    and "check_batch_last p (length before) r = [] \<longleftrightarrow> leaves_batch r after"
    and "check_sampling p (length before) r = [] \<longleftrightarrow>
      (enriches (id_type (r_id r)) \<longrightarrow> (\<forall>b \<in> set before. sampler_docs (id_type (r_id b)) = None))"
proof -
  show "check_limiter_first p (length before) r = [] \<longleftrightarrow>
      (id_type (r_id r) = memory_limiter_type \<longrightarrow> before = [])"
    by (auto simp: check_limiter_first_def)
  show "check_batch_last p (length before) r = [] \<longleftrightarrow> leaves_batch r after"
    by (cases after) (auto simp: check_batch_last_def leaves_batch_def assms nth_append)
  show "check_sampling p (length before) r = [] \<longleftrightarrow>
      (enriches (id_type (r_id r)) \<longrightarrow> (\<forall>b \<in> set before. sampler_docs (id_type (r_id b)) = None))"
    by (simp add: check_sampling_def sampler_before_def assms option.case_eq_if case_prod_beta
        flip: first_sampler_none_iff)
qed

text \<open>The exemption of a batch ahead of a memory limiter loses nothing: that limiter is not first.\<close>

lemma leaves_batch_enough:
  "(\<forall>before r after. rs = before @ r # after \<longrightarrow>
      (id_type (r_id r) = memory_limiter_type \<longrightarrow> before = []) \<and> leaves_batch r after \<and>
      (enriches (id_type (r_id r)) \<longrightarrow> (\<forall>b \<in> set before. sampler_docs (id_type (r_id b)) = None))) \<longleftrightarrow>
   (\<forall>before r after. rs = before @ r # after \<longrightarrow> well_placed before r after)"
  (is "?L \<longleftrightarrow> ?R")
proof
  assume L: ?L
  show ?R
  proof (intro allI impI)
    fix before r after
    assume rs: "rs = before @ r # after"
    have "after = []" if "id_type (r_id r) = batch_type"
    proof (rule ccontr)
      assume "after \<noteq> []"
      then obtain q qs where a: "after = q # qs" by (cases after) auto
      then have "id_type (r_id q) = memory_limiter_type"
        using L rs that by (fastforce simp: leaves_batch_def)
      then have "before @ [r] = []" using L rs a by (metis append.assoc append_Cons append_Nil)
      then show False by simp
    qed
    then show "well_placed before r after" using L rs by (simp add: well_placed_def)
  qed
qed (simp add: well_placed_def leaves_batch_def)

text \<open>
  Processor-order is silent exactly when, in every pipeline, a memory limiter stands only first,
  a batch only last, and nothing that enriches telemetry stands behind a sampler.
\<close>

theorem processor_order_silent_iff:
  "processor_order_check c = [] \<longleftrightarrow>
     (\<forall>p \<in> set (svc_pipelines (f_service (cx_file c))). \<forall>before r after.
        p_processors p = before @ r # after \<longrightarrow> well_placed before r after)"
proof -
  have "concat (map (\<lambda>(i, r). check_limiter_first p i r @ check_batch_last p i r @ check_sampling p i r)
      (enumerate 0 (p_processors p))) = [] \<longleftrightarrow>
    (\<forall>before r after. p_processors p = before @ r # after \<longrightarrow>
      (id_type (r_id r) = memory_limiter_type \<longrightarrow> before = []) \<and> leaves_batch r after \<and>
      (enriches (id_type (r_id r)) \<longrightarrow> (\<forall>b \<in> set before. sampler_docs (id_type (r_id b)) = None)))" for p
    unfolding enumerate_checks_nil by (simp add: processor_checks_nil)
  then show ?thesis by (simp add: processor_order_check_def leaves_batch_enough)
qed

lemma processor_order_silent_iff_witness:
  "processor_order_check (demo_wiring [demo_pipe ''traces'' [] [''memory_limiter'', ''resource'', ''tail_sampling'', ''batch''] []]) = [] \<and>
   well_placed [demo_ref ''memory_limiter''] (demo_ref ''resource'') [demo_ref ''tail_sampling'', demo_ref ''batch''] \<and>
   length (processor_order_check (demo_wiring [demo_pipe ''traces'' [] [''batch'', ''memory_limiter'', ''tail_sampling'', ''resource''] []])) = 2"
proof -
  let ?p = "demo_pipe ''traces'' [] [''memory_limiter'', ''resource'', ''tail_sampling'', ''batch''] []"
  have 1: "processor_order_check (demo_wiring [?p]) = []" by code_simp
  have 2: "length (processor_order_check (demo_wiring [demo_pipe ''traces'' [] [''batch'', ''memory_limiter'',
      ''tail_sampling'', ''resource''] []])) = 2" by code_simp
  have p: "?p \<in> set (svc_pipelines (f_service (cx_file (demo_wiring [?p]))))"
    by (simp add: demo_wiring_def demo_ctx_def Let_def)
  have "p_processors ?p = [demo_ref ''memory_limiter''] @ demo_ref ''resource'' #
      [demo_ref ''tail_sampling'', demo_ref ''batch'']"
    by (simp add: demo_pipe_def)
  then have "well_placed [demo_ref ''memory_limiter''] (demo_ref ''resource'')
      [demo_ref ''tail_sampling'', demo_ref ''batch'']"
    using processor_order_silent_iff [of "demo_wiring [?p]"] 1 p by blast
  then show ?thesis using 1 2 by blast
qed

text \<open>
  A pipeline needs no limiter of its own when a provider may supply its processors, when it has one,
  or when it reads nothing.
\<close>

definition limiter_settled :: "pipeline \<Rightarrow> bool" where
  "limiter_settled p \<longleftrightarrow>
     is_expansion (p_processors_node p) \<or> p_receivers p = [] \<or>
     (\<exists>r \<in> set (p_processors p). id_type (r_id r) = memory_limiter_type \<or> has_expansion (id_string (r_id r)))"

lemma limiter_settled_iff:
  "limiter_settled p \<longleftrightarrow> is_expansion (p_processors_node p) \<or> has_processor_type p memory_limiter_type \<or>
     has_dynamic_refs_in (p_processors p) \<or> length (p_receivers p) = 0"
  by (auto simp: limiter_settled_def has_processor_type_def has_dynamic_refs_in_def list_ex_iff)

text \<open>
  with distinct pipeline keys, missing-memory-limiter reports exactly the pipelines that are not
  settled by themselves and are not covered by the limiters of the pipelines that feed them through
  forward and routing connectors, one finding each, in order.
\<close>

theorem missing_memory_limiter_exact:
  assumes "indexed c" "distinct (map p_key (svc_pipelines (f_service (cx_file c))))"
  shows "map fi_path (missing_memory_limiter_check c) =
    map processors_path (filter (\<lambda>p. \<not> limiter_settled p \<and>
        (has_dynamic_refs (cx_index c) Exporter \<or>
         \<not> covered (cx_index c) [memory_limiter_type] [''forward'', ''routing''] p False))
      (svc_pipelines (f_service (cx_file c))))"
proof -
  let ?ps = "svc_pipelines (f_service (cx_file c))"
  let ?up = "\<lambda>p. upstream_covered (cx_index c) p [memory_limiter_type] [''forward'', ''routing'']"
  have up: "?up p \<longleftrightarrow> \<not> has_dynamic_refs (cx_index c) Exporter \<and>
      covered (cx_index c) [memory_limiter_type] [''forward'', ''routing''] p False" if "p \<in> set ?ps" for p
    using upstream_covered_facts [OF assms(2) that] assms(1) by (simp add: indexed_def)
  have one: "map fi_path (missing_memory_limiter_check c) =
      map processors_path (filter (\<lambda>p. \<not> limiter_settled p \<and> \<not> ?up p) ?ps)"
  proof -
    have "map fi_path (concat (map (\<lambda>p.
       if is_expansion (p_processors_node p) then []
       else if has_processor_type p memory_limiter_type \<or> has_dynamic_refs_in (p_processors p) \<or>
               length (p_receivers p) = 0 then []
       else if ?up p then []
       else [(finding_at (g p) (processors_path p) (msg p)) \<lparr>fi_hint := h, fi_docs := d\<rparr>]) ps)) =
      map processors_path (filter (\<lambda>p. \<not> limiter_settled p \<and> \<not> ?up p) ps)" for g msg h d and ps
      by (induction ps) (simp_all add: limiter_settled_iff finding_at_def)
    then show ?thesis unfolding missing_memory_limiter_check_def .
  qed
  have "filter (\<lambda>p. \<not> limiter_settled p \<and> \<not> ?up p) ?ps =
      filter (\<lambda>p. \<not> limiter_settled p \<and> (has_dynamic_refs (cx_index c) Exporter \<or>
         \<not> covered (cx_index c) [memory_limiter_type] [''forward'', ''routing''] p False)) ?ps"
    by (rule filter_cong [OF refl]) (use up in blast)
  then show ?thesis using one by simp
qed

lemma missing_memory_limiter_exact_witness:
  "map fi_path (missing_memory_limiter_check (demo_wiring
      [demo_pipe ''logs/1'' [''a''] [''memory_limiter''] [''f''], demo_pipe ''logs/2'' [''a''] [] [''e'']])) =
     [''service.pipelines.logs/2.processors''] \<and>
   \<not> covered (cx_index (demo_wiring
      [demo_pipe ''logs/1'' [''a''] [''memory_limiter''] [''f''], demo_pipe ''logs/2'' [''a''] [] [''e'']]))
      [memory_limiter_type] [''forward'', ''routing''] (demo_pipe ''logs/2'' [''a''] [] [''e'']) False"
proof -
  let ?p = "demo_pipe ''logs/1'' [''a''] [''memory_limiter''] [''f'']" and ?q = "demo_pipe ''logs/2'' [''a''] [] [''e'']"
  let ?c = "demo_wiring [?p, ?q]"
  have ps: "svc_pipelines (f_service (cx_file ?c)) = [?p, ?q]"
    by (simp add: demo_wiring_def demo_ctx_def Let_def)
  have "indexed ?c" by (simp add: demo_wiring_def)
  moreover have "distinct (map p_key (svc_pipelines (f_service (cx_file ?c))))"
    unfolding ps by (simp add: demo_pipe_def)
  ultimately have e: "map fi_path (missing_memory_limiter_check ?c) =
    map processors_path (filter (\<lambda>p. \<not> limiter_settled p \<and>
        (has_dynamic_refs (cx_index ?c) Exporter \<or>
         \<not> covered (cx_index ?c) [memory_limiter_type] [''forward'', ''routing''] p False)) [?p, ?q])"
    using missing_memory_limiter_exact [of ?c] unfolding ps by blast
  have 1: "map fi_path (missing_memory_limiter_check ?c) = [''service.pipelines.logs/2.processors'']" by code_simp
  have 2: "limiter_settled ?p" "\<not> has_dynamic_refs (cx_index ?c) Exporter" by code_simp+
  have "\<not> covered (cx_index ?c) [memory_limiter_type] [''forward'', ''routing''] ?q False"
    using e 1 2 by (auto split: if_splits)
  then show ?thesis using 1 by blast
qed

end
