(* ===== verification/ExporterRules.thy ===== *)
theory ExporterRules
  imports ProcessorRules
begin

section \<open>Rules about exporters\<close>

text \<open>
  missing-batch, no-persistent-queue and debug-exporter-verbosity, each its own package under
  \<open>pkg/rule\<close>: what an exporter's settings say about its queue, its batching and its output.
\<close>

subsection \<open>no-persistent-queue\<close>

record sending_queue =
  sq_node :: "ynode option"
  sq_written :: bool
  sq_disabled :: bool
  sq_persisted :: bool
  sq_unresolved :: bool

definition describe_queue :: "sending_queue \<Rightarrow> string" where
  "describe_queue q =
     (if sq_written q then
        ''has a '' @ sending_queue_key @ '' with no '' @ storage_key @ '', so the queue is held in memory''
      else ''takes the default '' @ sending_queue_key @ '', which is held in memory'')"

definition queue_enabled_entry :: "ctx \<Rightarrow> ynode \<Rightarrow> sending_queue \<Rightarrow> sending_queue" where
  "queue_enabled_entry c val q =
     (let known = snd (snd (scalar_decoding (cx_schema c)));
          unresolved = (sq_unresolved q \<or>
            (n_kind val = ScalarNode \<and> has_expansion (n_value val)) \<or> (\<not> known \<and> n_tag val = str_tag));
          dec = decode_scalar c val type_bool
      in q\<lparr>sq_unresolved := unresolved,
           sq_disabled := (n_tag dec = bool_tag \<and> lib_decode_bool (cx_lib c) dec = Some False)\<rparr>)"

definition queue_entry :: "ctx \<Rightarrow> sending_queue \<Rightarrow> map_entry \<Rightarrow> sending_queue" where
  "queue_entry c q e =
     (case resolve_alias (Some (me_node e)) of
        None \<Rightarrow> q
      | Some val \<Rightarrow>
          if me_key e = ''enabled'' then queue_enabled_entry c val q
          else if me_key e = storage_key then
            q\<lparr>sq_persisted := (\<not> is_null (Some val) \<and> (n_kind val \<noteq> ScalarNode \<or> n_value val \<noteq> []))\<rparr>
          else q)"

definition read_queue_block :: "ctx \<Rightarrow> ynode \<Rightarrow> sending_queue \<Rightarrow> sending_queue" where
  "read_queue_block c block q = foldl (queue_entry c) q (map_entries block [])"

text \<open>The entry named \<open>sending_queue\<close>, the last one winning: its node and what it resolves to.\<close>

definition last_entry :: "string \<Rightarrow> ynode \<Rightarrow> ynode option" where
  "last_entry key settings =
     foldl (\<lambda>acc e. if me_key e = key then Some (me_node e) else acc) None (map_entries settings [])"

definition read_sending_queue :: "ctx \<Rightarrow> comp \<Rightarrow> sending_queue" where
  "read_sending_queue c d =
     (let settings = resolve_alias (Some (c_value_node d));
          q0 = \<lparr>sq_node = None, sq_written = False, sq_disabled = False, sq_persisted = False,
                sq_unresolved = is_expansion settings\<rparr>
      in case settings of
           None \<Rightarrow> q0
         | Some s \<Rightarrow>
             if n_kind s \<noteq> MappingNode then q0
             else (let found = last_entry sending_queue_key s;
                       q1 = (if found = None then q0 else q0\<lparr>sq_node := found, sq_written := True\<rparr>)
               in case resolve_alias found of
                    None \<Rightarrow> q1\<lparr>sq_unresolved := is_expansion None\<rparr>
                  | Some block \<Rightarrow>
                      if n_kind block \<noteq> MappingNode then q1\<lparr>sq_unresolved := is_expansion (Some block)\<rparr>
                      else read_queue_block c block q1))"

definition no_persistent_queue_check :: check where
  "no_persistent_queue_check c =
     concat (map (\<lambda>d.
       if \<not> used (cx_index c) Exporter (c_id d) then []
       else (let q = read_sending_queue c d in
         if sq_disabled q \<or> sq_persisted q \<or> sq_unresolved q \<or>
            \<not> accepts_queue c (id_type (c_id d)) (sq_written q) then []
         else [(finding_at (node_or (sq_node q) (Some (c_key_node d)))
                  (join_path (section_key Exporter @ ''.'' @ id_string (c_id d)) sending_queue_key)
                  (''exporter '' @ quote (id_string (c_id d)) @ '' '' @ describe_queue q @
                   ''; a restart drops whatever is still queued''))
                \<lparr>fi_hint := ''persistence takes three steps: declare a storage extension such as file_storage, '' @
                   ''list it in service.extensions so the collector starts it, and name it here as '' @
                   sending_queue_key @ ''.'' @ storage_key, fi_docs := exporter_queue_docs\<rparr>]))
      (section_components (cx_file c) Exporter))"

definition no_persistent_queue :: rule where
  "no_persistent_queue = new_rule ''no-persistent-queue''
     ''a sending queue held in memory, which a restart drops along with everything in it'' Info
     no_persistent_queue_check"

subsection \<open>missing-batch\<close>

datatype batching = BatchUnknown | BatchNone | BatchQueue

definition read_batch_block :: "ynode \<Rightarrow> batching" where
  "read_batch_block block =
     (if list_ex (\<lambda>e. me_key e = batch_key) (map_entries block []) then BatchQueue else BatchNone)"

definition read_queue_batching :: "comp \<Rightarrow> batching" where
  "read_queue_batching d =
     (let block = (case resolve_alias (Some (c_value_node d)) of
          None \<Rightarrow> None
        | Some s \<Rightarrow>
            if n_kind s = MappingNode then resolve_alias (last_entry sending_queue_key s) else None)
      in case block of
           None \<Rightarrow> BatchNone
         | Some b \<Rightarrow>
             if n_kind b = MappingNode then read_batch_block b
             else if \<not> is_null (Some b) then BatchUnknown else BatchNone)"

definition accepts_queue_batch :: "ctx \<Rightarrow> string \<Rightarrow> bool" where
  "accepts_queue_batch c typ \<longleftrightarrow>
     (if \<not> described_exporter c typ then False
      else (case child_schema (exporter_fields c typ) sending_queue_key of
          None \<Rightarrow> False
        | Some queue \<Rightarrow> fd_open queue \<or> field_child queue batch_key \<noteq> None))"

record unbatched_leg =
  ul_ref :: cref
  ul_queue_batch :: bool

fun export_legs :: "ctx \<Rightarrow> cref list \<Rightarrow> nat \<times> unbatched_leg list" where
  "export_legs c [] = (0, [])"
| "export_legs c (r # rs) =
     (case export_legs c rs of (legs, unbatched) \<Rightarrow>
       (case resolve_ref (cx_index c) Exporter (r_id r) of
          None \<Rightarrow> (Suc legs, unbatched)
        | Some d \<Rightarrow>
            if c_kind d = Connector then (legs, unbatched)
            else if read_queue_batching d = BatchNone then
              (Suc legs, \<lparr>ul_ref = r, ul_queue_batch = accepts_queue_batch c (id_type (c_id d))\<rparr> # unbatched)
            else (Suc legs, unbatched)))"

datatype batch_fix = QueueFix | ProcessorFix | SplitFix

definition exporter_fix :: "bool \<Rightarrow> batch_fix" where
  "exporter_fix queue_batch = (if queue_batch then QueueFix else ProcessorFix)"

definition pipeline_fix :: "unbatched_leg list \<Rightarrow> batch_fix" where
  "pipeline_fix legs =
     (let queue = length (filter ul_queue_batch legs);
          processor = length (filter (\<lambda>l. \<not> ul_queue_batch l) legs)
      in if processor = 0 then QueueFix else if queue = 0 then ProcessorFix else SplitFix)"

definition batch_processor_hint :: string where
  "batch_processor_hint = ''add batch before the exporters to reduce the number of outgoing requests''"

definition batch_hint :: "string \<Rightarrow> string \<Rightarrow> batch_fix \<Rightarrow> string" where
  "batch_hint target subject fx =
     (case fx of
        QueueFix \<Rightarrow> ''configure '' @ sending_queue_key @ ''.'' @ batch_key @ '' on '' @ target @
          '', which batches behind the retry queue; the batch processor also works but drops data '' @
          ''that fails to send''
      | ProcessorFix \<Rightarrow> batch_processor_hint @ ''; '' @ subject @ '' no '' @ sending_queue_key @ ''.'' @
          batch_key @ '' to batch in''
      | SplitFix \<Rightarrow> batch_processor_hint @ ''; only some of them can take a '' @ sending_queue_key @ ''.'' @
          batch_key @ '' of their own'')"

definition batch_docs_for :: "batch_fix \<Rightarrow> string" where
  "batch_docs_for fx = (if fx = QueueFix then exporter_queue_docs else batch_docs)"

definition report_pipeline :: "pipeline \<Rightarrow> unbatched_leg list \<Rightarrow> finding list" where
  "report_pipeline p unbatched =
     [(finding_at (node_or (p_processors_node p) (Some (p_key_node p))) (processors_path p)
         (''pipeline '' @ quote (p_key p) @ '' has no batch processor, and none of its exporters batches in '' @
          sending_queue_key))
       \<lparr>fi_hint := batch_hint ''the exporters'' ''these exporters have'' (pipeline_fix unbatched),
        fi_docs := batch_docs_for (pipeline_fix unbatched)\<rparr>]"

definition report_legs :: "pipeline \<Rightarrow> unbatched_leg list \<Rightarrow> finding list" where
  "report_legs p unbatched =
     map (\<lambda>l. (finding_at (Some (r_node (ul_ref l))) (r_path (ul_ref l))
          (''exporter '' @ quote (id_string (r_id (ul_ref l))) @ '' sends unbatched in pipeline '' @
           quote (p_key p) @ '', which has no batch processor''))
        \<lparr>fi_hint := batch_hint ''this exporter'' ''this exporter has'' (exporter_fix (ul_queue_batch l)),
         fi_docs := batch_docs_for (exporter_fix (ul_queue_batch l))\<rparr>) unbatched"

definition has_batch_processor :: "string list \<Rightarrow> pipeline \<Rightarrow> bool" where
  "has_batch_processor additional p \<longleftrightarrow>
     list_ex (\<lambda>r. id_type (r_id r) = batch_type \<or> id_type (r_id r) \<in> set additional) (p_processors p)"

definition batch_processor_types :: "string list \<Rightarrow> string list" where
  "batch_processor_types additional = [batch_type] @ additional"

definition missing_batch_pipeline :: "string list \<Rightarrow> ctx \<Rightarrow> pipeline \<Rightarrow> finding list" where
  "missing_batch_pipeline additional c p =
     (if is_expansion (p_processors_node p) then []
      else if has_batch_processor additional p \<or> has_dynamic_refs_in (p_processors p) \<or>
              length (p_exporters p) = 0 then []
      else if upstream_covered (cx_index c) p (batch_processor_types additional) [''forward''] then []
      else (case export_legs c (p_exporters p) of (legs, unbatched) \<Rightarrow>
          if unbatched = [] then []
          else if length unbatched = legs then report_pipeline p unbatched
          else report_legs p unbatched))"

definition missing_batch_check :: "string list \<Rightarrow> check" where
  "missing_batch_check additional c =
     concat (map (missing_batch_pipeline additional c) (svc_pipelines (f_service (cx_file c))))"

definition err_batch_settings :: string where
  "err_batch_settings = ''expected additional_processors: [processor-type, ...]''"

fun batch_settings_items :: "ynode list \<Rightarrow> string list go_result" where
  "batch_settings_items [] = Inr []"
| "batch_settings_items (v # vs) =
     (if n_tag v \<noteq> str_tag \<or> trim_space (n_value v) = [] \<or>
         list_ex (\<lambda>ch. ch \<in> set ''/${}'') (n_value v) \<or> trim_space (n_value v) \<noteq> n_value v
      then Inl (err_batch_settings @ '': invalid type '' @ go_quote (n_value v))
      else (case batch_settings_items vs of Inl e \<Rightarrow> Inl e | Inr xs \<Rightarrow> Inr (n_value v # xs)))"

fun batch_settings :: "map_entry list \<Rightarrow> string list go_result" where
  "batch_settings [] = Inr []"
| "batch_settings (e # es) =
     (if me_key e \<noteq> ''additional_processors'' \<or> n_kind (me_node e) \<noteq> SequenceNode then Inl err_batch_settings
      else (case batch_settings_items (n_content (me_node e)) of
          Inl err \<Rightarrow> Inl err
        | Inr xs \<Rightarrow> (case batch_settings es of Inl err \<Rightarrow> Inl err | Inr ys \<Rightarrow> Inr (xs @ ys))))"

definition batch_with_settings :: "go_lib \<Rightarrow> ynode \<Rightarrow> check go_result" where
  "batch_with_settings lib n =
     (if n_kind n \<noteq> MappingNode then Inl err_batch_settings
      else (case batch_settings (map_entries n []) of
              Inl e \<Rightarrow> Inl e | Inr additional \<Rightarrow> Inr (missing_batch_check additional)))"

definition missing_batch :: rule where
  "missing_batch = (new_rule ''missing-batch''
     ''exporting without batching costs throughput and export requests'' Info
     (missing_batch_check []))\<lparr>ru_with_settings := Some batch_with_settings\<rparr>"

subsection \<open>debug-exporter-verbosity\<close>

definition verbosity_key :: string where "verbosity_key = ''verbosity''"
definition detailed_level :: string where "detailed_level = ''detailed''"

definition detailed_debug :: "comp \<Rightarrow> bool" where
  "detailed_debug d \<longleftrightarrow>
     (case resolve_alias (child_node (Some (c_value_node d)) verbosity_key) of
        None \<Rightarrow> False
      | Some val \<Rightarrow> n_kind val = ScalarNode \<and> equal_fold (n_value val) detailed_level)"

definition sampled_debug :: "ctx \<Rightarrow> comp \<Rightarrow> bool" where
  "sampled_debug c d \<longleftrightarrow>
     (let initial_node = resolve_alias (child_node (Some (c_value_node d)) ''sampling_initial'');
          thereafter_node = resolve_alias (child_node (Some (c_value_node d)) ''sampling_thereafter'')
      in if initial_node = None \<or> thereafter_node = None \<or> is_null initial_node \<or> is_null thereafter_node
         then False
         else (let i = ctx_read_int c initial_node; t = ctx_read_int c thereafter_node in
           st_known i \<and> 0 \<le> st_num i \<and> st_known t \<and> 1 < st_num t))"

definition debug_finding :: "pipeline \<Rightarrow> cref \<Rightarrow> bool \<Rightarrow> finding" where
  "debug_finding p r detailed =
     (let exporters = ''service.pipelines.'' @ p_key p @ ''.exporters'' in
      if \<not> detailed then
        (finding_at (Some (r_node r)) (r_path r)
           (''exporter '' @ quote (id_string (r_id r)) @ '' writes the telemetry of pipeline '' @
            quote (p_key p) @ '' to the collector's log''))
        \<lparr>fi_hint := ''the exporter is for diagnosing a pipeline rather than for running one; remove it from '' @
           exporters @ '' once the diagnosis is done, and do not parse what it '' @
           ''prints, whose format upstream does not keep stable'',
         fi_docs := debug_docs, fi_severity := Some Info\<rparr>
      else
        (finding_at (Some (r_node r)) (r_path r)
           (''exporter '' @ quote (id_string (r_id r)) @ '' runs at '' @ verbosity_key @ '': '' @ detailed_level @
            '' in pipeline '' @ quote (p_key p) @ '', logging every record it receives''))
        \<lparr>fi_hint := ''set '' @ verbosity_key @ '': basic, or remove the exporter from '' @ exporters @ ''; '' @
           ''sampling_initial and sampling_thereafter can reduce output frequency if it stays at '' @ detailed_level,
         fi_docs := debug_docs\<rparr>)"

definition debug_exporter_verbosity_check :: check where
  "debug_exporter_verbosity_check c =
     concat (map (\<lambda>p. concat (map (\<lambda>r.
        if id_type (r_id r) \<noteq> debug_type then []
        else (case file_component (cx_file c) Exporter (r_id r) of
            None \<Rightarrow> []
          | Some d \<Rightarrow>
              (let f = debug_finding p r (detailed_debug d) in
               if detailed_debug d \<and> sampled_debug c d then
                 [f\<lparr>fi_severity := Some Info,
                    fi_message := ''exporter '' @ quote (id_string (r_id r)) @
                      '' emits sampled detailed telemetry in pipeline '' @ quote (p_key p),
                    fi_hint := ''sampling reduces output frequency but still emits detailed payloads; '' @
                      ''remove the exporter when diagnosis is complete''\<rparr>]
               else [f]))) (p_exporters p))) (svc_pipelines (f_service (cx_file c))))"

definition debug_exporter_verbosity :: rule where
  "debug_exporter_verbosity = new_rule ''debug-exporter-verbosity''
     ''a debug exporter left in a pipeline, writing the telemetry it receives to the log'' Warning
     debug_exporter_verbosity_check"

subsection \<open>What missing-batch reports\<close>

definition is_leg :: "ctx \<Rightarrow> cref \<Rightarrow> bool" where
  "is_leg c r \<longleftrightarrow>
     (case resolve_ref (cx_index c) Exporter (r_id r) of None \<Rightarrow> True | Some d \<Rightarrow> c_kind d \<noteq> Connector)"

definition sends_unbatched :: "ctx \<Rightarrow> cref \<Rightarrow> bool" where
  "sends_unbatched c r \<longleftrightarrow>
     (case resolve_ref (cx_index c) Exporter (r_id r) of
        None \<Rightarrow> False | Some d \<Rightarrow> c_kind d \<noteq> Connector \<and> read_queue_batching d = BatchNone)"

lemma export_legs_correct:
  "fst (export_legs c rs) = length (filter (is_leg c) rs) \<and>
   map ul_ref (snd (export_legs c rs)) = filter (sends_unbatched c) rs"
  by (induction rs) (auto simp: is_leg_def sends_unbatched_def split: prod.splits option.splits)

lemma sends_unbatched_leg: "sends_unbatched c r \<Longrightarrow> is_leg c r"
  by (auto simp: is_leg_def sends_unbatched_def split: option.splits)

lemma unbatched_all_legs:
  "length (filter (sends_unbatched c) rs) = length (filter (is_leg c) rs) \<longleftrightarrow>
     (\<forall>r \<in> set rs. is_leg c r \<longrightarrow> sends_unbatched c r)"
proof (induction rs)
  case (Cons r rs)
  have "length (filter (sends_unbatched c) rs) \<le> length (filter (is_leg c) rs)" for rs
    by (induction rs) (auto simp: sends_unbatched_leg)
  from this [of rs] Cons.IH show ?case using sends_unbatched_leg [of c r] by auto
qed simp

definition batch_settled :: "string list \<Rightarrow> pipeline \<Rightarrow> bool" where
  "batch_settled additional p \<longleftrightarrow>
     is_expansion (p_processors_node p) \<or> p_exporters p = [] \<or>
     (\<exists>r \<in> set (p_processors p).
        id_type (r_id r) \<in> set (batch_type # additional) \<or> has_expansion (id_string (r_id r)))"

lemma batch_settled_iff:
  "batch_settled additional p \<longleftrightarrow> is_expansion (p_processors_node p) \<or> has_batch_processor additional p \<or>
     has_dynamic_refs_in (p_processors p) \<or> length (p_exporters p) = 0"
  by (auto simp: batch_settled_def has_batch_processor_def has_dynamic_refs_in_def list_ex_iff)

lemma report_paths [simp]:
  "map fi_path (report_pipeline p ls) = [processors_path p]"
  "map fi_path (report_legs p ls) = map (r_path \<circ> ul_ref) ls"
  by (simp_all add: report_pipeline_def report_legs_def finding_at_def)

text \<open>
  Missing-batch says nothing about a pipeline that batches, is fed batched data through forward
  connectors, or has no exporter that demonstrably sends unbatched. Of the others, one where every
  exporter leg sends unbatched gets one finding, on the pipeline; where some do, each of them gets its
  own, in order, and the legs nothing is known about get none.
\<close>

theorem missing_batch_exact:
  assumes "indexed c" "distinct (map p_key (svc_pipelines (f_service (cx_file c))))"
    and "p \<in> set (svc_pipelines (f_service (cx_file c)))"
  shows "map fi_path (missing_batch_pipeline additional c p) =
    (if batch_settled additional p \<or>
        (\<not> has_dynamic_refs (cx_index c) Exporter \<and>
         covered (cx_index c) (batch_type # additional) [''forward''] p False) \<or>
        (\<forall>r \<in> set (p_exporters p). \<not> sends_unbatched c r) then []
     else if \<forall>r \<in> set (p_exporters p). is_leg c r \<longrightarrow> sends_unbatched c r then [processors_path p]
     else map r_path (filter (sends_unbatched c) (p_exporters p)))"
proof -
  obtain legs ls where l: "export_legs c (p_exporters p) = (legs, ls)" by fastforce
  have legs: "legs = length (filter (is_leg c) (p_exporters p))"
    "map ul_ref ls = filter (sends_unbatched c) (p_exporters p)"
    using export_legs_correct [of c "p_exporters p"] l by simp_all
  then have n: "length ls = length (filter (sends_unbatched c) (p_exporters p))" by (metis length_map)
  then have nil: "ls = [] \<longleftrightarrow> (\<forall>r \<in> set (p_exporters p). \<not> sends_unbatched c r)"
    using legs(2) by (metis Nil_is_map_conv filter_empty_conv)
  have "upstream_covered (cx_index c) p (batch_processor_types additional) [''forward''] \<longleftrightarrow>
      \<not> has_dynamic_refs (cx_index c) Exporter \<and>
      covered (cx_index c) (batch_type # additional) [''forward''] p False"
    using upstream_covered_facts [OF assms(2,3)] assms(1) by (simp add: indexed_def batch_processor_types_def)
  then show ?thesis
    using legs nil n l unbatched_all_legs [of c "p_exporters p"]
    by (simp add: missing_batch_pipeline_def batch_settled_iff flip: map_map) blast
qed

definition demo_batch :: "pipeline \<Rightarrow> ctx" where
  "demo_batch p = demo_ctx (demo_schema Exporter ''e'' demo_field)
     [demo_component Receiver ''a'' y_null, demo_component Exporter ''e'' y_null,
      demo_component Exporter ''q'' (y_map [(''sending_queue'', y_map [(''batch'', y_null)])])]
     [p] no_environment"

lemma missing_batch_exact_witness:
  "map fi_path (missing_batch_pipeline [] (demo_batch (demo_pipe ''logs'' [''a''] [] [''e'', ''q'']))
      (demo_pipe ''logs'' [''a''] [] [''e'', ''q''])) = [[]] \<and>
   map fi_path (missing_batch_pipeline [] (demo_batch (demo_pipe ''logs'' [''a''] [] [''e'']))
      (demo_pipe ''logs'' [''a''] [] [''e''])) = [''service.pipelines.logs.processors''] \<and>
   missing_batch_pipeline [] (demo_batch (demo_pipe ''logs'' [''a''] [] [''q'']))
      (demo_pipe ''logs'' [''a''] [] [''q'']) = []"
proof -
  have use: "indexed (demo_batch p)" "distinct (map p_key (svc_pipelines (f_service (cx_file (demo_batch p)))))"
    "p \<in> set (svc_pipelines (f_service (cx_file (demo_batch p))))" for p
    by (simp_all add: demo_batch_def demo_ctx_def Let_def indexed_def)
  let ?p = "demo_pipe ''logs'' [''a''] [] [''e'', ''q'']" and ?q = "demo_pipe ''logs'' [''a''] [] [''e'']"
    and ?r = "demo_pipe ''logs'' [''a''] [] [''q'']"
  have up: "\<not> upstream_covered (cx_index (demo_batch ?p)) ?p (batch_type # []) [''forward'']"
    "\<not> upstream_covered (cx_index (demo_batch ?q)) ?q (batch_type # []) [''forward'']" by code_simp+
  have cov: "\<not> (\<not> has_dynamic_refs (cx_index (demo_batch p)) Exporter \<and>
        covered (cx_index (demo_batch p)) (batch_type # []) [''forward''] p False)"
    if "\<not> upstream_covered (cx_index (demo_batch p)) p (batch_type # []) [''forward'']" for p
    using upstream_covered_facts [OF use(2,3)] use(1) that by (simp add: indexed_def)
  have s: "map (sends_unbatched (demo_batch ?p)) (p_exporters ?p) = [True, False]"
    "map (is_leg (demo_batch ?p)) (p_exporters ?p) = [True, True]"
    "map (sends_unbatched (demo_batch ?q)) (p_exporters ?q) = [True]"
    "map (sends_unbatched (demo_batch ?r)) (p_exporters ?r) = [False]"
    "\<not> batch_settled [] ?p" "\<not> batch_settled [] ?q" by code_simp+
  show ?thesis
    using missing_batch_exact [OF use, of "[]" ?p] missing_batch_exact [OF use, of "[]" ?q]
      missing_batch_exact [OF use, of "[]" ?r] s cov [OF up(1)] cov [OF up(2)]
    by (auto simp: demo_pipe_def demo_ref_def processors_path_def)
qed

text \<open>
  An exporter whose settings are one expansion is read as not batching, and reported, although what
  it expands to may hold a batcher; the queue rule calls the same settings unresolved.
\<close>

lemma read_queue_batching_expansion:
  assumes "n_kind (c_value_node d) = ScalarNode" "has_expansion (n_value (c_value_node d))"
  shows "read_queue_batching d = BatchNone" and "sq_unresolved (read_sending_queue c d)"
  using assms by (simp_all add: read_queue_batching_def read_sending_queue_def is_expansion_def Let_def)

end
