(* ===== verification/Endpoints.thy ===== *)
theory Endpoints
  imports ExporterRules
begin

section \<open>Endpoints and who can reach them\<close>

text \<open>
  \<open>pkg/rule/endpoint.go\<close>, where an endpoint listens, with what it calls of the package \<open>net\<close>
  (\<open>SplitHostPort\<close> and \<open>ParseIP\<close>, an address being 16 bytes), and the rules that ask it:
  \<open>pkg/rule/debugextensionexposed\<close> and \<open>pkg/rule/receiverbindsallinterfaces\<close>.
\<close>

subsection \<open>net.SplitHostPort\<close>

definition colon :: char where "colon = CHR '':''"

fun split_last :: "char \<Rightarrow> string \<Rightarrow> (string \<times> string) option" where
  "split_last ch [] = None"
| "split_last ch (x # xs) =
     (case split_last ch xs of
        Some (a, b) \<Rightarrow> Some (x # a, b)
      | None \<Rightarrow> if x = ch then Some ([], xs) else None)"

text \<open>
  \<^term>\<open>None\<close> is any of its errors. In brackets the first \<open>]\<close> must stand just before the last colon, and
  no other bracket is allowed.
\<close>

definition split_host_port :: "string \<Rightarrow> (string \<times> string) option" where
  "split_host_port s =
     (case split_last colon s of
        None \<Rightarrow> None
      | Some (front, port) \<Rightarrow>
          if s \<noteq> [] \<and> hd s = CHR ''['' then
            (case cut s '']'' of (inner, rest, found) \<Rightarrow>
              if \<not> found \<or> rest \<noteq> colon # port then None
              else if CHR ''['' \<in> set (tl inner @ rest) \<or> CHR '']'' \<in> set rest then None
              else Some (tl inner, port))
          else if colon \<in> set front then None
          else if CHR ''['' \<in> set s \<or> CHR '']'' \<in> set s then None
          else Some (front, port))"

subsection \<open>net.ParseIP\<close>

definition parse_octet :: "string \<Rightarrow> int option" where
  "parse_octet part =
     (case parse_uint10 255 part of
        Some n \<Rightarrow> if show_digits n = part then Some n else None
      | None \<Rightarrow> None)"

definition parse_ipv4_fields :: "string \<Rightarrow> int list option" where
  "parse_ipv4_fields s =
     (let octets = map parse_octet (split_on (CHR ''.'') s) in
      if length octets = 4 \<and> list_all (\<lambda>x. x \<noteq> None) octets then Some (map the octets) else None)"

definition v4_mapped :: "int list \<Rightarrow> int list" where
  "v4_mapped b = replicate 10 0 @ [255, 255] @ b"

definition hex_value :: "char \<Rightarrow> int option" where
  "hex_value ch = (case digit_value ch of Some d \<Rightarrow> if d < 16 then Some d else None | None \<Rightarrow> None)"

definition hex_group :: "string \<Rightarrow> int" where
  "hex_group ds = foldl (\<lambda>acc ch. acc * 16 + the (hex_value ch)) 0 ds"

text \<open>
  The groups of an IPv6 address: the bytes read so far, where the ellipsis stands, and what is
  left of the text.
\<close>

function v6_groups :: "int list \<Rightarrow> nat option \<Rightarrow> string \<Rightarrow> (int list \<times> nat option \<times> string) option" where
  "v6_groups ip ell s =
     (if 16 \<le> length ip then Some (ip, ell, s)
      else
        (let ds = takeWhile (\<lambda>ch. hex_value ch \<noteq> None) s; rest = drop (length ds) s in
         if ds = [] \<or> 4 < length ds then None
         else if rest \<noteq> [] \<and> hd rest = CHR ''.'' then
           (if ell = None \<and> length ip \<noteq> 12 then None
            else if 16 < length ip + 4 then None
            else (case parse_ipv4_fields s of None \<Rightarrow> None | Some b \<Rightarrow> Some (ip @ b, ell, [])))
         else
           (let ip' = ip @ [hex_group ds div 256, hex_group ds mod 256] in
            if rest = [] then Some (ip', ell, [])
            else if hd rest \<noteq> colon \<or> length rest = 1 then None
            else if rest ! 1 = colon then
              (if ell \<noteq> None then None
               else if length rest = 2 then Some (ip', Some (length ip'), [])
               else v6_groups ip' (Some (length ip')) (drop 2 rest))
            else v6_groups ip' ell (tl rest))))"
  by pat_completeness auto
termination
  by (relation "measure (\<lambda>(_, _, s). length s)") (auto simp: Let_def length_takeWhile_le)

declare v6_groups.simps [simp del]

definition parse_ipv6 :: "string \<Rightarrow> int list option" where
  "parse_ipv6 s =
     (let leading = has_prefix s ''::'';
          start = (if leading then Some 0 else None); s' = (if leading then drop 2 s else s) in
      if leading \<and> s' = [] then Some (replicate 16 0)
      else (case v6_groups [] start s' of
          None \<Rightarrow> None
        | Some (ip, ell, rest) \<Rightarrow>
            if rest \<noteq> [] then None
            else (case ell of
                None \<Rightarrow> if length ip < 16 then None else Some ip
              | Some e \<Rightarrow>
                  if length ip < 16 then Some (take e ip @ replicate (16 - length ip) 0 @ drop e ip)
                  else None)))"

text \<open>The first of \<open>.\<close>, \<open>:\<close> and \<open>%\<close> tells the family; an address with a zone is not an \<open>IP\<close>.\<close>

definition parse_ip :: "string \<Rightarrow> int list option" where
  "parse_ip s =
     (if CHR ''%'' \<in> set s then None
      else (case find (\<lambda>ch. ch = CHR ''.'' \<or> ch = colon) s of
          None \<Rightarrow> None
        | Some ch \<Rightarrow> if ch = colon then parse_ipv6 s else map_option v4_mapped (parse_ipv4_fields s)))"

definition ip_unspecified :: "int list \<Rightarrow> bool" where
  "ip_unspecified ip \<longleftrightarrow> ip = v4_mapped [0, 0, 0, 0] \<or> ip = replicate 16 0"

definition ip_loopback :: "int list \<Rightarrow> bool" where
  "ip_loopback ip \<longleftrightarrow>
     (if take 12 ip = replicate 10 0 @ [255, 255] then ip ! 12 = 127 else ip = replicate 15 0 @ [1])"

subsection \<open>endpoint.go\<close>

datatype exposure = ExposureUnknown | ExposureLoopback | ExposureUnspecified | ExposureRoutable

definition expansion_mask :: string where "expansion_mask = [CHR 0x00]"

record debug_extension =
  de_type :: string
  de_serves :: string

definition debug_extensions :: "debug_extension list" where
  "debug_extensions =
     [\<lparr>de_type = ''pprof'',
       de_serves = ''heap profiles, goroutine dumps and the collector's command line''\<rparr>,
      \<lparr>de_type = ''zpages'', de_serves = ''live traces and the collector's pipeline internals''\<rparr>]"

definition endpoint_scalar :: "ynode option \<Rightarrow> ynode option" where
  "endpoint_scalar n0 =
     (case resolve_alias n0 of
        None \<Rightarrow> None
      | Some n \<Rightarrow> if n_kind n \<noteq> ScalarNode \<or> n_value n = [] then None else Some n)"

definition bracketed :: "string \<Rightarrow> string" where
  "bracketed endpoint =
     (case cut_prefix endpoint '':::'' of Some rest \<Rightarrow> ''[::]:'' @ rest | None \<Rightarrow> endpoint)"

definition trim_brackets :: "string \<Rightarrow> string" where
  "trim_brackets s =
     (let drop_front = dropWhile (\<lambda>ch. ch \<in> set ''[]'') in rev (drop_front (rev (drop_front s))))"

definition endpoint_host :: "string \<Rightarrow> string option" where
  "endpoint_host endpoint =
     (let masked = mask_expansions (bracketed endpoint) expansion_mask;
          host = (case split_host_port masked of Some (h, _) \<Rightarrow> h | None \<Rightarrow> trim_brackets masked)
      in if contains host expansion_mask then None else Some host)"

definition endpoint_port :: "string \<Rightarrow> string option" where
  "endpoint_port endpoint =
     (case split_host_port (mask_expansions (bracketed endpoint) expansion_mask) of
        None \<Rightarrow> None
      | Some (_, port) \<Rightarrow> if contains port expansion_mask then None else Some port)"

definition classify_endpoint :: "string \<Rightarrow> exposure" where
  "classify_endpoint endpoint =
     (case endpoint_host endpoint of
        None \<Rightarrow> ExposureUnknown
      | Some host \<Rightarrow>
          if host = [] then ExposureUnspecified
          else (case parse_ip host of
              Some ip \<Rightarrow>
                if ip_unspecified ip then ExposureUnspecified
                else if ip_loopback ip then ExposureLoopback else ExposureRoutable
            | None \<Rightarrow> if equal_fold host ''localhost'' then ExposureLoopback else ExposureUnknown))"

subsection \<open>debug-extension-exposed\<close>

definition endpoint_node :: "ynode \<Rightarrow> ynode option" where
  "endpoint_node settings =
     (case resolve_alias (Some settings) of
        None \<Rightarrow> None
      | Some s \<Rightarrow>
          if n_kind s \<noteq> MappingNode then None
          else (case child_node (Some s) endpoint_key of
              None \<Rightarrow> None | Some n \<Rightarrow> endpoint_scalar (Some n)))"

definition report_exposed :: "comp \<Rightarrow> debug_extension \<Rightarrow> ynode \<Rightarrow> finding list" where
  "report_exposed d ext n =
     (let path = join_path (section_key Extension @ ''.'' @ id_string (c_id d)) endpoint_key;
          subject = ''extension '' @ quote (id_string (c_id d)) @ '' binds '' @ quote (n_value n) @
            '', serving '' @ de_serves ext
      in case classify_endpoint (n_value n) of
           ExposureUnspecified \<Rightarrow>
             [(finding_at (Some n) path (subject @ '' on every interface of the host''))
               \<lparr>fi_hint := ''bind it to localhost, and reach it through a port-forward when you need it; '' @
                  ''upstream's advice is not to expose telemetry or debugging data outside the collector '' @
                  ''by default'', fi_docs := security_docs\<rparr>]
         | ExposureRoutable \<Rightarrow>
             [(finding_at (Some n) path (subject @ '' to that network''))
               \<lparr>fi_hint := ''binding a specific address is deliberate, but every host that can route to it '' @
                  ''reads the collector's internals; localhost is the safe default'',
                fi_docs := security_docs, fi_severity := Some Info\<rparr>]
         | _ \<Rightarrow> [])"

definition debug_extension_exposed_check :: check where
  "debug_extension_exposed_check c =
     concat (map (\<lambda>d.
       (case find (\<lambda>e. de_type e = id_type (c_id d)) debug_extensions of
          None \<Rightarrow> []
        | Some ext \<Rightarrow>
            if \<not> enabled (cx_index c) (c_id d) then []
            else (case endpoint_node (c_value_node d) of
                None \<Rightarrow> [] | Some n \<Rightarrow> report_exposed d ext n)))
      (section_components (cx_file c) Extension))"

definition debug_extension_exposed :: rule where
  "debug_extension_exposed = new_rule ''debug-extension-exposed''
     ''a debugging extension bound where more than this host can reach it'' Warning
     debug_extension_exposed_check"

subsection \<open>receiver-binds-all-interfaces\<close>

definition bind_keys :: "string list" where "bind_keys = [endpoint_key, ''listen_address'']"

definition probe_extensions :: "string list" where
  "probe_extensions = [''health_check'', ''healthcheckv2'']"

definition bind_hint :: "string option \<Rightarrow> string" where
  "bind_hint port =
     (let suf = (case port of None \<Rightarrow> [] | Some p \<Rightarrow> '':'' @ p) in
      ''bind the interface you meant, e.g. '' @ ''127.0.0.1'' @ suf @ '' when every client is local; '' @
      ''in Kubernetes write '' @ ''${env:MY_POD_IP}'' @ suf @ '', the pod IP the downward API supplies'')"

definition skip_bind :: "ctx \<Rightarrow> kind \<Rightarrow> comp \<Rightarrow> bool" where
  "skip_bind c k d \<longleftrightarrow>
     (if k = Extension then
        (if list_ex (\<lambda>e. de_type e = id_type (c_id d)) debug_extensions then True
         else if id_type (c_id d) \<in> set probe_extensions then True
         else \<not> enabled (cx_index c) (c_id d))
      else \<not> used (cx_index c) k (c_id d))"

definition network_phrase :: "environment \<Rightarrow> string" where
  "network_phrase env =
     (case env_host_network env of
        None \<Rightarrow> ''the pod or node network namespace (hostNetwork is unknown)''
      | Some h \<Rightarrow> if h then ''the node network namespace (hostNetwork is true)''
                 else ''the pod network namespace'')"

definition report_bind :: "ctx \<Rightarrow> kind \<Rightarrow> comp \<Rightarrow> ynode \<Rightarrow> string \<Rightarrow> finding list" where
  "report_bind c k d n path =
     (if classify_endpoint (n_value n) \<noteq> ExposureUnspecified then []
      else (let subject = quote (short_path path) @ '' binds '' @ quote (n_value n);
                tail = '', for '' @ kind_string k @ '' '' @ quote (id_string (c_id d));
                f = (finding_at (Some n) path (subject @ '', every interface the host has'' @ tail))
                  \<lparr>fi_hint := bind_hint (endpoint_port (n_value n)), fi_docs := config_security_docs\<rparr>
        in if \<not> env_kubernetes (cx_env c) then [f]
           else [f\<lparr>fi_severity := (if env_host_network (cx_env c) = Some False then Some Info else None),
                   fi_message := subject @ '', every interface in '' @ network_phrase (cx_env c) @ tail,
                   fi_hint := ''confirm this listener is intended to be reachable from other pods; '' @
                     ''check NetworkPolicy and hostNetwork (which shares the node network); '' @
                     ''use a specific address when only local clients need access''\<rparr>]))"

definition report_binds :: "ctx \<Rightarrow> kind \<Rightarrow> comp \<Rightarrow> ynode \<times> string \<Rightarrow> finding list" where
  "report_binds c k d mp =
     (case mp of (m, path) \<Rightarrow>
       concat (map (\<lambda>key.
         (case child_node (Some m) key of
            None \<Rightarrow> []
          | Some n \<Rightarrow>
              (case endpoint_scalar (Some n) of
                 None \<Rightarrow> [] | Some scalar \<Rightarrow> report_bind c k d scalar (join_path path key)))) bind_keys))"

definition receiver_binds_all_interfaces_check :: check where
  "receiver_binds_all_interfaces_check c =
     concat (map (\<lambda>k. concat (map (\<lambda>d.
        if skip_bind c k d then []
        else concat (map (report_binds c k d)
          (walk_settings (Some (c_value_node d)) (section_key k @ ''.'' @ id_string (c_id d)) 0)))
       (section_components (cx_file c) k))) [Receiver, Extension])"

definition receiver_binds_all_interfaces :: rule where
  "receiver_binds_all_interfaces = new_rule ''receiver-binds-all-interfaces''
     ''a component listening on every network interface the host has'' Warning
     receiver_binds_all_interfaces_check"

subsection \<open>What an endpoint reaches\<close>

definition plain_port :: "string \<Rightarrow> bool" where
  "plain_port port \<longleftrightarrow> list_all (\<lambda>ch. ch \<notin> set '':[]'') (mask_expansions port expansion_mask)"

definition dotted :: "int \<Rightarrow> int \<Rightarrow> int \<Rightarrow> int \<Rightarrow> string" where
  "dotted a b c d = join_strings ''.'' (map show_digits [a, b, c, d])"

lemma split_last_app: "ch \<notin> set p \<Longrightarrow> split_last ch (h @ ch # p) = Some (h, p)"
proof (induction h)
  case Nil
  have "ch \<notin> set p \<Longrightarrow> split_last ch p = None" for p by (induction p) (auto split: option.split)
  then show ?case using Nil by simp
qed simp

lemma contains_char: "contains s [ch] \<longleftrightarrow> ch \<in> set s"
  by (induction s) auto

lemma mask_plain_prefix: "CHR ''$'' \<notin> set h \<Longrightarrow> mask_expansions (h @ x) m = h @ mask_expansions x m"
  by (simp add: mask_expansions_def segments_plain comp_def)

lemma split_plain_host_port:
  assumes "set h \<inter> set '':[]'' = {}" "set p \<inter> set '':[]'' = {}"
  shows "split_host_port (h @ colon # p) = Some (h, p)"
proof -
  have "split_last colon (h @ colon # p) = Some (h, p)"
    by (rule split_last_app) (use assms(2) in \<open>auto simp: colon_def\<close>)
  moreover have "\<not> (h @ colon # p \<noteq> [] \<and> hd (h @ colon # p) = CHR ''['')"
    using assms(1) by (cases h) (auto simp: colon_def)
  ultimately show ?thesis using assms by (auto simp: split_host_port_def colon_def)
qed

lemma plain_port_set: "plain_port port \<Longrightarrow> set (mask_expansions port expansion_mask) \<inter> set '':[]'' = {}"
  by (auto simp: plain_port_def list_all_iff)

definition plain_host :: "string \<Rightarrow> bool" where
  "plain_host h \<longleftrightarrow> list_all (\<lambda>ch. ch \<notin> set '':[]$'' \<and> ch \<noteq> CHR 0x00) h"

lemma bracketed_id: "\<not> prefix '':::'' s \<Longrightarrow> bracketed s = s"
  by (simp add: bracketed_def cut_prefix_def)

lemma plain_port_no_colon: "plain_port port \<Longrightarrow> \<not> prefix '':'' port"
proof
  assume p: "plain_port port" "prefix '':'' port"
  then obtain r where "port = '':'' @ r" by (auto simp: prefix_def)
  then have "mask_expansions port expansion_mask = '':'' @ mask_expansions r expansion_mask"
    by (simp only: mask_plain_prefix) (rule mask_plain_prefix, simp)
  then show False using p(1) by (simp add: plain_port_def)
qed

lemma endpoint_host_port:
  assumes "plain_host h" "plain_port port"
  shows "endpoint_host (h @ colon # port) = Some h"
proof -
  have h: "set h \<inter> set '':[]'' = {}" "CHR ''$'' \<notin> set h" "CHR 0x00 \<notin> set h"
    using assms(1) by (auto simp: plain_host_def list_all_iff)
  have "\<not> prefix '':::'' (h @ colon # port)"
    using h(1) plain_port_no_colon [OF assms(2)] by (cases h; cases port) (auto simp: colon_def)
  then have "mask_expansions (bracketed (h @ colon # port)) expansion_mask =
      h @ colon # mask_expansions port expansion_mask"
    using h(2) mask_plain_prefix [of "[colon]" port] by (simp add: bracketed_id mask_plain_prefix colon_def)
  then show ?thesis
    using split_plain_host_port [OF h(1) plain_port_set [OF assms(2)]] h(3)
    by (simp add: endpoint_host_def expansion_mask_def contains_char)
qed

lemma split_on_plain: "d \<notin> set w \<Longrightarrow> split_on d w = [w]"
  by (induction w) auto

lemma split_on_app: "d \<notin> set w \<Longrightarrow> split_on d (w @ d # r) = w # split_on d r"
  by (induction w) auto

lemma show_digits_plain: "0 \<le> n \<Longrightarrow> ch \<in> set (show_digits n) \<Longrightarrow> is_digit ch"
  by (rule show_digits_digits)

lemma digit_not_special: "is_digit ch \<Longrightarrow> ch \<notin> set '':[]$.%'' \<and> ch \<noteq> CHR 0x00"
  by (auto simp: is_digit_def)

definition octet :: "int \<Rightarrow> bool" where "octet n \<longleftrightarrow> 0 \<le> n \<and> n \<le> 255"

lemma octet_digits: "octet n \<Longrightarrow> set (show_digits n) \<inter> set '':[]$.%'' = {} \<and> CHR 0x00 \<notin> set (show_digits n)"
  using show_digits_plain [of n] digit_not_special by (auto simp: octet_def)

lemma parse_octet_show: "octet n \<Longrightarrow> parse_octet (show_digits n) = Some n"
  by (simp add: parse_octet_def octet_def parse_uint10_show_digits)

lemma dotted_eq: "dotted a b c d = show_digits a @ CHR ''.'' # show_digits b @ CHR ''.'' #
    show_digits c @ CHR ''.'' # show_digits d"
  by (simp add: dotted_def)

lemma parse_dotted:
  assumes "octet a" "octet b" "octet c" "octet d"
  shows "parse_ip (dotted a b c d) = Some (v4_mapped [a, b, c, d])"
proof -
  have dots: "CHR ''.'' \<notin> set (show_digits n)" if "octet n" for n using octet_digits [OF that] by auto
  have "split_on (CHR ''.'') (dotted a b c d) = [show_digits a, show_digits b, show_digits c, show_digits d]"
    by (simp add: dotted_eq split_on_app split_on_plain dots assms)
  then have f: "parse_ipv4_fields (dotted a b c d) = Some [a, b, c, d]"
    by (simp add: parse_ipv4_fields_def parse_octet_show assms)
  have "set (dotted a b c d) \<inter> set '':%'' = {}"
    using assms [THEN octet_digits] by (auto simp: dotted_eq)
  then have "CHR ''%'' \<notin> set (dotted a b c d)" "colon \<notin> set (dotted a b c d)" by (auto simp: colon_def)
  moreover have "CHR ''.'' \<in> set (dotted a b c d)" by (simp add: dotted_eq)
  ultimately have "find (\<lambda>ch. ch = CHR ''.'' \<or> ch = colon) (dotted a b c d) = Some (CHR ''.'')"
    using find_exists [of "CHR ''.''" "dotted a b c d" "\<lambda>ch. ch = CHR ''.'' \<or> ch = colon"]
      find_SomeD [of "\<lambda>ch. ch = CHR ''.'' \<or> ch = colon" "dotted a b c d"] by fastforce
  then show ?thesis
    using f \<open>CHR ''%'' \<notin> set (dotted a b c d)\<close> by (simp add: parse_ip_def colon_def)
qed

lemma dotted_plain: "octet a \<Longrightarrow> octet b \<Longrightarrow> octet c \<Longrightarrow> octet d \<Longrightarrow> plain_host (dotted a b c d)"
  using octet_digits [of a] octet_digits [of b] octet_digits [of c] octet_digits [of d]
  by (auto simp: plain_host_def dotted_eq list_all_iff)

lemma endpoint_host_v6_any:
  assumes "plain_port port"
  shows "endpoint_host (''[::]:'' @ port) = Some ''::''"
proof -
  have "mask_expansions (''[::]:'' @ port) expansion_mask = ''[::]:'' @ mask_expansions port expansion_mask"
    by (rule mask_plain_prefix) simp
  moreover have "split_last colon (''[::]'' @ colon # p) = Some (''[::]'', p)" if "set p \<inter> set '':[]'' = {}" for p
    by (rule split_last_app) (use that in \<open>auto simp: colon_def\<close>)
  ultimately show ?thesis
    using plain_port_set [OF assms]
    by (auto simp: endpoint_host_def bracketed_id split_host_port_def colon_def Let_def expansion_mask_def
        contains_char)
qed

lemma parse_unspecified_v6: "parse_ip ''::'' = Some (replicate 16 0)"
  by code_simp

text \<open>
  An endpoint is placed by its address alone, whatever its port, even one an expansion supplies.
  Every dotted quad is read as written: 0.0.0.0 is every interface, 127.x.x.x is loopback, the rest is
  routable. A bare port, \<open>[::]:port\<close> and \<open>:::port\<close> are every interface, and localhost is loopback.
\<close>

theorem classify_endpoint_correct:
  assumes "plain_port port" "octet a" "octet b" "octet c" "octet d"
  shows "classify_endpoint (dotted a b c d @ '':'' @ port) =
      (if a = 0 \<and> b = 0 \<and> c = 0 \<and> d = 0 then ExposureUnspecified
       else if a = 127 then ExposureLoopback else ExposureRoutable) \<and>
    classify_endpoint ('':'' @ port) = ExposureUnspecified \<and>
    classify_endpoint (''[::]:'' @ port) = ExposureUnspecified \<and>
    classify_endpoint ('':::'' @ port) = ExposureUnspecified \<and>
    classify_endpoint (''localhost:'' @ port) = ExposureLoopback"
proof -
  have "dotted a b c d \<noteq> []" by (simp add: dotted_eq)
  moreover have "take 12 (v4_mapped [a, b, c, d]) = replicate 10 0 @ [255, 255]"
    "v4_mapped [a, b, c, d] ! 12 = a" "v4_mapped [a, b, c, d] \<noteq> replicate 16 0"
    by (simp_all add: v4_mapped_def numeral_eq_Suc)
  ultimately have 1: "classify_endpoint (dotted a b c d @ '':'' @ port) =
      (if a = 0 \<and> b = 0 \<and> c = 0 \<and> d = 0 then ExposureUnspecified
       else if a = 127 then ExposureLoopback else ExposureRoutable)"
    using endpoint_host_port [OF dotted_plain [OF assms(2-5)] assms(1)] parse_dotted [OF assms(2-5)]
    by (auto simp: classify_endpoint_def colon_def ip_unspecified_def ip_loopback_def v4_mapped_def)
  have 2: "classify_endpoint ('':'' @ port) = ExposureUnspecified"
    using endpoint_host_port [of "[]" port] assms(1)
    by (simp add: classify_endpoint_def colon_def plain_host_def)
  have 3: "classify_endpoint (''[::]:'' @ port) = ExposureUnspecified"
    using endpoint_host_v6_any [OF assms(1)]
    by (simp add: classify_endpoint_def parse_unspecified_v6 ip_unspecified_def)
  moreover have "bracketed ('':::'' @ port) = bracketed (''[::]:'' @ port)"
    by (simp add: bracketed_def cut_prefix_def)
  then have "classify_endpoint ('':::'' @ port) = classify_endpoint (''[::]:'' @ port)"
    by (simp only: classify_endpoint_def endpoint_host_def)
  moreover have "parse_ip ''localhost'' = None" by code_simp
  then have "classify_endpoint (''localhost:'' @ port) = ExposureLoopback"
    using endpoint_host_port [of "''localhost''" port] assms(1)
    by (simp add: classify_endpoint_def colon_def plain_host_def equal_fold_def)
  ultimately show ?thesis using 1 2 by simp
qed

lemma classify_endpoint_correct_witness:
  "classify_endpoint ''10.0.0.255:${env:OTLP_PORT}'' = ExposureRoutable \<and>
   classify_endpoint ''[::]:${env:OTLP_PORT}'' = ExposureUnspecified \<and>
   classify_endpoint ''127.0.0.1:${env:OTLP_PORT}'' = ExposureLoopback"
proof -
  let ?p = "''${env:OTLP_PORT}''"
  have p: "plain_port ?p" by code_simp
  have o: "octet 0" "octet 1" "octet 10" "octet 127" "octet 255" by (simp_all add: octet_def)
  have d: "dotted 10 0 0 255 = ''10.0.0.255''" "dotted 127 0 0 1 = ''127.0.0.1''" by code_simp+
  show ?thesis
    using classify_endpoint_correct [OF p o(3,1,1,5)] classify_endpoint_correct [OF p o(4,1,1,2)]
    unfolding d by simp
qed

end
