(* ===== verification/Secrets.thy ===== *)
theory Secrets
  imports Endpoints
begin

section \<open>Settings nobody should write: unverified TLS and credentials\<close>

text \<open>
  insecure-tls and hardcoded-secret (\<open>pkg/rule/insecuretls\<close>, \<open>pkg/rule/hardcodedsecret\<close>): two walks over
  a component's settings. A node's identity, a pointer in the code, is \<^const>\<open>n_id\<close>; the second walk
  keeps a set of the contexts it has visited, and one of the nodes it has reported.
\<close>

subsection \<open>insecure-tls\<close>

record tls_hit =
  th_node :: ynode
  th_path :: string
  th_has_ca :: bool

definition configured_ca :: "ynode \<Rightarrow> bool" where
  "configured_ca n \<longleftrightarrow>
     (case resolve_alias (child_node (Some n) ''ca_file'') of
        None \<Rightarrow> False
      | Some ca \<Rightarrow> n_kind ca = ScalarNode \<and> n_tag ca = str_tag \<and> trim_space (n_value ca) \<noteq> [] \<and>
          \<not> has_expansion (n_value ca))"

definition insecure_hit :: "ctx \<Rightarrow> ynode \<Rightarrow> map_entry \<Rightarrow> tls_hit list" where
  "insecure_hit c n e =
     (let val = decode_scalar c (me_node e) type_bool in
      if n_tag val = bool_tag \<and> lib_decode_bool (cx_lib c) val = Some True then
        [\<lparr>th_node = me_node e, th_path = me_path e,
          th_has_ca = (me_key e = ''insecure_skip_verify'' \<and> configured_ca n)\<rparr>]
      else [])"

function find_insecure :: "ctx \<Rightarrow> ynode \<Rightarrow> string \<Rightarrow> tls_hit list" where
  "find_insecure c n path =
     (case n_kind n of
        MappingNode \<Rightarrow>
          concat (map (\<lambda>e.
            if me_key e = ''insecure'' \<or> me_key e = ''insecure_skip_verify'' then insecure_hit c n e
            else find_insecure c (me_node e) (me_path e)) (map_entries n path))
      | SequenceNode \<Rightarrow>
          concat (map (\<lambda>(i, item). find_insecure c item (index_path path i)) (List.enumerate 0 (n_content n)))
      | _ \<Rightarrow> [])"
  by pat_completeness auto
termination
  by (relation "measure (\<lambda>(c, n, path). size n)") (auto simp: map_entries_size enumerate_size)

declare find_insecure.simps [simp del]

definition insecure_finding :: "kind \<Rightarrow> comp \<Rightarrow> tls_hit \<Rightarrow> finding" where
  "insecure_finding k d hit =
     (let message = quote (short_path (th_path hit)) @ '' disables TLS verification for '' @
            kind_string k @ '' '' @ quote (id_string (c_id d));
          f = (finding_at (Some (th_node hit)) (th_path hit) message)
            \<lparr>fi_hint := ''configure trusted CA certificates and enable verification outside local testing'',
             fi_docs := tls_docs\<rparr>
      in if th_has_ca hit then
           f\<lparr>fi_message := message @ '' despite a configured ca_file'',
             fi_hint := ''remove insecure_skip_verify or set it to false to verify the server '' @
               ''using the configured CA; the CA file is still loaded while verification is skipped''\<rparr>
         else f)"

definition insecure_tls_check :: check where
  "insecure_tls_check c =
     concat (map (\<lambda>k. concat (map (\<lambda>d.
        map (insecure_finding k d)
          (find_insecure c (c_value_node d) (section_key k @ ''.'' @ id_string (c_id d))))
       (section_components (cx_file c) k))) kinds)"

definition insecure_tls :: rule where
  "insecure_tls = new_rule ''insecure-tls''
     ''TLS verification disabled on a component that talks over the network'' Warning insecure_tls_check"

subsection \<open>hardcoded-secret: what a credential is\<close>

definition headers_key :: string where "headers_key = ''headers''"

text \<open>\<open>braceExpansionRE\<close>: a match other than \<open>$$\<close>.\<close>

fun brace_expansion :: "string \<Rightarrow> bool" where
  "brace_expansion [] = False"
| "brace_expansion [ch] = False"
| "brace_expansion (ch # ch2 # cs) =
     (if ch = CHR ''$'' \<and> ch2 = CHR ''$'' then brace_expansion cs
      else if ch = CHR ''$'' \<and> ch2 = CHR 0x7B \<and> CHR 0x7D \<in> set cs then True
      else brace_expansion (ch2 # cs))"

definition shorthand_expansion :: "string \<Rightarrow> bool" where
  "shorthand_expansion s \<longleftrightarrow>
     (case s of ch # ch2 # cs \<Rightarrow> ch = CHR ''$'' \<and> ident_start ch2 \<and> list_all ident_char cs | _ \<Rightarrow> False)"

definition resolved_at_runtime :: "string \<Rightarrow> bool" where
  "resolved_at_runtime value \<longleftrightarrow> brace_expansion value \<or> shorthand_expansion value"

definition credential_names :: "string list" where
  "credential_names = [''password'', ''passphrase'', ''token'', ''secret'', ''credential'',
     ''apikey'', ''api_key'', ''access_key'', ''private_key'', ''key_pem'']"

definition names_credential :: "string \<Rightarrow> bool \<Rightarrow> bool" where
  "names_credential key0 in_headers \<longleftrightarrow>
     (let lower = to_lower key0;
          key = (if in_headers then map (\<lambda>ch. if ch = CHR ''-'' then CHR ''_'' else ch) lower else lower)
      in if in_headers \<and> (key = ''authorization'' \<or> key = ''proxy_authorization'') then True
         else if list_ex (\<lambda>suf. has_suffix key suf) [''_file'', ''_path'', ''_url'', ''_uri'', ''_name''] then False
         else if \<not> in_headers \<and>
           list_ex (\<lambda>suf. has_suffix key suf) [''_env'', ''_type'', ''_mode'', ''_format''] then False
         else list_ex (contains key) credential_names)"

definition auth_scheme :: "string \<Rightarrow> string" where
  "auth_scheme value =
     (case find (\<lambda>scheme. length scheme \<le> length value \<and> equal_fold (take (length scheme) value) scheme)
        [''bearer '', ''basic ''] of
        None \<Rightarrow> [] | Some scheme \<Rightarrow> take (length scheme) value)"

definition placeholder_words :: "string list" where
  "placeholder_words = [''true'', ''false'', ''none'', ''null'', ''nil'', ''unset'', ''empty'', ''todo'',
     ''fixme'', ''tbd'', ''changeme'', ''changeit'', ''replaceme'', ''placeholder'', ''example'', ''dummy'',
     ''test'', ''secret'', ''password'', ''token'', ''apikey'', ''xxx'']"

definition is_placeholder :: "string \<Rightarrow> bool" where
  "is_placeholder value0 \<longleftrightarrow>
     (let value = trim_space value0; norm = remove_chars ''-_ '' (to_lower value) in
      value = [] \<or> (has_prefix value ''<'' \<and> has_suffix value ''>'') \<or>
      norm \<in> set placeholder_words \<or> has_prefix norm ''your'')"

definition is_hardcoded_secret :: "string \<Rightarrow> string \<Rightarrow> bool \<Rightarrow> bool" where
  "is_hardcoded_secret key value in_headers \<longleftrightarrow>
     (let scheme = auth_scheme value; rest = trim_space (drop (length scheme) value) in
      (names_credential key in_headers \<or> in_headers \<and> scheme \<noteq> []) \<and>
      \<not> resolved_at_runtime rest \<and> \<not> is_placeholder rest)"

subsection \<open>hardcoded-secret: the walk\<close>

type_synonym secret_context = "nat \<times> string \<times> bool"
type_synonym secret_hit = "ynode \<times> string"

text \<open>What the walk goes on to: each node with its path, its key and whether it is under a headers map.\<close>

type_synonym secret_step = "ynode \<times> string \<times> string \<times> bool"

definition secret_children :: "ynode \<Rightarrow> string \<Rightarrow> string \<Rightarrow> bool \<Rightarrow> secret_step list" where
  "secret_children n path key in_headers =
     (case n_kind n of
        MappingNode \<Rightarrow>
          map (\<lambda>e. (me_node e, me_path e, me_key e, in_headers \<or> equal_fold (me_key e) headers_key))
            (map_entries n path)
      | SequenceNode \<Rightarrow>
          map (\<lambda>(i, item). (item, index_path path i, key, in_headers)) (List.enumerate 0 (n_content n))
      | _ \<Rightarrow> [])"

lemma secret_children_size [termination_simp]:
  "(m, path', key', h') \<in> set (secret_children n path key h) \<Longrightarrow> size m < size n"
  by (auto simp: secret_children_def map_entries_size enumerate_size split: ykind.splits)

definition then_hits ::
  "('a \<Rightarrow> secret_context go_set \<Rightarrow> secret_hit list \<times> secret_context go_set) \<Rightarrow>
   secret_hit list \<times> secret_context go_set \<Rightarrow> 'a \<Rightarrow> secret_hit list \<times> secret_context go_set" where
  "then_hits walk acc x = (case acc of (out, v) \<Rightarrow> case walk x v of (hits, v') \<Rightarrow> (out @ hits, v'))"

lemma then_hits_cong [fundef_cong]:
  "acc = acc' \<Longrightarrow> x = x' \<Longrightarrow> (\<And>v. walk x' v = walk' x' v) \<Longrightarrow> then_hits walk acc x = then_hits walk' acc' x'"
  by (simp add: then_hits_def)

function find_secrets ::
  "ynode \<Rightarrow> string \<Rightarrow> string \<Rightarrow> bool \<Rightarrow> secret_context go_set \<Rightarrow> secret_hit list \<times> secret_context go_set" where
  "find_secrets n path key in_headers visited =
     (if set_has visited (n_id n, key, in_headers) then ([], visited)
      else
        (let visited1 = set_insert visited [(n_id n, key, in_headers)] in
         if n_kind n = ScalarNode then
           (if is_hardcoded_secret key (n_value n) in_headers then [(n, path)] else [], visited1)
         else
           foldl (then_hits (\<lambda>(m, path', key', h') v. find_secrets m path' key' h' v))
             ([], visited1) (secret_children n path key in_headers)))"
  by pat_completeness auto
termination
  by (relation "measure (\<lambda>(n, path, key, in_headers, visited). size n)") (auto simp: secret_children_size)

declare find_secrets.simps [simp del]

definition secret_finding :: "kind \<Rightarrow> comp \<Rightarrow> secret_hit \<Rightarrow> finding" where
  "secret_finding k d hit =
     (case hit of (n, path) \<Rightarrow>
       (finding_at (Some n) path
          (quote (short_path path) @ '' is a credential written into the config for '' @
           kind_string k @ '' '' @ quote (id_string (c_id d))))
        \<lparr>fi_hint := ''move it to a secret store and reference it here as an expansion such as '' @
           ''${env:OTLP_TOKEN}, which the collector resolves at startup'',
         fi_docs := config_security_docs\<rparr>)"

text \<open>One hit: reported unless its node was, with the findings so far and the reported nodes.\<close>

definition report_secret ::
  "kind \<times> comp \<Rightarrow> finding list \<times> nat go_set \<Rightarrow> secret_hit \<Rightarrow> finding list \<times> nat go_set" where
  "report_secret kd acc hit =
     (case acc of (out, reported) \<Rightarrow>
       if set_has reported (n_id (fst hit)) then (out, reported)
       else (out @ [secret_finding (fst kd) (snd kd) hit], set_insert reported [n_id (fst hit)]))"

definition secrets_in_component ::
  "finding list \<times> nat go_set \<times> secret_context go_set \<Rightarrow> kind \<times> comp \<Rightarrow>
   finding list \<times> nat go_set \<times> secret_context go_set" where
  "secrets_in_component acc kd =
     (case acc of (out, reported, visited) \<Rightarrow>
       (case find_secrets (c_value_node (snd kd))
            (section_key (fst kd) @ ''.'' @ id_string (c_id (snd kd))) [] False visited of
          (hits, visited') \<Rightarrow>
            (case foldl (report_secret kd) (out, reported) hits of
               (out', reported') \<Rightarrow> (out', reported', visited'))))"

definition declared_components :: "cfile \<Rightarrow> (kind \<times> comp) list" where
  "declared_components f = concat (map (\<lambda>k. map (Pair k) (section_components f k)) kinds)"

definition hardcoded_secret_check :: check where
  "hardcoded_secret_check c =
     fst (foldl secrets_in_component ([], set_new [], set_new []) (declared_components (cx_file c)))"

definition hardcoded_secret :: rule where
  "hardcoded_secret = new_rule ''hardcoded-secret''
     ''a credential written into the config instead of expanded at runtime'' Warning hardcoded_secret_check"

subsection \<open>What the walk finds\<close>

text \<open>
  The walk without its memory: the credentials below a node, as the identities of their scalars.
\<close>

function secrets_below :: "ynode \<Rightarrow> string \<Rightarrow> bool \<Rightarrow> nat set" where
  "secrets_below n key h =
     (if n_kind n = ScalarNode then if is_hardcoded_secret key (n_value n) h then {n_id n} else {}
      else \<Union> (set (map (\<lambda>(m, p, key', h'). secrets_below m key' h') (secret_children n [] key h))))"
  by pat_completeness auto
termination
  by (relation "measure (\<lambda>(n, key, h). size n)") (auto simp: secret_children_size)

declare secrets_below.simps [simp del]

definition steps_below :: "secret_step list \<Rightarrow> nat set" where
  "steps_below xs = (\<Union>(m, p, key, h) \<in> set xs. secrets_below m key h)"

text \<open>The paths play no part in what is below.\<close>

lemma secret_children_path:
  "map (\<lambda>(m, p, key', h'). (m, key', h')) (secret_children n path key h) =
   map (\<lambda>(m, p, key', h'). (m, key', h')) (secret_children n [] key h)"
  by (cases "n_kind n") (simp_all add: secret_children_def map_entries_def comp_def case_prod_beta)

lemma secrets_below_children:
  "n_kind n \<noteq> ScalarNode \<Longrightarrow> secrets_below n key h = steps_below (secret_children n path key h)"
proof -
  assume k: "n_kind n \<noteq> ScalarNode"
  have "secrets_below n key h =
      \<Union> (set (map (\<lambda>(m, key', h'). secrets_below m key' h')
        (map (\<lambda>(m, p, key', h'). (m, key', h')) (secret_children n [] key h))))"
    using k by (subst secrets_below.simps) (simp add: comp_def case_prod_beta)
  also have "\<dots> = steps_below (secret_children n path key h)"
    unfolding secret_children_path [of n path, symmetric]
    by (simp add: steps_below_def comp_def case_prod_beta)
  finally show ?thesis .
qed

fun below :: "ynode \<Rightarrow> ynode set" where
  "below n = insert n (\<Union> (set (map below (n_content n))))"

declare below.simps [simp del]

lemma below_self [simp]: "n \<in> below n" by (subst below.simps) simp

lemma below_children: "(m, p, k, h) \<in> set (secret_children n path key in_headers) \<Longrightarrow> below m \<subseteq> below n"
  by (subst (2) below.simps)
    (auto simp: secret_children_def dest!: map_entries_node enumerate_mem split: ykind.splits)

text \<open>What a visited context stands for, when \<open>nd\<close> gives the node of an identity.\<close>

definition context_secrets :: "(nat \<Rightarrow> ynode) \<Rightarrow> secret_context \<Rightarrow> nat set" where
  "context_secrets nd x = (case x of (i, key, h) \<Rightarrow> secrets_below (nd i) key h)"

definition known_secrets :: "(nat \<Rightarrow> ynode) \<Rightarrow> secret_context set \<Rightarrow> nat \<Rightarrow> nat set" where
  "known_secrets nd v s = (\<Union>x \<in> {x \<in> v. size (nd (fst x)) < s}. context_secrets nd x)"

definition hit_ids :: "secret_hit list \<Rightarrow> nat set" where
  "hit_ids hits = n_id ` fst ` set hits"

lemma hit_ids_simps [simp]: "hit_ids [] = {}" "hit_ids (xs @ ys) = hit_ids xs \<union> hit_ids ys"
  by (simp_all add: hit_ids_def image_Un)

text \<open>
  From the visited set \<open>v\<close> to \<open>v'\<close>, with these hits: what was added is smaller than \<open>s\<close>, and its
  secrets are hits or below something smaller visited before.
\<close>

definition explored :: "(nat \<Rightarrow> ynode) \<Rightarrow> nat \<Rightarrow> secret_context set \<Rightarrow> secret_hit list \<Rightarrow> secret_context set \<Rightarrow> bool" where
  "explored nd s v hits v' \<longleftrightarrow> v \<subseteq> v' \<and>
     (\<forall>x \<in> v' - v. size (nd (fst x)) < s \<and> context_secrets nd x \<subseteq> hit_ids hits \<union> known_secrets nd v s)"

lemma known_secrets_mono: "s \<le> s' \<Longrightarrow> v \<subseteq> v' \<Longrightarrow> known_secrets nd v s \<subseteq> known_secrets nd v' s'"
  by (force simp: known_secrets_def)

lemma known_secretsI: "x \<in> v \<Longrightarrow> size (nd (fst x)) < s \<Longrightarrow> context_secrets nd x \<subseteq> known_secrets nd v s"
  by (auto simp only: known_secrets_def)

lemma known_secretsE:
  assumes "i \<in> known_secrets nd v s"
  obtains x where "x \<in> v" "size (nd (fst x)) < s" "i \<in> context_secrets nd x"
  using assms unfolding known_secrets_def by blast

lemma explored_refl: "explored nd s v hits v"
  by (simp add: explored_def)

lemma explored_mono:
  assumes "explored nd s v hits v'" "s \<le> s'"
  shows "explored nd s' v hits v'"
  unfolding explored_def
proof (intro conjI ballI)
  show "v \<subseteq> v'" using assms(1) by (simp add: explored_def)
  fix x
  assume x: "x \<in> v' - v"
  then have "size (nd (fst x)) < s" "context_secrets nd x \<subseteq> hit_ids hits \<union> known_secrets nd v s"
    using assms(1) by (auto simp only: explored_def)
  then show "size (nd (fst x)) < s'" "context_secrets nd x \<subseteq> hit_ids hits \<union> known_secrets nd v s'"
    using assms(2) known_secrets_mono [OF assms(2) subset_refl, of nd v] by auto
qed

lemma explored_known:
  "explored nd s v hits v' \<Longrightarrow> known_secrets nd v' s \<subseteq> hit_ids hits \<union> known_secrets nd v s"
proof
  fix i
  assume e: "explored nd s v hits v'" and "i \<in> known_secrets nd v' s"
  then obtain x where x: "x \<in> v'" "size (nd (fst x)) < s" "i \<in> context_secrets nd x"
    by (auto simp: known_secrets_def)
  show "i \<in> hit_ids hits \<union> known_secrets nd v s"
  proof (cases "x \<in> v")
    case True
    then show ?thesis using known_secretsI [of x v nd s] x by blast
  next
    case False
    then show ?thesis using x e by (auto simp: explored_def)
  qed
qed

lemma explored_trans:
  assumes "explored nd s v h1 v1" "explored nd s v1 h2 v2"
  shows "explored nd s v (h1 @ h2) v2"
  unfolding explored_def
proof (intro conjI ballI)
  show "v \<subseteq> v2" using assms by (auto simp: explored_def)
  fix x
  assume x: "x \<in> v2 - v"
  have "size (nd (fst x)) < s \<and>
      (context_secrets nd x \<subseteq> hit_ids h1 \<union> known_secrets nd v s \<or>
       context_secrets nd x \<subseteq> hit_ids h2 \<union> known_secrets nd v1 s)"
    using x assms by (cases "x \<in> v1") (auto simp: explored_def)
  then show "size (nd (fst x)) < s" "context_secrets nd x \<subseteq> hit_ids (h1 @ h2) \<union> known_secrets nd v s"
    using explored_known [OF assms(1)] by auto
qed

definition identified :: "(nat \<Rightarrow> ynode) \<Rightarrow> ynode \<Rightarrow> bool" where
  "identified nd n \<longleftrightarrow> (\<forall>m \<in> below n. nd (n_id m) = m)"

lemma identified_self: "identified nd n \<Longrightarrow> nd (n_id n) = n"
  by (simp add: identified_def)

lemma identified_child:
  "identified nd n \<Longrightarrow> (m, p, k, h) \<in> set (secret_children n path key in_headers) \<Longrightarrow> identified nd m"
  by (drule below_children) (auto simp: identified_def)

text \<open>What one step of the walk must do, and that the loop over steps then does it for all.\<close>

definition walks ::
  "(nat \<Rightarrow> ynode) \<Rightarrow> nat \<Rightarrow> (secret_step \<Rightarrow> secret_context go_set \<Rightarrow> secret_hit list \<times> secret_context go_set) \<Rightarrow>
   secret_step \<Rightarrow> bool" where
  "walks nd s w x \<longleftrightarrow> (\<forall>v hits v'. w x v = (hits, v') \<longrightarrow>
     (case x of (m, p, k, h) \<Rightarrow> explored nd s (set_elems v) hits (set_elems v') \<and>
        (n_id m, k, h) \<in> set_elems v' \<and> hit_ids hits \<subseteq> secrets_below m k h))"

lemma walks_loop:
  assumes "\<And>x. x \<in> set xs \<Longrightarrow> walks nd s w x"
    and "foldl (then_hits w) (out, v) xs = (out', v')"
  shows "\<exists>hits. out' = out @ hits \<and> explored nd s (set_elems v) hits (set_elems v') \<and>
    (\<forall>(m, p, k, h) \<in> set xs. (n_id m, k, h) \<in> set_elems v') \<and> hit_ids hits \<subseteq> steps_below xs"
  using assms
proof (induction xs arbitrary: out v)
  case Nil
  then show ?case by (simp add: explored_refl)
next
  case (Cons x xs)
  obtain h1 v1 where w: "w x v = (h1, v1)" by fastforce
  obtain m p k h where x: "x = (m, p, k, h)" by (cases x)
  from Cons.prems(1) [of x] w have 1: "explored nd s (set_elems v) h1 (set_elems v1)"
    "(n_id m, k, h) \<in> set_elems v1" "hit_ids h1 \<subseteq> secrets_below m k h"
    by (auto simp: walks_def x)
  have "then_hits w (out, v) x = (out @ h1, v1)" by (simp add: then_hits_def w)
  then have "foldl (then_hits w) (out @ h1, v1) xs = (out', v')" using Cons.prems(2) by simp
  then obtain h2 where 2: "out' = (out @ h1) @ h2" "explored nd s (set_elems v1) h2 (set_elems v')"
    "\<forall>(m, p, k, h) \<in> set xs. (n_id m, k, h) \<in> set_elems v'" "hit_ids h2 \<subseteq> steps_below xs"
    using Cons.IH Cons.prems(1) by (metis list.set_intros(2))
  have "set_elems v1 \<subseteq> set_elems v'" using 2(2) by (simp add: explored_def)
  then show ?case
    using explored_trans [OF 1(1) 2(2)] 1(2,3) 2(1,3,4)
    by (intro exI [of _ "h1 @ h2"]) (auto simp: x steps_below_def)
qed

lemma find_secrets_walks:
  "identified nd n \<Longrightarrow> find_secrets n path key h v = (hits, v') \<Longrightarrow>
   explored nd (Suc (size n)) (set_elems v) hits (set_elems v') \<and>
   (n_id n, key, h) \<in> set_elems v' \<and> hit_ids hits \<subseteq> secrets_below n key h"
proof (induction n path key h v arbitrary: hits v' rule: find_secrets.induct)
  case walk: (1 n path key h v)
  let ?x = "(n_id n, key, h)" and ?v1 = "set_insert v [(n_id n, key, h)]"
  have nd: "nd (n_id n) = n" by (rule identified_self [OF walk.prems(1)])
  have x: "nd (fst ?x) = n" "context_secrets nd ?x = secrets_below n key h"
    by (simp_all add: context_secrets_def nd)
  have add: "explored nd (Suc (size n)) (set_elems v) hits (set_elems v')"
    if e: "explored nd (size n) (set_elems ?v1) hits (set_elems v')"
      and c: "secrets_below n key h \<subseteq> hit_ids hits \<union> known_secrets nd (set_elems ?v1) (size n)"
    for hits v'
  proof -
    have same: "known_secrets nd (set_elems ?v1) (size n) \<subseteq> known_secrets nd (set_elems v) (Suc (size n))"
    proof
      fix i
      assume "i \<in> known_secrets nd (set_elems ?v1) (size n)"
      then obtain y where y: "y \<in> set_elems ?v1" "size (nd (fst y)) < size n" "i \<in> context_secrets nd y"
        by (rule known_secretsE)
      then have "y \<noteq> ?x" using x(1) by auto
      then have "y \<in> set_elems v" using y(1) by auto
      then show "i \<in> known_secrets nd (set_elems v) (Suc (size n))"
        using known_secretsI [of y "set_elems v" nd "Suc (size n)"] y(2,3) by auto
    qed
    show ?thesis
      unfolding explored_def
    proof (intro conjI ballI)
      show "set_elems v \<subseteq> set_elems v'" using e by (auto simp: explored_def)
      fix y
      assume y: "y \<in> set_elems v' - set_elems v"
      show "size (nd (fst y)) < Suc (size n)"
        using y e x(1) by (cases "y = ?x") (auto simp: explored_def less_Suc_eq)
      show "context_secrets nd y \<subseteq> hit_ids hits \<union> known_secrets nd (set_elems v) (Suc (size n))"
      proof (cases "y = ?x")
        case True
        then show ?thesis using c same x(2) by auto
      next
        case False
        then show ?thesis using y e same by (auto simp: explored_def)
      qed
    qed
  qed
  show ?case
  proof (cases "set_has v ?x")
    case True
    then show ?thesis using walk.prems(2)
      by (subst (asm) find_secrets.simps) (auto simp: explored_refl)
  next
    case new: False
    show ?thesis
    proof (cases "n_kind n = ScalarNode")
      case True
      then have r: "hits = (if is_hardcoded_secret key (n_value n) h then [(n, path)] else [])" "v' = ?v1"
        using walk.prems(2) new by (subst (asm) find_secrets.simps; simp)+
      have "hit_ids hits = secrets_below n key h"
        by (subst secrets_below.simps) (simp add: r True hit_ids_def)
      moreover have "explored nd (Suc (size n)) (set_elems v) hits (set_elems ?v1)"
        by (rule add [OF explored_refl]) (simp add: calculation)
      ultimately show ?thesis by (simp add: r(2))
    next
      case False
      let ?xs = "secret_children n path key h"
      let ?w = "\<lambda>(m, p, k, h) v. find_secrets m p k h v"
      have fold: "foldl (then_hits ?w) ([], ?v1) ?xs = (hits, v')"
        using walk.prems(2) new False by (subst (asm) find_secrets.simps) simp
      have "walks nd (size n) ?w x" if x: "x \<in> set ?xs" for x
      proof -
        obtain m p k h' where m: "x = (m, p, k, h')" by (cases x)
        have "Suc (size m) \<le> size n" using secret_children_size x m by (simp add: Suc_le_eq)
        then show ?thesis
          using walk.IH [OF new refl False x [unfolded m] refl refl refl
            identified_child [OF walk.prems(1) x [unfolded m]]]
          explored_mono [of nd "Suc (size m)" _ _ _ "size n"]
          unfolding walks_def m by simp
      qed
      from walks_loop [OF this fold]
      have l: "explored nd (size n) (set_elems ?v1) hits (set_elems v')"
        "\<forall>(m, p, k, h) \<in> set ?xs. (n_id m, k, h) \<in> set_elems v'" "hit_ids hits \<subseteq> steps_below ?xs"
        by auto
      have "secrets_below m k h' \<subseteq> hit_ids hits \<union> known_secrets nd (set_elems ?v1) (size n)"
        if m: "(m, p, k, h') \<in> set ?xs" for m p k h'
      proof -
        have "nd (n_id m) = m" using identified_self [OF identified_child [OF walk.prems(1) m]] .
        then have c: "context_secrets nd (n_id m, k, h') = secrets_below m k h'" "size (nd (n_id m)) < size n"
          using secret_children_size [OF m] by (simp_all add: context_secrets_def)
        have "(n_id m, k, h') \<in> set_elems v'" using l(2) m by blast
        then have "secrets_below m k h' \<subseteq> known_secrets nd (set_elems v') (size n)"
          using known_secretsI [of "(n_id m, k, h')" "set_elems v'" nd "size n"] c by simp
        then show ?thesis using explored_known [OF l(1)] by blast
      qed
      then have "secrets_below n key h \<subseteq> hit_ids hits \<union> known_secrets nd (set_elems ?v1) (size n)"
        unfolding secrets_below_children [OF False, of key h path] steps_below_def by blast
      from add [OF l(1) this] l(1,3) show ?thesis
        unfolding secrets_below_children [OF False, of key h path] by (auto simp: explored_def)
    qed
  qed
qed

definition reported_ids :: "finding list \<Rightarrow> nat list" where
  "reported_ids fs = map (\<lambda>f. n_id (the (fi_node f))) fs"

lemma secret_finding_id: "reported_ids [secret_finding k d hit] = [n_id (fst hit)]"
  by (simp add: reported_ids_def secret_finding_def finding_at_def split: prod.split)

lemma report_secret_loop:
  assumes "distinct (reported_ids out)" "set_elems rep = set (reported_ids out)"
    and "foldl (report_secret kd) (out, rep) hits = (out', rep')"
  shows "distinct (reported_ids out') \<and> set_elems rep' = set (reported_ids out') \<and>
    set (reported_ids out') = set (reported_ids out) \<union> hit_ids hits"
  using assms
proof (induction hits arbitrary: out rep)
  case Nil
  then show ?case by simp
next
  case (Cons hit hits)
  show ?case
  proof (cases "set_has rep (n_id (fst hit))")
    case True
    then have "report_secret kd (out, rep) hit = (out, rep)" by (simp add: report_secret_def)
    then have "foldl (report_secret kd) (out, rep) hits = (out', rep')" using Cons.prems(3) by simp
    from Cons.IH [OF Cons.prems(1,2) this] True Cons.prems(2) show ?thesis by (auto simp: hit_ids_def)
  next
    case False
    let ?out = "out @ [secret_finding (fst kd) (snd kd) hit]" and ?rep = "set_insert rep [n_id (fst hit)]"
    have ids: "reported_ids ?out = reported_ids out @ [n_id (fst hit)]"
      using secret_finding_id by (simp add: reported_ids_def)
    have "report_secret kd (out, rep) hit = (?out, ?rep)" using False by (simp add: report_secret_def)
    then have "foldl (report_secret kd) (?out, ?rep) hits = (out', rep')" using Cons.prems(3) by simp
    from Cons.IH [OF _ _ this] False Cons.prems(1,2) show ?thesis by (auto simp: ids hit_ids_def)
  qed
qed

definition component_secrets :: "kind \<times> comp \<Rightarrow> nat set" where
  "component_secrets kd = secrets_below (c_value_node (snd kd)) [] False"

text \<open>What holds between components, once those of \<open>done\<close> have been walked.\<close>

definition secrets_so_far ::
  "(nat \<Rightarrow> ynode) \<Rightarrow> nat set \<Rightarrow> finding list \<times> nat go_set \<times> secret_context go_set \<Rightarrow> bool" where
  "secrets_so_far nd found acc \<longleftrightarrow>
     (case acc of (out, rep, vis) \<Rightarrow>
        distinct (reported_ids out) \<and> set_elems rep = set (reported_ids out) \<and>
        set (reported_ids out) = found \<and> (\<forall>x \<in> set_elems vis. context_secrets nd x \<subseteq> found))"

lemma secrets_in_component_step:
  assumes "secrets_so_far nd found acc" "identified nd (c_value_node (snd kd))"
  shows "secrets_so_far nd (found \<union> component_secrets kd) (secrets_in_component acc kd)"
proof -
  obtain out rep vis where acc: "acc = (out, rep, vis)" by (cases acc)
  let ?n = "c_value_node (snd kd)"
  obtain hits vis' where w: "find_secrets ?n (section_key (fst kd) @ ''.'' @ id_string (c_id (snd kd))) []
      False vis = (hits, vis')" by fastforce
  obtain out' rep' where r: "foldl (report_secret kd) (out, rep) hits = (out', rep')" by fastforce
  have res: "secrets_in_component acc kd = (out', rep', vis')"
    by (simp only: secrets_in_component_def acc w r prod.case)
  from assms(1) have h: "distinct (reported_ids out)" "set_elems rep = set (reported_ids out)"
    "set (reported_ids out) = found" "\<And>x. x \<in> set_elems vis \<Longrightarrow> context_secrets nd x \<subseteq> found"
    by (simp_all add: secrets_so_far_def acc)
  from find_secrets_walks [OF assms(2) w]
  have e: "explored nd (Suc (size ?n)) (set_elems vis) hits (set_elems vis')"
    "(n_id ?n, [], False) \<in> set_elems vis'" "hit_ids hits \<subseteq> component_secrets kd"
    by (auto simp: component_secrets_def)
  have known: "known_secrets nd (set_elems vis) s \<subseteq> found" for s
    using h(4) by (auto elim!: known_secretsE)
  have vis: "context_secrets nd x \<subseteq> found \<union> hit_ids hits" if "x \<in> set_elems vis'" for x
  proof (cases "x \<in> set_elems vis")
    case True
    then show ?thesis using h(4) by blast
  next
    case False
    then have "context_secrets nd x \<subseteq> hit_ids hits \<union> known_secrets nd (set_elems vis) (Suc (size ?n))"
      using e(1) that by (auto simp only: explored_def)
    then show ?thesis using known [of "Suc (size ?n)"] by blast
  qed
  have "context_secrets nd (n_id ?n, [], False) = component_secrets kd"
    using identified_self [OF assms(2)] by (simp add: context_secrets_def component_secrets_def)
  then have "found \<union> hit_ids hits = found \<union> component_secrets kd"
    using vis [OF e(2)] e(3) by blast
  then show ?thesis
    using report_secret_loop [OF h(1,2) r] vis h(3) by (simp add: secrets_so_far_def res)
qed

lemma secrets_in_components:
  assumes "secrets_so_far nd found acc" "\<And>kd. kd \<in> set kds \<Longrightarrow> identified nd (c_value_node (snd kd))"
  shows "secrets_so_far nd (found \<union> \<Union> (component_secrets ` set kds)) (foldl secrets_in_component acc kds)"
  using assms
proof (induction kds arbitrary: found acc)
  case (Cons kd kds)
  from Cons.IH [OF secrets_in_component_step [OF Cons.prems(1), of kd]] Cons.prems(2)
  show ?case by (simp add: Un_assoc)
qed simp

text \<open>
  C9: when a node's identity tells it from every other node, hardcoded-secret reports exactly the
  scalars a walk over every declared component finds to hold a credential, under the key and the
  headers map they are reached through, and each of them once, however many aliases lead to it: the
  contexts the walk has visited are skipped without losing one.
\<close>

theorem hardcoded_secret_exact:
  assumes "inj_on n_id (\<Union>kd \<in> set (declared_components (cx_file c)). below (c_value_node (snd kd)))"
  shows "distinct (reported_ids (hardcoded_secret_check c)) \<and>
    set (reported_ids (hardcoded_secret_check c)) =
      (\<Union>kd \<in> set (declared_components (cx_file c)). component_secrets kd)"
proof -
  let ?kds = "declared_components (cx_file c)"
  let ?N = "\<Union>kd \<in> set ?kds. below (c_value_node (snd kd))"
  let ?nd = "inv_into ?N n_id"
  have id: "identified ?nd (c_value_node (snd kd))" if kd: "kd \<in> set ?kds" for kd
    unfolding identified_def
  proof
    fix m
    assume "m \<in> below (c_value_node (snd kd))"
    then have "m \<in> ?N" using kd by blast
    then show "?nd (n_id m) = m" by (rule inv_into_f_f [OF assms])
  qed
  have "secrets_so_far ?nd {} ([], set_new [], set_new [])"
    by (simp add: secrets_so_far_def reported_ids_def)
  from secrets_in_components [OF this id]
  have "secrets_so_far ?nd (\<Union> (component_secrets ` set ?kds))
      (foldl secrets_in_component ([], set_new [], set_new []) ?kds)" by simp
  then show ?thesis
    unfolding secrets_so_far_def hardcoded_secret_check_def by (simp split: prod.splits)
qed

definition demo_scalar :: "nat \<Rightarrow> string \<Rightarrow> ynode" where
  "demo_scalar i v = YNode i ScalarNode str_tag v [] None 1 1"

definition demo_map :: "nat \<Rightarrow> ynode list \<Rightarrow> ynode" where
  "demo_map i xs = YNode i MappingNode ''!!map'' [] xs None 1 1"

text \<open>Two exporters share one password through an alias, and a third takes it from the environment.\<close>

definition demo_secrets :: ctx where
  "demo_secrets = demo_ctx (demo_schema Exporter ''e'' demo_field)
     [demo_component Exporter ''a'' (demo_map 1 [demo_scalar 2 ''password'', demo_scalar 3 ''hunter2'']),
      demo_component Exporter ''b'' (demo_map 4 [demo_scalar 5 ''token'', demo_scalar 3 ''hunter2'']),
      demo_component Exporter ''c'' (demo_map 6 [demo_scalar 7 ''token'', demo_scalar 8 ''${env:TOKEN}''])]
     [] no_environment"

lemma hardcoded_secret_exact_witness:
  "reported_ids (hardcoded_secret_check demo_secrets) = [3] \<and>
   (\<Union>kd \<in> set (declared_components (cx_file demo_secrets)). component_secrets kd) = {3}"
proof -
  have vals: "map (\<lambda>kd. c_value_node (snd kd)) (declared_components (cx_file demo_secrets)) =
    [demo_map 1 [demo_scalar 2 ''password'', demo_scalar 3 ''hunter2''],
     demo_map 4 [demo_scalar 5 ''token'', demo_scalar 3 ''hunter2''],
     demo_map 6 [demo_scalar 7 ''token'', demo_scalar 8 ''${env:TOKEN}'']]"
    by (simp add: declared_components_def kinds_def section_components_def demo_secrets_def demo_ctx_def
        demo_component_def Let_def)
  have "(\<Union>kd \<in> set (declared_components (cx_file demo_secrets)). below (c_value_node (snd kd))) =
      \<Union> (set (map below (map (\<lambda>kd. c_value_node (snd kd)) (declared_components (cx_file demo_secrets)))))"
    by (simp add: comp_def)
  also have "inj_on n_id \<dots>"
    unfolding vals by (auto simp: demo_map_def demo_scalar_def below.simps)
  finally have "inj_on n_id (\<Union>kd \<in> set (declared_components (cx_file demo_secrets)).
      below (c_value_node (snd kd)))" .
  from hardcoded_secret_exact [OF this]
  have "set (reported_ids (hardcoded_secret_check demo_secrets)) =
      (\<Union>kd \<in> set (declared_components (cx_file demo_secrets)). component_secrets kd)" by simp
  moreover have "reported_ids (hardcoded_secret_check demo_secrets) = [3]" by code_simp
  ultimately show ?thesis by simp
qed

end
