(* ===== verification/SchemaDiff.thy ===== *)
theory SchemaDiff
  imports Schema Slices Sets "HOL-Library.AList"
begin

section \<open>What a release changed\<close>

text \<open>
  \<open>pkg/schema/diff.go\<close>: the difference between two schemas of a distribution, and its rendering as a
  section of a pull request. The maps of components are the association lists of theory \<open>Schema\<close>;
  Go ranges over them in any order, and every list built that way is sorted by what tells its
  entries apart. Only \<open>alias_pairs\<close> could depend on the order, when two components claim the same
  legacy name: the model takes the last one of the list.
\<close>

record component_ref =
  cr_kind :: kind
  cr_type :: string

record rename =
  rn_kind :: kind
  rn_from :: string
  rn_to :: string

record stability_change =
  sg_kind :: kind
  sg_type :: string
  sg_signal :: string
  sg_from :: stability
  sg_to :: stability

record schema_diff =
  df_distribution :: string
  df_from :: string
  df_to :: string
  df_added :: "component_ref list"
  df_removed :: "component_ref list"
  df_renamed :: "rename list"
  df_restabilised :: "stability_change list"
  df_open :: "component_ref list"
  df_opened :: "component_ref list"
  df_closed :: "component_ref list"
  df_total :: nat

type_synonym by_type = "(string \<times> scomp) list"

definition is_open :: "scomp \<Rightarrow> bool" where
  "is_open c \<longleftrightarrow> (case sc_fields c of None \<Rightarrow> False | Some f \<Rightarrow> fd_open f)"

definition sort_refs :: "component_ref list \<Rightarrow> component_ref list" where
  "sort_refs rs = sort_slice (\<lambda>a b. cr_type a < cr_type b) rs"

definition refs_of :: "kind \<Rightarrow> string list \<Rightarrow> component_ref list" where
  "refs_of k typs = sort_refs (map (\<lambda>t. \<lparr>cr_kind = k, cr_type = t\<rparr>) typs)"

definition missing_from :: "kind \<Rightarrow> by_type \<Rightarrow> by_type \<Rightarrow> string go_set \<Rightarrow> component_ref list" where
  "missing_from k base given skip =
     refs_of k (filter (\<lambda>t. map_of base t = None \<and> \<not> set_has skip t) (map fst given))"

definition open_in :: "kind \<Rightarrow> by_type \<Rightarrow> component_ref list" where
  "open_in k m = refs_of k (map fst (filter (\<lambda>(t, c). is_open c) m))"

definition openness_changes :: "kind \<Rightarrow> by_type \<Rightarrow> by_type \<Rightarrow> component_ref list \<times> component_ref list" where
  "openness_changes k old current =
     (let sided = (\<lambda>before after. map fst (filter (\<lambda>(t, c).
            case map_of old t of None \<Rightarrow> False | Some was \<Rightarrow> is_open was = before \<and> is_open c = after) current))
      in (refs_of k (sided False True), refs_of k (sided True False)))"

definition alias_pairs :: "by_type \<Rightarrow> (string \<times> string) list" where
  "alias_pairs m =
     foldl (\<lambda>out (t, c).
       if sc_alias_of c \<noteq> [] then AList.update t (sc_alias_of c) out
       else if sc_alias c \<noteq> [] then AList.update (sc_alias c) t out
       else out) [] m"

definition renames_in :: "kind \<Rightarrow> by_type \<Rightarrow> by_type \<Rightarrow> rename list" where
  "renames_in k old current =
     sort_slice (\<lambda>a b. rn_from a < rn_from b)
       (map (\<lambda>(legacy, repl). \<lparr>rn_kind = k, rn_from = legacy, rn_to = repl\<rparr>)
         (filter (\<lambda>(legacy, repl).
            map_of (alias_pairs old) legacy \<noteq> Some repl \<and> map_of old legacy \<noteq> None) (alias_pairs current)))"

definition stability_signals :: "scomp \<Rightarrow> scomp \<Rightarrow> string list" where
  "stability_signals a b = sort (remdups (map fst (sc_stability a) @ map fst (sc_stability b)))"

text \<open>A missing key of a Go map reads as the empty level.\<close>

definition level_of :: "scomp \<Rightarrow> string \<Rightarrow> stability" where
  "level_of c s = (case map_of (sc_stability c) s of None \<Rightarrow> [] | Some l \<Rightarrow> l)"

definition crosses_beta :: "stability \<Rightarrow> stability \<Rightarrow> bool" where
  "crosses_beta before after \<longleftrightarrow> \<not> (before = [] \<or> after = [] \<or> at_least_beta before = at_least_beta after)"

definition restabilised_component :: "kind \<Rightarrow> by_type \<Rightarrow> string \<times> scomp \<Rightarrow> stability_change list" where
  "restabilised_component k old tc =
     (case tc of (t, c) \<Rightarrow>
       (case map_of old t of
          None \<Rightarrow> []
        | Some was \<Rightarrow>
            map (\<lambda>s. \<lparr>sg_kind = k, sg_type = t, sg_signal = s, sg_from = level_of was s, sg_to = level_of c s\<rparr>)
              (filter (\<lambda>s. crosses_beta (level_of was s) (level_of c s)) (stability_signals was c))))"

definition change_less :: "stability_change \<Rightarrow> stability_change \<Rightarrow> bool" where
  "change_less a b \<longleftrightarrow>
     (if sg_type a \<noteq> sg_type b then sg_type a < sg_type b else sg_signal a < sg_signal b)"

definition restabilised_in :: "kind \<Rightarrow> by_type \<Rightarrow> by_type \<Rightarrow> stability_change list" where
  "restabilised_in k old current =
     sort_slice change_less (concat (map (restabilised_component k old) current))"

definition first_diff :: "schema \<Rightarrow> schema_diff" where
  "first_diff release =
     \<lparr>df_distribution = sch_distribution release, df_from = [], df_to = sch_collector_version release,
      df_added = [], df_removed = [], df_renamed = [], df_restabilised = [],
      df_open = concat (map (\<lambda>k. open_in k (sch_components release k)) kinds),
      df_opened = [], df_closed = [], df_total = schema_count release\<rparr>"

definition diff_kind :: "schema \<Rightarrow> schema \<Rightarrow> schema_diff \<Rightarrow> kind \<Rightarrow> schema_diff" where
  "diff_kind previous release d k =
     (let old = sch_components previous k; current = sch_components release k;
          renamed = renames_in k old current;
          skip = foldl (\<lambda>s r. set_insert s [rn_to r]) (set_new []) renamed;
          changes = openness_changes k old current
      in d\<lparr>df_renamed := df_renamed d @ renamed,
           df_added := df_added d @ missing_from k old current skip,
           df_removed := df_removed d @ missing_from k current old set_empty,
           df_restabilised := df_restabilised d @ restabilised_in k old current,
           df_opened := df_opened d @ fst changes, df_closed := df_closed d @ snd changes\<rparr>)"

definition diff_schemas :: "schema option \<Rightarrow> schema \<Rightarrow> schema_diff" where
  "diff_schemas previous release =
     (case previous of
        None \<Rightarrow> first_diff release
      | Some p \<Rightarrow>
          foldl (diff_kind p release) ((first_diff release)\<lparr>df_from := sch_collector_version p\<rparr>) kinds)"

definition diff_empty :: "schema_diff \<Rightarrow> bool" where
  "diff_empty d \<longleftrightarrow>
     length (df_added d) = 0 \<and> length (df_removed d) = 0 \<and> length (df_renamed d) = 0 \<and>
     length (df_restabilised d) = 0 \<and> length (df_opened d) = 0 \<and> length (df_closed d) = 0"

subsection \<open>The report\<close>

definition max_listed :: nat where "max_listed = 40"

definition arrow :: string where "arrow = [CHR 0xE2, CHR 0x86, CHR 0x92]"
definition ellipsis :: string where "ellipsis = [CHR 0xE2, CHR 0x80, CHR 0xA6]"

definition ref_line :: "component_ref \<Rightarrow> string" where
  "ref_line r = kind_string (cr_kind r) @ '' `'' @ cr_type r @ ''`''"

definition write_list :: "string \<Rightarrow> ('a \<Rightarrow> string) \<Rightarrow> 'a list \<Rightarrow> string" where
  "write_list title line xs =
     (if xs = [] then []
      else nl @ ''**'' @ title @ ''**'' @ nl @ nl @
        concat (map (\<lambda>x. ''- '' @ line x @ nl) (take max_listed xs)) @
        (if max_listed < length xs then
           ''- '' @ ellipsis @ '' and '' @ itoa (int (length xs - max_listed)) @ '' more'' @ nl
         else []))"

definition diff_coverage :: "schema_diff \<Rightarrow> string" where
  "diff_coverage d =
     (if df_open d = [] then []
      else if length (df_open d) = 1 then
        nl @ ''1 of them is left open: its settings are not fully described, '' @
        ''so `unknown-field` does not check it.'' @ nl
      else nl @ itoa (int (length (df_open d))) @ '' of them are left open: their settings are not fully '' @
        ''described, so `unknown-field` does not check them.'' @ nl)"

definition headline :: "schema_diff \<Rightarrow> string" where
  "headline d =
     (if diff_empty d then ''No component changes; '' @ itoa (int (df_total d)) @ '' in total.''
      else join_strings '', '' (map (\<lambda>(n, noun). itoa (int n) @ '' '' @ noun)
          (filter (\<lambda>(n, noun). 0 < n)
            [(length (df_added d), ''added''), (length (df_removed d), ''removed''),
             (length (df_renamed d), ''renamed''), (length (df_restabilised d), ''across the beta line''),
             (length (df_opened d), ''left open''), (length (df_closed d), ''described in full again'')])) @
        ''; '' @ itoa (int (df_total d)) @ '' components in total.'')"

definition rename_line :: "rename \<Rightarrow> string" where
  "rename_line r = kind_string (rn_kind r) @ '' `'' @ rn_from r @ ''` '' @ arrow @ '' `'' @ rn_to r @ ''`''"

definition change_line :: "stability_change \<Rightarrow> string" where
  "change_line c = kind_string (sg_kind c) @ '' `'' @ sg_type c @ ''` ('' @ sg_signal c @ ''): '' @
     sg_from c @ '' '' @ arrow @ '' '' @ sg_to c"

definition markdown :: "schema_diff \<Rightarrow> string" where
  "markdown d =
     (if df_from d = [] then
        ''### '' @ df_distribution d @ '': new at `'' @ df_to d @ ''`'' @ nl @ nl @
        itoa (int (df_total d)) @ '' components.'' @ nl @ diff_coverage d
      else
        (if df_from d = df_to d then
           ''### '' @ df_distribution d @ '': `'' @ df_to d @ ''` regenerated''
         else ''### '' @ df_distribution d @ '': `'' @ df_from d @ ''` '' @ arrow @ '' `'' @ df_to d @ ''`'') @
        nl @ nl @ headline d @ nl @ diff_coverage d @
        write_list ''Added'' ref_line (df_added d) @ write_list ''Removed'' ref_line (df_removed d) @
        write_list ''Renamed'' rename_line (df_renamed d) @
        write_list ''Stability'' change_line (df_restabilised d) @
        write_list ''Left open'' ref_line (df_opened d) @
        write_list ''Described in full again'' ref_line (df_closed d))"

subsection \<open>What the difference says\<close>

definition kind_renames :: "schema \<Rightarrow> schema \<Rightarrow> kind \<Rightarrow> rename list" where
  "kind_renames p release k = renames_in k (sch_components p k) (sch_components release k)"

definition rename_targets :: "rename list \<Rightarrow> string go_set" where
  "rename_targets rs = foldl (\<lambda>s r. set_insert s [rn_to r]) (set_new []) rs"

lemma rename_targets_elems: "set_elems (rename_targets rs) = rn_to ` set rs"
proof -
  have "set_elems (foldl (\<lambda>s r. set_insert s [rn_to r]) s rs) = set_elems s \<union> rn_to ` set rs" for s
    by (induction rs arbitrary: s) auto
  then show ?thesis by (simp add: rename_targets_def)
qed

lemma diff_kinds:
  "foldl (diff_kind p release) d ks =
   d\<lparr>df_renamed := df_renamed d @ concat (map (kind_renames p release) ks),
     df_added := df_added d @ concat (map (\<lambda>k. missing_from k (sch_components p k)
       (sch_components release k) (rename_targets (kind_renames p release k))) ks),
     df_removed := df_removed d @ concat (map (\<lambda>k. missing_from k (sch_components release k)
       (sch_components p k) set_empty) ks),
     df_restabilised := df_restabilised d @ concat (map (\<lambda>k. restabilised_in k (sch_components p k)
       (sch_components release k)) ks),
     df_opened := df_opened d @ concat (map (\<lambda>k. fst (openness_changes k (sch_components p k)
       (sch_components release k))) ks),
     df_closed := df_closed d @ concat (map (\<lambda>k. snd (openness_changes k (sch_components p k)
       (sch_components release k))) ks)\<rparr>"
  by (induction ks arbitrary: d)
    (simp_all add: diff_kind_def Let_def kind_renames_def rename_targets_def)

lemma set_refs_of: "set (refs_of k ts) = (\<lambda>t. \<lparr>cr_kind = k, cr_type = t\<rparr>) ` set ts"
  by (simp add: refs_of_def sort_refs_def)

lemma all_kinds: "set kinds = UNIV"
  using kind.exhaust by (auto simp: kinds_def)

definition inventory :: "schema \<Rightarrow> component_ref set" where
  "inventory s = {r. lookup s (cr_kind r) (cr_type r) \<noteq> None}"

lemma in_types_iff: "t \<in> fst ` set (sch_components s k) \<longleftrightarrow> lookup s k t \<noteq> None"
  by (simp add: lookup_def map_of_eq_None_iff)

lemma set_missing_from:
  "set (missing_from k (sch_components base k) (sch_components given k) skip) =
   {r \<in> inventory given - inventory base. cr_kind r = k \<and> cr_type r \<notin> set_elems skip}"
proof (rule set_eqI)
  fix r
  have "r \<in> set (missing_from k (sch_components base k) (sch_components given k) skip) \<longleftrightarrow>
      cr_kind r = k \<and> lookup given k (cr_type r) \<noteq> None \<and> lookup base k (cr_type r) = None \<and>
      cr_type r \<notin> set_elems skip"
  proof -
    have "r \<in> set (missing_from k (sch_components base k) (sch_components given k) skip) \<longleftrightarrow>
        (\<exists>t. r = \<lparr>cr_kind = k, cr_type = t\<rparr> \<and> t \<in> fst ` set (sch_components given k) \<and>
          map_of (sch_components base k) t = None \<and> \<not> set_has skip t)"
      unfolding missing_from_def set_refs_of set_filter set_map by blast
    then show ?thesis unfolding in_types_iff by (cases r) (auto simp: lookup_def)
  qed
  then show "r \<in> set (missing_from k (sch_components base k) (sch_components given k) skip) \<longleftrightarrow>
      r \<in> {r \<in> inventory given - inventory base. cr_kind r = k \<and> cr_type r \<notin> set_elems skip}"
    by (auto simp: inventory_def)
qed

lemma alias_pairs_mem:
  assumes "(legacy, repl) \<in> set (alias_pairs m)"
  shows "\<exists>t c. (t, c) \<in> set m \<and>
    (sc_alias_of c \<noteq> [] \<and> legacy = t \<and> repl = sc_alias_of c \<or>
     sc_alias_of c = [] \<and> sc_alias c \<noteq> [] \<and> legacy = sc_alias c \<and> repl = t)"
proof -
  let ?ok = "\<lambda>m legacy repl. \<exists>t c. (t, c) \<in> set m \<and>
    (sc_alias_of c \<noteq> [] \<and> legacy = t \<and> repl = sc_alias_of c \<or>
     sc_alias_of c = [] \<and> sc_alias c \<noteq> [] \<and> legacy = sc_alias c \<and> repl = t)"
  have up: "set (AList.update k v xs) \<subseteq> insert (k, v) (set xs)" for k :: string and v :: string and xs
    by (induction xs) auto
  have "(legacy, repl) \<in> set (alias_pairs m) \<Longrightarrow> ?ok m legacy repl" for legacy repl
    unfolding alias_pairs_def
  proof (induction m rule: rev_induct)
    case (snoc x m)
    obtain t c where x: "x = (t, c)" by fastforce
    from snoc.prems consider "(legacy, repl) \<in> set (foldl (\<lambda>out (t, c).
       if sc_alias_of c \<noteq> [] then AList.update t (sc_alias_of c) out
       else if sc_alias c \<noteq> [] then AList.update (sc_alias c) t out else out) [] m)"
      | "sc_alias_of c \<noteq> []" "(legacy, repl) = (t, sc_alias_of c)"
      | "sc_alias_of c = []" "sc_alias c \<noteq> []" "(legacy, repl) = (sc_alias c, t)"
      using up by (fastforce simp: x split: if_splits)
    then show ?case
    proof cases
      case 1
      from snoc.IH [OF this] show ?thesis by auto
    qed (use x in auto)
  qed simp
  then show ?thesis using assms .
qed

text \<open>
  Every alias names a component of the same schema, and a component that has a legacy name is registered under
  it too, which is how upstream expresses a rename and how the generator files one.
\<close>

definition aliases_resolve :: "schema \<Rightarrow> bool" where
  "aliases_resolve s \<longleftrightarrow> list_all (\<lambda>k. list_all (\<lambda>(t, c).
     sc_alias_of c = [] \<or> lookup s k (sc_alias_of c) \<noteq> None) (sch_components s k)) kinds"

definition legacy_names_kept :: "schema \<Rightarrow> bool" where
  "legacy_names_kept s \<longleftrightarrow> list_all (\<lambda>k. list_all (\<lambda>(t, c).
     sc_alias c = [] \<or> lookup s k (sc_alias c) \<noteq> None) (sch_components s k)) kinds"

definition renamed_to :: "schema_diff \<Rightarrow> component_ref set" where
  "renamed_to d = (\<lambda>r. \<lparr>cr_kind = rn_kind r, cr_type = rn_to r\<rparr>) ` set (df_renamed d)"

definition renamed_from :: "schema_diff \<Rightarrow> component_ref set" where
  "renamed_from d = (\<lambda>r. \<lparr>cr_kind = rn_kind r, cr_type = rn_from r\<rparr>) ` set (df_renamed d)"

lemma kind_renames_kind: "r \<in> set (kind_renames p release k) \<Longrightarrow> rn_kind r = k"
  by (auto simp: kind_renames_def renames_in_def)

lemma rename_target_exists:
  assumes "aliases_resolve release" "r \<in> set (kind_renames p release k)"
  shows "lookup release k (rn_to r) \<noteq> None"
proof -
  have "(rn_from r, rn_to r) \<in> set (alias_pairs (sch_components release k))"
    using assms(2) by (auto simp: kind_renames_def renames_in_def)
  then obtain t c where tc: "(t, c) \<in> set (sch_components release k)"
    "sc_alias_of c \<noteq> [] \<and> rn_to r = sc_alias_of c \<or> rn_to r = t"
    using alias_pairs_mem by blast
  have "k \<in> set kinds" by (simp add: all_kinds)
  then have "sc_alias_of c = [] \<or> lookup release k (sc_alias_of c) \<noteq> None"
    using assms(1) tc(1) by (fastforce simp: aliases_resolve_def list_all_iff)
  moreover have "lookup release k t \<noteq> None" using weak_map_of_SomeI [OF tc(1)] by (auto simp: lookup_def)
  ultimately show ?thesis using tc(2) by auto
qed

lemma rename_source_kept:
  assumes "legacy_names_kept release" "r \<in> set (kind_renames p release k)"
  shows "lookup release k (rn_from r) \<noteq> None \<and> lookup p k (rn_from r) \<noteq> None"
proof -
  have "(rn_from r, rn_to r) \<in> set (alias_pairs (sch_components release k))" and old: "lookup p k (rn_from r) \<noteq> None"
    using assms(2) by (auto simp: kind_renames_def renames_in_def lookup_def)
  then obtain t c where tc: "(t, c) \<in> set (sch_components release k)"
    "rn_from r = t \<or> sc_alias c \<noteq> [] \<and> rn_from r = sc_alias c"
    using alias_pairs_mem by blast
  have "k \<in> set kinds" by (simp add: all_kinds)
  then have "sc_alias c = [] \<or> lookup release k (sc_alias c) \<noteq> None"
    using assms(1) tc(1) by (fastforce simp: legacy_names_kept_def list_all_iff)
  moreover have "lookup release k t \<noteq> None" using weak_map_of_SomeI [OF tc(1)] by (auto simp: lookup_def)
  ultimately show ?thesis using tc(2) old by auto
qed

lemma diff_schemas_some:
  "df_added (diff_schemas (Some p) release) = concat (map (\<lambda>k. missing_from k (sch_components p k)
     (sch_components release k) (rename_targets (kind_renames p release k))) kinds)"
  "df_removed (diff_schemas (Some p) release) = concat (map (\<lambda>k. missing_from k (sch_components release k)
     (sch_components p k) set_empty) kinds)"
  "df_renamed (diff_schemas (Some p) release) = concat (map (kind_renames p release) kinds)"
  "df_restabilised (diff_schemas (Some p) release) = concat (map (\<lambda>k. restabilised_in k
     (sch_components p k) (sch_components release k)) kinds)"
  by (simp_all add: diff_schemas_def diff_kinds first_diff_def)

text \<open>
  C13: between releases that keep a renamed component registered under its old name, the difference accounts
  for the whole inventory. Taking the removed components from the previous release and adding the added ones and
  the new names of the renamed ones gives the components of the new release; what is removed was there and is
  gone, what is added was not there; and a renamed component, under its old name or its new one, is neither added
  nor removed. A new release that drops the old name is outside this: lemma \<open>renamed_and_removed\<close> shows the code
  then lists the old name as removed too, which the documentation of \<open>Diff\<close> rules out.
\<close>

theorem diff_schemas_accounts:
  fixes p release :: schema
  defines "d \<equiv> diff_schemas (Some p) release"
  assumes "aliases_resolve release" "legacy_names_kept release"
  shows "inventory release = (inventory p - set (df_removed d)) \<union> set (df_added d) \<union> renamed_to d \<and>
    set (df_removed d) = inventory p - inventory release \<and>
    set (df_added d) = inventory release - inventory p - renamed_to d \<and>
    (renamed_from d \<union> renamed_to d) \<inter> (set (df_added d) \<union> set (df_removed d)) = {}"
proof -
  have rem: "set (df_removed d) = inventory p - inventory release"
    by (auto simp: d_def diff_schemas_some set_missing_from all_kinds)
  have ren: "r \<in> renamed_to d \<longleftrightarrow> cr_type r \<in> rn_to ` set (kind_renames p release (cr_kind r))" for r
  proof -
    have "r \<in> renamed_to d \<longleftrightarrow>
        (\<exists>k. \<exists>n \<in> set (kind_renames p release k). r = \<lparr>cr_kind = rn_kind n, cr_type = rn_to n\<rparr>)"
      by (auto simp: renamed_to_def d_def diff_schemas_some all_kinds)
    also have "\<dots> \<longleftrightarrow> (\<exists>n \<in> set (kind_renames p release (cr_kind r)). cr_type r = rn_to n)"
      using kind_renames_kind by (cases r) fastforce
    finally show ?thesis by auto
  qed
  have add: "set (df_added d) = inventory release - inventory p - renamed_to d"
    by (auto simp: d_def diff_schemas_some set_missing_from all_kinds rename_targets_elems ren [unfolded d_def])
  have "renamed_to d \<subseteq> inventory release"
    using rename_target_exists [OF assms(2)] by (auto simp: ren inventory_def)
  moreover have "renamed_from d \<subseteq> inventory release \<inter> inventory p"
    using rename_source_kept [OF assms(3)] kind_renames_kind
    by (fastforce simp: renamed_from_def d_def diff_schemas_some all_kinds inventory_def)
  ultimately show ?thesis using rem add by blast
qed

definition demo_entry :: "string \<Rightarrow> string \<Rightarrow> string \<Rightarrow> string \<times> scomp" where
  "demo_entry t alias_of other =
     (t, \<lparr>sc_type = t, sc_signals = [], sc_stability = [(''traces'', if alias_of = [] then beta else deprecated_level)],
          sc_pairs = [], sc_distributions = [], sc_module = [], sc_deprecated = [], sc_alias_of = alias_of,
          sc_alias = other, sc_fields = None\<rparr>)"

definition demo_release :: "string \<Rightarrow> (string \<times> scomp) list \<Rightarrow> schema" where
  "demo_release v cs =
     \<lparr>sch_collector_version = v, sch_distribution = ''core'', sch_decoder = None, sch_generated_at = [],
      sch_sources = [], sch_components = (\<lambda>_. [])(Exporter := cs)\<rparr>"

definition demo_before :: schema where
  "demo_before = demo_release ''v0.1.0'' [demo_entry ''old'' [] [], demo_entry ''gone'' [] []]"

definition demo_after :: schema where
  "demo_after = demo_release ''v0.2.0''
     [demo_entry ''old'' ''new'' [], demo_entry ''new'' [] ''old'', demo_entry ''extra'' [] []]"

lemma diff_schemas_accounts_witness:
  "df_added (diff_schemas (Some demo_before) demo_after) = [\<lparr>cr_kind = Exporter, cr_type = ''extra''\<rparr>] \<and>
   df_removed (diff_schemas (Some demo_before) demo_after) = [\<lparr>cr_kind = Exporter, cr_type = ''gone''\<rparr>] \<and>
   df_renamed (diff_schemas (Some demo_before) demo_after) =
     [\<lparr>rn_kind = Exporter, rn_from = ''old'', rn_to = ''new''\<rparr>] \<and>
   map sg_type (df_restabilised (diff_schemas (Some demo_before) demo_after)) = [''old''] \<and>
   inventory demo_after = (inventory demo_before - {\<lparr>cr_kind = Exporter, cr_type = ''gone''\<rparr>}) \<union>
     {\<lparr>cr_kind = Exporter, cr_type = ''extra''\<rparr>, \<lparr>cr_kind = Exporter, cr_type = ''new''\<rparr>}"
proof -
  have 1: "df_added (diff_schemas (Some demo_before) demo_after) = [\<lparr>cr_kind = Exporter, cr_type = ''extra''\<rparr>]"
    by code_simp
  have 2: "df_removed (diff_schemas (Some demo_before) demo_after) = [\<lparr>cr_kind = Exporter, cr_type = ''gone''\<rparr>]"
    by code_simp
  have 3: "df_renamed (diff_schemas (Some demo_before) demo_after) =
     [\<lparr>rn_kind = Exporter, rn_from = ''old'', rn_to = ''new''\<rparr>]"
    by code_simp
  have 4: "map sg_type (df_restabilised (diff_schemas (Some demo_before) demo_after)) = [''old'']"
    by code_simp
  have "aliases_resolve demo_after" "legacy_names_kept demo_after" by code_simp+
  from diff_schemas_accounts [OF this, of demo_before]
  have "inventory demo_after = (inventory demo_before - set (df_removed (diff_schemas (Some demo_before) demo_after))) \<union>
      set (df_added (diff_schemas (Some demo_before) demo_after)) \<union>
      renamed_to (diff_schemas (Some demo_before) demo_after)" by blast
  then show ?thesis using 1 2 3 4 by (simp add: renamed_to_def insert_commute)
qed

text \<open>
  A renamed component whose old name the new schema drops is in both lists: the removals, unlike the
  additions, take no account of the renames.
\<close>

lemma renamed_and_removed:
  "let d = diff_schemas (Some demo_before) (demo_release ''v0.2.0''
     [demo_entry ''new'' [] ''old'', demo_entry ''gone'' [] []])
   in df_renamed d = [\<lparr>rn_kind = Exporter, rn_from = ''old'', rn_to = ''new''\<rparr>] \<and>
      df_removed d = [\<lparr>cr_kind = Exporter, cr_type = ''old''\<rparr>]"
  by code_simp

end
