(* ===== verification/Ruleset.thy ===== *)
theory Ruleset
  imports ReferenceRules StructureRules ComponentRules MemoryLimiter ProcessorRules ExporterRules
    Endpoints Secrets
begin

section \<open>The rule set and a selection of it\<close>

text \<open>
  \<open>pkg/ruleset/ruleset.go\<close> and \<open>selection.go\<close>: the set of built-in rules, and how the default set, the
  enabled and disabled names and the explicit levels become the level each rule runs at. A Go map
  from names is a HOL map; the blocks of settings keep one order of iteration, because the code
  walks them sorted.
\<close>

subsection \<open>ruleset.go\<close>

definition rules_written :: "rule list" where
  "rules_written =
     [unknown_top_level_key, service_required, unknown_service_key, invalid_component_id,
      invalid_pipeline_key, empty_pipeline, unknown_pipeline_key, duplicate_key, wrong_node_type,
      undefined_reference, undefined_extension_reference, unused_component, duplicate_reference,
      connector_wiring,
      unknown_component, signal_support, component_stability, deprecated_component,
      unknown_field, required_field, invalid_value, deprecated_field,
      batch_size_bounds, memory_limiter_config, memory_limiter_sizing,
      processor_order, missing_memory_limiter, missing_batch, no_persistent_queue,
      debug_exporter_verbosity,
      deprecated_telemetry_key, telemetry_metrics_disabled,
      insecure_tls, debug_extension_exposed, receiver_binds_all_interfaces, hardcoded_secret]"

definition all_rules :: "rule list" where
  "all_rules = sort_slice (\<lambda>a b. ru_name a < ru_name b) rules_written"

definition lookup_rule :: "string \<Rightarrow> rule option" where
  "lookup_rule name = find (\<lambda>r. ru_name r = name) all_rules"

subsection \<open>selection.go\<close>

definition default_all :: string where "default_all = ''all''"
definition default_none :: string where "default_none = ''none''"

definition err_unknown_rule :: string where "err_unknown_rule = ''unknown rule''"
definition err_bad_severity_pair :: string where "err_bad_severity_pair = ''not in rule=level form''"
definition err_unknown_default :: string where "err_unknown_default = ''unknown rule set''"
definition err_enabled_and_disabled :: string where
  "err_enabled_and_disabled = ''is both enabled and disabled''"

record selection =
  sl_default :: string
  sl_enable :: "string list"
  sl_disable :: "string list"
  sl_severity :: "string list"
  sl_settings :: "(string \<times> ynode) list"

type_synonym levels = "string \<rightharpoonup> severity"

record resolved =
  rv_rules :: "rule list"
  rv_severities :: levels

definition default_levels :: "string \<Rightarrow> levels go_result" where
  "default_levels d =
     (if d = [] \<or> d = default_all then Inr Map.empty
      else if d = default_none then Inr (foldl (\<lambda>out r. out(ru_name r \<mapsto> Off)) Map.empty all_rules)
      else Inl (''rules.default: '' @ err_unknown_default @ '' '' @ go_quote d @
                '' (want '' @ default_all @ '' or '' @ default_none @ '')''))"

definition both_named :: "selection \<Rightarrow> string go_set" where
  "both_named s = set_intersection (set_new (sl_enable s)) (set_new (sl_disable s))"

fun enable_rules :: "string list \<Rightarrow> levels \<Rightarrow> levels go_result" where
  "enable_rules [] out = Inr out"
| "enable_rules (name # names) out =
     (case lookup_rule name of
        None \<Rightarrow> Inl (''enable: '' @ err_unknown_rule @ '' '' @ go_quote name)
      | Some r \<Rightarrow> enable_rules names (out(name \<mapsto> ru_severity r)))"

fun disable_rules :: "string list \<Rightarrow> levels \<Rightarrow> levels go_result" where
  "disable_rules [] out = Inr out"
| "disable_rules (name # names) out =
     (case lookup_rule name of
        None \<Rightarrow> Inl (''disable: '' @ err_unknown_rule @ '' '' @ go_quote name)
      | Some r \<Rightarrow> disable_rules names (out(name \<mapsto> Off)))"

fun apply_levels :: "string list \<Rightarrow> levels \<Rightarrow> levels go_result" where
  "apply_levels [] out = Inr out"
| "apply_levels (pair # rest) out =
     (case cut pair ''='' of (name, level, found) \<Rightarrow>
        if \<not> found then Inl (''severity: '' @ go_quote pair @ '' is '' @ err_bad_severity_pair)
        else (case lookup_rule name of
            None \<Rightarrow> Inl (''severity: '' @ err_unknown_rule @ '' '' @ go_quote name)
          | Some r \<Rightarrow>
              (case parse_severity level of
                 Inl e \<Rightarrow> Inl (''severity '' @ name @ '': '' @ e)
               | Inr sev \<Rightarrow> apply_levels rest (out(name \<mapsto> sev)))))"

definition selection_severities :: "selection \<Rightarrow> levels go_result" where
  "selection_severities s =
     (case default_levels (sl_default s) of
        Inl e \<Rightarrow> Inl e
      | Inr out \<Rightarrow>
          if 0 < set_len (both_named s) then
            Inl (go_quote (hd (set_list (both_named s))) @ '' '' @ err_enabled_and_disabled)
          else (case enable_rules (sl_enable s) out of
              Inl e \<Rightarrow> Inl e
            | Inr out \<Rightarrow>
                (case disable_rules (sl_disable s) out of
                   Inl e \<Rightarrow> Inl e
                 | Inr out \<Rightarrow> apply_levels (sl_severity s) out)))"

definition unknown_block :: "(string \<times> ynode) list \<Rightarrow> string option" where
  "unknown_block settings = find (\<lambda>name. lookup_rule name = None) (set_list (set_key_set settings))"

definition selection_rules :: "go_lib \<Rightarrow> selection \<Rightarrow> rule list go_result" where
  "selection_rules lib s =
     (case unknown_block (sl_settings s) of
        Some name \<Rightarrow> Inl (''rules.settings: '' @ err_unknown_rule @ '' '' @ go_quote name)
      | None \<Rightarrow>
          (case configure lib all_rules (sl_settings s) of
             Inl e \<Rightarrow> Inl (''rules.settings: '' @ e)
           | Inr rules \<Rightarrow> Inr rules))"

definition resolve_selection :: "go_lib \<Rightarrow> selection \<Rightarrow> resolved go_result" where
  "resolve_selection lib s =
     (case selection_severities s of
        Inl e \<Rightarrow> Inl e
      | Inr severities \<Rightarrow>
          (case selection_rules lib s of
             Inl e \<Rightarrow> Inl e
           | Inr rules \<Rightarrow> Inr \<lparr>rv_rules = rules, rv_severities = severities\<rparr>))"


text \<open>
  The set is evaluated once: the list below is a permutation of the written one and its names ascend.
\<close>

definition rules_by_name :: "rule list" where
  "rules_by_name =
     [batch_size_bounds, component_stability, connector_wiring, debug_exporter_verbosity,
      debug_extension_exposed, deprecated_component, deprecated_field, deprecated_telemetry_key,
      duplicate_key, duplicate_reference, empty_pipeline, hardcoded_secret, insecure_tls,
      invalid_component_id, invalid_pipeline_key, invalid_value, memory_limiter_config,
      memory_limiter_sizing, missing_batch, missing_memory_limiter, no_persistent_queue,
      processor_order, receiver_binds_all_interfaces, required_field, service_required, signal_support,
      telemetry_metrics_disabled, undefined_extension_reference, undefined_reference,
      unknown_component, unknown_field, unknown_pipeline_key, unknown_service_key,
      unknown_top_level_key, unused_component, wrong_node_type]"

definition rule_names :: "string list" where
  "rule_names =
     [''batch-size-bounds'', ''component-stability'', ''connector-wiring'',
      ''debug-exporter-verbosity'', ''debug-extension-exposed'', ''deprecated-component'',
      ''deprecated-field'', ''deprecated-telemetry-key'', ''duplicate-key'', ''duplicate-reference'',
      ''empty-pipeline'', ''hardcoded-secret'', ''insecure-tls'', ''invalid-component-id'',
      ''invalid-pipeline-key'', ''invalid-value'', ''memory-limiter-config'',
      ''memory-limiter-sizing'', ''missing-batch'', ''missing-memory-limiter'',
      ''no-persistent-queue'', ''processor-order'', ''receiver-binds-all-interfaces'',
      ''required-field'', ''service-required'', ''signal-support'', ''telemetry-metrics-disabled'',
      ''undefined-extension-reference'', ''undefined-reference'', ''unknown-component'',
      ''unknown-field'', ''unknown-pipeline-key'', ''unknown-service-key'', ''unknown-top-level-key'',
      ''unused-component'', ''wrong-node-type'']"

lemmas rule_defs =
    batch_size_bounds_def component_stability_def connector_wiring_def debug_exporter_verbosity_def
    debug_extension_exposed_def deprecated_component_def deprecated_field_def
    deprecated_telemetry_key_def duplicate_key_def duplicate_reference_def empty_pipeline_def
    hardcoded_secret_def insecure_tls_def invalid_component_id_def invalid_pipeline_key_def
    invalid_value_def memory_limiter_config_def memory_limiter_sizing_def missing_batch_def
    missing_memory_limiter_def no_persistent_queue_def processor_order_def
    receiver_binds_all_interfaces_def required_field_def service_required_def signal_support_def
    telemetry_metrics_disabled_def undefined_extension_reference_def undefined_reference_def
    unknown_component_def unknown_field_def unknown_pipeline_key_def unknown_service_key_def
    unknown_top_level_key_def unused_component_def wrong_node_type_def new_rule_def

lemma rules_by_name_names: "map ru_name rules_by_name = rule_names"
  by (simp add: rules_by_name_def rule_names_def rule_defs)

lemma rule_names_ascending: "sorted rule_names" "distinct rule_names"
  by code_simp+

interpretation by_name: strict_weak "\<lambda>a b. ru_name a < ru_name b"
  by unfold_locales auto

lemma all_rules_eq [code]: "all_rules = rules_by_name"
proof -
  have m: "mset rules_by_name = mset rules_written"
    by (simp add: rules_by_name_def rules_written_def add_mset_commute)
  have d: "distinct (map ru_name rules_by_name)"
    by (simp only: rules_by_name_names rule_names_ascending)
  have "sorted (map ru_name rules_by_name)"
    by (simp only: rules_by_name_names rule_names_ascending)
  then have "sorted_wrt (\<lambda>x y. \<not> ru_name y < ru_name x) rules_by_name"
    by (simp add: sorted_map not_less)
  moreover have "ru_name x < ru_name y \<or> ru_name y < ru_name x"
    if "x \<in> set rules_written" "y \<in> set rules_written" "x \<noteq> y" for x y
    using that d m mset_eq_setD [OF m] by (metis distinct_map inj_on_eq_iff linorder_neqE)
  ultimately show ?thesis
    unfolding all_rules_def by (intro by_name.sort_slice_unique [symmetric] m)
qed

lemma all_rules_names: "map ru_name all_rules = rule_names"
  by (simp add: all_rules_eq rules_by_name_names)

lemma all_rules_distinct: "distinct (map ru_name all_rules)"
  by (simp only: all_rules_names rule_names_ascending)

lemma all_rules_ascending: "sorted_wrt (<) (map ru_name all_rules)"
  by (simp add: all_rules_names strict_sorted_iff rule_names_ascending)

lemma find_distinct:
  "distinct (map f xs) \<Longrightarrow> x \<in> set xs \<Longrightarrow> find (\<lambda>y. f y = f x) xs = Some x"
  by (induction xs) (auto simp: image_iff)

lemma lookup_rule_known: "r \<in> set all_rules \<Longrightarrow> lookup_rule (ru_name r) = Some r"
  unfolding lookup_rule_def by (rule find_distinct [OF all_rules_distinct])

lemma lookup_rule_Some: "lookup_rule name = Some r \<Longrightarrow> r \<in> set all_rules \<and> ru_name r = name"
  unfolding lookup_rule_def by (rule find_SomeD)

lemma lookup_rule_None: "lookup_rule name = None \<longleftrightarrow> name \<notin> ru_name ` set all_rules"
  by (auto simp: lookup_rule_def find_None_iff)

text \<open>\<open>Linter.SeverityFor\<close>: the level a rule runs at under a map of levels.\<close>

definition severity_for :: "levels \<Rightarrow> rule \<Rightarrow> severity" where
  "severity_for levels r = (case levels (ru_name r) of Some s \<Rightarrow> s | None \<Rightarrow> ru_severity r)"

subsection \<open>What a selection means\<close>

text \<open>
  The level written for a name is that of the last pair that names it; without one, a disabled rule is
  off, an enabled one runs at its own level, and any other rule does what the default set says.
\<close>

definition read_pair :: "string \<Rightarrow> (string \<times> severity) option" where
  "read_pair p =
     (case cut p ''='' of (name, level, found) \<Rightarrow>
        if \<not> found \<or> lookup_rule name = None then None
        else (case parse_severity level of Inl _ \<Rightarrow> None | Inr sev \<Rightarrow> Some (name, sev)))"

definition written_level :: "string list \<Rightarrow> string \<Rightarrow> severity option" where
  "written_level ps name = map_of (rev (List.map_filter read_pair ps)) name"

definition intended_level :: "selection \<Rightarrow> rule \<Rightarrow> severity" where
  "intended_level s r =
     (case written_level (sl_severity s) (ru_name r) of
        Some sev \<Rightarrow> sev
      | None \<Rightarrow>
          if ru_name r \<in> set (sl_disable s) then Off
          else if ru_name r \<in> set (sl_enable s) then ru_severity r
          else if sl_default s = default_none then Off
          else ru_severity r)"

definition well_formed_levels :: "selection \<Rightarrow> bool" where
  "well_formed_levels s \<longleftrightarrow>
     sl_default s \<in> {[], default_all, default_none} \<and>
     set (sl_enable s) \<inter> set (sl_disable s) = {} \<and>
     set (sl_enable s) \<union> set (sl_disable s) \<subseteq> ru_name ` set all_rules \<and>
     (\<forall>p \<in> set (sl_severity s). read_pair p \<noteq> None)"

lemma enable_rules_exact:
  "enable_rules names out =
     (case find (\<lambda>n. lookup_rule n = None) names of
        Some n \<Rightarrow> Inl (''enable: '' @ err_unknown_rule @ '' '' @ go_quote n)
      | None \<Rightarrow> Inr (\<lambda>n. if n \<in> set names then map_option ru_severity (lookup_rule n) else out n))"
proof (induction names arbitrary: out)
  case (Cons name names)
  show ?case
    by (cases "lookup_rule name"; cases "find (\<lambda>n. lookup_rule n = None) names")
      (auto simp: Cons.IH fun_eq_iff)
qed simp

lemma disable_rules_exact:
  "disable_rules names out =
     (case find (\<lambda>n. lookup_rule n = None) names of
        Some n \<Rightarrow> Inl (''disable: '' @ err_unknown_rule @ '' '' @ go_quote n)
      | None \<Rightarrow> Inr (\<lambda>n. if n \<in> set names then Some Off else out n))"
proof (induction names arbitrary: out)
  case (Cons name names)
  show ?case
    by (cases "lookup_rule name"; cases "find (\<lambda>n. lookup_rule n = None) names")
      (auto simp: Cons.IH fun_eq_iff)
qed simp

lemma apply_levels_step:
  "apply_levels (p # rest) out =
     (case read_pair p of
        None \<Rightarrow> Inl (projl (apply_levels (p # rest) out))
      | Some (name, sev) \<Rightarrow> apply_levels rest (out(name \<mapsto> sev)))"
  by (cases "cut p ''=''") (auto simp: read_pair_def split: option.splits sum.splits if_splits)

lemma apply_levels_exact:
  "(apply_levels ps out = Inr out' \<longleftrightarrow>
      (\<forall>p \<in> set ps. read_pair p \<noteq> None) \<and>
      out' = (\<lambda>n. case written_level ps n of Some s \<Rightarrow> Some s | None \<Rightarrow> out n))"
proof (induction ps arbitrary: out)
  case Nil
  then show ?case by (auto simp: written_level_def List.map_filter_def)
next
  case (Cons p ps)
  show ?case
  proof (cases "read_pair p")
    case None
    then show ?thesis by (subst apply_levels_step) auto
  next
    case (Some q)
    obtain name sev where q: "read_pair p = Some (name, sev)" using Some by (cases q) auto
    have "(\<lambda>n. case written_level ps n of Some s \<Rightarrow> Some s | None \<Rightarrow> (out(name \<mapsto> sev)) n) =
        (\<lambda>n. case written_level (p # ps) n of Some s \<Rightarrow> Some s | None \<Rightarrow> out n)"
      by (auto simp: fun_eq_iff written_level_def List.map_filter_simps q map_add_def split: option.split)
    then show ?thesis by (subst apply_levels_step) (simp add: q Cons.IH)
  qed
qed

lemma all_off:
  "foldl (\<lambda>out r. out(ru_name r \<mapsto> Off)) m rs n = (if n \<in> ru_name ` set rs then Some Off else m n)"
  by (induction rs arbitrary: m) auto

lemma default_levels_exact:
  "default_levels d = Inr out \<longleftrightarrow>
     d \<in> {[], default_all, default_none} \<and>
     out = (\<lambda>n. if d = default_none \<and> n \<in> ru_name ` set all_rules then Some Off else None)"
proof -
  have "default_none \<noteq> [] \<and> default_none \<noteq> default_all" by (simp add: default_none_def default_all_def)
  then show ?thesis by (auto simp: default_levels_def all_off fun_eq_iff)
qed

lemma set_len_pos: "0 < set_len t \<longleftrightarrow> set_elems t \<noteq> {}"
  by (simp add: set_len_def set_elems_def)

lemma both_named_empty: "\<not> 0 < set_len (both_named s) \<longleftrightarrow> set (sl_enable s) \<inter> set (sl_disable s) = {}"
  unfolding set_len_pos by (simp add: both_named_def)

lemma find_unknown: "find (\<lambda>n. lookup_rule n = None) names = None \<longleftrightarrow> set names \<subseteq> ru_name ` set all_rules"
  by (auto simp: find_None_iff lookup_rule_None)

lemma selection_severities_exact:
  "selection_severities s = Inr out \<longleftrightarrow>
     well_formed_levels s \<and>
     out = (\<lambda>n. case written_level (sl_severity s) n of Some sev \<Rightarrow> Some sev
              | None \<Rightarrow> if n \<in> set (sl_disable s) then Some Off
                       else if n \<in> set (sl_enable s) then map_option ru_severity (lookup_rule n)
                       else if sl_default s = default_none \<and> n \<in> ru_name ` set all_rules then Some Off
                       else None)"
proof (cases "default_levels (sl_default s)")
  case (Inl e)
  then have "sl_default s \<notin> {[], default_all, default_none}" using default_levels_exact by (metis Inl_Inr_False)
  then show ?thesis using Inl by (simp add: selection_severities_def well_formed_levels_def)
next
  case (Inr out0)
  note d = Inr [unfolded default_levels_exact]
  show ?thesis
  proof (cases "set (sl_enable s) \<inter> set (sl_disable s) = {}")
    case False
    then have "0 < set_len (both_named s)" using both_named_empty by blast
    then show ?thesis
      using False by (simp add: selection_severities_def well_formed_levels_def Inr)
  next
    case True
    then have both: "\<not> 0 < set_len (both_named s)" using both_named_empty by blast
    show ?thesis
    proof (cases "find (\<lambda>n. lookup_rule n = None) (sl_enable s)")
      case (Some n)
      then have "\<not> set (sl_enable s) \<subseteq> ru_name ` set all_rules" using find_unknown [of "sl_enable s"] by simp
      then show ?thesis
        using Some by (simp add: selection_severities_def Inr both enable_rules_exact well_formed_levels_def)
    next
      case en: None
      then have e: "set (sl_enable s) \<subseteq> ru_name ` set all_rules" by (simp only: find_unknown)
      show ?thesis
      proof (cases "find (\<lambda>n. lookup_rule n = None) (sl_disable s)")
        case (Some n)
        then have "\<not> set (sl_disable s) \<subseteq> ru_name ` set all_rules" using find_unknown [of "sl_disable s"] by simp
        then show ?thesis
          using Some en
          by (simp add: selection_severities_def Inr both enable_rules_exact disable_rules_exact well_formed_levels_def)
      next
        case dis: None
        then have "set (sl_disable s) \<subseteq> ru_name ` set all_rules" by (simp only: find_unknown)
        then have w: "well_formed_levels s \<longleftrightarrow> (\<forall>p \<in> set (sl_severity s). read_pair p \<noteq> None)"
          using d True e by (simp add: well_formed_levels_def)
        have "selection_severities s = apply_levels (sl_severity s)
            (\<lambda>n. if n \<in> set (sl_disable s) then Some Off
                 else if n \<in> set (sl_enable s) then map_option ru_severity (lookup_rule n)
                 else if sl_default s = default_none \<and> n \<in> ru_name ` set all_rules then Some Off else None)"
          using en dis d by (simp add: selection_severities_def Inr both enable_rules_exact disable_rules_exact)
        then show ?thesis unfolding w by (simp add: apply_levels_exact)
      qed
    qed
  qed
qed

lemma severities_well_formed: "\<not> isl (selection_severities s) \<longleftrightarrow> well_formed_levels s"
proof (cases "selection_severities s")
  case (Inl e)
  then have "selection_severities s \<noteq> Inr out" for out by simp
  then have "\<not> well_formed_levels s" unfolding selection_severities_exact by blast
  then show ?thesis using Inl by simp
next
  case (Inr out)
  then show ?thesis using selection_severities_exact [of s out] by simp
qed

subsection \<open>The configured rules\<close>

definition readable_block :: "go_lib \<Rightarrow> (string \<times> ynode) list \<Rightarrow> rule \<Rightarrow> bool" where
  "readable_block lib settings r \<longleftrightarrow>
     (case map_of settings (ru_name r) of
        None \<Rightarrow> True
      | Some node \<Rightarrow>
          (case ru_with_settings r of None \<Rightarrow> False | Some conf \<Rightarrow> \<not> isl (conf lib node)))"

definition same_rule :: "rule \<Rightarrow> rule \<Rightarrow> bool" where
  "same_rule r r' \<longleftrightarrow> ru_name r' = ru_name r \<and> ru_severity r' = ru_severity r \<and> ru_desc r' = ru_desc r"

lemma configure_rule_exact:
  "\<not> isl (configure_rule lib settings r) \<longleftrightarrow> readable_block lib settings r"
  "configure_rule lib settings r = Inr r' \<Longrightarrow> same_rule r r'"
  by (auto simp: configure_rule_def readable_block_def same_rule_def split: option.splits sum.splits)

lemma configure_rules_exact:
  "\<not> isl (configure_rules lib settings rs) \<longleftrightarrow> (\<forall>r \<in> set rs. readable_block lib settings r)"
  "configure_rules lib settings rs = Inr rs' \<Longrightarrow> list_all2 same_rule rs rs'"
proof (induction rs arbitrary: rs')
  case (Cons r rs)
  {
    case 1
    show ?case
      using configure_rule_exact(1) [of lib settings r] Cons.IH(1) by (auto split: sum.splits)
  next
    case 2
    then show ?case
      using configure_rule_exact(2) [of lib settings r] Cons.IH(2) by (auto split: sum.splits)
  }
qed simp_all

lemma configure_exact:
  "\<not> isl (configure lib rs settings) \<longleftrightarrow> (\<forall>r \<in> set rs. readable_block lib settings r)"
  "configure lib rs settings = Inr rs' \<Longrightarrow> list_all2 same_rule rs rs'"
proof -
  have "list_all2 same_rule rs rs" by (rule list_all2_refl) (simp add: same_rule_def)
  then show "configure lib rs settings = Inr rs' \<Longrightarrow> list_all2 same_rule rs rs'"
    using configure_rules_exact(2) [of lib settings rs rs'] by (auto simp: configure_def split: if_splits)
  show "\<not> isl (configure lib rs settings) \<longleftrightarrow> (\<forall>r \<in> set rs. readable_block lib settings r)"
    using configure_rules_exact(1) [of lib settings rs] by (auto simp: configure_def readable_block_def)
qed

lemma unknown_block_None: "unknown_block settings = None \<longleftrightarrow> fst ` set settings \<subseteq> ru_name ` set all_rules"
proof -
  have "set (set_list (set_key_set settings)) = fst ` set settings"
    by (simp add: set_list_sorted set_key_set_elems)
  then show ?thesis by (simp add: unknown_block_def find_unknown)
qed

lemma severity_for_intended:
  assumes "selection_severities s = Inr out" "r \<in> set all_rules" "same_rule r r'"
  shows "severity_for out r' = intended_level s r"
proof -
  have l: "lookup_rule (ru_name r) = Some r" and k: "ru_name r \<in> ru_name ` set all_rules"
    using assms(2) by (simp_all add: lookup_rule_known)
  have "ru_name r' = ru_name r" "ru_severity r' = ru_severity r"
    using assms(3) by (simp_all add: same_rule_def)
  then show ?thesis
    using assms(1) l k
    by (simp add: selection_severities_exact severity_for_def intended_level_def split: option.split)
qed

text \<open>
  C14: a selection resolves exactly when every name in it is a rule, no rule is both enabled and
  disabled, every pair reads as \<open>rule=level\<close> and every block of settings is one its rule reads. The
  result holds every built-in rule, in order, and each runs at the level the selection means: the
  last one written for it, else off or on as it is disabled or enabled, else what the default set says.
\<close>

theorem resolve_selection_exact:
  "((\<exists>rv. resolve_selection lib s = Inr rv) \<longleftrightarrow>
      well_formed_levels s \<and> fst ` set (sl_settings s) \<subseteq> ru_name ` set all_rules \<and>
      (\<forall>r \<in> set all_rules. readable_block lib (sl_settings s) r)) \<and>
   (\<forall>rv. resolve_selection lib s = Inr rv \<longrightarrow>
      list_all2 (\<lambda>r r'. same_rule r r' \<and> severity_for (rv_severities rv) r' = intended_level s r)
        all_rules (rv_rules rv))"
proof (intro conjI allI impI)
  have "\<not> isl (configure lib all_rules (sl_settings s)) \<longleftrightarrow>
      (\<forall>r \<in> set all_rules. readable_block lib (sl_settings s) r)" by (rule configure_exact(1))
  then show "(\<exists>rv. resolve_selection lib s = Inr rv) \<longleftrightarrow>
     well_formed_levels s \<and> fst ` set (sl_settings s) \<subseteq> ru_name ` set all_rules \<and>
     (\<forall>r \<in> set all_rules. readable_block lib (sl_settings s) r)"
    unfolding severities_well_formed [symmetric] unknown_block_None [symmetric]
    by (auto simp: resolve_selection_def selection_rules_def split: sum.splits option.splits)
next
  fix rv
  assume r: "resolve_selection lib s = Inr rv"
  then have sev: "selection_severities s = Inr (rv_severities rv)"
    and conf: "configure lib all_rules (sl_settings s) = Inr (rv_rules rv)"
    by (auto simp: resolve_selection_def selection_rules_def split: sum.splits option.splits)
  show "list_all2 (\<lambda>r r'. same_rule r r' \<and> severity_for (rv_severities rv) r' = intended_level s r)
       all_rules (rv_rules rv)"
    by (rule list.rel_mono_strong [OF configure_exact(2) [OF conf]])
      (simp add: severity_for_intended [OF sev])
qed


lemma list_all2_named:
  assumes "list_all2 (\<lambda>r r'. same_rule r r' \<and> f r' = g r) rs rs'" "distinct (map ru_name rs)" "r \<in> set rs"
  shows "f ` {r' \<in> set rs'. ru_name r' = ru_name r} = {g r}"
  using assms
proof (induction rule: list_all2_induct)
  case (Cons x xs y ys)
  show ?case
  proof (cases "r = x")
    case True
    have "ru_name r' \<noteq> ru_name x" if "r' \<in> set ys" for r'
    proof -
      obtain i where i: "i < length ys" "r' = ys ! i" using \<open>r' \<in> set ys\<close> by (auto simp: in_set_conv_nth)
      then have "ru_name r' = ru_name (xs ! i)" "xs ! i \<in> set xs"
        using list_all2_nthD2 [OF Cons.hyps(2) i(1)] list_all2_lengthD [OF Cons.hyps(2)]
        by (simp_all add: same_rule_def)
      then show ?thesis using Cons.prems(1) by (metis distinct.simps(2) image_eqI list.simps(9) set_map)
    qed
    then have "{r' \<in> set (y # ys). ru_name r' = ru_name r} = {y}"
      using True Cons.hyps(1) by (auto simp: same_rule_def)
    then show ?thesis using True Cons.hyps(1) by simp
  next
    case False
    then have "r \<in> set xs" using Cons.prems(2) by simp
    moreover from this have "ru_name y \<noteq> ru_name r"
      using Cons.hyps(1) Cons.prems(1) by (auto simp: same_rule_def)
    ultimately show ?thesis using Cons.IH Cons.prems(1) by (auto simp: Collect_conj_eq)
  qed
qed simp

definition demo_selection :: selection where
  "demo_selection =
     \<lparr>sl_default = default_none, sl_enable = [''batch-size-bounds'', ''insecure-tls''],
      sl_disable = [''unused-component''], sl_severity = [''duplicate-key=info''], sl_settings = []\<rparr>"

lemma demo_lookups:
  "lookup_rule ''batch-size-bounds'' = Some batch_size_bounds"
  "lookup_rule ''insecure-tls'' = Some insecure_tls"
  "lookup_rule ''unused-component'' = Some unused_component"
  "lookup_rule ''duplicate-key'' = Some duplicate_key"
proof -
  have m: "batch_size_bounds \<in> set all_rules" "insecure_tls \<in> set all_rules"
    "unused_component \<in> set all_rules" "duplicate_key \<in> set all_rules"
    by (simp_all add: all_rules_eq rules_by_name_def)
  have n: "ru_name batch_size_bounds = ''batch-size-bounds''" "ru_name insecure_tls = ''insecure-tls''"
    "ru_name unused_component = ''unused-component''" "ru_name duplicate_key = ''duplicate-key''"
    by (simp_all add: rule_defs)
  show "lookup_rule ''batch-size-bounds'' = Some batch_size_bounds"
    "lookup_rule ''insecure-tls'' = Some insecure_tls"
    "lookup_rule ''unused-component'' = Some unused_component"
    "lookup_rule ''duplicate-key'' = Some duplicate_key"
    using m [THEN lookup_rule_known] by (simp_all only: n)
qed

lemma demo_selection_pairs: "List.map_filter read_pair (sl_severity demo_selection) = [(''duplicate-key'', Info)]"
proof -
  have "cut ''duplicate-key=info'' ''='' = (''duplicate-key'', ''info'', True)" by code_simp
  moreover have "parse_severity ''info'' = Inr Info" by code_simp
  ultimately show ?thesis
    by (simp add: demo_selection_def List.map_filter_simps read_pair_def demo_lookups)
qed

lemma demo_selection_resolves: "\<exists>rv. resolve_selection lib demo_selection = Inr rv"
proof -
  have "cut ''duplicate-key=info'' ''='' = (''duplicate-key'', ''info'', True)" by code_simp
  moreover have "parse_severity ''info'' = Inr Info" by code_simp
  moreover have "\<not> 0 < set_len (both_named demo_selection)" by code_simp
  ultimately show ?thesis
    by (simp add: resolve_selection_def selection_rules_def unknown_block_def set_list_def
        set_unsorted_list_def set_key_set_def set_empty_def demo_selection_def configure_def
        selection_severities_def default_levels_def default_none_def default_all_def demo_lookups)
qed

lemma resolve_selection_exact_witness:
  "well_formed_levels demo_selection \<and>
   (\<exists>rv. resolve_selection demo_lib demo_selection = Inr rv \<and>
      severity_for (rv_severities rv) ` {r' \<in> set (rv_rules rv). ru_name r' = ''duplicate-key''} = {Info} \<and>
      severity_for (rv_severities rv) ` {r' \<in> set (rv_rules rv). ru_name r' = ''unused-component''} = {Off})"
proof -
  obtain rv where rv: "resolve_selection demo_lib demo_selection = Inr rv"
    using demo_selection_resolves by blast
  then have w: "well_formed_levels demo_selection"
    and all: "list_all2 (\<lambda>r r'. same_rule r r' \<and>
      severity_for (rv_severities rv) r' = intended_level demo_selection r) all_rules (rv_rules rv)"
    using resolve_selection_exact [of demo_lib demo_selection] by blast+
  have "severity_for (rv_severities rv) ` {r' \<in> set (rv_rules rv). ru_name r' = ru_name r} =
      {intended_level demo_selection r}" if r: "r \<in> set all_rules" for r
    using list_all2_named [OF all all_rules_distinct r] .
  note this [OF conjunct1 [OF lookup_rule_Some [OF demo_lookups(4)]]]
    this [OF conjunct1 [OF lookup_rule_Some [OF demo_lookups(3)]]]
  then show ?thesis
    using w rv lookup_rule_Some [OF demo_lookups(4)] lookup_rule_Some [OF demo_lookups(3)]
    by (auto simp: intended_level_def written_level_def demo_selection_pairs)
      (simp_all add: demo_selection_def)
qed

end
