(* ===== verification/Linter.thy ===== *)
theory Linter
  imports Ruleset Parse "HOL-Library.AList"
begin

section \<open>Linting one file\<close>

text \<open>
  \<open>pkg/lint\<close>: \<open>linter.go\<close> (\<open>New\<close>, \<open>Lint\<close>, \<open>lintConfig\<close>, \<open>lintEmbedded\<close>, \<open>checkRules\<close>, \<open>Summary\<close>),
  \<open>policy.go\<close>, \<open>suppression.go\<close>, \<open>coverage.go\<close> and \<open>manifest.go\<close>.

  A \<open>context.Context\<close> is what the code asks of it: whether it is done. \<open>done t\<close> is the answer to the
  question asked at time \<open>t\<close> (\<^term>\<open>None\<close>, or the text of the error), and every question moves the clock.
  \<open>context\<close> documents that a context that is done stays done, with the same error; the locale \<open>run_context\<close> is that.

  The record \<open>yaml_lib\<close> is yaml.v3: the outcomes \<open>Parse\<close> takes, the documents a decoder returns in
  turn with the error that ends them, \<open>Unmarshal\<close>, \<open>Marshal\<close>, and the literal-style flag of a node.
\<close>

record yaml_lib =
  yl_key :: "hnode \<Rightarrow> string option"
  yl_first :: "string \<Rightarrow> first_document"
  yl_second :: "string \<Rightarrow> second_document"
  yl_stream :: "string \<Rightarrow> ynode list \<times> string option"
  yl_unmarshal :: "string \<Rightarrow> ynode option"
  yl_marshal :: "ynode \<Rightarrow> string option"
  yl_literal :: "ynode \<Rightarrow> bool"

type_synonym run_ctx = "nat \<Rightarrow> string option"

text \<open>\<open>context.Background()\<close>, and a context that is done from the moment \<open>n\<close> on.\<close>

definition background :: run_ctx where
  "background = (\<lambda>_. None)"

definition cancelled_from :: "nat \<Rightarrow> string \<Rightarrow> run_ctx" where
  "cancelled_from n e = (\<lambda>t. if n \<le> t then Some e else None)"

locale run_context =
  fixes asked :: run_ctx
  assumes stays: "asked t = Some e \<Longrightarrow> asked (Suc t) = Some e"
begin

lemma stays_later: "asked t = Some e \<Longrightarrow> t \<le> u \<Longrightarrow> asked u = Some e"
proof (induction u)
  case (Suc u)
  then show ?case using stays [of u e] by (cases "t = Suc u") simp_all
qed simp

lemma live_earlier: "asked u = None \<Longrightarrow> t \<le> u \<Longrightarrow> asked t = None"
  using stays_later [of t _ u] by (metis option.exhaust option.distinct(1))

end

interpretation bg: run_context background
  by unfold_locales (simp add: background_def)

interpretation cf: run_context "cancelled_from n e" for n e
  by unfold_locales (simp add: cancelled_from_def split: if_splits)

definition parse_config :: "yaml_lib \<Rightarrow> string \<Rightarrow> string \<Rightarrow> syntax_error + cfile" where
  "parse_config yl path src = parse (yl_key yl) path src (yl_first yl src) (yl_second yl src)"

subsection \<open>Results\<close>

datatype status = StValid | StInvalid | StError | StSkipped

record coverage_skip =
  sk_path :: string
  sk_reason :: string
  sk_block :: string

datatype coverage_status = CoverageComplete | CoveragePartial | CoverageNotChecked

record coverage =
  cv_status :: coverage_status
  cv_version :: string
  cv_distribution :: string
  cv_field_rules :: "string list"
  cv_skipped :: "coverage_skip list"

record lint_result =
  rs_path :: string
  rs_status :: status
  rs_diagnostics :: "diagnostic list"
  rs_skip_reason :: string
  rs_coverage :: "coverage option"
  rs_err :: "string option"

definition result_of :: "string \<Rightarrow> status \<Rightarrow> lint_result" where
  "result_of path st = \<lparr>rs_path = path, rs_status = st, rs_diagnostics = [], rs_skip_reason = [],
     rs_coverage = None, rs_err = None\<rparr>"

definition error_result :: "string \<Rightarrow> string \<Rightarrow> lint_result" where
  "error_result path e = (result_of path StError)\<lparr>rs_err := Some e\<rparr>"

definition result_message :: "lint_result \<Rightarrow> string" where
  "result_message r = (case rs_err r of Some e \<Rightarrow> e | None \<Rightarrow> rs_skip_reason r)"

subsection \<open>Options and New\<close>

record options =
  op_schema :: "schema option"
  op_avail :: "(kind \<Rightarrow> string \<Rightarrow> string list) option"
  op_dists :: "(kind \<Rightarrow> string \<Rightarrow> string list) option"
  op_rules :: "rule list option"
  op_severities :: levels
  op_strict :: bool
  op_ignore_missing :: bool
  op_policy :: "(string \<Rightarrow> (string \<times> severity) list) option"
  op_environment :: "(string \<Rightarrow> environment) option"
  op_min_severity :: "severity option"
  op_fail_on :: "severity option"
  op_embedded :: bool

record linter =
  ln_schema :: schema
  ln_avail :: "(kind \<Rightarrow> string \<Rightarrow> string list) option"
  ln_dists :: "(kind \<Rightarrow> string \<Rightarrow> string list) option"
  ln_rules :: "rule list"
  ln_severities :: levels
  ln_strict :: bool
  ln_policy :: "(string \<Rightarrow> (string \<times> severity) list) option"
  ln_environment :: "(string \<Rightarrow> environment) option"
  ln_min_severity :: severity
  ln_fail_on :: severity
  ln_embedded :: bool

definition empty_schema :: schema where
  "empty_schema = \<lparr>sch_collector_version = [], sch_distribution = [], sch_decoder = None,
     sch_generated_at = [], sch_sources = [], sch_components = (\<lambda>_. [])\<rparr>"

definition unknown_component_name :: string where "unknown_component_name = ''unknown-component''"

definition new_severities :: "options \<Rightarrow> levels" where
  "new_severities op =
     (if op_ignore_missing op \<and> op_severities op unknown_component_name = None
      then (op_severities op)(unknown_component_name \<mapsto> Off) else op_severities op)"

definition new_linter :: "options \<Rightarrow> linter" where
  "new_linter op =
     \<lparr>ln_schema = (case op_schema op of None \<Rightarrow> empty_schema | Some s \<Rightarrow> s),
      ln_avail = op_avail op, ln_dists = op_dists op,
      ln_rules = (case op_rules op of None \<Rightarrow> all_rules | Some rs \<Rightarrow> rs),
      ln_severities = new_severities op, ln_strict = op_strict op,
      ln_policy = op_policy op, ln_environment = op_environment op,
      ln_min_severity = (case op_min_severity op of None \<Rightarrow> Info | Some s \<Rightarrow> s),
      ln_fail_on = (case op_fail_on op of None \<Rightarrow> Error | Some s \<Rightarrow> s),
      ln_embedded = op_embedded op\<rparr>"

subsection \<open>policy.go\<close>

text \<open>The loop over the policy's levels: a name the run has turned off leaves the explicit ones.\<close>

fun policy_levels :: "(string \<times> severity) list \<Rightarrow> levels \<Rightarrow> (string \<times> severity) list \<Rightarrow>
    levels \<times> (string \<times> severity) list" where
  "policy_levels [] sevs kept = (sevs, kept)"
| "policy_levels ((name, sev) # rest) sevs kept =
     (if sevs name = Some Off then policy_levels rest sevs kept
      else policy_levels rest (sevs(name \<mapsto> sev)) (kept @ [(name, sev)]))"

definition for_path :: "linter \<Rightarrow> string \<Rightarrow> linter \<times> (string \<times> severity) list" where
  "for_path li path =
     (case ln_policy li of
        None \<Rightarrow> (li, [])
      | Some policy \<Rightarrow>
          (case policy_levels (policy path) (ln_severities li) [] of
             (sevs, explicit) \<Rightarrow> (li\<lparr>ln_severities := sevs\<rparr>, explicit)))"

definition lint_environment :: "linter \<Rightarrow> string \<Rightarrow> environment" where
  "lint_environment li path =
     (case ln_environment li of None \<Rightarrow> no_environment | Some f \<Rightarrow> f path)"

subsection \<open>suppression.go\<close>

definition suppression_prefix :: string where "suppression_prefix = ''otelcol-config-lint:''"

definition invalid_suppression :: string where "invalid_suppression = ''invalid-suppression''"

definition add_finding :: "linter \<Rightarrow> diagnostic \<Rightarrow> lint_result \<Rightarrow> lint_result" where
  "add_finding li d r =
     (let r = (if at_least (d_severity d) (ln_fail_on li) then r\<lparr>rs_status := StInvalid\<rparr> else r) in
      if at_least (d_severity d) (ln_min_severity li) then r\<lparr>rs_diagnostics := rs_diagnostics r @ [d]\<rparr> else r)"

text \<open>\<open>strings.Fields\<close>: the runs of text between white space.\<close>

function text_fields :: "string \<Rightarrow> string \<Rightarrow> string list" where
  "text_fields word [] = (if word = [] then [] else [word])"
| "text_fields word (c # cs) =
     (case leading_space (c # cs) of
        None \<Rightarrow> text_fields (word @ [c]) cs
      | Some n \<Rightarrow> (if word = [] then [] else [word]) @ text_fields [] (drop n (c # cs)))"
  by pat_completeness auto
termination
  by (relation "measure (\<lambda>(_, s). length s)") (auto dest: leading_space_pos)

definition comment_map :: "cfile \<Rightarrow> (int \<times> string) list" where
  "comment_map f = foldl (\<lambda>m (line, text). AList.update line text m) [] (f_head_comments f)"

definition known_names :: "rule list \<Rightarrow> string go_set" where
  "known_names rules = set_insert set_empty (map ru_name rules)"

definition suppression_text :: "string \<Rightarrow> string" where
  "suppression_text comment = trim_space (trim_prefix comment ''#'')"

definition directive_rule :: "string go_set \<Rightarrow> string \<Rightarrow> string option" where
  "directive_rule known text =
     (let parts = text_fields [] text in
      if length parts = 2 \<and> parts ! 0 = suppression_prefix @ ''disable-next-line'' \<and> set_has known (parts ! 1)
      then Some (parts ! 1) else None)"

definition suppression_error :: "string \<Rightarrow> int \<Rightarrow> string \<Rightarrow> diagnostic" where
  "suppression_error path line text =
     \<lparr>d_rule = invalid_suppression, d_severity = Error,
      d_message = ''invalid suppression '' @ go_quote text @ ''; expected '' @ suppression_prefix @
        ''disable-next-line <known-rule>'',
      d_position = \<lparr>pos_file = path, pos_line = line, pos_column = 1\<rparr>,
      d_path = [], d_hint = [], d_docs = []\<rparr>"

fun suppression_loop :: "linter \<Rightarrow> string go_set \<Rightarrow> string \<Rightarrow> (int \<times> string) list \<Rightarrow>
    (int \<rightharpoonup> string) \<Rightarrow> lint_result \<Rightarrow> (int \<rightharpoonup> string) \<times> lint_result" where
  "suppression_loop li known path [] out res = (out, res)"
| "suppression_loop li known path ((line, comment) # rest) out res =
     (let text = suppression_text comment in
      if \<not> has_prefix text suppression_prefix then suppression_loop li known path rest out res
      else (case directive_rule known text of
          Some name \<Rightarrow> suppression_loop li known path rest (out(line + 1 \<mapsto> name)) res
        | None \<Rightarrow> suppression_loop li known path rest out
                    (add_finding li (suppression_error path line text) res)))"

definition suppressions :: "linter \<Rightarrow> cfile \<Rightarrow> lint_result \<Rightarrow> (int \<rightharpoonup> string) \<times> lint_result" where
  "suppressions li f res =
     suppression_loop li (known_names (ln_rules li)) (f_path f) (comment_map f) Map.empty res"

subsection \<open>coverage.go\<close>

definition skip_entry :: "string \<Rightarrow> string \<Rightarrow> coverage_skip" where
  "skip_entry path reason = \<lparr>sk_path = path, sk_reason = reason, sk_block = []\<rparr>"

function runtime_values :: "ynode option \<Rightarrow> string \<Rightarrow> nat \<Rightarrow> coverage_skip list" where
  "runtime_values node path depth =
     (case resolve_alias node of
        None \<Rightarrow> []
      | Some n \<Rightarrow>
          if max_settings_depth < depth \<or> n_kind n = AliasNode then [skip_entry path ''unresolved_structure'']
          else (case n_kind n of
              ScalarNode \<Rightarrow> if has_expansion (n_value n) then [skip_entry path ''runtime_value''] else []
            | MappingNode \<Rightarrow>
                concat (map (\<lambda>e. runtime_values (Some (me_node e)) (me_path e) (depth + 1)) (map_entries n path))
            | SequenceNode \<Rightarrow>
                concat (map (\<lambda>(i, item). runtime_values (Some item) (index_path path i) (depth + 1))
                  (List.enumerate 0 (n_content n)))
            | _ \<Rightarrow> []))"
  by pat_completeness auto
termination
  by (relation "measure (\<lambda>(_, _, depth). Suc max_settings_depth - depth)") auto

declare runtime_values.simps [simp del]

definition field_rule_names :: "string list" where
  "field_rule_names = [''unknown-field'', ''required-field'', ''invalid-value'', ''deprecated-field'']"

definition enabled_field_rules :: "linter \<Rightarrow> string list" where
  "enabled_field_rules li =
     map ru_name (filter (\<lambda>r. ru_name r \<in> set field_rule_names \<and> severity_for (ln_severities li) r \<noteq> Off)
       (ln_rules li))"

definition walk_skips :: "ctx \<Rightarrow> coverage_skip list" where
  "walk_skips c =
     List.map_filter (\<lambda>e. case e of Skipped path reason \<Rightarrow> Some (skip_entry path reason) | _ \<Rightarrow> None)
       (walk_components c)"

definition decoder_known :: "ctx \<Rightarrow> bool" where
  "decoder_known c = (case scalar_decoding (cx_schema c) of (_, _, known) \<Rightarrow> known)"

definition lint_coverage :: "linter \<Rightarrow> ctx \<Rightarrow> coverage" where
  "lint_coverage li c =
     (let s = ln_schema li;
          dist = (if sch_distribution s = [] \<and> 0 < schema_count s then default_distribution
                  else sch_distribution s);
          skipped =
            (if schema_ready c then walk_skips c else [skip_entry [] ''missing_schema'']) @
            (if \<not> decoder_known c \<and> schema_ready c then [skip_entry [] ''unknown_decoder''] else []) @
            runtime_values (f_root (cx_file c)) [] 0;
          field_rules = enabled_field_rules li
      in \<lparr>cv_status =
            (if \<not> schema_ready c \<or> length field_rules = 0 then CoverageNotChecked
             else if 0 < length skipped then CoveragePartial else CoverageComplete),
          cv_version = sch_collector_version s, cv_distribution = dist, cv_field_rules = field_rules,
          cv_skipped = skipped\<rparr>)"

definition worse_status :: "coverage_status \<Rightarrow> coverage_status \<Rightarrow> coverage_status" where
  "worse_status old new = (if new \<noteq> CoverageComplete then new else old)"

definition add_coverage :: "lint_result \<Rightarrow> coverage option \<Rightarrow> string \<Rightarrow> lint_result" where
  "add_coverage r cov block =
     (case cov of
        None \<Rightarrow> r
      | Some c \<Rightarrow>
          (let c = c\<lparr>cv_skipped := map (\<lambda>k. k\<lparr>sk_block := block\<rparr>) (cv_skipped c)\<rparr> in
           case rs_coverage r of
             None \<Rightarrow> r\<lparr>rs_coverage := Some c\<rparr>
           | Some old \<Rightarrow>
               r\<lparr>rs_coverage := Some (old\<lparr>cv_skipped := cv_skipped old @ cv_skipped c,
                   cv_status := worse_status (cv_status old) (cv_status c)\<rparr>)\<rparr>))"

subsection \<open>linter.go: a plain config\<close>

definition lint_finding :: "(string \<times> severity) list \<Rightarrow> rule \<Rightarrow> diagnostic \<Rightarrow> diagnostic" where
  "lint_finding explicit r d =
     (case map_of explicit (ru_name r) of None \<Rightarrow> d | Some sev \<Rightarrow> d\<lparr>d_severity := sev\<rparr>)"

definition is_suppressed :: "(int \<rightharpoonup> string) \<Rightarrow> diagnostic \<Rightarrow> bool" where
  "is_suppressed muted d \<longleftrightarrow>
     (case muted (pos_line (d_position d)) of None \<Rightarrow> [] | Some name \<Rightarrow> name) = d_rule d"

fun check_findings :: "linter \<Rightarrow> (int \<rightharpoonup> string) \<Rightarrow> (string \<times> severity) list \<Rightarrow> rule \<Rightarrow>
    diagnostic list \<Rightarrow> lint_result \<Rightarrow> lint_result" where
  "check_findings li muted explicit r [] res = res"
| "check_findings li muted explicit r (d # ds) res =
     (let d = lint_finding explicit r d in
      check_findings li muted explicit r ds (if is_suppressed muted d then res else add_finding li d res))"

fun check_loop_rules :: "linter \<Rightarrow> ctx \<Rightarrow> run_ctx \<Rightarrow> (int \<rightharpoonup> string) \<Rightarrow> (string \<times> severity) list \<Rightarrow>
    rule list \<Rightarrow> lint_result \<Rightarrow> nat \<Rightarrow> lint_result \<times> nat" where
  "check_loop_rules li c done muted explicit [] res t = (res, t)"
| "check_loop_rules li c done muted explicit (r # rs) res t =
     (if done t \<noteq> None then (res, t + 1)
      else check_loop_rules li c done muted explicit rs
        (check_findings li muted explicit r (run_rule r c (severity_for (ln_severities li) r)) res) (t + 1))"

definition check_rules :: "linter \<Rightarrow> ctx \<Rightarrow> run_ctx \<Rightarrow> (string \<times> severity) list \<Rightarrow> lint_result \<Rightarrow> nat \<Rightarrow>
    lint_result \<times> nat" where
  "check_rules li c done explicit res t =
     (case suppressions li (cx_file c) res of
        (muted, res) \<Rightarrow> check_loop_rules li c done muted explicit (ln_rules li) res t)"

definition rule_context :: "go_lib \<Rightarrow> linter \<Rightarrow> string \<Rightarrow> cfile \<Rightarrow> ctx" where
  "rule_context lib li path f =
     \<lparr>cx_file = f, cx_schema = Some (ln_schema li), cx_index = new_index f (Some (ln_schema li)),
      cx_avail = ln_avail li, cx_dists = ln_dists li, cx_strict = ln_strict li,
      cx_env = lint_environment li path, cx_lib = lib\<rparr>"

definition cancelled_result :: "string \<Rightarrow> string option \<Rightarrow> lint_result" where
  "cancelled_result path e = (result_of path StError)\<lparr>rs_err := e\<rparr>"

definition sort_result :: "lint_result \<Rightarrow> lint_result" where
  "sort_result r = r\<lparr>rs_diagnostics := diag_sort (rs_diagnostics r)\<rparr>"

definition lint_config :: "go_lib \<Rightarrow> yaml_lib \<Rightarrow> linter \<Rightarrow> run_ctx \<Rightarrow> string \<Rightarrow> string \<Rightarrow> nat \<Rightarrow>
    lint_result \<times> nat" where
  "lint_config lib yl li done path src t =
     (let parsed = parse_config yl path src in
      if done t \<noteq> None then (cancelled_result path (done (t + 1)), t + 2)
      else (case parsed of
          Inl syn \<Rightarrow>
            ((result_of path StInvalid)\<lparr>rs_diagnostics := syntax_diagnostics syn,
               rs_err := Some (syntax_error_text syn)\<rparr>, t + 1)
        | Inr f \<Rightarrow>
            (case for_path li path of (li, explicit) \<Rightarrow>
              (let c = rule_context lib li path f;
                   res = (result_of path StValid)\<lparr>rs_coverage := Some (lint_coverage li c)\<rparr>
               in case check_rules li c done explicit res (t + 1) of (res, t) \<Rightarrow>
                    if done t \<noteq> None then (cancelled_result path (done (t + 1)), t + 2)
                    else (sort_result res, t + 1)))))"

subsection \<open>manifest.go\<close>

definition mapping_value :: "ynode option \<Rightarrow> string \<Rightarrow> ynode option" where
  "mapping_value n0 key =
     (case n0 of
        None \<Rightarrow> None
      | Some n \<Rightarrow>
          if n_kind n \<noteq> MappingNode then None
          else map_option snd (find (\<lambda>(k, v). n_value k = key) (pairs (n_content n))))"

definition manifest_root :: "ynode option \<Rightarrow> bool" where
  "manifest_root rt \<longleftrightarrow>
     list_all (\<lambda>key. case mapping_value rt key of
         None \<Rightarrow> False
       | Some n \<Rightarrow> n_kind n = ScalarNode \<and> n_tag n = str_tag \<and> n_value n \<noteq> [])
       [''apiVersion'', ''kind'']"

definition parses_as_manifest :: "yaml_lib \<Rightarrow> string \<Rightarrow> ynode \<Rightarrow> bool" where
  "parses_as_manifest yl path d \<longleftrightarrow>
     (case yl_marshal yl d of
        None \<Rightarrow> False
      | Some encoded \<Rightarrow>
          (case parse_config yl path encoded of
             Inl _ \<Rightarrow> False
           | Inr f \<Rightarrow> length (f_duplicates f) = 0 \<and> manifest_root (f_root f)))"

fun manifest_loop :: "yaml_lib \<Rightarrow> string \<Rightarrow> string option \<Rightarrow> ynode list \<Rightarrow> bool \<Rightarrow> bool" where
  "manifest_loop yl path ending [] found = (case ending of None \<Rightarrow> found | Some _ \<Rightarrow> False)"
| "manifest_loop yl path ending (d # ds) found =
     (case n_content d of
        [] \<Rightarrow> manifest_loop yl path ending ds found
      | rt # _ \<Rightarrow>
          if n_tag rt = null_tag then manifest_loop yl path ending ds found
          else if n_kind rt \<noteq> MappingNode \<or> \<not> manifest_root (Some rt) then False
          else if \<not> parses_as_manifest yl path d then False
          else manifest_loop yl path ending ds True)"

definition kubernetes_documents :: "yaml_lib \<Rightarrow> string \<Rightarrow> string \<Rightarrow> bool" where
  "kubernetes_documents yl path src =
     (case yl_stream yl src of (docs, ending) \<Rightarrow> manifest_loop yl path ending docs False)"

subsection \<open>linter.go: configs inside ConfigMaps\<close>

definition collector_sections :: "string list" where
  "collector_sections = [''receivers'', ''exporters'', ''processors'', ''connectors'', ''extensions'']"

definition collector_root :: "ynode \<Rightarrow> bool" where
  "collector_root rt \<longleftrightarrow>
     (if n_kind rt \<noteq> MappingNode then False
      else if list_ex (\<lambda>key. mapping_value (Some rt) key \<noteq> None) collector_sections then True
      else mapping_value (mapping_value (Some rt) ''service'') ''pipelines'' \<noteq> None)"

definition collector_lines :: "string \<Rightarrow> bool" where
  "collector_lines src \<longleftrightarrow>
     list_ex (\<lambda>line. list_ex (\<lambda>key. has_prefix line (key @ '':'')) collector_sections)
       (split_on (CHR 0x0A) src)"

definition collector_block :: "yaml_lib \<Rightarrow> string \<Rightarrow> bool" where
  "collector_block yl src =
     (case yl_unmarshal yl src of
        None \<Rightarrow> collector_lines src
      | Some doc \<Rightarrow>
          (case n_content doc of [] \<Rightarrow> collector_lines src | rt # _ \<Rightarrow> collector_root rt))"

definition text_index :: "string \<Rightarrow> string \<Rightarrow> nat option" where
  "text_index s sub = (case cut s sub of (before, _, found) \<Rightarrow> if found then Some (length before) else None)"

fun indent_loop :: "string list \<Rightarrow> int \<Rightarrow> string list \<Rightarrow> int \<Rightarrow> nat" where
  "indent_loop lines n [] i = 0"
| "indent_loop lines n (line # rest) i =
     (if trim_space line = [] \<or> int (length lines) \<le> n + i then indent_loop lines n rest (i + 1)
      else (case text_index (lines ! nat (n + i)) line of
          Some offset \<Rightarrow> offset
        | None \<Rightarrow> indent_loop lines n rest (i + 1)))"

definition block_indent :: "string list \<Rightarrow> ynode \<Rightarrow> nat" where
  "block_indent lines block =
     indent_loop lines (n_line block) (split_on (CHR 0x0A) (n_value block)) 0"

definition shift_position :: "int \<Rightarrow> int \<Rightarrow> position \<Rightarrow> position" where
  "shift_position line column p =
     (if 0 < pos_line p then
        p\<lparr>pos_line := pos_line p + line,
          pos_column := (if 0 < pos_column p then pos_column p + column else pos_column p)\<rparr>
      else p)"

definition embed_diagnostic :: "string \<Rightarrow> ynode \<Rightarrow> int \<Rightarrow> diagnostic \<Rightarrow> diagnostic" where
  "embed_diagnostic block_name block baseline d =
     d\<lparr>d_position := shift_position (n_line block) baseline (d_position d),
       d_message := ''('' @ block_name @ '') '' @ d_message d\<rparr>"

definition map_name :: "ynode \<Rightarrow> string" where
  "map_name rt =
     (case mapping_value (Some rt) ''metadata'' of
        None \<Rightarrow> ''<unnamed>''
      | Some metadata \<Rightarrow>
          (case mapping_value (Some metadata) ''name'' of
             None \<Rightarrow> ''<unnamed>''
           | Some n \<Rightarrow> if n_value n \<noteq> [] then n_value n else ''<unnamed>''))"

definition lintable_block :: "yaml_lib \<Rightarrow> ynode \<Rightarrow> bool" where
  "lintable_block yl block \<longleftrightarrow>
     n_kind block = ScalarNode \<and> yl_literal yl block \<and> collector_block yl (n_value block)"

definition merge_block :: "string list \<Rightarrow> string \<Rightarrow> ynode \<Rightarrow> lint_result \<Rightarrow> lint_result \<Rightarrow> lint_result" where
  "merge_block lines block_name block checked res =
     (let res = (if rs_status res = StSkipped \<or> rs_status checked = StInvalid
                 then res\<lparr>rs_status := rs_status checked\<rparr> else res);
          res = add_coverage res (rs_coverage checked) block_name;
          baseline = int (block_indent lines block)
      in res\<lparr>rs_diagnostics := rs_diagnostics res @
           map (embed_diagnostic block_name block baseline) (rs_diagnostics checked)\<rparr>)"

fun lint_blocks :: "go_lib \<Rightarrow> yaml_lib \<Rightarrow> linter \<Rightarrow> run_ctx \<Rightarrow> string \<Rightarrow> string list \<Rightarrow> string \<Rightarrow>
    (ynode \<times> ynode) list \<Rightarrow> lint_result \<Rightarrow> nat \<Rightarrow> lint_result \<times> nat" where
  "lint_blocks lib yl li done path lines name [] res t = (res, t)"
| "lint_blocks lib yl li done path lines name ((key, block) # rest) res t =
     (if done t \<noteq> None then (res, t + 1)
      else if \<not> lintable_block yl block then lint_blocks lib yl li done path lines name rest res (t + 1)
      else (case lint_config lib yl li done path (n_value block) (t + 1) of (checked, t) \<Rightarrow>
        lint_blocks lib yl li done path lines name rest
          (merge_block lines (name @ ''/'' @ n_value key) block checked res) t))"

definition config_map_data :: "ynode \<Rightarrow> (ynode \<times> ynode list) option" where
  "config_map_data doc =
     (case n_content doc of
        [] \<Rightarrow> None
      | rt # _ \<Rightarrow>
          if n_kind rt \<noteq> MappingNode then None
          else (case mapping_value (Some rt) ''kind'' of
              None \<Rightarrow> None
            | Some kind \<Rightarrow>
                if n_value kind \<noteq> ''ConfigMap'' then None
                else (case mapping_value (Some rt) ''data'' of
                    None \<Rightarrow> None
                  | Some data \<Rightarrow>
                      if n_kind data \<noteq> MappingNode then None else Some (rt, n_content data))))"

definition lint_document :: "go_lib \<Rightarrow> yaml_lib \<Rightarrow> linter \<Rightarrow> run_ctx \<Rightarrow> string \<Rightarrow> string list \<Rightarrow>
    ynode \<Rightarrow> lint_result \<Rightarrow> nat \<Rightarrow> lint_result \<times> nat" where
  "lint_document lib yl li done path lines doc res t =
     (case config_map_data doc of
        None \<Rightarrow> (res, t)
      | Some (rt, content) \<Rightarrow>
          lint_blocks lib yl li done path lines (map_name rt) (pairs content) res t)"

fun embedded_loop :: "go_lib \<Rightarrow> yaml_lib \<Rightarrow> linter \<Rightarrow> run_ctx \<Rightarrow> string \<Rightarrow> string list \<Rightarrow> string option \<Rightarrow>
    ynode list \<Rightarrow> lint_result \<Rightarrow> nat \<Rightarrow> lint_result \<times> nat" where
  "embedded_loop lib yl li done path lines ending docs res t =
     (case done t of
        Some e \<Rightarrow> (error_result path e, t + 1)
      | None \<Rightarrow>
          if done (t + 1) \<noteq> None then (cancelled_result path (done (t + 2)), t + 3)
          else (case docs of
              [] \<Rightarrow> (case ending of None \<Rightarrow> (sort_result res, t + 2) | Some e \<Rightarrow> (error_result path e, t + 2))
            | doc # rest \<Rightarrow>
                (case lint_document lib yl li done path lines doc res (t + 2) of (res, t) \<Rightarrow>
                  embedded_loop lib yl li done path lines ending rest res t)))"

declare embedded_loop.simps [simp del]

definition lint_embedded :: "go_lib \<Rightarrow> yaml_lib \<Rightarrow> linter \<Rightarrow> run_ctx \<Rightarrow> string \<Rightarrow> string \<Rightarrow> nat \<Rightarrow>
    lint_result \<times> nat" where
  "lint_embedded lib yl li done path src t =
     (case yl_stream yl src of (docs, ending) \<Rightarrow>
        embedded_loop lib yl li done path (split_on (CHR 0x0A) src) ending docs (result_of path StSkipped) t)"

subsection \<open>linter.go: Lint, LintFile and LintReader\<close>

definition manifest_reason :: string where
  "manifest_reason = ''Kubernetes manifest; use --embedded to lint ConfigMap contents''"

definition lint :: "go_lib \<Rightarrow> yaml_lib \<Rightarrow> linter \<Rightarrow> run_ctx \<Rightarrow> string \<Rightarrow> string \<Rightarrow> nat \<Rightarrow> lint_result \<times> nat" where
  "lint lib yl li done path src t =
     (case done t of
        Some e \<Rightarrow> (error_result path e, t + 1)
      | None \<Rightarrow>
          if ln_embedded li then lint_embedded lib yl li done path src (t + 1)
          else if kubernetes_documents yl path src then
            ((result_of path StSkipped)\<lparr>rs_skip_reason := manifest_reason\<rparr>, t + 1)
          else lint_config lib yl li done path src (t + 1))"

text \<open>\<open>LintFile\<close> and \<open>LintReader\<close>: \<open>input\<close> is what reading the file, or the reader, gives.\<close>

definition lint_read :: "go_lib \<Rightarrow> yaml_lib \<Rightarrow> linter \<Rightarrow> run_ctx \<Rightarrow> string \<Rightarrow> string go_result \<Rightarrow> nat \<Rightarrow>
    lint_result \<times> nat" where
  "lint_read lib yl li done path input t =
     (case done t of
        Some e \<Rightarrow> (error_result path e, t + 1)
      | None \<Rightarrow>
          (case input of
             Inl e \<Rightarrow> (error_result path e, t + 1)
           | Inr src \<Rightarrow> lint lib yl li done path src (t + 1)))"

definition lint_file :: "go_lib \<Rightarrow> yaml_lib \<Rightarrow> linter \<Rightarrow> (string \<Rightarrow> string go_result) \<Rightarrow> run_ctx \<Rightarrow> string \<Rightarrow> nat \<Rightarrow>
    lint_result \<times> nat" where
  "lint_file lib yl li fs done path t = lint_read lib yl li done path (fs path) t"

subsection \<open>linter.go: Summary\<close>

record summary =
  sm_valid :: nat
  sm_invalid :: nat
  sm_errors :: nat
  sm_skipped :: nat
  sm_warnings :: nat
  sm_infos :: nat
  sm_incomplete :: nat

definition empty_summary :: summary where
  "empty_summary = \<lparr>sm_valid = 0, sm_invalid = 0, sm_errors = 0, sm_skipped = 0, sm_warnings = 0,
     sm_infos = 0, sm_incomplete = 0\<rparr>"

definition count_status :: "status \<Rightarrow> summary \<Rightarrow> summary" where
  "count_status st s =
     (case st of
        StValid \<Rightarrow> s\<lparr>sm_valid := sm_valid s + 1\<rparr>
      | StInvalid \<Rightarrow> s\<lparr>sm_invalid := sm_invalid s + 1\<rparr>
      | StError \<Rightarrow> s\<lparr>sm_errors := sm_errors s + 1\<rparr>
      | StSkipped \<Rightarrow> s\<lparr>sm_skipped := sm_skipped s + 1\<rparr>)"

definition is_incomplete :: "lint_result \<Rightarrow> bool" where
  "is_incomplete r \<longleftrightarrow> (case rs_coverage r of None \<Rightarrow> False | Some c \<Rightarrow> cv_status c \<noteq> CoverageComplete)"

definition summary_add :: "lint_result \<Rightarrow> summary \<Rightarrow> summary" where
  "summary_add r s =
     (let s = count_status (rs_status r) s;
          s = (if is_incomplete r then s\<lparr>sm_incomplete := sm_incomplete s + 1\<rparr> else s)
      in s\<lparr>sm_warnings := sm_warnings s + diag_count Warning (rs_diagnostics r),
           sm_infos := sm_infos s + diag_count Info (rs_diagnostics r)\<rparr>)"

definition summary_failed :: "summary \<Rightarrow> bool" where
  "summary_failed s \<longleftrightarrow> 0 < sm_invalid s \<or> 0 < sm_errors s"

subsection \<open>Cancellation\<close>

text \<open>
  What a step of the run returns is what it returns under a context that is never done, or the context
  is done by the time it returns; a whole run that is cancelled ends in the error of the context.
\<close>

definition settles :: "run_ctx \<Rightarrow> (run_ctx \<Rightarrow> 'a \<times> nat) \<Rightarrow> nat \<Rightarrow> bool" where
  "settles asked f t \<longleftrightarrow>
     (case f asked of (r, u) \<Rightarrow> t \<le> u \<and> (f background = (r, u) \<or> (\<exists>e. asked u = Some e)))"

definition ends :: "run_ctx \<Rightarrow> string \<Rightarrow> (run_ctx \<Rightarrow> lint_result \<times> nat) \<Rightarrow> nat \<Rightarrow> bool" where
  "ends asked path f t \<longleftrightarrow>
     (case f asked of (r, u) \<Rightarrow>
        t \<le> u \<and> (f background = (r, u) \<or> (\<exists>e. asked u = Some e \<and> r = error_result path e)))"

lemma cancelled_result_Some [simp]: "cancelled_result path (Some e) = error_result path e"
  by (simp add: cancelled_result_def error_result_def)

lemma background_None [simp]: "background t = None"
  by (simp add: background_def)

lemma endsE:
  assumes "ends asked path f t"
  obtains r u where "f asked = (r, u)" "t \<le> u" "f background = (r, u)"
  | r u e where "f asked = (r, u)" "t \<le> u" "asked u = Some e" "r = error_result path e"
  using assms by (cases "f asked") (auto simp: ends_def)

lemma settlesE:
  assumes "settles asked f t"
  obtains r u where "f asked = (r, u)" "t \<le> u" "f background = (r, u)"
  | r u e where "f asked = (r, u)" "t \<le> u" "asked u = Some e"
  using assms by (cases "f asked") (auto simp: settles_def)

lemma embedded_cancelled:
  "d t = Some e \<Longrightarrow> embedded_loop lib yl li d path lines ending docs res t = (error_result path e, t + 1)"
  by (simp add: embedded_loop.simps)

lemma embedded_cancelled_second:
  "d t = None \<Longrightarrow> d (t + 1) = Some e \<Longrightarrow>
   embedded_loop lib yl li d path lines ending docs res t = (cancelled_result path (d (t + 2)), t + 3)"
  by (simp add: embedded_loop.simps)

lemma embedded_end:
  "d t = None \<Longrightarrow> d (t + 1) = None \<Longrightarrow>
   embedded_loop lib yl li d path lines ending [] res t =
     (case ending of None \<Rightarrow> (sort_result res, t + 2) | Some e \<Rightarrow> (error_result path e, t + 2))"
  by (simp add: embedded_loop.simps)

lemma embedded_step:
  "d t = None \<Longrightarrow> d (t + 1) = None \<Longrightarrow>
   embedded_loop lib yl li d path lines ending (doc # docs) res t =
     (case lint_document lib yl li d path lines doc res (t + 2) of (res, t) \<Rightarrow>
        embedded_loop lib yl li d path lines ending docs res t)"
  by (subst embedded_loop.simps) simp

context run_context
begin

lemma check_loop_rules_settles:
  "settles asked (\<lambda>d. check_loop_rules li c d muted explicit rs res t) t"
proof (induction rs arbitrary: res t)
  case Nil
  show ?case by (simp add: settles_def)
next
  case (Cons r rs)
  show ?case
  proof (cases "asked t")
    case None
    let ?res = "check_findings li muted explicit r (run_rule r c (severity_for (ln_severities li) r)) res"
    show ?thesis
      using Cons.IH [of ?res "t + 1"] None by (auto simp: settles_def)
  next
    case (Some e)
    then show ?thesis using stays by (auto simp: settles_def)
  qed
qed

lemma lint_config_ends: "ends asked path (\<lambda>d. lint_config lib yl li d path src t) t"
proof (cases "asked t")
  case (Some e)
  then have "asked (t + 1) = Some e" "asked (t + 2) = Some e" by (auto intro: stays_later)
  then show ?thesis using Some by (simp add: ends_def lint_config_def)
next
  case None
  show ?thesis
  proof (cases "parse_config yl path src")
    case (Inl syn)
    then show ?thesis using None by (simp add: ends_def lint_config_def)
  next
    case (Inr f)
    obtain li' explicit where li': "for_path li path = (li', explicit)" by fastforce
    define c where "c = rule_context lib li' path f"
    define res where "res = (result_of path StValid)\<lparr>rs_coverage := Some (lint_coverage li' c)\<rparr>"
    have s: "settles asked (\<lambda>d. check_rules li' c d explicit res (t + 1)) (t + 1)"
      unfolding check_rules_def by (cases "suppressions li' (cx_file c) res") (simp add: check_loop_rules_settles)
    have unfolded: "lint_config lib yl li d path src t =
        (case check_rules li' c d explicit res (t + 1) of (res, t) \<Rightarrow>
           if d t \<noteq> None then (cancelled_result path (d (t + 1)), t + 2) else (sort_result res, t + 1))"
      if "d t = None" for d
      using that by (simp add: lint_config_def Inr li' c_def res_def Let_def)
    have cancelled: "ends asked path (\<lambda>d. lint_config lib yl li d path src t) t"
      if "check_rules li' c asked explicit res (t + 1) = (r, u)" "t + 1 \<le> u" "asked u = Some e" for r u e
    proof -
      have "asked (u + 1) = Some e" "asked (u + 2) = Some e" using that(3) by (auto intro: stays_later)
      then show ?thesis using that by (simp add: ends_def unfolded None)
    qed
    from s show ?thesis
    proof (cases rule: settlesE)
      case (1 r u)
      show ?thesis
      proof (cases "asked u")
        case None
        then show ?thesis using 1 \<open>asked t = None\<close> by (simp add: ends_def unfolded)
      next
        case (Some e)
        then show ?thesis using 1 cancelled by blast
      qed
    next
      case (2 r u e)
      then show ?thesis by (rule cancelled)
    qed
  qed
qed

lemma lint_blocks_settles:
  "settles asked (\<lambda>d. lint_blocks lib yl li d path lines name bs res t) t"
proof (induction bs arbitrary: res t)
  case Nil
  show ?case by (simp add: settles_def)
next
  case (Cons b bs)
  obtain key block where b: "b = (key, block)" by fastforce
  show ?case
  proof (cases "asked t")
    case (Some e)
    then show ?thesis using stays b by (auto simp: settles_def)
  next
    case None
    show ?thesis
    proof (cases "lintable_block yl block")
      case False
      then show ?thesis
        using Cons.IH [of res "t + 1"] None b by (auto simp: settles_def)
    next
      case True
      have step: "lint_blocks lib yl li d path lines name (b # bs) res t =
          (case lint_config lib yl li d path (n_value block) (t + 1) of (checked, t) \<Rightarrow>
             lint_blocks lib yl li d path lines name bs
               (merge_block lines (name @ ''/'' @ n_value key) block checked res) t)" if "d t = None" for d
        using that True b by simp
      from lint_config_ends [of path lib yl li "n_value block" "t + 1"] show ?thesis
      proof (cases rule: endsE)
        case (1 r u)
        then show ?thesis
          using Cons.IH [of "merge_block lines (name @ ''/'' @ n_value key) block r res" u] None
          by (auto simp: settles_def step simp del: lint_blocks.simps)
      next
        case (2 r u e)
        let ?res = "merge_block lines (name @ ''/'' @ n_value key) block r res"
        from Cons.IH [of ?res u] obtain r' u' where
          r': "lint_blocks lib yl li asked path lines name bs ?res u = (r', u')" "u \<le> u'"
          by (cases rule: settlesE) auto
        then have "asked u' = Some e" using 2(3) stays_later by blast
        then show ?thesis using 2 r' None by (auto simp: settles_def step simp del: lint_blocks.simps)
      qed
    qed
  qed
qed

lemma lint_document_settles:
  "settles asked (\<lambda>d. lint_document lib yl li d path lines doc res t) t"
  unfolding lint_document_def
  by (cases "config_map_data doc") (auto simp: settles_def [of _ "\<lambda>_. (_, _)"] lint_blocks_settles split: prod.split)

lemma embedded_second_ends:
  assumes "asked t = None" "asked (t + 1) = Some e"
  shows "ends asked path (\<lambda>d. embedded_loop lib yl li d path lines ending docs res t) t"
proof -
  have "asked (t + 2) = Some e" "asked (t + 3) = Some e" using assms(2) by (auto intro: stays_later)
  then show ?thesis using embedded_cancelled_second [OF assms] by (simp add: ends_def)
qed

lemma embedded_loop_ends:
  "ends asked path (\<lambda>d. embedded_loop lib yl li d path lines ending docs res t) t"
proof (induction docs arbitrary: res t)
  case Nil
  show ?case
  proof (cases "asked t")
    case (Some e)
    then show ?thesis using stays by (auto simp: ends_def embedded_cancelled)
  next
    case live: None
    show ?thesis
    proof (cases "asked (t + 1)")
      case (Some e)
      then show ?thesis by (rule embedded_second_ends [OF live])
    next
      case None
      then show ?thesis using live by (auto simp: ends_def embedded_end split: option.split)
    qed
  qed
next
  case (Cons doc docs)
  show ?case
  proof (cases "asked t")
    case (Some e)
    then show ?thesis using stays by (auto simp: ends_def embedded_cancelled)
  next
    case live: None
    show ?thesis
    proof (cases "asked (t + 1)")
      case (Some e)
      then show ?thesis by (rule embedded_second_ends [OF live])
    next
      case None
      have s: "settles asked (\<lambda>d. lint_document lib yl li d path lines doc res (t + 2)) (t + 2)"
        by (rule lint_document_settles)
      from s show ?thesis
      proof (cases rule: settlesE)
        case (1 r u)
        then show ?thesis
          using Cons.IH [of r u] live None by (auto simp: ends_def embedded_step)
      next
        case (2 r u e)
        then have "asked (u + 1) = Some e" using stays by simp
        then show ?thesis
          using 2 live None by (simp add: ends_def embedded_step embedded_cancelled)
      qed
    qed
  qed
qed

lemma lint_ends: "ends asked path (\<lambda>d. lint lib yl li d path src t) t"
proof (cases "asked t")
  case (Some e)
  then show ?thesis using stays by (auto simp: ends_def lint_def)
next
  case None
  have step: "lint lib yl li d path src t =
      (if ln_embedded li then lint_embedded lib yl li d path src (t + 1)
       else if kubernetes_documents yl path src then
         ((result_of path StSkipped)\<lparr>rs_skip_reason := manifest_reason\<rparr>, t + 1)
       else lint_config lib yl li d path src (t + 1))" if "d t = None" for d
    using that by (simp add: lint_def)
  have "ends asked path (\<lambda>d. lint_embedded lib yl li d path src (t + 1)) (t + 1)"
    unfolding lint_embedded_def by (cases "yl_stream yl src") (simp add: embedded_loop_ends)
  moreover have "ends asked path (\<lambda>d. lint_config lib yl li d path src (t + 1)) (t + 1)"
    by (rule lint_config_ends)
  ultimately show ?thesis using None by (auto simp: ends_def step)
qed

lemma lint_file_ends: "ends asked path (\<lambda>d. lint_file lib yl li fs d path t) t"
proof (cases "asked t")
  case (Some e)
  then show ?thesis using stays by (auto simp: ends_def lint_file_def lint_read_def)
next
  case None
  show ?thesis
  proof (cases "fs path")
    case (Inl e)
    then show ?thesis using None by (simp add: ends_def lint_file_def lint_read_def)
  next
    case (Inr src)
    then show ?thesis
      using None lint_ends [of path lib yl li src "t + 1"] by (auto simp: ends_def lint_file_def lint_read_def)
  qed
qed

end

subsection \<open>What a config is told\<close>

text \<open>The directive a comment carries, and the one in force on a line: the head comment of the line above.\<close>

definition comment_directive :: "rule list \<Rightarrow> string \<Rightarrow> string option" where
  "comment_directive rules comment =
     (if has_prefix (suppression_text comment) suppression_prefix
      then directive_rule (known_names rules) (suppression_text comment) else None)"

definition bad_directive :: "rule list \<Rightarrow> string \<Rightarrow> bool" where
  "bad_directive rules comment \<longleftrightarrow>
     has_prefix (suppression_text comment) suppression_prefix \<and> comment_directive rules comment = None"

definition silenced :: "rule list \<Rightarrow> cfile \<Rightarrow> diagnostic \<Rightarrow> bool" where
  "silenced rules f d \<longleftrightarrow>
     (case map_of (comment_map f) (pos_line (d_position d) - 1) of
        None \<Rightarrow> False | Some comment \<Rightarrow> comment_directive rules comment = Some (d_rule d))"

definition directive_errors :: "rule list \<Rightarrow> cfile \<Rightarrow> diagnostic list" where
  "directive_errors rules f =
     map (\<lambda>(line, comment). suppression_error (f_path f) line (suppression_text comment))
       (filter (\<lambda>(line, comment). bad_directive rules comment) (comment_map f))"

definition rule_diagnostics :: "linter \<Rightarrow> ctx \<Rightarrow> (string \<times> severity) list \<Rightarrow> rule \<Rightarrow> diagnostic list" where
  "rule_diagnostics li c explicit r =
     map (lint_finding explicit r) (run_rule r c (severity_for (ln_severities li) r))"

definition all_findings :: "linter \<Rightarrow> ctx \<Rightarrow> (string \<times> severity) list \<Rightarrow> diagnostic list" where
  "all_findings li c explicit =
     directive_errors (ln_rules li) (cx_file c) @
     filter (\<lambda>d. \<not> silenced (ln_rules li) (cx_file c) d)
       (concat (map (rule_diagnostics li c explicit) (ln_rules li)))"

definition add_findings :: "linter \<Rightarrow> diagnostic list \<Rightarrow> lint_result \<Rightarrow> lint_result" where
  "add_findings li ds res = foldl (\<lambda>r d. add_finding li d r) res ds"

lemma add_findings_simps [simp]:
  "add_findings li [] res = res"
  "add_findings li (d # ds) res = add_findings li ds (add_finding li d res)"
  "add_findings li (ds @ es) res = add_findings li es (add_findings li ds res)"
  by (simp_all add: add_findings_def)

lemma add_findings_eq:
  "add_findings li ds res =
     res\<lparr>rs_status := (if list_ex (\<lambda>d. at_least (d_severity d) (ln_fail_on li)) ds then StInvalid
            else rs_status res),
         rs_diagnostics := rs_diagnostics res @
            filter (\<lambda>d. at_least (d_severity d) (ln_min_severity li)) ds\<rparr>"
  by (induction ds arbitrary: res) (simp_all add: add_finding_def Let_def)

lemma comment_map_distinct: "distinct (map fst (comment_map f))"
proof -
  have "distinct (map fst (foldl (\<lambda>m (line, text). AList.update line text m) m xs))"
    if "distinct (map fst m)" for m :: "(int \<times> string) list" and xs
    using that by (induction xs arbitrary: m) (auto simp: distinct_update)
  from this [of "[]"] show ?thesis by (simp add: comment_map_def)
qed

lemma suppression_loop_eq:
  assumes "distinct (map fst cs)" "known = known_names (ln_rules li)"
  shows "suppression_loop li known path cs out res =
     ((\<lambda>n. case map_of cs (n - 1) of
         None \<Rightarrow> out n
       | Some c \<Rightarrow> (case comment_directive (ln_rules li) c of None \<Rightarrow> out n | Some name \<Rightarrow> Some name)),
      add_findings li
        (map (\<lambda>(line, c). suppression_error path line (suppression_text c))
          (filter (\<lambda>(line, c). bad_directive (ln_rules li) c) cs)) res)"
  using assms(1)
proof (induction cs arbitrary: out res)
  case Nil
  show ?case by simp
next
  case (Cons p cs)
  obtain line c where p: "p = (line, c)" by fastforce
  have fresh: "map_of cs line = None" using Cons.prems p by (simp add: map_of_eq_None_iff)
  have line: "n - 1 = line \<longleftrightarrow> n = line + 1" for n by auto
  show ?case
  proof (cases "has_prefix (suppression_text c) suppression_prefix")
    case False
    then show ?thesis
      using Cons p fresh
      by (auto simp: Let_def comment_directive_def bad_directive_def fun_eq_iff split: option.split)
  next
    case True
    show ?thesis
    proof (cases "directive_rule known (suppression_text c)")
      case None
      then show ?thesis
        using Cons p fresh True assms(2)
        by (auto simp: Let_def comment_directive_def bad_directive_def fun_eq_iff split: option.split)
    next
      case (Some name)
      then show ?thesis
        using Cons p fresh True assms(2)
        by (auto simp: Let_def comment_directive_def bad_directive_def fun_eq_iff line split: option.split)
    qed
  qed
qed

lemma check_findings_eq:
  "check_findings li muted explicit r ds res =
     add_findings li (filter (\<lambda>d. \<not> is_suppressed muted d) (map (lint_finding explicit r) ds)) res"
  by (induction ds arbitrary: res) (simp_all add: Let_def)

lemma check_loop_background:
  "check_loop_rules li c background muted explicit rs res t =
     (add_findings li (filter (\<lambda>d. \<not> is_suppressed muted d)
        (concat (map (rule_diagnostics li c explicit) rs))) res, t + length rs)"
  by (induction rs arbitrary: res t) (simp_all add: check_findings_eq rule_diagnostics_def)

lemma is_suppressed_silenced:
  assumes "d_rule d \<noteq> []"
  shows "is_suppressed (\<lambda>n. case map_of (comment_map f) (n - 1) of
         None \<Rightarrow> None
       | Some c \<Rightarrow> (case comment_directive rules c of None \<Rightarrow> None | Some name \<Rightarrow> Some name)) d
     \<longleftrightarrow> silenced rules f d"
  using assms by (auto simp: is_suppressed_def silenced_def split: option.splits)

lemma rule_diagnostics_rule: "d \<in> set (rule_diagnostics li c explicit r) \<Longrightarrow> d_rule d = ru_name r"
  by (auto simp: rule_diagnostics_def lint_finding_def run_rule_def report_def split: option.splits if_splits)

lemma check_rules_background:
  assumes "\<forall>r \<in> set (ln_rules li). ru_name r \<noteq> []"
  shows "check_rules li c background explicit res t =
    (add_findings li (all_findings li c explicit) res, t + length (ln_rules li))"
proof -
  let ?m = "\<lambda>n. case map_of (comment_map (cx_file c)) (n - 1) of
      None \<Rightarrow> None
    | Some x \<Rightarrow> (case comment_directive (ln_rules li) x of None \<Rightarrow> None | Some name \<Rightarrow> Some name)"
  have s: "suppressions li (cx_file c) res =
      (?m, add_findings li (directive_errors (ln_rules li) (cx_file c)) res)"
    unfolding suppressions_def directive_errors_def
    by (subst suppression_loop_eq [OF comment_map_distinct refl]) (simp cong: option.case_cong)
  have "filter (\<lambda>d. \<not> is_suppressed ?m d) (concat (map (rule_diagnostics li c explicit) (ln_rules li))) =
      filter (\<lambda>d. \<not> silenced (ln_rules li) (cx_file c) d)
        (concat (map (rule_diagnostics li c explicit) (ln_rules li)))"
  proof (rule filter_cong [OF refl])
    fix d
    assume "d \<in> set (concat (map (rule_diagnostics li c explicit) (ln_rules li)))"
    then have "d_rule d \<noteq> []" using assms rule_diagnostics_rule by fastforce
    then show "(\<not> is_suppressed ?m d) = (\<not> silenced (ln_rules li) (cx_file c) d)"
      by (simp add: is_suppressed_silenced)
  qed
  then show ?thesis by (simp only: check_rules_def s check_loop_background prod.case all_findings_def add_findings_simps)
qed

lemma policy_levels_eq:
  assumes "distinct (map fst ps)"
  shows "policy_levels ps sevs kept =
    ((\<lambda>n. if sevs n = Some Off then Some Off
          else case map_of ps n of Some s \<Rightarrow> Some s | None \<Rightarrow> sevs n),
     kept @ filter (\<lambda>(n, s). sevs n \<noteq> Some Off) ps)"
  using assms
proof (induction ps arbitrary: sevs kept)
  case Nil
  show ?case by (auto simp: fun_eq_iff)
next
  case (Cons p ps)
  obtain name sev where p: "p = (name, sev)" by fastforce
  have fresh: "map_of ps name = None" using Cons.prems p by (simp add: map_of_eq_None_iff)
  show ?case
  proof (cases "sevs name = Some Off")
    case True
    then show ?thesis using Cons p by (auto simp: fun_eq_iff)
  next
    case False
    have "filter (\<lambda>(n, s). (sevs(name \<mapsto> sev)) n \<noteq> Some Off) ps = filter (\<lambda>(n, s). sevs n \<noteq> Some Off) ps"
      using Cons.prems p by (intro filter_cong refl) (auto simp: image_iff)
    then show ?thesis using Cons p fresh False by (auto simp: fun_eq_iff split: option.split)
  qed
qed

lemma for_path_keeps: "for_path li path = (li', explicit) \<Longrightarrow> li' = li\<lparr>ln_severities := ln_severities li'\<rparr>"
  by (auto simp: for_path_def split: option.splits prod.splits)

lemma lint_config_facts:
  assumes "parse_config yl path src = Inr f" "for_path li path = (li', explicit)"
    and "\<forall>r \<in> set (ln_rules li). ru_name r \<noteq> []"
  shows "fst (lint_config lib yl li background path src t) =
    (let c = rule_context lib li' path f;
         findings = all_findings li' c explicit
     in \<lparr>rs_path = path,
         rs_status = (if list_ex (\<lambda>d. at_least (d_severity d) (ln_fail_on li)) findings then StInvalid
           else StValid),
         rs_diagnostics = diag_sort (filter (\<lambda>d. at_least (d_severity d) (ln_min_severity li)) findings),
         rs_skip_reason = [], rs_coverage = Some (lint_coverage li' c), rs_err = None\<rparr>)"
proof -
  have k: "li' = li\<lparr>ln_severities := ln_severities li'\<rparr>" by (rule for_path_keeps [OF assms(2)])
  have keep: "ln_rules li' = ln_rules li" "ln_fail_on li' = ln_fail_on li" "ln_min_severity li' = ln_min_severity li"
    by (subst k, simp)+
  have named: "\<forall>r \<in> set (ln_rules li'). ru_name r \<noteq> []" using assms(3) keep by simp
  show ?thesis
    by (simp add: lint_config_def assms(1,2) Let_def check_rules_background [OF named] add_findings_eq
        sort_result_def result_of_def keep)
qed

text \<open>
  C15: linting a config that parses reports every finding once and nothing else: an error for each
  malformed suppression directive, and what each rule finds at its level, less what a directive on the
  line above silences for that rule. The file is invalid exactly when one of them reaches the failure
  threshold, and the report holds those that reach the minimum severity, in the order of \<open>Sort\<close>.
\<close>

theorem lint_config_exact:
  assumes "parse_config yl path src = Inr f" "for_path li path = (li', explicit)"
    and "\<forall>r \<in> set (ln_rules li). ru_name r \<noteq> []"
  shows "fst (lint_config lib yl li background path src t) =
    (let c = rule_context lib li' path f;
         findings = all_findings li' c explicit
     in \<lparr>rs_path = path,
         rs_status = (if list_ex (\<lambda>d. at_least (d_severity d) (ln_fail_on li)) findings then StInvalid
           else StValid),
         rs_diagnostics = diag_sort (filter (\<lambda>d. at_least (d_severity d) (ln_min_severity li)) findings),
         rs_skip_reason = [], rs_coverage = Some (lint_coverage li' c), rs_err = None\<rparr>)"
  using assms by (rule lint_config_facts)

text \<open>
  A path policy changes the level of the rules the run has left on and cannot turn one back on that
  the run has turned off: such a rule stays off under the policy and reports nothing.
\<close>

theorem policy_never_enables:
  assumes "ln_policy li = Some policy" "distinct (map fst (policy path))" "for_path li path = (li', explicit)"
  shows "severity_for (ln_severities li') r =
      (if ln_severities li (ru_name r) = Some Off then Off
       else case map_of (policy path) (ru_name r) of
           Some s \<Rightarrow> s | None \<Rightarrow> severity_for (ln_severities li) r) \<and>
    (ln_severities li (ru_name r) = Some Off \<longrightarrow> rule_diagnostics li' c explicit r = [])"
proof -
  have l: "ln_severities li' = (\<lambda>n. if ln_severities li n = Some Off then Some Off
      else case map_of (policy path) n of Some s \<Rightarrow> Some s | None \<Rightarrow> ln_severities li n)"
    using assms(1,3) policy_levels_eq [OF assms(2)] by (auto simp: for_path_def split: prod.splits)
  show ?thesis
    by (simp add: l severity_for_def rule_diagnostics_def run_rule_def split: option.split)
qed

text \<open>
  C16: a cancelled run reports nothing it has not finished: whatever moment the context is done, linting a
  file returns what an undisturbed run returns, or the error of the context and no findings at all;
  a context that is done from the start always gives the error.
\<close>

theorem cancelled_lint_discards:
  assumes "run_context asked"
  shows "(fst (lint_file lib yl li fs asked path t) = fst (lint_file lib yl li fs background path t) \<or>
      (\<exists>e u. asked u = Some e \<and> fst (lint_file lib yl li fs asked path t) = error_result path e)) \<and>
    (\<forall>e. asked t = Some e \<longrightarrow> fst (lint_file lib yl li fs asked path t) = error_result path e)"
proof (intro conjI allI impI)
  from run_context.lint_file_ends [OF assms, of path lib yl li fs t]
  show "fst (lint_file lib yl li fs asked path t) = fst (lint_file lib yl li fs background path t) \<or>
      (\<exists>e u. asked u = Some e \<and> fst (lint_file lib yl li fs asked path t) = error_result path e)"
    by (cases rule: endsE) auto
  show "fst (lint_file lib yl li fs asked path t) = error_result path e" if "asked t = Some e" for e
    using that by (simp add: lint_file_def lint_read_def)
qed

subsection \<open>Configs inside ConfigMaps\<close>

declare background_None [simp del]

definition doc_blocks :: "yaml_lib \<Rightarrow> ynode \<Rightarrow> (string \<times> ynode) list" where
  "doc_blocks yl doc =
     (case config_map_data doc of
        None \<Rightarrow> []
      | Some (rt, content) \<Rightarrow>
          map (\<lambda>(key, block). (map_name rt @ ''/'' @ n_value key, block))
            (filter (\<lambda>(key, block). lintable_block yl block) (pairs content)))"

definition block_result :: "go_lib \<Rightarrow> yaml_lib \<Rightarrow> linter \<Rightarrow> string \<Rightarrow> ynode \<Rightarrow> lint_result" where
  "block_result lib yl li path block = fst (lint_config lib yl li background path (n_value block) 0)"

definition merge_blocks :: "go_lib \<Rightarrow> yaml_lib \<Rightarrow> linter \<Rightarrow> string \<Rightarrow> string list \<Rightarrow> (string \<times> ynode) list \<Rightarrow>
    lint_result \<Rightarrow> lint_result" where
  "merge_blocks lib yl li path lines bs res =
     foldl (\<lambda>res (name, b). merge_block lines name b (block_result lib yl li path b) res) res bs"

lemma lint_config_clock:
  "fst (lint_config lib yl li background path src t) = fst (lint_config lib yl li background path src 0)"
  by (auto simp: lint_config_def check_rules_def check_loop_background Let_def background_None split: sum.split prod.split)

lemma lint_config_status:
  "rs_status (block_result lib yl li path b) = StValid \<or> rs_status (block_result lib yl li path b) = StInvalid"
proof (cases "parse_config yl path (n_value b)")
  case (Inl syn)
  then show ?thesis by (simp add: block_result_def lint_config_def result_of_def background_None)
next
  case (Inr f)
  obtain li' explicit where p: "for_path li path = (li', explicit)" by fastforce
  define c where "c = rule_context lib li' path f"
  define res where "res = (result_of path StValid)\<lparr>rs_coverage := Some (lint_coverage li' c)\<rparr>"
  obtain m ds where "suppressions li' (cx_file c) res = (m, add_findings li' ds res)"
    unfolding suppressions_def using suppression_loop_eq [OF comment_map_distinct refl] by blast
  then show ?thesis
    by (simp add: block_result_def lint_config_def Inr p c_def [symmetric] Let_def res_def [symmetric]
        check_rules_def check_loop_background add_findings_eq sort_result_def background_None)
      (simp add: res_def result_of_def)
qed

lemma lint_blocks_background:
  "fst (lint_blocks lib yl li background path lines name bs res t) =
     merge_blocks lib yl li path lines
       (map (\<lambda>(key, block). (name @ ''/'' @ n_value key, block)) (filter (\<lambda>(key, block). lintable_block yl block) bs)) res"
proof (induction bs arbitrary: res t)
  case (Cons b bs)
  obtain key block where b: "b = (key, block)" by fastforce
  obtain r u where c: "lint_config lib yl li background path (n_value block) (t + 1) = (r, u)" by fastforce
  then have r: "r = block_result lib yl li path block"
    using lint_config_clock [of lib yl li path "n_value block" "t + 1"] by (simp add: block_result_def)
  show ?case
  proof (cases "lintable_block yl block")
    case True
    have "lint_blocks lib yl li background path lines name (b # bs) res t =
        lint_blocks lib yl li background path lines name bs
          (merge_block lines (name @ ''/'' @ n_value key) block r res) u"
      unfolding b by (subst lint_blocks.simps) (simp only: background_None True c, simp)
    then show ?thesis by (simp only: Cons.IH) (simp add: merge_blocks_def b True r)
  next
    case False
    have "lint_blocks lib yl li background path lines name (b # bs) res t =
        lint_blocks lib yl li background path lines name bs res (t + 1)"
      unfolding b by (subst lint_blocks.simps) (simp only: background_None False, simp)
    then show ?thesis by (simp only: Cons.IH) (simp add: merge_blocks_def b False)
  qed
qed (simp add: merge_blocks_def)

lemma lint_document_background:
  "fst (lint_document lib yl li background path lines doc res t) =
     merge_blocks lib yl li path lines (doc_blocks yl doc) res"
  by (auto simp: lint_document_def doc_blocks_def lint_blocks_background merge_blocks_def split: option.split)

lemma embedded_loop_background:
  "fst (embedded_loop lib yl li background path lines None docs res t) =
     sort_result (merge_blocks lib yl li path lines (concat (map (doc_blocks yl) docs)) res)"
proof (induction docs arbitrary: res t)
  case Nil
  show ?case by (simp add: embedded_end merge_blocks_def background_None)
next
  case (Cons doc docs)
  obtain r u where d: "lint_document lib yl li background path lines doc res (t + 2) = (r, u)" by fastforce
  then have r: "r = merge_blocks lib yl li path lines (doc_blocks yl doc) res"
    using lint_document_background [of lib yl li path lines doc res "t + 2"] by simp
  have "fst (embedded_loop lib yl li background path lines None (doc # docs) res t) =
      fst (embedded_loop lib yl li background path lines None docs r u)"
    using embedded_step [of background t lib yl li path lines None doc docs res] by (simp only: background_None d prod.case fst_conv)
  then show ?case by (simp only: Cons.IH r) (simp add: merge_blocks_def)
qed

lemma merge_blocks_status:
  "rs_status (merge_blocks lib yl li path lines bs res) =
     (if \<exists>b \<in> snd ` set bs. rs_status (block_result lib yl li path b) = StInvalid then StInvalid
      else if bs \<noteq> [] \<and> rs_status res = StSkipped then StValid else rs_status res)"
proof (induction bs arbitrary: res)
  case (Cons b bs)
  obtain name block where b: "b = (name, block)" by fastforce
  let ?r = "block_result lib yl li path block"
  have st: "rs_status (merge_block lines name block ?r res) =
      (if rs_status res = StSkipped \<or> rs_status ?r = StInvalid then rs_status ?r else rs_status res)"
    by (simp add: merge_block_def Let_def add_coverage_def split: option.split)
  have "merge_blocks lib yl li path lines (b # bs) res =
      merge_blocks lib yl li path lines bs (merge_block lines name block ?r res)"
    by (simp add: merge_blocks_def b)
  then show ?case
    using lint_config_status [of lib yl li path block] by (auto simp: b Cons.IH st)
qed (simp add: merge_blocks_def)

lemma merge_blocks_diagnostics:
  "rs_diagnostics (merge_blocks lib yl li path lines bs res) =
     rs_diagnostics res @
     concat (map (\<lambda>(name, b). map (embed_diagnostic name b (int (block_indent lines b)))
       (rs_diagnostics (block_result lib yl li path b))) bs)"
  by (induction bs arbitrary: res)
    (auto simp: merge_blocks_def merge_block_def Let_def add_coverage_def split: option.split)

text \<open>
  C17: a manifest stream is linted as its blocks are: the result of \<open>--embedded\<close> is skipped when no
  ConfigMap holds a collector config, invalid when a block alone is, and valid otherwise, and its
  report is that of every block linted on its own, moved to the block's place in the file and
  labelled with it, in the order of \<open>Sort\<close>.
\<close>

theorem lint_embedded_exact:
  assumes "ln_embedded li" "yl_stream yl src = (docs, None)"
  shows "rs_status (fst (lint lib yl li background path src t)) =
      (let bs = concat (map (doc_blocks yl) docs) in
       if bs = [] then StSkipped
       else if \<exists>b \<in> snd ` set bs. rs_status (block_result lib yl li path b) = StInvalid then StInvalid
       else StValid) \<and>
    rs_diagnostics (fst (lint lib yl li background path src t)) =
      diag_sort (concat (map (\<lambda>(name, b).
        map (embed_diagnostic name b (int (block_indent (split_on (CHR 0x0A) src) b)))
          (rs_diagnostics (block_result lib yl li path b))) (concat (map (doc_blocks yl) docs))))"
proof -
  have l: "fst (lint lib yl li background path src t) =
      sort_result (merge_blocks lib yl li path (split_on (CHR 0x0A) src) (concat (map (doc_blocks yl) docs))
        (result_of path StSkipped))"
    using assms by (simp add: lint_def lint_embedded_def embedded_loop_background background_None)
  show ?thesis
    unfolding l sort_result_def
    by (simp add: merge_blocks_status merge_blocks_diagnostics result_of_def Let_def)
qed

subsection \<open>Examples\<close>

definition demo_options :: options where
  "demo_options = \<lparr>op_schema = None, op_avail = None, op_dists = None,
     op_rules = Some [service_required], op_severities = Map.empty, op_strict = False,
     op_ignore_missing = False, op_policy = None, op_environment = None, op_min_severity = None,
     op_fail_on = None, op_embedded = True\<rparr>"

definition demo_linter :: linter where
  "demo_linter = new_linter demo_options"

text \<open>A yaml.v3 that reads every text as an empty document, and any stream as one ConfigMap.\<close>

definition demo_config_map :: ynode where
  "demo_config_map = YNode 0 DocumentNode [] [] [y_map [(''kind'', y_str ''ConfigMap''),
     (''metadata'', y_map [(''name'', y_str ''m'')]),
     (''data'', y_map [(''c.yaml'', YNode 0 ScalarNode str_tag ''receivers: {}'' [] None 7 3),
        (''note'', y_int ''1'')])]] None 1 1"

definition demo_yaml :: yaml_lib where
  "demo_yaml = \<lparr>yl_key = (\<lambda>_. None), yl_first = (\<lambda>_. NoDocument), yl_second = (\<lambda>_. NoSecond),
     yl_stream = (\<lambda>_. ([demo_config_map], None)),
     yl_unmarshal = (\<lambda>_. Some (YNode 0 DocumentNode [] [] [y_map [(''receivers'', y_map [])]] None 1 1)),
     yl_marshal = (\<lambda>_. None), yl_literal = (\<lambda>n. n_tag n = str_tag)\<rparr>"

lemma demo_parse: "parse_config demo_yaml path src = Inr (empty_file path)"
  by (simp add: parse_config_def demo_yaml_def parse_def)

lemma demo_for_path: "for_path demo_linter path = (demo_linter, [])"
  by (simp add: for_path_def demo_linter_def new_linter_def demo_options_def)

lemma demo_rules: "ln_rules demo_linter = [service_required]"
  by (simp add: demo_linter_def new_linter_def demo_options_def)

lemma demo_findings:
  "map (\<lambda>d. (d_rule d, d_severity d)) (all_findings demo_linter (rule_context demo_lib demo_linter path (empty_file path)) []) =
     [(''service-required'', Error)]"
proof -
  have "ln_severities demo_linter = Map.empty"
    by (simp add: demo_linter_def new_linter_def demo_options_def new_severities_def)
  then show ?thesis
    by (simp add: all_findings_def directive_errors_def comment_map_def empty_file_def empty_service_def
        rule_diagnostics_def run_rule_def demo_rules service_required_def new_rule_def rule_context_def
        service_required_check_def is_expansion_def severity_for_def lint_finding_def report_def
        silenced_def finding_at_def)
qed

lemma demo_levels: "ln_fail_on demo_linter = Error" "ln_min_severity demo_linter = Info" "ln_embedded demo_linter"
  by (simp_all add: demo_linter_def new_linter_def demo_options_def)

lemma demo_named: "\<forall>r \<in> set (ln_rules demo_linter). ru_name r \<noteq> []"
  by (simp add: demo_rules rule_defs)

lemma demo_finding:
  obtains d where
    "all_findings demo_linter (rule_context demo_lib demo_linter path (empty_file path)) [] = [d]"
    "d_rule d = ''service-required''" "d_severity d = Error"
proof -
  let ?fs = "all_findings demo_linter (rule_context demo_lib demo_linter path (empty_file path)) []"
  show ?thesis using that demo_findings [of path] by (cases ?fs) auto
qed

lemma lint_config_exact_witness:
  "rs_status (fst (lint_config demo_lib demo_yaml demo_linter background ''c'' ''x'' 0)) = StInvalid \<and>
   map d_rule (rs_diagnostics (fst (lint_config demo_lib demo_yaml demo_linter background ''c'' ''x'' 0))) =
     [''service-required'']"
proof (rule demo_finding [of "''c''"])
  fix d
  assume "all_findings demo_linter (rule_context demo_lib demo_linter ''c'' (empty_file ''c'')) [] = [d]"
    "d_rule d = ''service-required''" "d_severity d = Error"
  then show ?thesis
    using lint_config_exact [OF demo_parse [of "''c''" "''x''"] demo_for_path [of "''c''"] demo_named, of demo_lib 0]
    by (simp add: Let_def demo_levels at_least_error diag_sort_def sort_slice_def) (simp add: at_least_def)
qed

definition demo_policy_linter :: linter where
  "demo_policy_linter = new_linter (demo_options\<lparr>op_severities := [''service-required'' \<mapsto> Off],
     op_policy := Some (\<lambda>_. [(''service-required'', Error), (''empty-pipeline'', Warning)])\<rparr>)"

lemma policy_never_enables_witness:
  "severity_for (ln_severities (fst (for_path demo_policy_linter ''c''))) service_required = Off \<and>
   severity_for (ln_severities (fst (for_path demo_policy_linter ''c''))) empty_pipeline = Warning"
proof -
  have l: "ln_policy demo_policy_linter = Some (\<lambda>_. [(''service-required'', Error), (''empty-pipeline'', Warning)])"
    "ln_severities demo_policy_linter = [''service-required'' \<mapsto> Off]"
    by (simp_all add: demo_policy_linter_def new_linter_def demo_options_def new_severities_def)
  have dist: "distinct (map fst ((\<lambda>_. [(''service-required'', Error), (''empty-pipeline'', Warning)]) ''c''))" by simp
  obtain li' explicit where p: "for_path demo_policy_linter ''c'' = (li', explicit)" by fastforce
  note ex = policy_never_enables [OF l(1) dist p]
  show ?thesis using ex [of service_required] ex [of empty_pipeline] by (simp add: p l(2) rule_defs)
qed

lemma cancelled_lint_discards_witness:
  "fst (lint_file demo_lib demo_yaml demo_linter (\<lambda>_. Inr ''x'') (cancelled_from 0 ''context canceled'') ''c'' 3) =
     error_result ''c'' ''context canceled''"
proof -
  have "run_context (cancelled_from 0 ''context canceled'')" by (rule cf.run_context_axioms)
  from cancelled_lint_discards [OF this, of demo_lib demo_yaml demo_linter "\<lambda>_. Inr ''x''" "''c''" 3]
  show ?thesis by (simp add: cancelled_from_def)
qed

lemma demo_blocks:
  "map (\<lambda>(name, b). (name, n_line b)) (doc_blocks demo_yaml demo_config_map) = [(''m/c.yaml'', 7)]"
  by code_simp

lemma lint_embedded_exact_witness:
  "rs_status (fst (lint demo_lib demo_yaml demo_linter background ''c'' ''x'' 0)) = StInvalid"
proof (rule demo_finding [of "''c''"])
  fix d
  assume d: "all_findings demo_linter (rule_context demo_lib demo_linter ''c'' (empty_file ''c'')) [] = [d]"
    "d_severity d = Error"
  have s: "yl_stream demo_yaml ''x'' = ([demo_config_map], None)" by (simp add: demo_yaml_def)
  obtain name b where b: "doc_blocks demo_yaml demo_config_map = [(name, b)]"
    using demo_blocks by (cases "doc_blocks demo_yaml demo_config_map") auto
  have "rs_status (block_result demo_lib demo_yaml demo_linter ''c'' b) = StInvalid"
    unfolding block_result_def
    using lint_config_facts [OF demo_parse demo_for_path demo_named, of demo_lib "''c''" "n_value b" 0] d
    by (simp add: Let_def demo_levels at_least_error)
  then show ?thesis
    using lint_embedded_exact [OF demo_levels(3) s, of demo_lib "''c''" 0] b by (simp add: Let_def)
qed

end
