(* ===== verification/LintAll.thy ===== *)
theory LintAll
  imports Linter
begin

section \<open>Linting many files at once\<close>

text \<open>
  \<open>LintAll\<close> of \<open>pkg/lint/linter.go\<close>: one goroutine deals the indices of the paths out over an unbuffered
  channel, \<open>n\<close> workers take them and write each result at its own index. The model is a step relation:
  a step is one action of the dispatcher or of one worker, or the context becoming done. Which worker
  is ready, which of two ready branches of the \<open>select\<close> is taken and when the context is done is
  not determined, so what is proved holds for every schedule. A worker's call of \<open>LintFile\<close> is one step:
  it reads no state another goroutine writes. What it returns is \<open>outcome i\<close>, unless the context is
  done by then, when it may be anything (its error, for one).
\<close>

subsection \<open>The state and its steps\<close>

datatype dispatcher = Checking nat | Sending nat | Closed

datatype worker = Ready | Received nat | Linting nat | Stopped

record 'r pool =
  pl_dispatcher :: dispatcher
  pl_workers :: "worker list"
  pl_results :: "'r option list"
  pl_done :: bool

text \<open>\<open>n = min(max(n, 1), len(paths))\<close>\<close>

definition worker_count :: "int \<Rightarrow> nat \<Rightarrow> nat" where
  "worker_count n len = nat (min (max n 1) (int len))"

definition start_pool :: "int \<Rightarrow> nat \<Rightarrow> 'r pool" where
  "start_pool n len =
     \<lparr>pl_dispatcher = Checking 0, pl_workers = replicate (worker_count n len) Ready,
      pl_results = replicate len None, pl_done = False\<rparr>"

definition set_worker :: "nat \<Rightarrow> worker \<Rightarrow> 'r pool \<Rightarrow> 'r pool" where
  "set_worker w x p = p\<lparr>pl_workers := (pl_workers p)[w := x]\<rparr>"

inductive pool_step :: "(nat \<Rightarrow> 'r) \<Rightarrow> 'r pool \<Rightarrow> 'r pool \<Rightarrow> bool" for outcome :: "nat \<Rightarrow> 'r" where
  cancel: "\<not> pl_done p \<Longrightarrow> pool_step outcome p (p\<lparr>pl_done := True\<rparr>)"
| next_path: "pl_dispatcher p = Checking i \<Longrightarrow> i < length (pl_results p) \<Longrightarrow> \<not> pl_done p \<Longrightarrow>
    pool_step outcome p (p\<lparr>pl_dispatcher := Sending i\<rparr>)"
| stop_dispatch: "pl_dispatcher p = Checking i \<Longrightarrow> i < length (pl_results p) \<Longrightarrow> pl_done p \<Longrightarrow>
    pool_step outcome p (p\<lparr>pl_dispatcher := Closed\<rparr>)"
| all_dispatched: "pl_dispatcher p = Checking i \<Longrightarrow> length (pl_results p) \<le> i \<Longrightarrow>
    pool_step outcome p (p\<lparr>pl_dispatcher := Closed\<rparr>)"
| send: "pl_dispatcher p = Sending i \<Longrightarrow> w < length (pl_workers p) \<Longrightarrow> pl_workers p ! w = Ready \<Longrightarrow>
    pool_step outcome p (set_worker w (Received i) (p\<lparr>pl_dispatcher := Checking (i + 1)\<rparr>))"
| abandon: "pl_dispatcher p = Sending i \<Longrightarrow> pl_done p \<Longrightarrow>
    pool_step outcome p (p\<lparr>pl_dispatcher := Closed\<rparr>)"
| begin_lint: "w < length (pl_workers p) \<Longrightarrow> pl_workers p ! w = Received i \<Longrightarrow> \<not> pl_done p \<Longrightarrow>
    pool_step outcome p (set_worker w (Linting i) p)"
| give_up: "w < length (pl_workers p) \<Longrightarrow> pl_workers p ! w = Received i \<Longrightarrow> pl_done p \<Longrightarrow>
    pool_step outcome p (set_worker w Stopped p)"
| finish: "w < length (pl_workers p) \<Longrightarrow> pl_workers p ! w = Linting i \<Longrightarrow> r = outcome i \<or> pl_done p \<Longrightarrow>
    pool_step outcome p (set_worker w Ready (p\<lparr>pl_results := (pl_results p)[i := Some r]\<rparr>))"
| drained: "w < length (pl_workers p) \<Longrightarrow> pl_workers p ! w = Ready \<Longrightarrow> pl_dispatcher p = Closed \<Longrightarrow>
    pool_step outcome p (set_worker w Stopped p)"

text \<open>
  \<open>workers.Wait()\<close> returns when every worker has stopped; the call then answers the results, or an
  error when the context is done. A result no worker wrote is the zero value of \<open>Result\<close>, here \<^term>\<open>None\<close>.
\<close>

definition finished :: "'r pool \<Rightarrow> bool" where
  "finished p \<longleftrightarrow> pl_dispatcher p = Closed \<and> list_all (\<lambda>x. x = Stopped) (pl_workers p)"

definition answer :: "'r pool \<Rightarrow> 'r option list option" where
  "answer p = (if pl_done p then None else Some (pl_results p))"

inductive pool_reachable :: "(nat \<Rightarrow> 'r) \<Rightarrow> int \<Rightarrow> nat \<Rightarrow> 'r pool \<Rightarrow> bool" for outcome n len where
  start: "pool_reachable outcome n len (start_pool n len)"
| step: "pool_reachable outcome n len p \<Longrightarrow> pool_step outcome p q \<Longrightarrow> pool_reachable outcome n len q"

subsection \<open>The invariant\<close>

text \<open>
  The indices below \<open>dispatched\<close> are each with one worker or have their result; nothing is lost while the
  context lives, and a worker stops early only when the context is done or the channel is closed.
\<close>

definition dispatched :: "'r pool \<Rightarrow> nat" where
  "dispatched p = (case pl_dispatcher p of Checking i \<Rightarrow> i | Sending i \<Rightarrow> i | Closed \<Rightarrow> length (pl_results p))"

definition holds :: "worker \<Rightarrow> nat \<Rightarrow> bool" where
  "holds x i \<longleftrightarrow> x = Received i \<or> x = Linting i"

definition pool_ok :: "(nat \<Rightarrow> 'r) \<Rightarrow> int \<Rightarrow> nat \<Rightarrow> 'r pool \<Rightarrow> bool" where
  "pool_ok outcome n len p \<longleftrightarrow>
     length (pl_results p) = len \<and> length (pl_workers p) = worker_count n len \<and> dispatched p \<le> len \<and>
     (\<forall>i. pl_dispatcher p = Sending i \<longrightarrow> i < len) \<and>
     (\<forall>x \<in> set (pl_workers p). \<forall>i. holds x i \<longrightarrow> i < len) \<and>
     (\<not> pl_done p \<longrightarrow>
       (\<forall>i < dispatched p. pl_results p ! i = Some (outcome i) \<or> (\<exists>x \<in> set (pl_workers p). holds x i)) \<and>
       (Stopped \<in> set (pl_workers p) \<longrightarrow> pl_dispatcher p = Closed))"

lemma worker_count_pos: "0 < len \<Longrightarrow> 0 < worker_count n len"
  by (simp add: worker_count_def)

lemma set_worker_simps [simp]:
  "pl_dispatcher (set_worker w x p) = pl_dispatcher p"
  "pl_results (set_worker w x p) = pl_results p"
  "pl_done (set_worker w x p) = pl_done p"
  "pl_workers (set_worker w x p) = (pl_workers p)[w := x]"
  by (simp_all add: set_worker_def)

lemma holds_simps [simp]:
  "holds Ready i \<longleftrightarrow> False" "holds Stopped i \<longleftrightarrow> False"
  "holds (Received j) i \<longleftrightarrow> i = j" "holds (Linting j) i \<longleftrightarrow> i = j"
  by (auto simp: holds_def)

lemma holder_nth: "(\<exists>y \<in> set ws. holds y i) \<longleftrightarrow> (\<exists>v < length ws. holds (ws ! v) i)"
  by (auto simp: in_set_conv_nth Bex_def)

lemma pool_ok_start: "pool_ok outcome n len (start_pool n len)"
  by (auto simp: pool_ok_def start_pool_def dispatched_def)

text \<open>The part of the invariant that only matters while the context lives.\<close>

definition covered_below :: "(nat \<Rightarrow> 'r) \<Rightarrow> 'r pool \<Rightarrow> nat \<Rightarrow> bool" where
  "covered_below outcome p k \<longleftrightarrow>
     (\<forall>i < k. pl_results p ! i = Some (outcome i) \<or> (\<exists>v < length (pl_workers p). holds (pl_workers p ! v) i))"

definition nobody_stopped :: "'r pool \<Rightarrow> bool" where
  "nobody_stopped p \<longleftrightarrow> (\<forall>v < length (pl_workers p). pl_workers p ! v \<noteq> Stopped)"

lemma pool_ok_iff:
  "pool_ok outcome n len p \<longleftrightarrow>
     length (pl_results p) = len \<and> length (pl_workers p) = worker_count n len \<and> dispatched p \<le> len \<and>
     (\<forall>i. pl_dispatcher p = Sending i \<longrightarrow> i < len) \<and>
     (\<forall>v < length (pl_workers p). \<forall>i. holds (pl_workers p ! v) i \<longrightarrow> i < len) \<and>
     (\<not> pl_done p \<longrightarrow> covered_below outcome p (dispatched p) \<and>
        (nobody_stopped p \<or> pl_dispatcher p = Closed))"
  unfolding pool_ok_def covered_below_def nobody_stopped_def holder_nth [symmetric]
  by (auto simp: in_set_conv_nth Ball_def)

lemma covered_update:
  assumes "covered_below outcome p k" "w < length (pl_workers p)"
    and "\<And>i. holds (pl_workers p ! w) i \<Longrightarrow> i < k \<Longrightarrow> holds x i"
  shows "covered_below outcome (set_worker w x p) k"
  using assms unfolding covered_below_def
  by (metis (no_types, lifting) length_list_update nth_list_update_eq nth_list_update_neq set_worker_simps(2,4))

lemma bound_update:
  assumes "\<forall>v < length ws. \<forall>i. holds (ws ! v) i \<longrightarrow> i < len" "\<And>i. holds x i \<Longrightarrow> i < len"
  shows "\<forall>v < length (ws[w := x]). \<forall>i. holds (ws[w := x] ! v) i \<longrightarrow> i < len"
proof (intro allI impI)
  fix v i
  assume "v < length (ws[w := x])" "holds (ws[w := x] ! v) i"
  then show "i < len" using assms by (cases "v = w") auto
qed

lemma nobody_update: "nobody_stopped p \<Longrightarrow> x \<noteq> Stopped \<Longrightarrow> nobody_stopped (set_worker w x p)"
  by (metis length_list_update nobody_stopped_def nth_list_update_eq nth_list_update_neq set_worker_simps(4))

lemma dispatched_set_worker [simp]: "dispatched (set_worker w x p) = dispatched p"
  by (simp add: dispatched_def split: dispatcher.split)

text \<open>A move of one worker that gives up no index keeps the invariant.\<close>

lemma pool_ok_worker:
  assumes "pool_ok outcome n len p" "w < length (pl_workers p)"
    and "\<And>i. holds x i \<Longrightarrow> holds (pl_workers p ! w) i"
    and "\<not> pl_done p \<Longrightarrow> (\<forall>i. holds (pl_workers p ! w) i \<longrightarrow> holds x i) \<and> (x = Stopped \<longrightarrow> pl_dispatcher p = Closed)"
  shows "pool_ok outcome n len (set_worker w x p)"
  using assms unfolding pool_ok_iff
  by (auto intro: covered_update nobody_update simp: nth_list_update)

lemma pool_step_ok: "pool_step outcome p q \<Longrightarrow> pool_ok outcome n len p \<Longrightarrow> pool_ok outcome n len q"
proof (induction rule: pool_step.induct)
  case (send p i w)
  let ?p = "p\<lparr>pl_dispatcher := Checking (i + 1)\<rparr>"
  have bounds: "i < len" "dispatched p = i" and inv: "length (pl_results p) = len"
    "length (pl_workers p) = worker_count n len"
    "\<forall>v < length (pl_workers p). \<forall>i. holds (pl_workers p ! v) i \<longrightarrow> i < len"
    "\<not> pl_done p \<Longrightarrow> covered_below outcome p i \<and> nobody_stopped p"
    using send by (auto simp: pool_ok_iff dispatched_def)
  have "covered_below outcome (set_worker w (Received i) ?p) (i + 1)" if "covered_below outcome p i"
  proof -
    have "covered_below outcome (set_worker w (Received i) ?p) i"
      using that send.hyps by (intro covered_update) (auto simp: covered_below_def)
    moreover have "\<exists>v < length (pl_workers (set_worker w (Received i) ?p)).
        holds (pl_workers (set_worker w (Received i) ?p) ! v) i"
      using send.hyps by (intro exI [of _ w]) simp
    ultimately show ?thesis by (auto simp: covered_below_def less_Suc_eq)
  qed
  moreover have "nobody_stopped (set_worker w (Received i) ?p)" if "nobody_stopped p"
    using that by (intro nobody_update) (simp_all add: nobody_stopped_def)
  ultimately show ?case
    using inv bounds bound_update [OF inv(3), of "Received i" w]
    by (simp add: pool_ok_iff dispatched_def)
next
  case (finish w p i r)
  let ?p = "p\<lparr>pl_results := (pl_results p)[i := Some r]\<rparr>"
  have inv: "length (pl_results p) = len" "length (pl_workers p) = worker_count n len" "dispatched p \<le> len"
    "\<forall>i. pl_dispatcher p = Sending i \<longrightarrow> i < len"
    "\<forall>v < length (pl_workers p). \<forall>i. holds (pl_workers p ! v) i \<longrightarrow> i < len"
    "\<not> pl_done p \<Longrightarrow> covered_below outcome p (dispatched p) \<and> (nobody_stopped p \<or> pl_dispatcher p = Closed)"
    and i: "i < len"
    using finish by (auto simp: pool_ok_iff)
  have d: "dispatched ?p = dispatched p" by (simp add: dispatched_def split: dispatcher.split)
  have "covered_below outcome (set_worker w Ready ?p) k" if c: "covered_below outcome p k" and "k \<le> len" "r = outcome i" for k
    unfolding covered_below_def
  proof (intro allI impI)
    fix j
    assume "j < k"
    show "pl_results (set_worker w Ready ?p) ! j = Some (outcome j) \<or>
        (\<exists>v < length (pl_workers (set_worker w Ready ?p)). holds (pl_workers (set_worker w Ready ?p) ! v) j)"
    proof (cases "j = i")
      case True
      then show ?thesis using that(3) i inv(1) by simp
    next
      case False
      consider "pl_results p ! j = Some (outcome j)" | v where "v < length (pl_workers p)" "holds (pl_workers p ! v) j"
        using c \<open>j < k\<close> by (auto simp: covered_below_def)
      then show ?thesis
      proof cases
        case 1
        then show ?thesis using False by simp
      next
        case (2 v)
        then have "v \<noteq> w" using finish.hyps(2) False by auto
        then show ?thesis using 2 by auto
      qed
    qed
  qed
  moreover have "nobody_stopped (set_worker w Ready ?p)" if "nobody_stopped p"
    using that by (intro nobody_update) (simp_all add: nobody_stopped_def)
  ultimately show ?case
    using inv i finish.hyps(3) bound_update [OF inv(5), of Ready w] by (auto simp: pool_ok_iff d)
next
  case (begin_lint w p i)
  then show ?case by (intro pool_ok_worker) auto
next
  case (give_up w p i)
  then show ?case by (intro pool_ok_worker) auto
next
  case (drained w p)
  then show ?case by (intro pool_ok_worker) auto
qed (auto simp: pool_ok_iff dispatched_def covered_below_def nobody_stopped_def split: dispatcher.splits)

lemma pool_reachable_ok: "pool_reachable outcome n len p \<Longrightarrow> pool_ok outcome n len p"
  by (induction rule: pool_reachable.induct) (auto intro: pool_ok_start pool_step_ok)

subsection \<open>Results, progress and termination\<close>

lemma finished_answer:
  assumes "pool_ok outcome n len p" "finished p"
  shows "answer p = None \<or> answer p = Some (map (\<lambda>i. Some (outcome i)) [0..<len])"
proof (cases "pl_done p")
  case False
  have "holds (pl_workers p ! v) i \<longleftrightarrow> False" if "v < length (pl_workers p)" for v i
    using assms(2) that by (simp add: finished_def list_all_length)
  then have "\<forall>i < len. pl_results p ! i = Some (outcome i)"
    using assms False by (auto simp: pool_ok_iff covered_below_def finished_def dispatched_def)
  then have "pl_results p = map (\<lambda>i. Some (outcome i)) [0..<len]"
    using assms(1) by (auto simp: pool_ok_iff intro: nth_equalityI)
  then show ?thesis by (simp add: answer_def)
qed (simp add: answer_def)

lemma exI2: "P x \<Longrightarrow> Q x \<Longrightarrow> \<exists>x. P x \<and> Q x"
  by blast

lemma worker_moves:
  assumes "w < length (pl_workers p)" "pl_workers p ! w \<noteq> Stopped"
    and "pl_workers p ! w = Ready \<Longrightarrow> pl_dispatcher p = Closed \<or> (\<exists>i. pl_dispatcher p = Sending i)"
  shows "\<exists>q. pool_step outcome p q \<and> pl_done q = pl_done p"
proof (cases "pl_workers p ! w")
  case Ready
  then consider "pl_dispatcher p = Closed" | i where "pl_dispatcher p = Sending i" using assms(3) by blast
  then show ?thesis
  proof cases
    case 1
    then show ?thesis using drained [OF assms(1) Ready] set_worker_simps(3) by blast
  next
    case (2 i)
    from send [OF 2 assms(1) Ready] show ?thesis by (rule exI2) simp
  qed
next
  case (Received i)
  then show ?thesis
    using begin_lint [OF assms(1) Received] give_up [OF assms(1) Received] set_worker_simps(3) by (metis (full_types))
next
  case (Linting i)
  have "pool_step outcome p (set_worker w Ready (p\<lparr>pl_results := (pl_results p)[i := Some (outcome i)]\<rparr>))"
    by (rule finish [OF assms(1) Linting]) simp
  then show ?thesis by (rule exI2) simp
qed (use assms(2) in simp)

lemma pool_progress:
  assumes "pool_ok outcome n len p" "\<not> finished p"
  shows "\<exists>q. pool_step outcome p q \<and> pl_done q = pl_done p"
proof (cases "pl_dispatcher p")
  case (Checking i)
  have "pool_step outcome p (p\<lparr>pl_dispatcher := Sending i\<rparr>) \<or> pool_step outcome p (p\<lparr>pl_dispatcher := Closed\<rparr>)"
    using next_path [OF Checking] stop_dispatch [OF Checking] all_dispatched [OF Checking] by (meson not_less)
  then show ?thesis by force
next
  case (Sending i)
  show ?thesis
  proof (cases "pl_done p")
    case True
    then have "pool_step outcome p (p\<lparr>pl_dispatcher := Closed\<rparr>)" by (rule abandon [OF Sending])
    then show ?thesis by force
  next
    case False
    have "0 < length (pl_workers p)" "pl_workers p ! 0 \<noteq> Stopped"
      using assms(1) Sending False worker_count_pos [of len n] by (auto simp: pool_ok_iff nobody_stopped_def)
    then show ?thesis using Sending by (intro worker_moves [of 0]) auto
  qed
next
  case Closed
  then obtain w where "w < length (pl_workers p)" "pl_workers p ! w \<noteq> Stopped"
    using assms(2) by (auto simp: finished_def list_all_length)
  then show ?thesis using Closed by (intro worker_moves [of w]) auto
qed

fun worker_work :: "worker \<Rightarrow> nat" where
  "worker_work (Received i) = 3"
| "worker_work (Linting i) = 2"
| "worker_work Ready = 1"
| "worker_work Stopped = 0"

definition pool_work :: "nat \<Rightarrow> 'r pool \<Rightarrow> nat" where
  "pool_work len p =
     (case pl_dispatcher p of Checking i \<Rightarrow> 4 * (len - i) + 1 | Sending i \<Rightarrow> 4 * (len - i) | Closed \<Rightarrow> 0) +
     sum_list (map worker_work (pl_workers p)) + (if pl_done p then 0 else 1)"

lemma work_update:
  "w < length ws \<Longrightarrow>
   sum_list (map worker_work (ws[w := x])) + worker_work (ws ! w) = sum_list (map worker_work ws) + worker_work x"
  by (induction ws arbitrary: w) (auto simp: nth_Cons split: nat.split)

lemma pool_step_work:
  "pool_step outcome p q \<Longrightarrow> pool_ok outcome n len p \<Longrightarrow> pool_work len q < pool_work len p"
proof (induction rule: pool_step.induct)
  case (send p i w)
  then show ?case
    using work_update [of w "pl_workers p" "Received i"] by (auto simp: pool_work_def pool_ok_iff)
next
  case (begin_lint w p i)
  then show ?case
    using work_update [of w "pl_workers p" "Linting i"] by (auto simp: pool_work_def)
next
  case (give_up w p i)
  then show ?case
    using work_update [of w "pl_workers p" Stopped] by (auto simp: pool_work_def)
next
  case (finish w p i r)
  then show ?case
    using work_update [of w "pl_workers p" Ready] by (auto simp: pool_work_def)
next
  case (drained w p)
  then show ?case
    using work_update [of w "pl_workers p" Stopped] by (auto simp: pool_work_def)
qed (auto simp: pool_work_def pool_ok_iff)

lemma pool_steps_work:
  "(pool_step outcome ^^ k) p q \<Longrightarrow> pool_ok outcome n len p \<Longrightarrow>
   pool_ok outcome n len q \<and> pool_work len q + k \<le> pool_work len p"
proof (induction k arbitrary: q)
  case 0
  then show ?case by simp
next
  case (Suc k)
  from Suc.prems(1) obtain r where r: "(pool_step outcome ^^ k) p r" "pool_step outcome r q" by auto
  then have "pool_ok outcome n len r" "pool_work len r + k \<le> pool_work len p"
    using Suc.IH Suc.prems(2) by blast+
  then show ?case using pool_step_work [OF r(2)] pool_step_ok [OF r(2)] by fastforce
qed

lemma pool_can_finish:
  "pool_ok outcome n len p \<Longrightarrow> \<exists>k q. (pool_step outcome ^^ k) p q \<and> finished q \<and> pl_done q = pl_done p"
proof (induction "pool_work len p" arbitrary: p rule: less_induct)
  case less
  show ?case
  proof (cases "finished p")
    case True
    then show ?thesis by (intro exI [of _ 0] exI [of _ p]) simp
  next
    case False
    then obtain q where q: "pool_step outcome p q" "pl_done q = pl_done p"
      using pool_progress less.prems by blast
    then obtain k r where "(pool_step outcome ^^ k) q r" "finished r" "pl_done r = pl_done q"
      using less.hyps pool_step_work [OF q(1) less.prems] pool_step_ok [OF q(1) less.prems] by blast
    moreover from this have "(pool_step outcome ^^ Suc k) p r" using relpowp_Suc_I2 [of "pool_step outcome", OF q(1)] by blast
    ultimately show ?thesis using q(2) by metis
  qed
qed

text \<open>
  C19: no schedule of \<open>LintAll\<close> deadlocks or runs for ever: from every reachable state the dispatcher and
  the workers can go on to the end without the context having to be done, every schedule from it has at
  most \<open>pool_work\<close> steps, and a state nobody can leave but by cancelling is one where all have stopped.
\<close>

theorem lint_all_terminates:
  assumes "pool_reachable outcome n len p"
  shows "(\<exists>k q. (pool_step outcome ^^ k) p q \<and> finished q \<and> pl_done q = pl_done p) \<and>
    (\<forall>k q. (pool_step outcome ^^ k) p q \<longrightarrow> k \<le> pool_work len p) \<and>
    ((\<forall>q. pool_step outcome p q \<longrightarrow> pl_done q \<and> \<not> pl_done p) \<longrightarrow> finished p)"
proof -
  have ok: "pool_ok outcome n len p" by (rule pool_reachable_ok [OF assms])
  show ?thesis
    using pool_can_finish [OF ok] pool_steps_work [OF _ ok] pool_progress [OF ok]
    by (metis add_leD2)
qed

subsection \<open>What LintAll returns\<close>

inductive lint_all_returns :: "go_lib \<Rightarrow> yaml_lib \<Rightarrow> linter \<Rightarrow> (string \<Rightarrow> string go_result) \<Rightarrow> string list \<Rightarrow> int \<Rightarrow>
    lint_result option list option \<Rightarrow> bool" for lib yl li fs where
  already_done: "lint_all_returns lib yl li fs paths n None"
| no_paths: "lint_all_returns lib yl li fs [] n (Some [])"
| pooled: "paths \<noteq> [] \<Longrightarrow>
    pool_reachable (\<lambda>i. fst (lint_file lib yl li fs background (paths ! i) 0)) n (length paths) p \<Longrightarrow>
    finished p \<Longrightarrow> lint_all_returns lib yl li fs paths n (answer p)"

lemma lint_all_answer:
  assumes "lint_all_returns lib yl li fs paths n r"
  shows "r = None \<or> r = Some (map (\<lambda>path. Some (fst (lint_file lib yl li fs background path 0))) paths)"
  using assms
proof (cases rule: lint_all_returns.cases)
  case (pooled p)
  let ?f = "\<lambda>path. Some (fst (lint_file lib yl li fs background path 0))"
  have "map (\<lambda>i. ?f (paths ! i)) [0..<length paths] = map ?f paths"
    by (rule nth_equalityI) simp_all
  then show ?thesis
    using finished_answer [OF pool_reachable_ok [OF pooled(3)] pooled(4)] pooled(1) by simp
qed simp_all

text \<open>
  C18: however many workers there are and however they are scheduled, \<open>LintAll\<close> returns an error because the
  context was done, or exactly one result for each path, in the order of the paths, and each is what
  linting that file alone returns.
\<close>

theorem lint_all_results:
  assumes "lint_all_returns lib yl li fs paths n r"
  shows "r = None \<or> r = Some (map (\<lambda>path. Some (fst (lint_file lib yl li fs background path 0))) paths)"
  by (rule lint_all_answer [OF assms])

subsection \<open>A schedule\<close>

lemma demo_schedule:
  "pool_reachable outcome 4 1
     \<lparr>pl_dispatcher = Closed, pl_workers = [Stopped], pl_results = [Some (outcome 0)], pl_done = False\<rparr>"
proof -
  have 0: "start_pool 4 1 = \<lparr>pl_dispatcher = Checking 0, pl_workers = [Ready], pl_results = [None], pl_done = False\<rparr>"
    by (simp add: start_pool_def worker_count_def)
  let ?p = "\<lparr>pl_dispatcher = Checking 0, pl_workers = [Ready], pl_results = [None], pl_done = False\<rparr>"
  have "pool_step outcome ?p
      \<lparr>pl_dispatcher = Sending 0, pl_workers = [Ready], pl_results = [None], pl_done = False\<rparr>"
    using next_path [of ?p 0 outcome] by (simp add: set_worker_def)
  note s1 = pool_reachable.step [OF start [of outcome 4 1, unfolded 0] this]
  let ?p = "\<lparr>pl_dispatcher = Sending 0, pl_workers = [Ready], pl_results = [None], pl_done = False\<rparr>"
  have "pool_step outcome ?p
      \<lparr>pl_dispatcher = Checking 1, pl_workers = [Received 0], pl_results = [None], pl_done = False\<rparr>"
    using send [of ?p 0 0 outcome] by (simp add: set_worker_def)
  note s2 = pool_reachable.step [OF s1 this]
  let ?p = "\<lparr>pl_dispatcher = Checking 1, pl_workers = [Received 0], pl_results = [None], pl_done = False\<rparr>"
  have "pool_step outcome ?p
      \<lparr>pl_dispatcher = Checking 1, pl_workers = [Linting 0], pl_results = [None], pl_done = False\<rparr>"
    using begin_lint [of 0 ?p 0 outcome] by (simp add: set_worker_def)
  note s3 = pool_reachable.step [OF s2 this]
  let ?p = "\<lparr>pl_dispatcher = Checking 1, pl_workers = [Linting 0], pl_results = [None], pl_done = False\<rparr>"
  have "pool_step outcome ?p
      \<lparr>pl_dispatcher = Checking 1, pl_workers = [Ready], pl_results = [Some (outcome 0)], pl_done = False\<rparr>"
    using finish [of 0 ?p 0 "outcome 0" outcome] by (simp add: set_worker_def)
  note s4 = pool_reachable.step [OF s3 this]
  let ?p = "\<lparr>pl_dispatcher = Checking 1, pl_workers = [Ready], pl_results = [Some (outcome 0)], pl_done = False\<rparr>"
  have "pool_step outcome ?p
      \<lparr>pl_dispatcher = Closed, pl_workers = [Ready], pl_results = [Some (outcome 0)], pl_done = False\<rparr>"
    using all_dispatched [of ?p 1 outcome] by (simp add: set_worker_def)
  note s5 = pool_reachable.step [OF s4 this]
  let ?p = "\<lparr>pl_dispatcher = Closed, pl_workers = [Ready], pl_results = [Some (outcome 0)], pl_done = False\<rparr>"
  have "pool_step outcome ?p
      \<lparr>pl_dispatcher = Closed, pl_workers = [Stopped], pl_results = [Some (outcome 0)], pl_done = False\<rparr>"
    using drained [of 0 ?p outcome] by (simp add: set_worker_def)
  from pool_reachable.step [OF s5 this] show ?thesis .
qed

lemma lint_all_terminates_witness:
  "\<exists>k q. (pool_step (\<lambda>i. i + 7) ^^ k) (start_pool 2 3) q \<and> finished q \<and> \<not> pl_done q"
  using lint_all_terminates [OF pool_reachable.start [of "\<lambda>i. i + 7" 2 3]] by (auto simp: start_pool_def)

lemma lint_all_results_witness:
  "lint_all_returns demo_lib demo_yaml demo_linter (\<lambda>_. Inr ''x'') [''c''] 4
     (Some [Some (fst (lint_file demo_lib demo_yaml demo_linter (\<lambda>_. Inr ''x'') background ''c'' 0))])"
proof -
  let ?p = "\<lparr>pl_dispatcher = Closed, pl_workers = [Stopped],
    pl_results = [Some (fst (lint_file demo_lib demo_yaml demo_linter (\<lambda>_. Inr ''x'') background ([''c''] ! 0) 0))],
    pl_done = False\<rparr>"
  have r: "lint_all_returns demo_lib demo_yaml demo_linter (\<lambda>_. Inr ''x'') [''c''] 4 (answer ?p)"
    by (rule pooled) (simp_all add: demo_schedule [of "\<lambda>i. fst (lint_file demo_lib demo_yaml demo_linter (\<lambda>_. Inr ''x'') background ([''c''] ! i) 0)", simplified] finished_def)
  have "answer ?p \<noteq> None" by (simp add: answer_def)
  then show ?thesis using lint_all_results [OF r] r by (simp add: answer_def)
qed

end
