(* ===== verification/Fetch.thy ===== *)
theory Fetch
  imports Releases
begin

section \<open>Fetching a document from a registry\<close>

text \<open>
  \<open>pkg/schema/retry.go\<close>, the fetching half of \<open>store.go\<close> (\<open>getValidated\<close>, \<open>attempt\<close>, \<open>readBody\<close>,
  \<open>served.read\<close>) and the cache of \<open>cache.go\<close>. The outside world is the record \<open>net\<close>: what the endpoint
  replies to its \<open>k\<close>-th request, whether the context is done during the \<open>k\<close>-th wait, whether there is a
  directory to cache in, and whether writing an entry to it or removing one succeeds. The state records the URLs
  requested, redirects included, and the waits, in order, beside the cache, a map from URLs to a
  body and its validator (its file names are digests of the URLs).

  Durations are nanoseconds. The client follows redirects as \<open>net/http\<close> does, asking \<open>CheckRedirect\<close>
  before each with the requests made so far; a client with a \<open>CheckRedirect\<close> of its own is not modelled.
\<close>

subsection \<open>Constants and errors\<close>

definition nanos :: int where "nanos = 10 ^ 9"

definition fetch_attempts :: nat where "fetch_attempts = 3"
definition retry_base_delay :: int where "retry_base_delay = 500 * 10 ^ 6"
definition max_retry_delay :: int where "max_retry_delay = 10 * nanos"
definition max_remote_bytes :: int where "max_remote_bytes = 32 * 2 ^ 20"
definition max_schema_redirects :: nat where "max_schema_redirects = 10"

definition insecure_scheme :: string where "insecure_scheme = ''http://''"
definition secure_scheme :: string where "secure_scheme = ''https://''"

definition is_remote :: "string \<Rightarrow> bool" where
  "is_remote loc \<longleftrightarrow> has_prefix loc insecure_scheme \<or> has_prefix loc secure_scheme"

definition is_insecure :: "string \<Rightarrow> bool" where
  "is_insecure loc \<longleftrightarrow> has_prefix loc insecure_scheme"

record status_error =
  ste_url :: string
  ste_status :: string
  ste_code :: int
  ste_after :: int

datatype fetch_error =
  NotFound
| BadStatus status_error
| InsecureLocation string
| TooLarge string
| Transport string string
| ReadFailure string string
| BadDocument string
| Waiting string
| GaveUp fetch_error nat

text \<open>\<open>errors.As\<close> and \<open>errors.Is\<close>: they look through the wrapping of \<open>GaveUp\<close>.\<close>

fun as_status :: "fetch_error \<Rightarrow> status_error option" where
  "as_status (BadStatus e) = Some e"
| "as_status (GaveUp e _) = as_status e"
| "as_status _ = None"

fun is_not_found :: "fetch_error \<Rightarrow> bool" where
  "is_not_found NotFound = True"
| "is_not_found (GaveUp e _) = is_not_found e"
| "is_not_found _ = False"

subsection \<open>retry.go\<close>

definition retryable :: "status_error \<Rightarrow> bool" where
  "retryable e \<longleftrightarrow> ste_code e = 429 \<or> 500 \<le> ste_code e"

definition retry_delay :: "nat \<Rightarrow> int \<Rightarrow> int \<Rightarrow> int" where
  "retry_delay attempt base asked =
     (let delay = (if asked \<le> 0 then wrap64 (base * 2 ^ attempt) else asked) in min delay max_retry_delay)"

text \<open>\<open>until\<close> is \<open>http.ParseTime\<close>: the time left to the date a text names, when it names one.\<close>

definition retry_after :: "(string \<Rightarrow> int option) \<Rightarrow> string \<Rightarrow> int" where
  "retry_after until header =
     (let value = trim_space header in
      if value = [] then 0
      else (case atoi value of
          Some seconds \<Rightarrow> max (wrap64 (seconds * nanos)) 0
        | None \<Rightarrow> (case until value of None \<Rightarrow> 0 | Some left \<Rightarrow> max left 0)))"

subsection \<open>The world and the state\<close>

datatype reply =
  NoReply string
| Redirect string
| Reply (rp_code: int) (rp_status: string) (rp_etag: string) (rp_retry_after: string) (rp_body: "string go_result")

record net =
  nt_reply :: "nat \<Rightarrow> string \<Rightarrow> string \<Rightarrow> reply"
  nt_done :: "nat \<Rightarrow> string option"
  nt_until :: "string \<Rightarrow> int option"
  nt_cache_root :: bool
  nt_saves :: "string \<Rightarrow> bool"
  nt_removes :: "string \<Rightarrow> bool"

record fetch_state =
  fs_requests :: "string list"
  fs_waits :: "int list"
  fs_cache :: "string \<Rightarrow> (string \<times> string) option"

record fetcher =
  ft_insecure :: bool
  ft_no_cache :: bool
  ft_cache_dir :: string
  ft_retry_delay :: int

datatype freshness = Immutable | Revalidated

record served =
  sv_body :: string
  sv_etag :: string
  sv_not_modified :: bool

type_synonym validator = "string \<Rightarrow> string option"

subsection \<open>store.go: one attempt\<close>

definition refuse_insecure :: "fetcher \<Rightarrow> string \<Rightarrow> fetch_error option" where
  "refuse_insecure s url =
     (if \<not> ft_insecure s \<and> is_insecure url then Some (InsecureLocation url) else None)"

definition retry_base :: "fetcher \<Rightarrow> int" where
  "retry_base s = (if 0 < ft_retry_delay s then ft_retry_delay s else retry_base_delay)"

definition ask :: "net \<Rightarrow> string \<Rightarrow> string \<Rightarrow> fetch_state \<Rightarrow> reply \<times> fetch_state" where
  "ask net url etag st =
     (nt_reply net (length (fs_requests st)) url etag, st\<lparr>fs_requests := fs_requests st @ [url]\<rparr>)"

text \<open>
  \<open>client.Do\<close> with the \<open>CheckRedirect\<close> of \<open>attempt\<close>; \<open>via\<close> is the number of requests made, so the last
  equation is the limit of ten. A refused redirect comes back as a transport error.
\<close>

function follow :: "net \<Rightarrow> fetcher \<Rightarrow> string \<Rightarrow> nat \<Rightarrow> string \<Rightarrow> fetch_state \<Rightarrow>
    (fetch_error + reply) \<times> fetch_state" where
  "follow net s etag via url st =
     (case ask net url etag st of
        (NoReply e, st) \<Rightarrow> (Inl (Transport url e), st)
      | (Reply code status tag after body, st) \<Rightarrow> (Inr (Reply code status tag after body), st)
      | (Redirect target, st) \<Rightarrow>
          if refuse_insecure s target \<noteq> None then (Inl (Transport url ''refused''), st)
          else if max_schema_redirects \<le> via + 1 then (Inl (Transport url ''stopped after 10 redirects''), st)
          else follow net s etag (via + 1) target st)"
  by pat_completeness auto
termination
  by (relation "measure (\<lambda>(net, s, etag, via, url, st). max_schema_redirects - via)") auto

declare follow.simps [simp del]

definition read_body :: "string \<Rightarrow> string go_result \<Rightarrow> fetch_error + string" where
  "read_body url body =
     (case body of
        Inl e \<Rightarrow> Inl (ReadFailure url e)
      | Inr content \<Rightarrow> if max_remote_bytes < int (length content) then Inl (TooLarge url) else Inr content)"

definition read_reply :: "net \<Rightarrow> string \<Rightarrow> string \<Rightarrow> reply \<Rightarrow> fetch_error + served" where
  "read_reply net url etag r =
     (if rp_code r = 200 then
        (case read_body url (rp_body r) of
           Inl e \<Rightarrow> Inl e
         | Inr content \<Rightarrow> Inr \<lparr>sv_body = content, sv_etag = rp_etag r, sv_not_modified = False\<rparr>)
      else if rp_code r = 304 then Inr \<lparr>sv_body = [], sv_etag = etag, sv_not_modified = True\<rparr>
      else if rp_code r = 404 then Inl NotFound
      else Inl (BadStatus \<lparr>ste_url = url, ste_status = rp_status r, ste_code = rp_code r,
             ste_after = retry_after (nt_until net) (rp_retry_after r)\<rparr>))"

definition attempt :: "net \<Rightarrow> fetcher \<Rightarrow> string \<Rightarrow> string \<Rightarrow> fetch_state \<Rightarrow>
    (fetch_error + served) \<times> fetch_state" where
  "attempt net s url etag st =
     (case follow net s etag 0 url st of
        (Inl e, st) \<Rightarrow> (Inl e, st)
      | (Inr r, st) \<Rightarrow> (read_reply net url etag r, st))"

subsection \<open>cache.go and served.read\<close>

definition has_cache :: "net \<Rightarrow> fetcher \<Rightarrow> bool" where
  "has_cache net s \<longleftrightarrow> \<not> ft_no_cache s \<and> (ft_cache_dir s \<noteq> [] \<or> nt_cache_root net)"

definition cache_save :: "net \<Rightarrow> string \<Rightarrow> string \<Rightarrow> string \<Rightarrow> fetch_state \<Rightarrow> fetch_state" where
  "cache_save net url body etag st =
     (if nt_saves net url then st\<lparr>fs_cache := (fs_cache st)(url \<mapsto> (body, etag))\<rparr> else st)"

text \<open>
  \<open>Store.cached\<close>: the body, the validator to offer, and the state without an entry found bad, unless removing it
  fails: the error of \<open>Remove\<close> is ignored, and the entry is passed over all the same.
\<close>

definition cached :: "net \<Rightarrow> fetcher \<Rightarrow> string \<Rightarrow> freshness \<Rightarrow> validator option \<Rightarrow> fetch_state \<Rightarrow>
    string option \<times> string \<times> fetch_state" where
  "cached net s url keep validate st =
     (if \<not> has_cache net s then (None, [], st)
      else (case fs_cache st url of
          None \<Rightarrow> (None, [], st)
        | Some (body, etag) \<Rightarrow>
            if keep = Immutable then
              (case validate of
                 None \<Rightarrow> (Some body, [], st)
               | Some v \<Rightarrow>
                   if v body \<noteq> None
                   then (None, [], if nt_removes net url then st\<lparr>fs_cache := (fs_cache st)(url := None)\<rparr> else st)
                   else (Some body, [], st))
            else (Some body, etag, st)))"

definition not_modified :: "string \<Rightarrow> fetch_error" where
  "not_modified url = BadStatus \<lparr>ste_url = url, ste_status = ''304 Not Modified'', ste_code = 304, ste_after = 0\<rparr>"

definition served_read :: "net \<Rightarrow> fetcher \<Rightarrow> string \<Rightarrow> string option \<Rightarrow> validator option \<Rightarrow> served \<Rightarrow> fetch_state \<Rightarrow>
    (fetch_error + string) \<times> fetch_state" where
  "served_read net s url held validate answer st =
     (if sv_not_modified answer then
        (case held of None \<Rightarrow> (Inl (not_modified url), st) | Some body \<Rightarrow> (Inr body, st))
      else
        (case (case validate of None \<Rightarrow> None | Some v \<Rightarrow> v (sv_body answer)) of
           Some e \<Rightarrow> (Inl (BadDocument e), st)
         | None \<Rightarrow>
             (Inr (sv_body answer),
              if has_cache net s then cache_save net url (sv_body answer) (sv_etag answer) st else st)))"

subsection \<open>store.go: getValidated\<close>

text \<open>
  \<open>sleep\<close>: a positive wait is cut short by a context that is done. A wait is recorded when it starts.
\<close>

definition sleep :: "net \<Rightarrow> int \<Rightarrow> fetch_state \<Rightarrow> string option \<times> fetch_state" where
  "sleep net delay st =
     (if delay \<le> 0 then (None, st)
      else (nt_done net (length (fs_waits st)), st\<lparr>fs_waits := fs_waits st @ [delay]\<rparr>))"

definition give_up :: "nat \<Rightarrow> fetch_error \<Rightarrow> fetch_error" where
  "give_up n e = (if 0 < n then GaveUp e (n + 1) else e)"

function get_loop :: "net \<Rightarrow> fetcher \<Rightarrow> string \<Rightarrow> string \<Rightarrow> string option \<Rightarrow> validator option \<Rightarrow> nat \<Rightarrow>
    fetch_state \<Rightarrow> (fetch_error + string) \<times> fetch_state" where
  "get_loop net s url etag held validate n st =
     (case attempt net s url etag st of
        (Inr answer, st) \<Rightarrow> served_read net s url held validate answer st
      | (Inl e, st) \<Rightarrow>
          (case as_status e of
             None \<Rightarrow> (Inl (give_up n e), st)
           | Some status \<Rightarrow>
               if \<not> retryable status \<or> fetch_attempts \<le> n + 1 then (Inl (give_up n e), st)
               else (case sleep net (retry_delay n (retry_base s) (ste_after status)) st of
                   (Some err, st) \<Rightarrow> (Inl (Waiting err), st)
                 | (None, st) \<Rightarrow> get_loop net s url etag held validate (n + 1) st)))"
  by pat_completeness auto
termination
  by (relation "measure (\<lambda>(net, s, url, etag, held, validate, n, st). fetch_attempts - n)") auto

declare get_loop.simps [simp del]

definition get_validated :: "net \<Rightarrow> fetcher \<Rightarrow> string \<Rightarrow> freshness \<Rightarrow> validator option \<Rightarrow> fetch_state \<Rightarrow>
    (fetch_error + string) \<times> fetch_state" where
  "get_validated net s url keep validate st =
     (case refuse_insecure s url of
        Some e \<Rightarrow> (Inl e, st)
      | None \<Rightarrow>
          (case cached net s url keep validate st of
             (held, etag, st) \<Rightarrow>
               (case held of
                  Some body \<Rightarrow>
                    if keep = Immutable then (Inr body, st)
                    else get_loop net s url etag held validate 0 st
                | None \<Rightarrow> get_loop net s url etag held validate 0 st)))"

subsection \<open>What is requested, and how long a fetch waits\<close>

lemma ask_eq: "ask net url etag st = (r, st') \<Longrightarrow> st' = st\<lparr>fs_requests := fs_requests st @ [url]\<rparr>"
  by (simp add: ask_def)

lemma follow_logs:
  "follow net s etag via url st = (r, st') \<Longrightarrow>
   \<exists>us. st' = st\<lparr>fs_requests := fs_requests st @ url # us\<rparr> \<and> length us \<le> max_schema_redirects - 1 - via \<and>
     (\<forall>u \<in> set us. refuse_insecure s u = None)"
proof (induction net s etag via url st rule: follow.induct)
  case walk: (1 net s etag via url st)
  obtain a st1 where a: "ask net url etag st = (a, st1)" by fastforce
  have st1: "st1 = st\<lparr>fs_requests := fs_requests st @ [url]\<rparr>" by (rule ask_eq [OF a])
  have stop: ?case if "st' = st1" using that st1 by (intro exI [of _ "[]"]) simp
  show ?case
  proof (cases a)
    case (NoReply e)
    then show ?thesis using walk.prems a stop by (simp add: follow.simps)
  next
    case (Reply code status tag after body)
    then show ?thesis using walk.prems a stop by (simp add: follow.simps)
  next
    case (Redirect target)
    show ?thesis
    proof (cases "refuse_insecure s target \<noteq> None \<or> max_schema_redirects \<le> via + 1")
      case True
      then show ?thesis using walk.prems a Redirect stop by (auto simp: follow.simps split: if_splits)
    next
      case False
      then have "follow net s etag (via + 1) target st1 = (r, st')"
        using walk.prems a Redirect by (simp add: follow.simps [of net s etag via])
      then obtain us where "st' = st1\<lparr>fs_requests := fs_requests st1 @ target # us\<rparr>"
        "length us \<le> max_schema_redirects - 1 - (via + 1)" "\<forall>u \<in> set us. refuse_insecure s u = None"
        using walk.IH [OF a [symmetric] Redirect] False by auto
      then show ?thesis using st1 False by (intro exI [of _ "target # us"]) auto
    qed
  qed
qed

lemma attempt_logs:
  assumes "attempt net s url etag st = (r, st')"
  shows "\<exists>us. st' = st\<lparr>fs_requests := fs_requests st @ url # us\<rparr> \<and> length us < max_schema_redirects \<and>
     (\<forall>u \<in> set us. refuse_insecure s u = None)"
proof -
  obtain r1 st1 where f: "follow net s etag 0 url st = (r1, st1)" by fastforce
  have "st' = st1" using assms f by (auto simp: attempt_def split: sum.splits)
  then show ?thesis using follow_logs [OF f] by (auto simp: max_schema_redirects_def)
qed

definition waits_ok :: "int list \<Rightarrow> bool" where
  "waits_ok ws \<longleftrightarrow> (\<forall>w \<in> set ws. 0 < w \<and> w \<le> max_retry_delay)"

lemma sleep_logs:
  assumes "sleep net d st = (r, st')" "d \<le> max_retry_delay"
  shows "\<exists>ws. st' = st\<lparr>fs_waits := fs_waits st @ ws\<rparr> \<and> length ws \<le> 1 \<and> waits_ok ws"
  using assms by (cases "d \<le> 0")
    (auto simp: sleep_def waits_ok_def intro: exI [of _ "[]"] exI [of _ "[d]"])

lemma served_read_logs:
  "served_read net s url held validate a st = (r, st') \<Longrightarrow>
   fs_requests st' = fs_requests st \<and> fs_waits st' = fs_waits st"
  by (auto simp: served_read_def cache_save_def split: if_splits option.splits)

definition logged :: "fetcher \<Rightarrow> string \<Rightarrow> nat \<Rightarrow> nat \<Rightarrow> fetch_state \<Rightarrow> fetch_state \<Rightarrow> bool" where
  "logged s url k j st st' \<longleftrightarrow>
     (\<exists>us ws. fs_requests st' = fs_requests st @ us \<and> fs_waits st' = fs_waits st @ ws \<and>
        length us \<le> k \<and> length ws \<le> j \<and> waits_ok ws \<and>
        (\<forall>u \<in> set us. u = url \<or> refuse_insecure s u = None))"

lemma logged_refl: "logged s url k j st st"
  by (auto simp: logged_def waits_ok_def intro!: exI [of _ "[]"])

lemma logged_trans:
  assumes "logged s url k j st st1" "logged s url k' j' st1 st2"
  shows "logged s url (k + k') (j + j') st st2"
proof -
  obtain us ws where 1: "fs_requests st1 = fs_requests st @ us" "fs_waits st1 = fs_waits st @ ws"
    "length us \<le> k" "length ws \<le> j" "waits_ok ws" "\<forall>u \<in> set us. u = url \<or> refuse_insecure s u = None"
    using assms(1) unfolding logged_def by blast
  obtain vs xs where 2: "fs_requests st2 = fs_requests st1 @ vs" "fs_waits st2 = fs_waits st1 @ xs"
    "length vs \<le> k'" "length xs \<le> j'" "waits_ok xs" "\<forall>u \<in> set vs. u = url \<or> refuse_insecure s u = None"
    using assms(2) unfolding logged_def by blast
  have "waits_ok (ws @ xs)" using 1(5) 2(5) by (auto simp: waits_ok_def)
  moreover have "\<forall>u \<in> set (us @ vs). u = url \<or> refuse_insecure s u = None" using 1(6) 2(6) by auto
  ultimately show ?thesis
    unfolding logged_def using 1 2 by (intro exI [of _ "us @ vs"] exI [of _ "ws @ xs"]) simp
qed

lemma logged_mono: "logged s url k j st st' \<Longrightarrow> k \<le> k' \<Longrightarrow> j \<le> j' \<Longrightarrow> logged s url k' j' st st'"
  unfolding logged_def by (meson order_trans)

lemma attempt_logged:
  "attempt net s url etag st = (r, st') \<Longrightarrow> logged s url max_schema_redirects 0 st st'"
  using attempt_logs by (fastforce simp: logged_def waits_ok_def)

lemma sleep_logged: "sleep net d st = (r, st') \<Longrightarrow> d \<le> max_retry_delay \<Longrightarrow> logged s url 0 1 st st'"
  using sleep_logs by (fastforce simp: logged_def)

lemma served_read_logged:
  "served_read net s url held validate a st = (r, st') \<Longrightarrow> logged s url 0 0 st st'"
  using served_read_logs [of net s url held validate a st r st'] by (simp add: logged_def waits_ok_def)

lemma retry_delay_capped: "retry_delay n base asked \<le> max_retry_delay"
  by (simp add: retry_delay_def Let_def)

lemma get_loop_logged:
  "get_loop net s url etag held validate n st = (r, st') \<Longrightarrow> n < fetch_attempts \<Longrightarrow>
   logged s url (max_schema_redirects * (fetch_attempts - n)) (fetch_attempts - 1 - n) st st'"
proof (induction net s url etag held validate n st rule: get_loop.induct)
  case walk: (1 net s url etag held validate n st)
  obtain a st1 where a: "attempt net s url etag st = (a, st1)" by fastforce
  have l1: "logged s url max_schema_redirects 0 st st1" by (rule attempt_logged [OF a])
  have one: "max_schema_redirects \<le> max_schema_redirects * (fetch_attempts - n)"
  proof -
    have "1 \<le> fetch_attempts - n" using walk.prems(2) by simp
    then show ?thesis by simp
  qed
  show ?case
  proof (cases a)
    case (Inr answer)
    then have "served_read net s url held validate answer st1 = (r, st')"
      using walk.prems(1) a by (simp add: get_loop.simps)
    then have "logged s url (max_schema_redirects + 0) (0 + 0) st st'"
      by (rule logged_trans [OF l1 served_read_logged])
    then show ?thesis by (rule logged_mono) (use one in simp_all)
  next
    case (Inl e)
    have stop: ?thesis if "st' = st1" unfolding that by (rule logged_mono [OF l1 one]) simp
    show ?thesis
    proof (cases "as_status e")
      case None
      then show ?thesis using walk.prems(1) a Inl stop by (simp add: get_loop.simps)
    next
      case (Some status)
      show ?thesis
      proof (cases "\<not> retryable status \<or> fetch_attempts \<le> n + 1")
        case True
        then show ?thesis using walk.prems(1) a Inl Some stop by (auto simp: get_loop.simps split: if_splits)
      next
        case False
        obtain w st2 where w: "sleep net (retry_delay n (retry_base s) (ste_after status)) st1 = (w, st2)"
          by fastforce
        have l2: "logged s url (max_schema_redirects + 0) (0 + 1) st st2"
          by (rule logged_trans [OF l1 sleep_logged [OF w retry_delay_capped]])
        show ?thesis
        proof (cases w)
          case (Some err)
          then have "st' = st2" using walk.prems(1) a Inl \<open>as_status e = Some status\<close> False w
            by (simp add: get_loop.simps)
          have "max_schema_redirects + 0 \<le> max_schema_redirects * (fetch_attempts - n)" using one by simp
          moreover have "0 + 1 \<le> fetch_attempts - 1 - n" using False unfolding de_Morgan_disj by linarith
          ultimately show ?thesis unfolding \<open>st' = st2\<close> by (rule logged_mono [OF l2])
        next
          case None
          then have "get_loop net s url etag held validate (n + 1) st2 = (r, st')"
            using walk.prems(1) a Inl Some False w by (simp add: get_loop.simps [of net s url etag held validate n])
          then have step: "logged s url (max_schema_redirects * (fetch_attempts - (n + 1))) (fetch_attempts - 1 - (n + 1)) st2 st'"
            using walk.IH [OF a [symmetric] Inl Some _ w [symmetric] None] False by auto
          have n: "n = 0 \<or> n = 1" using False by (auto simp: fetch_attempts_def)
          from logged_trans [OF l2 step] show ?thesis
            by (rule logged_mono) (use n in \<open>auto simp: fetch_attempts_def\<close>)
        qed
      qed
    qed
  qed
qed

lemma cached_log: "cached net s url keep validate st = (held, etag, st') \<Longrightarrow> logged s url 0 0 st st'"
  by (auto simp: cached_def logged_def waits_ok_def split: if_splits option.splits)

lemma get_validated_logged:
  assumes "get_validated net s url keep validate st = (r, st')"
  shows "\<exists>us ws. fs_requests st' = fs_requests st @ us \<and> fs_waits st' = fs_waits st @ ws \<and>
     length us \<le> 30 \<and> length ws \<le> 2 \<and> waits_ok ws \<and> (\<forall>u \<in> set us. refuse_insecure s u = None)"
proof (cases "refuse_insecure s url")
  case (Some e)
  then show ?thesis
    using assms by (auto simp: get_validated_def waits_ok_def intro!: exI [of _ "[]"])
next
  case None
  obtain held etag st1 where c: "cached net s url keep validate st = (held, etag, st1)" by (metis prod_cases3)
  have l1: "logged s url 0 0 st st1" by (rule cached_log [OF c])
  have "logged s url 30 2 st st'"
  proof (cases "held \<noteq> None \<and> keep = Immutable")
    case True
    then have "st' = st1" using assms None c by (auto simp: get_validated_def)
    then show ?thesis using logged_mono [OF l1] by simp
  next
    case False
    then have "get_loop net s url etag held validate 0 st1 = (r, st')"
      using assms None c by (auto simp: get_validated_def split: option.splits)
    from logged_trans [OF l1 get_loop_logged [OF this]] show ?thesis
      by (simp add: fetch_attempts_def max_schema_redirects_def numeral_2_eq_2)
  qed
  then show ?thesis using None unfolding logged_def by (metis order.refl)
qed

text \<open>
  C21: fetching one document always ends within three attempts: it makes at most thirty requests,
  redirects included, waits at most twice and never longer than ten seconds at a time, whatever the
  endpoint asks for.
\<close>

theorem fetch_bounded:
  "\<exists>us ws. fs_requests (snd (get_validated net s url keep validate st)) = fs_requests st @ us \<and>
     fs_waits (snd (get_validated net s url keep validate st)) = fs_waits st @ ws \<and>
     length us \<le> 30 \<and> length ws \<le> 2 \<and> (\<forall>w \<in> set ws. 0 < w \<and> w \<le> 10 * 10 ^ 9)"
  using get_validated_logged [of net s url keep validate st]
  by (cases "get_validated net s url keep validate st")
    (fastforce simp: waits_ok_def max_retry_delay_def nanos_def)

subsection \<open>What is kept\<close>

definition valid_body :: "validator option \<Rightarrow> string \<Rightarrow> bool" where
  "valid_body validate body \<longleftrightarrow> (case validate of None \<Rightarrow> True | Some v \<Rightarrow> v body = None)"

definition kept :: "string \<Rightarrow> validator option \<Rightarrow> fetch_state \<Rightarrow> fetch_state \<Rightarrow> bool" where
  "kept url validate st st' \<longleftrightarrow>
     (\<forall>u. fs_cache st' u = fs_cache st u \<or>
        u = url \<and> (case fs_cache st' u of None \<Rightarrow> True | Some (body, _) \<Rightarrow> valid_body validate body))"

lemma kept_same: "fs_cache st' = fs_cache st \<Longrightarrow> kept url validate st st'"
  by (simp add: kept_def)

lemma kept_trans: "kept url validate st st1 \<Longrightarrow> kept url validate st1 st2 \<Longrightarrow> kept url validate st st2"
  unfolding kept_def by metis

lemma attempt_cache: "attempt net s url etag st = (r, st') \<Longrightarrow> fs_cache st' = fs_cache st"
  using attempt_logs by fastforce

lemma sleep_cache: "sleep net d st = (r, st') \<Longrightarrow> fs_cache st' = fs_cache st"
  by (auto simp: sleep_def split: if_splits)

lemma served_read_kept:
  assumes "served_read net s url held validate a st = (r, st')"
    and "\<And>b. sv_not_modified a \<Longrightarrow> held = Some b \<Longrightarrow> valid_body validate b"
  shows "kept url validate st st' \<and> (\<forall>body. r = Inr body \<longrightarrow> valid_body validate body)"
  using assms
  by (auto simp: served_read_def cache_save_def kept_def valid_body_def split: if_splits option.splits)

lemma get_loop_kept:
  "get_loop net s url etag held validate n st = (r, st') \<Longrightarrow> (\<And>b. held = Some b \<Longrightarrow> valid_body validate b) \<Longrightarrow>
   kept url validate st st' \<and> (\<forall>body. r = Inr body \<longrightarrow> valid_body validate body)"
proof (induction net s url etag held validate n st rule: get_loop.induct)
  case walk: (1 net s url etag held validate n st)
  obtain a st1 where a: "attempt net s url etag st = (a, st1)" by fastforce
  have k1: "kept url validate st st1" by (rule kept_same [OF attempt_cache [OF a]])
  show ?case
  proof (cases a)
    case (Inr answer)
    then have "served_read net s url held validate answer st1 = (r, st')"
      using walk.prems(1) a by (simp add: get_loop.simps)
    then have "kept url validate st1 st' \<and> (\<forall>body. r = Inr body \<longrightarrow> valid_body validate body)"
      by (rule served_read_kept) (use walk.prems(2) in blast)
    then show ?thesis using kept_trans [OF k1] by blast
  next
    case (Inl e)
    show ?thesis
    proof (cases "as_status e")
      case None
      then show ?thesis using walk.prems(1) a Inl k1 by (auto simp: get_loop.simps)
    next
      case (Some status)
      show ?thesis
      proof (cases "\<not> retryable status \<or> fetch_attempts \<le> n + 1")
        case True
        then show ?thesis using walk.prems(1) a Inl Some k1 by (auto simp: get_loop.simps split: if_splits)
      next
        case False
        obtain w st2 where w: "sleep net (retry_delay n (retry_base s) (ste_after status)) st1 = (w, st2)"
          by fastforce
        have k2: "kept url validate st st2" by (rule kept_trans [OF k1 kept_same [OF sleep_cache [OF w]]])
        show ?thesis
        proof (cases w)
          case (Some err)
          then show ?thesis using walk.prems(1) a Inl \<open>as_status e = Some status\<close> False w k2
            by (auto simp: get_loop.simps)
        next
          case None
          then have "get_loop net s url etag held validate (n + 1) st2 = (r, st')"
            using walk.prems(1) a Inl Some False w by (simp add: get_loop.simps [of net s url etag held validate n])
          then show ?thesis
            using walk.IH [OF a [symmetric] Inl Some _ w [symmetric] None] False walk.prems(2)
              kept_trans [OF k2] by blast
        qed
      qed
    qed
  qed
qed

text \<open>
  C20: a schema is never trusted or kept unread: what a fetch of one returns passes validation, the cache
  changes at most at its URL and gains nothing there that does not pass, and a cached schema that passes is
  returned without any request. An entry that does not pass is never returned, and it is still there afterwards
  only where it was before and the cache would not let it be removed.
\<close>

theorem fetch_validated:
  assumes "get_validated net s url Immutable (Some v) st = (r, st')"
  shows "(\<forall>body. r = Inr body \<longrightarrow> v body = None) \<and>
    (\<forall>u. u \<noteq> url \<longrightarrow> fs_cache st' u = fs_cache st u) \<and>
    (refuse_insecure s url = None \<and> has_cache net s \<longrightarrow>
      (\<forall>body tag. fs_cache st' url = Some (body, tag) \<longrightarrow>
         v body = None \<or> fs_cache st url = Some (body, tag) \<and> \<not> nt_removes net url) \<and>
      (\<forall>body tag. fs_cache st url = Some (body, tag) \<and> v body = None \<longrightarrow>
         r = Inr body \<and> st' = st))"
proof (cases "refuse_insecure s url")
  case (Some e)
  then show ?thesis using assms by (auto simp: get_validated_def)
next
  case None
  show ?thesis
  proof (cases "has_cache net s \<and> (\<exists>body tag. fs_cache st url = Some (body, tag) \<and> v body = None)")
    case True
    then show ?thesis using assms None by (auto simp: get_validated_def cached_def)
  next
    case False
    define st1 where "st1 =
      (if has_cache net s \<and> nt_removes net url then st\<lparr>fs_cache := (fs_cache st)(url := None)\<rparr> else st)"
    have "cached net s url Immutable (Some v) st = (None, [], st1)"
    proof (cases "fs_cache st url")
      case None
      then have "(fs_cache st)(url := None) = fs_cache st" by auto
      then show ?thesis using None by (simp add: cached_def st1_def)
    next
      case (Some e)
      then show ?thesis using False by (cases e) (auto simp: cached_def st1_def)
    qed
    then have "get_loop net s url [] None (Some v) 0 st1 = (r, st')"
      using assms None by (simp add: get_validated_def)
    from get_loop_kept [OF this]
    have k: "kept url (Some v) st1 st'" "\<forall>body. r = Inr body \<longrightarrow> v body = None"
      by (simp_all add: valid_body_def)
    have "fs_cache st' u = fs_cache st u" if "u \<noteq> url" for u
    proof -
      have "fs_cache st' u = fs_cache st1 u" using k(1) that unfolding kept_def by blast
      then show ?thesis using that by (simp add: st1_def)
    qed
    moreover have "v body = None \<or> fs_cache st url = Some (body, tag) \<and> \<not> nt_removes net url"
      if "has_cache net s" "fs_cache st' url = Some (body, tag)" for body tag
      using k(1) that by (auto simp: kept_def valid_body_def st1_def dest: spec [of _ url] split: if_splits)
    moreover have "v body \<noteq> None" if "has_cache net s" "fs_cache st url = Some (body, tag)" for body tag
      using False that by auto
    ultimately show ?thesis using k(2) by auto
  qed
qed

subsection \<open>Examples\<close>

text \<open>A registry that is throttled once, asks for an hour, and then serves the document.\<close>

definition demo_net :: net where
  "demo_net = \<lparr>nt_reply = (\<lambda>k url etag. if k = 0 then Reply 429 ''429 Too Many Requests'' [] ''3600'' (Inr [])
       else Reply 200 ''200 OK'' ''tag'' [] (Inr ''doc'')),
     nt_done = (\<lambda>_. None), nt_until = (\<lambda>_. None), nt_cache_root = True, nt_saves = (\<lambda>_. True), nt_removes = (\<lambda>_. True)\<rparr>"

definition demo_fetcher :: fetcher where
  "demo_fetcher = \<lparr>ft_insecure = False, ft_no_cache = False, ft_cache_dir = [], ft_retry_delay = 0\<rparr>"

definition demo_fetch_state :: fetch_state where
  "demo_fetch_state = \<lparr>fs_requests = [], fs_waits = [], fs_cache = (\<lambda>_. None)\<rparr>"

definition demo_validate :: validator where
  "demo_validate body = (if body = ''doc'' then None else Some ''unreadable'')"

definition demo_fetched :: "(fetch_error + string) \<times> fetch_state" where
  "demo_fetched = get_validated demo_net demo_fetcher ''https://r/x'' Immutable (Some demo_validate) demo_fetch_state"

lemma demo_fetched_log:
  "fst demo_fetched = Inr ''doc'' \<and> fs_requests (snd demo_fetched) = [''https://r/x'', ''https://r/x''] \<and>
   fs_waits (snd demo_fetched) = [10000000000] \<and> fs_cache (snd demo_fetched) ''https://r/x'' = Some (''doc'', ''tag'')"
  by code_simp

lemma fetch_bounded_witness: "length (fs_waits (snd demo_fetched)) \<le> 2"
proof -
  have "fs_waits demo_fetch_state = []" by (simp add: demo_fetch_state_def)
  then show ?thesis
    using fetch_bounded [of demo_net demo_fetcher "''https://r/x''" Immutable "Some demo_validate" demo_fetch_state]
    unfolding demo_fetched_def by auto
qed

lemma fetch_validated_witness:
  "fs_cache (snd demo_fetched) ''https://r/x'' = Some (''doc'', ''tag'') \<and> demo_validate ''doc'' = None \<and>
   fs_cache (snd demo_fetched) ''https://r/y'' = None"
proof -
  obtain r st' where d: "demo_fetched = (r, st')" by fastforce
  have "fs_cache st' ''https://r/x'' = Some (''doc'', ''tag'')" "r = Inr ''doc''"
    using demo_fetched_log by (simp_all add: d)
  moreover have "''https://r/y'' \<noteq> ''https://r/x''" by simp
  moreover note fetch_validated [OF d [unfolded demo_fetched_def]]
  moreover have "fs_cache demo_fetch_state ''https://r/y'' = None" by (simp add: demo_fetch_state_def)
  ultimately show ?thesis unfolding d snd_conv by metis
qed

text \<open>
  A server that asks for eighteen billion seconds: the product with a second wraps, and what is left of
  the wait is a fraction of a second, below the cap of ten seconds the code means to apply.
\<close>

lemma retry_after_wraps:
  "retry_after (\<lambda>_. None) ''18446744074'' = 290448384 \<and>
   retry_delay 0 retry_base_delay (retry_after (\<lambda>_. None) ''18446744074'') < retry_base_delay"
  by code_simp

end
