(* ===== verification/Paths.thy ===== *)
theory Paths
  imports Prelude
begin

section \<open>Paths and patterns\<close>

text \<open>
  The functions of \<open>path\<close>, \<open>path/filepath\<close> (on Unix, where they agree) and \<open>strings\<close> that name files:
  \<open>Clean\<close>, \<open>Join\<close>, \<open>Base\<close>, \<open>Ext\<close>, \<open>ReplaceAll\<close> and \<open>Match\<close>. They are lexical; no file is looked at.
\<close>

abbreviation slash :: char where "slash \<equiv> CHR ''/''"

definition clean_step :: "bool \<Rightarrow> string list \<Rightarrow> string \<Rightarrow> string list" where
  "clean_step rooted out c =
     (if c = [] \<or> c = ''.'' then out
      else if c = ''..'' then
        (if out \<noteq> [] \<and> last out \<noteq> ''..'' then butlast out else if rooted then out else out @ [c])
      else out @ [c])"

definition path_clean :: "string \<Rightarrow> string" where
  "path_clean s =
     (if s = [] then ''.''
      else (let rooted = (hd s = slash);
                out = foldl (clean_step rooted) [] (split_on slash s);
                r = (if rooted then [slash] else []) @ join_strings [slash] out
            in if r = [] then ''.'' else r))"

definition path_join :: "string list \<Rightarrow> string" where
  "path_join elems =
     (case dropWhile (\<lambda>e. e = []) elems of [] \<Rightarrow> [] | e # es \<Rightarrow> path_clean (join_strings [slash] (e # es)))"

definition strip_slashes :: "string \<Rightarrow> string" where
  "strip_slashes s = rev (dropWhile (\<lambda>c. c = slash) (rev s))"

definition after_slash :: "string \<Rightarrow> string" where
  "after_slash s = rev (takeWhile (\<lambda>c. c \<noteq> slash) (rev s))"

definition path_base :: "string \<Rightarrow> string" where
  "path_base s =
     (if s = [] then ''.''
      else (let b = after_slash (strip_slashes s) in if b = [] then [slash] else b))"

definition path_ext :: "string \<Rightarrow> string" where
  "path_ext s =
     (let b = after_slash s in
      if CHR ''.'' \<in> set b then CHR ''.'' # rev (takeWhile (\<lambda>c. c \<noteq> CHR ''.'') (rev b)) else [])"

text \<open>\<open>strings.ReplaceAll\<close> of a text that is not empty.\<close>

function replace_all :: "string \<Rightarrow> string \<Rightarrow> string \<Rightarrow> string" where
  "replace_all [] old new = []"
| "replace_all (c # cs) old new =
     (if old \<noteq> [] \<and> prefix old (c # cs) then new @ replace_all (drop (length old) (c # cs)) old new
      else c # replace_all cs old new)"
  by pat_completeness auto
termination
  by (relation "measure (\<lambda>(s, _, _). length s)") (auto simp: length_greater_0_conv [symmetric] simp del: length_greater_0_conv)

subsection \<open>filepath.Match\<close>

text \<open>
  A pattern is cut into chunks, each after any number of stars. \<open>scan_chunk\<close> gives whether stars stood
  there, the chunk and the rest; a star inside a bracket belongs to the chunk.
\<close>

fun chunk_end :: "bool \<Rightarrow> string \<Rightarrow> string \<times> string" where
  "chunk_end inside [] = ([], [])"
| "chunk_end inside (c # cs) =
     (if c = CHR 0x5C then
        (case cs of
           [] \<Rightarrow> ([c], [])
         | d # ds \<Rightarrow> apfst (\<lambda>a. c # d # a) (chunk_end inside ds))
      else if c = CHR ''['' then apfst (Cons c) (chunk_end True cs)
      else if c = CHR '']'' then apfst (Cons c) (chunk_end False cs)
      else if c = CHR ''*'' \<and> \<not> inside then ([], c # cs)
      else apfst (Cons c) (chunk_end inside cs))"

definition scan_chunk :: "string \<Rightarrow> bool \<times> string \<times> string" where
  "scan_chunk pattern =
     (let rest = dropWhile (\<lambda>c. c = CHR ''*'') pattern in (rest \<noteq> pattern, chunk_end False rest))"

text \<open>
  \<open>getEsc\<close>: one character of a bracket, \<^term>\<open>None\<close> when the pattern is malformed. Patterns and names are
  read byte by byte: a character beyond ASCII is its bytes, where Go compares code points.
\<close>

definition get_esc :: "string \<Rightarrow> (char \<times> string) option" where
  "get_esc chunk =
     (case chunk of
        [] \<Rightarrow> None
      | c # cs \<Rightarrow>
          if c = CHR ''-'' \<or> c = CHR '']'' then None
          else (let rest = (if c = CHR 0x5C then cs else chunk) in
            case rest of
              [] \<Rightarrow> None
            | d # ds \<Rightarrow> if ds = [] then None else Some (d, ds)))"

lemma get_esc_shorter: "get_esc chunk = Some (d, rest) \<Longrightarrow> length rest < length chunk"
  by (auto simp: get_esc_def Let_def split: list.splits if_splits)

text \<open>The ranges of a bracket: whether the byte is in one of them, and the text after it.\<close>

function class_ranges :: "char \<Rightarrow> bool \<Rightarrow> bool \<Rightarrow> string \<Rightarrow> (bool \<times> string) option" where
  "class_ranges r seen found chunk =
     (if chunk \<noteq> [] \<and> hd chunk = CHR '']'' \<and> seen then Some (found, tl chunk)
      else (case get_esc chunk of
          None \<Rightarrow> None
        | Some (lo, rest) \<Rightarrow>
            if hd rest = CHR ''-'' then
              (case get_esc (tl rest) of
                 None \<Rightarrow> None
               | Some (hi, rest) \<Rightarrow> class_ranges r True (found \<or> (lo \<le> r \<and> r \<le> hi)) rest)
            else class_ranges r True (found \<or> lo = r) rest))"
  by pat_completeness auto
termination
proof (relation "measure (\<lambda>(_, _, _, chunk). length chunk)")
  fix r :: char and seen found :: bool and chunk :: string and p q lo rest hi rest'
  assume "get_esc chunk = Some p" "(lo, rest) = p" "get_esc (tl rest) = Some q" "(hi, rest') = q"
  then have "length rest < length chunk" "length rest' < length (tl rest)" by (auto dest: get_esc_shorter)
  then show "((r, True, found \<or> lo \<le> r \<and> r \<le> hi, rest'), r, seen, found, chunk) \<in>
      measure (\<lambda>(_, _, _, chunk). length chunk)" by simp
qed (auto dest: get_esc_shorter)

declare class_ranges.simps [simp del]

lemma class_ranges_shorter:
  "class_ranges r seen found chunk = Some (b, rest) \<Longrightarrow> length rest < length chunk"
proof (induction r seen found chunk rule: class_ranges.induct)
  case walk: (1 r seen found chunk)
  show ?case
  proof (cases "chunk \<noteq> [] \<and> hd chunk = CHR '']'' \<and> seen")
    case True
    then show ?thesis using walk.prems by (cases chunk) (auto simp: class_ranges.simps)
  next
    case False
    then obtain lo r1 where g: "get_esc chunk = Some (lo, r1)"
      using walk.prems by (auto simp: class_ranges.simps [of r seen found chunk] split: option.splits)
    have s1: "length r1 < length chunk" by (rule get_esc_shorter [OF g])
    show ?thesis
    proof (cases "hd r1 = CHR ''-''")
      case True
      then obtain hi r2 where g2: "get_esc (tl r1) = Some (hi, r2)"
        using walk.prems False g by (auto simp: class_ranges.simps [of r seen found chunk] split: option.splits)
      have "length r2 < length (tl r1)" by (rule get_esc_shorter [OF g2])
      moreover have "class_ranges r True (found \<or> lo \<le> r \<and> r \<le> hi) r2 = Some (b, rest)"
        using walk.prems False g g2 True by (simp add: class_ranges.simps [of r seen found chunk])
      ultimately show ?thesis using walk.IH(1) [OF False g refl True g2 refl] s1 by simp
    next
      case no: False
      then have "class_ranges r True (found \<or> lo = r) r1 = Some (b, rest)"
        using walk.prems False g by (simp add: class_ranges.simps [of r seen found chunk])
      then show ?thesis using walk.IH(2) [OF False g refl no] s1 by simp
    qed
  qed
qed

definition match_byte :: "char \<Rightarrow> string option \<Rightarrow> string option" where
  "match_byte c s = (case s of Some (x # xs) \<Rightarrow> if x = c then Some xs else None | _ \<Rightarrow> None)"

text \<open>
  \<open>matchChunk\<close>: \<^term>\<open>None\<close> when the chunk is malformed; otherwise what is left of the name, or
  \<^term>\<open>Some None\<close> when it does not match, which is noticed but the chunk is read to its end.
\<close>

function match_chunk :: "string \<Rightarrow> string option \<Rightarrow> string option option" where
  "match_chunk [] s = Some s"
| "match_chunk (c # cs) s0 =
     (let s = (if s0 = Some [] then None else s0) in
      if c = CHR ''['' then
        (let negated = (cs \<noteq> [] \<and> hd cs = CHR ''^'');
             r = (case s of Some (x # _) \<Rightarrow> x | _ \<Rightarrow> CHR 0x00)
         in case class_ranges r False False (if negated then tl cs else cs) of
              None \<Rightarrow> None
            | Some (found, rest) \<Rightarrow>
                match_chunk rest (if found = negated then None else map_option tl s))
      else if c = CHR ''?'' then
        match_chunk cs (case s of Some (x # xs) \<Rightarrow> if x = slash then None else Some xs | _ \<Rightarrow> None)
      else if c = CHR 0x5C then
        (case cs of [] \<Rightarrow> None | d # ds \<Rightarrow> match_chunk ds (match_byte d s))
      else match_chunk cs (match_byte c s))"
  by pat_completeness auto
termination
proof (relation "measure (\<lambda>(chunk, _). length chunk)")
  fix c :: char and cs :: string and s0 x negated r p found rest
  assume "class_ranges r False False (if negated then tl cs else cs) = Some p" "(found, rest) = p"
  then have "length rest < length (if negated then tl cs else cs)" by (auto dest: class_ranges_shorter)
  then have "length rest < length (c # cs)" by (auto split: if_splits)
  then show "((rest, if found = negated then None else map_option tl x), c # cs, s0) \<in>
      measure (\<lambda>(chunk, _). length chunk)" by simp
qed auto

declare match_chunk.simps(2) [simp del]

text \<open>The positions a star may skip to: it does not pass a slash.\<close>

fun star_loop :: "string \<Rightarrow> bool \<Rightarrow> string \<Rightarrow> string option option" where
  "star_loop chunk final [] = Some None"
| "star_loop chunk final (x # xs) =
     (if x = slash then Some None
      else (case match_chunk chunk (Some xs) of
          None \<Rightarrow> None
        | Some None \<Rightarrow> star_loop chunk final xs
        | Some (Some t) \<Rightarrow> if final \<and> t \<noteq> [] then star_loop chunk final xs else Some (Some t)))"

lemma chunk_end_rest:
  "snd (chunk_end inside (c # cs)) =
     (if c = CHR 0x5C then (case cs of [] \<Rightarrow> [] | d # ds \<Rightarrow> snd (chunk_end inside ds))
      else if c = CHR ''['' then snd (chunk_end True cs)
      else if c = CHR '']'' then snd (chunk_end False cs)
      else if c = CHR ''*'' \<and> \<not> inside then c # cs
      else snd (chunk_end inside cs))"
proof (cases "c = CHR 0x5C")
  case True
  then show ?thesis by (cases cs) simp_all
qed simp

declare chunk_end.simps(2) [simp del]

lemma chunk_end_length: "length (snd (chunk_end inside s)) \<le> length s"
proof (induction inside s rule: chunk_end.induct)
  case (2 inside c cs)
  show ?case
  proof (cases "c = CHR 0x5C")
    case True
    then show ?thesis using "2.IH"(1) by (cases cs) (auto simp: chunk_end_rest)
  next
    case False
    with "2.IH"(2-) show ?thesis unfolding chunk_end_rest by (simp add: le_SucI)
  qed
qed simp

lemma chunk_end_consumes:
  assumes "s \<noteq> []" "hd s \<noteq> CHR ''*''"
  shows "length (snd (chunk_end False s)) < length s"
proof (cases s)
  case (Cons c cs)
  show ?thesis
  proof (cases "c = CHR 0x5C")
    case True
    then show ?thesis
      using Cons chunk_end_length [of False "tl cs"] by (cases cs) (auto simp: chunk_end_rest)
  next
    case False
    with assms Cons show ?thesis
      using chunk_end_length [of True cs] chunk_end_length [of False cs]
      by (simp add: chunk_end_rest)
  qed
qed (use assms in simp)

lemma drop_stars_shorter:
  "pattern \<noteq> [] \<Longrightarrow> hd pattern = CHR ''*'' \<Longrightarrow> length (dropWhile (\<lambda>c. c = CHR ''*'') pattern) < length pattern"
proof (cases pattern)
  case (Cons c cs)
  then show "hd pattern = CHR ''*'' \<Longrightarrow> ?thesis"
    using length_dropWhile_le [of "\<lambda>c. c = CHR ''*''" cs] by (simp add: le_imp_less_Suc)
qed simp

lemma scan_chunk_shorter:
  assumes "pattern \<noteq> []" "(star, r) = scan_chunk pattern" "(chunk, rest) = r"
  shows "length rest < length pattern"
proof -
  let ?d = "dropWhile (\<lambda>c. c = CHR ''*'') pattern"
  have "scan_chunk pattern = (star, chunk, rest)" using assms(2,3) by simp
  then have rest: "rest = snd (chunk_end False ?d)"
    by (cases "chunk_end False ?d") (simp add: scan_chunk_def Let_def)
  show ?thesis
  proof (cases "hd pattern = CHR ''*''")
    case True
    then have "length ?d < length pattern" by (rule drop_stars_shorter [OF assms(1)])
    then show ?thesis using chunk_end_length [of False ?d] rest by simp
  next
    case False
    then have "?d = pattern" using assms(1) by (cases pattern) auto
    then show ?thesis using chunk_end_consumes [OF assms(1) False] rest by simp
  qed
qed

function chunks_valid :: "string \<Rightarrow> bool" where
  "chunks_valid pattern =
     (if pattern = [] then True
      else (case scan_chunk pattern of (_, chunk, rest) \<Rightarrow>
        if match_chunk chunk (Some []) = None then False else chunks_valid rest))"
  by pat_completeness auto
termination
  by (relation "measure length") (simp_all add: scan_chunk_shorter)

text \<open>\<open>Match\<close>: \<^term>\<open>None\<close> is \<open>ErrBadPattern\<close>.\<close>

function path_match :: "string \<Rightarrow> string \<Rightarrow> bool option" where
  "path_match pattern name =
     (if pattern = [] then Some (name = [])
      else (case scan_chunk pattern of (star, chunk, rest) \<Rightarrow>
        if star \<and> chunk = [] then Some (slash \<notin> set name)
        else (let no_match = (if chunks_valid rest then Some False else None) in
          case match_chunk chunk (Some name) of
            None \<Rightarrow> None
          | Some here \<Rightarrow>
              (case here of
                 Some t \<Rightarrow>
                   if t = [] \<or> rest \<noteq> [] then path_match rest t
                   else if star then
                     (case star_loop chunk (rest = []) name of
                        None \<Rightarrow> None | Some None \<Rightarrow> no_match | Some (Some t) \<Rightarrow> path_match rest t)
                   else no_match
               | None \<Rightarrow>
                   if star then
                     (case star_loop chunk (rest = []) name of
                        None \<Rightarrow> None | Some None \<Rightarrow> no_match | Some (Some t) \<Rightarrow> path_match rest t)
                   else no_match))))"
  by pat_completeness auto
termination
  by (relation "measure (\<lambda>(pattern, _). length pattern)") (simp_all add: scan_chunk_shorter)

declare chunks_valid.simps [simp del] path_match.simps [simp del]

lemma path_match_examples:
  "path_match ''*.yaml'' ''a.yaml'' = Some True" "path_match ''*.yaml'' ''d/a.yaml'' = Some False"
  "path_match ''a[b-d]?'' ''acx'' = Some True" "path_match ''a[^b-d]'' ''ac'' = Some False"
  "path_match ''a*[x'' ''zzz'' = None" "path_match ''*a*b'' ''cab'' = Some True"
  by code_simp+

end
