(* ===== verification/SchemaRead.thy ===== *)
theory SchemaRead
  imports Schema Spans
begin

section \<open>Reading a schema, an index and a component index\<close>

text \<open>
  \<open>Read\<close>, \<open>ReadIndex\<close> and \<open>ReadComponents\<close> of \<open>pkg/schema\<close>, over what the decoders hand them. Decoding
  the bytes is third-party code and a parameter wherever these are used: each call of \<open>Decode\<close> comes to
  the end of the input, an error, or a document. A decoded schema may hold a nil component or a nil
  field, which the model of theory \<open>Schema\<close> has no value for; \<open>Read\<close> is what refuses them. Go visits a
  map in no fixed order, so which of several nils an error names is not fixed by the code: the model names
  the first of the list that stands for the map.
\<close>

subsection \<open>Documents as decoded\<close>

datatype 'a decoded = AtEOF | DecodeError string | Decoded 'a

datatype raw_field =
  RawField (rf_type: string) (rf_children: "(string \<times> raw_field option) list") (rf_required: "string list")
    (rf_enum: "string list") (rf_open: bool) (rf_deprecated: string) (rf_doc: string)
    (rf_extension_ref: string)

text \<open>A component as decoded: everything but its settings, and those before they are checked.\<close>

record raw_comp =
  rc_comp :: scomp
  rc_fields :: "raw_field option"

record raw_schema =
  rs_collector_version :: string
  rs_distribution :: string
  rs_decoder :: "decoder option"
  rs_generated_at :: string
  rs_sources :: "(string \<times> string) list"
  rs_components :: "(string \<times> (string \<times> raw_comp option) list) list"

subsection \<open>schema.go: Read\<close>

function validate_field :: "raw_field option \<Rightarrow> string \<Rightarrow> string option"
  and validate_children :: "(string \<times> raw_field option) list \<Rightarrow> string \<Rightarrow> string option" where
  "validate_field None path = Some (path @ '': field must not be null'')"
| "validate_field (Some (RawField t cs r e op d doc x)) path = validate_children cs path"
| "validate_children [] path = None"
| "validate_children ((name, child) # cs) path =
     (case validate_field child (path @ ''.'' @ name) of
        Some err \<Rightarrow> Some err | None \<Rightarrow> validate_children cs path)"
  by pat_completeness auto
termination
  by (relation "measure (\<lambda>a. case a of Inl (f, _) \<Rightarrow> size_option size f
        | Inr (cs, _) \<Rightarrow> size_list (size_prod (\<lambda>_. 0) (size_option size)) cs)") auto

text \<open>The settings of a field without nils; an entry of a field that is nil does not come this far.\<close>

function plain_field :: "raw_field \<Rightarrow> field"
  and plain_children :: "(string \<times> raw_field option) list \<Rightarrow> (string \<times> field) list" where
  "plain_field (RawField t cs r e op d doc x) = Field t (plain_children cs) r e op d doc x"
| "plain_children [] = []"
| "plain_children ((name, None) # cs) = plain_children cs"
| "plain_children ((name, Some f) # cs) = (name, plain_field f) # plain_children cs"
  by pat_completeness auto
termination
  by (relation "measure (\<lambda>a. case a of Inl f \<Rightarrow> size f
        | Inr cs \<Rightarrow> size_list (size_prod (\<lambda>_. 0) (size_option size)) cs)") auto

definition null_component :: "string \<Rightarrow> string \<Rightarrow> string" where
  "null_component k typ = ''decode schema: '' @ k @ ''.'' @ typ @ '': component must not be null''"

definition read_component :: "string \<Rightarrow> string \<Rightarrow> raw_comp option \<Rightarrow> scomp go_result" where
  "read_component k typ ent =
     (case ent of
        None \<Rightarrow> Inl (null_component k typ)
      | Some rc \<Rightarrow>
          (let c = (if sc_type (rc_comp rc) = [] then (rc_comp rc)\<lparr>sc_type := typ\<rparr> else rc_comp rc) in
           case rc_fields rc of
             None \<Rightarrow> Inr (c\<lparr>sc_fields := None\<rparr>)
           | Some f \<Rightarrow>
               (case validate_field (Some f) (k @ ''.'' @ typ @ ''.fields'') of
                  Some err \<Rightarrow> Inl (''decode schema: '' @ err)
                | None \<Rightarrow> Inr (c\<lparr>sc_fields := Some (plain_field f)\<rparr>))))"

fun read_types :: "string \<Rightarrow> (string \<times> raw_comp option) list \<Rightarrow> (string \<times> scomp) list go_result" where
  "read_types k [] = Inr []"
| "read_types k ((typ, ent) # by_type) =
     (case read_component k typ ent of
        Inl err \<Rightarrow> Inl err
      | Inr c \<Rightarrow> (case read_types k by_type of Inl err \<Rightarrow> Inl err | Inr cs \<Rightarrow> Inr ((typ, c) # cs)))"

fun read_kinds :: "(string \<times> (string \<times> raw_comp option) list) list \<Rightarrow>
    (string \<times> (string \<times> scomp) list) list go_result" where
  "read_kinds [] = Inr []"
| "read_kinds ((k, by_type) # entries) =
     (case read_types k by_type of
        Inl err \<Rightarrow> Inl err
      | Inr cs \<Rightarrow> (case read_kinds entries of Inl err \<Rightarrow> Inl err | Inr rest \<Rightarrow> Inr ((k, cs) # rest)))"

definition read_schema :: "raw_schema decoded \<Rightarrow> raw_schema decoded \<Rightarrow> schema go_result" where
  "read_schema first extra =
     (case first of
        AtEOF \<Rightarrow> Inl ''decode schema: empty document''
      | DecodeError err \<Rightarrow> Inl (''decode schema: '' @ err)
      | Decoded raw \<Rightarrow>
          (case extra of
             Decoded _ \<Rightarrow> Inl ''decode schema: more than one document''
           | DecodeError err \<Rightarrow> Inl (''decode schema: '' @ err)
           | AtEOF \<Rightarrow>
               (case read_kinds (rs_components raw) of
                  Inl err \<Rightarrow> Inl err
                | Inr comps \<Rightarrow>
                    Inr \<lparr>sch_collector_version = rs_collector_version raw,
                      sch_distribution = rs_distribution raw, sch_decoder = rs_decoder raw,
                      sch_generated_at = rs_generated_at raw, sch_sources = rs_sources raw,
                      sch_components = (\<lambda>k. case map_of comps (kind_string k) of None \<Rightarrow> [] | Some cs \<Rightarrow> cs)\<rparr>)))"

subsection \<open>index.go and components.go: ReadIndex and ReadComponents\<close>

definition read_index :: "registry_index go_result \<Rightarrow> registry_index go_result" where
  "read_index doc = (case doc of Inl err \<Rightarrow> Inl (''decode index: '' @ err) | Inr idx \<Rightarrow> Inr (index_sort idx))"

definition read_components :: "components_doc go_result \<Rightarrow> components_doc go_result" where
  "read_components doc = (case doc of Inl err \<Rightarrow> Inl (''decode components: '' @ err) | Inr comps \<Rightarrow> Inr comps)"

subsection \<open>What Read accepts\<close>

inductive non_null :: "raw_field \<Rightarrow> bool" where
  non_nullI: "(\<And>name child. (name, child) \<in> set (rf_children f) \<Longrightarrow> \<exists>g. child = Some g \<and> non_null g) \<Longrightarrow> non_null f"

inductive_simps non_null_iff: "non_null (RawField t cs r e op d doc x)"

primrec raw_of_field :: "field \<Rightarrow> raw_field" where
  "raw_of_field (Field t cs r e op d doc x) =
     RawField t (map (map_prod id Some) (map (map_prod id raw_of_field) cs)) r e op d doc x"

lemma validate_none_iff:
  "validate_field child path = None \<longleftrightarrow> (\<exists>f. child = Some f \<and> non_null f)"
  "validate_children cs path = None \<longleftrightarrow> (\<forall>(name, child) \<in> set cs. \<exists>f. child = Some f \<and> non_null f)"
proof (induction child path and cs path rule: validate_field_validate_children.induct)
  case (2 t cs r e op d doc x path)
  then show ?case by (auto simp: non_null_iff)
qed (auto split: option.splits)

lemma raw_of_plain:
  "non_null f \<Longrightarrow> raw_of_field (plain_field f) = f"
  "\<forall>(name, child) \<in> set cs. \<exists>f. child = Some f \<and> non_null f \<Longrightarrow>
     map (map_prod id Some) (map (map_prod id raw_of_field) (plain_children cs)) = cs"
proof (induction f and cs rule: plain_field_plain_children.induct)
  case (1 t cs r e op d doc x)
  then show ?case by (auto simp: non_null_iff id_def)
qed auto

text \<open>The component that \<open>Read\<close> makes of a decoded one, and the decoded ones it accepts.\<close>

definition component_of_raw :: "string \<Rightarrow> raw_comp \<Rightarrow> scomp \<Rightarrow> bool" where
  "component_of_raw typ rc c \<longleftrightarrow>
     rc_fields rc = map_option raw_of_field (sc_fields c) \<and>
     c = (rc_comp rc)\<lparr>sc_type := (if sc_type (rc_comp rc) = [] then typ else sc_type (rc_comp rc)),
           sc_fields := sc_fields c\<rparr>"

definition comp_non_null :: "raw_comp option \<Rightarrow> bool" where
  "comp_non_null ent \<longleftrightarrow> (case ent of None \<Rightarrow> False
     | Some rc \<Rightarrow> (case rc_fields rc of None \<Rightarrow> True | Some f \<Rightarrow> non_null f))"

lemma read_component_some: "(\<exists>c. read_component k ty ent = Inr c) \<longleftrightarrow> comp_non_null ent"
proof (cases ent)
  case (Some rc)
  show ?thesis
  proof (cases "rc_fields rc")
    case None
    then show ?thesis by (simp add: Some read_component_def comp_non_null_def Let_def)
  next
    case (Some f)
    have v: "non_null f \<longleftrightarrow> validate_field (Some f) path = None" for path
      using validate_none_iff(1) [of "Some f" path] by simp
    show ?thesis
      by (cases "validate_field (Some f) (k @ ''.'' @ ty @ ''.fields'')")
        (simp_all add: \<open>ent = Some rc\<close> Some read_component_def comp_non_null_def Let_def
          v [of "k @ ''.'' @ ty @ ''.fields''"])
  qed
qed (simp add: read_component_def comp_non_null_def)

lemma read_component_entry:
  assumes "read_component k ty ent = Inr c"
  shows "\<exists>rc. ent = Some rc \<and> component_of_raw ty rc c"
proof -
  obtain rc where ent: "ent = Some rc" using assms by (cases ent) (simp_all add: read_component_def)
  show ?thesis
  proof (cases "rc_fields rc")
    case None
    then show ?thesis using assms by (auto simp: ent read_component_def component_of_raw_def Let_def)
  next
    case (Some f)
    have v: "validate_field (Some f) (k @ ''.'' @ ty @ ''.fields'') = None"
      using assms by (simp add: ent Some read_component_def Let_def split: option.splits)
    then have "non_null f" using validate_none_iff(1) by blast
    then have "validate_field (Some f) path = None" "raw_of_field (plain_field f) = f" for path
      using validate_none_iff(1) [of "Some f" path] raw_of_plain(1) [of f] by auto
    then show ?thesis
      using assms by (auto simp: ent Some read_component_def component_of_raw_def Let_def)
  qed
qed

definition types_non_null :: "(string \<times> raw_comp option) list \<Rightarrow> bool" where
  "types_non_null by_type \<longleftrightarrow> list_all (\<lambda>(typ, ent). comp_non_null ent) by_type"

definition component_of_entry :: "string \<times> raw_comp option \<Rightarrow> string \<times> scomp \<Rightarrow> bool" where
  "component_of_entry a b \<longleftrightarrow> fst b = fst a \<and> (\<exists>rc. snd a = Some rc \<and> component_of_raw (fst a) rc (snd b))"

lemma read_types_some: "(\<exists>cs. read_types k by_type = Inr cs) \<longleftrightarrow> types_non_null by_type"
proof (induction k by_type rule: read_types.induct)
  case (2 k ty ent by_type)
  show ?case
  proof (cases "read_component k ty ent")
    case (Inr c)
    then have "comp_non_null ent" using read_component_some by metis
    then show ?thesis using 2 [OF Inr] by (auto simp: Inr types_non_null_def split: sum.splits)
  next
    case (Inl err)
    then have "\<not> comp_non_null ent" using read_component_some [of k ty ent] by simp
    then show ?thesis by (simp add: Inl types_non_null_def)
  qed
qed (simp add: types_non_null_def)

lemma read_types_entries: "read_types k by_type = Inr cs \<Longrightarrow> list_all2 component_of_entry by_type cs"
  by (induction k by_type arbitrary: cs rule: read_types.induct)
    (auto simp: component_of_entry_def dest!: read_component_entry split: sum.splits)

lemma read_kinds_some:
  "(\<exists>ks. read_kinds entries = Inr ks) \<longleftrightarrow> list_all (\<lambda>(k, by_type). types_non_null by_type) entries"
proof (induction entries rule: read_kinds.induct)
  case (2 k by_type entries)
  show ?case
  proof (cases "read_types k by_type")
    case (Inr cs)
    then have "types_non_null by_type" using read_types_some by metis
    then show ?thesis using 2 [OF Inr] by (auto simp: Inr split: sum.splits)
  next
    case (Inl err)
    then have "\<not> types_non_null by_type" using read_types_some [of k by_type] by simp
    then show ?thesis by (simp add: Inl)
  qed
qed simp

lemma read_kinds_entries:
  "read_kinds entries = Inr ks \<Longrightarrow>
     list_all2 (\<lambda>a b. fst b = fst a \<and> list_all2 component_of_entry (snd a) (snd b)) entries ks"
  by (induction entries arbitrary: ks rule: read_kinds.induct)
    (auto dest!: read_types_entries split: sum.splits)

text \<open>
  C24: \<open>Read\<close> gives a schema exactly for a single document that holds no nil component and no nil field at
  any depth; the schema then carries the document's content: each kind has the document's components in
  their order, with their settings unchanged and the type defaulted to the key it stands under.
\<close>

theorem read_schema_correct:
  "((\<exists>c. read_schema first extra = Inr c) \<longleftrightarrow>
     (\<exists>raw. first = Decoded raw \<and> extra = AtEOF \<and>
        list_all (\<lambda>(k, by_type). types_non_null by_type) (rs_components raw))) \<and>
   (\<forall>c raw. read_schema first extra = Inr c \<and> first = Decoded raw \<longrightarrow>
     sch_collector_version c = rs_collector_version raw \<and> sch_distribution c = rs_distribution raw \<and>
     (\<forall>k. case map_of (rs_components raw) (kind_string k) of
        None \<Rightarrow> sch_components c k = []
      | Some by_type \<Rightarrow> list_all2 component_of_entry by_type (sch_components c k)))"
proof -
  have lookup: "case map_of entries key of
      None \<Rightarrow> map_of ks key = None
    | Some by_type \<Rightarrow> \<exists>cs. map_of ks key = Some cs \<and> list_all2 component_of_entry by_type cs"
    if "list_all2 (\<lambda>a b. fst b = fst a \<and> list_all2 component_of_entry (snd a) (snd b)) entries ks"
    for entries ks key
    using that by (induction rule: list_all2_induct) (auto split: option.splits prod.splits)
  have some: "(\<exists>c. read_schema first extra = Inr c) \<longleftrightarrow>
      (\<exists>raw ks. first = Decoded raw \<and> extra = AtEOF \<and> read_kinds (rs_components raw) = Inr ks)"
    by (auto simp: read_schema_def split: decoded.splits sum.splits)
  have content: "case map_of (rs_components raw) (kind_string k) of
        None \<Rightarrow> sch_components c k = []
      | Some by_type \<Rightarrow> list_all2 component_of_entry by_type (sch_components c k)"
    if "read_schema (Decoded raw) extra = Inr c" for c raw k
  proof -
    from that obtain ks where ks: "read_kinds (rs_components raw) = Inr ks"
      "sch_components c k = (case map_of ks (kind_string k) of None \<Rightarrow> [] | Some cs \<Rightarrow> cs)"
      by (auto simp: read_schema_def split: decoded.splits sum.splits)
    show ?thesis
      using lookup [OF read_kinds_entries [OF ks(1)], of "kind_string k"] ks(2)
      by (auto split: option.splits)
  qed
  have "sch_collector_version c = rs_collector_version raw \<and> sch_distribution c = rs_distribution raw"
    if "read_schema (Decoded raw) extra = Inr c" for c raw
    using that by (auto simp: read_schema_def split: decoded.splits sum.splits)
  then show ?thesis using some content read_kinds_some by blast
qed

definition demo_raw_schema :: "raw_field option \<Rightarrow> raw_schema" where
  "demo_raw_schema settings =
     \<lparr>rs_collector_version = ''v0.130.0'', rs_distribution = [], rs_decoder = None, rs_generated_at = [],
      rs_sources = [],
      rs_components = [(''receiver'', [(''otlp'', Some
        \<lparr>rc_comp = \<lparr>sc_type = [], sc_signals = [''traces''], sc_stability = [], sc_pairs = [],
           sc_distributions = [], sc_module = [], sc_deprecated = [], sc_alias_of = [], sc_alias = [],
           sc_fields = None\<rparr>,
         rc_fields = Some (RawField ''map'' [(''protocols'', settings)] [] [] False [] [] [])\<rparr>)])]\<rparr>"

lemma read_schema_correct_witness:
  "(\<exists>c. read_schema (Decoded (demo_raw_schema (Some (RawField ''map'' [] [] [] True [] [] [])))) AtEOF = Inr c) \<and>
   (\<nexists>c. read_schema (Decoded (demo_raw_schema None)) AtEOF = Inr c) \<and>
   read_schema (Decoded (demo_raw_schema None)) AtEOF =
     Inl ''decode schema: receiver.otlp.fields.protocols: field must not be null''"
proof -
  let ?good = "demo_raw_schema (Some (RawField ''map'' [] [] [] True [] [] []))"
  have "list_all (\<lambda>(k, by_type). types_non_null by_type) (rs_components ?good)"
    "\<not> list_all (\<lambda>(k, by_type). types_non_null by_type) (rs_components (demo_raw_schema None))"
    by (simp_all add: demo_raw_schema_def types_non_null_def comp_non_null_def non_null_iff)
  moreover have "read_schema (Decoded (demo_raw_schema None)) AtEOF =
      Inl ''decode schema: receiver.otlp.fields.protocols: field must not be null''"
    by (simp add: demo_raw_schema_def read_schema_def read_component_def)
  ultimately show ?thesis
    using read_schema_correct [of "Decoded ?good" AtEOF] read_schema_correct [of "Decoded (demo_raw_schema None)" AtEOF]
    by auto
qed

end
