(* ===== verification/Store.thy ===== *)
theory Store
  imports Fetch Paths SchemaRead
begin

section \<open>The store: from a version to a schema\<close>

text \<open>
  \<open>Store\<close> of \<open>pkg/schema/store.go\<close>: what the locations are, how one resolves a version, and \<open>Load\<close>,
  \<open>Versions\<close>, \<open>Availability\<close> and \<open>Distributions\<close>. Besides the network of theory \<open>Fetch\<close>, the record
  \<open>world\<close> holds what the store asks of other packages: the local file system (whether a path can be
  stat'd, what opening it and reading it to the end gives, and the base names \<open>afero.Glob\<close> finds for an
  extension), and what the JSON and YAML decoders make of a body. The state adds the process-wide memo of
  registry documents.
\<close>

subsection \<open>The world, the store and its errors\<close>

datatype load_error = Missing | Fetching fetch_error | Unreadable string | IdentityMismatch string

definition is_missing :: "load_error \<Rightarrow> bool" where
  "is_missing e = (case e of Missing \<Rightarrow> True | Fetching fe \<Rightarrow> is_not_found fe | _ \<Rightarrow> False)"

record world =
  wd_net :: net
  wd_exists :: "string \<Rightarrow> bool"
  wd_open :: "string \<Rightarrow> load_error + string"
  wd_glob :: "string \<Rightarrow> string \<Rightarrow> string list"
  wd_decode :: "string \<Rightarrow> raw_schema decoded \<times> raw_schema decoded"
  wd_decode_index :: "string \<Rightarrow> registry_index go_result"
  wd_decode_components :: "string \<Rightarrow> components_doc go_result"

record store =
  so_locations :: "string list"
  so_distribution :: string
  so_fetcher :: fetcher
  so_own_client :: bool
  so_own_fs :: bool

record store_state =
  ss_fetch :: fetch_state
  ss_indexes :: "string \<Rightarrow> registry_index option"
  ss_components :: "string \<Rightarrow> components_doc option"

datatype store_error =
  Refused string
| NoSchemas "string list"
| LoadFailed string load_error
| UnknownVersion unknown_version_error

definition default_name :: string where "default_name = ''default''"

definition default_registry :: string where
  "default_registry = ''https://raw.githubusercontent.com/minuk-dev/otelcol-config-schemas/main''"

definition version_placeholder :: string where "version_placeholder = ''{{.Version}}''"
definition distribution_placeholder :: string where "distribution_placeholder = ''{{.Distribution}}''"

definition store_distribution :: "store \<Rightarrow> string" where
  "store_distribution s = (if so_distribution s = [] then default_distribution else so_distribution s)"

definition with_distribution :: "string \<Rightarrow> store \<Rightarrow> store" where
  "with_distribution d s = s\<lparr>so_distribution := d\<rparr>"

definition locations :: "store \<Rightarrow> string list" where
  "locations s =
     (if length (so_locations s) = 0 then [default_registry]
      else map (\<lambda>loc. if loc = default_name then default_registry else loc) (so_locations s))"

definition store_remote :: "store \<Rightarrow> bool" where
  "store_remote s = list_ex is_remote (locations s)"

text \<open>\<open>join\<close>: segments after a registry root without its last slash.\<close>

definition join_url :: "string \<Rightarrow> string list \<Rightarrow> string" where
  "join_url base segments =
     join_strings [slash] ((case cut_suffix base [slash] of Some b \<Rightarrow> b | None \<Rightarrow> base) # segments)"

subsection \<open>Locations\<close>

datatype loc_kind = LocDir | LocTemplate | LocFile | LocRemote

definition loc_kind_of :: "string \<Rightarrow> loc_kind" where
  "loc_kind_of loc =
     (if contains loc version_placeholder \<or> contains loc distribution_placeholder then LocTemplate
      else if trim_ext (path_base loc) \<noteq> [] then LocFile
      else if is_remote loc then LocRemote
      else LocDir)"

definition is_registry_dir :: "world \<Rightarrow> string \<Rightarrow> bool" where
  "is_registry_dir w dir = wd_exists w (path_join [dir, index_file])"

definition first_extension :: string where
  "first_extension = hd extensions"

definition resolve_location :: "world \<Rightarrow> store \<Rightarrow> string \<Rightarrow> string \<Rightarrow> string" where
  "resolve_location w s loc version =
     (case loc_kind_of loc of
        LocFile \<Rightarrow> loc
      | LocTemplate \<Rightarrow>
          replace_all (replace_all loc version_placeholder version) distribution_placeholder (store_distribution s)
      | LocRemote \<Rightarrow> join_url loc [store_distribution s, version @ first_extension]
      | LocDir \<Rightarrow>
          if is_registry_dir w loc then path_join [loc, store_distribution s, version @ first_extension]
          else path_join [loc, version @ first_extension])"

subsection \<open>Registry documents\<close>

definition on_fetch :: "(fetch_state \<Rightarrow> 'a \<times> fetch_state) \<Rightarrow> store_state \<Rightarrow> 'a \<times> store_state" where
  "on_fetch f st = (case f (ss_fetch st) of (r, fs) \<Rightarrow> (r, st\<lparr>ss_fetch := fs\<rparr>))"

definition get_body :: "world \<Rightarrow> store \<Rightarrow> string \<Rightarrow> store_state \<Rightarrow> (fetch_error + string) \<times> store_state" where
  "get_body w s url st = on_fetch (get_validated (wd_net w) (so_fetcher s) url Revalidated None) st"

definition memoize_documents :: "store \<Rightarrow> bool" where
  "memoize_documents s \<longleftrightarrow>
     \<not> ft_no_cache (so_fetcher s) \<and> \<not> so_own_client s \<and> \<not> so_own_fs s \<and> ft_cache_dir (so_fetcher s) = []"

definition ok_result :: "'a go_result \<Rightarrow> 'a option" where
  "ok_result r = (case r of Inl _ \<Rightarrow> None | Inr x \<Rightarrow> Some x)"

definition read_index_body :: "world \<Rightarrow> 'e + string \<Rightarrow> registry_index option" where
  "read_index_body w r =
     (case r of Inl _ \<Rightarrow> None | Inr body \<Rightarrow> ok_result (read_index (wd_decode_index w body)))"

definition read_index_file :: "world \<Rightarrow> string \<Rightarrow> registry_index option" where
  "read_index_file w path = read_index_body w (wd_open w path)"

definition fetch_index :: "world \<Rightarrow> store \<Rightarrow> string \<Rightarrow> store_state \<Rightarrow> registry_index option \<times> store_state" where
  "fetch_index w s base st =
     (if refuse_insecure (so_fetcher s) base \<noteq> None then (None, st)
      else if memoize_documents s \<and> ss_indexes st base \<noteq> None then (ss_indexes st base, st)
      else (case get_body w s (join_url base [index_file]) st of
          (r, st) \<Rightarrow>
            (let idx = read_index_body w r in
             (idx, if memoize_documents s \<and> idx \<noteq> None
                   then st\<lparr>ss_indexes := (ss_indexes st)(base := idx)\<rparr> else st))))"

definition read_components_body :: "world \<Rightarrow> 'e + string \<Rightarrow> components_doc option" where
  "read_components_body w r =
     (case r of Inl _ \<Rightarrow> None | Inr body \<Rightarrow> ok_result (read_components (wd_decode_components w body)))"

definition read_components_file :: "world \<Rightarrow> string \<Rightarrow> components_doc option" where
  "read_components_file w path = read_components_body w (wd_open w path)"

definition fetch_components :: "world \<Rightarrow> store \<Rightarrow> string \<Rightarrow> store_state \<Rightarrow> components_doc option \<times> store_state" where
  "fetch_components w s base st =
     (if refuse_insecure (so_fetcher s) base \<noteq> None then (None, st)
      else if memoize_documents s \<and> ss_components st base \<noteq> None then (ss_components st base, st)
      else (case get_body w s (join_url base [components_file]) st of
          (r, st) \<Rightarrow>
            (let comps = read_components_body w r in
             (comps, if memoize_documents s \<and> comps \<noteq> None
                     then st\<lparr>ss_components := (ss_components st)(base := comps)\<rparr> else st))))"

definition index_at :: "world \<Rightarrow> store \<Rightarrow> string \<Rightarrow> store_state \<Rightarrow> registry_index option \<times> store_state" where
  "index_at w s loc st =
     (case loc_kind_of loc of
        LocRemote \<Rightarrow> fetch_index w s loc st
      | LocDir \<Rightarrow> (read_index_file w (path_join [loc, index_file]), st)
      | _ \<Rightarrow> (None, st))"

definition components_at :: "world \<Rightarrow> store \<Rightarrow> string \<Rightarrow> store_state \<Rightarrow> components_doc option \<times> store_state" where
  "components_at w s loc st =
     (case loc_kind_of loc of
        LocRemote \<Rightarrow> fetch_components w s loc st
      | LocDir \<Rightarrow> (read_components_file w (path_join [loc, components_file]), st)
      | _ \<Rightarrow> (None, st))"

subsection \<open>Versions, Distributions and Availability\<close>

definition flat_versions :: "world \<Rightarrow> string \<Rightarrow> string list" where
  "flat_versions w dir = concat (map (\<lambda>ext. map trim_ext (wd_glob w dir ext)) extensions)"

definition versions_at :: "world \<Rightarrow> store \<Rightarrow> string \<Rightarrow> store_state \<Rightarrow> string list \<times> store_state" where
  "versions_at w s loc st =
     (case loc_kind_of loc of
        LocRemote \<Rightarrow>
          (case fetch_index w s loc st of
             (None, st) \<Rightarrow> ([], st)
           | (Some idx, st) \<Rightarrow> (index_versions idx (store_distribution s), st))
      | LocDir \<Rightarrow>
          (case read_index_file w (path_join [loc, index_file]) of
             Some idx \<Rightarrow> (index_versions idx (store_distribution s), st)
           | None \<Rightarrow> (flat_versions w loc, st))
      | _ \<Rightarrow> ([], st))"

fun new_versions :: "string list \<Rightarrow> string go_set \<Rightarrow> string list \<Rightarrow> string go_set \<times> string list" where
  "new_versions [] seen out = (seen, out)"
| "new_versions (v # vs) seen out =
     (if v \<noteq> [] \<and> \<not> set_has seen v then new_versions vs (set_insert seen [v]) (out @ [v])
      else new_versions vs seen out)"

fun versions_loop :: "world \<Rightarrow> store \<Rightarrow> string list \<Rightarrow> string go_set \<Rightarrow> string list \<Rightarrow> store_state \<Rightarrow>
    string list \<times> store_state" where
  "versions_loop w s [] seen out st = (out, st)"
| "versions_loop w s (loc # locs) seen out st =
     (case versions_at w s loc st of
        (vs, st) \<Rightarrow> (case new_versions vs seen out of (seen, out) \<Rightarrow> versions_loop w s locs seen out st))"

definition newest_first :: "string list \<Rightarrow> string list" where
  "newest_first vs = sort_slice (\<lambda>a b. 0 < compare_version a b) vs"

definition store_versions :: "world \<Rightarrow> store \<Rightarrow> store_state \<Rightarrow> string list \<times> store_state" where
  "store_versions w s st =
     (case versions_loop w s (locations s) (set_new []) [] st of (out, st) \<Rightarrow> (newest_first out, st))"

fun distributions_loop :: "world \<Rightarrow> store \<Rightarrow> string list \<Rightarrow> store_state \<Rightarrow> string list \<times> store_state" where
  "distributions_loop w s [] st = ([], st)"
| "distributions_loop w s (loc # locs) st =
     (case index_at w s loc st of
        (Some idx, st) \<Rightarrow> (index_names idx, st)
      | (None, st) \<Rightarrow> distributions_loop w s locs st)"

definition store_distributions :: "world \<Rightarrow> store \<Rightarrow> store_state \<Rightarrow> string list \<times> store_state" where
  "store_distributions w s st = distributions_loop w s (locations s) st"

fun availability_loop :: "world \<Rightarrow> store \<Rightarrow> string list \<Rightarrow> store_state \<Rightarrow>
    (kind \<times> (string \<times> string list) list) list option \<times> store_state" where
  "availability_loop w s [] st = (None, st)"
| "availability_loop w s (loc # locs) st =
     (case components_at w s loc st of
        (None, st) \<Rightarrow> availability_loop w s locs st
      | (Some comps, st) \<Rightarrow>
          if \<not> components_has comps (store_distribution s) then availability_loop w s locs st
          else (case versions_at w s loc st of
              (vs, st) \<Rightarrow> (expand comps (store_distribution s) vs, st)))"

definition store_availability :: "world \<Rightarrow> store \<Rightarrow> store_state \<Rightarrow>
    (kind \<times> (string \<times> string list) list) list option \<times> store_state" where
  "store_availability w s st = availability_loop w s (locations s) st"

subsection \<open>Load\<close>

definition store_validate :: "store \<Rightarrow> string option" where
  "store_validate s = (if ft_insecure (so_fetcher s) then None else find is_insecure (locations s))"

definition validate_identity :: "schema \<Rightarrow> string \<Rightarrow> string \<Rightarrow> string option" where
  "validate_identity c version distribution =
     (let actual = (if sch_distribution c = [] then default_distribution else sch_distribution c) in
      if normalize (sch_collector_version c) \<noteq> version then
        Some (''schema identity mismatch: collectorVersion is '' @ go_quote (sch_collector_version c) @
              '', want '' @ go_quote version @ ''; check --schema-location or regenerate the schema'')
      else if actual \<noteq> distribution then
        Some (''schema identity mismatch: distribution is '' @ go_quote (sch_distribution c) @ '', want '' @
              go_quote distribution @ '' (missing distribution means '' @ go_quote default_distribution @
              ''); check --schema-location or regenerate the schema with an explicit distribution'')
      else None)"

definition read_body_schema :: "world \<Rightarrow> string \<Rightarrow> schema go_result" where
  "read_body_schema w body = (case wd_decode w body of (first, extra) \<Rightarrow> read_schema first extra)"

definition read_error :: "world \<Rightarrow> validator" where
  "read_error w body = (case read_body_schema w body of Inl e \<Rightarrow> Some e | Inr _ \<Rightarrow> None)"

definition fetch_schema :: "world \<Rightarrow> store \<Rightarrow> string \<Rightarrow> store_state \<Rightarrow> (load_error + schema) \<times> store_state" where
  "fetch_schema w s url st =
     (case on_fetch (get_validated (wd_net w) (so_fetcher s) url Immutable (Some (read_error w))) st of
        (Inl e, st) \<Rightarrow> (Inl (Fetching e), st)
      | (Inr body, st) \<Rightarrow>
          ((case read_body_schema w body of Inl e \<Rightarrow> Inl (Unreadable e) | Inr c \<Rightarrow> Inr c), st))"

definition read_schema_file :: "world \<Rightarrow> string \<Rightarrow> load_error + schema" where
  "read_schema_file w path =
     (case wd_open w path of
        Inl e \<Rightarrow> Inl e
      | Inr body \<Rightarrow>
          (case read_body_schema w body of Inl e \<Rightarrow> Inl (Unreadable (path @ '': '' @ e)) | Inr c \<Rightarrow> Inr c))"

definition read_local :: "world \<Rightarrow> string \<Rightarrow> load_error + schema" where
  "read_local w path = (if \<not> wd_exists w path then Inl Missing else read_schema_file w path)"

definition load_one :: "world \<Rightarrow> store \<Rightarrow> string \<Rightarrow> store_state \<Rightarrow> (load_error + schema) \<times> store_state" where
  "load_one w s target st =
     (if is_remote target then fetch_schema w s target st else (read_local w target, st))"

definition load_flat :: "world \<Rightarrow> string \<Rightarrow> string \<Rightarrow> load_error + schema" where
  "load_flat w dir version =
     (case find (wd_exists w) (map (\<lambda>ext. path_join [dir, version @ ext]) extensions) of
        None \<Rightarrow> Inl Missing
      | Some path \<Rightarrow> read_schema_file w path)"

definition registry_extensions :: "world \<Rightarrow> store \<Rightarrow> string \<Rightarrow> store_state \<Rightarrow> string list \<times> store_state" where
  "registry_extensions w s base st =
     (if loc_kind_of base \<noteq> LocRemote then (extensions, st)
      else (case index_at w s base st of
          (None, st) \<Rightarrow> (extensions, st)
        | (Some idx, st) \<Rightarrow>
            (case index_extension idx (store_distribution s) of
               None \<Rightarrow> (extensions, st)
             | Some named \<Rightarrow> (named # filter (\<lambda>ext. ext \<noteq> named) extensions, st))))"

fun try_extensions :: "(string \<Rightarrow> store_state \<Rightarrow> (load_error + schema) \<times> store_state) \<Rightarrow> string list \<Rightarrow>
    store_state \<Rightarrow> (load_error + schema) \<times> store_state" where
  "try_extensions read [] st = (Inl Missing, st)"
| "try_extensions read (target # targets) st =
     (case read target st of
        (Inr c, st) \<Rightarrow> (Inr c, st)
      | (Inl e, st) \<Rightarrow> if \<not> is_missing e then (Inl e, st) else try_extensions read targets st)"

definition load_from_registry :: "world \<Rightarrow> store \<Rightarrow>
    (string \<Rightarrow> store_state \<Rightarrow> (load_error + schema) \<times> store_state) \<Rightarrow> string \<Rightarrow> string \<Rightarrow> store_state \<Rightarrow>
    (load_error + schema) \<times> store_state" where
  "load_from_registry w s read base version st =
     (case registry_extensions w s base st of
        (exts, st) \<Rightarrow>
          try_extensions read (map (\<lambda>ext. join_url base [store_distribution s, version @ ext]) exts) st)"

definition load_from :: "world \<Rightarrow> store \<Rightarrow> string \<Rightarrow> string \<Rightarrow> store_state \<Rightarrow> (load_error + schema) \<times> store_state" where
  "load_from w s loc version st =
     (case loc_kind_of loc of
        LocRemote \<Rightarrow> load_from_registry w s (fetch_schema w s) loc version st
      | LocDir \<Rightarrow>
          if is_registry_dir w loc then
            load_from_registry w s (\<lambda>path st. (read_local w path, st)) loc version st
          else (load_flat w loc version, st)
      | _ \<Rightarrow> load_one w s (resolve_location w s loc version) st)"

definition check_identity :: "load_error + schema \<Rightarrow> string \<Rightarrow> string \<Rightarrow> load_error + schema" where
  "check_identity r version distribution =
     (case r of
        Inl e \<Rightarrow> Inl e
      | Inr c \<Rightarrow>
          (case validate_identity c version distribution of
             None \<Rightarrow> Inr c | Some e \<Rightarrow> Inl (IdentityMismatch e)))"

fun load_loop :: "world \<Rightarrow> store \<Rightarrow> string \<Rightarrow> string list \<Rightarrow> string list \<Rightarrow> store_state \<Rightarrow>
    (store_error + schema) \<times> store_state" where
  "load_loop w s version [] tried st =
     (case store_versions w s st of
        (available, st) \<Rightarrow>
          (Inl (UnknownVersion \<lparr>uv_version = version, uv_available = available, uv_tried = tried\<rparr>), st))"
| "load_loop w s version (loc # locs) tried st =
     (case load_from w s loc version st of
        (r, st) \<Rightarrow>
          (case check_identity r version (store_distribution s) of
             Inr c \<Rightarrow> (Inr c, st)
           | Inl e \<Rightarrow>
               if is_missing e then
                 load_loop w s version locs (tried @ [resolve_location w s loc version]) st
               else (Inl (LoadFailed (resolve_location w s loc version) e), st)))"

definition store_load :: "world \<Rightarrow> store \<Rightarrow> string \<Rightarrow> store_state \<Rightarrow> (store_error + schema) \<times> store_state" where
  "store_load w s version st =
     (case store_validate s of
        Some loc \<Rightarrow> (Inl (Refused loc), st)
      | None \<Rightarrow>
          if version = [] \<or> version = latest then
            (case store_versions w s st of
               ([], st) \<Rightarrow> (Inl (NoSchemas (locations s)), st)
             | (v # vs, st) \<Rightarrow> load_loop w s (normalize v) (locations s) [] st)
          else load_loop w s (normalize version) (locations s) [] st)"

subsection \<open>What every operation does to the state\<close>

text \<open>
  The interface of a relation between the states before and after: reflexive, transitive, and kept by the
  only two things an operation does to the state, a fetch and the memo of a document. Inside it, every
  operation of the store keeps the relation.
\<close>

locale store_effect =
  fixes w :: world and s :: store and ok :: "store_state \<Rightarrow> store_state \<Rightarrow> bool"
  assumes ok_refl: "ok st st"
    and ok_trans: "ok st st1 \<Longrightarrow> ok st1 st2 \<Longrightarrow> ok st st2"
    and ok_fetch: "get_validated (wd_net w) (so_fetcher s) url keep v (ss_fetch st) = (r, fs) \<Longrightarrow>
      ok st (st\<lparr>ss_fetch := fs\<rparr>)"
    and ok_index: "memoize_documents s \<Longrightarrow> ss_indexes st base = None \<Longrightarrow>
      ok st (st\<lparr>ss_indexes := (ss_indexes st)(base := idx)\<rparr>)"
    and ok_components: "memoize_documents s \<Longrightarrow> ss_components st base = None \<Longrightarrow>
      ok st (st\<lparr>ss_components := (ss_components st)(base := comps)\<rparr>)"
begin

lemma on_fetch_ok:
  "on_fetch (get_validated (wd_net w) (so_fetcher s) url keep v) st = (r, st') \<Longrightarrow> ok st st'"
  by (auto simp: on_fetch_def intro: ok_fetch split: prod.splits)

lemma get_body_ok:
  assumes "get_body w s url st = (r, st')"
  shows "ok st st' \<and> ss_indexes st' = ss_indexes st \<and> ss_components st' = ss_components st"
  using on_fetch_ok assms by (auto simp: get_body_def on_fetch_def split: prod.splits)

lemma fetch_index_ok: "fetch_index w s base st = (r, st') \<Longrightarrow> ok st st'"
  by (auto simp: fetch_index_def Let_def ok_refl split: if_splits prod.splits dest!: get_body_ok
      intro!: ok_trans [OF _ ok_index])

lemma fetch_components_ok: "fetch_components w s base st = (r, st') \<Longrightarrow> ok st st'"
  by (auto simp: fetch_components_def Let_def ok_refl split: if_splits prod.splits dest!: get_body_ok
      intro!: ok_trans [OF _ ok_components])

lemma index_at_ok: "index_at w s loc st = (r, st') \<Longrightarrow> ok st st'"
  by (auto simp: index_at_def ok_refl intro: fetch_index_ok split: loc_kind.splits)

lemma components_at_ok: "components_at w s loc st = (r, st') \<Longrightarrow> ok st st'"
  by (auto simp: components_at_def ok_refl intro: fetch_components_ok split: loc_kind.splits)

lemma versions_at_ok: "versions_at w s loc st = (r, st') \<Longrightarrow> ok st st'"
  by (auto simp: versions_at_def ok_refl intro: fetch_index_ok
      split: loc_kind.splits prod.splits option.splits)

lemma versions_loop_ok: "versions_loop w s locs seen out st = (r, st') \<Longrightarrow> ok st st'"
  by (induction locs arbitrary: seen out st)
    (auto simp: ok_refl split: prod.splits dest!: versions_at_ok intro: ok_trans)

lemma versions_ok: "store_versions w s st = (r, st') \<Longrightarrow> ok st st'"
  by (auto simp: store_versions_def intro: versions_loop_ok split: prod.splits)

lemma distributions_ok: "store_distributions w s st = (r, st') \<Longrightarrow> ok st st'"
proof -
  have "distributions_loop w s locs st = (r, st') \<Longrightarrow> ok st st'" for locs
    by (induction locs arbitrary: st)
      (auto simp: ok_refl split: prod.splits option.splits dest!: index_at_ok intro: ok_trans)
  then show "store_distributions w s st = (r, st') \<Longrightarrow> ok st st'" by (simp add: store_distributions_def)
qed

lemma availability_ok: "store_availability w s st = (r, st') \<Longrightarrow> ok st st'"
proof -
  have "availability_loop w s locs st = (r, st') \<Longrightarrow> ok st st'" for locs
    by (induction locs arbitrary: st)
      (auto simp: ok_refl split: prod.splits option.splits if_splits dest!: components_at_ok versions_at_ok
        intro: ok_trans)
  then show "store_availability w s st = (r, st') \<Longrightarrow> ok st st'" by (simp add: store_availability_def)
qed

lemma fetch_schema_ok: "fetch_schema w s url st = (r, st') \<Longrightarrow> ok st st'"
  by (auto simp: fetch_schema_def dest!: on_fetch_ok split: prod.splits sum.splits)

lemma load_one_ok: "load_one w s target st = (r, st') \<Longrightarrow> ok st st'"
  by (auto simp: load_one_def ok_refl intro: fetch_schema_ok split: if_splits)

lemma registry_extensions_ok: "registry_extensions w s base st = (r, st') \<Longrightarrow> ok st st'"
  by (auto simp: registry_extensions_def ok_refl dest!: index_at_ok
      split: if_splits prod.splits option.splits)

lemma try_extensions_ok:
  assumes "\<And>t st r st'. read t st = (r, st') \<Longrightarrow> ok st st'"
  shows "try_extensions read targets st = (r, st') \<Longrightarrow> ok st st'"
  by (induction targets arbitrary: st)
    (auto simp: ok_refl split: prod.splits sum.splits if_splits dest!: assms intro: ok_trans)

lemma load_from_ok: "load_from w s loc version st = (r, st') \<Longrightarrow> ok st st'"
proof -
  have reg: "load_from_registry w s read base version st = (r, st') \<Longrightarrow> ok st st'"
    if "\<And>t st r st'. read t st = (r, st') \<Longrightarrow> ok st st'" for read base
    using try_extensions_ok [OF that]
    by (auto simp: load_from_registry_def dest!: registry_extensions_ok split: prod.splits intro: ok_trans)
  have disk: "load_from_registry w s (\<lambda>path st. (read_local w path, st)) base version st = (r, st') \<Longrightarrow> ok st st'"
    for base
    by (rule reg) (auto simp: ok_refl)
  show "load_from w s loc version st = (r, st') \<Longrightarrow> ok st st'"
    by (auto simp: load_from_def ok_refl intro: load_one_ok fetch_schema_ok reg disk
        split: loc_kind.splits if_splits)
qed

lemma load_loop_ok: "load_loop w s version locs tried st = (r, st') \<Longrightarrow> ok st st'"
  by (induction locs arbitrary: tried st)
    (auto split: prod.splits sum.splits if_splits dest!: load_from_ok versions_ok intro: ok_trans)

lemma load_ok: "store_load w s version st = (r, st') \<Longrightarrow> ok st st'"
  by (auto simp: store_load_def ok_refl split: option.splits if_splits prod.splits list.splits
      dest!: load_loop_ok versions_ok intro: ok_trans)

end

subsection \<open>No request over plain http\<close>

definition only_allowed :: "store \<Rightarrow> store_state \<Rightarrow> store_state \<Rightarrow> bool" where
  "only_allowed s st st' \<longleftrightarrow>
     (\<exists>us. fs_requests (ss_fetch st') = fs_requests (ss_fetch st) @ us \<and>
        (\<forall>u \<in> set us. refuse_insecure (so_fetcher s) u = None))"

interpretation allowed: store_effect w s "only_allowed s" for w s
proof unfold_locales
  show "only_allowed s st (st\<lparr>ss_fetch := fs\<rparr>)"
    if "get_validated (wd_net w) (so_fetcher s) url keep v (ss_fetch st) = (r, fs)" for url keep v st r fs
    using get_validated_logged [OF that] by (auto simp: only_allowed_def)
  show "only_allowed s st st1 \<Longrightarrow> only_allowed s st1 st2 \<Longrightarrow> only_allowed s st st2" for st st1 st2
    by (auto simp: only_allowed_def)
qed (simp_all add: only_allowed_def)

subsection \<open>A registry document is read once\<close>

definition documents_kept :: "store_state \<Rightarrow> store_state \<Rightarrow> bool" where
  "documents_kept st st' \<longleftrightarrow> ss_indexes st \<subseteq>\<^sub>m ss_indexes st' \<and> ss_components st \<subseteq>\<^sub>m ss_components st'"

interpretation memo: store_effect w s documents_kept for w s
proof unfold_locales
  show "documents_kept st st1 \<Longrightarrow> documents_kept st1 st2 \<Longrightarrow> documents_kept st st2" for st st1 st2
    by (auto simp: documents_kept_def intro: map_le_trans)
qed (auto simp: documents_kept_def map_le_def dom_def)

subsection \<open>The releases a store lists\<close>

text \<open>What each location lists at its turn, the state threaded through.\<close>

fun listings :: "world \<Rightarrow> store \<Rightarrow> string list \<Rightarrow> store_state \<Rightarrow> string list list" where
  "listings w s [] st = []"
| "listings w s (loc # locs) st =
     (case versions_at w s loc st of (vs, st) \<Rightarrow> vs # listings w s locs st)"

lemma new_versions_spec:
  "new_versions vs seen out = (seen', out') \<Longrightarrow> set_elems seen = set out \<Longrightarrow> distinct out \<Longrightarrow> [] \<notin> set out \<Longrightarrow>
   set_elems seen' = set out' \<and> distinct out' \<and> set out' = set out \<union> (set vs - {[]})"
proof (induction vs seen out rule: new_versions.induct)
  case (2 v vs seen out)
  show ?case
  proof (cases "v \<noteq> [] \<and> \<not> set_has seen v")
    case True
    then have step: "new_versions vs (set_insert seen [v]) (out @ [v]) = (seen', out')"
      using "2.prems"(1) by simp
    have "v \<notin> set out" using True "2.prems"(2) by simp
    then have "set_elems seen' = set out' \<and> distinct out' \<and> set out' = set (out @ [v]) \<union> (set vs - {[]})"
      using True "2.prems"(2-) by (intro "2.IH"(1) [OF True step]) simp_all
    then show ?thesis using True by auto
  next
    case False
    then have step: "new_versions vs seen out = (seen', out')" using "2.prems"(1) by (simp split: if_splits)
    have "set_elems seen' = set out' \<and> distinct out' \<and> set out' = set out \<union> (set vs - {[]})"
      by (rule "2.IH"(2) [OF False step "2.prems"(2-)])
    then show ?thesis using False "2.prems"(2) by auto
  qed
qed simp

lemma versions_loop_spec:
  "versions_loop w s locs seen out st = (out', st') \<Longrightarrow> set_elems seen = set out \<Longrightarrow> distinct out \<Longrightarrow> [] \<notin> set out \<Longrightarrow>
   distinct out' \<and> set out' = set out \<union> (\<Union>vs \<in> set (listings w s locs st). set vs - {[]})"
proof (induction locs arbitrary: seen out st)
  case (Cons loc locs)
  obtain vs st1 where v: "versions_at w s loc st = (vs, st1)" by fastforce
  obtain seen1 out1 where n: "new_versions vs seen out = (seen1, out1)" by fastforce
  have spec: "set_elems seen1 = set out1" "distinct out1" "set out1 = set out \<union> (set vs - {[]})"
    using new_versions_spec [OF n] Cons.prems by simp_all
  have "[] \<notin> set out1" using spec(3) Cons.prems(4) by simp
  from Cons.IH [OF _ spec(1,2) this] Cons.prems(1) spec(3) show ?case
    by (auto simp: v n)
qed simp

definition offered :: "world \<Rightarrow> store \<Rightarrow> store_state \<Rightarrow> string set" where
  "offered w s st = (\<Union>vs \<in> set (listings w s (locations s) st). set vs - {[]})"

lemma store_versions_spec:
  assumes "store_versions w s st = (vs, st')"
  shows "distinct vs" "set vs = offered w s st"
    "sorted_wrt (\<lambda>a b. 0 \<le> compare_version a b) vs"
proof -
  obtain out st1 where l: "versions_loop w s (locations s) (set_new []) [] st = (out, st1)" by fastforce
  have vs: "vs = newest_first out" using assms by (simp add: store_versions_def l)
  show "distinct vs" "set vs = offered w s st"
    using versions_loop_spec [OF l] by (simp_all add: vs newest_first_def offered_def)
  show "sorted_wrt (\<lambda>a b. 0 \<le> compare_version a b) vs"
    unfolding vs newest_first_def by (rule rel.newest_first_sorted)
qed

subsection \<open>What Load answers\<close>

definition load_step :: "world \<Rightarrow> store \<Rightarrow> string \<Rightarrow> string \<Rightarrow> store_state \<Rightarrow> (load_error + schema) \<times> store_state" where
  "load_step w s version loc st =
     (case load_from w s loc version st of (r, st) \<Rightarrow> (check_identity r version (store_distribution s), st))"

text \<open>The locations before the one that decides: each of them is missing the version.\<close>

inductive passed_over :: "world \<Rightarrow> store \<Rightarrow> string \<Rightarrow> string list \<Rightarrow> store_state \<Rightarrow> store_state \<Rightarrow> bool"
  for w :: world and s :: store and version :: string where
  passed_none: "passed_over w s version [] st st"
| passed_one: "load_step w s version loc st = (Inl e, st1) \<Longrightarrow> is_missing e \<Longrightarrow>
    passed_over w s version locs st1 st2 \<Longrightarrow> passed_over w s version (loc # locs) st st2"

definition decided :: "world \<Rightarrow> store \<Rightarrow> string \<Rightarrow> string list \<Rightarrow> store_state \<Rightarrow> string \<Rightarrow> load_error + schema \<Rightarrow>
    store_state \<Rightarrow> bool" where
  "decided w s version locs st loc r st' \<longleftrightarrow>
     (\<exists>before after st1. locs = before @ loc # after \<and> passed_over w s version before st st1 \<and>
        load_step w s version loc st1 = (r, st'))"

lemma decided_here: "load_step w s version loc st = (r, st') \<Longrightarrow> decided w s version (loc # locs) st loc r st'"
  unfolding decided_def using passed_none by fastforce

lemma decided_later:
  assumes "load_step w s version l st = (Inl e, st1)" "is_missing e" "decided w s version locs st1 loc r st'"
  shows "decided w s version (l # locs) st loc r st'"
proof -
  obtain before after st2 where "locs = before @ loc # after" "passed_over w s version before st1 st2"
    "load_step w s version loc st2 = (r, st')"
    using assms(3) unfolding decided_def by blast
  then show ?thesis
    unfolding decided_def using passed_one [OF assms(1,2)] by (metis append_Cons)
qed

fun load_answer :: "world \<Rightarrow> store \<Rightarrow> string \<Rightarrow> string list \<Rightarrow> store_state \<Rightarrow> string list \<Rightarrow> store_error + schema \<Rightarrow>
    store_state \<Rightarrow> bool" where
  "load_answer w s version locs st tried (Inr c) st' \<longleftrightarrow> (\<exists>loc. decided w s version locs st loc (Inr c) st')"
| "load_answer w s version locs st tried (Inl (LoadFailed target e)) st' \<longleftrightarrow>
     (\<exists>loc. decided w s version locs st loc (Inl e) st' \<and> \<not> is_missing e \<and>
        target = resolve_location w s loc version)"
| "load_answer w s version locs st tried (Inl (UnknownVersion e)) st' \<longleftrightarrow>
     (\<exists>st1. passed_over w s version locs st st1 \<and> store_versions w s st1 = (uv_available e, st')) \<and>
     uv_version e = version \<and> uv_tried e = tried @ map (\<lambda>loc. resolve_location w s loc version) locs"
| "load_answer w s version locs st tried _ st' \<longleftrightarrow> False"

lemma load_answer_later:
  assumes step: "load_step w s version l st = (Inl e, st1)" "is_missing e"
    and tail: "load_answer w s version locs st1 (tried @ [resolve_location w s l version]) r st'"
  shows "load_answer w s version (l # locs) st tried r st'"
proof (cases r)
  case (Inr c)
  then show ?thesis using tail decided_later [OF step] unfolding Inr load_answer.simps by blast
next
  case (Inl se)
  show ?thesis
  proof (cases se)
    case (UnknownVersion e)
    then show ?thesis using tail passed_one [OF step] unfolding Inl by auto
  next
    case (LoadFailed target e)
    then show ?thesis using tail decided_later [OF step] unfolding Inl LoadFailed load_answer.simps by blast
  qed (use tail in \<open>simp_all add: Inl\<close>)
qed

lemma load_loop_answer: "load_loop w s version locs tried st = (r, st') \<Longrightarrow> load_answer w s version locs st tried r st'"
proof (induction locs arbitrary: tried st)
  case Nil
  then show ?case by (auto split: prod.splits intro!: exI [of _ st] passed_none)
next
  case (Cons loc locs)
  obtain q st1 where l: "load_from w s loc version st = (q, st1)" by fastforce
  let ?c = "check_identity q version (store_distribution s)"
  have step: "load_step w s version loc st = (?c, st1)" by (simp add: load_step_def l)
  show ?case
  proof (cases ?c)
    case (Inr c)
    with Cons.prems step decided_here show ?thesis by (fastforce simp: l)
  next
    case (Inl e)
    show ?thesis
    proof (cases "is_missing e")
      case True
      with Inl Cons.prems show ?thesis
        by (intro load_answer_later [OF step [unfolded Inl] True] Cons.IH) (simp add: l)
    next
      case False
      with Inl Cons.prems step decided_here show ?thesis by (fastforce simp: l)
    qed
  qed
qed

lemma check_identity_ok:
  "check_identity r version distribution = Inr c \<Longrightarrow>
     r = Inr c \<and> normalize (sch_collector_version c) = version \<and>
     (if sch_distribution c = [] then default_distribution else sch_distribution c) = distribution"
  by (auto simp: check_identity_def validate_identity_def Let_def split: sum.splits option.splits if_splits)

lemma decided_schema:
  "decided w s version locs st loc (Inr c) st' \<Longrightarrow>
     loc \<in> set locs \<and> normalize (sch_collector_version c) = version \<and>
     (if sch_distribution c = [] then default_distribution else sch_distribution c) = store_distribution s"
  unfolding decided_def load_step_def
  by (elim exE conjE, split prod.splits) (auto dest: check_identity_ok)

lemma store_validate_none:
  "store_validate s = None \<longleftrightarrow> ft_insecure (so_fetcher s) \<or> (\<forall>loc \<in> set (locations s). \<not> is_insecure loc)"
  by (auto simp: store_validate_def find_None_iff)

lemma store_validate_some:
  "store_validate s = Some loc \<Longrightarrow> \<not> ft_insecure (so_fetcher s) \<and> loc \<in> set (locations s) \<and> is_insecure loc"
  by (auto simp: store_validate_def find_Some_iff split: if_splits)

text \<open>The release \<open>Load\<close> looks for: the one asked for, or the newest one any location lists.\<close>

definition release_meant :: "world \<Rightarrow> store \<Rightarrow> string \<Rightarrow> store_state \<Rightarrow> string \<Rightarrow> store_state \<Rightarrow> bool" where
  "release_meant w s version st v st1 \<longleftrightarrow>
     (if version = [] \<or> version = latest
      then st1 = snd (store_versions w s st) \<and>
        (\<exists>newest. newest \<in> offered w s st \<and> (\<forall>u \<in> offered w s st. compare_version u newest \<le> 0) \<and> v = normalize newest)
      else v = normalize version \<and> st1 = st)"

lemma newest_is_newest:
  assumes "store_versions w s st = (newest # others, st1)"
  shows "newest \<in> offered w s st \<and> (\<forall>u \<in> offered w s st. compare_version u newest \<le> 0)"
  using store_versions_spec(2,3) [OF assms] by (auto simp: rel.cmp_le_iff rel.cmp_refl simp flip: store_versions_spec(2) [OF assms])

lemma unknown_nearest:
  assumes "store_versions w s st = (uv_available e, st')"
  shows "case nearest e of
      None \<Rightarrow> \<forall>u \<in> set (uv_available e). 0 < compare_version u (uv_version e)
    | Some v \<Rightarrow> v \<in> set (uv_available e) \<and> compare_version v (uv_version e) \<le> 0 \<and>
        (\<forall>u \<in> set (uv_available e). compare_version u (uv_version e) \<le> 0 \<longrightarrow> compare_version u v \<le> 0)"
proof (cases "nearest e")
  case None
  then have "\<forall>u \<in> set (uv_available e). 0 < compare_version u (uv_version e)"
    by (auto simp: nearest_def find_None_iff not_le)
  then show ?thesis unfolding None option.case .
next
  case (Some v)
  with rel.find_newest [OF store_versions_spec(3) [OF assms] Some [unfolded nearest_def]] show ?thesis by simp
qed

lemma store_load_answer:
  assumes "store_load w s version st = (r, st')"
  shows "(\<exists>loc. store_validate s = Some loc \<and> r = Inl (Refused loc) \<and> st' = st) \<or>
    store_validate s = None \<and>
      ((version = [] \<or> version = latest) \<and> store_versions w s st = ([], st') \<and> r = Inl (NoSchemas (locations s)) \<or>
       (\<exists>v st1. release_meant w s version st v st1 \<and> load_answer w s v (locations s) st1 [] r st'))"
proof (cases "store_validate s")
  case (Some loc)
  then show ?thesis using assms by (simp add: store_load_def)
next
  case None
  show ?thesis
  proof (cases "version = [] \<or> version = latest")
    case True
    obtain vs st1 where v: "store_versions w s st = (vs, st1)" by fastforce
    show ?thesis
    proof (cases vs)
      case Nil
      then show ?thesis using assms None True by (simp add: store_load_def v)
    next
      case (Cons newest others)
      then have "load_loop w s (normalize newest) (locations s) [] st1 = (r, st')"
        using assms None True by (simp add: store_load_def v)
      moreover have "release_meant w s version st (normalize newest) st1"
        using True newest_is_newest [OF v [unfolded Cons]] by (auto simp: release_meant_def v)
      ultimately show ?thesis using None load_loop_answer by blast
    qed
  next
    case False
    then have "load_loop w s (normalize version) (locations s) [] st = (r, st')"
      using assms None by (simp add: store_load_def)
    moreover have "release_meant w s version st (normalize version) st"
      using False by (simp add: release_meant_def)
    ultimately show ?thesis using None load_loop_answer by blast
  qed
qed

text \<open>
  C22: \<open>Load\<close> answers with a schema only from the first location that is not missing the release, and
  that schema declares the release asked for (or the newest listed) and the distribution of the store; a
  store with a plain http location is refused; no schemas are reported when no location lists a release; and
  an unknown version names every location tried in order, offers exactly the releases the locations list, each
  once and newest first, and its \<open>Nearest\<close> is the newest of those not newer than the one asked for.
\<close>

theorem store_load_correct:
  assumes "store_load w s version st = (r, st')"
  shows "case r of
      Inr c \<Rightarrow> \<exists>v st1 loc. release_meant w s version st v st1 \<and> decided w s v (locations s) st1 loc (Inr c) st' \<and>
        normalize (sch_collector_version c) = v \<and>
        (if sch_distribution c = [] then default_distribution else sch_distribution c) = store_distribution s \<and>
        (ft_insecure (so_fetcher s) \<or> (\<forall>loc \<in> set (locations s). \<not> is_insecure loc))
    | Inl (Refused loc) \<Rightarrow> \<not> ft_insecure (so_fetcher s) \<and> loc \<in> set (locations s) \<and> is_insecure loc \<and> st' = st
    | Inl (NoSchemas locs) \<Rightarrow> locs = locations s \<and> (version = [] \<or> version = latest) \<and> offered w s st = {}
    | Inl (LoadFailed target e) \<Rightarrow> \<exists>v st1 loc. release_meant w s version st v st1 \<and>
        decided w s v (locations s) st1 loc (Inl e) st' \<and> \<not> is_missing e \<and> target = resolve_location w s loc v
    | Inl (UnknownVersion e) \<Rightarrow>
        (\<exists>st1 st2. release_meant w s version st (uv_version e) st1 \<and>
           passed_over w s (uv_version e) (locations s) st1 st2 \<and>
           distinct (uv_available e) \<and> set (uv_available e) = offered w s st2) \<and>
        uv_tried e = map (\<lambda>loc. resolve_location w s loc (uv_version e)) (locations s) \<and>
        sorted_wrt (\<lambda>a b. 0 \<le> compare_version a b) (uv_available e) \<and>
        (case nearest e of
           None \<Rightarrow> \<forall>u \<in> set (uv_available e). 0 < compare_version u (uv_version e)
         | Some v \<Rightarrow> v \<in> set (uv_available e) \<and> compare_version v (uv_version e) \<le> 0 \<and>
             (\<forall>u \<in> set (uv_available e). compare_version u (uv_version e) \<le> 0 \<longrightarrow> compare_version u v \<le> 0))"
proof (cases r)
  case (Inr c)
  with store_load_answer [OF assms] obtain v st1 loc where "store_validate s = None"
    "release_meant w s version st v st1" "decided w s v (locations s) st1 loc (Inr c) st'"
    by auto
  with decided_schema [OF this(3)] show ?thesis unfolding Inr store_validate_none by auto
next
  case (Inl se)
  show ?thesis
  proof (cases se)
    case (Refused loc)
    with store_load_answer [OF assms] show ?thesis by (auto simp: Inl dest: store_validate_some)
  next
    case (NoSchemas locs)
    with store_load_answer [OF assms] have "locs = locations s" "version = [] \<or> version = latest"
      "store_versions w s st = ([], st')" by (auto simp: Inl)
    then show ?thesis using store_versions_spec(2) [of w s st "[]" st'] by (simp add: Inl NoSchemas)
  next
    case (LoadFailed target e)
    with store_load_answer [OF assms] show ?thesis unfolding Inl LoadFailed by auto
  next
    case (UnknownVersion e)
    with store_load_answer [OF assms] obtain v st1 st2 where m: "release_meant w s version st v st1"
      "passed_over w s v (locations s) st1 st2" "store_versions w s st2 = (uv_available e, st')"
      "uv_version e = v" "uv_tried e = map (\<lambda>loc. resolve_location w s loc v) (locations s)"
      unfolding Inl by auto
    show ?thesis
      unfolding Inl UnknownVersion sum.case store_error.case
      using m store_versions_spec [OF m(3)] unknown_nearest [OF m(3)] by blast
  qed
qed

text \<open>A document that has been read is in the memo, and what is in the memo is answered from it.\<close>

lemma read_is_memoised:
  "fetch_index w s base st = (Some idx, st1) \<Longrightarrow> memoize_documents s \<Longrightarrow>
     refuse_insecure (so_fetcher s) base = None \<and> ss_indexes st1 base = Some idx"
  "fetch_components w s base st = (Some comps, st1) \<Longrightarrow> memoize_documents s \<Longrightarrow>
     refuse_insecure (so_fetcher s) base = None \<and> ss_components st1 base = Some comps"
  by (auto simp: fetch_index_def fetch_components_def Let_def split: if_splits prod.splits)

lemma memoised_answers:
  "refuse_insecure (so_fetcher s) base = None \<Longrightarrow> memoize_documents s \<Longrightarrow> ss_indexes st base = Some idx \<Longrightarrow>
     fetch_index w s base st = (Some idx, st)"
  "refuse_insecure (so_fetcher s) base = None \<Longrightarrow> memoize_documents s \<Longrightarrow> ss_components st base = Some comps \<Longrightarrow>
     fetch_components w s base st = (Some comps, st)"
  by (simp_all add: fetch_index_def fetch_components_def)


subsection \<open>Examples\<close>

text \<open>A directory of schemas, flat, behind one that has none.\<close>

definition demo_world :: world where
  "demo_world = \<lparr>wd_net = demo_net, wd_exists = (\<lambda>p. p = ''own/v0.130.0.yaml'' \<or> p = ''own/v0.9.0.json''),
     wd_open = (\<lambda>p. if p = ''own/v0.130.0.yaml'' then Inr ''new'' else Inl Missing),
     wd_glob = (\<lambda>dir ext. if dir = ''own'' then (if ext = ''.yaml'' then [''v0.130.0.yaml'']
        else if ext = ''.json'' then [''v0.9.0.json''] else []) else []),
     wd_decode = (\<lambda>body. (if body = ''new'' then Decoded (demo_raw_schema (Some (RawField ''map'' [] [] [] True [] [] [])))
        else AtEOF, AtEOF)),
     wd_decode_index = (\<lambda>_. Inl []), wd_decode_components = (\<lambda>_. Inl [])\<rparr>"

definition demo_store :: store where
  "demo_store = \<lparr>so_locations = [''empty'', ''own''], so_distribution = [], so_fetcher = demo_fetcher,
     so_own_client = False, so_own_fs = True\<rparr>"

definition demo_store_state :: store_state where
  "demo_store_state = \<lparr>ss_fetch = demo_fetch_state, ss_indexes = (\<lambda>_. None), ss_components = (\<lambda>_. None)\<rparr>"

definition demo_loaded :: "(store_error + schema) \<times> store_state" where
  "demo_loaded = store_load demo_world demo_store ''latest'' demo_store_state"

definition demo_unknown :: "(store_error + schema) \<times> store_state" where
  "demo_unknown = store_load demo_world demo_store ''0.20.0'' demo_store_state"

lemma demo_loaded_version:
  "(case fst demo_loaded of Inr c \<Rightarrow> sch_collector_version c = ''v0.130.0'' | Inl _ \<Rightarrow> False)"
  "(case fst demo_unknown of
      Inl (UnknownVersion e) \<Rightarrow> uv_available e = [''v0.130.0'', ''v0.9.0''] \<and> nearest e = Some ''v0.9.0''
    | _ \<Rightarrow> False)"
  by code_simp+

lemma store_load_correct_witness:
  "(case fst demo_unknown of Inl (UnknownVersion e) \<Rightarrow> length (uv_tried e) = 2 | _ \<Rightarrow> False)"
proof -
  obtain r st' where l: "store_load demo_world demo_store ''0.20.0'' demo_store_state = (r, st')" by fastforce
  then have d: "fst demo_unknown = r" by (simp add: demo_unknown_def)
  obtain e where r: "r = Inl (UnknownVersion e)"
    using demo_loaded_version(2) unfolding d by (auto split: sum.splits store_error.splits)
  have "length (locations demo_store) = 2" by code_simp
  then show ?thesis using store_load_correct [OF l] unfolding d r by simp
qed


end
