(* ===== verification/Encoders.thy ===== *)
theory Encoders
  imports Strconv
begin

section \<open>Writing JSON and XML\<close>

text \<open>
  The part of \<open>encoding/json\<close> and \<open>encoding/xml\<close> the reports use: an encoder with an indent of two spaces
  over a report's values, and the escaping of both formats. Texts are bytes: what either package does to
  bytes that are not UTF-8, and \<open>encoding/json\<close> to U+2028 and U+2029, is not modelled.
\<close>

definition newline_at :: "nat \<Rightarrow> string" where
  "newline_at n = CHR 0x0A # concat (replicate n ''  '')"

subsection \<open>encoding/json\<close>

datatype json = JStr string | JNum int | JArr "json list" | JObj "(string \<times> json) list"

definition json_char :: "char \<Rightarrow> string" where
  "json_char c =
     (if c = CHR 0x22 then [CHR 0x5C, CHR 0x22]
      else if c = CHR 0x5C then [CHR 0x5C, CHR 0x5C]
      else if c = CHR 0x08 then [CHR 0x5C, CHR ''b'']
      else if c = CHR 0x0C then [CHR 0x5C, CHR ''f'']
      else if c = CHR 0x0A then [CHR 0x5C, CHR ''n'']
      else if c = CHR 0x0D then [CHR 0x5C, CHR ''r'']
      else if c = CHR 0x09 then [CHR 0x5C, CHR ''t'']
      else if of_char c < (32 :: nat) \<or> c = CHR ''<'' \<or> c = CHR ''>'' \<or> c = CHR ''&''
        then [CHR 0x5C, CHR ''u'', CHR ''0'', CHR ''0''] @ hex_byte (of_char c)
      else [c])"

definition json_string :: "string \<Rightarrow> string" where
  "json_string s = CHR 0x22 # concat (map json_char s) @ [CHR 0x22]"

definition json_lines :: "nat \<Rightarrow> char \<Rightarrow> string list \<Rightarrow> char \<Rightarrow> string" where
  "json_lines n opening items closing =
     (if items = [] then [opening, closing]
      else [opening] @ newline_at (n + 1) @ join_strings ('','' @ newline_at (n + 1)) items @
        newline_at n @ [closing])"

fun json_encode :: "nat \<Rightarrow> json \<Rightarrow> string" where
  "json_encode n (JStr s) = json_string s"
| "json_encode n (JNum i) = itoa i"
| "json_encode n (JArr xs) = json_lines n (CHR ''['') (map (json_encode (n + 1)) xs) (CHR '']'')"
| "json_encode n (JObj kvs) =
     json_lines n (CHR ''{'') (map (\<lambda>kv. json_string (fst kv) @ '': '' @ json_encode (n + 1) (snd kv)) kvs) (CHR ''}'')"

text \<open>The members of a struct in order; one with \<open>omitempty\<close> is left out when it is empty.\<close>

definition always :: "string \<Rightarrow> json \<Rightarrow> (string \<times> json) list" where
  "always name v = [(name, v)]"

definition json_empty :: "json \<Rightarrow> bool" where
  "json_empty v \<longleftrightarrow> v = JStr [] \<or> v = JNum 0 \<or> v = JArr []"

definition omit_empty :: "string \<Rightarrow> json \<Rightarrow> (string \<times> json) list" where
  "omit_empty name v = (if json_empty v then [] else [(name, v)])"

subsection \<open>encoding/xml\<close>

datatype xml = Elem (xml_name: string) (xml_attrs: "(string \<times> string) list") (xml_text: string)
  (xml_children: "xml list")

definition replacement_char :: string where
  "replacement_char = [CHR 0xEF, CHR 0xBF, CHR 0xBD]"

definition xml_char :: "char \<Rightarrow> string" where
  "xml_char c =
     (if c = CHR 0x22 then ''&#34;''
      else if c = CHR 0x27 then ''&#39;''
      else if c = CHR ''&'' then ''&amp;''
      else if c = CHR ''<'' then ''&lt;''
      else if c = CHR ''>'' then ''&gt;''
      else if c = CHR 0x09 then ''&#x9;''
      else if c = CHR 0x0A then ''&#xA;''
      else if c = CHR 0x0D then ''&#xD;''
      else if of_char c < (32 :: nat) then replacement_char
      else [c])"

definition xml_escape :: "string \<Rightarrow> string" where
  "xml_escape s = concat (map xml_char s)"

definition xml_attr :: "string \<times> string \<Rightarrow> string" where
  "xml_attr a = '' '' @ fst a @ ''='' @ [CHR 0x22] @ xml_escape (snd a) @ [CHR 0x22]"

fun xml_encode :: "nat \<Rightarrow> xml \<Rightarrow> string" where
  "xml_encode n (Elem name attrs body children) =
     ''<'' @ name @ concat (map xml_attr attrs) @ ''>'' @ xml_escape body @
     concat (map (\<lambda>c. newline_at (n + 1) @ xml_encode (n + 1) c) children) @
     (if children = [] then [] else newline_at n) @ ''</'' @ name @ ''>''"

definition xml_header :: string where
  "xml_header = ''<?xml version='' @ [CHR 0x22] @ ''1.0'' @ [CHR 0x22] @ '' encoding='' @ [CHR 0x22] @
     ''UTF-8'' @ [CHR 0x22] @ ''?>'' @ [CHR 0x0A]"

end
