(* ===== verification/Output.thy ===== *)
theory Output
  imports Encoders Linter
begin

section \<open>Reports\<close>

text \<open>
  \<open>pkg/lint/output.go\<close>: the five formatters. A formatter's \<open>Result\<close> and \<open>Finish\<close> are modelled as the
  texts they write, in order, each one call of the writer; \<open>write_all\<close> hands them to a writer that may
  fail, and every formatter returns at the first failure, as the code does. A summary's counts are the
  naturals of theory \<open>Linter\<close>.
\<close>

record format_options =
  fo_verbose :: bool
  fo_summary :: bool
  fo_color :: bool

text \<open>\<open>writef\<close> and \<open>writeString\<close>: the writer accepts or refuses its next write.\<close>

fun write_all :: "(nat \<Rightarrow> bool) \<Rightarrow> string list \<Rightarrow> string list \<Rightarrow> string list \<times> bool" where
  "write_all accepts out [] = (out, True)"
| "write_all accepts out (s # ss) =
     (if accepts (length out) then write_all accepts (out @ [s]) ss else (out, False))"


definition show_nat :: "nat \<Rightarrow> string" where "show_nat n = itoa (int n)"

subsection \<open>coverage.go: the description\<close>

fun coverage_string :: "coverage_status \<Rightarrow> string" where
  "coverage_string CoverageComplete = ''complete''"
| "coverage_string CoveragePartial = ''partial''"
| "coverage_string CoverageNotChecked = ''not_checked''"

definition skip_reasons :: "string list" where
  "skip_reasons = [''missing_schema'', ''open_schema'', ''runtime_value'', ''unresolved_structure'', ''unknown_decoder'']"

definition count_reason :: "coverage_skip list \<Rightarrow> string \<Rightarrow> nat" where
  "count_reason skips reason = length (filter (\<lambda>s. sk_reason s = reason) skips)"

definition describe_reason :: "coverage_skip list \<Rightarrow> string \<Rightarrow> string" where
  "describe_reason skips reason =
     show_nat (count_reason skips reason) @ '' '' @ map (\<lambda>c. if c = CHR ''_'' then CHR '' '' else c) reason @ ''(s)''"

definition coverage_description :: "coverage \<Rightarrow> string" where
  "coverage_description c =
     (let parts = map (describe_reason (cv_skipped c)) (filter (\<lambda>r. 0 < count_reason (cv_skipped c) r) skip_reasons) @
            (if length (cv_field_rules c) = 0 then [''no field rules enabled''] else []);
          target = (if cv_version c \<noteq> [] then ''Collector '' @ cv_version c @ '', distribution '' @ cv_distribution c
                    else ''no schema target'')
      in ''validation coverage '' @ coverage_string (cv_status c) @ '' ('' @ target @ ''): '' @
         join_strings '', '' parts @ ''; see --output json for paths'')"

subsection \<open>text\<close>

definition ansi_code :: "string \<Rightarrow> string" where
  "ansi_code code = CHR 0x1B # ''['' @ code @ ''m''"

definition ansi_reset :: string where "ansi_reset = ansi_code ''0''"
definition ansi_bold :: string where "ansi_bold = ansi_code ''1''"
definition ansi_dim :: string where "ansi_dim = ansi_code ''2''"
definition ansi_red :: string where "ansi_red = ansi_code ''31''"
definition ansi_green :: string where "ansi_green = ansi_code ''32''"
definition ansi_yellow :: string where "ansi_yellow = ansi_code ''33''"
definition ansi_blue :: string where "ansi_blue = ansi_code ''34''"

definition in_color :: "format_options \<Rightarrow> string \<Rightarrow> string \<Rightarrow> string" where
  "in_color fo code s = (if \<not> fo_color fo then s else code @ s @ ansi_reset)"

definition severity_color :: "severity \<Rightarrow> string" where
  "severity_color s = (case s of Error \<Rightarrow> ansi_red | Warning \<Rightarrow> ansi_yellow | _ \<Rightarrow> ansi_blue)"

definition text_diagnostic :: "format_options \<Rightarrow> diagnostic \<Rightarrow> string list" where
  "text_diagnostic fo d =
     [in_color fo ansi_bold (position_string (d_position d)) @ '': '' @
        in_color fo (severity_color (d_severity d)) (severity_string (d_severity d) @ '':'') @ '' '' @ d_message d @ '' '' @
        in_color fo ansi_dim (''['' @ d_rule d @ '']'') @ nl] @
     (if d_hint d \<noteq> [] then [''    '' @ in_color fo ansi_dim ''hint:'' @ '' '' @ d_hint d @ nl] else []) @
     (if d_docs d \<noteq> [] then [''    '' @ in_color fo ansi_dim ''docs:'' @ '' '' @ d_docs d @ nl] else [])"

type_synonym rule_counts = "(string \<times> nat) list"

definition count_of :: "rule_counts \<Rightarrow> string \<Rightarrow> nat" where
  "count_of counts r = (case map_of counts r of None \<Rightarrow> 0 | Some n \<Rightarrow> n)"

definition count_rule :: "rule_counts \<Rightarrow> diagnostic \<Rightarrow> rule_counts" where
  "count_rule counts d = AList.update (d_rule d) (count_of counts (d_rule d) + 1) counts"

definition text_skipped :: "format_options \<Rightarrow> lint_result \<Rightarrow> string list" where
  "text_skipped fo r =
     (if \<not> fo_verbose fo then []
      else [rs_path r @ '': '' @
        in_color fo ansi_dim (if rs_skip_reason r \<noteq> [] then ''skipped: '' @ rs_skip_reason r else ''skipped'') @ nl])"

definition covered_fully :: "lint_result \<Rightarrow> bool" where
  "covered_fully r \<longleftrightarrow> (case rs_coverage r of None \<Rightarrow> True | Some c \<Rightarrow> cv_status c = CoverageComplete)"

definition text_findings :: "format_options \<Rightarrow> rule_counts \<Rightarrow> lint_result \<Rightarrow> string list \<times> rule_counts" where
  "text_findings fo counts r =
     (concat (map (text_diagnostic fo) (rs_diagnostics r)) @
        (case rs_coverage r of
           None \<Rightarrow> []
         | Some c \<Rightarrow> if cv_status c \<noteq> CoverageComplete then [rs_path r @ '': '' @ coverage_description c @ nl] else []),
      if fo_summary fo then foldl count_rule counts (rs_diagnostics r) else counts)"

definition text_result :: "format_options \<Rightarrow> rule_counts \<Rightarrow> lint_result \<Rightarrow> string list \<times> rule_counts" where
  "text_result fo counts r =
     (case rs_status r of
        StError \<Rightarrow> ([rs_path r @ '': '' @ in_color fo ansi_red ''error:'' @ '' '' @ result_message r @ nl], counts)
      | StSkipped \<Rightarrow> (text_skipped fo r, counts)
      | StInvalid \<Rightarrow> text_findings fo counts r
      | StValid \<Rightarrow>
          if length (rs_diagnostics r) = 0 \<and> covered_fully r then
            (if \<not> fo_verbose fo then ([], counts)
             else ([rs_path r @ '': '' @ in_color fo ansi_green ''valid'' @ nl], counts))
          else text_findings fo counts r)"

definition rule_before :: "rule_counts \<Rightarrow> string \<Rightarrow> string \<Rightarrow> bool" where
  "rule_before counts a b \<longleftrightarrow>
     (if count_of counts a \<noteq> count_of counts b then count_of counts b < count_of counts a else a < b)"

definition rule_summary :: "rule_counts \<Rightarrow> string list" where
  "rule_summary counts =
     (if length counts = 0 then []
      else [''Findings by rule (shown diagnostics):'' @ nl] @
        map (\<lambda>name. ''  '' @ name @ '': '' @ show_nat (count_of counts name) @ nl)
          (sort_slice (rule_before counts) (map fst counts)))"

definition text_finish :: "format_options \<Rightarrow> rule_counts \<Rightarrow> summary \<Rightarrow> string list" where
  "text_finish fo counts s =
     (if \<not> fo_summary fo then []
      else [''Summary: '' @ show_nat (sm_valid s + sm_invalid s + sm_errors s + sm_skipped s) @ '' file(s) checked, '' @
          show_nat (sm_valid s) @ '' valid, '' @ show_nat (sm_invalid s) @ '' invalid, '' @
          show_nat (sm_errors s) @ '' error(s), '' @ show_nat (sm_skipped s) @ '' skipped ('' @
          show_nat (sm_warnings s) @ '' warning(s), '' @ show_nat (sm_infos s) @ '' info)'' @ nl] @
        (if 0 < sm_incomplete s
         then [''Validation coverage incomplete for '' @ show_nat (sm_incomplete s) @
           '' file(s); validity only reflects enabled rules.'' @ nl]
         else []) @
        rule_summary counts)"

subsection \<open>json\<close>

fun status_string :: "status \<Rightarrow> string" where
  "status_string StValid = ''valid''"
| "status_string StInvalid = ''invalid''"
| "status_string StError = ''error''"
| "status_string StSkipped = ''skipped''"

definition json_position :: "position \<Rightarrow> json" where
  "json_position p = JObj (always ''file'' (JStr (pos_file p)) @ omit_empty ''line'' (JNum (pos_line p)) @
     omit_empty ''column'' (JNum (pos_column p)))"

definition json_diagnostic :: "diagnostic \<Rightarrow> json" where
  "json_diagnostic d = JObj (always ''rule'' (JStr (d_rule d)) @
     always ''severity'' (JStr (severity_string (d_severity d))) @ always ''message'' (JStr (d_message d)) @
     always ''position'' (json_position (d_position d)) @ omit_empty ''path'' (JStr (d_path d)) @
     omit_empty ''hint'' (JStr (d_hint d)) @ omit_empty ''docs'' (JStr (d_docs d)))"

definition json_skip :: "coverage_skip \<Rightarrow> json" where
  "json_skip s = JObj (always ''path'' (JStr (sk_path s)) @ always ''reason'' (JStr (sk_reason s)) @
     omit_empty ''block'' (JStr (sk_block s)))"

definition json_coverage :: "coverage \<Rightarrow> json" where
  "json_coverage c = JObj (always ''status'' (JStr (coverage_string (cv_status c))) @
     always ''collectorVersion'' (JStr (cv_version c)) @ always ''distribution'' (JStr (cv_distribution c)) @
     always ''fieldRules'' (JArr (map JStr (cv_field_rules c))) @
     omit_empty ''skipped'' (JArr (map json_skip (cv_skipped c))))"

definition json_file :: "lint_result \<Rightarrow> json" where
  "json_file r = JObj (always ''filename'' (JStr (rs_path r)) @ always ''status'' (JStr (status_string (rs_status r))) @
     omit_empty ''msg'' (JStr (result_message r)) @
     omit_empty ''diagnostics'' (JArr (map json_diagnostic (rs_diagnostics r))) @
     (case rs_coverage r of None \<Rightarrow> [] | Some c \<Rightarrow> always ''coverage'' (json_coverage c)))"

definition json_summary :: "summary \<Rightarrow> json" where
  "json_summary s = JObj (always ''valid'' (JNum (int (sm_valid s))) @ always ''invalid'' (JNum (int (sm_invalid s))) @
     always ''errors'' (JNum (int (sm_errors s))) @ always ''skipped'' (JNum (int (sm_skipped s))) @
     omit_empty ''warnings'' (JNum (int (sm_warnings s))) @ omit_empty ''infos'' (JNum (int (sm_infos s))) @
     omit_empty ''incomplete'' (JNum (int (sm_incomplete s))))"

definition json_result :: "format_options \<Rightarrow> json list \<Rightarrow> lint_result \<Rightarrow> json list" where
  "json_result fo files r =
     (if rs_status r = StValid \<and> length (rs_diagnostics r) = 0 \<and> rs_coverage r = None \<and> \<not> fo_verbose fo then files
      else files @ [json_file r])"

definition json_finish :: "json list \<Rightarrow> summary \<Rightarrow> string list" where
  "json_finish files s =
     [json_encode 0 (JObj (always ''files'' (JArr files) @ always ''summary'' (json_summary s))) @ nl]"

subsection \<open>junit\<close>

record junit_failure =
  jf_message :: string
  jf_type :: string
  jf_text :: string

record junit_case =
  jc_name :: string
  jc_failures :: "junit_failure list"
  jc_error :: "junit_failure option"

definition tool_name :: string where "tool_name = ''otelcol-config-lint''"

definition junit_failure_of :: "diagnostic \<Rightarrow> junit_failure" where
  "junit_failure_of d = \<lparr>jf_message = d_message d, jf_type = d_rule d,
     jf_text = position_string (d_position d) @ '': '' @ d_message d\<rparr>"

definition filtered_failure :: junit_failure where
  "filtered_failure = \<lparr>jf_message = ''File failed the configured severity threshold; diagnostics were filtered out.'',
     jf_type = status_string StInvalid, jf_text = []\<rparr>"

definition junit_case_of :: "lint_result \<Rightarrow> junit_case" where
  "junit_case_of r =
     (let failures = concat (map (\<lambda>d. if rs_status r \<noteq> StInvalid then [] else [junit_failure_of d]) (rs_diagnostics r)) in
      \<lparr>jc_name = rs_path r,
       jc_failures = (if rs_status r = StInvalid \<and> length failures = 0 then failures @ [filtered_failure] else failures),
       jc_error = (if rs_status r = StError
         then Some \<lparr>jf_message = result_message r, jf_type = status_string StError, jf_text = []\<rparr> else None)\<rparr>)"

definition xml_failure :: "string \<Rightarrow> junit_failure \<Rightarrow> xml" where
  "xml_failure name f = Elem name [(''message'', jf_message f), (''type'', jf_type f)] (jf_text f) []"

definition xml_case :: "junit_case \<Rightarrow> xml" where
  "xml_case c = Elem ''testcase'' [(''name'', jc_name c), (''classname'', tool_name)] []
     (map (xml_failure ''failure'') (jc_failures c) @
      (case jc_error c of None \<Rightarrow> [] | Some e \<Rightarrow> [xml_failure ''error'' e]))"

definition junit_result :: "junit_case list \<Rightarrow> lint_result \<Rightarrow> junit_case list" where
  "junit_result cases r = cases @ [junit_case_of r]"

definition junit_suite :: "junit_case list \<Rightarrow> summary \<Rightarrow> xml" where
  "junit_suite cases s = Elem ''testsuite'' [(''name'', tool_name), (''tests'', show_nat (length cases)),
     (''failures'', show_nat (sm_invalid s)), (''errors'', show_nat (sm_errors s))] [] (map xml_case cases)"

definition junit_finish :: "junit_case list \<Rightarrow> summary \<Rightarrow> string list" where
  "junit_finish cases s = [xml_header, xml_encode 0 (junit_suite cases s), nl]"

subsection \<open>tap\<close>

record tap_state =
  tp_lines :: "string list"
  tp_n :: nat

definition tap_diagnostic :: "diagnostic \<Rightarrow> string" where
  "tap_diagnostic d = ''# '' @ position_string (d_position d) @ '': '' @ severity_string (d_severity d) @ '': '' @
     d_message d @ '' ['' @ d_rule d @ '']''"

definition tap_line :: "nat \<Rightarrow> lint_result \<Rightarrow> string" where
  "tap_line n r =
     (if rs_status r = StInvalid \<or> rs_status r = StError then ''not ok'' else ''ok'') @ '' '' @ show_nat n @ '' - '' @
     rs_path r @ (if rs_status r = StSkipped then '' # SKIP'' else [])"

definition tap_result :: "tap_state \<Rightarrow> lint_result \<Rightarrow> tap_state" where
  "tap_result f r =
     (let n = tp_n f + 1 in
      \<lparr>tp_lines = tp_lines f @ [tap_line n r] @
         (if rs_status r = StError then [''# '' @ result_message r] else []) @
         map tap_diagnostic (rs_diagnostics r),
       tp_n = n\<rparr>)"

definition tap_finish :: "tap_state \<Rightarrow> string list" where
  "tap_finish f =
     (if length (tp_lines f) = 0 then [''1..'' @ show_nat (tp_n f) @ nl]
      else [''1..'' @ show_nat (tp_n f) @ nl @ join_strings nl (tp_lines f) @ nl])"

subsection \<open>github\<close>

datatype github_level = LevelError | LevelWarning | LevelNotice

fun level_string :: "github_level \<Rightarrow> string" where
  "level_string LevelError = ''error''"
| "level_string LevelWarning = ''warning''"
| "level_string LevelNotice = ''notice''"

record annotation =
  an_level :: github_level
  an_rule :: string
  an_file :: string
  an_message :: string
  an_line :: int
  an_column :: int

definition annotation_limit :: nat where "annotation_limit = 10"

definition annotation_message :: "diagnostic \<Rightarrow> string" where
  "annotation_message d = d_message d @ '' ['' @ d_rule d @ '']'' @
     (if d_hint d \<noteq> [] then nl @ ''hint: '' @ d_hint d else []) @
     (if d_docs d \<noteq> [] then nl @ ''docs: '' @ d_docs d else [])"

definition severity_level :: "severity \<Rightarrow> github_level" where
  "severity_level s = (case s of Error \<Rightarrow> LevelError | Warning \<Rightarrow> LevelWarning | _ \<Rightarrow> LevelNotice)"

definition annotation_of :: "diagnostic \<Rightarrow> annotation" where
  "annotation_of d = \<lparr>an_level = severity_level (d_severity d), an_rule = d_rule d, an_file = pos_file (d_position d),
     an_message = annotation_message d, an_line = pos_line (d_position d), an_column = pos_column (d_position d)\<rparr>"

definition github_result :: "annotation list \<Rightarrow> lint_result \<Rightarrow> annotation list" where
  "github_result notes r =
     (if rs_status r = StError then
        notes @ [\<lparr>an_level = LevelError, an_rule = [], an_file = rs_path r, an_message = result_message r,
          an_line = 0, an_column = 0\<rparr>]
      else notes @ map annotation_of (rs_diagnostics r))"

definition annotation_less :: "annotation \<Rightarrow> annotation \<Rightarrow> bool" where
  "annotation_less a b \<longleftrightarrow>
     (if an_rule a \<noteq> an_rule b then an_rule a < an_rule b
      else if an_file a \<noteq> an_file b then an_file a < an_file b
      else if an_line a \<noteq> an_line b then an_line a < an_line b
      else an_column a < an_column b)"

text \<open>
  \<open>pickAnnotations\<close>: three passes over the candidates, each with the flags of the ones used. A pass
  takes a candidate the flag allows, that the pass does not hold back, while there is room.
\<close>

datatype pick_pass = DistinctFiles | DistinctRulesPerFile | RemainingAnnotations

record picked =
  pk_selected :: "annotation list"
  pk_files :: "string go_set"
  pk_groups :: "string go_set"

definition group_key :: "annotation \<Rightarrow> string" where
  "group_key a = an_rule a @ [CHR 0x00] @ an_file a"

definition held_back :: "pick_pass \<Rightarrow> picked \<Rightarrow> annotation \<Rightarrow> bool" where
  "held_back pass p a \<longleftrightarrow>
     pass = DistinctFiles \<and> set_has (pk_files p) (an_file a) \<or>
     pass = DistinctRulesPerFile \<and> set_has (pk_groups p) (group_key a)"

fun pick_loop :: "nat \<Rightarrow> pick_pass \<Rightarrow> (annotation \<times> bool) list \<Rightarrow> picked \<Rightarrow> (annotation \<times> bool) list \<times> picked" where
  "pick_loop limit pass [] p = ([], p)"
| "pick_loop limit pass ((a, taken) # rest) p =
     (if taken \<or> length (pk_selected p) = limit \<or> held_back pass p a
      then (case pick_loop limit pass rest p of (rest, p) \<Rightarrow> ((a, taken) # rest, p))
      else (case pick_loop limit pass rest
               \<lparr>pk_selected = pk_selected p @ [a], pk_files = set_insert (pk_files p) [an_file a],
                pk_groups = set_insert (pk_groups p) [group_key a]\<rparr> of
              (rest, p) \<Rightarrow> ((a, True) # rest, p)))"

fun pick_passes :: "nat \<Rightarrow> pick_pass list \<Rightarrow> (annotation \<times> bool) list \<Rightarrow> picked \<Rightarrow> picked" where
  "pick_passes limit [] flagged p = p"
| "pick_passes limit (pass # passes) flagged p =
     (case pick_loop limit pass flagged p of (flagged, p) \<Rightarrow> pick_passes limit passes flagged p)"

definition pick_annotations :: "annotation list \<Rightarrow> nat \<Rightarrow> annotation list" where
  "pick_annotations candidates limit =
     pk_selected (pick_passes limit [DistinctFiles, DistinctRulesPerFile, RemainingAnnotations]
       (map (\<lambda>a. (a, False)) candidates)
       \<lparr>pk_selected = [], pk_files = set_new [], pk_groups = set_new []\<rparr>)"

definition escape_char :: "char \<Rightarrow> string" where
  "escape_char c = (if c = CHR ''%'' then ''%25'' else if c = CHR 0x0D then ''%0D''
     else if c = CHR 0x0A then ''%0A'' else [c])"

definition escape_github :: "string \<Rightarrow> string" where
  "escape_github s = concat (map escape_char s)"

definition escape_property :: "string \<Rightarrow> string" where
  "escape_property s = concat (map (\<lambda>c. if c = CHR '':'' then ''%3A'' else if c = CHR '','' then ''%2C'' else [c])
     (escape_github s))"

definition write_annotation :: "annotation \<Rightarrow> string" where
  "write_annotation a =
     (let file = escape_property (an_file a) in
      if an_line a = 0 then
        ''::'' @ level_string (an_level a) @ '' file='' @ file @ ''::'' @ escape_github (an_message a) @ nl
      else ''::'' @ level_string (an_level a) @ '' file='' @ file @ '',line='' @ itoa (an_line a) @ '',col='' @
        itoa (an_column a) @ ''::'' @ escape_github (an_message a) @ nl)"

definition github_candidates :: "annotation list \<Rightarrow> github_level \<Rightarrow> annotation list" where
  "github_candidates notes level = sort_slice annotation_less (filter (\<lambda>a. an_level a = level) notes)"

definition github_limit :: "github_level \<Rightarrow> nat \<Rightarrow> nat" where
  "github_limit level n = (if level \<noteq> LevelNotice \<and> n > annotation_limit then annotation_limit else n)"

definition write_annotations :: "annotation list \<Rightarrow> github_level \<Rightarrow> string list" where
  "write_annotations notes level =
     (let candidates = github_candidates notes level;
          selected = pick_annotations candidates (github_limit level (length candidates))
      in map write_annotation selected @
         (if length selected < length candidates
          then [''::notice::'' @ show_nat (length selected) @ '' of '' @ show_nat (length candidates) @ '' '' @
            level_string level @ ''s shown; run with --output text or json for all findings'' @ nl]
          else []))"

definition github_finish :: "format_options \<Rightarrow> annotation list \<Rightarrow> summary \<Rightarrow> string list" where
  "github_finish fo notes s =
     concat (map (write_annotations notes) [LevelError, LevelWarning, LevelNotice]) @
     (if fo_summary fo
      then [''::notice::'' @ show_nat (sm_valid s) @ '' valid, '' @ show_nat (sm_invalid s) @ '' invalid, '' @
        show_nat (sm_errors s) @ '' error(s)'' @ nl]
      else [])"

subsection \<open>NewFormatter\<close>

datatype formatter =
  TextFormatter rule_counts
| JsonFormatter "json list"
| JunitFormatter "junit_case list"
| TapFormatter tap_state
| GithubFormatter "annotation list"

definition new_formatter :: "string \<Rightarrow> formatter go_result" where
  "new_formatter name =
     (if name = [] \<or> name = ''text'' then Inr (TextFormatter [])
      else if name = ''json'' then Inr (JsonFormatter [])
      else if name = ''junit'' then Inr (JunitFormatter [])
      else if name = ''tap'' then Inr (TapFormatter \<lparr>tp_lines = [], tp_n = 0\<rparr>)
      else if name = ''github'' then Inr (GithubFormatter [])
      else Inl (''unknown output format '' @ go_quote name @ '' (want text, json, junit, tap or github)''))"

fun format_result :: "format_options \<Rightarrow> formatter \<Rightarrow> lint_result \<Rightarrow> string list \<times> formatter" where
  "format_result fo (TextFormatter counts) r = (case text_result fo counts r of (ws, counts) \<Rightarrow> (ws, TextFormatter counts))"
| "format_result fo (JsonFormatter files) r = ([], JsonFormatter (json_result fo files r))"
| "format_result fo (JunitFormatter cases) r = ([], JunitFormatter (junit_result cases r))"
| "format_result fo (TapFormatter st) r = ([], TapFormatter (tap_result st r))"
| "format_result fo (GithubFormatter notes) r = ([], GithubFormatter (github_result notes r))"

fun format_finish :: "format_options \<Rightarrow> formatter \<Rightarrow> summary \<Rightarrow> string list" where
  "format_finish fo (TextFormatter counts) s = text_finish fo counts s"
| "format_finish fo (JsonFormatter files) s = json_finish files s"
| "format_finish fo (JunitFormatter cases) s = junit_finish cases s"
| "format_finish fo (TapFormatter st) s = tap_finish st"
| "format_finish fo (GithubFormatter notes) s = github_finish fo notes s"

end
