(* ===== verification/Reports.thy ===== *)
theory Reports
  imports Output
begin

section \<open>What the reports show\<close>

text \<open>
  Facts about \<open>pkg/lint/output.go\<close>: which annotations the limit of GitHub keeps, that a workflow command
  can be read back, and that the counts of the JUnit, TAP and text reports are those of the results.
\<close>

subsection \<open>Which annotations are picked\<close>

text \<open>
  The state between two candidates of a pass: the sets hold what was selected, and the flags count what
  was. \<open>flagged\<close> is the part of the candidates still ahead, \<open>behind\<close> the part passed.
\<close>

definition used_of :: "(annotation \<times> bool) list \<Rightarrow> annotation list" where
  "used_of flagged = map fst (filter snd flagged)"

definition picked_ok :: "nat \<Rightarrow> picked \<Rightarrow> bool" where
  "picked_ok limit p \<longleftrightarrow> length (pk_selected p) \<le> limit \<and>
     set_elems (pk_files p) = an_file ` set (pk_selected p) \<and>
     set_elems (pk_groups p) = group_key ` set (pk_selected p)"

definition room :: "nat \<Rightarrow> picked \<Rightarrow> bool" where
  "room limit p \<longleftrightarrow> length (pk_selected p) \<noteq> limit"

definition take_candidate :: "annotation \<Rightarrow> picked \<Rightarrow> picked" where
  "take_candidate a p = \<lparr>pk_selected = pk_selected p @ [a], pk_files = set_insert (pk_files p) [an_file a],
     pk_groups = set_insert (pk_groups p) [group_key a]\<rparr>"

lemma take_candidate_ok: "picked_ok limit p \<Longrightarrow> room limit p \<Longrightarrow> picked_ok limit (take_candidate a p)"
  by (auto simp: picked_ok_def room_def take_candidate_def)

lemma pick_loop_step:
  "pick_loop limit pass ((a, taken) # rest) p =
     (if taken \<or> \<not> room limit p \<or> held_back pass p a
      then apfst (Cons (a, taken)) (pick_loop limit pass rest p)
      else apfst (Cons (a, True)) (pick_loop limit pass rest (take_candidate a p)))"
  by (simp add: room_def take_candidate_def apfst_def map_prod_def split: prod.split)

lemmas pick_loop_simps = pick_loop.simps(1) pick_loop_step

declare pick_loop.simps(2) [simp del]

text \<open>What every pass keeps: the candidates, the sets, and the flags beside the selection.\<close>

lemma pick_loop_keeps:
  "pick_loop limit pass flagged p = (flagged', p') \<Longrightarrow> picked_ok limit p \<Longrightarrow>
     picked_ok limit p' \<and> map fst flagged' = map fst flagged \<and>
     (\<exists>new. pk_selected p' = pk_selected p @ new \<and> mset (used_of flagged') = mset (used_of flagged) + mset new)"
proof (induction flagged arbitrary: p flagged')
  case (Cons entry rest)
  obtain a taken where e: "entry = (a, taken)" by fastforce
  show ?case
  proof (cases "taken \<or> \<not> room limit p \<or> held_back pass p a")
    case True
    then obtain rest' where "pick_loop limit pass rest p = (rest', p')" "flagged' = (a, taken) # rest'"
      using Cons.prems(1) by (cases "pick_loop limit pass rest p") (auto simp: e pick_loop_step)
    with Cons.IH [OF this(1) Cons.prems(2)] show ?thesis by (auto simp: e used_of_def)
  next
    case False
    then obtain rest' where r: "pick_loop limit pass rest (take_candidate a p) = (rest', p')" "flagged' = (a, True) # rest'"
      using Cons.prems(1) by (cases "pick_loop limit pass rest (take_candidate a p)") (auto simp: e pick_loop_step)
    have "picked_ok limit (take_candidate a p)" using False Cons.prems(2) take_candidate_ok by blast
    from Cons.IH [OF r(1) this] False show ?thesis
      by (auto simp: e r(2) used_of_def take_candidate_def)
  qed
qed (simp add: used_of_def)

text \<open>
  Each pass ends with no room, or with nothing ahead it would have taken: \<open>left\<close> names what a pass leaves
  behind when there is room, per candidate and the state at the end.
\<close>

fun leaves :: "pick_pass \<Rightarrow> picked \<Rightarrow> annotation \<times> bool \<Rightarrow> bool" where
  "leaves DistinctFiles p (a, taken) \<longleftrightarrow> an_file a \<in> an_file ` set (pk_selected p)"
| "leaves DistinctRulesPerFile p (a, taken) \<longleftrightarrow> group_key a \<in> group_key ` set (pk_selected p)"
| "leaves RemainingAnnotations p (a, taken) \<longleftrightarrow> taken"

definition flags_ok :: "(annotation \<times> bool) list \<Rightarrow> picked \<Rightarrow> bool" where
  "flags_ok flagged p \<longleftrightarrow> (\<forall>(a, taken) \<in> set flagged. taken \<longrightarrow> a \<in> set (pk_selected p))"

lemma leaves_mono: "leaves pass p e \<Longrightarrow> set (pk_selected p) \<subseteq> set (pk_selected p') \<Longrightarrow> leaves pass p' e"
  by (cases pass; cases e) auto

lemma pick_loop_leaves:
  "pick_loop limit pass flagged p = (flagged', p') \<Longrightarrow> picked_ok limit p \<Longrightarrow> flags_ok flagged p \<Longrightarrow> room limit p' \<Longrightarrow>
     list_all (leaves pass p') flagged'"
proof (induction flagged arbitrary: p flagged')
  case (Cons entry rest)
  obtain a taken where e: "entry = (a, taken)" by fastforce
  note ok = Cons.prems(2)
  show ?case
  proof (cases "taken \<or> \<not> room limit p \<or> held_back pass p a")
    case True
    then obtain rest' where r: "pick_loop limit pass rest p = (rest', p')" "flagged' = (a, taken) # rest'"
      using Cons.prems(1) by (cases "pick_loop limit pass rest p") (auto simp: e pick_loop_step)
    have rest: "list_all (leaves pass p') rest'"
      using Cons.IH [OF r(1) ok] Cons.prems(3,4) by (auto simp: flags_ok_def e)
    have grow: "set (pk_selected p) \<subseteq> set (pk_selected p')"
      and len: "length (pk_selected p) \<le> length (pk_selected p')" "length (pk_selected p') \<le> limit"
      using pick_loop_keeps [OF r(1) ok] by (auto simp: picked_ok_def)
    have "room limit p" using Cons.prems(4) len by (auto simp: room_def)
    then have "leaves pass p (a, taken)"
      using True ok Cons.prems(3) by (cases pass) (auto simp: e flags_ok_def held_back_def picked_ok_def)
    then show ?thesis using leaves_mono [OF _ grow] rest by (simp add: r(2))
  next
    case False
    then obtain rest' where r: "pick_loop limit pass rest (take_candidate a p) = (rest', p')" "flagged' = (a, True) # rest'"
      using Cons.prems(1) by (cases "pick_loop limit pass rest (take_candidate a p)") (auto simp: e pick_loop_step)
    have ok': "picked_ok limit (take_candidate a p)" using False ok take_candidate_ok by blast
    have rest: "list_all (leaves pass p') rest'"
      using Cons.IH [OF r(1) ok'] Cons.prems(3,4) by (auto simp: flags_ok_def e take_candidate_def)
    have "a \<in> set (pk_selected p')"
      using pick_loop_keeps [OF r(1) ok'] by (auto simp: take_candidate_def)
    then have "leaves pass p' (a, True)" by (cases pass) auto
    then show ?thesis using rest by (simp add: r(2))
  qed
qed simp

text \<open>The first two passes select nothing twice under their key.\<close>

lemma pick_loop_distinct:
  assumes "\<And>p a. picked_ok limit p \<Longrightarrow> \<not> held_back pass p a \<Longrightarrow> key a \<notin> key ` set (pk_selected p)"
  shows "pick_loop limit pass flagged p = (flagged', p') \<Longrightarrow> picked_ok limit p \<Longrightarrow> distinct (map key (pk_selected p)) \<Longrightarrow>
     distinct (map key (pk_selected p'))"
proof (induction flagged arbitrary: p flagged')
  case (Cons entry rest)
  obtain a taken where e: "entry = (a, taken)" by fastforce
  show ?case
  proof (cases "taken \<or> \<not> room limit p \<or> held_back pass p a")
    case True
    then show ?thesis
      using Cons by (cases "pick_loop limit pass rest p") (auto simp: e pick_loop_step)
  next
    case False
    then obtain rest' where r: "pick_loop limit pass rest (take_candidate a p) = (rest', p')"
      using Cons.prems(1) by (cases "pick_loop limit pass rest (take_candidate a p)") (auto simp: e pick_loop_step)
    have "picked_ok limit (take_candidate a p)" using False Cons.prems(2) take_candidate_ok by blast
    moreover have "distinct (map key (pk_selected (take_candidate a p)))"
      using assms [OF Cons.prems(2), of a] False Cons.prems(3) by (auto simp: take_candidate_def)
    ultimately show ?thesis using Cons.IH [OF r] by blast
  qed
qed simp

lemma covers_all:
  assumes "distinct (map key xs)" "set xs \<subseteq> set cs" "card (key ` set cs) \<le> length xs"
  shows "key ` set xs = key ` set cs"
proof (rule card_seteq)
  show "key ` set xs \<subseteq> key ` set cs" using assms(2) by auto
  have "card (key ` set xs) = length xs" using assms(1) distinct_card [of "map key xs"] by simp
  then show "card (key ` set cs) \<le> card (key ` set xs)" using assms(3) by simp
qed simp

definition annotations_flagged :: "annotation list \<Rightarrow> (annotation \<times> bool) list" where
  "annotations_flagged cs = map (\<lambda>a. (a, False)) cs"

lemma flags_ok_after:
  assumes "pick_loop limit pass flagged p = (flagged', p')" "picked_ok limit p" "mset (used_of flagged) = mset (pk_selected p)"
  shows "mset (used_of flagged') = mset (pk_selected p')"
proof -
  obtain new where "pk_selected p' = pk_selected p @ new" "mset (used_of flagged') = mset (used_of flagged) + mset new"
    using pick_loop_keeps [OF assms(1,2)] by blast
  then show ?thesis using assms(3) by simp
qed

lemma used_flags_ok:
  assumes "mset (used_of flagged) = mset (pk_selected p)"
  shows "flags_ok flagged p"
  using mset_eq_setD [OF assms] by (force simp: flags_ok_def used_of_def)

lemma used_subset: "mset (used_of flagged) \<subseteq># mset (map fst flagged)"
  by (simp add: used_of_def image_mset_subseteq_mono)

lemma first_separator:
  "x \<notin> set a \<Longrightarrow> x \<notin> set b \<Longrightarrow> a @ x # u = b @ x # v \<longleftrightarrow> a = b \<and> u = v"
  by (induction a arbitrary: b) (case_tac b; auto)+

lemma group_key_iff:
  "CHR 0x00 \<notin> set (an_rule a) \<Longrightarrow> CHR 0x00 \<notin> set (an_rule b) \<Longrightarrow>
     group_key a = group_key b \<longleftrightarrow> an_rule a = an_rule b \<and> an_file a = an_file b"
  by (simp add: group_key_def first_separator)

text \<open>A pass that keeps apart what it selects under a key leaves no key behind while there is room.\<close>

lemma pass_covers:
  assumes l: "pick_loop limit pass f p = (f', p')" and ok: "picked_ok limit p" and u: "mset (used_of f) = mset (pk_selected p)"
    and leaves: "\<And>q e. leaves pass q e \<longleftrightarrow> key (fst e) \<in> key ` set (pk_selected q)"
    and d: "distinct (map key (pk_selected p'))"
  shows "card (key ` set (map fst f)) \<le> limit \<Longrightarrow> key ` set (pk_selected p') = key ` set (map fst f)"
    and "limit \<le> card (key ` set (map fst f)) \<Longrightarrow> length (pk_selected p') = limit"
proof -
  have ok': "picked_ok limit p'" and fst: "map fst f' = map fst f"
    using pick_loop_keeps [OF l ok] by (simp_all add: comp_def)
  have len: "length (pk_selected p') \<le> limit" using ok' by (simp add: picked_ok_def)
  have "mset (pk_selected p') \<subseteq># mset (map fst f)"
    using used_subset [of f'] flags_ok_after [OF l ok u] fst by metis
  then have sub: "set (pk_selected p') \<subseteq> set (map fst f)" by (metis set_mset_mset set_mset_mono)
  have covered: "key ` set (map fst f) \<subseteq> key ` set (pk_selected p')" if "length (pk_selected p') \<noteq> limit"
  proof -
    have "\<forall>e \<in> set f'. key (fst e) \<in> key ` set (pk_selected p')"
      using pick_loop_leaves [OF l ok used_flags_ok [OF u]] that len by (simp add: room_def list_all_iff leaves)
    then have "key ` set (map fst f') \<subseteq> key ` set (pk_selected p')" by auto
    then show ?thesis by (simp only: fst)
  qed
  show "length (pk_selected p') = limit" if "limit \<le> card (key ` set (map fst f))"
  proof (rule ccontr)
    assume ne: "length (pk_selected p') \<noteq> limit"
    have "card (key ` set (map fst f)) \<le> card (key ` set (pk_selected p'))"
      by (rule card_mono [OF _ covered [OF ne]]) simp
    also have "\<dots> \<le> length (pk_selected p')" by (metis card_length length_map set_map)
    finally show False using that len ne by simp
  qed
  show "key ` set (pk_selected p') = key ` set (map fst f)" if "card (key ` set (map fst f)) \<le> limit"
    using covers_all [OF d sub] covered sub that by (cases "length (pk_selected p') = limit") auto
qed

lemma last_pass_fills:
  assumes l: "pick_loop limit RemainingAnnotations f p = (f', p')" and ok: "picked_ok limit p"
    and u: "mset (used_of f) = mset (pk_selected p)" and many: "limit \<le> length f"
  shows "length (pk_selected p') = limit"
proof (rule ccontr)
  assume ne: "length (pk_selected p') \<noteq> limit"
  have len: "length (pk_selected p') \<le> limit" "length f' = length f"
    using pick_loop_keeps [OF l ok] by (auto simp: picked_ok_def dest: map_eq_imp_length_eq)
  have "\<forall>e \<in> set f'. snd e"
    using pick_loop_leaves [OF l ok used_flags_ok [OF u]] ne len by (force simp: room_def list_all_iff)
  then have "length (used_of f') = length f" using len by (simp add: used_of_def filter_id_conv)
  then show False using flags_ok_after [OF l ok u] len(1) many ne by (metis size_mset le_antisym)
qed

text \<open>The three passes, with what each keeps of the one before.\<close>

lemma pick_runs:
  obtains f1 p1 f2 p2 f3 p3 p0 where "pick_annotations candidates limit = pk_selected p3"
    "pick_loop limit DistinctFiles (annotations_flagged candidates) p0 = (f1, p1)"
    "pick_loop limit DistinctRulesPerFile f1 p1 = (f2, p2)" "pick_loop limit RemainingAnnotations f2 p2 = (f3, p3)"
    "picked_ok limit p0" "picked_ok limit p1" "picked_ok limit p2" "pk_selected p0 = []"
    "mset (used_of f1) = mset (pk_selected p1)" "mset (used_of f2) = mset (pk_selected p2)"
    "map fst f1 = candidates" "map fst f2 = candidates" "mset (pk_selected p3) \<subseteq># mset candidates"
    "\<exists>n2 n3. pk_selected p2 = pk_selected p1 @ n2 \<and> pk_selected p3 = pk_selected p2 @ n3"
proof -
  let ?p0 = "\<lparr>pk_selected = [], pk_files = set_new [], pk_groups = set_new []\<rparr>"
  let ?f0 = "annotations_flagged candidates"
  obtain f1 p1 where l1: "pick_loop limit DistinctFiles ?f0 ?p0 = (f1, p1)" by fastforce
  obtain f2 p2 where l2: "pick_loop limit DistinctRulesPerFile f1 p1 = (f2, p2)" by fastforce
  obtain f3 p3 where l3: "pick_loop limit RemainingAnnotations f2 p2 = (f3, p3)" by fastforce
  have ok0: "picked_ok limit ?p0" by (simp add: picked_ok_def)
  have u0: "mset (used_of ?f0) = mset (pk_selected ?p0)"
    by (simp add: used_of_def annotations_flagged_def filter_empty_conv)
  note k1 = pick_loop_keeps [OF l1 ok0]
  note k2 = pick_loop_keeps [OF l2 conjunct1 [OF k1]]
  note k3 = pick_loop_keeps [OF l3 conjunct1 [OF k2]]
  have ok: "picked_ok limit p1" "picked_ok limit p2" using k1 k2 by simp_all
  have firsts: "map fst f1 = candidates" "map fst f2 = candidates" "map fst f3 = candidates"
    using k1 k2 k3 by (simp_all add: annotations_flagged_def comp_def)
  have u1: "mset (used_of f1) = mset (pk_selected p1)" by (rule flags_ok_after [OF l1 ok0 u0])
  have u2: "mset (used_of f2) = mset (pk_selected p2)" by (rule flags_ok_after [OF l2 ok(1) u1])
  have u3: "mset (used_of f3) = mset (pk_selected p3)" by (rule flags_ok_after [OF l3 ok(2) u2])
  show thesis
  proof (rule that [OF _ l1 l2 l3 ok0 ok _ u1 u2 firsts(1,2)])
    show "pick_annotations candidates limit = pk_selected p3"
      using l1 l2 l3 by (simp add: pick_annotations_def annotations_flagged_def)
    show "mset (pk_selected p3) \<subseteq># mset candidates" using used_subset [of f3] u3 firsts(3) by simp
  qed (use k2 k3 in auto)
qed

text \<open>
  C25: when a level has more findings than the limit, the annotations GitHub is sent are exactly as many as
  the limit, no finding twice; every file with findings is named when there are no more files than the
  limit, and otherwise every annotation names another file; and every rule of every file is shown when
  those pairs fit the limit.
\<close>

theorem pick_annotations_fair:
  assumes "limit \<le> length candidates"
  shows "mset (pick_annotations candidates limit) \<subseteq># mset candidates \<and>
    length (pick_annotations candidates limit) = limit \<and>
    (card (an_file ` set candidates) \<le> limit \<longrightarrow>
       an_file ` set (pick_annotations candidates limit) = an_file ` set candidates) \<and>
    (limit \<le> card (an_file ` set candidates) \<longrightarrow> distinct (map an_file (pick_annotations candidates limit))) \<and>
    ((\<forall>a \<in> set candidates. CHR 0x00 \<notin> set (an_rule a)) \<and> card (group_key ` set candidates) \<le> limit \<longrightarrow>
       group_key ` set (pick_annotations candidates limit) = group_key ` set candidates)"
proof -
  obtain f1 p1 f2 p2 f3 p3 p0 where result: "pick_annotations candidates limit = pk_selected p3"
    and l: "pick_loop limit DistinctFiles (annotations_flagged candidates) p0 = (f1, p1)"
      "pick_loop limit DistinctRulesPerFile f1 p1 = (f2, p2)" "pick_loop limit RemainingAnnotations f2 p2 = (f3, p3)"
    and ok: "picked_ok limit p0" "picked_ok limit p1" "picked_ok limit p2" and p0: "pk_selected p0 = []"
    and u: "mset (used_of f1) = mset (pk_selected p1)" "mset (used_of f2) = mset (pk_selected p2)"
    and firsts: "map fst f1 = candidates" "map fst f2 = candidates" and sub: "mset (pk_selected p3) \<subseteq># mset candidates"
    and "\<exists>n2 n3. pk_selected p2 = pk_selected p1 @ n2 \<and> pk_selected p3 = pk_selected p2 @ n3"
    by (rule pick_runs)
  then obtain n2 n3 where grow: "pk_selected p2 = pk_selected p1 @ n2" "pk_selected p3 = pk_selected p2 @ n3" by blast
  have u0: "mset (used_of (annotations_flagged candidates)) = mset (pk_selected p0)"
    by (simp add: used_of_def annotations_flagged_def filter_empty_conv p0)
  have first0: "map fst (annotations_flagged candidates) = candidates" by (simp add: annotations_flagged_def comp_def)
  have full: "length (pk_selected p3) = limit"
    by (rule last_pass_fills [OF l(3) ok(3) u(2)]) (use assms firsts(2) in \<open>auto dest: arg_cong [of _ _ length]\<close>)
  have files1: "distinct (map an_file (pk_selected p1))"
    by (rule pick_loop_distinct [OF _ l(1) ok(1)]) (auto simp: held_back_def picked_ok_def p0)
  have leaves: "leaves DistinctFiles q e \<longleftrightarrow> an_file (fst e) \<in> an_file ` set (pk_selected q)"
    "leaves DistinctRulesPerFile q e \<longleftrightarrow> group_key (fst e) \<in> group_key ` set (pk_selected q)" for q e
    by (cases e; simp)+
  note pass1 = pass_covers [OF l(1) ok(1) u0 leaves(1) files1, unfolded first0]
  have inside: "set (pk_selected p3) \<subseteq> set candidates" using set_mset_mono [OF sub] by simp
  have files: "an_file ` set (pk_selected p3) = an_file ` set candidates" if "card (an_file ` set candidates) \<le> limit"
    using pass1(1) [OF that] grow inside by auto
  have apart: "distinct (map an_file (pk_selected p3))" if "limit \<le> card (an_file ` set candidates)"
    using pass1(2) [OF that] grow full files1 by auto
  have groups: "group_key ` set (pk_selected p3) = group_key ` set candidates"
    if named: "\<forall>a \<in> set candidates. CHR 0x00 \<notin> set (an_rule a)" and fits: "card (group_key ` set candidates) \<le> limit"
  proof -
    have "set (pk_selected p1) \<subseteq> set candidates" using inside grow by auto
    then have "inj_on group_key (set (pk_selected p1))"
      using files1 named group_key_iff by (intro inj_onI) (meson distinct_map inj_onD subsetD)
    then have "distinct (map group_key (pk_selected p2))"
      by (intro pick_loop_distinct [OF _ l(2) ok(2)]) (use files1 in \<open>auto simp: held_back_def picked_ok_def distinct_map\<close>)
    from pass_covers(1) [OF l(2) ok(2) u(1) leaves(2) this, unfolded firsts(1), OF fits]
    show ?thesis using grow inside by auto
  qed
  show ?thesis using sub full files apart groups unfolding result by blast
qed

lemma pick_annotations_fair_witness:
  "let mk = (\<lambda>r f l. \<lparr>an_level = LevelError, an_rule = r, an_file = f, an_message = [], an_line = l, an_column = 1\<rparr>);
       cs = [mk ''a'' ''x'' 1, mk ''a'' ''x'' 2, mk ''a'' ''y'' 1, mk ''b'' ''x'' 1]
   in length (pick_annotations cs 3) = 3 \<and> an_file ` set (pick_annotations cs 3) = {''x'', ''y''} \<and>
      pick_annotations cs 3 = [mk ''a'' ''x'' 1, mk ''a'' ''y'' 1, mk ''b'' ''x'' 1]"
proof -
  define mk where "mk = (\<lambda>r f l. \<lparr>an_level = LevelError, an_rule = r, an_file = f, an_message = [],
    an_line = l, an_column = 1\<rparr>)"
  define cs where "cs = [mk ''a'' ''x'' 1, mk ''a'' ''x'' 2, mk ''a'' ''y'' 1, mk ''b'' ''x'' 1]"
  have files: "an_file ` set cs = {''x'', ''y''}" by (auto simp: cs_def mk_def)
  have room: "3 \<le> length cs" and few: "card (an_file ` set cs) \<le> 3" unfolding files by (simp_all add: cs_def)
  have fair: "length (pick_annotations cs 3) = 3"
    "card (an_file ` set cs) \<le> 3 \<longrightarrow> an_file ` set (pick_annotations cs 3) = an_file ` set cs"
    using pick_annotations_fair [OF room] by argo+
  have "length (pick_annotations cs 3) = 3 \<and> an_file ` set (pick_annotations cs 3) = {''x'', ''y''}"
    using fair(1) fair(2) [THEN mp, OF few] by (simp only: files simp_thms)
  moreover have "pick_annotations cs 3 = [mk ''a'' ''x'' 1, mk ''a'' ''y'' 1, mk ''b'' ''x'' 1]"
    unfolding cs_def mk_def by code_simp
  ultimately show ?thesis by (simp add: cs_def mk_def)
qed

subsection \<open>A workflow command is read back\<close>

text \<open>What GitHub does with a command: the percent codes of the escaping are decoded.\<close>

fun unescape :: "string \<Rightarrow> string" where
  "unescape (a # b # c # cs) =
     (if a = CHR ''%'' \<and> b = CHR ''2'' \<and> c = CHR ''5'' then CHR ''%'' # unescape cs
      else if a = CHR ''%'' \<and> b = CHR ''0'' \<and> c = CHR ''D'' then CHR 0x0D # unescape cs
      else if a = CHR ''%'' \<and> b = CHR ''0'' \<and> c = CHR ''A'' then CHR 0x0A # unescape cs
      else if a = CHR ''%'' \<and> b = CHR ''3'' \<and> c = CHR ''A'' then CHR '':'' # unescape cs
      else if a = CHR ''%'' \<and> b = CHR ''2'' \<and> c = CHR ''C'' then CHR '','' # unescape cs
      else a # unescape (b # c # cs))"
| "unescape s = s"

definition property_char :: "char \<Rightarrow> string" where
  "property_char c = (if c = CHR '':'' then ''%3A'' else if c = CHR '','' then ''%2C'' else escape_char c)"

lemma escape_property_chars: "escape_property s = concat (map property_char s)"
  by (induction s) (auto simp: escape_property_def escape_github_def escape_char_def property_char_def)

lemma unescape_plain: "c \<noteq> CHR ''%'' \<Longrightarrow> unescape (c # s) = c # unescape s"
  by (cases "c # s" rule: unescape.cases) auto

lemma unescape_escape: "unescape (escape_github s) = s"
  by (induction s) (auto simp: escape_github_def escape_char_def unescape_plain)

lemma unescape_property: "unescape (escape_property s) = s"
  unfolding escape_property_chars
  by (induction s) (auto simp: property_char_def escape_char_def unescape_plain)

lemma escape_github_lines: "CHR 0x0A \<notin> set (escape_github s)" "CHR 0x0D \<notin> set (escape_github s)"
  by (auto simp: escape_github_def escape_char_def split: if_splits)

lemma escape_property_clean:
  "CHR 0x0A \<notin> set (escape_property s)" "CHR '':'' \<notin> set (escape_property s)" "CHR '','' \<notin> set (escape_property s)"
  unfolding escape_property_chars by (auto simp: property_char_def escape_char_def split: if_splits)

lemma cut_first: "sep \<noteq> [] \<Longrightarrow> hd sep \<notin> set a \<Longrightarrow> cut (a @ sep @ b) sep = (a, b, True)"
proof (induction a)
  case Nil
  then show ?case by (cases sep) (auto simp: prefix_def)
next
  case (Cons c a)
  then have "\<not> prefix sep (c # a @ sep @ b)" by (cases sep) (auto simp: prefix_def)
  then show ?case using Cons by simp
qed

definition annotation_place :: "annotation \<Rightarrow> string" where
  "annotation_place a = (if an_line a = 0 then [] else ''line='' @ itoa (an_line a) @ '',col='' @ itoa (an_column a))"

text \<open>A reader of workflow commands: the level, the file, the other properties and the message.\<close>

definition read_annotation :: "string \<Rightarrow> string \<times> string \<times> string \<times> string" where
  "read_annotation s =
     (case cut (drop 2 s) ''::'' of (head, message, _) \<Rightarrow>
      case cut head '' file='' of (level, properties, _) \<Rightarrow>
      case cut properties '','' of (file, place, _) \<Rightarrow>
        (level, unescape file, place, unescape (butlast message)))"

lemma cut_absent: "sep \<noteq> [] \<Longrightarrow> hd sep \<notin> set a \<Longrightarrow> cut a sep = (a, [], False)"
proof (induction a)
  case (Cons c a)
  then have "\<not> prefix sep (c # a)" by (cases sep) (auto simp: prefix_def)
  then show ?case using Cons by simp
qed simp

lemma itoa_chars: "c \<in> set (itoa n) \<Longrightarrow> c = CHR ''-'' \<or> is_digit c"
  using show_digits_digits [of n] show_digits_digits [of "- n"] by (auto simp: itoa_def split: if_splits)

lemma itoa_clean: "CHR '':'' \<notin> set (itoa n)" "CHR 0x0A \<notin> set (itoa n)"
  using itoa_chars [of "CHR '':''" n] itoa_chars [of "CHR 0x0A" n] by (auto simp: is_digit_def)

lemma level_string_clean: "CHR '':'' \<notin> set (level_string l)" "CHR '' '' \<notin> set (level_string l)" "CHR 0x0A \<notin> set (level_string l)"
  by (cases l; simp)+

text \<open>
  C26: a finding sent to GitHub is one line, whatever its file name and message hold, and reading the
  command back gives the level, the file, the position and the message it was written for.
\<close>

theorem annotation_roundtrip:
  "read_annotation (write_annotation a) = (level_string (an_level a), an_file a, annotation_place a, an_message a) \<and>
   (\<exists>line. write_annotation a = line @ nl \<and> CHR 0x0A \<notin> set line)"
proof -
  define place where "place = (if an_line a = 0 then [] else '','' @ annotation_place a)"
  define head where "head = level_string (an_level a) @ '' file='' @ escape_property (an_file a) @ place"
  have written: "write_annotation a = ''::'' @ head @ ''::'' @ escape_github (an_message a) @ nl"
    by (simp add: write_annotation_def head_def place_def annotation_place_def)
  have place: "CHR '':'' \<notin> set place" "CHR 0x0A \<notin> set place"
    using itoa_clean by (auto simp: place_def annotation_place_def)
  have head: "CHR '':'' \<notin> set head" "CHR 0x0A \<notin> set head"
    using level_string_clean escape_property_clean place by (auto simp: head_def)
  have "cut (drop 2 (write_annotation a)) ''::'' = (head, escape_github (an_message a) @ nl, True)"
    using cut_first [of "''::''" head "escape_github (an_message a) @ nl"] head by (simp add: written)
  moreover have "cut head '' file='' = (level_string (an_level a), escape_property (an_file a) @ place, True)"
    using cut_first [of "'' file=''" "level_string (an_level a)" "escape_property (an_file a) @ place"]
      level_string_clean by (simp add: head_def)
  moreover have "\<exists>found. cut (escape_property (an_file a) @ place) '','' =
      (escape_property (an_file a), annotation_place a, found)"
    using cut_first [of "'',''" "escape_property (an_file a)" "annotation_place a"]
      cut_absent [of "'',''" "escape_property (an_file a)"] escape_property_clean
    by (auto simp: place_def annotation_place_def)
  moreover have "butlast (escape_github (an_message a) @ nl) = escape_github (an_message a)"
    by (simp add: nl_def butlast_append)
  ultimately have "read_annotation (write_annotation a) =
      (level_string (an_level a), an_file a, annotation_place a, an_message a)"
    by (auto simp: read_annotation_def unescape_property unescape_escape)
  moreover have "write_annotation a = (''::'' @ head @ ''::'' @ escape_github (an_message a)) @ nl"
    by (simp add: written)
  moreover have "CHR 0x0A \<notin> set (''::'' @ head @ ''::'' @ escape_github (an_message a))"
    using head escape_github_lines by auto
  ultimately show ?thesis by blast
qed

subsection \<open>The counts of the reports\<close>

definition summarize :: "lint_result list \<Rightarrow> summary" where
  "summarize rs = foldl (\<lambda>s r. summary_add r s) empty_summary rs"

definition with_status :: "status \<Rightarrow> lint_result list \<Rightarrow> nat" where
  "with_status st rs = length (filter (\<lambda>r. rs_status r = st) rs)"

lemma summary_add_counts:
  "sm_invalid (summary_add r s) = sm_invalid s + (if rs_status r = StInvalid then 1 else 0)"
  "sm_errors (summary_add r s) = sm_errors s + (if rs_status r = StError then 1 else 0)"
  by (cases "rs_status r"; simp add: summary_add_def count_status_def Let_def)+

lemma summarize_counts:
  "sm_invalid (summarize rs) = with_status StInvalid rs" "sm_errors (summarize rs) = with_status StError rs"
  by (induction rs rule: rev_induct)
    (simp_all add: summarize_def with_status_def empty_summary_def summary_add_counts)

lemma junit_case_outcome:
  "jc_failures (junit_case_of r) \<noteq> [] \<longleftrightarrow> rs_status r = StInvalid"
  "jc_error (junit_case_of r) \<noteq> None \<longleftrightarrow> rs_status r = StError"
  by (auto simp: junit_case_of_def Let_def)

lemma junit_cases: "foldl junit_result [] rs = map junit_case_of rs"
  by (induction rs rule: rev_induct) (simp_all add: junit_result_def)

definition tap_start :: tap_state where "tap_start = \<lparr>tp_lines = [], tp_n = 0\<rparr>"

definition is_comment :: "string \<Rightarrow> bool" where "is_comment s \<longleftrightarrow> has_prefix s ''# ''"

fun tap_numbered :: "nat \<Rightarrow> lint_result list \<Rightarrow> string list" where
  "tap_numbered n [] = []"
| "tap_numbered n (r # rs) = tap_line (n + 1) r # tap_numbered (n + 1) rs"

lemma tap_numbered_append:
  "tap_numbered n (xs @ ys) = tap_numbered n xs @ tap_numbered (n + length xs) ys"
  by (induction xs arbitrary: n) simp_all

lemma tap_line_plain: "\<not> is_comment (tap_line n r)"
  by (simp add: tap_line_def is_comment_def)

lemma tap_comments: "is_comment (''# '' @ s)" "is_comment (tap_diagnostic d)"
  by (simp_all add: is_comment_def tap_diagnostic_def)

lemma tap_results:
  "tp_n (foldl tap_result tap_start rs) = length rs"
  "filter (\<lambda>l. \<not> is_comment l) (tp_lines (foldl tap_result tap_start rs)) = tap_numbered 0 rs"
proof (induction rs rule: rev_induct)
  case (snoc r rs)
  case 1
  show ?case using snoc(1) by (simp add: tap_result_def Let_def)
next
  case (snoc r rs)
  case 2
  have none: "filter (\<lambda>l. \<not> is_comment l) (map tap_diagnostic ds) = []" for ds
    by (simp add: filter_empty_conv tap_comments)
  have "filter (\<lambda>l. \<not> is_comment l) [''# '' @ m] = []" for m
    using tap_comments(1) [of m] by simp
  then show ?case
    using snoc by (simp add: tap_result_def Let_def tap_line_plain none tap_numbered_append del: append_Cons)
qed (simp_all add: tap_start_def)

definition rule_findings :: "diagnostic list \<Rightarrow> string \<Rightarrow> nat" where
  "rule_findings ds name = length (filter (\<lambda>d. d_rule d = name) ds)"

definition counts_ok :: "rule_counts \<Rightarrow> diagnostic list \<Rightarrow> bool" where
  "counts_ok counts ds \<longleftrightarrow> distinct (map fst counts) \<and> set (map fst counts) = d_rule ` set ds \<and>
     (\<forall>name. count_of counts name = rule_findings ds name)"

lemma count_rule_ok:
  assumes "counts_ok counts ds"
  shows "counts_ok (count_rule counts d) (ds @ [d])"
proof -
  have "distinct (map fst (count_rule counts d))"
    using assms by (simp add: counts_ok_def count_rule_def distinct_update)
  moreover have "set (map fst (count_rule counts d)) = insert (d_rule d) (set (map fst counts))"
    using dom_update [of "d_rule d" "count_of counts (d_rule d) + 1" counts] by (simp add: count_rule_def)
  moreover have "count_of (count_rule counts d) name = count_of counts name + (if name = d_rule d then 1 else 0)" for name
    by (simp add: count_rule_def count_of_def update_conv')
  ultimately show ?thesis using assms by (auto simp: counts_ok_def rule_findings_def)
qed

definition shown :: "lint_result \<Rightarrow> diagnostic list" where
  "shown r = (if rs_status r = StInvalid \<or> rs_status r = StValid then rs_diagnostics r else [])"

lemma count_rules_ok: "counts_ok counts ds \<Longrightarrow> counts_ok (foldl count_rule counts ds') (ds @ ds')"
  by (induction ds' arbitrary: counts ds) (use count_rule_ok in fastforce)+

lemma text_counts:
  assumes "fo_summary fo"
  shows "counts_ok (foldl (\<lambda>counts r. snd (text_result fo counts r)) [] rs) (concat (map shown rs))"
proof (induction rs rule: rev_induct)
  case Nil
  then show ?case by (simp add: counts_ok_def count_of_def rule_findings_def)
next
  case (snoc r rs)
  let ?counts = "foldl (\<lambda>counts r. snd (text_result fo counts r)) [] rs"
  have "snd (text_result fo ?counts r) = foldl count_rule ?counts (shown r)"
    using assms by (cases "rs_status r") (simp_all add: text_result_def text_findings_def shown_def)
  then show ?case using count_rules_ok [OF snoc] by simp
qed

interpretation rules_by_count: strict_weak "rule_before counts" for counts
  by unfold_locales (auto simp: rule_before_def not_less split: if_splits)

text \<open>
  The reports agree with the results. JUnit has a case per result in order, with as many failing and
  erring cases as the summary counts invalid files and errors; the test lines of TAP are one per result,
  numbered from 1 up to the number its plan gives; and with a summary the text report lists every rule
  that has findings shown once, with how many, the most frequent first.
\<close>

theorem report_counts_agree:
  "let cases = foldl junit_result [] rs; s = summarize rs; tap = foldl tap_result tap_start rs;
       counts = foldl (\<lambda>counts r. snd (text_result fo counts r)) [] rs;
       names = sort_slice (rule_before counts) (map fst counts); ds = concat (map shown rs)
   in map jc_name cases = map rs_path rs \<and>
      length (filter (\<lambda>c. jc_failures c \<noteq> []) cases) = sm_invalid s \<and>
      length (filter (\<lambda>c. jc_error c \<noteq> None) cases) = sm_errors s \<and>
      tp_n tap = length rs \<and> filter (\<lambda>l. \<not> is_comment l) (tp_lines tap) = tap_numbered 0 rs \<and>
      (if fo_summary fo
       then distinct names \<and> set names = d_rule ` set ds \<and>
         (\<forall>name. count_of counts name = rule_findings ds name) \<and>
         sorted_wrt (\<lambda>a b. rule_findings ds b \<le> rule_findings ds a) names
       else counts = [])"
proof -
  define counts where "counts = foldl (\<lambda>counts r. snd (text_result fo counts r)) [] rs"
  have names: "map jc_name (foldl junit_result [] rs) = map rs_path rs"
    by (simp add: junit_cases junit_case_of_def Let_def)
  have failing: "length (filter (\<lambda>c. jc_failures c \<noteq> []) (foldl junit_result [] rs)) = sm_invalid (summarize rs)"
    "length (filter (\<lambda>c. jc_error c \<noteq> None) (foldl junit_result [] rs)) = sm_errors (summarize rs)"
    unfolding junit_cases filter_map length_map comp_def junit_case_outcome
    by (simp_all add: summarize_counts with_status_def)
  have off: "counts = []" if "\<not> fo_summary fo"
  proof -
    have "snd (text_result fo c r) = c" for c r
      using that by (cases "rs_status r") (simp_all add: text_result_def text_findings_def)
    moreover have "foldl (\<lambda>counts r. counts) c rs = c" for c :: rule_counts
      by (induction rs) simp_all
    ultimately show ?thesis by (simp add: counts_def)
  qed
  have on: "distinct (map fst counts) \<and> set (map fst counts) = d_rule ` set (concat (map shown rs)) \<and>
      (\<forall>name. count_of counts name = rule_findings (concat (map shown rs)) name)" if "fo_summary fo"
    using text_counts [OF that, of rs] by (simp add: counts_ok_def counts_def)
  have "sorted_wrt (\<lambda>a b. count_of counts b \<le> count_of counts a) (sort_slice (rule_before counts) (map fst counts))"
    using rules_by_count.sort_slice_sorted [of counts "map fst counts"]
    by (rule sorted_wrt_mono_rel [rotated]) (auto simp: rule_before_def split: if_splits)
  then show ?thesis
    using names failing tap_results [of rs] off on unfolding Let_def counts_def [symmetric] by auto
qed

text \<open>
  A message with a line break leaves its comment: what follows the break stands on a line of its own, which
  here reads as the result of a second test.
\<close>

lemma tap_message_breaks:
  "tap_finish (foldl tap_result tap_start [error_result ''a'' (''open a: bad'' @ nl @ ''ok 2 - b'')]) =
     [''1..1'' @ nl @ ''not ok 1 - a'' @ nl @ ''# open a: bad'' @ nl @ ''ok 2 - b'' @ nl]"
  by code_simp

end
