(* ===== verification/Indexes.thy ===== *)
theory Indexes
  imports Store Linter
begin

section \<open>Where else a component ships\<close>

text \<open>
  \<open>pkg/lint/availability.go\<close> and \<open>distributions.go\<close>: the two indexes an unknown component is looked up in.
  Each is built by the first question asked of it and kept for the next; the mutex makes a question one
  step. The map of an index is a function that is empty where the Go map has no key. The context is a
  \<open>run_ctx\<close>: a question asks it when it starts and, after a build, once more.
\<close>

type_synonym shipping = "kind \<Rightarrow> string \<Rightarrow> string list"

record build_index =
  bi_ready :: bool
  bi_by_key :: shipping

definition no_shipping :: shipping where "no_shipping = (\<lambda>_ _. [])"

definition fresh_index :: build_index where
  "fresh_index = \<lparr>bi_ready = False, bi_by_key = no_shipping\<rparr>"

text \<open>
  The loop over the kinds and types of a schema: every entry of the two maps is visited once, so every key
  of the index it holds gains the label once.
\<close>

definition add_label :: "schema \<Rightarrow> string \<Rightarrow> shipping \<Rightarrow> shipping" where
  "add_label c label by_key =
     (\<lambda>k ty. if ty \<in> set (map fst (sch_components c k)) then by_key k ty @ [label] else by_key k ty)"

text \<open>A question to an index, given what builds it: \<open>Versions\<close> and \<open>Distributions\<close>.\<close>

definition ask_index :: "(store_state \<Rightarrow> shipping \<times> store_state) \<Rightarrow> run_ctx \<Rightarrow> nat \<Rightarrow> build_index \<Rightarrow> kind \<Rightarrow> string \<Rightarrow>
    store_state \<Rightarrow> string list \<times> build_index \<times> store_state" where
  "ask_index build asked t ix k ty st =
     (if asked t \<noteq> None then ([], ix, st)
      else (case (if bi_ready ix then (ix, st)
              else (case build st of
                (by_key, st) \<Rightarrow> (\<lparr>bi_ready = asked (t + 1) = None, bi_by_key = by_key\<rparr>, st))) of
          (ix, st) \<Rightarrow> if \<not> bi_ready ix then ([], ix, st) else (bi_by_key ix k ty, ix, st)))"

subsection \<open>availability.go\<close>

definition walk_limit :: nat where "walk_limit = 12"

definition published :: "(kind \<times> (string \<times> string list) list) list \<Rightarrow> shipping" where
  "published avail =
     (\<lambda>k ty. case map_of avail k of
        None \<Rightarrow> []
      | Some by_type \<Rightarrow> (case map_of by_type ty of None \<Rightarrow> [] | Some versions \<Rightarrow> versions))"

fun walk_loop :: "world \<Rightarrow> store \<Rightarrow> string list \<Rightarrow> nat \<Rightarrow> shipping \<Rightarrow> store_state \<Rightarrow> (nat \<times> shipping) \<times> store_state" where
  "walk_loop w s [] failed by_key st = ((failed, by_key), st)"
| "walk_loop w s (version # versions) failed by_key st =
     (case store_load w s version st of
        (Inl _, st) \<Rightarrow> walk_loop w s versions (failed + 1) by_key st
      | (Inr c, st) \<Rightarrow> walk_loop w s versions failed (add_label c version by_key) st)"

definition walk_schemas :: "world \<Rightarrow> store \<Rightarrow> store_state \<Rightarrow> shipping \<times> store_state" where
  "walk_schemas w s st =
     (case store_versions w s st of
        (versions, st) \<Rightarrow>
          (let versions = (if store_remote s \<and> walk_limit < length versions then take walk_limit versions else versions) in
           case walk_loop w s (rev versions) 0 no_shipping st of
             ((failed, by_key), st) \<Rightarrow> (if length versions \<le> failed * 2 then no_shipping else by_key, st)))"

definition build_versions :: "world \<Rightarrow> store \<Rightarrow> store_state \<Rightarrow> shipping \<times> store_state" where
  "build_versions w s st =
     (case store_availability w s st of
        (Some avail, st) \<Rightarrow> (published avail, st)
      | (None, st) \<Rightarrow> walk_schemas w s st)"

definition ask_versions :: "world \<Rightarrow> store \<Rightarrow> run_ctx \<Rightarrow> nat \<Rightarrow> build_index \<Rightarrow> kind \<Rightarrow> string \<Rightarrow> store_state \<Rightarrow>
    string list \<times> build_index \<times> store_state" where
  "ask_versions w s = ask_index (build_versions w s)"

subsection \<open>distributions.go\<close>

fun siblings_loop :: "world \<Rightarrow> store \<Rightarrow> string \<Rightarrow> string list \<Rightarrow> shipping \<Rightarrow> store_state \<Rightarrow> shipping \<times> store_state" where
  "siblings_loop w s version [] by_key st = (by_key, st)"
| "siblings_loop w s version (sibling # dists) by_key st =
     (if sibling = so_distribution s then siblings_loop w s version dists by_key st
      else (case store_load w (with_distribution sibling s) version st of
          (Inl _, st) \<Rightarrow> siblings_loop w s version dists by_key st
        | (Inr c, st) \<Rightarrow> siblings_loop w s version dists (add_label c sibling by_key) st))"

definition build_distributions :: "world \<Rightarrow> store \<Rightarrow> string \<Rightarrow> store_state \<Rightarrow> shipping \<times> store_state" where
  "build_distributions w s version st =
     (case store_distributions w s st of (dists, st) \<Rightarrow> siblings_loop w s version dists no_shipping st)"

definition ask_distributions :: "world \<Rightarrow> store \<Rightarrow> string \<Rightarrow> run_ctx \<Rightarrow> nat \<Rightarrow> build_index \<Rightarrow> kind \<Rightarrow> string \<Rightarrow>
    store_state \<Rightarrow> string list \<times> build_index \<times> store_state" where
  "ask_distributions w s version = ask_index (build_distributions w s version)"

subsection \<open>A question is answered once\<close>

text \<open>
  The interface of an index over its builder: whatever builds it, an index that is ready answers from its
  map without touching the store, a cancelled question answers nothing and never makes an index ready, and
  an answered question leaves it ready.
\<close>

lemma ask_ready:
  "bi_ready ix \<Longrightarrow> asked t = None \<Longrightarrow> ask_index build asked t ix k ty st = (bi_by_key ix k ty, ix, st)"
  by (simp add: ask_index_def)

lemma ask_fresh:
  assumes "\<not> bi_ready ix" "asked t = None" "asked (t + 1) = None"
  shows "ask_index build asked t ix k ty st =
    (fst (build st) k ty, \<lparr>bi_ready = True, bi_by_key = fst (build st)\<rparr>, snd (build st))"
  using assms by (cases "build st") (simp add: ask_index_def)

lemma ask_cancelled:
  assumes "asked t \<noteq> None \<or> \<not> bi_ready ix \<and> asked (t + 1) \<noteq> None" "ask_index build asked t ix k ty st = (answer, ix', st')"
  shows "answer = [] \<and> bi_ready ix' = bi_ready ix"
  using assms by (auto simp: ask_index_def split: if_splits prod.splits)

subsection \<open>What the walk over the schemas answers\<close>

text \<open>What loading each release comes to, the state threaded through.\<close>

fun loads :: "world \<Rightarrow> store \<Rightarrow> string list \<Rightarrow> store_state \<Rightarrow> (string \<times> schema option) list" where
  "loads w s [] st = []"
| "loads w s (version # versions) st =
     (case store_load w s version st of (r, st) \<Rightarrow>
        (version, (case r of Inl _ \<Rightarrow> None | Inr c \<Rightarrow> Some c)) # loads w s versions st)"

definition ships :: "kind \<Rightarrow> string \<Rightarrow> string \<times> schema option \<Rightarrow> bool" where
  "ships k ty l \<longleftrightarrow> (case snd l of None \<Rightarrow> False | Some c \<Rightarrow> ty \<in> set (map fst (sch_components c k)))"

definition failures :: "(string \<times> schema option) list \<Rightarrow> nat" where
  "failures ls = length (filter (\<lambda>l. snd l = None) ls)"

lemma map_fst_loads [simp]: "map fst (loads w s versions st) = versions"
  by (induction versions arbitrary: st) (simp_all split: prod.split)

lemma walk_loop_spec:
  "walk_loop w s versions failed by_key st = ((failed', by_key'), st') \<Longrightarrow>
     failed' = failed + failures (loads w s versions st) \<and>
     by_key' k ty = by_key k ty @ map fst (filter (ships k ty) (loads w s versions st))"
proof (induction versions arbitrary: failed by_key st)
  case (Cons version versions)
  obtain r st1 where l: "store_load w s version st = (r, st1)" by fastforce
  show ?case
  proof (cases r)
    case (Inl e)
    then show ?thesis using Cons.IH [of "failed + 1" by_key st1] Cons.prems
      by (simp add: l failures_def ships_def)
  next
    case (Inr c)
    then show ?thesis using Cons.IH [of failed "add_label c version by_key" st1] Cons.prems
      by (simp add: l failures_def ships_def add_label_def)
  qed
qed (simp add: failures_def)

definition releases_walked :: "store \<Rightarrow> string list \<Rightarrow> string list" where
  "releases_walked s versions =
     rev (if store_remote s \<and> walk_limit < length versions then take walk_limit versions else versions)"

lemma walk_schemas_spec:
  assumes "walk_schemas w s st = (by_key, st')" "store_versions w s st = (versions, st1)"
  shows "by_key k ty =
    (if length (releases_walked s versions) \<le> failures (loads w s (releases_walked s versions) st1) * 2 then []
     else map fst (filter (ships k ty) (loads w s (releases_walked s versions) st1)))"
proof -
  obtain failed m st2 where l: "walk_loop w s (releases_walked s versions) 0 no_shipping st1 = ((failed, m), st2)"
    by (metis prod.collapse)
  then show ?thesis
    using assms walk_loop_spec [OF l, of k ty]
    by (auto simp: walk_schemas_def Let_def releases_walked_def no_shipping_def split: if_splits)
qed

lemma releases_walked_sorted:
  assumes "store_versions w s st = (versions, st1)"
  shows "sorted_wrt (\<lambda>a b. compare_version a b \<le> 0) (releases_walked s versions) \<and>
    distinct (releases_walked s versions) \<and> set (releases_walked s versions) \<subseteq> set versions"
proof -
  have "sorted_wrt (\<lambda>a b. 0 \<le> compare_version a b) (take n versions)" for n
    by (rule sorted_wrt_take [OF store_versions_spec(3) [OF assms]])
  then have "sorted_wrt (\<lambda>a b. 0 \<le> compare_version b a) (rev (take n versions))" for n
    by (simp add: sorted_wrt_rev)
  then have s: "sorted_wrt (\<lambda>a b. compare_version a b \<le> 0) (rev (take n versions))" for n
    by (rule sorted_wrt_mono_rel [rotated]) (simp add: rel.cmp_le_iff)
  show ?thesis
    using s [of walk_limit] s [of "length versions"] store_versions_spec(1) [OF assms]
    by (auto simp: releases_walked_def dest: in_set_takeD)
qed

lemma sibling_labels:
  "siblings_loop w s version dists by_key st = (by_key', st') \<Longrightarrow>
     \<exists>new. by_key' k ty = by_key k ty @ new \<and> subseq new (filter (\<lambda>d. d \<noteq> so_distribution s) dists)"
proof (induction dists arbitrary: by_key st)
  case (Cons sibling dists)
  show ?case
  proof (cases "sibling = so_distribution s")
    case True
    then show ?thesis using Cons by simp
  next
    case False
    obtain r st1 where l: "store_load w (with_distribution sibling s) version st = (r, st1)" by fastforce
    show ?thesis
    proof (cases r)
      case (Inl e)
      then show ?thesis using Cons.IH [of by_key st1] Cons.prems False
        by (auto simp: l intro: list_emb_Cons)
    next
      case (Inr c)
      then obtain new where "by_key' k ty = add_label c sibling by_key k ty @ new"
        "subseq new (filter (\<lambda>d. d \<noteq> so_distribution s) dists)"
        using Cons.IH [of "add_label c sibling by_key" st1] Cons.prems False by (auto simp: l)
      then show ?thesis using False by (cases "ty \<in> set (map fst (sch_components c k))") (auto simp: add_label_def)
    qed
  qed
qed simp

text \<open>
  A store whose distribution is left empty asks the default one as if it were a sibling: the name compared
  is the one written, not the one it stands for.
\<close>

lemma own_distribution_asked:
  assumes "so_distribution s = []" "store_distributions w s st = ([default_distribution], st1)"
    and "store_load w (with_distribution default_distribution s) version st1 = (Inr c, st2)"
    and "ty \<in> set (map fst (sch_components c k))"
  shows "store_distribution s = default_distribution \<and>
    fst (build_distributions w s version st) k ty = [default_distribution]"
proof -
  have "default_distribution \<noteq> []" by (simp add: default_distribution_def)
  then show ?thesis
    using assms by (simp add: build_distributions_def store_distribution_def add_label_def no_shipping_def)
qed

lemma walk_answer_sorted:
  assumes "store_versions w s st = (versions, st1)"
  shows "sorted_wrt (\<lambda>a b. compare_version a b \<le> 0)
    (map fst (filter P (loads w s (releases_walked s versions) st1)))"
proof -
  have "sorted_wrt (\<lambda>a b. compare_version a b \<le> 0) (map fst (loads w s (releases_walked s versions) st1))"
    using releases_walked_sorted [OF assms] by simp
  then show ?thesis unfolding sorted_wrt_map by (rule sorted_wrt_filter)
qed

text \<open>
  The first question to a version index that the run lives to see answered reads the registry's
  availability document, or else the listed releases (the newest twelve of a remote registry), oldest first:
  the answer is the releases whose schema has the component, in that order, and nothing at all when half of
  them or more could not be read. Every later question gives the same answer without touching the store.
\<close>

theorem version_index_correct:
  assumes "asked t = None" "asked (t + 1) = None" "asked u = None"
    and "ask_versions w s asked t fresh_index k ty st = (answer, ix, st')"
  shows "ask_versions w s asked u ix k ty later = (answer, ix, later) \<and>
    (case store_availability w s st of
       (Some avail, st1) \<Rightarrow> answer = published avail k ty \<and> st' = st1
     | (None, st1) \<Rightarrow>
         (case store_versions w s st1 of (versions, st2) \<Rightarrow>
            let releases = releases_walked s versions; ls = loads w s releases st2 in
            set releases \<subseteq> set versions \<and> (store_remote s \<longrightarrow> length releases \<le> walk_limit) \<and>
            answer = (if length releases \<le> failures ls * 2 then [] else map fst (filter (ships k ty) ls)) \<and>
            sorted_wrt (\<lambda>a b. compare_version a b \<le> 0) answer))"
proof -
  have fresh: "\<not> bi_ready fresh_index" by (simp add: fresh_index_def)
  obtain by_key st2 where b: "build_versions w s st = (by_key, st2)" by fastforce
  have a: "answer = by_key k ty" "ix = \<lparr>bi_ready = True, bi_by_key = by_key\<rparr>" "st' = st2"
    using assms(4) ask_fresh [OF fresh assms(1,2), of "build_versions w s" k ty st]
    by (simp_all add: ask_versions_def b)
  have again: "ask_versions w s asked u ix k ty later = (answer, ix, later)"
    using ask_ready [of ix asked u "build_versions w s" k ty later] assms(3) by (simp add: a ask_versions_def)
  show ?thesis
  proof (cases "store_availability w s st")
    case (Pair av st1)
    show ?thesis
    proof (cases av)
      case (Some avail)
      then show ?thesis using again a b by (simp add: Pair build_versions_def)
    next
      case None
      then have walk: "walk_schemas w s st1 = (by_key, st2)" using b by (simp add: Pair build_versions_def)
      obtain versions st3 where v: "store_versions w s st1 = (versions, st3)" by fastforce
      note spec = walk_schemas_spec [OF walk v, of k ty]
      have "length (releases_walked s versions) \<le> walk_limit" if "store_remote s"
        using that by (simp add: releases_walked_def)
      then show ?thesis
        using again releases_walked_sorted [OF v] walk_answer_sorted [OF v] spec
        by (simp add: Pair None v Let_def a(1))
    qed
  qed
qed

definition demo_question :: "string list \<times> build_index \<times> store_state" where
  "demo_question = ask_versions demo_world demo_store background 0 fresh_index Receiver ''otlp'' demo_store_state"

lemma version_index_correct_witness:
  "fst demo_question = [] \<and> bi_ready (fst (snd demo_question)) \<and>
   ask_versions demo_world demo_store background 7 (fst (snd demo_question)) Receiver ''otlp'' demo_store_state =
     ([], fst (snd demo_question), demo_store_state)"
proof -
  obtain answer ix st' where q: "demo_question = (answer, ix, st')" by (metis prod_cases3)
  have "background t = None" for t by (simp add: background_def)
  from version_index_correct [where asked = background, OF this this this q [unfolded demo_question_def]]
  have "ask_versions demo_world demo_store background 7 ix Receiver ''otlp'' demo_store_state = (answer, ix, demo_store_state)"
    by blast
  moreover have "fst demo_question = [] \<and> bi_ready (fst (snd demo_question))" by code_simp
  ultimately show ?thesis by (simp add: q)
qed

end
