(* ===== verification/Prepare.thy ===== *)
theory Prepare
  imports Indexes
begin

section \<open>Preparing a linter\<close>

text \<open>
  \<open>pkg/lint/prepare.go\<close>: \<open>Prepare\<close> resolves the rules and severities, loads the schema, falls back to the
  nearest older release where that is allowed, and builds the linter. A severity is the text of the option.
  The two indexes a linter asks are given by their answers at the state \<open>Prepare\<close> leaves: linting itself
  does not touch the store, so that is the state of the first question. The error of a context is read
  with the question that found it done.
\<close>

record prepare_options =
  po_store :: store
  po_version :: string
  po_fallback :: bool
  po_rules :: selection
  po_policy :: "(string \<Rightarrow> (string \<times> severity) list) option"
  po_environment :: "(string \<Rightarrow> environment) option"
  po_strict :: bool
  po_ignore_missing :: bool
  po_min_severity :: string
  po_fail_on :: string
  po_embedded :: bool

record target =
  tg_requested :: string
  tg_version :: string
  tg_distribution :: string
  tg_fallback :: bool

definition no_target :: target where
  "no_target = \<lparr>tg_requested = [], tg_version = [], tg_distribution = [], tg_fallback = False\<rparr>"

datatype prepare_error =
  PrepareCancelled string
| BadRules string
| BadSeverity string
| LoadSchema store_error
| EmptySchema

definition prepare_severity :: "string \<Rightarrow> string \<Rightarrow> severity \<Rightarrow> prepare_error + severity" where
  "prepare_severity name value fallback =
     (if value = [] then Inr fallback
      else (case parse_severity value of
          Inl e \<Rightarrow> Inl (BadSeverity (name @ '': '' @ e)) | Inr s \<Rightarrow> Inr s))"

definition first_target :: "prepare_options \<Rightarrow> target" where
  "first_target po =
     \<lparr>tg_requested = (if normalize (po_version po) = [] then latest else normalize (po_version po)),
      tg_version = [],
      tg_distribution = (if so_distribution (po_store po) = [] then default_distribution
        else so_distribution (po_store po)),
      tg_fallback = False\<rparr>"

definition load_fallback :: "world \<Rightarrow> prepare_options \<Rightarrow> target \<Rightarrow> store_error + schema \<Rightarrow> store_state \<Rightarrow>
    (store_error + schema) \<times> target \<times> store_state" where
  "load_fallback w po target r st =
     (case r of
        Inl (UnknownVersion e) \<Rightarrow>
          (case (if po_fallback po then nearest e else None) of
             None \<Rightarrow> (r, target, st)
           | Some near \<Rightarrow>
               (case store_load w (po_store po) near st of
                  (r, st) \<Rightarrow> (r, target\<lparr>tg_version := near, tg_fallback := True\<rparr>, st)))
      | _ \<Rightarrow> (r, target, st))"

definition load_target :: "world \<Rightarrow> run_ctx \<Rightarrow> nat \<Rightarrow> prepare_options \<Rightarrow> store_state \<Rightarrow>
    (prepare_error + schema) \<times> target \<times> store_state" where
  "load_target w asked t po st =
     (let target = first_target po in
      case store_load w (po_store po) (tg_requested target) st of
        (r, st) \<Rightarrow>
          (case asked t of
             Some e \<Rightarrow> (Inl (PrepareCancelled e), target, st)
           | None \<Rightarrow>
               (case load_fallback w po target r st of
                  (r, target, st) \<Rightarrow>
                    (case asked (t + 1) of
                       Some e \<Rightarrow> (Inl (PrepareCancelled e), target, st)
                     | None \<Rightarrow>
                         (case r of
                            Inl e \<Rightarrow> (Inl (LoadSchema e), target, st)
                          | Inr c \<Rightarrow>
                              (let target = target\<lparr>tg_version := sch_collector_version c\<rparr> in
                               if schema_count c = 0 then (Inl EmptySchema, target, st)
                               else (Inr c, target, st)))))))"

definition prepared_options :: "world \<Rightarrow> prepare_options \<Rightarrow> resolved \<Rightarrow> severity \<Rightarrow> severity \<Rightarrow> schema \<Rightarrow> target \<Rightarrow>
    store_state \<Rightarrow> options" where
  "prepared_options w po rv min_severity fail_on c target st =
     \<lparr>op_schema = Some c,
      op_avail = Some (\<lambda>k ty. fst (ask_versions w (po_store po) background 0 fresh_index k ty st)),
      op_dists = Some (\<lambda>k ty. fst (ask_distributions w (with_distribution (tg_distribution target) (po_store po))
        (sch_collector_version c) background 0 fresh_index k ty st)),
      op_rules = Some (rv_rules rv), op_severities = rv_severities rv, op_strict = po_strict po,
      op_ignore_missing = po_ignore_missing po, op_policy = po_policy po, op_environment = po_environment po,
      op_min_severity = Some min_severity, op_fail_on = Some fail_on, op_embedded = po_embedded po\<rparr>"

definition prepare :: "go_lib \<Rightarrow> world \<Rightarrow> run_ctx \<Rightarrow> nat \<Rightarrow> prepare_options \<Rightarrow> store_state \<Rightarrow>
    (prepare_error + linter) \<times> target \<times> store_state" where
  "prepare lib w asked t po st =
     (case asked t of
        Some e \<Rightarrow> (Inl (PrepareCancelled e), no_target, st)
      | None \<Rightarrow>
          (case resolve_selection lib (po_rules po) of
             Inl e \<Rightarrow> (Inl (BadRules e), no_target, st)
           | Inr rv \<Rightarrow>
               (case prepare_severity ''minSeverity'' (po_min_severity po) Info of
                  Inl e \<Rightarrow> (Inl e, no_target, st)
                | Inr min_severity \<Rightarrow>
                    (case prepare_severity ''failOn'' (po_fail_on po) Error of
                       Inl e \<Rightarrow> (Inl e, no_target, st)
                     | Inr fail_on \<Rightarrow>
                         (case load_target w asked (t + 1) po st of
                            (Inl e, target, st) \<Rightarrow> (Inl e, target, st)
                          | (Inr c, target, st) \<Rightarrow>
                              (Inr (new_linter (prepared_options w po rv min_severity fail_on c target st)),
                               target, st))))))"

subsection \<open>What a prepared linter checks against\<close>

lemma load_schema_identity:
  assumes "store_load w s version st = (Inr c, st')"
  shows "(if sch_distribution c = [] then default_distribution else sch_distribution c) = store_distribution s"
    "version \<noteq> [] \<Longrightarrow> version \<noteq> latest \<Longrightarrow> normalize (sch_collector_version c) = normalize version"
proof -
  obtain v st1 loc where m: "release_meant w s version st v st1" "decided w s v (locations s) st1 loc (Inr c) st'"
    using store_load_answer [OF assms] by auto
  show "(if sch_distribution c = [] then default_distribution else sch_distribution c) = store_distribution s"
    using decided_schema [OF m(2)] by blast
  show "version \<noteq> [] \<Longrightarrow> version \<noteq> latest \<Longrightarrow> normalize (sch_collector_version c) = normalize version"
    using decided_schema [OF m(2)] m(1) by (simp add: release_meant_def)
qed

lemma load_unknown_version:
  assumes "store_load w s version st = (Inl (UnknownVersion e), st')" "version \<noteq> []" "version \<noteq> latest"
  shows "uv_version e = normalize version"
  using store_load_answer [OF assms(1)] assms(2,3) by (auto simp: release_meant_def)

lemma nearest_not_newer: "nearest e = Some v \<Longrightarrow> v \<in> set (uv_available e) \<and> compare_version v (uv_version e) \<le> 0"
  by (auto simp: nearest_def find_Some_iff)

text \<open>The schema of a target: the release asked for, or the nearest one where that is missing and allowed.\<close>

definition target_schema :: "world \<Rightarrow> prepare_options \<Rightarrow> target \<Rightarrow> schema \<Rightarrow> store_state \<Rightarrow> store_state \<Rightarrow> bool" where
  "target_schema w po target c st st' \<longleftrightarrow>
     (if tg_fallback target
      then po_fallback po \<and> (\<exists>e st1 near. store_load w (po_store po) (tg_requested target) st = (Inl (UnknownVersion e), st1) \<and>
        nearest e = Some near \<and> store_load w (po_store po) near st1 = (Inr c, st'))
      else store_load w (po_store po) (tg_requested target) st = (Inr c, st'))"

lemma target_schema_version [simp]:
  "target_schema w po (target\<lparr>tg_version := v\<rparr>) c st st' = target_schema w po target c st st'"
  by (simp add: target_schema_def)

lemma load_target_schema:
  assumes "load_target w asked t po st = (Inr c, target, st')"
  shows "asked t = None \<and> asked (t + 1) = None \<and> 0 < schema_count c \<and>
    tg_requested target = tg_requested (first_target po) \<and> tg_version target = sch_collector_version c \<and>
    tg_distribution target = store_distribution (po_store po) \<and> target_schema w po target c st st'"
proof -
  obtain r st1 where l: "store_load w (po_store po) (tg_requested (first_target po)) st = (r, st1)" by fastforce
  obtain r2 target2 st2 where f: "load_fallback w po (first_target po) r st1 = (r2, target2, st2)" by (metis prod_cases3)
  have asked: "asked t = None" "asked (t + 1) = None"
    using assms by (auto simp: load_target_def Let_def l f split: option.splits)
  then have c: "r2 = Inr c" "target = target2\<lparr>tg_version := sch_collector_version c\<rparr>" "st' = st2" "0 < schema_count c"
    using assms by (auto simp: load_target_def Let_def l f split: sum.splits if_splits)
  have "tg_requested target2 = tg_requested (first_target po) \<and>
      tg_distribution target2 = store_distribution (po_store po) \<and> target_schema w po target2 c st st2"
  proof (cases r)
    case (Inr c')
    then show ?thesis
      using f l c(1) by (auto simp: load_fallback_def target_schema_def first_target_def store_distribution_def)
  next
    case (Inl se)
    with f c(1) obtain e near where e: "se = UnknownVersion e" "po_fallback po" "nearest e = Some near"
      "store_load w (po_store po) near st1 = (Inr c, st2)"
      "target2 = (first_target po)\<lparr>tg_version := near, tg_fallback := True\<rparr>"
      by (auto simp: load_fallback_def split: store_error.splits option.splits prod.splits if_splits)
    then show ?thesis
      using l Inl by (auto simp: target_schema_def first_target_def store_distribution_def)
  qed
  then show ?thesis using asked c by simp
qed

text \<open>
  C28: \<open>Prepare\<close> gives a linter only for a selection that resolves and a schema with components, which is
  the one asked for: it declares the store's distribution and the requested release, or, when no location
  has that release and the caller allows it, the nearest one listed, which is not newer and is reported as a
  fallback. A cancelled context gives no linter.
\<close>

theorem prepare_correct:
  assumes "prepare lib w asked t po st = (Inr li, target, st')"
  shows "\<exists>rv. resolve_selection lib (po_rules po) = Inr rv \<and> ln_rules li = rv_rules rv \<and>
    asked t = None \<and> asked (t + 1) = None \<and> asked (t + 2) = None \<and> 0 < schema_count (ln_schema li) \<and>
    tg_version target = sch_collector_version (ln_schema li) \<and>
    tg_distribution target = store_distribution (po_store po) \<and>
    (if sch_distribution (ln_schema li) = [] then default_distribution else sch_distribution (ln_schema li)) =
      tg_distribution target \<and>
    (\<not> tg_fallback target \<and> tg_requested target \<noteq> latest \<longrightarrow>
       normalize (tg_version target) = normalize (tg_requested target)) \<and>
    (tg_fallback target \<longrightarrow> po_fallback po \<and>
       (\<exists>e st1 near. store_load w (po_store po) (tg_requested target) st = (Inl (UnknownVersion e), st1) \<and>
          near \<in> set (uv_available e) \<and> nearest e = Some near \<and> compare_version near (uv_version e) \<le> 0 \<and>
          (near \<noteq> [] \<and> near \<noteq> latest \<longrightarrow> normalize (tg_version target) = normalize near)))"
proof -
  obtain rv where a: "asked t = None" and rv: "resolve_selection lib (po_rules po) = Inr rv"
    using assms by (auto simp: prepare_def split: option.splits sum.splits)
  obtain ms where ms: "prepare_severity ''minSeverity'' (po_min_severity po) Info = Inr ms"
    using assms by (auto simp: prepare_def a rv split: sum.splits)
  obtain fo where fo: "prepare_severity ''failOn'' (po_fail_on po) Error = Inr fo"
    using assms by (auto simp: prepare_def a rv ms split: sum.splits)
  obtain c where l: "load_target w asked (t + 1) po st = (Inr c, target, st')"
    and li: "li = new_linter (prepared_options w po rv ms fo c target st')"
    using assms by (auto simp: prepare_def a rv ms fo split: prod.splits sum.splits)
  have c: "ln_schema li = c" "ln_rules li = rv_rules rv"
    by (simp_all add: li new_linter_def prepared_options_def)
  note t = load_target_schema [OF l]
  have nonempty: "tg_requested target \<noteq> []"
    using t by (simp add: first_target_def latest_def)
  have known: "normalize (tg_version target) = normalize (tg_requested target)"
    if "\<not> tg_fallback target" "tg_requested target \<noteq> latest"
    using t that load_schema_identity(2) [OF _ nonempty] by (auto simp: target_schema_def)
  have fell: "po_fallback po \<and>
       (\<exists>e st1 near. store_load w (po_store po) (tg_requested target) st = (Inl (UnknownVersion e), st1) \<and>
          near \<in> set (uv_available e) \<and> nearest e = Some near \<and> compare_version near (uv_version e) \<le> 0 \<and>
          (near \<noteq> [] \<and> near \<noteq> latest \<longrightarrow> normalize (tg_version target) = normalize near))"
    if fb: "tg_fallback target"
  proof -
    obtain e st1 near where e: "store_load w (po_store po) (tg_requested target) st = (Inl (UnknownVersion e), st1)"
      "nearest e = Some near" "store_load w (po_store po) near st1 = (Inr c, st')" "po_fallback po"
      using t fb by (auto simp: target_schema_def)
    then show ?thesis
      using nearest_not_newer [OF e(2)] load_schema_identity(2) [OF e(3)] t by auto
  qed
  have dist: "(if sch_distribution c = [] then default_distribution else sch_distribution c) = store_distribution (po_store po)"
  proof -
    obtain v st1 where "store_load w (po_store po) v st1 = (Inr c, st')"
      using t by (auto simp: target_schema_def split: if_splits)
    then show ?thesis by (rule load_schema_identity(1))
  qed
  have "asked (t + 2) = None" "asked (t + 1) = None" "0 < schema_count c" "tg_version target = sch_collector_version c"
    "tg_distribution target = store_distribution (po_store po)"
    using t by (simp_all add: numeral_2_eq_2)
  then show ?thesis using rv c a known fell dist by auto
qed

subsection \<open>Example\<close>

text \<open>A release newer than any listed: the newest listed stands in for it.\<close>

definition demo_prepare :: prepare_options where
  "demo_prepare = \<lparr>po_store = demo_store, po_version = ''0.200.0'', po_fallback = True, po_rules = demo_selection,
     po_policy = None, po_environment = None, po_strict = False, po_ignore_missing = False,
     po_min_severity = [], po_fail_on = ''warning'', po_embedded = False\<rparr>"

lemma demo_target:
  "(case load_target demo_world background 1 demo_prepare demo_store_state of
      (Inr c, target, _) \<Rightarrow> tg_requested target = ''v0.200.0'' \<and> tg_version target = ''v0.130.0'' \<and> tg_fallback target
    | _ \<Rightarrow> False)"
  by code_simp

lemma prepare_correct_witness:
  "\<exists>li target st'. prepare demo_lib demo_world background 0 demo_prepare demo_store_state = (Inr li, target, st') \<and>
     tg_fallback target \<and> sch_collector_version (ln_schema li) = ''v0.130.0'' \<and> 0 < schema_count (ln_schema li)"
proof -
  obtain rv where rv: "resolve_selection demo_lib demo_selection = Inr rv" using demo_selection_resolves by blast
  have sev: "prepare_severity ''minSeverity'' (po_min_severity demo_prepare) Info = Inr Info"
    "prepare_severity ''failOn'' (po_fail_on demo_prepare) Error = Inr Warning"
    by code_simp+
  obtain r target st' where l: "load_target demo_world background 1 demo_prepare demo_store_state = (r, target, st')"
    by (metis prod_cases3)
  with demo_target obtain c where c: "r = Inr c" "tg_version target = ''v0.130.0''" "tg_fallback target"
    by (auto split: sum.splits)
  have "background 0 = None" "po_rules demo_prepare = demo_selection"
    by (simp_all add: background_def demo_prepare_def)
  then obtain li where p: "prepare demo_lib demo_world background 0 demo_prepare demo_store_state = (Inr li, target, st')"
    using rv sev l c(1) by (simp add: prepare_def)
  with prepare_correct [OF p] c show ?thesis by auto
qed

end
