(* ===== verification/Scanner.thy ===== *)
theory Scanner
  imports Paths Sets Rule
begin

section \<open>Which files are linted\<close>

text \<open>
  \<open>pkg/scanner/scanner.go\<close>, and \<open>pkg/lint/environment.go\<close>, which matches paths with it. The file system
  is a parameter: what \<open>Stat\<close> answers for a path (an error, or whether it is a directory), and the tree
  \<open>afero.Walk\<close> finds under it without following links, each directory with its items in the order of the
  walk, or the error of listing it; an entry that cannot be stat'd is a node of its own. \<open>walk_node\<close> is
  that walk with the callback of \<open>Scanner.walk\<close>.
\<close>

datatype fs_node = FileNode | DirNode "(string \<times> fs_node) list" "string option" | NoStat string

record scan_fs =
  sf_stat :: "string \<Rightarrow> bool go_result"
  sf_tree :: "string \<Rightarrow> fs_node"

record scanner =
  sn_exclude :: "string list"
  sn_extensions :: "string list"
  sn_skip_dirs :: "string list"

definition stdin_marker :: string where "stdin_marker = ''-''"

definition new_scanner :: "string list \<Rightarrow> scanner" where
  "new_scanner exclude = \<lparr>sn_exclude = exclude, sn_extensions = [''.yaml'', ''.yml''],
     sn_skip_dirs = [''vendor'', ''node_modules'']\<rparr>"

subsection \<open>Match and CheckPattern\<close>

definition trim_stars :: "string \<Rightarrow> string" where
  "trim_stars s = rev (dropWhile (\<lambda>c. c = CHR ''*'') (rev (dropWhile (\<lambda>c. c = CHR ''*'') s)))"

definition match_path :: "string \<Rightarrow> string \<Rightarrow> bool" where
  "match_path pattern path \<longleftrightarrow>
     (if path_match pattern (path_base path) = Some True then True
      else if path_match pattern path = Some True then True
      else contains pattern ''*'' \<and> contains path (trim_stars pattern))"

definition check_pattern :: "string \<Rightarrow> string option" where
  "check_pattern pattern =
     (if path_match pattern [] = None then Some (''pattern '' @ go_quote pattern @ '': syntax error in pattern'') else None)"

subsection \<open>Scan\<close>

definition skip_dir :: "scanner \<Rightarrow> string \<Rightarrow> bool" where
  "skip_dir s name \<longleftrightarrow> has_prefix name ''.'' \<or> name \<in> set (sn_skip_dirs s)"

definition wanted :: "scanner \<Rightarrow> string \<Rightarrow> bool" where
  "wanted s name \<longleftrightarrow> to_lower (path_ext name) \<in> set (sn_extensions s)"

definition excluded :: "scanner \<Rightarrow> string \<Rightarrow> bool" where
  "excluded s path \<longleftrightarrow> list_ex (\<lambda>pattern. match_path pattern path) (sn_exclude s)"

definition insert_file :: "scanner \<Rightarrow> string \<Rightarrow> string go_set \<Rightarrow> string go_set" where
  "insert_file s path files =
     (if \<not> wanted s (path_base path) \<or> excluded s path then files else set_insert files [path_clean path])"

function walk_node :: "scanner \<Rightarrow> string \<Rightarrow> string \<Rightarrow> string \<Rightarrow> fs_node \<Rightarrow> string go_set \<Rightarrow> string go_set go_result"
  and walk_entries :: "scanner \<Rightarrow> string \<Rightarrow> string \<Rightarrow> (string \<times> fs_node) list \<Rightarrow> string go_set \<Rightarrow> string go_set go_result" where
  "walk_node s base path name FileNode files = Inr (insert_file s path files)"
| "walk_node s base path name (NoStat e) files =
     (if path = base then Inl e else Inr (insert_file s path files))"
| "walk_node s base path name (DirNode items failed) files =
     (if path \<noteq> base \<and> skip_dir s name then Inr files
      else (case failed of Some e \<Rightarrow> Inl e | None \<Rightarrow> walk_entries s base path items files))"
| "walk_entries s base path [] files = Inr files"
| "walk_entries s base path ((name, node) # items) files =
     (case walk_node s base (path_join [path, name]) name node files of
        Inl e \<Rightarrow> Inl e | Inr files \<Rightarrow> walk_entries s base path items files)"
  by pat_completeness auto
termination
  by (relation "measure (\<lambda>a. case a of Inl (_, _, _, _, node, _) \<Rightarrow> size node
        | Inr (_, _, _, items, _) \<Rightarrow> size_list (size_prod (\<lambda>_. 0) size) items)") auto

definition walk_files :: "scanner \<Rightarrow> scan_fs \<Rightarrow> string \<Rightarrow> string go_set \<Rightarrow> string go_set go_result" where
  "walk_files s fs base files =
     (case walk_node s base base (path_base base) (sf_tree fs base) files of
        Inl e \<Rightarrow> Inl (''walk '' @ base @ '': '' @ e) | Inr files \<Rightarrow> Inr files)"

fun scan_loop :: "scanner \<Rightarrow> scan_fs \<Rightarrow> string list \<Rightarrow> string go_set \<Rightarrow> string go_set go_result" where
  "scan_loop s fs [] files = Inr files"
| "scan_loop s fs (path # paths) files =
     (if path = stdin_marker then scan_loop s fs paths (set_insert files [stdin_marker])
      else (case sf_stat fs path of
          Inl e \<Rightarrow> Inl (''read '' @ path @ '': '' @ e)
        | Inr is_dir \<Rightarrow>
            if \<not> is_dir then scan_loop s fs paths (set_insert files [path_clean path])
            else (case walk_files s fs path files of
                Inl e \<Rightarrow> Inl e | Inr files \<Rightarrow> scan_loop s fs paths files)))"

definition scan :: "scanner \<Rightarrow> scan_fs \<Rightarrow> string list \<Rightarrow> string go_set go_result" where
  "scan s fs paths = scan_loop s fs paths (set_new [])"

subsection \<open>environment.go\<close>

record environment_override =
  eo_paths :: "string list"
  eo_env :: environment

record environment_policy =
  ep_default :: environment
  ep_overrides :: "environment_override list"

fun validate_overrides :: "nat \<Rightarrow> environment_override list \<Rightarrow> string option" where
  "validate_overrides i [] = None"
| "validate_overrides i (over # overs) =
     (case List.map_filter check_pattern (eo_paths over) of
        e # _ \<Rightarrow> Some (''override '' @ itoa (int i + 1) @ '': '' @ e)
      | [] \<Rightarrow> validate_overrides (i + 1) overs)"

definition validate_policy :: "environment_policy \<Rightarrow> string option" where
  "validate_policy p = validate_overrides 0 (ep_overrides p)"

definition resolve_environment :: "environment_policy \<Rightarrow> string \<Rightarrow> environment" where
  "resolve_environment p path =
     (if path = stdin_marker then ep_default p
      else (case find (\<lambda>over. list_ex (\<lambda>pattern. match_path pattern path) (eo_paths over)) (ep_overrides p) of
          None \<Rightarrow> ep_default p | Some over \<Rightarrow> eo_env over))"

definition policy_configured :: "environment_policy \<Rightarrow> bool" where
  "policy_configured p \<longleftrightarrow> env_kubernetes (ep_default p) \<or> 0 < length (ep_overrides p)"

subsection \<open>The files a walk reaches\<close>

text \<open>
  The specification: a path is reached when no directory on the way, the root apart, is one to skip; and
  a walk fails on a reached directory that cannot be listed, or a root that cannot be stat'd.
\<close>

definition entered :: "scanner \<Rightarrow> string \<Rightarrow> string \<Rightarrow> string \<Rightarrow> bool" where
  "entered s base path name \<longleftrightarrow> path = base \<or> \<not> skip_dir s name"

inductive reached :: "scanner \<Rightarrow> string \<Rightarrow> string \<Rightarrow> string \<Rightarrow> fs_node \<Rightarrow> string \<Rightarrow> bool" for s :: scanner and base :: string where
  reached_file: "reached s base path name FileNode path"
| reached_nostat: "path \<noteq> base \<Longrightarrow> reached s base path name (NoStat e) path"
| reached_entry: "entered s base path name \<Longrightarrow> (item, node) \<in> set items \<Longrightarrow>
    reached s base (path_join [path, item]) item node f \<Longrightarrow> reached s base path name (DirNode items failed) f"

inductive walk_fails :: "scanner \<Rightarrow> string \<Rightarrow> string \<Rightarrow> string \<Rightarrow> fs_node \<Rightarrow> bool" for s :: scanner and base :: string where
  fails_root: "walk_fails s base base name (NoStat e)"
| fails_list: "entered s base path name \<Longrightarrow> walk_fails s base path name (DirNode items (Some e))"
| fails_entry: "entered s base path name \<Longrightarrow> (item, node) \<in> set items \<Longrightarrow>
    walk_fails s base (path_join [path, item]) item node \<Longrightarrow> walk_fails s base path name (DirNode items failed)"

inductive_simps reached_simps:
  "reached s base path name FileNode f" "reached s base path name (NoStat e) f"
  "reached s base path name (DirNode items failed) f"

inductive_simps walk_fails_simps:
  "walk_fails s base path name FileNode" "walk_fails s base path name (NoStat e)"
  "walk_fails s base path name (DirNode items failed)"

definition picked_up :: "scanner \<Rightarrow> string \<Rightarrow> bool" where
  "picked_up s path \<longleftrightarrow> wanted s (path_base path) \<and> \<not> excluded s path"

lemma insert_file_elems:
  "set_elems (insert_file s path files) = set_elems files \<union> (if picked_up s path then {path_clean path} else {})"
  by (simp add: insert_file_def picked_up_def)

definition picked_files :: "scanner \<Rightarrow> (string \<Rightarrow> bool) \<Rightarrow> string set" where
  "picked_files s P = {path_clean f |f. P f \<and> picked_up s f}"

lemma picked_either: "picked_files s (\<lambda>f. P f \<or> Q f) = picked_files s P \<union> picked_files s Q"
  by (auto simp: picked_files_def)

lemma walk_fails_iff:
  "(\<exists>e. walk_node s base path name node files = Inl e) \<longleftrightarrow> walk_fails s base path name node"
  "(\<exists>e. walk_entries s base path items files = Inl e) \<longleftrightarrow>
     (\<exists>(name, node) \<in> set items. walk_fails s base (path_join [path, name]) name node)"
proof (induction s base path name node files and s base path items files rule: walk_node_walk_entries.induct)
  case (3 s base path name items failed files)
  then show ?case by (cases failed) (auto simp: walk_fails_simps entered_def)
next
  case (5 s base path name node items files)
  then show ?case by (cases "walk_node s base (path_join [path, name]) name node files") auto
qed (auto simp: walk_fails_simps)

lemma walk_files_elems:
  "walk_node s base path name node files = Inr files' \<Longrightarrow>
     set_elems files' = set_elems files \<union> picked_files s (reached s base path name node)"
  "walk_entries s base path items files = Inr files' \<Longrightarrow>
     set_elems files' = set_elems files \<union>
       picked_files s (\<lambda>f. \<exists>(name, node) \<in> set items. reached s base (path_join [path, name]) name node f)"
proof (induction s base path name node files and s base path items files arbitrary: files' and files'
    rule: walk_node_walk_entries.induct)
  case (1 s base path name files)
  then show ?case by (auto simp: picked_files_def reached_simps insert_file_elems split: if_splits)
next
  case (2 s base path name e files)
  then show ?case by (auto simp: picked_files_def reached_simps insert_file_elems split: if_splits)
next
  case (3 s base path name items failed files)
  show ?case
  proof (cases "entered s base path name")
    case True
    then have walk: "walk_entries s base path items files = Inr files'"
      using "3.prems" by (auto simp: entered_def split: option.splits)
    have "failed = None" using True "3.prems" by (auto simp: entered_def split: option.splits)
    with True "3.IH" [OF _ _ walk] show ?thesis
      by (auto simp: entered_def reached_simps picked_files_def)
  next
    case False
    then show ?thesis using "3.prems" by (auto simp: entered_def reached_simps picked_files_def)
  qed
next
  case (5 s base path name node items files)
  then obtain files1 where w: "walk_node s base (path_join [path, name]) name node files = Inr files1"
    "walk_entries s base path items files1 = Inr files'"
    by (auto split: sum.splits)
  show ?case using "5.IH"(1) [OF w(1)] "5.IH"(2) [OF w] by (simp add: picked_either Un_assoc)
qed (simp add: picked_files_def)

text \<open>What one path named on the command line stands for, and whether it can be scanned.\<close>

definition named_files :: "scanner \<Rightarrow> scan_fs \<Rightarrow> string \<Rightarrow> string set" where
  "named_files s fs path =
     (if path = stdin_marker then {stdin_marker}
      else if sf_stat fs path = Inr True then picked_files s (reached s path path (path_base path) (sf_tree fs path))
      else {path_clean path})"

definition can_scan :: "scanner \<Rightarrow> scan_fs \<Rightarrow> string \<Rightarrow> bool" where
  "can_scan s fs path \<longleftrightarrow> path = stdin_marker \<or>
     (case sf_stat fs path of
        Inl _ \<Rightarrow> False
      | Inr is_dir \<Rightarrow> is_dir \<longrightarrow> \<not> walk_fails s path path (path_base path) (sf_tree fs path))"

lemma walk_files_result:
  "(\<exists>files'. walk_files s fs base files = Inr files') \<longleftrightarrow> \<not> walk_fails s base base (path_base base) (sf_tree fs base)"
  "walk_files s fs base files = Inr files' \<Longrightarrow>
     set_elems files' = set_elems files \<union> picked_files s (reached s base base (path_base base) (sf_tree fs base))"
  using walk_fails_iff(1) [of s base base "path_base base" "sf_tree fs base" files]
    walk_files_elems(1) [of s base base "path_base base" "sf_tree fs base" files]
  by (auto simp: walk_files_def split: sum.splits)

lemma scan_loop_some: "(\<exists>out. scan_loop s fs paths files = Inr out) \<longleftrightarrow> list_all (can_scan s fs) paths"
proof (induction s fs paths files rule: scan_loop.induct)
  case (2 s fs path paths files)
  show ?case
  proof (cases "path = stdin_marker \<or> sf_stat fs path \<noteq> Inr True")
    case True
    then show ?thesis using 2 by (cases "sf_stat fs path") (auto simp: can_scan_def)
  next
    case False
    then show ?thesis
      using 2 walk_files_result(1) [of s fs path files]
      by (cases "walk_files s fs path files") (auto simp: can_scan_def)
  qed
qed simp

lemma scan_loop_elems:
  "scan_loop s fs paths files = Inr out \<Longrightarrow> set_elems out = set_elems files \<union> (\<Union>p \<in> set paths. named_files s fs p)"
proof (induction s fs paths files rule: scan_loop.induct)
  case (2 s fs path paths files)
  show ?case
  proof (cases "path = stdin_marker \<or> sf_stat fs path \<noteq> Inr True")
    case True
    then show ?thesis using 2 by (cases "sf_stat fs path") (auto simp: named_files_def split: if_splits)
  next
    case False
    then obtain files1 where w: "walk_files s fs path files = Inr files1"
      using "2.prems" by (auto split: sum.splits)
    then show ?thesis
      using 2 False walk_files_result(2) [OF w] by (auto simp: named_files_def)
  qed
qed simp

text \<open>
  C27: a scan succeeds exactly when every path it is given can be read and no directory it enters fails to
  list, and then it finds exactly the standard-input marker if named, every file named outright whatever
  the patterns say, and under each directory the files with a wanted extension that no exclude pattern
  matches, behind no hidden, vendored or dependency directory.
\<close>

theorem scan_exact:
  "((\<exists>files. scan s fs paths = Inr files) \<longleftrightarrow> (\<forall>p \<in> set paths. can_scan s fs p)) \<and>
   (\<forall>files. scan s fs paths = Inr files \<longrightarrow> set_elems files = (\<Union>p \<in> set paths. named_files s fs p))"
  using scan_loop_some [of s fs paths "set_new []"] scan_loop_elems [of s fs paths "set_new []"]
  by (auto simp: scan_def list_all_iff)

definition demo_scan_fs :: scan_fs where
  "demo_scan_fs = \<lparr>sf_stat = (\<lambda>p. if p = ''conf'' then Inr True else if p = ''x.txt'' then Inr False else Inl ''no such file''),
     sf_tree = (\<lambda>_. DirNode [(''a.yaml'', FileNode), (''b.md'', FileNode), (''gone.yml'', NoStat ''gone''),
       (''vendor'', DirNode [(''c.yaml'', FileNode)] None), (''t.tmpl.yaml'', FileNode)] None)\<rparr>"

lemma scan_exact_witness:
  "scan (new_scanner [''*.tmpl.yaml'']) demo_scan_fs [''conf'', ''x.txt'', ''-''] =
     Inr (GoSet [''conf/a.yaml'', ''conf/gone.yml'', ''x.txt'', ''-'']) \<and>
   named_files (new_scanner [''*.tmpl.yaml'']) demo_scan_fs ''conf'' \<subseteq> {''conf/a.yaml'', ''conf/gone.yml'', ''x.txt'', ''-''} \<and>
   (\<nexists>files. scan (new_scanner []) demo_scan_fs [''missing''] = Inr files)"
proof -
  have r: "scan (new_scanner [''*.tmpl.yaml'']) demo_scan_fs [''conf'', ''x.txt'', ''-''] =
     Inr (GoSet [''conf/a.yaml'', ''conf/gone.yml'', ''x.txt'', ''-''])" by code_simp
  then have "set_elems (GoSet [''conf/a.yaml'', ''conf/gone.yml'', ''x.txt'', ''-'']) =
      (\<Union>p \<in> set [''conf'', ''x.txt'', ''-'']. named_files (new_scanner [''*.tmpl.yaml'']) demo_scan_fs p)"
    using scan_exact [of "new_scanner [''*.tmpl.yaml'']" demo_scan_fs "[''conf'', ''x.txt'', ''-'']"] by blast
  then have "named_files (new_scanner [''*.tmpl.yaml'']) demo_scan_fs ''conf'' \<subseteq>
      {''conf/a.yaml'', ''conf/gone.yml'', ''x.txt'', ''-''}"
    unfolding set_elems_def go_set.sel list.set UN_insert by blast
  moreover have "\<not> can_scan (new_scanner []) demo_scan_fs ''missing''"
    by (simp add: can_scan_def demo_scan_fs_def stdin_marker_def)
  then have "\<nexists>files. scan (new_scanner []) demo_scan_fs [''missing''] = Inr files"
    using scan_exact [of "new_scanner []" demo_scan_fs "[''missing'']"] by simp
  ultimately show ?thesis using r by blast
qed

text \<open>The first override that matches replaces the defaults.\<close>

lemma resolve_environment_first:
  "path \<noteq> stdin_marker \<Longrightarrow> list_ex (\<lambda>pattern. match_path pattern path) (eo_paths over) \<Longrightarrow>
   resolve_environment \<lparr>ep_default = d, ep_overrides = over # overs\<rparr> path = eo_env over"
  by (simp add: resolve_environment_def)

end
