(* ===== verification/Policies.thy ===== *)
theory Policies
  imports Scanner Ruleset
begin

section \<open>Rule settings and per-file overrides\<close>

text \<open>
  \<open>pkg/settings/rules.go\<close> and \<open>overrides.go\<close>: the rules block of a settings file, how it merges with the
  rule flags of a command, and the policy that re-levels rules per file. The block's maps are lists of
  their entries, each key once. A policy answers a map; the function of theory \<open>Linter\<close> takes its entries.
\<close>

record rule_override =
  ov_paths :: "string list"
  ov_disable :: "string list"
  ov_severity :: "(string \<times> string) list"

record rules_block =
  rb_default :: string
  rb_enable :: "string list"
  rb_disable :: "string list"
  rb_severity :: "(string \<times> string) list"
  rb_settings :: "(string \<times> ynode) list"
  rb_overrides :: "rule_override list"

fun trim_all :: "string list \<Rightarrow> string list" where
  "trim_all [] = []"
| "trim_all (s # ss) = (if trim_space s \<noteq> [] then trim_space s # trim_all ss else trim_all ss)"

definition severity_pair :: "string \<Rightarrow> string \<Rightarrow> string" where
  "severity_pair name level = name @ ''='' @ level"

definition severity_of :: "(string \<times> string) list \<Rightarrow> string \<Rightarrow> string" where
  "severity_of m name = (case map_of m name of None \<Rightarrow> [] | Some level \<Rightarrow> level)"

definition rule_selection :: "rules_block \<Rightarrow> selection \<Rightarrow> selection" where
  "rule_selection rb flags =
     \<lparr>sl_default = (if sl_default flags = [] then rb_default rb else sl_default flags),
      sl_enable = trim_all (rb_enable rb) @ trim_all (sl_enable flags),
      sl_disable = trim_all (rb_disable rb) @ trim_all (sl_disable flags),
      sl_severity = map (\<lambda>name. severity_pair name (severity_of (rb_severity rb) name))
          (set_list (set_key_set (rb_severity rb))) @ trim_all (sl_severity flags),
      sl_settings = rb_settings rb\<rparr>"

subsection \<open>overrides.go\<close>

definition err_override_paths :: string where
  "err_override_paths = ''paths must contain nonempty glob patterns''"

fun check_paths :: "string list \<Rightarrow> string option" where
  "check_paths [] = None"
| "check_paths (pattern # patterns) =
     (if trim_space pattern = [] then Some err_override_paths
      else (case check_pattern pattern of Some e \<Rightarrow> Some e | None \<Rightarrow> check_paths patterns))"

definition level_selection :: "string list \<Rightarrow> string list \<Rightarrow> selection" where
  "level_selection disable severity =
     \<lparr>sl_default = [], sl_enable = [], sl_disable = disable, sl_severity = severity, sl_settings = []\<rparr>"

definition override_levels :: "go_lib \<Rightarrow> rule_override \<Rightarrow> levels go_result" where
  "override_levels lib over =
     (if length (ov_paths over) = 0 then Inl err_override_paths
      else (case check_paths (ov_paths over) of
          Some e \<Rightarrow> Inl e
        | None \<Rightarrow>
            (case resolve_selection lib (level_selection (ov_disable over)
                (sort (map (\<lambda>(name, level). severity_pair name level) (ov_severity over)))) of
               Inl e \<Rightarrow> Inl e
             | Inr rv \<Rightarrow> Inr (rv_severities rv))))"

fun delete_levels :: "string list \<Rightarrow> levels \<Rightarrow> levels" where
  "delete_levels [] m = m"
| "delete_levels (name # names) m = delete_levels names (m(name := None))"

type_synonym policy_entry = "string list \<times> levels"

fun policy_entries :: "go_lib \<Rightarrow> selection \<Rightarrow> nat \<Rightarrow> rule_override list \<Rightarrow> policy_entry list go_result" where
  "policy_entries lib flags i [] = Inr []"
| "policy_entries lib flags i (over # overs) =
     (case override_levels lib over of
        Inl e \<Rightarrow> Inl (''rules.overrides['' @ itoa (int i) @ '']: '' @ e)
      | Inr m \<Rightarrow>
          (case policy_entries lib flags (i + 1) overs of
             Inl e \<Rightarrow> Inl e
           | Inr rest \<Rightarrow>
               Inr ((ov_paths over, delete_levels (trim_all (sl_enable flags) @ trim_all (sl_disable flags)) m) # rest)))"

definition entry_matches :: "string \<Rightarrow> policy_entry \<Rightarrow> bool" where
  "entry_matches path entry \<longleftrightarrow> list_ex (\<lambda>pattern. match_path pattern path) (fst entry)"

definition policy_for :: "policy_entry list \<Rightarrow> levels \<Rightarrow> levels \<Rightarrow> string \<Rightarrow> levels" where
  "policy_for items defaults cli path =
     (let m = defaults;
          m = (if path \<noteq> stdin_marker
               then (case find (entry_matches path) items of None \<Rightarrow> m | Some (_, over) \<Rightarrow> m ++ over) else m)
      in m ++ cli)"

definition rule_policy :: "go_lib \<Rightarrow> rules_block \<Rightarrow> selection \<Rightarrow> (string \<Rightarrow> levels) go_result" where
  "rule_policy lib rb flags =
     (case policy_entries lib flags 0 (rb_overrides rb) of
        Inl e \<Rightarrow> Inl e
      | Inr items \<Rightarrow>
          (case override_levels lib \<lparr>ov_paths = [''*''], ov_disable = [], ov_severity = rb_severity rb\<rparr> of
             Inl e \<Rightarrow> Inl e
           | Inr defaults \<Rightarrow>
               (case resolve_selection lib (level_selection [] (trim_all (sl_severity flags))) of
                  Inl e \<Rightarrow> Inl e
                | Inr cli \<Rightarrow> Inr (policy_for items defaults (rv_severities cli)))))"

subsection \<open>Which level a rule has for a file\<close>

text \<open>The last pair that names the rule, and the level of an override on its own.\<close>

definition flag_level :: "selection \<Rightarrow> string \<Rightarrow> severity option" where
  "flag_level s name = (case selection_severities s of Inl _ \<Rightarrow> None | Inr m \<Rightarrow> m name)"

definition override_level :: "rule_override \<Rightarrow> string \<Rightarrow> severity option" where
  "override_level over = flag_level (level_selection (ov_disable over)
     (sort (map (\<lambda>(name, level). severity_pair name level) (ov_severity over))))"

definition override_for :: "rules_block \<Rightarrow> string \<Rightarrow> rule_override option" where
  "override_for rb path = (if path = stdin_marker then None
     else find (\<lambda>over. list_ex (\<lambda>pattern. match_path pattern path) (ov_paths over)) (rb_overrides rb))"

definition named_by_flags :: "selection \<Rightarrow> string set" where
  "named_by_flags flags = set (trim_all (sl_enable flags)) \<union> set (trim_all (sl_disable flags))"

lemma delete_levels_apply: "delete_levels names m name = (if name \<in> set names then None else m name)"
  by (induction names arbitrary: m) auto

lemma resolved_levels:
  "resolve_selection lib s = Inr rv \<Longrightarrow> flag_level s = rv_severities rv"
  by (auto simp: resolve_selection_def flag_level_def split: sum.splits)

lemma override_levels_result: "override_levels lib over = Inr m \<Longrightarrow> m = override_level over"
  by (auto simp: override_levels_def override_level_def dest!: resolved_levels split: if_splits option.splits sum.splits)

lemma policy_entries_result:
  "policy_entries lib flags i overs = Inr items \<Longrightarrow>
     items = map (\<lambda>over. (ov_paths over, delete_levels (trim_all (sl_enable flags) @ trim_all (sl_disable flags))
       (override_level over))) overs"
  by (induction lib flags i overs arbitrary: items rule: policy_entries.induct)
    (auto dest!: override_levels_result split: sum.splits)

lemma find_map: "find P (map f xs) = map_option f (find (P \<circ> f) xs)"
  by (induction xs) auto

text \<open>
  C29: the level a settings file and the rule flags give a rule for a file is the one a severity flag names;
  else, for a file on disk and a rule no enable or disable flag names, the one of the first override whose
  patterns match the file; else the one of the settings' own severity block.
\<close>

theorem rule_policy_correct:
  assumes "rule_policy lib rb flags = Inr policy"
  shows "policy path name =
    (case flag_level (level_selection [] (trim_all (sl_severity flags))) name of
       Some level \<Rightarrow> Some level
     | None \<Rightarrow>
         (case (case override_for rb path of
                  None \<Rightarrow> None
                | Some over \<Rightarrow> if name \<in> named_by_flags flags then None else override_level over name) of
            Some level \<Rightarrow> Some level
          | None \<Rightarrow> override_level \<lparr>ov_paths = [''*''], ov_disable = [], ov_severity = rb_severity rb\<rparr> name))"
proof -
  obtain items defaults cli where p: "policy_entries lib flags 0 (rb_overrides rb) = Inr items"
    "override_levels lib \<lparr>ov_paths = [''*''], ov_disable = [], ov_severity = rb_severity rb\<rparr> = Inr defaults"
    "resolve_selection lib (level_selection [] (trim_all (sl_severity flags))) = Inr cli"
    "policy = policy_for items defaults (rv_severities cli)"
    using assms by (auto simp: rule_policy_def split: sum.splits)
  have matches: "find (entry_matches path) items = map_option (\<lambda>over. (ov_paths over,
      delete_levels (trim_all (sl_enable flags) @ trim_all (sl_disable flags)) (override_level over)))
      (find (\<lambda>over. list_ex (\<lambda>pattern. match_path pattern path) (ov_paths over)) (rb_overrides rb))"
    unfolding policy_entries_result [OF p(1)] find_map by (simp add: entry_matches_def comp_def)
  show ?thesis
    unfolding p(4) policy_for_def Let_def matches override_levels_result [OF p(2)] resolved_levels [OF p(3)]
    by (auto simp: override_for_def named_by_flags_def map_add_def delete_levels_apply split: option.splits)
qed

subsection \<open>Example\<close>

text \<open>A block that lowers a rule everywhere and turns it off for one file, and a command without flags.\<close>

definition demo_rules_block :: rules_block where
  "demo_rules_block = \<lparr>rb_default = [], rb_enable = [], rb_disable = [], rb_severity = [(''duplicate-key'', ''info'')],
     rb_settings = [], rb_overrides = [\<lparr>ov_paths = [''agent.*''], ov_disable = [''duplicate-key''], ov_severity = []\<rparr>]\<rparr>"

definition no_flags :: selection where
  "no_flags = level_selection [] []"

lemma demo_selection_levels:
  "resolve_selection lib (level_selection [''duplicate-key''] []) =
     Inr \<lparr>rv_rules = all_rules, rv_severities = Map.empty(''duplicate-key'' \<mapsto> Off)\<rparr>"
  "resolve_selection lib (level_selection [] [''duplicate-key=info'']) =
     Inr \<lparr>rv_rules = all_rules, rv_severities = Map.empty(''duplicate-key'' \<mapsto> Info)\<rparr>"
  "resolve_selection lib (level_selection [] []) = Inr \<lparr>rv_rules = all_rules, rv_severities = Map.empty\<rparr>"
proof -
  have "cut ''duplicate-key=info'' ''='' = (''duplicate-key'', ''info'', True)" by code_simp
  moreover have "parse_severity ''info'' = Inr Info" by code_simp
  moreover have "\<not> 0 < set_len (both_named (level_selection [''duplicate-key''] []))"
    "\<not> 0 < set_len (both_named (level_selection [] [''duplicate-key=info'']))"
    "\<not> 0 < set_len (both_named (level_selection [] []))"
    by code_simp+
  ultimately show "resolve_selection lib (level_selection [''duplicate-key''] []) =
     Inr \<lparr>rv_rules = all_rules, rv_severities = Map.empty(''duplicate-key'' \<mapsto> Off)\<rparr>"
    "resolve_selection lib (level_selection [] [''duplicate-key=info'']) =
     Inr \<lparr>rv_rules = all_rules, rv_severities = Map.empty(''duplicate-key'' \<mapsto> Info)\<rparr>"
    "resolve_selection lib (level_selection [] []) = Inr \<lparr>rv_rules = all_rules, rv_severities = Map.empty\<rparr>"
    by (simp_all add: resolve_selection_def selection_rules_def unknown_block_def set_list_def
        set_unsorted_list_def set_key_set_def set_empty_def level_selection_def configure_def
        selection_severities_def default_levels_def default_none_def default_all_def demo_lookups)
qed

lemma rule_policy_correct_witness:
  "\<exists>policy. rule_policy demo_lib demo_rules_block no_flags = Inr policy \<and>
     policy ''conf/agent.yaml'' ''duplicate-key'' = Some Off \<and> policy ''conf/gateway.yaml'' ''duplicate-key'' = Some Info \<and>
     policy ''-'' ''duplicate-key'' = Some Info"
proof -
  let ?over = "\<lparr>ov_paths = [''agent.*''], ov_disable = [''duplicate-key''], ov_severity = []\<rparr>"
  let ?all = "\<lparr>ov_paths = [''*''], ov_disable = [], ov_severity = [(''duplicate-key'', ''info'')]\<rparr>"
  have paths: "check_paths [''agent.*''] = None" "check_paths [''*''] = None" by code_simp+
  have pair: "severity_pair ''duplicate-key'' ''info'' = ''duplicate-key=info''" by code_simp
  have flags: "trim_all (sl_severity no_flags) = []" "named_by_flags no_flags = {}"
    by (simp_all add: no_flags_def level_selection_def named_by_flags_def)
  have over: "override_levels demo_lib ?over = Inr [''duplicate-key'' \<mapsto> Off]"
    by (simp add: override_levels_def paths demo_selection_levels del: check_paths.simps)
  have all: "override_levels demo_lib ?all = Inr [''duplicate-key'' \<mapsto> Info]"
    by (simp add: override_levels_def paths pair demo_selection_levels del: check_paths.simps)
  obtain policy where p: "rule_policy demo_lib demo_rules_block no_flags = Inr policy"
    using over all by (auto simp: rule_policy_def demo_rules_block_def flags demo_selection_levels)
  have levels: "override_level ?over = [''duplicate-key'' \<mapsto> Off]" "override_level ?all = [''duplicate-key'' \<mapsto> Info]"
    "flag_level (level_selection [] []) = Map.empty"
    using override_levels_result [OF over] override_levels_result [OF all] resolved_levels [OF demo_selection_levels(3)] by simp_all
  have "override_for demo_rules_block ''conf/agent.yaml'' = Some ?over"
    "override_for demo_rules_block ''conf/gateway.yaml'' = None" "override_for demo_rules_block ''-'' = None"
    by code_simp+
  moreover have "rb_severity demo_rules_block = [(''duplicate-key'', ''info'')]" by (simp add: demo_rules_block_def)
  ultimately show ?thesis
    using p by (auto simp: rule_policy_correct [OF p] flags levels)
qed

end
