(* ===== verification/Settings.thy ===== *)
theory Settings
  imports Policies Store
begin

section \<open>The settings file\<close>

text \<open>
  \<open>pkg/settings/settings.go\<close> and \<open>pkg/cmdutil/options.go\<close>: the blocks of a settings file, how the flat keys of
  the first release are folded into them, how a file is parsed, found and loaded, and how it is folded
  into flags. A pointer is an option; a nil slice and an empty one are one empty list, since the code asks
  only for the length; a map is the list of its entries. \<open>yaml.v3\<close> is given by the outcomes of its two calls
  of \<open>Decode\<close>, the file system by what exists and what reading answers.
\<close>

subsection \<open>Blocks\<close>

record kubernetes_override =
  ko_paths :: "string list"
  ko_enabled :: "bool option"
  ko_host_network :: "bool option"
  ko_memory_request :: string
  ko_memory_limit :: string

record kubernetes_block =
  kb_enabled :: "bool option"
  kb_host_network :: "bool option"
  kb_memory_request :: string
  kb_memory_limit :: string
  kb_overrides :: "kubernetes_override list"

definition kubernetes_written :: "kubernetes_block \<Rightarrow> bool" where
  "kubernetes_written k \<longleftrightarrow> kb_enabled k \<noteq> None \<or> kb_host_network k \<noteq> None \<or> kb_memory_request k \<noteq> [] \<or>
     kb_memory_limit k \<noteq> [] \<or> 0 < length (kb_overrides k)"

record run_block =
  rk_version :: string
  rk_distribution :: string
  rk_locations :: "string list"
  rk_insecure :: "bool option"
  rk_no_cache :: "bool option"
  rk_nearest :: "bool option"
  rk_strict :: "bool option"
  rk_embedded :: "bool option"
  rk_ignore_missing :: "bool option"
  rk_concurrency :: "int option"
  rk_exclude :: "string list"
  rk_kubernetes :: kubernetes_block

record issues_block =
  ib_min_severity :: string
  ib_fail_on :: string
  ib_exit_on_error :: "bool option"

record output_block =
  ob_format :: string
  ob_summary :: "bool option"
  ob_verbose :: "bool option"
  ob_color :: "bool option"

record settings_file =
  sg_version :: string
  sg_run :: run_block
  sg_rules :: rules_block
  sg_issues :: issues_block
  sg_output :: output_block
  fl_version :: string
  fl_distribution :: string
  fl_locations :: "string list"
  fl_strict :: "bool option"
  fl_ignore_missing :: "bool option"
  fl_summary :: "bool option"
  fl_min_severity :: string
  fl_fail_on :: string
  fl_disable :: "string list"
  fl_severity :: "(string \<times> string) list"
  fl_exclude :: "string list"
  fl_kubernetes :: "kubernetes_block option"

definition empty_kubernetes :: kubernetes_block where
  "empty_kubernetes = \<lparr>kb_enabled = None, kb_host_network = None, kb_memory_request = [], kb_memory_limit = [],
     kb_overrides = []\<rparr>"

definition empty_run :: run_block where
  "empty_run = \<lparr>rk_version = [], rk_distribution = [], rk_locations = [], rk_insecure = None, rk_no_cache = None,
     rk_nearest = None, rk_strict = None, rk_embedded = None, rk_ignore_missing = None, rk_concurrency = None,
     rk_exclude = [], rk_kubernetes = empty_kubernetes\<rparr>"

definition empty_rules :: rules_block where
  "empty_rules = \<lparr>rb_default = [], rb_enable = [], rb_disable = [], rb_severity = [], rb_settings = [],
     rb_overrides = []\<rparr>"

definition empty_output :: output_block where
  "empty_output = \<lparr>ob_format = [], ob_summary = None, ob_verbose = None, ob_color = None\<rparr>"

definition empty_settings :: settings_file where
  "empty_settings = \<lparr>sg_version = [], sg_run = empty_run, sg_rules = empty_rules,
     sg_issues = \<lparr>ib_min_severity = [], ib_fail_on = [], ib_exit_on_error = None\<rparr>, sg_output = empty_output,
     fl_version = [], fl_distribution = [], fl_locations = [], fl_strict = None, fl_ignore_missing = None,
     fl_summary = None, fl_min_severity = [], fl_fail_on = [], fl_disable = [], fl_severity = [], fl_exclude = [],
     fl_kubernetes = None\<rparr>"

text \<open>\<open>UnmarshalYAML\<close> of the output block: a bare name is the format, a mapping is read strictly.\<close>

definition unmarshal_output ::
  "(ynode \<Rightarrow> string go_result) \<Rightarrow> (ynode \<Rightarrow> output_block go_result) \<Rightarrow> output_block \<Rightarrow> ynode \<Rightarrow> output_block go_result" where
  "unmarshal_output decode decode_strict out node =
     (if n_kind node = ScalarNode then
        (case decode node of Inl e \<Rightarrow> Inl (''output: '' @ e) | Inr s \<Rightarrow> Inr (out\<lparr>ob_format := s\<rparr>))
      else
        (case decode_strict node of Inl e \<Rightarrow> Inl (''output: '' @ e) | Inr block \<Rightarrow> Inr block))"

subsection \<open>Normalize\<close>

definition fold_string :: "string \<Rightarrow> string \<Rightarrow> string \<Rightarrow> string list \<Rightarrow> string \<times> string list" where
  "fold_string name dst v written =
     (if v = [] then (dst, written) else (if dst = [] then v else dst, written @ [name]))"

definition fold_flag :: "string \<Rightarrow> bool option \<Rightarrow> bool option \<Rightarrow> string list \<Rightarrow> bool option \<times> string list" where
  "fold_flag name dst v written =
     (if v = None then (dst, written) else (if dst = None then v else dst, written @ [name]))"

definition fold_names :: "string \<Rightarrow> 'a list \<Rightarrow> 'a list \<Rightarrow> string list \<Rightarrow> 'a list \<times> string list" where
  "fold_names name dst v written =
     (if length v = 0 then (dst, written) else (if length dst = 0 then v else dst, written @ [name]))"

definition fold_scalars :: "settings_file \<Rightarrow> settings_file \<times> string list" where
  "fold_scalars s =
     (let (x, w) = fold_string ''collectorVersion'' (rk_version (sg_run s)) (fl_version s) [];
          s = s\<lparr>sg_run := (sg_run s)\<lparr>rk_version := x\<rparr>\<rparr>;
          (x, w) = fold_string ''distribution'' (rk_distribution (sg_run s)) (fl_distribution s) w;
          s = s\<lparr>sg_run := (sg_run s)\<lparr>rk_distribution := x\<rparr>\<rparr>;
          (x, w) = fold_string ''minSeverity'' (ib_min_severity (sg_issues s)) (fl_min_severity s) w;
          s = s\<lparr>sg_issues := (sg_issues s)\<lparr>ib_min_severity := x\<rparr>\<rparr>;
          (x, w) = fold_string ''failOn'' (ib_fail_on (sg_issues s)) (fl_fail_on s) w;
          s = s\<lparr>sg_issues := (sg_issues s)\<lparr>ib_fail_on := x\<rparr>\<rparr>;
          (x, w) = fold_flag ''strict'' (rk_strict (sg_run s)) (fl_strict s) w;
          s = s\<lparr>sg_run := (sg_run s)\<lparr>rk_strict := x\<rparr>\<rparr>;
          (x, w) = fold_flag ''ignoreMissingSchemas'' (rk_ignore_missing (sg_run s)) (fl_ignore_missing s) w;
          s = s\<lparr>sg_run := (sg_run s)\<lparr>rk_ignore_missing := x\<rparr>\<rparr>;
          (x, w) = fold_flag ''summary'' (ob_summary (sg_output s)) (fl_summary s) w
      in (s\<lparr>sg_output := (sg_output s)\<lparr>ob_summary := x\<rparr>\<rparr>, w))"

definition fold_lists :: "settings_file \<Rightarrow> settings_file \<times> string list" where
  "fold_lists s =
     (let (x, w) = fold_names ''schemaLocations'' (rk_locations (sg_run s)) (fl_locations s) [];
          s = s\<lparr>sg_run := (sg_run s)\<lparr>rk_locations := x\<rparr>\<rparr>;
          (x, w) = fold_names ''exclude'' (rk_exclude (sg_run s)) (fl_exclude s) w;
          s = s\<lparr>sg_run := (sg_run s)\<lparr>rk_exclude := x\<rparr>\<rparr>;
          (x, w) = fold_names ''disable'' (rb_disable (sg_rules s)) (fl_disable s) w;
          s = s\<lparr>sg_rules := (sg_rules s)\<lparr>rb_disable := x\<rparr>\<rparr>;
          (s, w) =
            (if 0 < length (fl_severity s) then
               (if length (rb_severity (sg_rules s)) = 0
                then s\<lparr>sg_rules := (sg_rules s)\<lparr>rb_severity := fl_severity s\<rparr>\<rparr> else s,
                w @ [''severity''])
             else (s, w))
      in (case fl_kubernetes s of
            None \<Rightarrow> (s, w)
          | Some k \<Rightarrow>
              (if kubernetes_written (rk_kubernetes (sg_run s)) then s
               else s\<lparr>sg_run := (sg_run s)\<lparr>rk_kubernetes := k\<rparr>\<rparr>,
               w @ [''kubernetes''])))"

definition normalize_settings :: "settings_file \<Rightarrow> settings_file \<times> string list" where
  "normalize_settings s =
     (case fold_scalars s of
        (s, names) \<Rightarrow> (case fold_lists s of (s, others) \<Rightarrow> (s, names @ others)))"

subsection \<open>Parse\<close>

datatype 'a decode_outcome = Decoded 'a | EndOfFile | DecodeFailed string

definition settings_version :: string where "settings_version = ''1''"

definition parse_settings :: "settings_file decode_outcome \<Rightarrow> unit decode_outcome \<Rightarrow> settings_file go_result" where
  "parse_settings first extra =
     (case first of
        DecodeFailed e \<Rightarrow> Inl e
      | _ \<Rightarrow>
          let s = (case first of Decoded s \<Rightarrow> s | _ \<Rightarrow> empty_settings) in
          (case extra of
             Decoded _ \<Rightarrow> Inl ''settings must contain no more than one document''
           | DecodeFailed e \<Rightarrow> Inl e
           | EndOfFile \<Rightarrow>
               if sg_version s \<noteq> [] \<and> sg_version s \<noteq> settings_version then
                 Inl (''unknown settings version '' @ go_quote (sg_version s) @
                      '' (this release reads version '' @ settings_version @ '')'')
               else Inr s))"

subsection \<open>What Normalize does\<close>

text \<open>The keys that have a flat form, in the order they are folded, with what a file says in either form.\<close>

datatype flat_key =
  KeyVersion | KeyDistribution | KeyMinSeverity | KeyFailOn | KeyStrict | KeyIgnoreMissing | KeySummary
| KeyLocations | KeyExclude | KeyDisable | KeySeverity | KeyKubernetes

datatype file_setting =
  Text string | Flag "bool option" | Names "string list" | Levels "(string \<times> string) list" | Pods "kubernetes_block option"

definition flat_keys :: "flat_key list" where
  "flat_keys = [KeyVersion, KeyDistribution, KeyMinSeverity, KeyFailOn, KeyStrict, KeyIgnoreMissing, KeySummary,
     KeyLocations, KeyExclude, KeyDisable, KeySeverity, KeyKubernetes]"

fun key_name :: "flat_key \<Rightarrow> string" where
  "key_name KeyVersion = ''collectorVersion''"
| "key_name KeyDistribution = ''distribution''"
| "key_name KeyMinSeverity = ''minSeverity''"
| "key_name KeyFailOn = ''failOn''"
| "key_name KeyStrict = ''strict''"
| "key_name KeyIgnoreMissing = ''ignoreMissingSchemas''"
| "key_name KeySummary = ''summary''"
| "key_name KeyLocations = ''schemaLocations''"
| "key_name KeyExclude = ''exclude''"
| "key_name KeyDisable = ''disable''"
| "key_name KeySeverity = ''severity''"
| "key_name KeyKubernetes = ''kubernetes''"

fun flat_setting :: "settings_file \<Rightarrow> flat_key \<Rightarrow> file_setting" where
  "flat_setting s KeyVersion = Text (fl_version s)"
| "flat_setting s KeyDistribution = Text (fl_distribution s)"
| "flat_setting s KeyMinSeverity = Text (fl_min_severity s)"
| "flat_setting s KeyFailOn = Text (fl_fail_on s)"
| "flat_setting s KeyStrict = Flag (fl_strict s)"
| "flat_setting s KeyIgnoreMissing = Flag (fl_ignore_missing s)"
| "flat_setting s KeySummary = Flag (fl_summary s)"
| "flat_setting s KeyLocations = Names (fl_locations s)"
| "flat_setting s KeyExclude = Names (fl_exclude s)"
| "flat_setting s KeyDisable = Names (fl_disable s)"
| "flat_setting s KeySeverity = Levels (fl_severity s)"
| "flat_setting s KeyKubernetes = Pods (fl_kubernetes s)"

fun block_setting :: "settings_file \<Rightarrow> flat_key \<Rightarrow> file_setting" where
  "block_setting s KeyVersion = Text (rk_version (sg_run s))"
| "block_setting s KeyDistribution = Text (rk_distribution (sg_run s))"
| "block_setting s KeyMinSeverity = Text (ib_min_severity (sg_issues s))"
| "block_setting s KeyFailOn = Text (ib_fail_on (sg_issues s))"
| "block_setting s KeyStrict = Flag (rk_strict (sg_run s))"
| "block_setting s KeyIgnoreMissing = Flag (rk_ignore_missing (sg_run s))"
| "block_setting s KeySummary = Flag (ob_summary (sg_output s))"
| "block_setting s KeyLocations = Names (rk_locations (sg_run s))"
| "block_setting s KeyExclude = Names (rk_exclude (sg_run s))"
| "block_setting s KeyDisable = Names (rb_disable (sg_rules s))"
| "block_setting s KeySeverity = Levels (rb_severity (sg_rules s))"
| "block_setting s KeyKubernetes = Pods (Some (rk_kubernetes (sg_run s)))"

text \<open>A flat \<open>kubernetes\<close> key is stated even when it is an empty mapping; the block has to say something.\<close>

fun stated :: "file_setting \<Rightarrow> bool" where
  "stated (Text v) \<longleftrightarrow> v \<noteq> []"
| "stated (Flag v) \<longleftrightarrow> v \<noteq> None"
| "stated (Names v) \<longleftrightarrow> v \<noteq> []"
| "stated (Levels v) \<longleftrightarrow> v \<noteq> []"
| "stated (Pods v) \<longleftrightarrow> v \<noteq> None"

fun says_something :: "file_setting \<Rightarrow> bool" where
  "says_something (Pods (Some k)) \<longleftrightarrow> kubernetes_written k"
| "says_something v \<longleftrightarrow> stated v"

text \<open>What has no flat form.\<close>

definition block_only :: "settings_file \<Rightarrow> settings_file" where
  "block_only s = s\<lparr>
     sg_run := (sg_run s)\<lparr>rk_version := [], rk_distribution := [], rk_locations := [], rk_strict := None,
       rk_ignore_missing := None, rk_exclude := [], rk_kubernetes := empty_kubernetes\<rparr>,
     sg_rules := (sg_rules s)\<lparr>rb_disable := [], rb_severity := []\<rparr>,
     sg_issues := (sg_issues s)\<lparr>ib_min_severity := [], ib_fail_on := []\<rparr>,
     sg_output := (sg_output s)\<lparr>ob_summary := None\<rparr>\<rparr>"

text \<open>The value of a key after folding, given the value that stands for an unwritten one.\<close>

definition kept_or :: "'a \<Rightarrow> 'a \<Rightarrow> 'a \<Rightarrow> 'a" where
  "kept_or none dst v = (if v \<noteq> none \<and> dst = none then v else dst)"

definition kept_pods :: "kubernetes_block \<Rightarrow> kubernetes_block option \<Rightarrow> kubernetes_block" where
  "kept_pods dst v = (if v \<noteq> None \<and> \<not> kubernetes_written dst then the v else dst)"

lemma kept_or_again [simp]: "kept_or none (kept_or none dst v) v = kept_or none dst v"
  by (simp add: kept_or_def)

lemma kept_pods_again [simp]: "kept_pods (kept_pods dst v) v = kept_pods dst v"
  by (simp add: kept_pods_def)

lemma fold_string_pair:
  "fold_string name dst v w = (kept_or [] dst v, w @ (if v \<noteq> [] then [name] else []))"
  by (simp add: fold_string_def kept_or_def)

lemma fold_flag_pair:
  "fold_flag name dst v w = (kept_or None dst v, w @ (if v \<noteq> None then [name] else []))"
  by (simp add: fold_flag_def kept_or_def)

lemma fold_names_pair:
  "fold_names name dst v w = (kept_or [] dst v, w @ (if v \<noteq> [] then [name] else []))"
  by (simp add: fold_names_def kept_or_def)

lemmas fold_pairs = fold_string_pair fold_flag_pair fold_names_pair

lemma fold_severity_eq:
  "(if 0 < length (fl_severity s) then
      (if length (rb_severity (sg_rules s)) = 0 then s\<lparr>sg_rules := (sg_rules s)\<lparr>rb_severity := fl_severity s\<rparr>\<rparr> else s,
       w @ [''severity''])
    else (s, w)) =
   (s\<lparr>sg_rules := (sg_rules s)\<lparr>rb_severity := kept_or [] (rb_severity (sg_rules s)) (fl_severity s)\<rparr>\<rparr>,
    w @ (if fl_severity s \<noteq> [] then [''severity''] else []))"
  by (simp add: kept_or_def)

lemma fold_kubernetes_eq:
  "(case fl_kubernetes s of None \<Rightarrow> (s, w) | Some k \<Rightarrow>
      (if kubernetes_written (rk_kubernetes (sg_run s)) then s else s\<lparr>sg_run := (sg_run s)\<lparr>rk_kubernetes := k\<rparr>\<rparr>,
       w @ [''kubernetes''])) =
   (s\<lparr>sg_run := (sg_run s)\<lparr>rk_kubernetes := kept_pods (rk_kubernetes (sg_run s)) (fl_kubernetes s)\<rparr>\<rparr>,
    w @ (if fl_kubernetes s \<noteq> None then [''kubernetes''] else []))"
  by (simp add: kept_pods_def split: option.split)

lemma filter_if_one: "filter P (x # xs) = (if P x then [x] else []) @ filter P xs"
  by simp

lemma map_if_one: "map f (if b then [x] else []) = (if b then [f x] else [])"
  by simp

definition with_scalars :: "settings_file \<Rightarrow> settings_file" where
  "with_scalars s = s\<lparr>
     sg_run := (sg_run s)\<lparr>
       rk_version := kept_or [] (rk_version (sg_run s)) (fl_version s),
       rk_distribution := kept_or [] (rk_distribution (sg_run s)) (fl_distribution s),
       rk_strict := kept_or None (rk_strict (sg_run s)) (fl_strict s),
       rk_ignore_missing := kept_or None (rk_ignore_missing (sg_run s)) (fl_ignore_missing s)\<rparr>,
     sg_issues := (sg_issues s)\<lparr>
       ib_min_severity := kept_or [] (ib_min_severity (sg_issues s)) (fl_min_severity s),
       ib_fail_on := kept_or [] (ib_fail_on (sg_issues s)) (fl_fail_on s)\<rparr>,
     sg_output := (sg_output s)\<lparr>ob_summary := kept_or None (ob_summary (sg_output s)) (fl_summary s)\<rparr>\<rparr>"

definition with_lists :: "settings_file \<Rightarrow> settings_file" where
  "with_lists s = s\<lparr>
     sg_run := (sg_run s)\<lparr>
       rk_locations := kept_or [] (rk_locations (sg_run s)) (fl_locations s),
       rk_exclude := kept_or [] (rk_exclude (sg_run s)) (fl_exclude s),
       rk_kubernetes := kept_pods (rk_kubernetes (sg_run s)) (fl_kubernetes s)\<rparr>,
     sg_rules := (sg_rules s)\<lparr>
       rb_disable := kept_or [] (rb_disable (sg_rules s)) (fl_disable s),
       rb_severity := kept_or [] (rb_severity (sg_rules s)) (fl_severity s)\<rparr>\<rparr>"

definition stated_names :: "settings_file \<Rightarrow> flat_key list \<Rightarrow> string list" where
  "stated_names s ks = map key_name (filter (\<lambda>k. stated (flat_setting s k)) ks)"

lemma fold_scalars_eq:
  "fold_scalars s = (with_scalars s, stated_names s
     [KeyVersion, KeyDistribution, KeyMinSeverity, KeyFailOn, KeyStrict, KeyIgnoreMissing, KeySummary])"
  by (simp add: fold_scalars_def with_scalars_def stated_names_def fold_pairs map_if_one filter_if_one Let_def
    cong: if_cong del: filter.simps(2) split del: if_split)

lemma fold_lists_eq:
  "fold_lists s = (with_lists s, stated_names s [KeyLocations, KeyExclude, KeyDisable, KeySeverity, KeyKubernetes])"
  unfolding fold_lists_def fold_severity_eq fold_kubernetes_eq
  by (simp add: with_lists_def stated_names_def fold_pairs map_if_one filter_if_one Let_def
    cong: if_cong del: filter.simps(2) split del: if_split)

lemma flat_setting_with [simp]: "flat_setting (with_scalars s) k = flat_setting s k"
  by (cases k) (simp_all add: with_scalars_def)

lemma normalize_settings_eq:
  "normalize_settings s = (with_lists (with_scalars s), stated_names s flat_keys)"
  by (simp add: normalize_settings_def fold_scalars_eq fold_lists_eq stated_names_def flat_keys_def
    del: filter.simps flip: map_append filter_append)

text \<open>
  C32: normalising a settings file reports exactly the flat keys it states, in the order of folding; every key
  with a flat form then has in its block what the block said, or, where the block said nothing and the flat
  form is stated, what the flat form said; what has no flat form is untouched, and normalising again
  changes nothing.
\<close>

theorem normalize_settings_correct:
  "snd (normalize_settings s) = map key_name (filter (\<lambda>k. stated (flat_setting s k)) flat_keys) \<and>
   block_setting (fst (normalize_settings s)) k =
     (if stated (flat_setting s k) \<and> \<not> says_something (block_setting s k) then flat_setting s k
      else block_setting s k) \<and>
   block_only (fst (normalize_settings s)) = block_only s \<and>
   fst (normalize_settings (fst (normalize_settings s))) = fst (normalize_settings s)"
proof (intro conjI)
  show "snd (normalize_settings s) = map key_name (filter (\<lambda>k. stated (flat_setting s k)) flat_keys)"
    by (simp only: normalize_settings_eq stated_names_def snd_conv)
  show "block_setting (fst (normalize_settings s)) k =
     (if stated (flat_setting s k) \<and> \<not> says_something (block_setting s k) then flat_setting s k
      else block_setting s k)"
    by (cases k) (auto simp: normalize_settings_eq with_scalars_def with_lists_def kept_or_def kept_pods_def)
  show "block_only (fst (normalize_settings s)) = block_only s"
    by (simp add: normalize_settings_eq with_scalars_def with_lists_def block_only_def)
  show "fst (normalize_settings (fst (normalize_settings s))) = fst (normalize_settings s)"
    by (simp add: normalize_settings_eq with_scalars_def with_lists_def)
qed

subsection \<open>Find\<close>

text \<open>\<open>filepath.Dir\<close> and \<open>filepath.IsAbs\<close>.\<close>

definition upto_slash :: "string \<Rightarrow> string" where
  "upto_slash s = rev (dropWhile (\<lambda>c. c \<noteq> slash) (rev s))"

definition path_dir :: "string \<Rightarrow> string" where
  "path_dir s = path_clean (upto_slash s)"

definition path_is_abs :: "string \<Rightarrow> bool" where
  "path_is_abs s \<longleftrightarrow> has_prefix s [slash]"

text \<open>A parent is shorter than its directory, or it is the working directory: so the search ends.\<close>

definition path_weight :: "string list \<Rightarrow> nat" where
  "path_weight xs = sum_list (map (\<lambda>x. length x + 1) xs)"

lemma path_weight_simps [simp]:
  "path_weight [] = 0" "path_weight (x # xs) = length x + 1 + path_weight xs"
  "path_weight (xs @ ys) = path_weight xs + path_weight ys"
  by (simp_all add: path_weight_def)

lemma length_join: "xs \<noteq> [] \<Longrightarrow> length (join_strings [c] xs) + 1 = path_weight xs"
  by (induction "[c]" xs rule: join_strings.induct) simp_all

lemma split_on_nonempty: "split_on d s \<noteq> []"
  by (induction s) (simp_all split: list.split)

lemma split_on_weight: "path_weight (split_on d s) = length s + 1"
proof (induction s)
  case (Cons c cs)
  then show ?case using split_on_nonempty [of d cs] by (cases "split_on d cs") simp_all
qed simp

lemma split_on_snoc: "split_on d (s @ [d]) = split_on d s @ [[]]"
proof (induction s)
  case (Cons c cs)
  then show ?case using split_on_nonempty [of d cs] by (simp split: list.split)
qed simp

lemma clean_step_weight: "path_weight (clean_step r out c) \<le> path_weight out + (if c = [] then 0 else length c + 1)"
proof -
  have "path_weight (butlast out) \<le> path_weight out" by (cases out rule: rev_cases) simp_all
  then show ?thesis by (simp add: clean_step_def)
qed

lemma clean_steps_weight:
  "path_weight (foldl (clean_step r) out cs) + length (filter (\<lambda>c. c = []) cs) \<le> path_weight out + path_weight cs"
proof (induction cs arbitrary: out)
  case (Cons c cs)
  show ?case using Cons.IH [of "clean_step r out c"] clean_step_weight [of r out c] by (simp split: if_splits)
qed simp

lemma clean_dir_shorter:
  assumes "last s = slash" "s \<noteq> []" "s \<noteq> [slash]"
  shows "length (path_clean s) < length s \<or> path_clean s = ''.''"
proof -
  obtain q where q: "s = q @ [slash]" using assms(1,2) by (metis append_butlast_last_id)
  then have "q \<noteq> []" using assms(3) by simp
  let ?r = "hd s = slash" and ?cs = "split_on slash s"
  define out where "out = foldl (clean_step ?r) [] ?cs"
  have empties: "(if ?r then 2 else 1) \<le> length (filter (\<lambda>c. c = []) ?cs)"
  proof -
    have "?cs = split_on slash q @ [[]]" unfolding q by (rule split_on_snoc)
    moreover have "?r \<Longrightarrow> split_on slash q = [] # split_on slash (tl q)" using q \<open>q \<noteq> []\<close> by (cases q) auto
    ultimately show ?thesis by simp
  qed
  have w: "path_weight out + length (filter (\<lambda>c. c = []) ?cs) \<le> length s + 1"
    using clean_steps_weight [of ?r "[]" ?cs] by (simp add: out_def split_on_weight)
  have clean: "path_clean s = (let r = (if ?r then [slash] else []) @ join_strings [slash] out in if r = [] then ''.'' else r)"
    using assms(2) by (simp add: path_clean_def out_def Let_def)
  have "1 < length s" using q \<open>q \<noteq> []\<close> by (cases q) auto
  show ?thesis
  proof (cases "out = []")
    case True
    then show ?thesis using clean \<open>1 < length s\<close> by (auto simp: Let_def)
  next
    case False
    then show ?thesis
      using clean w empties length_join [OF False, of slash] by (auto simp: Let_def split: if_splits)
  qed
qed

lemma upto_slash_cases: "upto_slash s = [] \<or> last (upto_slash s) = slash"
proof -
  have "dropWhile (\<lambda>c. c \<noteq> slash) (rev s) \<noteq> [] \<Longrightarrow> hd (dropWhile (\<lambda>c. c \<noteq> slash) (rev s)) = slash"
    using hd_dropWhile [of "\<lambda>c. c \<noteq> slash" "rev s"] by simp
  then show ?thesis by (auto simp: upto_slash_def last_rev)
qed

lemma upto_slash_length: "length (upto_slash s) \<le> length s"
  using length_dropWhile_le [of "\<lambda>c. c \<noteq> slash" "rev s"] by (simp add: upto_slash_def)

lemma path_clean_slash: "path_clean [slash] = [slash]"
  by code_simp

lemma path_dir_dot: "path_dir ''.'' = ''.''"
  by code_simp

lemma path_dir_smaller:
  assumes "path_dir d \<noteq> d"
  shows "path_dir d = ''.'' \<or> length (path_dir d) < length d"
proof (cases "upto_slash d = []")
  case True
  then show ?thesis by (simp add: path_dir_def path_clean_def)
next
  case False
  show ?thesis
  proof (cases "upto_slash d = [slash]")
    case True
    then have "d \<noteq> [slash]" "1 \<le> length d"
      using assms upto_slash_length [of d] by (auto simp: path_dir_def path_clean_slash)
    then have "length d \<noteq> 1" using True by (cases d) (auto simp: upto_slash_def)
    then show ?thesis using True \<open>1 \<le> length d\<close> by (simp add: path_dir_def path_clean_slash)
  next
    case other: False
    then show ?thesis
      using clean_dir_shorter [of "upto_slash d"] False upto_slash_cases [of d] upto_slash_length [of d]
      by (auto simp: path_dir_def)
  qed
qed

definition default_settings_name :: string where
  "default_settings_name = ''.otelcol-config-lint.yaml''"

definition settings_names :: "string list" where
  "settings_names = [default_settings_name, ''.otelcol-config-lint.yml'']"

function find_settings :: "(string \<Rightarrow> bool) \<Rightarrow> string \<Rightarrow> string" where
  "find_settings exist dir =
     (case find exist (map (\<lambda>name. path_join [dir, name]) settings_names) of
        Some path \<Rightarrow> path
      | None \<Rightarrow>
          if exist (path_join [dir, ''.git'']) then []
          else let parent = path_dir dir in
            if parent = dir then [] else find_settings exist parent)"
  by pat_completeness auto
termination
proof (relation "measure (\<lambda>(_, d). if d = ''.'' then 0 else Suc (length d))")
  fix exist :: "string \<Rightarrow> bool" and dir parent :: string
  assume "parent = path_dir dir" "parent \<noteq> dir"
  then show "((exist, parent), exist, dir) \<in> measure (\<lambda>(_, d). if d = ''.'' then 0 else Suc (length d))"
    using path_dir_smaller [of dir] path_dir_dot by auto
qed simp

declare find_settings.simps [simp del]

text \<open>What a directory holds, and where the search does not go further up.\<close>

definition settings_in :: "(string \<Rightarrow> bool) \<Rightarrow> string \<Rightarrow> string option" where
  "settings_in exist dir = find exist (map (\<lambda>name. path_join [dir, name]) settings_names)"

definition search_ends :: "(string \<Rightarrow> bool) \<Rightarrow> string \<Rightarrow> bool" where
  "search_ends exist dir \<longleftrightarrow> exist (path_join [dir, ''.git'']) \<or> path_dir dir = dir"

lemma find_settings_step:
  "find_settings exist dir =
     (case settings_in exist dir of
        Some path \<Rightarrow> path
      | None \<Rightarrow> if search_ends exist dir then [] else find_settings exist (path_dir dir))"
  by (subst find_settings.simps) (simp add: settings_in_def search_ends_def Let_def split: option.split)

text \<open>
  The search for a settings file ends, and answers the first default name that exists in the nearest
  directory holding one, going up parent by parent; a directory holding \<open>.git\<close>, or one that is its own
  parent, is the last one looked in, and nothing there means no file.
\<close>

theorem find_settings_nearest:
  "\<exists>n. (\<forall>i < n. settings_in exist ((path_dir ^^ i) dir) = None \<and> \<not> search_ends exist ((path_dir ^^ i) dir)) \<and>
     (case settings_in exist ((path_dir ^^ n) dir) of
        Some path \<Rightarrow> exist path \<and> find_settings exist dir = path
      | None \<Rightarrow> search_ends exist ((path_dir ^^ n) dir) \<and> find_settings exist dir = [])"
proof (induction exist dir rule: find_settings.induct)
  case (1 exist dir)
  show ?case
  proof (cases "settings_in exist dir")
    case (Some path)
    then have "exist path" by (auto simp: settings_in_def find_Some_iff)
    then show ?thesis using Some by (intro exI [of _ 0]) (simp add: find_settings_step)
  next
    case None
    show ?thesis
    proof (cases "search_ends exist dir")
      case True
      then show ?thesis using None by (intro exI [of _ 0]) (simp add: find_settings_step)
    next
      case False
      then obtain n where n:
        "\<forall>i < n. settings_in exist ((path_dir ^^ i) (path_dir dir)) = None \<and> \<not> search_ends exist ((path_dir ^^ i) (path_dir dir))"
        "case settings_in exist ((path_dir ^^ n) (path_dir dir)) of
           Some path \<Rightarrow> exist path \<and> find_settings exist (path_dir dir) = path
         | None \<Rightarrow> search_ends exist ((path_dir ^^ n) (path_dir dir)) \<and> find_settings exist (path_dir dir) = []"
        using 1 [of "path_dir dir"] None by (auto simp: settings_in_def search_ends_def)
      have up: "(path_dir ^^ Suc i) dir = (path_dir ^^ i) (path_dir dir)" for i by (simp add: funpow_swap1)
      have below: "settings_in exist ((path_dir ^^ i) dir) = None \<and> \<not> search_ends exist ((path_dir ^^ i) dir)"
        if "i < Suc n" for i
        using that n(1) None False up by (cases i) (auto simp del: funpow.simps(2))
      have step: "find_settings exist dir = find_settings exist (path_dir dir)"
        using find_settings_step [of exist dir] None False by simp
      show ?thesis
        using n(2) below unfolding step by (intro exI [of _ "Suc n"]) (simp only: up, blast)
    qed
  qed
qed

lemma find_settings_nearest_witness:
  "\<exists>n. (\<forall>i < n. settings_in (\<lambda>p. p = ''/w/.otelcol-config-lint.yml'') ((path_dir ^^ i) ''/w/a'') = None) \<and>
     settings_in (\<lambda>p. p = ''/w/.otelcol-config-lint.yml'') ((path_dir ^^ n) ''/w/a'') = Some ''/w/.otelcol-config-lint.yml''"
proof -
  let ?ex = "\<lambda>p. p = ''/w/.otelcol-config-lint.yml''"
  obtain n where n: "\<forall>i < n. settings_in ?ex ((path_dir ^^ i) ''/w/a'') = None"
    "case settings_in ?ex ((path_dir ^^ n) ''/w/a'') of
        Some path \<Rightarrow> ?ex path \<and> find_settings ?ex ''/w/a'' = path
      | None \<Rightarrow> search_ends ?ex ((path_dir ^^ n) ''/w/a'') \<and> find_settings ?ex ''/w/a'' = []"
    using find_settings_nearest [of ?ex "''/w/a''"] by blast
  have "find_settings ?ex ''/w/a'' = ''/w/.otelcol-config-lint.yml''"
    by (simp add: find_settings.simps) code_simp
  then have "settings_in ?ex ((path_dir ^^ n) ''/w/a'') = Some ''/w/.otelcol-config-lint.yml''"
    using n(2) by (simp split: option.splits)
  then show ?thesis using n(1) by blast
qed

subsection \<open>Folding into flags\<close>

definition fold_str :: "(string \<Rightarrow> bool) \<Rightarrow> string \<Rightarrow> string \<Rightarrow> string \<Rightarrow> string" where
  "fold_str changed name dst v = (if \<not> changed name \<and> v \<noteq> [] then v else dst)"

definition fold_bool :: "(string \<Rightarrow> bool) \<Rightarrow> string \<Rightarrow> bool \<Rightarrow> bool option \<Rightarrow> bool" where
  "fold_bool changed name dst v = (if \<not> changed name \<and> v \<noteq> None then the v else dst)"

definition fold_list :: "(string \<Rightarrow> bool) \<Rightarrow> string \<Rightarrow> string list \<Rightarrow> string list \<Rightarrow> string list" where
  "fold_list changed name dst v = (if \<not> changed name \<and> 0 < length v then dst @ v else dst)"

subsection \<open>options.go: the file a command reads\<close>

record settings_world =
  sw_exists :: "string \<Rightarrow> bool"
  sw_read :: "string \<Rightarrow> bool \<times> string + string"
  sw_decode :: "string \<Rightarrow> settings_file decode_outcome \<times> unit decode_outcome"
  sw_getwd :: "string go_result"

text \<open>Reading fails with whether the file is missing, and the error's text.\<close>

record global_options =
  gl_config :: string
  gl_no_config :: bool
  gl_file :: "settings_file option"
  gl_path :: string

definition working_dir :: "settings_world \<Rightarrow> string" where
  "working_dir sw = (case sw_getwd sw of Inl _ \<Rightarrow> ''.'' | Inr dir \<Rightarrow> dir)"

definition load_settings :: "settings_world \<Rightarrow> global_options \<Rightarrow> (settings_file \<times> string) go_result" where
  "load_settings sw g =
     (let path = (if gl_no_config g then []
                  else if gl_config g = [] then find_settings (sw_exists sw) (working_dir sw) else gl_config g) in
      if gl_no_config g \<or> gl_config g = [] \<and> path = [] then Inr (empty_settings, [])
      else (case sw_read sw path of
          Inl (missing, e) \<Rightarrow>
            if gl_config g = [] \<and> missing then Inr (empty_settings, []) else Inl (''read settings: '' @ e)
        | Inr src \<Rightarrow>
            (case parse_settings (fst (sw_decode sw src)) (snd (sw_decode sw src)) of
               Inl e \<Rightarrow> Inl (path @ '': '' @ e)
             | Inr file \<Rightarrow> Inr (file, path))))"

definition resolve_schema_location :: "string \<Rightarrow> string \<Rightarrow> string" where
  "resolve_schema_location settings_path location =
     (if location = default_name \<or> path_is_abs location \<or> contains location ''://'' then location
      else path_join [path_dir settings_path, location])"

definition resolve_schema_locations :: "settings_file \<Rightarrow> string \<Rightarrow> settings_file" where
  "resolve_schema_locations s settings_path =
     (if settings_path = [] then s
      else s\<lparr>sg_run := (sg_run s)\<lparr>rk_locations := map (resolve_schema_location settings_path) (rk_locations (sg_run s))\<rparr>\<rparr>)"

definition legacy_warning :: "string \<Rightarrow> string list \<Rightarrow> string" where
  "legacy_warning path legacy =
     ''otelcol-config-lint: '' @ path @ '': deprecated top-level keys: '' @ join_strings '', '' legacy @
     ''; move them under run, rules, issues or output'' @ [CHR 0x0A]"

text \<open>\<open>Prepare\<close>: the options with the file read, and what is printed to standard error.\<close>

definition prepare_global :: "settings_world \<Rightarrow> global_options \<Rightarrow> (global_options \<times> string list) go_result" where
  "prepare_global sw g =
     (if gl_file g \<noteq> None then Inr (g, [])
      else (case load_settings sw g of
          Inl e \<Rightarrow> Inl e
        | Inr (file, path) \<Rightarrow>
            (case normalize_settings file of
               (file, legacy) \<Rightarrow>
                 let file = resolve_schema_locations file path in
                 Inr (g\<lparr>gl_file := Some file, gl_path := path\<rparr>,
                   if 0 < length legacy then [legacy_warning path legacy] else []))))"

text \<open>A second \<open>Prepare\<close> reads nothing: a subcommand prepares what it inherits as well as itself.\<close>

lemma prepare_global_once:
  "prepare_global sw g = Inr (g', err) \<Longrightarrow> prepare_global sw' g' = Inr (g', [])"
  by (auto simp: prepare_global_def Let_def split: if_splits sum.splits prod.splits)

lemma resolve_location_cases:
  "resolve_schema_location p loc = loc \<or> resolve_schema_location p loc = path_join [path_dir p, loc]"
  by (simp add: resolve_schema_location_def)

text \<open>What a run is told: the file that was read, with the legacy keys folded in and its own paths anchored.\<close>

lemma prepare_global_file:
  assumes "prepare_global sw g = Inr (g', err)" "gl_file g = None"
  obtains s path where "load_settings sw g = Inr (s, path)" "gl_path g' = path"
    "gl_file g' = Some (resolve_schema_locations (with_lists (with_scalars s)) path)"
    "err = (let legacy = stated_names s flat_keys in if 0 < length legacy then [legacy_warning path legacy] else [])"
proof -
  obtain s path where l: "load_settings sw g = Inr (s, path)"
    using assms by (auto simp: prepare_global_def split: sum.splits)
  show ?thesis
    using that [OF l] assms l by (auto simp: prepare_global_def normalize_settings_eq Let_def)
qed

end
