(* ===== verification/Run.thy ===== *)
theory Run
  imports Settings Prepare LintAll Reports
begin

section \<open>The lint command\<close>

text \<open>
  \<open>pkg/cmd/otelcol-config-lint/run\<close>, with \<open>ExitCode\<close> of the root command: the flags, how the settings file
  is folded into them, the environment of a file, and the run: collect, prepare, lint, report.
  \<open>changed name\<close> says whether a flag was given, as cobra does; the options handed in hold what it parsed,
  or the defaults of \<open>declare_flags\<close>. The world is a parameter: \<open>rw_lint_all\<close> is \<open>LintAll\<close>, whose schedule is
  not determined; theory \<open>LintAll\<close> proves which answers it can give.
\<close>

record run_options =
  ro_distribution :: string
  ro_locations :: "string list"
  ro_insecure :: bool
  ro_no_cache :: bool
  ro_nearest :: bool
  ro_default :: string
  ro_enable :: "string list"
  ro_disable :: "string list"
  ro_severity :: "string list"
  ro_kubernetes :: bool
  ro_memory_request :: string
  ro_memory_limit :: string
  ro_version :: string
  ro_output :: string
  ro_exclude :: "string list"
  ro_min_severity :: string
  ro_fail_on :: string
  ro_concurrency :: int
  ro_strict :: bool
  ro_embedded :: bool
  ro_ignore_missing :: bool
  ro_summary :: bool
  ro_verbose :: bool
  ro_no_color :: bool
  ro_exit_on_error :: bool
  ro_store :: store
  ro_selection :: selection
  ro_policy :: "string \<Rightarrow> levels"
  ro_env :: environment_policy
  ro_enabled :: "bool option"
  ro_host_network :: "bool option"
  ro_overrides :: "kubernetes_override list"

record run_world =
  rw_settings :: settings_world
  rw_scan :: scan_fs
  rw_store :: world
  rw_fetcher :: fetcher
  rw_own_fs :: bool
  rw_lib :: go_lib
  rw_yaml :: yaml_lib
  rw_files :: "string \<Rightarrow> string go_result"
  rw_stdin :: "string go_result"
  rw_accepts :: "nat \<Rightarrow> bool"
  rw_write_error :: string
  rw_terminal :: bool
  rw_cpus :: int
  rw_usage :: string
  rw_lint_all :: "linter \<Rightarrow> string list \<Rightarrow> int \<Rightarrow> string + lint_result list"

datatype run_error =
  NoInput
| NoYamlFiles "string list"
| FilesInvalid
| NoExactSchema unknown_version_error "string option"
| RunCancelled string
| NotPrepared prepare_error
| RunFailed string

subsection \<open>Flags\<close>

definition max_default_workers :: int where "max_default_workers = 8"

definition default_workers :: "run_world \<Rightarrow> int" where
  "default_workers rw = (if rw_cpus rw < max_default_workers then rw_cpus rw else max_default_workers)"

definition zero_store :: "run_world \<Rightarrow> store" where
  "zero_store rw = \<lparr>so_locations = [], so_distribution = [], so_fetcher = rw_fetcher rw, so_own_client = False,
     so_own_fs = rw_own_fs rw\<rparr>"

definition declare_flags :: "run_world \<Rightarrow> run_options" where
  "declare_flags rw =
     \<lparr>ro_distribution = default_distribution, ro_locations = [], ro_insecure = False, ro_no_cache = False,
      ro_nearest = False, ro_default = [], ro_enable = [], ro_disable = [], ro_severity = [], ro_kubernetes = False,
      ro_memory_request = [], ro_memory_limit = [], ro_version = latest, ro_output = ''text'', ro_exclude = [],
      ro_min_severity = ''info'', ro_fail_on = ''error'', ro_concurrency = default_workers rw, ro_strict = False,
      ro_embedded = False, ro_ignore_missing = False, ro_summary = False, ro_verbose = False, ro_no_color = False,
      ro_exit_on_error = False, ro_store = zero_store rw, ro_selection = no_flags, ro_policy = (\<lambda>_. Map.empty),
      ro_env = \<lparr>ep_default = no_environment, ep_overrides = []\<rparr>, ro_enabled = None, ro_host_network = None,
      ro_overrides = []\<rparr>"

definition apply_settings :: "(string \<Rightarrow> bool) \<Rightarrow> settings_file \<Rightarrow> run_options \<Rightarrow> run_options" where
  "apply_settings changed s opts = opts\<lparr>
     ro_embedded := fold_bool changed ''embedded'' (ro_embedded opts) (rk_embedded (sg_run s)),
     ro_version := fold_str changed ''collector-version'' (ro_version opts) (rk_version (sg_run s)),
     ro_output := fold_str changed ''output'' (ro_output opts) (ob_format (sg_output s)),
     ro_min_severity := fold_str changed ''min-severity'' (ro_min_severity opts) (ib_min_severity (sg_issues s)),
     ro_fail_on := fold_str changed ''fail-on'' (ro_fail_on opts) (ib_fail_on (sg_issues s)),
     ro_strict := fold_bool changed ''strict'' (ro_strict opts) (rk_strict (sg_run s)),
     ro_ignore_missing := fold_bool changed ''ignore-missing-schemas'' (ro_ignore_missing opts) (rk_ignore_missing (sg_run s)),
     ro_summary := fold_bool changed ''summary'' (ro_summary opts) (ob_summary (sg_output s)),
     ro_verbose := fold_bool changed ''verbose'' (ro_verbose opts) (ob_verbose (sg_output s)),
     ro_exit_on_error := fold_bool changed ''exit-on-error'' (ro_exit_on_error opts) (ib_exit_on_error (sg_issues s)),
     ro_exclude := fold_list changed ''exclude'' (ro_exclude opts) (rk_exclude (sg_run s)),
     ro_no_color := (if \<not> changed ''no-color'' \<and> ob_color (sg_output s) \<noteq> None then \<not> the (ob_color (sg_output s))
       else ro_no_color opts),
     ro_concurrency := (if \<not> changed ''concurrency'' \<and> rk_concurrency (sg_run s) \<noteq> None
       then the (rk_concurrency (sg_run s)) else ro_concurrency opts)\<rparr>"

subsection \<open>environment.go\<close>

definition parse_size :: "string \<Rightarrow> string \<Rightarrow> int go_result" where
  "parse_size name written =
     (if written = [] then Inr 0
      else (case parse_quantity written of Inl e \<Rightarrow> Inl (name @ '': '' @ e) | Inr n \<Rightarrow> Inr n))"

definition environment_of :: "bool option \<Rightarrow> bool option \<Rightarrow> string \<Rightarrow> string \<Rightarrow> environment go_result" where
  "environment_of switch host_network request limit =
     (case parse_size ''memoryRequest'' request of
        Inl e \<Rightarrow> Inl e
      | Inr req \<Rightarrow>
          (case parse_size ''memoryLimit'' limit of
             Inl e \<Rightarrow> Inl e
           | Inr cap \<Rightarrow>
               let on = host_network \<noteq> None \<or> request \<noteq> [] \<or> limit \<noteq> [];
                   on = (case switch of None \<Rightarrow> on | Some b \<Rightarrow> b)
               in Inr \<lparr>env_kubernetes = on, env_host_network = host_network, env_memory_request = req,
                    env_memory_limit = cap\<rparr>))"

definition err_no_override_paths :: string where
  "err_no_override_paths = ''an override needs at least one path pattern''"

definition override_place :: "nat \<Rightarrow> string" where
  "override_place i = ''kubernetes.overrides['' @ itoa (int i) @ '']''"

fun environment_overrides :: "nat \<Rightarrow> kubernetes_override list \<Rightarrow> environment_override list go_result" where
  "environment_overrides i [] = Inr []"
| "environment_overrides i (over # overs) =
     (if length (ko_paths over) = 0 then Inl (override_place i @ '': '' @ err_no_override_paths)
      else (case environment_of (ko_enabled over) (ko_host_network over) (ko_memory_request over) (ko_memory_limit over) of
          Inl e \<Rightarrow> Inl (override_place i @ '': '' @ e)
        | Inr env \<Rightarrow>
            (case environment_overrides (i + 1) overs of
               Inl e \<Rightarrow> Inl e
             | Inr rest \<Rightarrow> Inr (\<lparr>eo_paths = ko_paths over, eo_env = env\<rparr> # rest))))"

definition environment_policy_of :: "run_options \<Rightarrow> environment_policy go_result" where
  "environment_policy_of opts =
     (case environment_of (ro_enabled opts) (ro_host_network opts) (ro_memory_request opts) (ro_memory_limit opts) of
        Inl e \<Rightarrow> Inl (''kubernetes: '' @ e)
      | Inr fallback \<Rightarrow>
          (case environment_overrides 0 (ro_overrides opts) of
             Inl e \<Rightarrow> Inl e
           | Inr overs \<Rightarrow>
               let policy = \<lparr>ep_default = fallback, ep_overrides = overs\<rparr> in
               (case validate_policy policy of
                  Some e \<Rightarrow> Inl (''kubernetes.overrides: '' @ e)
                | None \<Rightarrow> Inr policy)))"

definition show_bool :: "bool \<Rightarrow> string" where
  "show_bool b = (if b then ''true'' else ''false'')"

definition describe_environment :: "environment \<Rightarrow> string" where
  "describe_environment env =
     (if \<not> env_kubernetes env then ''no deployment environment''
      else (let parts = [''kubernetes''];
                parts = (case env_host_network env of None \<Rightarrow> parts | Some b \<Rightarrow> parts @ [''hostNetwork '' @ show_bool b]);
                parts = (if 0 < env_memory_request env
                  then parts @ [''memory request '' @ format_quantity (env_memory_request env)] else parts);
                parts = (if 0 < env_memory_limit env
                  then parts @ [''memory limit '' @ format_quantity (env_memory_limit env)] else parts)
            in join_strings '', '' parts))"

subsection \<open>prepare\<close>

definition tool_prefix :: string where "tool_prefix = ''otelcol-config-lint: ''"

definition fold_schema_flags :: "(string \<Rightarrow> bool) \<Rightarrow> settings_file \<Rightarrow> run_options \<Rightarrow> run_options" where
  "fold_schema_flags changed s opts = opts\<lparr>
     ro_distribution := fold_str changed ''distribution'' (ro_distribution opts) (rk_distribution (sg_run s)),
     ro_locations := fold_list changed ''schema-location'' (ro_locations opts) (rk_locations (sg_run s)),
     ro_insecure := fold_bool changed ''insecure-schema-location'' (ro_insecure opts) (rk_insecure (sg_run s)),
     ro_no_cache := fold_bool changed ''no-cache'' (ro_no_cache opts) (rk_no_cache (sg_run s)),
     ro_nearest := fold_bool changed ''allow-nearest-fallback'' (ro_nearest opts) (rk_nearest (sg_run s)),
     ro_memory_request := fold_str changed ''memory-request'' (ro_memory_request opts) (kb_memory_request (rk_kubernetes (sg_run s))),
     ro_memory_limit := fold_str changed ''memory-limit'' (ro_memory_limit opts) (kb_memory_limit (rk_kubernetes (sg_run s)))\<rparr>"

definition fold_environment :: "(string \<Rightarrow> bool) \<Rightarrow> settings_file \<Rightarrow> run_options \<Rightarrow> run_options" where
  "fold_environment changed s opts = opts\<lparr>
     ro_enabled := (if changed ''kubernetes'' then Some (ro_kubernetes opts)
       else (case kb_enabled (rk_kubernetes (sg_run s)) of None \<Rightarrow> ro_enabled opts | Some b \<Rightarrow> Some b)),
     ro_overrides := kb_overrides (rk_kubernetes (sg_run s)),
     ro_host_network := kb_host_network (rk_kubernetes (sg_run s))\<rparr>"

definition prepare_rules :: "run_world \<Rightarrow> settings_file \<Rightarrow> run_options \<Rightarrow> run_options go_result" where
  "prepare_rules rw s opts =
     (let flags = \<lparr>sl_default = ro_default opts, sl_enable = ro_enable opts, sl_disable = ro_disable opts,
            sl_severity = ro_severity opts, sl_settings = []\<rparr>;
          opts = opts\<lparr>ro_selection := rule_selection (sg_rules s) flags\<rparr>
      in (case resolve_selection (rw_lib rw) (ro_selection opts) of
            Inl e \<Rightarrow> Inl e
          | Inr _ \<Rightarrow>
              (case rule_policy (rw_lib rw) (sg_rules s) (flags\<lparr>sl_default := []\<rparr>) of
                 Inl e \<Rightarrow> Inl e
               | Inr policy \<Rightarrow> Inr (opts\<lparr>ro_policy := policy\<rparr>))))"

definition make_store :: "run_world \<Rightarrow> run_options \<Rightarrow> store" where
  "make_store rw opts =
     \<lparr>so_locations = ro_locations opts, so_distribution = ro_distribution opts,
      so_fetcher = (rw_fetcher rw)\<lparr>ft_insecure := ro_insecure opts, ft_no_cache := ro_no_cache opts\<rparr>,
      so_own_client = False, so_own_fs = rw_own_fs rw\<rparr>"

definition insecure_message :: "string \<Rightarrow> string" where
  "insecure_message loc =
     ''refusing to fetch a schema over plain http, which anyone on the path can rewrite: '' @ loc"

definition refused_location :: "string \<Rightarrow> string" where
  "refused_location loc =
     ''--schema-location: '' @ insecure_message loc @ ''; pass --insecure-schema-location to allow one served on localhost''"

definition prepare_run :: "run_world \<Rightarrow> (string \<Rightarrow> bool) \<Rightarrow> global_options \<Rightarrow> run_options \<Rightarrow>
    (run_options \<times> string list) go_result" where
  "prepare_run rw changed g opts =
     (case prepare_global (rw_settings rw) g of
        Inl e \<Rightarrow> Inl e
      | Inr (g, err) \<Rightarrow>
          let s = the (gl_file g);
              opts = fold_environment changed s (fold_schema_flags changed s (apply_settings changed s opts))
          in (case prepare_rules rw s opts of
                Inl e \<Rightarrow> Inl e
              | Inr opts \<Rightarrow>
                  let opts = opts\<lparr>ro_store := make_store rw opts\<rparr> in
                  (case store_validate (ro_store opts) of
                     Some loc \<Rightarrow> Inl (refused_location loc)
                   | None \<Rightarrow>
                       (case environment_policy_of opts of
                          Inl e \<Rightarrow> Inl e
                        | Inr policy \<Rightarrow>
                            Inr (opts\<lparr>ro_env := policy\<rparr>,
                              err @ (if ro_verbose opts \<and> gl_path g \<noteq> []
                                then [tool_prefix @ ''settings read from '' @ gl_path g @ nl] else []))))))"

subsection \<open>Reporting\<close>

record run_out =
  rt_out :: "string list"
  rt_err :: "string list"

definition print_err :: "string \<Rightarrow> run_out \<Rightarrow> run_out" where
  "print_err line st = st\<lparr>rt_err := rt_err st @ [line]\<rparr>"

text \<open>What a formatter writes goes to standard output, until the writer refuses.\<close>

definition write_report :: "run_world \<Rightarrow> string list \<Rightarrow> run_out \<Rightarrow> bool \<times> run_out" where
  "write_report rw ws st =
     (case write_all (rw_accepts rw) (rt_out st) ws of (out, ok) \<Rightarrow> (ok, st\<lparr>rt_out := out\<rparr>))"

definition report_result :: "run_world \<Rightarrow> run_options \<Rightarrow> run_ctx \<Rightarrow> format_options \<Rightarrow> lint_result \<Rightarrow> string \<Rightarrow>
    formatter \<Rightarrow> run_out \<Rightarrow> nat \<Rightarrow> run_error option \<times> formatter \<times> run_out" where
  "report_result rw opts asked fo r policy_path fmt st t =
     (case asked t of
        Some e \<Rightarrow> (Some (RunCancelled e), fmt, st)
      | None \<Rightarrow>
          let st = (if ro_verbose opts \<and> policy_configured (ro_env opts)
                then print_err (tool_prefix @ rs_path r @ '': '' @
                  describe_environment (resolve_environment (ro_env opts) policy_path) @ nl) st
                else st)
          in (case format_result fo fmt r of
                (ws, fmt) \<Rightarrow>
                  (case write_report rw ws st of
                     (ok, st) \<Rightarrow>
                       (if ok then None else Some (RunFailed (''report '' @ rs_path r @ '': '' @ rw_write_error rw)),
                        fmt, st))))"

text \<open>
  \<open>lintStdin\<close>: the marker while checking and the display name when reporting. The text of a syntax error
  names its path, so it is made again from the error of the parse.
\<close>

definition stdin_name :: string where "stdin_name = ''stdin''"

definition stdin_error :: "run_world \<Rightarrow> lint_result \<Rightarrow> string option" where
  "stdin_error rw r =
     (if rs_status r = StInvalid \<and> rs_err r \<noteq> None then
        (case rw_stdin rw of
           Inl _ \<Rightarrow> rs_err r
         | Inr src \<Rightarrow>
             (case parse_config (rw_yaml rw) stdin_marker src of
                Inl syn \<Rightarrow> Some (syntax_error_text (syn\<lparr>se_path := stdin_name\<rparr>))
              | Inr _ \<Rightarrow> rs_err r))
      else rs_err r)"

definition lint_stdin :: "run_world \<Rightarrow> linter \<Rightarrow> run_ctx \<Rightarrow> nat \<Rightarrow> lint_result \<times> nat" where
  "lint_stdin rw li asked t =
     (case lint_read (rw_lib rw) (rw_yaml rw) li asked stdin_marker (rw_stdin rw) t of
        (r, t) \<Rightarrow>
          (r\<lparr>rs_path := stdin_name,
             rs_diagnostics := map (\<lambda>d. d\<lparr>d_position := (d_position d)\<lparr>pos_file := stdin_name\<rparr>\<rparr>) (rs_diagnostics r),
             rs_err := stdin_error rw r\<rparr>, t))"

definition run_failed :: "lint_result \<Rightarrow> bool" where
  "run_failed r \<longleftrightarrow> rs_status r = StInvalid \<or> rs_status r = StError"

text \<open>
  The loop over the files in path order. A regular run has every result at hand; an early-exit run lints a
  file when its turn comes. A file without a result is Go's zero \<open>Result\<close>; \<open>batch_lookup\<close> below shows
  that there is none.
\<close>

definition zero_result :: lint_result where
  "zero_result = result_of [] StSkipped"

fun report_files :: "run_world \<Rightarrow> run_options \<Rightarrow> linter \<Rightarrow> run_ctx \<Rightarrow> format_options \<Rightarrow>
    (string \<rightharpoonup> lint_result) \<Rightarrow> string list \<Rightarrow> summary \<Rightarrow> formatter \<Rightarrow> run_out \<Rightarrow> nat \<Rightarrow>
    run_error option \<times> summary \<times> formatter \<times> run_out" where
  "report_files rw opts li asked fo results [] sm fmt st t = (None, sm, fmt, st)"
| "report_files rw opts li asked fo results (f # fs) sm fmt st t =
     (case (if ro_exit_on_error opts \<and> f \<noteq> stdin_marker
            then lint_file (rw_lib rw) (rw_yaml rw) li (rw_files rw) asked f t
            else (case results f of None \<Rightarrow> zero_result | Some r \<Rightarrow> r, t)) of
        (r, t) \<Rightarrow>
          (case report_result rw opts asked fo r f fmt st t of
             (Some e, fmt, st) \<Rightarrow> (Some e, sm, fmt, st)
           | (None, fmt, st) \<Rightarrow>
               let sm = summary_add r sm in
               if ro_exit_on_error opts \<and> summary_failed sm then (None, sm, fmt, st)
               else report_files rw opts li asked fo results fs sm fmt st (t + 1)))"

definition add_batch :: "lint_result list \<Rightarrow> (string \<rightharpoonup> lint_result) \<Rightarrow> (string \<rightharpoonup> lint_result)" where
  "add_batch batch results = foldl (\<lambda>m r. m(rs_path r \<mapsto> r)) results batch"

definition on_disk :: "string go_set \<Rightarrow> string list" where
  "on_disk files = set_list (set_difference files (set_new [stdin_marker]))"

definition finish_report :: "run_world \<Rightarrow> format_options \<Rightarrow> run_error option \<times> summary \<times> formatter \<times> run_out \<Rightarrow>
    run_error option \<times> run_out" where
  "finish_report rw fo reported =
     (case reported of
        (Some e, sm, fmt, st) \<Rightarrow> (Some e, st)
      | (None, sm, fmt, st) \<Rightarrow>
          (case write_report rw (format_finish fo fmt sm) st of
             (ok, st) \<Rightarrow>
               (if \<not> ok then Some (RunFailed (''finish report: '' @ rw_write_error rw))
                else if summary_failed sm then Some FilesInvalid else None, st)))"

definition run_lint_all :: "run_world \<Rightarrow> run_options \<Rightarrow> linter \<Rightarrow> run_ctx \<Rightarrow> format_options \<Rightarrow> formatter \<Rightarrow>
    string go_set \<Rightarrow> run_out \<Rightarrow> nat \<Rightarrow> run_error option \<times> run_out" where
  "run_lint_all rw opts li asked fo fmt files st t =
     (case (if set_has files stdin_marker
            then (case lint_stdin rw li asked t of (r, t) \<Rightarrow> ([stdin_marker \<mapsto> r], t)) else (Map.empty, t)) of
        (results, t) \<Rightarrow>
          (case (if ro_exit_on_error opts then Inr []
                 else rw_lint_all rw li (on_disk files) (ro_concurrency opts)) of
             Inl e \<Rightarrow> (Some (RunCancelled e), st)
           | Inr batch \<Rightarrow>
               finish_report rw fo
                 (report_files rw opts li asked fo (add_batch batch results) (set_list files) empty_summary fmt st t)))"

subsection \<open>newLinter\<close>

definition no_exact_message :: "unknown_version_error \<Rightarrow> string option \<Rightarrow> string" where
  "no_exact_message e near =
     (case near of
        None \<Rightarrow> unknown_version_message e
      | Some v \<Rightarrow>
          unknown_version_message e @ ''; the nearest release available is '' @ v @ nl @
          ''pass --collector-version '' @ v @ '' to check against it, or --allow-nearest-fallback to keep asking for '' @
          uv_version e @ '' and be checked against '' @ v)"

text \<open>The levels of a policy, listed: \<open>Resolve\<close> refuses the name of no rule, so no other name has one.\<close>

definition level_entries :: "levels \<Rightarrow> (string \<times> severity) list" where
  "level_entries m = List.map_filter (\<lambda>r. map_option (Pair (ru_name r)) (m (ru_name r))) all_rules"

definition run_prepare_options :: "run_options \<Rightarrow> severity \<Rightarrow> severity \<Rightarrow> prepare_options" where
  "run_prepare_options opts min_severity fail_on =
     \<lparr>po_store = ro_store opts, po_version = ro_version opts, po_fallback = ro_nearest opts,
      po_rules = ro_selection opts, po_policy = Some (\<lambda>path. level_entries (ro_policy opts path)),
      po_environment = Some (resolve_environment (ro_env opts)), po_strict = ro_strict opts,
      po_ignore_missing = ro_ignore_missing opts, po_min_severity = severity_string min_severity,
      po_fail_on = severity_string fail_on, po_embedded = ro_embedded opts\<rparr>"

definition fallback_warning :: "target \<Rightarrow> string" where
  "fallback_warning target =
     tool_prefix @ ''no schema for '' @ tg_requested target @ '', falling back to '' @ tg_version target @ nl"

definition new_run_linter :: "run_world \<Rightarrow> run_ctx \<Rightarrow> nat \<Rightarrow> run_options \<Rightarrow> store_state \<Rightarrow> run_out \<Rightarrow>
    (run_error + linter) \<times> run_out" where
  "new_run_linter rw asked t opts ss st =
     (case parse_severity (ro_min_severity opts) of
        Inl e \<Rightarrow> (Inl (RunFailed (''--min-severity: '' @ e)), st)
      | Inr min_severity \<Rightarrow>
          (case parse_severity (ro_fail_on opts) of
             Inl e \<Rightarrow> (Inl (RunFailed (''--fail-on: '' @ e)), st)
           | Inr fail_on \<Rightarrow>
               (case prepare (rw_lib rw) (rw_store rw) asked t (run_prepare_options opts min_severity fail_on) ss of
                  (r, target, _) \<Rightarrow>
                    let st = (if tg_fallback target then print_err (fallback_warning target) st else st) in
                    (case r of
                       Inr li \<Rightarrow> (Inr li, st)
                     | Inl (LoadSchema (UnknownVersion e)) \<Rightarrow>
                         (Inl (if \<not> tg_fallback target then NoExactSchema e (nearest e)
                           else NotPrepared (LoadSchema (UnknownVersion e))), st)
                     | Inl e \<Rightarrow> (Inl (NotPrepared e), st)))))"

subsection \<open>The command\<close>

definition format_options_of :: "run_world \<Rightarrow> run_options \<Rightarrow> format_options" where
  "format_options_of rw opts =
     \<lparr>fo_verbose = ro_verbose opts, fo_summary = ro_summary opts,
      fo_color = (\<not> ro_no_color opts \<and> ro_output opts = ''text'' \<and> rw_terminal rw)\<rparr>"

text \<open>\<open>run\<close> and \<open>runLint\<close>; preparing asks the context three times.\<close>

definition run_lint :: "run_world \<Rightarrow> run_ctx \<Rightarrow> nat \<Rightarrow> run_options \<Rightarrow> string list \<Rightarrow> store_state \<Rightarrow> run_out \<Rightarrow>
    run_error option \<times> run_out" where
  "run_lint rw asked t opts args ss st =
     (if length args = 0 then (Some NoInput, print_err (rw_usage rw) st)
      else (case scan (new_scanner (ro_exclude opts)) (rw_scan rw) args of
          Inl e \<Rightarrow> (Some (RunFailed (''collect files: '' @ e)), st)
        | Inr files \<Rightarrow>
            (case asked t of
               Some e \<Rightarrow> (Some (RunCancelled e), st)
             | None \<Rightarrow>
                 if set_len files = 0 then (Some (NoYamlFiles args), st)
                 else (case new_run_linter rw asked (t + 1) opts ss st of
                     (Inl e, st) \<Rightarrow> (Some e, st)
                   | (Inr li, st) \<Rightarrow>
                       (case new_formatter (ro_output opts) of
                          Inl e \<Rightarrow> (Some (RunFailed (''create formatter: '' @ e)), st)
                        | Inr fmt \<Rightarrow>
                            run_lint_all rw opts li asked (format_options_of rw opts) fmt files st (t + 4))))))"

text \<open>The command's \<open>RunE\<close>: the context is asked before, and again after the run, whatever it returned.\<close>

definition run_command :: "run_world \<Rightarrow> run_ctx \<Rightarrow> nat \<Rightarrow> (string \<Rightarrow> bool) \<Rightarrow> global_options \<Rightarrow> run_options \<Rightarrow>
    string list \<Rightarrow> store_state \<Rightarrow> run_error option \<times> run_out" where
  "run_command rw asked ended changed g opts args ss =
     (let start = \<lparr>rt_out = [], rt_err = []\<rparr> in
      case asked 0 of
        Some e \<Rightarrow> (Some (RunCancelled e), start)
      | None \<Rightarrow>
          (case prepare_run rw changed g opts of
             Inl e \<Rightarrow> (Some (RunFailed e), start)
           | Inr (opts, err) \<Rightarrow>
               (case run_lint rw asked 1 opts args ss (start\<lparr>rt_err := err\<rparr>) of
                  (result, st) \<Rightarrow>
                    (case asked ended of Some e \<Rightarrow> (Some (RunCancelled e), st) | None \<Rightarrow> (result, st)))))"

definition exit_code :: "run_error option \<Rightarrow> int" where
  "exit_code result = (case result of None \<Rightarrow> 0 | Some FilesInvalid \<Rightarrow> 1 | Some _ \<Rightarrow> 2)"

text \<open>A run that was cancelled, or could not be prepared or reported, ends with neither status of a verdict.\<close>

lemma exit_code_cases:
  "exit_code r = 0 \<longleftrightarrow> r = None" "exit_code r = 1 \<longleftrightarrow> r = Some FilesInvalid"
  "asked 0 = Some e \<Longrightarrow> exit_code (fst (run_command rw asked ended changed g opts args ss)) = 2"
  "asked 0 = None \<Longrightarrow> prepare_run rw changed g opts = Inl e \<Longrightarrow>
     exit_code (fst (run_command rw asked ended changed g opts args ss)) = 2"
  by (auto simp: exit_code_def run_command_def Let_def split: option.splits run_error.splits)

subsection \<open>What linting a file returns, whatever the moment\<close>

lemma add_coverage_path [simp]: "rs_path (add_coverage r c name) = rs_path r"
  by (simp add: add_coverage_def Let_def split: option.split)

lemma lint_config_path: "rs_path (fst (lint_config lib yl li background path src t)) = path"
proof (cases "parse_config yl path src")
  case (Inl syn)
  then show ?thesis by (simp add: lint_config_def result_of_def background_None)
next
  case (Inr f)
  obtain li' explicit where p: "for_path li path = (li', explicit)" by fastforce
  define c where "c = rule_context lib li' path f"
  define res where "res = (result_of path StValid)\<lparr>rs_coverage := Some (lint_coverage li' c)\<rparr>"
  obtain m ds where "suppressions li' (cx_file c) res = (m, add_findings li' ds res)"
    unfolding suppressions_def using suppression_loop_eq [OF comment_map_distinct refl] by blast
  then show ?thesis
    by (simp add: lint_config_def Inr p c_def [symmetric] Let_def res_def [symmetric]
        check_rules_def check_loop_background add_findings_eq sort_result_def background_None)
      (simp add: res_def result_of_def)
qed

lemma merge_blocks_path: "rs_path (merge_blocks lib yl li path lines bs res) = rs_path res"
  by (induction bs arbitrary: res) (auto simp: merge_blocks_def merge_block_def Let_def)

text \<open>The embedded loop, whatever ends the stream.\<close>

lemma embedded_loop_ended:
  "fst (embedded_loop lib yl li background path lines ending docs res t) =
     (case ending of
        None \<Rightarrow> sort_result (merge_blocks lib yl li path lines (concat (map (doc_blocks yl) docs)) res)
      | Some e \<Rightarrow> error_result path e)"
proof (cases ending)
  case None
  then show ?thesis by (simp add: embedded_loop_background)
next
  case (Some e)
  then show ?thesis
  proof (induction docs arbitrary: res t)
    case Nil
    then show ?case by (simp add: embedded_loop.simps background_None)
  next
    case (Cons doc docs)
    obtain r u where d: "lint_document lib yl li background path lines doc res (t + 2) = (r, u)" by fastforce
    have "fst (embedded_loop lib yl li background path lines ending (doc # docs) res t) =
        fst (embedded_loop lib yl li background path lines ending docs r u)"
      using embedded_step [of background t lib yl li path lines ending doc docs res]
      by (simp only: background_None d prod.case fst_conv)
    then show ?case using Cons.IH [OF Cons.prems, of r u] Some by simp
  qed
qed

lemma lint_embedded_ended:
  "fst (lint_embedded lib yl li background path src t) =
     (case yl_stream yl src of
        (docs, None) \<Rightarrow> sort_result (merge_blocks lib yl li path (split_on (CHR 0x0A) src) (concat (map (doc_blocks yl) docs))
          (result_of path StSkipped))
      | (docs, Some e) \<Rightarrow> error_result path e)"
  by (cases "yl_stream yl src") (simp add: lint_embedded_def embedded_loop_ended split: option.split)

lemma lint_read_clock:
  "fst (lint_read lib yl li background path input t) = fst (lint_read lib yl li background path input 0)"
proof (cases input)
  case (Inr src)
  have "fst (lint_config lib yl li background path src (t + 2)) = fst (lint_config lib yl li background path src 2)" for t
    using lint_config_clock [of lib yl li path src "t + 2"] lint_config_clock [of lib yl li path src 2] by simp
  then show ?thesis
    using Inr by (simp add: lint_read_def lint_def lint_embedded_ended background_None)
qed (simp add: lint_read_def background_None)

lemma lint_read_path: "rs_path (fst (lint_read lib yl li background path input t)) = path"
  by (auto simp: lint_read_def lint_def lint_embedded_ended background_None lint_config_path error_result_def
      result_of_def sort_result_def merge_blocks_path split: sum.split prod.split option.split)

subsection \<open>What a run reports\<close>

text \<open>
  The specification: each file alone, in path order; an early-exit run stops after the first that fails.
\<close>

definition file_result :: "run_world \<Rightarrow> linter \<Rightarrow> string \<Rightarrow> lint_result" where
  "file_result rw li f =
     (if f = stdin_marker then fst (lint_stdin rw li background 0)
      else fst (lint_file (rw_lib rw) (rw_yaml rw) li (rw_files rw) background f 0))"

fun upto_failed :: "lint_result list \<Rightarrow> lint_result list" where
  "upto_failed [] = []"
| "upto_failed (r # rs) = (if run_failed r then [r] else r # upto_failed rs)"

definition reported_results :: "run_options \<Rightarrow> lint_result list \<Rightarrow> lint_result list" where
  "reported_results opts rs = (if ro_exit_on_error opts then upto_failed rs else rs)"

fun rendered :: "format_options \<Rightarrow> formatter \<Rightarrow> lint_result list \<Rightarrow> string list \<times> formatter" where
  "rendered fo fmt [] = ([], fmt)"
| "rendered fo fmt (r # rs) =
     (case format_result fo fmt r of
        (ws, fmt) \<Rightarrow> (case rendered fo fmt rs of (us, fmt) \<Rightarrow> (ws @ us, fmt)))"

definition whole_report :: "format_options \<Rightarrow> formatter \<Rightarrow> lint_result list \<Rightarrow> string list" where
  "whole_report fo fmt rs =
     (case rendered fo fmt rs of (ws, fmt) \<Rightarrow> ws @ format_finish fo fmt (summarize rs))"

lemma write_all_accepted: "\<forall>n. accepts n \<Longrightarrow> write_all accepts out ws = (out @ ws, True)"
  by (induction ws arbitrary: out) simp_all

lemma summary_failed_add: "summary_failed (summary_add r s) \<longleftrightarrow> summary_failed s \<or> run_failed r"
  by (auto simp: summary_failed_def summary_add_def Let_def count_status_def run_failed_def split: status.splits)

lemma summary_failed_foldl:
  "summary_failed (foldl (\<lambda>s r. summary_add r s) s rs) \<longleftrightarrow> summary_failed s \<or> list_ex run_failed rs"
  by (induction rs arbitrary: s) (auto simp: summary_failed_add)

lemma summary_failed_summarize: "summary_failed (summarize rs) \<longleftrightarrow> list_ex run_failed rs"
  by (simp add: summarize_def summary_failed_foldl) (simp add: summary_failed_def empty_summary_def)

lemma upto_failed_ex [simp]: "list_ex run_failed (upto_failed rs) = list_ex run_failed rs"
  by (induction rs) auto

lemma lint_file_clock:
  "fst (lint_file lib yl li fs background f t) = fst (lint_file lib yl li fs background f 0)"
  unfolding lint_file_def by (rule lint_read_clock)

lemma lint_stdin_clock: "fst (lint_stdin rw li background t) = fst (lint_stdin rw li background 0)"
  using lint_read_clock [of "rw_lib rw" "rw_yaml rw" li stdin_marker "rw_stdin rw" t]
  by (simp add: lint_stdin_def case_prod_beta)

lemma report_result_accepted:
  assumes "\<forall>n. rw_accepts rw n" "format_result fo fmt r = (ws, fmt')"
  obtains st' where "report_result rw opts background fo r f fmt st t = (None, fmt', st')"
    "rt_out st' = rt_out st @ ws"
proof -
  define st1 where "st1 = (if ro_verbose opts \<and> policy_configured (ro_env opts)
      then print_err (tool_prefix @ rs_path r @ '': '' @
        describe_environment (resolve_environment (ro_env opts) f) @ nl) st else st)"
  have out: "rt_out st1 = rt_out st" by (simp add: st1_def print_err_def)
  have "report_result rw opts background fo r f fmt st t = (None, fmt', st1\<lparr>rt_out := rt_out st1 @ ws\<rparr>)"
    using assms by (simp add: report_result_def background_None st1_def [symmetric] write_report_def write_all_accepted Let_def)
  then show ?thesis using that out by simp
qed

lemma report_files_accepted:
  assumes "\<forall>n. rw_accepts rw n" "\<not> (ro_exit_on_error opts \<and> summary_failed sm)"
    and "\<forall>f \<in> set fs. ro_exit_on_error opts \<and> f \<noteq> stdin_marker \<or> results f = Some (file_result rw li f)"
  shows "\<exists>st'. report_files rw opts li background fo results fs sm fmt st t =
      (None, foldl (\<lambda>s r. summary_add r s) sm (reported_results opts (map (file_result rw li) fs)),
       snd (rendered fo fmt (reported_results opts (map (file_result rw li) fs))), st') \<and>
      rt_out st' = rt_out st @ fst (rendered fo fmt (reported_results opts (map (file_result rw li) fs)))"
  using assms(2,3)
proof (induction fs arbitrary: sm fmt st t)
  case Nil
  then show ?case by (simp add: reported_results_def)
next
  case (Cons f fs)
  let ?r = "file_result rw li f"
  obtain u where picked: "(if ro_exit_on_error opts \<and> f \<noteq> stdin_marker
        then lint_file (rw_lib rw) (rw_yaml rw) li (rw_files rw) background f t
        else (case results f of None \<Rightarrow> zero_result | Some r \<Rightarrow> r, t)) = (?r, u)"
  proof (cases "ro_exit_on_error opts \<and> f \<noteq> stdin_marker")
    case True
    then show ?thesis
      using that lint_file_clock [of "rw_lib rw" "rw_yaml rw" li "rw_files rw" f t]
      by (metis (mono_tags, lifting) file_result_def prod.collapse)
  next
    case False
    then show ?thesis using that Cons.prems(2) by auto
  qed
  obtain ws fmt1 where fr: "format_result fo fmt ?r = (ws, fmt1)" by fastforce
  obtain st1 where rep: "report_result rw opts background fo ?r f fmt st u = (None, fmt1, st1)"
    "rt_out st1 = rt_out st @ ws"
    using report_result_accepted [OF assms(1) fr] by blast
  show ?case
  proof (cases "ro_exit_on_error opts \<and> run_failed ?r")
    case True
    then have "report_files rw opts li background fo results (f # fs) sm fmt st t =
        (None, summary_add ?r sm, fmt1, st1)"
      unfolding report_files.simps picked prod.case rep option.case Let_def summary_failed_add by simp
    then show ?thesis using True fr rep(2) by (simp add: reported_results_def)
  next
    case False
    have go: "\<not> (ro_exit_on_error opts \<and> summary_failed (summary_add ?r sm))"
      using False Cons.prems(1) by (simp add: summary_failed_add)
    then have "report_files rw opts li background fo results (f # fs) sm fmt st t =
        report_files rw opts li background fo results fs (summary_add ?r sm) fmt1 st1 (u + 1)"
      unfolding report_files.simps picked prod.case rep option.case Let_def if_not_P [OF go] by simp
    moreover have "reported_results opts (map (file_result rw li) (f # fs)) =
        ?r # reported_results opts (map (file_result rw li) fs)"
      using False by (simp add: reported_results_def)
    ultimately show ?thesis
      using Cons.IH [OF go, of fmt1 st1 "u + 1"] Cons.prems(2) fr rep(2)
      by (auto simp: case_prod_beta)
  qed
qed

lemma add_batch_lookup:
  assumes "\<And>p. rs_path (g p) = p"
  shows "add_batch (map g ps) m f = (if f \<in> set ps then Some (g f) else m f)"
  using assms by (induction ps arbitrary: m) (auto simp: add_batch_def)

lemma on_disk_elems: "set (on_disk files) = set_elems files - {stdin_marker}"
  by (simp add: on_disk_def set_list_sorted)

lemma batch_lookup:
  assumes "lint_all_returns (rw_lib rw) (rw_yaml rw) li (rw_files rw) (on_disk files) n (Some (map Some batch))"
  shows "add_batch batch m f =
    (if f \<in> set_elems files \<and> f \<noteq> stdin_marker then Some (file_result rw li f) else m f)"
proof -
  let ?g = "\<lambda>p. fst (lint_file (rw_lib rw) (rw_yaml rw) li (rw_files rw) background p 0)"
  have "map Some batch = map Some (map ?g (on_disk files))"
    using lint_all_answer [OF assms] by (simp add: comp_def)
  then have "batch = map ?g (on_disk files)" by (metis inj_map_eq_map inj_Some)
  then show ?thesis
    using add_batch_lookup [of ?g "on_disk files" m f]
    by (simp add: lint_file_def lint_read_path on_disk_elems file_result_def)
qed

text \<open>
  C30: a run that is not cancelled, into a writer that takes everything, reports in path order the result of each
  file as linting it alone gives it, whatever the schedule of its workers, standard input checked
  under its marker and shown by its name; with \<open>--exit-on-error\<close> it reports the same results up to the first
  that fails. It ends as invalid exactly when one of the results is invalid or an error, the process then
  ending with status 1 and otherwise with 0, and the summary counts what was reported.
\<close>

theorem run_report_exact:
  assumes "\<forall>n. rw_accepts rw n"
    and "\<not> ro_exit_on_error opts \<Longrightarrow> rw_lint_all rw li (on_disk files) (ro_concurrency opts) = Inr batch \<and>
      lint_all_returns (rw_lib rw) (rw_yaml rw) li (rw_files rw) (on_disk files) (ro_concurrency opts) (Some (map Some batch))"
  shows "(\<exists>err. run_lint_all rw opts li background fo fmt files st t =
    (if list_ex run_failed (map (file_result rw li) (set_list files)) then Some FilesInvalid else None,
     \<lparr>rt_out = rt_out st @ whole_report fo fmt (reported_results opts (map (file_result rw li) (set_list files))),
      rt_err = err\<rparr>)) \<and>
    exit_code (fst (run_lint_all rw opts li background fo fmt files st t)) =
      (if list_ex run_failed (map (file_result rw li) (set_list files)) then 1 else 0)"
proof -
  let ?fs = "set_list files"
  let ?rs = "reported_results opts (map (file_result rw li) ?fs)"
  obtain m u where m: "(if set_has files stdin_marker
      then (case lint_stdin rw li background t of (r, t) \<Rightarrow> ([stdin_marker \<mapsto> r], t)) else (Map.empty, t)) = (m, u)"
    by fastforce
  have stdin: "stdin_marker \<in> set_elems files \<Longrightarrow> m stdin_marker = Some (file_result rw li stdin_marker)"
    using m lint_stdin_clock [of rw li t] by (auto simp: file_result_def split: prod.splits)
  obtain b where b: "(if ro_exit_on_error opts then Inr []
      else rw_lint_all rw li (on_disk files) (ro_concurrency opts)) = Inr b"
    "\<not> ro_exit_on_error opts \<Longrightarrow>
       lint_all_returns (rw_lib rw) (rw_yaml rw) li (rw_files rw) (on_disk files) (ro_concurrency opts) (Some (map Some b))"
    "ro_exit_on_error opts \<Longrightarrow> b = []"
    using assms(2) by (cases "ro_exit_on_error opts") auto
  have all: "\<forall>f \<in> set ?fs. ro_exit_on_error opts \<and> f \<noteq> stdin_marker \<or>
      add_batch b m f = Some (file_result rw li f)"
    using b(2,3) stdin batch_lookup [of rw li files _ b m]
    by (cases "ro_exit_on_error opts") (auto simp: set_list_sorted add_batch_def)
  have "\<not> (ro_exit_on_error opts \<and> summary_failed empty_summary)"
    by (simp add: summary_failed_def empty_summary_def)
  then obtain st' where rep: "report_files rw opts li background fo (add_batch b m) ?fs empty_summary fmt st u =
      (None, summarize ?rs, snd (rendered fo fmt ?rs), st')" "rt_out st' = rt_out st @ fst (rendered fo fmt ?rs)"
    using report_files_accepted [OF assms(1) _ all, of empty_summary fo fmt st u] unfolding summarize_def by blast
  have ex: "list_ex run_failed ?rs \<longleftrightarrow> list_ex run_failed (map (file_result rw li) ?fs)"
    by (simp add: reported_results_def)
  have "run_lint_all rw opts li background fo fmt files st t =
      finish_report rw fo (None, summarize ?rs, snd (rendered fo fmt ?rs), st')"
    unfolding run_lint_all_def m prod.case b(1) sum.case rep(1) ..
  then show ?thesis
    using assms(1) rep(2) ex
    by (cases st') (auto simp: finish_report_def write_report_def write_all_accepted summary_failed_summarize whole_report_def
        case_prod_beta exit_code_def)
qed

subsection \<open>Flag, block, flat key, default\<close>

text \<open>
  The keys that have a flag holding one value, with what a command line and a settings file say of them. The
  flag of the colour is the negation of its key. A flat \<open>kubernetes\<close> key counts when the block says nothing.
\<close>

datatype flag_key =
  FlagVersion | FlagOutput | FlagMinSeverity | FlagFailOn | FlagDistribution | FlagRequest | FlagLimit
| FlagEmbedded | FlagStrict | FlagIgnoreMissing | FlagSummary | FlagVerbose | FlagExitOnError | FlagInsecure
| FlagNoCache | FlagNearest | FlagNoColor

fun flag_name :: "flag_key \<Rightarrow> string" where
  "flag_name FlagVersion = ''collector-version''"
| "flag_name FlagOutput = ''output''"
| "flag_name FlagMinSeverity = ''min-severity''"
| "flag_name FlagFailOn = ''fail-on''"
| "flag_name FlagDistribution = ''distribution''"
| "flag_name FlagRequest = ''memory-request''"
| "flag_name FlagLimit = ''memory-limit''"
| "flag_name FlagEmbedded = ''embedded''"
| "flag_name FlagStrict = ''strict''"
| "flag_name FlagIgnoreMissing = ''ignore-missing-schemas''"
| "flag_name FlagSummary = ''summary''"
| "flag_name FlagVerbose = ''verbose''"
| "flag_name FlagExitOnError = ''exit-on-error''"
| "flag_name FlagInsecure = ''insecure-schema-location''"
| "flag_name FlagNoCache = ''no-cache''"
| "flag_name FlagNearest = ''allow-nearest-fallback''"
| "flag_name FlagNoColor = ''no-color''"

fun run_setting :: "run_options \<Rightarrow> flag_key \<Rightarrow> file_setting" where
  "run_setting opts FlagVersion = Text (ro_version opts)"
| "run_setting opts FlagOutput = Text (ro_output opts)"
| "run_setting opts FlagMinSeverity = Text (ro_min_severity opts)"
| "run_setting opts FlagFailOn = Text (ro_fail_on opts)"
| "run_setting opts FlagDistribution = Text (ro_distribution opts)"
| "run_setting opts FlagRequest = Text (ro_memory_request opts)"
| "run_setting opts FlagLimit = Text (ro_memory_limit opts)"
| "run_setting opts FlagEmbedded = Flag (Some (ro_embedded opts))"
| "run_setting opts FlagStrict = Flag (Some (ro_strict opts))"
| "run_setting opts FlagIgnoreMissing = Flag (Some (ro_ignore_missing opts))"
| "run_setting opts FlagSummary = Flag (Some (ro_summary opts))"
| "run_setting opts FlagVerbose = Flag (Some (ro_verbose opts))"
| "run_setting opts FlagExitOnError = Flag (Some (ro_exit_on_error opts))"
| "run_setting opts FlagInsecure = Flag (Some (ro_insecure opts))"
| "run_setting opts FlagNoCache = Flag (Some (ro_no_cache opts))"
| "run_setting opts FlagNearest = Flag (Some (ro_nearest opts))"
| "run_setting opts FlagNoColor = Flag (Some (ro_no_color opts))"

fun block_flag :: "settings_file \<Rightarrow> flag_key \<Rightarrow> file_setting" where
  "block_flag s FlagVersion = Text (rk_version (sg_run s))"
| "block_flag s FlagOutput = Text (ob_format (sg_output s))"
| "block_flag s FlagMinSeverity = Text (ib_min_severity (sg_issues s))"
| "block_flag s FlagFailOn = Text (ib_fail_on (sg_issues s))"
| "block_flag s FlagDistribution = Text (rk_distribution (sg_run s))"
| "block_flag s FlagRequest = Text (kb_memory_request (rk_kubernetes (sg_run s)))"
| "block_flag s FlagLimit = Text (kb_memory_limit (rk_kubernetes (sg_run s)))"
| "block_flag s FlagEmbedded = Flag (rk_embedded (sg_run s))"
| "block_flag s FlagStrict = Flag (rk_strict (sg_run s))"
| "block_flag s FlagIgnoreMissing = Flag (rk_ignore_missing (sg_run s))"
| "block_flag s FlagSummary = Flag (ob_summary (sg_output s))"
| "block_flag s FlagVerbose = Flag (ob_verbose (sg_output s))"
| "block_flag s FlagExitOnError = Flag (ib_exit_on_error (sg_issues s))"
| "block_flag s FlagInsecure = Flag (rk_insecure (sg_run s))"
| "block_flag s FlagNoCache = Flag (rk_no_cache (sg_run s))"
| "block_flag s FlagNearest = Flag (rk_nearest (sg_run s))"
| "block_flag s FlagNoColor = Flag (map_option Not (ob_color (sg_output s)))"

definition flat_pods :: "settings_file \<Rightarrow> kubernetes_block" where
  "flat_pods s =
     (if kubernetes_written (rk_kubernetes (sg_run s)) then empty_kubernetes
      else (case fl_kubernetes s of None \<Rightarrow> empty_kubernetes | Some k \<Rightarrow> k))"

fun flat_flag :: "settings_file \<Rightarrow> flag_key \<Rightarrow> file_setting" where
  "flat_flag s FlagVersion = Text (fl_version s)"
| "flat_flag s FlagMinSeverity = Text (fl_min_severity s)"
| "flat_flag s FlagFailOn = Text (fl_fail_on s)"
| "flat_flag s FlagDistribution = Text (fl_distribution s)"
| "flat_flag s FlagRequest = Text (kb_memory_request (flat_pods s))"
| "flat_flag s FlagLimit = Text (kb_memory_limit (flat_pods s))"
| "flat_flag s FlagStrict = Flag (fl_strict s)"
| "flat_flag s FlagIgnoreMissing = Flag (fl_ignore_missing s)"
| "flat_flag s FlagSummary = Flag (fl_summary s)"
| "flat_flag s _ = Flag None"

lemma prepare_run_folds:
  assumes "prepare_run rw changed g opts = Inr (opts', err)" "gl_file g = None"
    and "load_settings (rw_settings rw) g = Inr (s, path)"
  defines "s' \<equiv> resolve_schema_locations (with_lists (with_scalars s)) path"
  shows "\<exists>policy store env. opts' =
    (fold_environment changed s' (fold_schema_flags changed s' (apply_settings changed s' opts)))
      \<lparr>ro_selection := rule_selection (sg_rules s')
         \<lparr>sl_default = ro_default opts, sl_enable = ro_enable opts, sl_disable = ro_disable opts,
          sl_severity = ro_severity opts, sl_settings = []\<rparr>,
       ro_policy := policy, ro_store := store, ro_env := env\<rparr>"
proof -
  obtain g' err' where g: "prepare_global (rw_settings rw) g = Inr (g', err')"
    using assms(1) by (auto simp: prepare_run_def split: sum.splits)
  have "gl_file g' = Some s'"
    using prepare_global_file [OF g assms(2)] assms(3) by (auto simp: s'_def)
  moreover have "ro_default (fold_environment c x (fold_schema_flags c x (apply_settings c x o1))) = ro_default o1"
    "ro_enable (fold_environment c x (fold_schema_flags c x (apply_settings c x o1))) = ro_enable o1"
    "ro_disable (fold_environment c x (fold_schema_flags c x (apply_settings c x o1))) = ro_disable o1"
    "ro_severity (fold_environment c x (fold_schema_flags c x (apply_settings c x o1))) = ro_severity o1" for c x o1
    by (simp_all add: fold_environment_def fold_schema_flags_def apply_settings_def)
  ultimately show ?thesis
    using assms(1) by (auto simp: prepare_run_def g prepare_rules_def Let_def split: sum.splits option.splits)
qed

text \<open>
  The blocks of a file after its flat keys are folded in. Every setting that is no single value is read from them:
  the lists of patterns and locations, the workers, the environment and the selection of rules.
\<close>

definition folded_pods :: "settings_file \<Rightarrow> kubernetes_block" where
  "folded_pods s = kept_pods (rk_kubernetes (sg_run s)) (fl_kubernetes s)"

definition environment_folded :: "(string \<Rightarrow> bool) \<Rightarrow> kubernetes_block \<Rightarrow> run_options \<Rightarrow> run_options \<Rightarrow> bool" where
  "environment_folded changed pods opts opts' \<longleftrightarrow>
     ro_enabled opts' = (if changed ''kubernetes'' then Some (ro_kubernetes opts)
       else if kb_enabled pods \<noteq> None then kb_enabled pods else ro_enabled opts) \<and>
     ro_host_network opts' = kb_host_network pods \<and> ro_overrides opts' = kb_overrides pods"

text \<open>The file's lists of rules come before those of the flags, and its levels too, one for each rule it names.\<close>

definition rules_folded :: "settings_file \<Rightarrow> run_options \<Rightarrow> selection \<Rightarrow> bool" where
  "rules_folded s opts sel \<longleftrightarrow>
     sl_default sel = (if ro_default opts \<noteq> [] then ro_default opts else rb_default (sg_rules s)) \<and>
     sl_enable sel = trim_all (rb_enable (sg_rules s)) @ trim_all (ro_enable opts) \<and>
     sl_disable sel = trim_all (kept_or [] (rb_disable (sg_rules s)) (fl_disable s)) @ trim_all (ro_disable opts) \<and>
     (let levels = kept_or [] (rb_severity (sg_rules s)) (fl_severity s) in
       \<exists>pairs1. sl_severity sel = pairs1 @ trim_all (ro_severity opts) \<and>
         set pairs1 = {name @ ''='' @ level | name level. map_of levels name = Some level}) \<and>
     sl_settings sel = rb_settings (sg_rules s)"

lemma rule_selection_folded:
  assumes "sg_rules s' = (sg_rules s)\<lparr>rb_disable := kept_or [] (rb_disable (sg_rules s)) (fl_disable s),
      rb_severity := kept_or [] (rb_severity (sg_rules s)) (fl_severity s)\<rparr>"
  shows "rules_folded s opts (rule_selection (sg_rules s')
    \<lparr>sl_default = ro_default opts, sl_enable = ro_enable opts, sl_disable = ro_disable opts,
     sl_severity = ro_severity opts, sl_settings = []\<rparr>)"
proof -
  have "(\<lambda>name. severity_pair name (severity_of m name)) ` fst ` set m =
      {name @ ''='' @ level | name level. map_of m name = Some level}" for m :: "(string \<times> string) list"
  proof -
    have keys: "n \<in> fst ` set m \<longleftrightarrow> (\<exists>level. map_of m n = Some level)" for n
      by (metis dom_map_of_conv_image_fst domD domI)
    have "(\<lambda>name. severity_pair name (severity_of m name)) ` fst ` set m =
        {severity_pair n (severity_of m n) | n. n \<in> fst ` set m}" by blast
    also have "\<dots> = {name @ ''='' @ level | name level. map_of m name = Some level}"
    proof (rule Collect_cong)
      have level: "map_of m n = Some l \<Longrightarrow> severity_of m n = l" for n l by (simp add: severity_of_def)
      show "(\<exists>n. x = severity_pair n (severity_of m n) \<and> n \<in> fst ` set m) \<longleftrightarrow>
          (\<exists>name level. x = name @ ''='' @ level \<and> map_of m name = Some level)" for x
        unfolding keys severity_pair_def using level by metis
    qed
    finally show ?thesis .
  qed
  then show ?thesis
    by (simp add: rules_folded_def rule_selection_def assms Let_def set_list_sorted)
qed

lemma folded_file:
  assumes "s' = resolve_schema_locations (with_lists (with_scalars s)) path"
  shows "rk_concurrency (sg_run s') = rk_concurrency (sg_run s)" "rk_kubernetes (sg_run s') = folded_pods s"
    "rk_exclude (sg_run s') = kept_or [] (rk_exclude (sg_run s)) (fl_exclude s)"
    "rk_locations (sg_run s') = map (if path = [] then id else resolve_schema_location path)
       (kept_or [] (rk_locations (sg_run s)) (fl_locations s))"
    "sg_rules s' = (sg_rules s)\<lparr>rb_disable := kept_or [] (rb_disable (sg_rules s)) (fl_disable s),
      rb_severity := kept_or [] (rb_severity (sg_rules s)) (fl_severity s)\<rparr>"
  by (simp_all add: assms resolve_schema_locations_def with_lists_def with_scalars_def folded_pods_def)

lemma folded_run:
  assumes "opts' = (fold_environment changed s' (fold_schema_flags changed s' (apply_settings changed s' opts)))
      \<lparr>ro_selection := selection, ro_policy := policy, ro_store := store, ro_env := env\<rparr>"
  shows "ro_concurrency opts' = (if changed ''concurrency'' then ro_concurrency opts
      else (case rk_concurrency (sg_run s') of Some n \<Rightarrow> n | None \<Rightarrow> ro_concurrency opts))"
    "ro_exclude opts' = (if changed ''exclude'' then ro_exclude opts else ro_exclude opts @ rk_exclude (sg_run s'))"
    "ro_locations opts' =
      (if changed ''schema-location'' then ro_locations opts else ro_locations opts @ rk_locations (sg_run s'))"
    "environment_folded changed (rk_kubernetes (sg_run s')) opts opts'"
  by (simp_all add: assms fold_environment_def fold_schema_flags_def apply_settings_def fold_list_def environment_folded_def
      split: option.split)

lemma folded_single:
  assumes "opts' = (fold_environment changed s' (fold_schema_flags changed s' (apply_settings changed s' opts)))
      \<lparr>ro_selection := selection, ro_policy := policy, ro_store := store, ro_env := env\<rparr>"
    and "s' = resolve_schema_locations (with_lists (with_scalars s)) path"
  shows "run_setting opts' k =
      (if changed (flag_name k) then run_setting opts k
       else if stated (block_flag s k) then block_flag s k
       else if stated (flat_flag s k) then flat_flag s k
       else run_setting opts k)"
proof -
  note folds = assms fold_environment_def fold_schema_flags_def apply_settings_def resolve_schema_locations_def
    with_lists_def with_scalars_def fold_str_def fold_bool_def fold_list_def kept_or_def
  show ?thesis
    by (cases k) (auto simp: folds kept_pods_def flat_pods_def kubernetes_written_def empty_kubernetes_def split: option.splits)
qed

text \<open>
  C31: once the flags and the settings file have had their say, a setting of one value (\<open>k\<close>, and the number of
  workers) has the value of its flag where the command line gives one, else the value its block of the file
  states, else the one of the flat key of the first release, else the default. Kubernetes is on or off as the flag
  says, else as the file does; host network and the overrides are the file's. Where no flag gives them, the excluded
  patterns and the schema locations of the file are added to what the run has, the locations read from the
  directory of the file. The lists of rules are the file's with those of the flags after them, so that a flag has
  the last word, and the rule set is that of the flag, else the file's. What a given list flag does to the list of
  the file is lemma \<open>given_list_replaces\<close>.
\<close>

theorem flag_precedence:
  assumes "prepare_run rw changed g opts = Inr (opts', err)" "gl_file g = None"
    and "load_settings (rw_settings rw) g = Inr (s, path)"
  shows "run_setting opts' k =
      (if changed (flag_name k) then run_setting opts k
       else if stated (block_flag s k) then block_flag s k
       else if stated (flat_flag s k) then flat_flag s k
       else run_setting opts k) \<and>
    ro_concurrency opts' = (if changed ''concurrency'' then ro_concurrency opts
       else (case rk_concurrency (sg_run s) of Some n \<Rightarrow> n | None \<Rightarrow> ro_concurrency opts)) \<and>
    environment_folded changed (folded_pods s) opts opts' \<and>
    (\<not> changed ''exclude'' \<longrightarrow> ro_exclude opts' = ro_exclude opts @ kept_or [] (rk_exclude (sg_run s)) (fl_exclude s)) \<and>
    (\<not> changed ''schema-location'' \<longrightarrow> ro_locations opts' =
       ro_locations opts @ map (if path = [] then id else resolve_schema_location path)
         (kept_or [] (rk_locations (sg_run s)) (fl_locations s))) \<and>
    rules_folded s opts (ro_selection opts')"
proof -
  define s' where "s' = resolve_schema_locations (with_lists (with_scalars s)) path"
  obtain policy store env where o': "opts' =
    (fold_environment changed s' (fold_schema_flags changed s' (apply_settings changed s' opts)))
      \<lparr>ro_selection := rule_selection (sg_rules s')
         \<lparr>sl_default = ro_default opts, sl_enable = ro_enable opts, sl_disable = ro_disable opts,
          sl_severity = ro_severity opts, sl_settings = []\<rparr>,
       ro_policy := policy, ro_store := store, ro_env := env\<rparr>"
    using prepare_run_folds [OF assms] unfolding s'_def by blast
  note written = folded_file [OF s'_def] and run = folded_run [OF o'] and single = folded_single [OF o' s'_def, of k]
  have "ro_selection opts' = rule_selection (sg_rules s')
      \<lparr>sl_default = ro_default opts, sl_enable = ro_enable opts, sl_disable = ro_disable opts,
       sl_severity = ro_severity opts, sl_settings = []\<rparr>" by (simp add: o')
  then have "rules_folded s opts (ro_selection opts')" using rule_selection_folded [OF written(5), of opts] by simp
  then show ?thesis using single run written by simp
qed

text \<open>
  \<open>Fold.List\<close> leaves the destination alone when its flag was given, as every helper of \<open>Fold\<close> does: the list of the
  file is then left out, where the comment on \<open>List\<close> says it is added to and not thrown away.
\<close>

lemma given_list_replaces:
  assumes "prepare_run rw changed g opts = Inr (opts', err)" "gl_file g = None"
    and "load_settings (rw_settings rw) g = Inr (s, path)"
  shows "(changed ''exclude'' \<longrightarrow> ro_exclude opts' = ro_exclude opts) \<and>
    (changed ''schema-location'' \<longrightarrow> ro_locations opts' = ro_locations opts)"
  using prepare_run_folds [OF assms] by (auto simp: fold_environment_def fold_schema_flags_def apply_settings_def fold_list_def)

subsection \<open>Examples\<close>

text \<open>
  A settings file that asks for strictness in its block and for another release in a flat key, and standard
  input that cannot be read.
\<close>

definition demo_settings :: settings_file where
  "demo_settings = empty_settings\<lparr>fl_version := ''v0.150.0'', sg_run := empty_run\<lparr>rk_strict := Some True\<rparr>\<rparr>"

definition demo_run_world :: run_world where
  "demo_run_world =
     \<lparr>rw_settings = \<lparr>sw_exists = (\<lambda>_. False), sw_read = (\<lambda>_. Inr ''text''),
        sw_decode = (\<lambda>_. (Decoded demo_settings, EndOfFile)), sw_getwd = Inr ''/w''\<rparr>,
      rw_scan = demo_scan_fs, rw_store = demo_world, rw_fetcher = demo_fetcher, rw_own_fs = True, rw_lib = demo_lib,
      rw_yaml = demo_yaml, rw_files = (\<lambda>_. Inl ''no such file''), rw_stdin = Inl ''closed'', rw_accepts = (\<lambda>_. True),
      rw_write_error = [], rw_terminal = False, rw_cpus = 4, rw_usage = ''usage'', rw_lint_all = (\<lambda>_ _ _. Inr [])\<rparr>"

definition demo_global :: global_options where
  "demo_global = \<lparr>gl_config = ''c.yaml'', gl_no_config = False, gl_file = None, gl_path = []\<rparr>"

lemma demo_load: "load_settings (rw_settings demo_run_world) demo_global = Inr (demo_settings, ''c.yaml'')"
  by (simp add: load_settings_def demo_run_world_def demo_global_def parse_settings_def demo_settings_def
      empty_settings_def Let_def)

lemma demo_empty_policy: "\<exists>policy. rule_policy demo_lib empty_rules no_flags = Inr policy"
proof -
  have paths: "check_paths [''*''] = None" by code_simp
  have all: "override_levels demo_lib \<lparr>ov_paths = [''*''], ov_disable = [], ov_severity = []\<rparr> = Inr Map.empty"
    by (simp add: override_levels_def paths demo_selection_levels del: check_paths.simps)
  then show ?thesis
    by (simp add: rule_policy_def empty_rules_def no_flags_def level_selection_def
        demo_selection_levels [unfolded level_selection_def])
qed

lemma demo_prepare_rules:
  assumes "ro_default opts = []" "ro_enable opts = []" "ro_disable opts = []" "ro_severity opts = []" "sg_rules s = empty_rules"
  shows "\<exists>policy. prepare_rules demo_run_world s opts =
    Inr (opts\<lparr>ro_selection := no_flags, ro_policy := policy\<rparr>)"
proof -
  have "rule_selection empty_rules \<lparr>sl_default = [], sl_enable = [], sl_disable = [], sl_severity = [], sl_settings = []\<rparr> = no_flags"
    by (simp add: rule_selection_def empty_rules_def no_flags_def level_selection_def set_list_def
        set_unsorted_list_def set_key_set_def set_empty_def)
  then show ?thesis
    using assms demo_empty_policy demo_selection_levels(3) [of demo_lib]
    by (auto simp: prepare_rules_def demo_run_world_def no_flags_def level_selection_def)
qed

lemma demo_prepares:
  "\<exists>opts' err. prepare_run demo_run_world (\<lambda>name. name = ''output'') demo_global
     (declare_flags demo_run_world) = Inr (opts', err)"
proof -
  define s' where "s' = resolve_schema_locations (with_lists (with_scalars demo_settings)) ''c.yaml''"
  define opts where "opts = fold_environment (\<lambda>name. name = ''output'') s' (fold_schema_flags (\<lambda>name. name = ''output'') s'
    (apply_settings (\<lambda>name. name = ''output'') s' (declare_flags demo_run_world)))"
  obtain err where g: "prepare_global (rw_settings demo_run_world) demo_global =
      Inr (demo_global\<lparr>gl_file := Some s', gl_path := ''c.yaml''\<rparr>, err)"
    using demo_load by (simp add: prepare_global_def normalize_settings_eq s'_def Let_def demo_global_def)
  note parts = opts_def fold_environment_def fold_schema_flags_def apply_settings_def declare_flags_def
  have rules: "sg_rules s' = empty_rules"
    by (simp add: s'_def resolve_schema_locations_def with_lists_def with_scalars_def demo_settings_def empty_settings_def
        empty_rules_def kept_or_def)
  have pods: "rk_kubernetes (sg_run s') = empty_kubernetes" "rk_locations (sg_run s') = []"
    by (simp_all add: s'_def resolve_schema_locations_def with_lists_def with_scalars_def demo_settings_def empty_settings_def
        empty_run_def kept_or_def kept_pods_def)
  obtain policy where r: "prepare_rules demo_run_world s' opts = Inr (opts\<lparr>ro_selection := no_flags, ro_policy := policy\<rparr>)"
    using demo_prepare_rules [of opts s'] rules by (auto simp: parts)
  have "find is_insecure [default_registry] = None" by code_simp
  then have store: "store_validate (make_store demo_run_world (opts\<lparr>ro_selection := no_flags, ro_policy := policy\<rparr>)) = None"
    using pods by (simp add: store_validate_def make_store_def locations_def parts fold_list_def)
  have env: "environment_policy_of (opts\<lparr>ro_selection := no_flags, ro_policy := policy, ro_store := x\<rparr>) \<noteq> Inl e" for x e
    using pods by (simp add: environment_policy_of_def environment_of_def parse_size_def parts fold_str_def empty_kubernetes_def
        validate_policy_def Let_def)
  show ?thesis
    using env by (auto simp: prepare_run_def g opts_def [symmetric] r store Let_def split: sum.split)
qed

lemma flag_precedence_witness:
  "\<exists>opts' err. prepare_run demo_run_world (\<lambda>name. name = ''output'') demo_global
       (declare_flags demo_run_world) = Inr (opts', err) \<and>
     ro_strict opts' \<and> ro_version opts' = ''v0.150.0'' \<and> ro_output opts' = ''text'' \<and> ro_fail_on opts' = ''error''"
proof -
  let ?c = "\<lambda>name. name = ''output''" and ?o = "declare_flags demo_run_world"
  obtain opts' err where p: "prepare_run demo_run_world ?c demo_global ?o = Inr (opts', err)"
    using demo_prepares by blast
  have g: "gl_file demo_global = None" by (simp add: demo_global_def)
  note f = flag_precedence [OF p g demo_load, THEN conjunct1]
  show ?thesis
    using p f [of FlagStrict] f [of FlagVersion] f [of FlagOutput] f [of FlagFailOn]
    by (simp add: demo_settings_def empty_settings_def empty_run_def declare_flags_def)
qed

definition demo_format :: format_options where
  "demo_format = \<lparr>fo_verbose = False, fo_summary = False, fo_color = False\<rparr>"

definition demo_out :: run_out where "demo_out = \<lparr>rt_out = [], rt_err = []\<rparr>"

lemma run_report_exact_witness:
  "fst (run_lint_all demo_run_world (declare_flags demo_run_world) demo_linter background demo_format (TapFormatter tap_start)
     (GoSet [''-'']) demo_out 0) = Some FilesInvalid \<and>
   exit_code (fst (run_lint_all demo_run_world (declare_flags demo_run_world) demo_linter background demo_format
     (TapFormatter tap_start) (GoSet [''-'']) demo_out 0)) = 1"
proof -
  let ?rw = "demo_run_world" and ?o = "declare_flags demo_run_world"
  have disk: "on_disk (GoSet [''-'']) = []"
    by (simp add: on_disk_def set_list_def set_unsorted_list_def set_difference_def set_empty_def stdin_marker_def)
  have "lint_all_returns (rw_lib ?rw) (rw_yaml ?rw) demo_linter (rw_files ?rw) (on_disk (GoSet [''-'']))
      (ro_concurrency ?o) (Some (map Some []))"
    unfolding disk list.map(1) by (rule lint_all_returns.no_paths)
  moreover have "rw_lint_all ?rw demo_linter (on_disk (GoSet [''-''])) (ro_concurrency ?o) = Inr []"
    by (simp add: demo_run_world_def)
  moreover have "\<forall>n. rw_accepts ?rw n" by (simp add: demo_run_world_def)
  ultimately obtain err where r: "run_lint_all ?rw ?o demo_linter background demo_format (TapFormatter tap_start) (GoSet [''-'']) demo_out 0 =
    (if list_ex run_failed (map (file_result ?rw demo_linter) (set_list (GoSet [''-'']))) then Some FilesInvalid else None,
     \<lparr>rt_out = rt_out demo_out @ whole_report demo_format (TapFormatter tap_start)
        (reported_results ?o (map (file_result ?rw demo_linter) (set_list (GoSet [''-''])))),
      rt_err = err\<rparr>)"
    using run_report_exact [of ?rw ?o demo_linter "GoSet [''-'']" "[]" demo_format "TapFormatter tap_start" demo_out 0] by blast
  have "set_list (GoSet [''-'']) = [stdin_marker]"
    by (simp add: set_list_def set_unsorted_list_def stdin_marker_def)
  moreover have "run_failed (file_result ?rw demo_linter stdin_marker)"
    by (simp add: file_result_def lint_stdin_def lint_read_def background_None demo_run_world_def error_result_def
        result_of_def run_failed_def)
  ultimately show ?thesis using r by (simp add: exit_code_def)
qed

end
