(* ===== verification/DiskCache.thy ===== *)
theory DiskCache
  imports Settings
begin

section \<open>The response cache on disk\<close>

text \<open>
  \<open>pkg/schema/cache.go\<close>: where fetched bodies are kept, how an entry is read, and how one is put in place so that
  no reader sees half of it. The digest of a URL and the coding of an entry are the standard library's, given
  by \<open>cc_digest\<close>, \<open>cc_decode\<close> and \<open>cc_encode\<close>; an operation of the file system that fails is named by \<open>cw_fails\<close>, and
  a failing write leaves \<open>cw_partial\<close> of what it was given. Theory \<open>Fetch\<close> uses the cache by URL.
\<close>

record cache_entry =
  ce_body :: "string option"
  ce_etag :: string

record cache_codec =
  cc_digest :: "string \<Rightarrow> string"
  cc_decode :: "string \<Rightarrow> cache_entry go_result"
  cc_encode :: "cache_entry \<Rightarrow> string go_result"

record disk_cache = dk_dir :: string

type_synonym cache_files = "string \<Rightarrow> string option"

definition cache_dir_name :: string where "cache_dir_name = ''otelcol-config-lint''"

definition cache_root :: "string \<Rightarrow> string go_result \<Rightarrow> string go_result" where
  "cache_root xdg user_cache_dir =
     (if xdg = [] then
        (case user_cache_dir of
           Inl e \<Rightarrow> Inl (''locate the cache directory: '' @ e) | Inr dir \<Rightarrow> Inr (path_join [dir, cache_dir_name]))
      else Inr (path_join [xdg, cache_dir_name]))"

definition store_cache :: "bool \<Rightarrow> string \<Rightarrow> string go_result \<Rightarrow> disk_cache option" where
  "store_cache no_cache dir root_dir =
     (if no_cache then None
      else if dir = [] then (case root_dir of Inl _ \<Rightarrow> None | Inr d \<Rightarrow> Some \<lparr>dk_dir = d\<rparr>)
      else Some \<lparr>dk_dir = dir\<rparr>)"

definition cache_path :: "cache_codec \<Rightarrow> disk_cache \<Rightarrow> string \<Rightarrow> string" where
  "cache_path cc c url = path_join [dk_dir c, cc_digest cc url @ ''.json'']"

definition cache_load :: "cache_codec \<Rightarrow> disk_cache \<Rightarrow> cache_files \<Rightarrow> string \<Rightarrow> (string \<times> string) option" where
  "cache_load cc c fs url =
     (case fs (cache_path cc c url) of
        None \<Rightarrow> None
      | Some content \<Rightarrow>
          (case cc_decode cc content of
             Inl _ \<Rightarrow> None
           | Inr entry \<Rightarrow> (case ce_body entry of None \<Rightarrow> None | Some body \<Rightarrow> Some (body, ce_etag entry))))"

subsection \<open>Putting an entry in place\<close>

datatype cache_op = MakeDir | CreateTemp | WriteTemp | CloseTemp | ChmodTemp | RenameTemp | RemoveTemp

record cache_world =
  cw_fails :: "cache_op \<Rightarrow> string option"
  cw_partial :: string
  cw_temp :: "string \<Rightarrow> string"

definition remove_temp :: "cache_world \<Rightarrow> string \<Rightarrow> cache_files \<Rightarrow> cache_files" where
  "remove_temp cw tmp fs = (if cw_fails cw RemoveTemp = None then fs(tmp := None) else fs)"

definition cache_write :: "cache_world \<Rightarrow> string \<Rightarrow> string \<Rightarrow> cache_files \<Rightarrow> string option \<times> cache_files" where
  "cache_write cw path content fs =
     (case cw_fails cw CreateTemp of
        Some e \<Rightarrow> (Some (''create a cache entry: '' @ e), fs)
      | None \<Rightarrow>
          let tmp = cw_temp cw path;
              err = cw_fails cw WriteTemp;
              fs = fs(tmp \<mapsto> if err = None then content else cw_partial cw);
              err = (if err = None then cw_fails cw CloseTemp else err);
              err = (if err = None then cw_fails cw ChmodTemp else err);
              err = (if err = None then cw_fails cw RenameTemp else err)
          in (case err of
                None \<Rightarrow> (None, fs(path := fs tmp, tmp := None))
              | Some e \<Rightarrow> (Some (''write a cache entry: '' @ e), remove_temp cw tmp fs)))"

definition save_entry :: "cache_codec \<Rightarrow> cache_world \<Rightarrow> disk_cache \<Rightarrow> string \<Rightarrow> string \<Rightarrow> string \<Rightarrow> cache_files \<Rightarrow> cache_files" where
  "save_entry cc cw c url body etag fs =
     (if cw_fails cw MakeDir \<noteq> None then fs
      else (case cc_encode cc \<lparr>ce_body = Some body, ce_etag = etag\<rparr> of
          Inl _ \<Rightarrow> fs
        | Inr content \<Rightarrow> snd (cache_write cw (cache_path cc c url) content fs)))"

text \<open>What a write leaves at the entry's own path: the new content when it succeeds, else what was there.\<close>

lemma cache_write_whole:
  assumes "cache_write cw path content fs = (r, fs')" "cw_temp cw path \<noteq> path"
  shows "fs' path = (if r = None then Some content else fs path) \<and>
    (\<forall>p. p \<noteq> path \<and> p \<noteq> cw_temp cw path \<longrightarrow> fs' p = fs p) \<and>
    (r = None \<longrightarrow> fs' (cw_temp cw path) = None)"
  using assms by (auto simp: cache_write_def remove_temp_def Let_def split: option.splits if_splits)

lemma save_then_load:
  assumes "cc_encode cc \<lparr>ce_body = Some body, ce_etag = etag\<rparr> = Inr content"
    and "cc_decode cc content = Inr \<lparr>ce_body = Some body, ce_etag = etag\<rparr>"
    and "cw_temp cw (cache_path cc c url) \<noteq> cache_path cc c url"
  shows "cache_load cc c (save_entry cc cw c url body etag fs) url =
    (if list_all (\<lambda>op. cw_fails cw op = None) [MakeDir, CreateTemp, WriteTemp, CloseTemp, ChmodTemp, RenameTemp]
     then Some (body, etag) else cache_load cc c fs url)"
proof -
  obtain r fs' where w: "cache_write cw (cache_path cc c url) content fs = (r, fs')" by fastforce
  have r: "r = None \<longleftrightarrow> list_all (\<lambda>op. cw_fails cw op = None) [CreateTemp, WriteTemp, CloseTemp, ChmodTemp, RenameTemp]"
    using w by (auto simp: cache_write_def Let_def split: option.splits if_splits)
  show ?thesis
    using cache_write_whole[OF w assms(3)] r assms w
    by (auto simp: save_entry_def cache_load_def split: option.splits)
qed

subsection \<open>Several processes\<close>

text \<open>
  Processes share the directory. A process that puts an entry in place takes the steps of \<open>write\<close> one at a time,
  any of them may fail, and it may be killed between two. \<open>TempFile\<close> gives a name no file has and no entry is
  kept under.
\<close>

record cache_writer =
  wr_path :: string
  wr_temp :: string
  wr_content :: string

datatype stage = Opening | Filling | Sealing | Renaming | Cleaning | Gone

record cache_state =
  cs_files :: cache_files
  cs_stages :: "stage list"

inductive cache_step :: "cache_writer list \<Rightarrow> cache_state \<Rightarrow> cache_state \<Rightarrow> bool" for ws where
  create: "cache_step ws \<lparr>cs_files = fs, cs_stages = ss\<rparr> \<lparr>cs_files = fs(wr_temp (ws ! i) \<mapsto> []), cs_stages = ss[i := Filling]\<rparr>"
    if "i < length ws" "ss ! i = Opening" "fs (wr_temp (ws ! i)) = None"
| write_some: "cache_step ws \<lparr>cs_files = fs, cs_stages = ss\<rparr> \<lparr>cs_files = fs(wr_temp (ws ! i) \<mapsto> some_part), cs_stages = ss\<rparr>"
    if "i < length ws" "ss ! i = Filling" "prefix some_part (wr_content (ws ! i))"
| write_all: "cache_step ws \<lparr>cs_files = fs, cs_stages = ss\<rparr>
      \<lparr>cs_files = fs(wr_temp (ws ! i) \<mapsto> wr_content (ws ! i)), cs_stages = ss[i := Sealing]\<rparr>"
    if "i < length ws" "ss ! i = Filling"
| seal: "cache_step ws \<lparr>cs_files = fs, cs_stages = ss\<rparr> \<lparr>cs_files = fs, cs_stages = ss[i := Renaming]\<rparr>"
    if "i < length ws" "ss ! i = Sealing"
| rename: "cache_step ws \<lparr>cs_files = fs, cs_stages = ss\<rparr>
      \<lparr>cs_files = fs(wr_path (ws ! i) := fs (wr_temp (ws ! i)), wr_temp (ws ! i) := None), cs_stages = ss[i := Gone]\<rparr>"
    if "i < length ws" "ss ! i = Renaming"
| fail: "cache_step ws \<lparr>cs_files = fs, cs_stages = ss\<rparr> \<lparr>cs_files = fs, cs_stages = ss[i := Cleaning]\<rparr>"
    if "i < length ws" "ss ! i \<in> {Filling, Sealing, Renaming}"
| clean: "cache_step ws \<lparr>cs_files = fs, cs_stages = ss\<rparr>
      \<lparr>cs_files = fs(wr_temp (ws ! i) := None), cs_stages = ss[i := Gone]\<rparr>"
    if "i < length ws" "ss ! i = Cleaning"
| killed: "cache_step ws \<lparr>cs_files = fs, cs_stages = ss\<rparr> \<lparr>cs_files = fs, cs_stages = ss[i := Gone]\<rparr>"
    if "i < length ws"

definition cache_steps :: "cache_writer list \<Rightarrow> cache_state \<Rightarrow> cache_state \<Rightarrow> bool" where
  "cache_steps ws = rtranclp (cache_step ws)"

definition start_writers :: "cache_writer list \<Rightarrow> cache_files \<Rightarrow> cache_state" where
  "start_writers ws fs = \<lparr>cs_files = fs, cs_stages = replicate (length ws) Opening\<rparr>"

definition temps_apart :: "cache_writer list \<Rightarrow> bool" where
  "temps_apart ws \<longleftrightarrow> distinct (map wr_temp ws) \<and> set (map wr_temp ws) \<inter> set (map wr_path ws) = {}"

text \<open>A temporary file past its writing holds the whole content; an entry is old, or the whole of a new one.\<close>

definition cache_ok :: "cache_writer list \<Rightarrow> cache_files \<Rightarrow> cache_state \<Rightarrow> bool" where
  "cache_ok ws fs0 st \<longleftrightarrow> length (cs_stages st) = length ws \<and>
     (\<forall>i < length ws. cs_stages st ! i \<in> {Sealing, Renaming} \<longrightarrow>
        cs_files st (wr_temp (ws ! i)) = Some (wr_content (ws ! i))) \<and>
     (\<forall>path. path \<notin> set (map wr_temp ws) \<longrightarrow>
        cs_files st path = fs0 path \<or> (\<exists>w \<in> set ws. wr_path w = path \<and> cs_files st path = Some (wr_content w)))"

lemma cache_ok_start: "cache_ok ws fs (start_writers ws fs)"
  by (simp add: cache_ok_def start_writers_def)

lemma temps_apart_nth:
  assumes "temps_apart ws" "i < length ws" "j < length ws"
  shows "wr_temp (ws ! i) = wr_temp (ws ! j) \<longleftrightarrow> i = j" "wr_path (ws ! i) \<noteq> wr_temp (ws ! j)"
    "wr_temp (ws ! j) \<noteq> wr_path (ws ! i)"
proof -
  show "wr_temp (ws ! i) = wr_temp (ws ! j) \<longleftrightarrow> i = j"
    using assms by (metis temps_apart_def length_map nth_eq_iff_index_eq nth_map)
  have "wr_path (ws ! i) \<in> set (map wr_path ws)" "wr_temp (ws ! j) \<in> set (map wr_temp ws)"
    using assms(2,3) by simp_all
  then show "wr_path (ws ! i) \<noteq> wr_temp (ws ! j)" "wr_temp (ws ! j) \<noteq> wr_path (ws ! i)"
    using assms(1) unfolding temps_apart_def by fastforce+
qed

lemma cache_step_ok:
  assumes "cache_step ws st st'" "cache_ok ws fs0 st" "temps_apart ws"
  shows "cache_ok ws fs0 st'"
  using assms
proof (induction rule: cache_step.induct)
  case (rename i ss fs)
  have mine: "wr_path (ws ! i) \<in> set (map wr_path ws)" "wr_temp (ws ! i) \<in> set (map wr_temp ws)"
    using rename.hyps(1) by simp_all
  then have apart: "wr_path (ws ! i) \<notin> set (map wr_temp ws)" "wr_temp (ws ! i) \<in> set (map wr_temp ws)"
    using rename.prems(2) unfolding temps_apart_def by blast+
  have whole: "fs (wr_temp (ws ! i)) = Some (wr_content (ws ! i))"
    using rename by (simp add: cache_ok_def)
  have mem: "ws ! i \<in> set ws" using rename.hyps(1) by simp
  show ?case
    using rename.prems(1) rename.hyps apart whole mem temps_apart_nth[OF rename.prems(2)]
    by (auto simp: cache_ok_def nth_list_update)
qed (auto simp: cache_ok_def nth_list_update temps_apart_nth)

text \<open>
  C40: whatever processes write to the cache at once, and wherever one of them fails or is killed, the file of
  an entry is at every moment what it was to begin with or the whole of what one of them meant to put there.
  No reader sees a part of an entry.
\<close>

theorem cache_entries_whole:
  assumes "cache_steps ws (start_writers ws fs) st" "temps_apart ws" "path \<notin> set (map wr_temp ws)"
  shows "cs_files st path = fs path \<or> (\<exists>w \<in> set ws. wr_path w = path \<and> cs_files st path = Some (wr_content w))"
proof -
  have "cache_ok ws fs st"
    using assms(1) unfolding cache_steps_def
    by (induction rule: rtranclp_induct) (auto intro: cache_ok_start cache_step_ok assms(2))
  then show ?thesis using assms(3) by (simp add: cache_ok_def)
qed

text \<open>A write that runs undisturbed is one of these runs, failing or not.\<close>

definition alone :: "string \<Rightarrow> string \<Rightarrow> string \<Rightarrow> cache_writer list" where
  "alone path tmp content = [\<lparr>wr_path = path, wr_temp = tmp, wr_content = content\<rparr>]"

lemma alone_steps:
  assumes "cache_step (alone path tmp content) st1 st2" "cache_steps (alone path tmp content) st2 st3"
  shows "cache_steps (alone path tmp content) st1 st3"
  using assms unfolding cache_steps_def by (rule converse_rtranclp_into_rtranclp)

lemma write_steps:
  "fs tmp = None \<Longrightarrow> cache_step (alone path tmp content) \<lparr>cs_files = fs, cs_stages = [Opening]\<rparr>
     \<lparr>cs_files = fs(tmp \<mapsto> []), cs_stages = [Filling]\<rparr>"
  "prefix some_part content \<Longrightarrow> cache_step (alone path tmp content) \<lparr>cs_files = fs, cs_stages = [Filling]\<rparr>
     \<lparr>cs_files = fs(tmp \<mapsto> some_part), cs_stages = [Filling]\<rparr>"
  "cache_step (alone path tmp content) \<lparr>cs_files = fs, cs_stages = [Filling]\<rparr>
     \<lparr>cs_files = fs(tmp \<mapsto> content), cs_stages = [Sealing]\<rparr>"
  "cache_step (alone path tmp content) \<lparr>cs_files = fs, cs_stages = [Sealing]\<rparr> \<lparr>cs_files = fs, cs_stages = [Renaming]\<rparr>"
  "cache_step (alone path tmp content) \<lparr>cs_files = fs, cs_stages = [Renaming]\<rparr>
     \<lparr>cs_files = fs(path := fs tmp, tmp := None), cs_stages = [Gone]\<rparr>"
  "s \<in> {Filling, Sealing, Renaming} \<Longrightarrow>
     cache_step (alone path tmp content) \<lparr>cs_files = fs, cs_stages = [s]\<rparr> \<lparr>cs_files = fs, cs_stages = [Cleaning]\<rparr>"
  "cache_step (alone path tmp content) \<lparr>cs_files = fs, cs_stages = [Cleaning]\<rparr>
     \<lparr>cs_files = fs(tmp := None), cs_stages = [Gone]\<rparr>"
  "cache_step (alone path tmp content) \<lparr>cs_files = fs, cs_stages = [s]\<rparr> \<lparr>cs_files = fs, cs_stages = [Gone]\<rparr>"
  using create[of 0 "alone path tmp content" "[Opening]" fs] write_some[of 0 "alone path tmp content" "[Filling]" some_part fs]
    write_all[of 0 "alone path tmp content" "[Filling]" fs] seal[of 0 "alone path tmp content" "[Sealing]" fs]
    rename[of 0 "alone path tmp content" "[Renaming]" fs] fail[of 0 "alone path tmp content" "[s]" fs]
    clean[of 0 "alone path tmp content" "[Cleaning]" fs] killed[of 0 "alone path tmp content" fs "[s]"]
  by (simp_all add: alone_def)

lemma cache_write_steps:
  assumes "cache_write cw path content fs = (r, fs')" "fs (cw_temp cw path) = None"
    and "prefix (cw_partial cw) content" "cw_temp cw path \<noteq> path"
  shows "cache_steps (alone path (cw_temp cw path) content) (start_writers (alone path (cw_temp cw path) content) fs)
    \<lparr>cs_files = fs', cs_stages = [Gone]\<rparr>"
proof -
  let ?tmp = "cw_temp cw path"
  let ?ws = "alone path ?tmp content"
  have start: "start_writers ?ws fs = \<lparr>cs_files = fs, cs_stages = [Opening]\<rparr>" by (simp add: start_writers_def alone_def)
  have refl: "cache_steps ?ws st st" for st by (simp add: cache_steps_def)
  have removed: "cache_steps ?ws \<lparr>cs_files = g, cs_stages = [s]\<rparr> \<lparr>cs_files = remove_temp cw ?tmp g, cs_stages = [Gone]\<rparr>"
    if "s \<in> {Filling, Sealing, Renaming}" for s g
    using alone_steps[OF write_steps(6)[OF that] alone_steps[OF write_steps(7) refl]]
      alone_steps[OF write_steps(8) refl] by (simp add: remove_temp_def)
  have filled: "cache_steps ?ws \<lparr>cs_files = fs, cs_stages = [Opening]\<rparr> st"
    if "cache_steps ?ws \<lparr>cs_files = fs(?tmp \<mapsto> content), cs_stages = [Sealing]\<rparr> st" for st
    using alone_steps[OF write_steps(1)[of fs ?tmp path content, OF assms(2)] alone_steps[OF write_steps(3)]] that by simp
  consider (refused) e where "cw_fails cw CreateTemp = Some e" "fs' = fs"
    | (partly) e where "cw_fails cw WriteTemp = Some e" "fs' = remove_temp cw ?tmp (fs(?tmp \<mapsto> cw_partial cw))"
    | (unsealed) "fs' = remove_temp cw ?tmp (fs(?tmp \<mapsto> content))"
    | (moved) "fs' = (fs(?tmp \<mapsto> content))(path := Some content, ?tmp := None)"
    using assms(1) by (simp add: cache_write_def Let_def split: option.splits if_splits)
  then show ?thesis
  proof cases
    case refused
    then show ?thesis using alone_steps[OF write_steps(8) refl] by (simp add: start)
  next
    case partly
    show ?thesis
      using alone_steps[OF write_steps(1)[of fs ?tmp path content, OF assms(2)] alone_steps[OF write_steps(2)[OF assms(3)] removed[of Filling]]]
      by (simp add: start partly(2))
  next
    case unsealed
    show ?thesis using filled[OF removed[of Sealing]] by (simp add: start unsealed)
  next
    case moved
    show ?thesis
      using filled[OF alone_steps[OF write_steps(4) alone_steps[OF write_steps(5) refl]]] assms(4) by (simp add: start moved)
  qed
qed

lemma cache_entries_whole_witness:
  "\<exists>st. cache_steps (alone ''e.json'' ''e.tmp'' ''new'') (start_writers (alone ''e.json'' ''e.tmp'' ''new'') [''e.json'' \<mapsto> ''old'']) st \<and>
     cs_stages st = [Gone] \<and> cs_files st ''e.json'' \<in> {Some ''old'', Some ''new''}"
proof -
  let ?cw = "\<lparr>cw_fails = (\<lambda>op. if op = RenameTemp then Some ''denied'' else None), cw_partial = [], cw_temp = (\<lambda>_. ''e.tmp'')\<rparr>"
  obtain r fs' where w: "cache_write ?cw ''e.json'' ''new'' [''e.json'' \<mapsto> ''old''] = (r, fs')" by fastforce
  have steps: "cache_steps (alone ''e.json'' ''e.tmp'' ''new'')
      (start_writers (alone ''e.json'' ''e.tmp'' ''new'') [''e.json'' \<mapsto> ''old'']) \<lparr>cs_files = fs', cs_stages = [Gone]\<rparr>"
    using cache_write_steps[OF w] by simp
  have "temps_apart (alone ''e.json'' ''e.tmp'' ''new'')" "''e.json'' \<notin> set (map wr_temp (alone ''e.json'' ''e.tmp'' ''new''))"
    by (simp_all add: alone_def temps_apart_def)
  from cache_entries_whole [OF steps this] steps show ?thesis by (auto simp: alone_def)
qed

end
