(* ===== verification/Listing.thy ===== *)
theory Listing
  imports Run
begin

section \<open>Listings and the version\<close>

text \<open>
  \<open>pkg/cmd/otelcol-config-lint/list\<close> and \<open>pkg/version\<close>: the rules a run would run and at what level, the releases
  there are schemas for, and the version of the linter itself. What is printed is kept as its rows of cells;
  \<open>text/tabwriter\<close> aligns them. The texts of errors are those of the errors' own types, given by \<open>say\<close>.
\<close>

subsection \<open>list rules\<close>

record rules_options =
  lo_default :: string
  lo_enable :: "string list"
  lo_disable :: "string list"
  lo_severity :: "string list"

definition prepare_rule_list :: "run_world \<Rightarrow> global_options \<Rightarrow> rules_options \<Rightarrow> (resolved \<times> string list) go_result" where
  "prepare_rule_list rw g opts =
     (case prepare_global (rw_settings rw) g of
        Inl e \<Rightarrow> Inl e
      | Inr (g, err) \<Rightarrow>
          (case resolve_selection (rw_lib rw) (rule_selection (sg_rules (the (gl_file g)))
              \<lparr>sl_default = lo_default opts, sl_enable = lo_enable opts, sl_disable = lo_disable opts,
               sl_severity = lo_severity opts, sl_settings = []\<rparr>) of
             Inl e \<Rightarrow> Inl e
           | Inr r \<Rightarrow> Inr (r, err)))"

definition rule_row :: "levels \<Rightarrow> rule \<Rightarrow> string list" where
  "rule_row severities r =
     (case (case severities (ru_name r) of
              Some s \<Rightarrow> if s \<noteq> ru_severity r then (s, '' (overridden)'') else (ru_severity r, [])
            | None \<Rightarrow> (ru_severity r, [])) of
        (sev, remark) \<Rightarrow> [ru_name r, severity_string sev @ remark, ru_desc r])"

definition rule_rows :: "resolved \<Rightarrow> string list list" where
  "rule_rows r = map (rule_row (rv_severities r)) (rv_rules r)"

subsection \<open>list versions\<close>

record versions_options =
  vo_distribution :: string
  vo_locations :: "string list"
  vo_insecure :: bool
  vo_no_cache :: bool

definition prepare_version_list :: "run_world \<Rightarrow> (string \<Rightarrow> bool) \<Rightarrow> global_options \<Rightarrow> versions_options \<Rightarrow>
    (store \<times> string list) go_result" where
  "prepare_version_list rw changed g opts =
     (case prepare_global (rw_settings rw) g of
        Inl e \<Rightarrow> Inl e
      | Inr (g, err) \<Rightarrow>
          let run = sg_run (the (gl_file g));
              s = \<lparr>so_locations = fold_list changed ''schema-location'' (vo_locations opts) (rk_locations run),
                 so_distribution = fold_str changed ''distribution'' (vo_distribution opts) (rk_distribution run),
                 so_fetcher = (rw_fetcher rw)\<lparr>
                   ft_insecure := fold_bool changed ''insecure-schema-location'' (vo_insecure opts) (rk_insecure run),
                   ft_no_cache := fold_bool changed ''no-cache'' (vo_no_cache opts) (rk_no_cache run)\<rparr>,
                 so_own_client = False, so_own_fs = rw_own_fs rw\<rparr>
          in (case store_validate s of
                Some loc \<Rightarrow> Inl (refused_location loc)
              | None \<Rightarrow> Inr (s, err)))"

fun version_rows :: "world \<Rightarrow> store \<Rightarrow> (store_error \<Rightarrow> string) \<Rightarrow> nat \<Rightarrow> string list \<Rightarrow> store_state \<Rightarrow>
    string list list \<times> store_state" where
  "version_rows w s say i [] st = ([], st)"
| "version_rows w s say i (v # vs) st =
     (case store_load w s v st of
        (r, st) \<Rightarrow>
          (case version_rows w s say (i + 1) vs st of
             (rows, st) \<Rightarrow>
               ((case r of
                   Inl e \<Rightarrow> [v, ''unreadable: '' @ say e, []]
                 | Inr c \<Rightarrow>
                     [v, itoa (int (schema_count c)) @ '' components'',
                      sch_distribution c @ '' '' @ (if i = 0 then ''(latest)'' else [])]) # rows, st)))"

definition list_versions :: "world \<Rightarrow> store \<Rightarrow> (store_error \<Rightarrow> string) \<Rightarrow> store_state \<Rightarrow>
    string list list go_result \<times> store_state" where
  "list_versions w s say st =
     (case store_versions w s st of
        (versions, st) \<Rightarrow>
          if length versions = 0 then (Inl ''no schemas available'', st)
          else (case version_rows w s say 0 versions st of (rows, st) \<Rightarrow> (Inr rows, st)))"

lemma version_rows_names: "map hd (fst (version_rows w s say i vs st)) = vs"
  by (induction vs arbitrary: i st) (simp_all add: case_prod_unfold split: sum.split)

lemma list_versions_newest_first:
  assumes "fst (list_versions w s say st) = Inr rows"
  shows "map hd rows = fst (store_versions w s st) \<and> rows \<noteq> []"
  using assms version_rows_names[of w s say 0 "fst (store_versions w s st)" "snd (store_versions w s st)"]
  by (auto simp: list_versions_def split: prod.splits if_splits)

subsection \<open>version.go\<close>

definition devel :: string where "devel = ''devel''"

definition read_vcs :: "(string \<times> string) list \<Rightarrow> string \<times> bool" where
  "read_vcs stamps =
     foldl (\<lambda>(revision, modified) (key, v).
       if key = ''vcs.revision'' then (v, modified)
       else if key = ''vcs.modified'' then (revision, v = ''true'')
       else (revision, modified)) ([], False) stamps"

text \<open>\<open>pseudoVersionRE\<close>: where it matches from the left, the commit it captures.\<close>

definition build_char :: "char \<Rightarrow> bool" where
  "build_char c \<longleftrightarrow> is_digit c \<or> CHR ''A'' \<le> c \<and> c \<le> CHR ''Z'' \<or> CHR ''a'' \<le> c \<and> c \<le> CHR ''z'' \<or> c = CHR ''.'' \<or> c = CHR ''-''"

definition hex_char :: "char \<Rightarrow> bool" where
  "hex_char c \<longleftrightarrow> is_digit c \<or> c \<in> set ''abcdef''"

definition pseudo_here :: "string \<Rightarrow> string option" where
  "pseudo_here s =
     (let stamp = take 14 (drop 1 s); commit = take 12 (drop 16 s); rest = drop 28 s in
      if 28 \<le> length s \<and> (s ! 0 = CHR ''-'' \<or> s ! 0 = CHR ''.'') \<and> list_all is_digit stamp \<and> s ! 15 = CHR ''-'' \<and>
         list_all hex_char commit \<and>
         (rest = [] \<or> hd rest = CHR ''+'' \<and> tl rest \<noteq> [] \<and> list_all build_char (tl rest))
      then Some commit else None)"

fun pseudo_commit :: "string \<Rightarrow> string option" where
  "pseudo_commit [] = None"
| "pseudo_commit (c # cs) = (case pseudo_here (c # cs) of Some commit \<Rightarrow> Some commit | None \<Rightarrow> pseudo_commit cs)"

definition derived_from :: "string \<Rightarrow> string \<Rightarrow> bool" where
  "derived_from module_version revision \<longleftrightarrow>
     \<not> length revision < 12 \<and> pseudo_commit module_version = Some (take 12 revision)"

definition render_version :: "string \<Rightarrow> string \<Rightarrow> bool \<Rightarrow> string" where
  "render_version module_version revision modified =
     (if module_version \<noteq> [] \<and> module_version \<noteq> ''(devel)'' \<and> \<not> derived_from module_version revision then module_version
      else if revision = [] then devel
      else (let short = (if 7 < length revision then take 7 revision else revision) in
        if modified then short @ ''-dirty'' else short))"

definition tool_version :: "(string \<times> (string \<times> string) list) option \<Rightarrow> string" where
  "tool_version build_info =
     (case build_info of
        None \<Rightarrow> devel
      | Some (module_version, stamps) \<Rightarrow>
          (case read_vcs stamps of (revision, modified) \<Rightarrow> render_version module_version revision modified))"

text \<open>A tag is reported as it is, and a version the toolchain derived from the commit as the commit.\<close>

lemma render_version_cases:
  "render_version v revision modified = v \<or>
   render_version v revision modified = devel \<and> revision = [] \<or>
   (v = [] \<or> v = ''(devel)'' \<or> derived_from v revision) \<and>
     prefix (take 7 revision) (render_version v revision modified)"
  by (auto simp: render_version_def Let_def prefix_def)

end
