(* ===== verification/Manifest.thy ===== *)
theory Manifest
  imports Settings
begin

section \<open>Builder manifests\<close>

text \<open>
  \<open>pkg/cmd/schemagen/builder.go\<close>: the manifest of a distribution, the release it resolves to, the components
  it declares, and which names may become paths of a registry. The two regular expressions are written as
  the recognisers they denote; \<open>yaml.Unmarshal\<close> is a parameter. \<open>absolutePath\<close> asks for the working directory,
  which is the other one.
\<close>

record manifest_component =
  mc_gomod :: string
  mc_name :: string

record manifest =
  mf_module :: string
  mf_name :: string
  mf_version :: string
  mf_otelcol :: string
  mf_output :: string
  mf_receivers :: "manifest_component list"
  mf_processors :: "manifest_component list"
  mf_exporters :: "manifest_component list"
  mf_extensions :: "manifest_component list"
  mf_connectors :: "manifest_component list"
  mf_replaces :: "string list"
  mf_dir :: string

text \<open>A requirement has no kind: that of \<open>requires\<close> is empty.\<close>

record declared_component =
  dc_kind :: "kind option"
  dc_module :: string
  dc_version :: string
  dc_name :: string

subsection \<open>Names that become paths\<close>

definition name_start :: "char \<Rightarrow> bool" where
  "name_start c \<longleftrightarrow> c \<in> set ''ABCDEFGHIJKLMNOPQRSTUVWXYZabcdefghijklmnopqrstuvwxyz0123456789_''"

definition name_char :: "char \<Rightarrow> bool" where
  "name_char c \<longleftrightarrow> name_start c \<or> c = CHR ''.'' \<or> c = CHR ''-''"

definition name_end :: "char \<Rightarrow> bool" where
  "name_end c \<longleftrightarrow> name_start c \<or> c = CHR ''-''"

definition distribution_pattern :: "string \<Rightarrow> bool" where
  "distribution_pattern s \<longleftrightarrow>
     (case s of
        [] \<Rightarrow> False
      | c # cs \<Rightarrow> name_start c \<and> (cs = [] \<or> list_all name_char (butlast cs) \<and> name_end (last cs)))"

definition ident_chars :: "string \<Rightarrow> bool" where
  "ident_chars s \<longleftrightarrow> s \<noteq> [] \<and> list_all (\<lambda>c. name_end c \<and> c \<noteq> CHR ''_'') s"

definition version_number :: "string \<Rightarrow> bool" where
  "version_number s \<longleftrightarrow> s \<noteq> [] \<and> list_all is_digit s \<and> (hd s = CHR ''0'' \<longrightarrow> s = ''0'')"

definition prerelease_identifier :: "string \<Rightarrow> bool" where
  "prerelease_identifier s \<longleftrightarrow> version_number s \<or> ident_chars s \<and> \<not> list_all is_digit s"

text \<open>
  A plus sign starts the build metadata and a hyphen before it the prerelease: neither occurs earlier.
\<close>

definition version_pattern :: "string \<Rightarrow> bool" where
  "version_pattern s \<longleftrightarrow>
     (case cut s ''+'' of (rest, build, has_build) \<Rightarrow>
        (case cut rest ''-'' of (core, pre, has_pre) \<Rightarrow>
           (\<not> has_build \<or> list_all ident_chars (split_on (CHR ''.'') build)) \<and>
           (\<not> has_pre \<or> list_all prerelease_identifier (split_on (CHR ''.'') pre)) \<and>
           (case cut_prefix core ''v'' of
              None \<Rightarrow> False
            | Some numbers \<Rightarrow>
                length (split_on (CHR ''.'') numbers) = 3 \<and> list_all version_number (split_on (CHR ''.'') numbers))))"

text \<open>\<open>filepath.IsLocal\<close> on Unix.\<close>

definition path_is_local :: "string \<Rightarrow> bool" where
  "path_is_local p \<longleftrightarrow>
     (if path_is_abs p \<or> p = [] then False
      else (let p = (if list_ex (\<lambda>part. part = ''.'' \<or> part = ''..'') (split_on slash p) then path_clean p else p)
            in \<not> (p = ''..'' \<or> has_prefix p ''../'')))"

definition validate_distribution :: "string \<Rightarrow> string option" where
  "validate_distribution name =
     (if \<not> distribution_pattern name \<or> \<not> path_is_local name then
        Some (''invalid distribution name '' @ go_quote name @
              '': use a single name containing letters, digits, dots, underscores or hyphens'')
      else None)"

definition validate_version :: "string \<Rightarrow> string option" where
  "validate_version version =
     (if \<not> version_pattern (normalize version) then
        Some (''invalid collector version '' @ go_quote version @
              '': expected X.Y.Z with optional prerelease and build metadata'')
      else None)"

definition validate_destination :: "string \<Rightarrow> string \<Rightarrow> string option" where
  "validate_destination name version =
     (case validate_distribution name of Some e \<Rightarrow> Some e | None \<Rightarrow> validate_version version)"

subsection \<open>Components and the release\<close>

definition split_go_mod :: "string \<Rightarrow> (string \<times> string) go_result" where
  "split_go_mod gomod =
     (case cut (trim_space gomod) '' '' of (m, version, found) \<Rightarrow>
        if \<not> found \<or> m = [] \<or> version = [] then
          Inl (''gomod '' @ go_quote gomod @ '' is not in \"module version\" form'')
        else Inr (m, trim_space version))"

definition manifest_sections :: "manifest \<Rightarrow> (kind \<times> manifest_component list) list" where
  "manifest_sections m =
     [(Receiver, mf_receivers m), (Processor, mf_processors m), (Exporter, mf_exporters m),
      (Extension, mf_extensions m), (Connector, mf_connectors m)]"

fun declared_in :: "kind \<Rightarrow> manifest_component list \<Rightarrow> declared_component list" where
  "declared_in k [] = []"
| "declared_in k (entry # rest) =
     (case split_go_mod (mc_gomod entry) of
        Inl _ \<Rightarrow> declared_in k rest
      | Inr (path, version) \<Rightarrow>
          \<lparr>dc_kind = Some k, dc_module = path, dc_version = version, dc_name = mc_name entry\<rparr> # declared_in k rest)"

definition manifest_components :: "manifest \<Rightarrow> declared_component list" where
  "manifest_components m = concat (map (\<lambda>(k, es). declared_in k es) (manifest_sections m))"

definition raw_go_mods :: "manifest \<Rightarrow> string list" where
  "raw_go_mods m = concat (map (\<lambda>(k, es). map mc_gomod es) (manifest_sections m))"

fun requires_loop :: "string list \<Rightarrow> declared_component list go_result" where
  "requires_loop [] = Inr []"
| "requires_loop (entry # rest) =
     (case split_go_mod entry of
        Inl e \<Rightarrow> Inl e
      | Inr (path, version) \<Rightarrow>
          (case requires_loop rest of
             Inl e \<Rightarrow> Inl e
           | Inr out \<Rightarrow> Inr (\<lparr>dc_kind = None, dc_module = path, dc_version = version, dc_name = []\<rparr> # out)))"

definition manifest_requires :: "manifest \<Rightarrow> declared_component list go_result" where
  "manifest_requires m = requires_loop (raw_go_mods m)"

definition core_module_root :: string where
  "core_module_root = ''go.opentelemetry.io/collector''"

definition core_pin :: "declared_component \<Rightarrow> bool" where
  "core_pin d \<longleftrightarrow> has_prefix (dc_module d) (core_module_root @ ''/'') \<and> has_prefix (dc_version d) ''v0.''"

text \<open>The loop of \<open>pinnedVersion\<close>: the counts, and the best version with its count.\<close>

definition pin_step :: "(string \<Rightarrow> nat) \<times> string \<times> nat \<Rightarrow> declared_component \<Rightarrow> (string \<Rightarrow> nat) \<times> string \<times> nat" where
  "pin_step st d =
     (case st of (counts, best, seen) \<Rightarrow>
        if \<not> core_pin d then st
        else (let counts = counts(dc_version d := counts (dc_version d) + 1) in
              if seen < counts (dc_version d) then (counts, dc_version d, counts (dc_version d))
              else (counts, best, seen)))"

definition pinned_version :: "manifest \<Rightarrow> string" where
  "pinned_version m = fst (snd (foldl pin_step (\<lambda>_. 0, [], 0) (manifest_components m)))"

definition collector_version :: "manifest \<Rightarrow> string" where
  "collector_version m =
     (if mf_otelcol m \<noteq> [] then normalize (mf_otelcol m)
      else if pinned_version m \<noteq> [] then normalize (pinned_version m)
      else normalize (mf_version m))"

text \<open>The type a declared component has, \<open>path.Base\<close> of its module without the kind.\<close>

definition type_name :: "declared_component \<Rightarrow> string" where
  "type_name d =
     (if dc_name d \<noteq> [] then dc_name d
      else (let base = path_base (dc_module d);
                k = (case dc_kind d of None \<Rightarrow> [] | Some k \<Rightarrow> kind_string k)
            in (case cut_suffix base k of None \<Rightarrow> base | Some s \<Rightarrow> s)))"

subsection \<open>Reading a manifest\<close>

definition split_builder :: "string \<Rightarrow> string \<times> string" where
  "split_builder value =
     (case cut value ''='' of (name, path, found) \<Rightarrow>
        if \<not> found then ([], value) else (trim_space name, trim_space path))"

definition read_manifest :: "(string \<Rightarrow> string go_result) \<Rightarrow> (string \<Rightarrow> manifest go_result) \<Rightarrow> string \<Rightarrow> string \<Rightarrow>
    manifest go_result" where
  "read_manifest file unmarshal path name =
     (case file path of
        Inl e \<Rightarrow> Inl (''read manifest: '' @ e)
      | Inr raw \<Rightarrow>
          (case unmarshal raw of
             Inl e \<Rightarrow> Inl (path @ '': '' @ e)
           | Inr m \<Rightarrow>
               let m = (if name \<noteq> [] then m\<lparr>mf_name := name\<rparr> else m) in
               if mf_name m = [] then Inl (path @ '': dist.name is required'')
               else if collector_version m = [] then
                 Inl (path @ '': dist.otelcol_version or dist.version is required'')
               else (case validate_distribution (mf_name m) of
                   Some e \<Rightarrow> Inl (path @ '': '' @ e)
                 | None \<Rightarrow>
                     (case List.map_filter (\<lambda>v. if v = [] then None else validate_version v)
                         [mf_version m, mf_otelcol m, collector_version m] of
                        e # _ \<Rightarrow> Inl (path @ '': '' @ e)
                      | [] \<Rightarrow>
                          if length (manifest_components m) = 0 then Inl (path @ '': declares no components'')
                          else Inr (m\<lparr>mf_dir := path_dir path\<rparr>)))))"

definition is_local_path :: "string \<Rightarrow> bool" where
  "is_local_path target \<longleftrightarrow> has_prefix target ''./'' \<or> has_prefix target ''../'' \<or> has_prefix target ''/'' \<or> path_is_abs target"

definition absolute_path :: "string go_result \<Rightarrow> string \<Rightarrow> string" where
  "absolute_path getwd path =
     (if path_is_abs path then path_clean path
      else (case getwd of Inl _ \<Rightarrow> path | Inr dir \<Rightarrow> path_join [dir, path]))"

definition replace_base :: "manifest \<Rightarrow> string" where
  "replace_base m =
     (if mf_output m = [] then mf_dir m
      else if path_is_abs (mf_output m) then mf_output m
      else path_join [mf_dir m, mf_output m])"

definition replacement :: "string go_result \<Rightarrow> manifest \<Rightarrow> string \<Rightarrow> string" where
  "replacement getwd m replace =
     (case cut replace ''=>'' of (old, target, found) \<Rightarrow>
        if \<not> found then trim_space replace
        else (let target = trim_space target;
                  target = (if is_local_path target \<and> \<not> path_is_abs target
                    then absolute_path getwd (path_join [replace_base m, target]) else target)
              in trim_space old @ '' => '' @ target))"

definition replacements :: "string go_result \<Rightarrow> manifest \<Rightarrow> string list" where
  "replacements getwd m = map (replacement getwd m) (mf_replaces m)"

subsection \<open>A validated destination stays inside the registry\<close>

lemma name_start_slash: "\<not> name_start slash" "\<not> name_start (CHR ''.'')"
  by (simp_all add: name_start_def)

lemma distribution_pattern_clean:
  assumes "distribution_pattern s"
  shows "slash \<notin> set s" "s \<noteq> []" "hd s \<noteq> CHR ''.''" "last s \<noteq> CHR ''.''"
proof -
  obtain c cs where s: "s = c # cs" "name_start c" "cs = [] \<or> list_all name_char (butlast cs) \<and> name_end (last cs)"
    using assms by (cases s) (auto simp: distribution_pattern_def)
  show "s \<noteq> []" "hd s \<noteq> CHR ''.''" using s name_start_slash by auto
  show "last s \<noteq> CHR ''.''" using s name_start_slash by (auto simp: name_end_def)
  have "set cs \<subseteq> insert (last cs) (set (butlast cs))" by (cases cs rule: rev_cases) auto
  then show "slash \<notin> set s"
    using s name_start_slash by (auto simp: list_all_iff name_char_def name_end_def)
qed

lemma cut_pieces:
  "cut s [c] = (a, b, found) \<Longrightarrow> set s \<subseteq> insert c (set a \<union> set b)"
proof (induction s arbitrary: a b found)
  case (Cons x xs)
  then show ?case by (cases "x = c") (auto split: prod.splits)
qed simp

lemma split_on_set: "set s \<subseteq> insert d (\<Union> (set ` set (split_on d s)))"
proof (induction s)
  case (Cons c cs)
  then show ?case using split_on_nonempty [of d cs] by (cases "split_on d cs") auto
qed simp

lemma ident_chars_slash: "ident_chars s \<Longrightarrow> slash \<notin> set s"
  using name_start_slash by (auto simp: ident_chars_def list_all_iff name_end_def)

lemma digits_slash: "list_all is_digit s \<Longrightarrow> slash \<notin> set s"
  by (auto simp: list_all_iff is_digit_def)

lemma identifiers_slash:
  assumes "list_all P (split_on (CHR ''.'') s)" "\<And>x. P x \<Longrightarrow> slash \<notin> set x"
  shows "slash \<notin> set s"
  using split_on_set [of s "CHR ''.''"] assms by (auto simp: list_all_iff)

lemma version_pattern_clean:
  assumes "version_pattern s"
  shows "slash \<notin> set s" "hd s = CHR ''v''"
proof -
  obtain rest build hb where b: "cut s ''+'' = (rest, build, hb)" by (metis prod_cases3)
  obtain core pre hp where p: "cut rest ''-'' = (core, pre, hp)" by (metis prod_cases3)
  have v: "\<not> hb \<or> list_all ident_chars (split_on (CHR ''.'') build)"
    "\<not> hp \<or> list_all prerelease_identifier (split_on (CHR ''.'') pre)"
    and core: "\<exists>numbers. cut_prefix core ''v'' = Some numbers \<and> list_all version_number (split_on (CHR ''.'') numbers)"
    using assms by (auto simp: version_pattern_def b p split: option.splits)
  have none: "cut s [c] = (a, x, False) \<Longrightarrow> x = []" for s a x c
    by (induction s arbitrary: a) (auto split: if_splits prod.splits)
  have pre_clean: "prerelease_identifier x \<Longrightarrow> slash \<notin> set x" for x
    using ident_chars_slash digits_slash by (auto simp: prerelease_identifier_def version_number_def)
  have "slash \<notin> set build"
    using v(1) identifiers_slash [of ident_chars build] ident_chars_slash none [of s "CHR ''+''" rest build] b by (cases hb) auto
  moreover have "slash \<notin> set pre"
    using v(2) identifiers_slash [of prerelease_identifier pre] pre_clean none [of rest "CHR ''-''" core pre] p by (cases hp) auto
  moreover obtain numbers where n: "core = CHR ''v'' # numbers" "list_all version_number (split_on (CHR ''.'') numbers)"
    using core by (auto simp: cut_prefix_def prefix_def split: if_splits)
  then have "slash \<notin> set core"
    using identifiers_slash [of version_number numbers] digits_slash by (auto simp: version_number_def)
  ultimately show "slash \<notin> set s"
    using cut_pieces [OF b] cut_pieces [OF p] by auto
  have head: "cut s [c] = (x # xs, y, f) \<Longrightarrow> hd s = x" for s c x xs y f
    by (cases s) (auto split: if_splits prod.splits)
  show "hd s = CHR ''v''"
    using head [of s "CHR ''+''" "CHR ''v''"] head [of rest "CHR ''-''" "CHR ''v''"] b p n(1)
    by (metis (no_types, lifting) cut.simps(1) list.collapse list.distinct(1) prod.inject)
qed

lemma split_on_single: "d \<notin> set s \<Longrightarrow> split_on d s = [s]"
  by (induction s) auto

lemma split_on_first: "d \<notin> set a \<Longrightarrow> split_on d (a @ d # b) = a # split_on d b"
  by (induction a) auto

text \<open>
  C33: a distribution name and a collector version that pass the checks name a file exactly two levels below the
  registry: joining them cleans nothing away, neither is empty, a dot name or holds a separator, so no
  manifest writes anywhere else.
\<close>

theorem destination_confined:
  assumes "validate_destination name version = None" "slash \<notin> set ext"
  shows "path_join [name, normalize version @ ''.'' @ ext] = name @ [slash] @ normalize version @ ''.'' @ ext \<and>
    split_on slash (path_join [name, normalize version @ ''.'' @ ext]) = [name, normalize version @ ''.'' @ ext] \<and>
    name \<notin> {[], ''.'', ''..''}"
proof -
  let ?file = "normalize version @ ''.'' @ ext"
  have d: "distribution_pattern name" and v: "version_pattern (normalize version)"
    using assms(1) by (auto simp: validate_destination_def validate_distribution_def validate_version_def split: if_splits)
  have name: "slash \<notin> set name" "name \<noteq> []" "name \<noteq> ''.''" "name \<noteq> ''..''" "hd name \<noteq> slash"
    using distribution_pattern_clean [OF d] by (auto dest: hd_in_set)
  have whole: "slash \<notin> set ?file" using version_pattern_clean(1) [OF v] assms(2) by auto
  have v1: "normalize version \<noteq> []" using v by (auto simp: version_pattern_def cut_prefix_def prefix_def)
  have "hd ?file = CHR ''v''" using version_pattern_clean(2) [OF v] v1 by simp
  then have dots: "?file \<noteq> []" "?file \<noteq> ''.''" "?file \<noteq> ''..''" by auto
  have parts: "split_on slash (name @ [slash] @ ?file) = [name, ?file]"
    using split_on_first [OF name(1), of ?file] split_on_single [OF whole] by simp
  have "path_clean (name @ [slash] @ ?file) = name @ [slash] @ ?file"
    unfolding path_clean_def parts using name dots by (simp add: clean_step_def Let_def)
  then have "path_join [name, ?file] = name @ [slash] @ ?file" using name(2) by (simp add: path_join_def)
  then show ?thesis using parts name by simp
qed

lemma destination_confined_witness:
  "path_join [''core'', ''v0.150.0-rc.1'' @ ''.'' @ ''json''] = ''core/v0.150.0-rc.1.json'' \<and>
   validate_destination ''../core'' ''0.150.0'' \<noteq> None \<and> validate_destination ''core'' ''../0.1.0'' \<noteq> None"
proof -
  have "validate_destination ''core'' ''0.150.0-rc.1'' = None" by code_simp
  moreover have "normalize ''0.150.0-rc.1'' = ''v0.150.0-rc.1''" by code_simp
  moreover have "validate_destination ''../core'' ''0.150.0'' \<noteq> None" "validate_destination ''core'' ''../0.1.0'' \<noteq> None"
    by code_simp+
  ultimately show ?thesis using destination_confined [of "''core''" "''0.150.0-rc.1''" "''json''"] by simp
qed

subsection \<open>The release the components are pinned at\<close>

definition pins :: "declared_component list \<Rightarrow> string list" where
  "pins ds = map dc_version (filter core_pin ds)"

lemma pin_step_pin:
  "core_pin d \<Longrightarrow> pin_step (counts, best, seen) d =
     (if seen < counts (dc_version d) + 1
      then (counts(dc_version d := counts (dc_version d) + 1), dc_version d, counts (dc_version d) + 1)
      else (counts(dc_version d := counts (dc_version d) + 1), best, seen))"
  by (simp add: pin_step_def Let_def)

lemma pin_steps:
  "\<exists>best. foldl pin_step (\<lambda>_. 0, [], 0) ds = (count_list (pins ds), best, count_list (pins ds) best) \<and>
     (pins ds = [] \<and> best = [] \<or> best \<in> set (pins ds)) \<and>
     (\<forall>v. count_list (pins ds) v \<le> count_list (pins ds) best)"
proof (induction ds rule: rev_induct)
  case Nil
  have "count_list [] = (\<lambda>_ :: string. 0)" by (rule ext) simp
  then show ?case by (simp add: pins_def)
next
  case (snoc d ds)
  then obtain best where b: "foldl pin_step (\<lambda>_. 0, [], 0) ds = (count_list (pins ds), best, count_list (pins ds) best)"
    "pins ds = [] \<and> best = [] \<or> best \<in> set (pins ds)" "\<forall>v. count_list (pins ds) v \<le> count_list (pins ds) best"
    by blast
  show ?case
  proof (cases "core_pin d")
    case False
    then have "pins (ds @ [d]) = pins ds" "pin_step st d = st" for st
      by (simp_all add: pins_def pin_step_def split: prod.split)
    then show ?thesis using b by (intro exI [of _ best]) simp
  next
    case True
    have p: "pins (ds @ [d]) = pins ds @ [dc_version d]" using True by (simp add: pins_def)
    have c: "count_list (pins (ds @ [d])) = (count_list (pins ds))(dc_version d := count_list (pins ds) (dc_version d) + 1)"
      by (rule ext) (simp add: p)
    have ps: "set (pins (ds @ [d])) = insert (dc_version d) (set (pins ds))" "pins (ds @ [d]) \<noteq> []"
      by (simp_all add: p)
    have step: "foldl pin_step (\<lambda>_. 0, [], 0) (ds @ [d]) = pin_step (count_list (pins ds), best, count_list (pins ds) best) d"
      by (simp only: foldl_append foldl.simps b(1))
    show ?thesis
    proof (cases "count_list (pins ds) best < count_list (pins ds) (dc_version d) + 1")
      case more: True
      have "count_list (pins ds) v \<le> Suc (count_list (pins ds) (dc_version d))" for v
        using spec [OF b(3), of v] more by linarith
      then show ?thesis
        unfolding step c
        using more \<open>core_pin d\<close>
        by (intro exI [of _ "dc_version d"]) (auto simp: pin_step_pin ps)
    next
      case False
      then have "best \<noteq> dc_version d" "best \<in> set (pins ds)"
        using b(2) by (auto simp: pins_def)
      then show ?thesis
        unfolding step c
        using b(3) False \<open>core_pin d\<close> by (intro exI [of _ best]) (auto simp: pin_step_pin ps)
    qed
  qed
qed

text \<open>
  The release of a manifest that does not state one is a version the collector's own components are pinned at,
  and no other is pinned more often.
\<close>

lemma pinned_version_majority:
  assumes "pins (manifest_components m) \<noteq> []"
  shows "pinned_version m \<in> set (pins (manifest_components m)) \<and>
    (\<forall>v. count_list (pins (manifest_components m)) v \<le> count_list (pins (manifest_components m)) (pinned_version m))"
  using pin_steps [of "manifest_components m"] assms by (auto simp: pinned_version_def)

lemma pinned_version_none: "pins (manifest_components m) = [] \<Longrightarrow> pinned_version m = []"
  using pin_steps [of "manifest_components m"] by (auto simp: pinned_version_def)

text \<open>What a manifest that was read guarantees to what is generated from it.\<close>

lemma read_manifest_destination:
  assumes "read_manifest file unmarshal path name = Inr m"
  shows "validate_distribution (mf_name m) = None" "validate_version (collector_version m) = None"
    "manifest_components m \<noteq> []"
proof -
  have same: "manifest_components (m\<lparr>mf_dir := d\<rparr>) = manifest_components m" for m d
    by (simp add: manifest_components_def manifest_sections_def)
  have release: "collector_version (m\<lparr>mf_dir := d\<rparr>) = collector_version m" for m d
    by (simp add: collector_version_def pinned_version_def same)
  show "validate_distribution (mf_name m) = None" "manifest_components m \<noteq> []"
    using assms by (auto simp: read_manifest_def Let_def same split: sum.splits if_splits option.splits list.splits)
  show "validate_version (collector_version m) = None"
    using assms by (auto simp: read_manifest_def Let_def release List.map_filter_def
        split: sum.splits if_splits option.splits list.splits)
qed

end
