(* ===== verification/Registry.thy ===== *)
theory Registry
  imports Manifest SchemaDiff Spans
begin

section \<open>The registry a generator fills\<close>

text \<open>
  \<open>pkg/cmd/schemagen/retain.go\<close>, \<open>write.go\<close> and \<open>summary.go\<close>: which releases a registry keeps, the schemas,
  the index and the availability document it publishes, and the summary of what changed. The registry's
  directory is the state: the path a run names it by, its entries as \<open>ReadDir\<close> lists them, the names of the files in
  each directory, and what reading a file answers. Removing a file may be refused, and so may writing one.
  \<open>versionsIn\<close> makes the path part of a pattern for \<open>Glob\<close>: where a path means itself the pattern lists the files
  of the directory, and where it holds a character patterns give a meaning to, \<open>rf_glob\<close> is what \<open>Glob\<close> lists.
  The two documents are kept as they are encoded; encoding is third-party code. Paths in messages are relative
  to the registry, which messages call by that name.
\<close>

record registry_fs =
  rf_path :: string
  rf_dirs :: "(string \<times> bool) list go_result"
  rf_names :: "string \<Rightarrow> string list"
  rf_glob :: "(string \<Rightarrow> string list) \<Rightarrow> string \<Rightarrow> string \<Rightarrow> string list"
  rf_read :: "string \<Rightarrow> string \<Rightarrow> schema go_result"
  rf_stuck :: "string \<Rightarrow> string \<Rightarrow> string option"
  rf_put :: "string \<Rightarrow> string option"
  rf_index :: "registry_index option"
  rf_components :: "components_doc option"
  rf_log :: "string list"

definition log_line :: "string \<Rightarrow> registry_fs \<Rightarrow> registry_fs" where
  "log_line line fs = fs\<lparr>rf_log := rf_log fs @ [line]\<rparr>"

subsection \<open>versionsIn\<close>

fun add_versions :: "string list \<Rightarrow> string \<Rightarrow> string go_set \<times> string list \<Rightarrow> string go_set \<times> string list" where
  "add_versions [] ext st = st"
| "add_versions (n # ns) ext (seen, out) =
     (case cut_suffix n ext of
        None \<Rightarrow> add_versions ns ext (seen, out)
      | Some v \<Rightarrow>
          if \<not> set_has seen v then add_versions ns ext (set_insert seen [v], out @ [v])
          else add_versions ns ext (seen, out))"

definition plain_path :: "string \<Rightarrow> bool" where
  "plain_path p \<longleftrightarrow> list_all (\<lambda>c. c \<notin> set [CHR ''*'', CHR ''?'', CHR ''['', CHR 0x5C]) p"

definition glob_names :: "registry_fs \<Rightarrow> string \<Rightarrow> string \<Rightarrow> string list" where
  "glob_names fs dir ext =
     (if plain_path (rf_path fs) \<and> plain_path dir then rf_names fs dir else rf_glob fs (rf_names fs) dir ext)"

definition versions_in :: "registry_fs \<Rightarrow> string \<Rightarrow> string list" where
  "versions_in fs dir = snd (foldl (\<lambda>st ext. add_versions (glob_names fs dir ext) ext st) (set_empty, []) extensions)"

subsection \<open>retain.go\<close>

definition minor_of :: "string \<Rightarrow> int option" where
  "minor_of version =
     (let parts = split_on (CHR ''.'') (trim_prefix (normalize version) ''v'') in
      if length parts \<le> 1 then None else atoi (parts ! 1))"

definition is_milestone :: "string \<Rightarrow> int \<Rightarrow> bool" where
  "is_milestone version every =
     (if every \<le> 0 then False
      else (case minor_of version of None \<Rightarrow> True | Some minor \<Rightarrow> minor mod every = 0))"

fun drop_loop :: "int \<Rightarrow> int \<Rightarrow> int \<Rightarrow> string list \<Rightarrow> string list" where
  "drop_loop i keep every [] = []"
| "drop_loop i keep every (v # vs) =
     (if i < keep \<or> is_milestone v every then drop_loop (i + 1) keep every vs
      else v # drop_loop (i + 1) keep every vs)"

definition drop_releases :: "string list \<Rightarrow> int \<Rightarrow> int \<Rightarrow> string list" where
  "drop_releases versions keep every =
     drop_loop 0 keep every (sort_slice (\<lambda>a b. 0 < compare_version a b) versions)"

fun remove_files :: "string \<Rightarrow> string list \<Rightarrow> registry_fs \<Rightarrow> string option \<times> registry_fs" where
  "remove_files dir [] fs = (None, fs)"
| "remove_files dir (n # ns) fs =
     (if n \<notin> set (rf_names fs dir) then remove_files dir ns fs
      else (case rf_stuck fs dir n of
          Some e \<Rightarrow> (Some (''remove '' @ path_join [dir, n] @ '': '' @ e), fs)
        | None \<Rightarrow>
            remove_files dir ns (fs\<lparr>rf_names := (rf_names fs)(dir := removeAll n (rf_names fs dir))\<rparr>)))"

definition release_files :: "string \<Rightarrow> string list" where
  "release_files v = map (\<lambda>ext. v @ ext) extensions"

definition prune_distribution :: "int \<Rightarrow> int \<Rightarrow> string \<Rightarrow> registry_fs \<Rightarrow> string option \<times> registry_fs" where
  "prune_distribution keep every dir fs =
     (let dropped = drop_releases (versions_in fs dir) keep every in
      case remove_files dir (concat (map release_files dropped)) fs of
        (Some e, fs) \<Rightarrow> (Some e, fs)
      | (None, fs) \<Rightarrow>
          (None, if 0 < length dropped
             then log_line (''  '' @ dir @ '': dropped '' @ join_strings '', '' dropped @ nl) fs else fs))"

fun prune_loop :: "int \<Rightarrow> int \<Rightarrow> (string \<times> bool) list \<Rightarrow> registry_fs \<Rightarrow> string option \<times> registry_fs" where
  "prune_loop keep every [] fs = (None, fs)"
| "prune_loop keep every ((name, is_dir) # rest) fs =
     (if \<not> is_dir then prune_loop keep every rest fs
      else (case prune_distribution keep every name fs of
          (Some e, fs) \<Rightarrow> (Some e, fs)
        | (None, fs) \<Rightarrow> prune_loop keep every rest fs))"

definition prune :: "int \<Rightarrow> int \<Rightarrow> registry_fs \<Rightarrow> string option \<times> registry_fs" where
  "prune retain every fs =
     (if retain \<le> 0 then (None, fs)
      else (case rf_dirs fs of
          Inl e \<Rightarrow> (Some (''read registry: '' @ e), fs)
        | Inr items \<Rightarrow> prune_loop retain every items fs))"

subsection \<open>The index\<close>

text \<open>\<open>extensionIn\<close>: the first form each release is found in, while the releases agree.\<close>

definition found_extension :: "registry_fs \<Rightarrow> string \<Rightarrow> string \<Rightarrow> string" where
  "found_extension fs dir v =
     (case find (\<lambda>ext. v @ ext \<in> set (rf_names fs dir)) extensions of None \<Rightarrow> [] | Some ext \<Rightarrow> ext)"

fun extension_loop :: "registry_fs \<Rightarrow> string \<Rightarrow> string list \<Rightarrow> string \<Rightarrow> string" where
  "extension_loop fs dir [] answer = answer"
| "extension_loop fs dir (v # vs) answer =
     (if answer \<noteq> [] \<and> found_extension fs dir v \<noteq> answer then []
      else extension_loop fs dir vs (found_extension fs dir v))"

definition extension_in :: "registry_fs \<Rightarrow> string \<Rightarrow> string list \<Rightarrow> string" where
  "extension_in fs dir versions = extension_loop fs dir versions []"

fun index_loop :: "registry_fs \<Rightarrow> (string \<times> bool) list \<Rightarrow> registry_index \<Rightarrow> registry_index" where
  "index_loop fs [] idx = idx"
| "index_loop fs ((name, is_dir) # rest) idx =
     (if \<not> is_dir then index_loop fs rest idx
      else (let versions = versions_in fs name in
        if length versions = 0 then index_loop fs rest idx
        else (let idx = idx\<lparr>idx_distributions := idx_distributions idx @ [(name, versions)]\<rparr>;
                  ext = extension_in fs name versions;
                  idx = (if ext \<noteq> [] then idx\<lparr>idx_extensions := idx_extensions idx @ [(name, ext)]\<rparr> else idx)
              in index_loop fs rest idx)))"


text \<open>\<open>Index.Write\<close> sorts what it writes, so the index handed on is the one published.\<close>

definition write_index :: "registry_fs \<Rightarrow> (string + registry_index) \<times> registry_fs" where
  "write_index fs =
     (case rf_dirs fs of
        Inl e \<Rightarrow> (Inl (''read registry: '' @ e), fs)
      | Inr items \<Rightarrow>
          let idx = index_sort (index_loop fs items \<lparr>idx_distributions = [], idx_extensions = []\<rparr>) in
          (case rf_put fs index_file of
             Some e \<Rightarrow> (Inl e, fs)
           | None \<Rightarrow>
               (Inr idx, log_line (''wrote '' @ index_file @ '' ('' @ itoa (int (length (idx_distributions idx))) @
                  '' distributions)'' @ nl) (fs\<lparr>rf_index := Some idx\<rparr>))))"

subsection \<open>The availability document\<close>

text \<open>\<open>readRegistrySchema\<close>: JSON first.\<close>

definition read_extensions :: "string list" where
  "read_extensions = [''.json''] @ filter (\<lambda>ext. ext \<noteq> ''.json'') extensions"

definition read_registry_schema :: "registry_fs \<Rightarrow> string \<Rightarrow> string \<Rightarrow> schema go_result" where
  "read_registry_schema fs dir version =
     (case find (\<lambda>ext. version @ ext \<in> set (rf_names fs dir)) read_extensions of
        None \<Rightarrow> Inl (''no schema file: '' @ path_join [dir, version])
      | Some ext \<Rightarrow> rf_read fs dir (version @ ext))"

type_synonym presence = "kind \<Rightarrow> (string \<times> string go_set) list"

fun add_present :: "string \<Rightarrow> string \<Rightarrow> (string \<times> string go_set) list \<Rightarrow> (string \<times> string go_set) list" where
  "add_present v ty [] = [(ty, set_new [v])]"
| "add_present v ty ((t, releases) # rest) =
     (if t = ty then (t, set_insert releases [v]) # rest else (t, releases) # add_present v ty rest)"

definition add_release :: "string \<Rightarrow> schema \<Rightarrow> presence \<Rightarrow> presence" where
  "add_release v c present = (\<lambda>k. foldl (\<lambda>m ty. add_present v ty m) (present k) (map fst (sch_components c k)))"

fun presence_loop :: "registry_fs \<Rightarrow> string \<Rightarrow> string list \<Rightarrow> presence \<Rightarrow> presence go_result" where
  "presence_loop fs dname [] present = Inr present"
| "presence_loop fs dname (v # vs) present =
     (case read_registry_schema fs dname v of
        Inl e \<Rightarrow> Inl e
      | Inr c \<Rightarrow> presence_loop fs dname vs (add_release v c present))"

definition spans_in :: "registry_fs \<Rightarrow> string \<Rightarrow> string list \<Rightarrow> component_spans go_result" where
  "spans_in fs dname versions =
     (case presence_loop fs dname versions (\<lambda>_. []) of
        Inl e \<Rightarrow> Inl e
      | Inr present \<Rightarrow>
          Inr (map (\<lambda>k. (k, map (\<lambda>(ty, releases). (ty, spans_of versions releases)) (present k)))
            (filter (\<lambda>k. present k \<noteq> []) kinds)))"

fun components_loop :: "registry_index \<Rightarrow> string list \<Rightarrow> components_doc \<Rightarrow> registry_fs \<Rightarrow> components_doc \<times> registry_fs" where
  "components_loop idx [] doc fs = (doc, fs)"
| "components_loop idx (dname # rest) doc fs =
     (case spans_in fs dname (index_versions idx dname) of
        Inl e \<Rightarrow> components_loop idx rest doc (log_line (''  '' @ dname @ '': no availability published ('' @ e @ '')'' @ nl) fs)
      | Inr spans \<Rightarrow>
          components_loop idx rest (doc\<lparr>cd_distributions := cd_distributions doc @ [(dname, spans)]\<rparr>) fs)"

definition write_components :: "registry_index \<Rightarrow> registry_fs \<Rightarrow> string option \<times> registry_fs" where
  "write_components idx fs =
     (case components_loop idx (index_names idx) \<lparr>cd_distributions = []\<rparr> fs of
        (doc, fs) \<Rightarrow>
          (case rf_put fs components_file of
             Some e \<Rightarrow> (Some e, fs)
           | None \<Rightarrow>
               (None, log_line (''wrote '' @ components_file @ '' ('' @ itoa (int (length (cd_distributions doc))) @
                  '' distributions)'' @ nl) (fs\<lparr>rf_components := Some doc\<rparr>))))"

definition publish_registry :: "int \<Rightarrow> int \<Rightarrow> registry_fs \<Rightarrow> string option \<times> registry_fs" where
  "publish_registry retain every fs =
     (case prune retain every fs of
        (Some e, fs) \<Rightarrow> (Some e, fs)
      | (None, fs) \<Rightarrow>
          (case write_index fs of
             (Inl e, fs) \<Rightarrow> (Some e, fs)
           | (Inr idx, fs) \<Rightarrow> write_components idx fs))"

subsection \<open>What is left of a directory\<close>

lemma cut_suffix_iff: "cut_suffix n ext = Some v \<longleftrightarrow> n = v @ ext"
  by (auto simp: cut_suffix_def suffix_def)

lemma extension_unique:
  "v @ x = w @ y \<Longrightarrow> x \<in> set extensions \<Longrightarrow> y \<in> set extensions \<Longrightarrow> v = w \<and> x = y"
  by (drule arg_cong [of _ _ rev]) (auto simp: extensions_def)

lemma add_versions_spec:
  "set_elems seen = set out \<Longrightarrow> distinct out \<Longrightarrow>
   \<exists>seen' out'. add_versions ns ext (seen, out) = (seen', out') \<and> set_elems seen' = set out' \<and> distinct out' \<and>
     set out' = set out \<union> {v. v @ ext \<in> set ns}"
proof (induction ns ext "(seen, out)" arbitrary: seen out rule: add_versions.induct)
  case (2 n ns ext seen out)
  show ?case
  proof (cases "cut_suffix n ext")
    case None
    then have "\<forall>v. n \<noteq> v @ ext" using cut_suffix_iff [of n ext] by auto
    then show ?thesis using 2(1) [OF None 2(4,5)] None by auto
  next
    case (Some v)
    then have n: "n = v @ ext" by (simp add: cut_suffix_iff)
    show ?thesis
    proof (cases "set_has seen v")
      case True
      then show ?thesis using 2(3) [OF Some _ 2(4,5)] Some n 2(4) by auto
    next
      case False
      then show ?thesis using 2(2) [OF Some False] 2(4,5) Some n by auto
    qed
  qed
qed simp

definition means_itself :: "registry_fs \<Rightarrow> string \<Rightarrow> bool" where
  "means_itself fs dir \<longleftrightarrow> plain_path (rf_path fs) \<and> plain_path dir"

lemma versions_in_globbed:
  "distinct (versions_in fs dir) \<and>
   set (versions_in fs dir) = {v. \<exists>ext \<in> set extensions. v @ ext \<in> set (glob_names fs dir ext)}"
proof -
  have "set_elems seen = set out \<Longrightarrow> distinct out \<Longrightarrow>
    \<exists>seen' out'. foldl (\<lambda>st ext. add_versions (ns ext) ext st) (seen, out) exts = (seen', out') \<and> distinct out' \<and>
      set out' = set out \<union> {v. \<exists>ext \<in> set exts. v @ ext \<in> set (ns ext)}" for seen out ns exts
  proof (induction exts arbitrary: seen out)
    case (Cons ext exts)
    then obtain seen' out' where s: "add_versions (ns ext) ext (seen, out) = (seen', out')" "set_elems seen' = set out'"
      "distinct out'" "set out' = set out \<union> {v. v @ ext \<in> set (ns ext)}"
      using add_versions_spec by meson
    then show ?case using Cons.IH [OF s(2,3)] by auto
  qed simp
  from this [of set_empty "[]" "glob_names fs dir" extensions] show ?thesis by (auto simp: versions_in_def)
qed

lemma versions_in_spec:
  "distinct (versions_in fs dir)"
  "means_itself fs dir \<Longrightarrow> set (versions_in fs dir) = {v. \<exists>ext \<in> set extensions. v @ ext \<in> set (rf_names fs dir)}"
  using versions_in_globbed [of fs dir] by (simp_all add: glob_names_def means_itself_def)

lemma remove_files_spec:
  "remove_files dir ns fs = (None, fs') \<Longrightarrow>
     \<exists>names. fs' = fs\<lparr>rf_names := (rf_names fs)(dir := names)\<rparr> \<and> set names = set (rf_names fs dir) - set ns"
proof (induction ns arbitrary: fs)
  case Nil
  then have "fs' = fs\<lparr>rf_names := (rf_names fs)(dir := rf_names fs dir)\<rparr>" by simp
  then show ?case by (intro exI [of _ "rf_names fs dir"]) simp
next
  case (Cons n ns)
  show ?case
  proof (cases "n \<in> set (rf_names fs dir)")
    case False
    then have "remove_files dir ns fs = (None, fs')" using Cons.prems by simp
    then obtain names where "fs' = fs\<lparr>rf_names := (rf_names fs)(dir := names)\<rparr>" "set names = set (rf_names fs dir) - set ns"
      using Cons.IH by meson
    moreover have "set (rf_names fs dir) - set ns = set (rf_names fs dir) - set (n # ns)" using False by auto
    ultimately show ?thesis by metis
  next
    case True
    then have stuck: "rf_stuck fs dir n = None" using Cons.prems by (simp split: option.splits)
    define fs1 where "fs1 = fs\<lparr>rf_names := (rf_names fs)(dir := removeAll n (rf_names fs dir))\<rparr>"
    have "remove_files dir ns fs1 = (None, fs')"
      using True Cons.prems stuck by (simp add: fs1_def)
    then obtain names where n: "fs' = fs1\<lparr>rf_names := (rf_names fs1)(dir := names)\<rparr>" "set names = set (rf_names fs1 dir) - set ns"
      using Cons.IH by meson
    have "fs' = fs\<lparr>rf_names := (rf_names fs)(dir := names)\<rparr>" unfolding n(1) by (simp add: fs1_def)
    moreover have "set names = set (rf_names fs dir) - set (n # ns)" unfolding n(2) by (auto simp: fs1_def)
    ultimately show ?thesis by metis
  qed
qed

lemma drop_loop_filter:
  "drop_loop i keep every vs = filter (\<lambda>v. \<not> is_milestone v every) (drop (nat (keep - i)) vs)"
proof (induction i keep every vs rule: drop_loop.induct)
  case (2 i keep every v vs)
  then show ?case
  proof (cases "i < keep")
    case True
    then have "nat (keep - i) = Suc (nat (keep - (i + 1)))" by simp
    then show ?thesis using 2 True by simp
  qed auto
qed simp

lemma newest_first_facts:
  "set (newest_first vs) = set vs" "distinct (newest_first vs) = distinct vs"
  "sorted_wrt (\<lambda>a b. 0 \<le> compare_version a b) (newest_first vs)"
  by (simp_all add: newest_first_def rel.newest_first_sorted)

lemma prune_distribution_spec:
  assumes "prune_distribution keep every dir fs = (None, fs')"
  shows "means_itself fs dir \<Longrightarrow> set (versions_in fs' dir) =
      set (take (nat keep) (newest_first (versions_in fs dir))) \<union> {v \<in> set (versions_in fs dir). is_milestone v every}"
    "\<exists>names lines. fs' = fs\<lparr>rf_names := (rf_names fs)(dir := names), rf_log := lines\<rparr>"
proof -
  let ?vs = "newest_first (versions_in fs dir)"
  define dropped where "dropped = drop_releases (versions_in fs dir) keep every"
  have d: "dropped = filter (\<lambda>v. \<not> is_milestone v every) (drop (nat keep) ?vs)"
    by (simp add: dropped_def drop_releases_def drop_loop_filter newest_first_def)
  obtain fs1 where r: "remove_files dir (concat (map release_files dropped)) fs = (None, fs1)"
    and f': "fs' = (if 0 < length dropped
      then log_line (''  '' @ dir @ '': dropped '' @ join_strings '', '' dropped @ nl) fs1 else fs1)"
    using assms by (auto simp: prune_distribution_def dropped_def Let_def split: prod.splits option.splits)
  have names: "rf_names fs' = rf_names fs1" by (simp add: f' log_line_def)
  have left: "v \<in> set (versions_in fs' dir) \<longleftrightarrow> v \<in> set (versions_in fs dir) \<and> v \<notin> set dropped"
    if plain: "means_itself fs dir" for v
  proof -
    have plain': "means_itself fs' dir"
      using plain remove_files_spec [OF r] by (auto simp: means_itself_def f' log_line_def)
    define D where "D = set (concat (map release_files dropped))"
    have left: "set (rf_names fs1 dir) = set (rf_names fs dir) - D"
      using remove_files_spec [OF r] by (auto simp: D_def)
    have gone: "v @ ext \<in> D \<longleftrightarrow> v \<in> set dropped" if "ext \<in> set extensions" for ext
      using that extension_unique [OF _ that] by (auto simp: D_def release_files_def)
    show ?thesis
      unfolding versions_in_spec(2) [OF plain] versions_in_spec(2) [OF plain'] names mem_Collect_eq left by (auto simp: gone)
  qed
  have "set ?vs = set (take (nat keep) ?vs) \<union> set (drop (nat keep) ?vs)"
    by (metis append_take_drop_id set_append)
  moreover have "set (take (nat keep) ?vs) \<inter> set (drop (nat keep) ?vs) = {}"
    using versions_in_spec(1) [of fs dir] by (simp add: set_take_disj_set_drop_if_distinct newest_first_facts)
  ultimately show "set (versions_in fs' dir) =
      set (take (nat keep) ?vs) \<union> {v \<in> set (versions_in fs dir). is_milestone v every}" if "means_itself fs dir"
    using left [OF that] newest_first_facts(1) [of "versions_in fs dir"] d by auto
  show "\<exists>names lines. fs' = fs\<lparr>rf_names := (rf_names fs)(dir := names), rf_log := lines\<rparr>"
  proof -
    obtain left where "fs1 = fs\<lparr>rf_names := (rf_names fs)(dir := left)\<rparr>" using remove_files_spec [OF r] by blast
    then have "fs' = fs\<lparr>rf_names := (rf_names fs)(dir := left), rf_log := rf_log fs'\<rparr>" by (simp add: f' log_line_def)
    then show ?thesis by blast
  qed
qed

text \<open>
  Pruning a distribution leaves exactly its \<open>keep\<close> newest releases, in the order of \<open>Compare\<close>, and the older
  ones that are milestones: no release is dropped while an older one that is not a milestone stays, and
  nothing outside the directory changes.
\<close>

theorem prune_keeps:
  assumes "prune_distribution keep every dir fs = (None, fs')" "means_itself fs dir"
  shows "\<exists>newest older. mset (newest @ older) = mset (versions_in fs dir) \<and>
      length newest = min (nat keep) (length (versions_in fs dir)) \<and>
      (\<forall>a \<in> set newest. \<forall>b \<in> set older. 0 \<le> compare_version a b) \<and>
      set (versions_in fs' dir) = set newest \<union> {v \<in> set older. is_milestone v every} \<and>
      (\<forall>d. d \<noteq> dir \<and> means_itself fs d \<longrightarrow> versions_in fs' d = versions_in fs d)"
proof -
  let ?vs = "newest_first (versions_in fs dir)"
  let ?new = "take (nat keep) ?vs" and ?old = "drop (nat keep) ?vs"
  have "mset (?new @ ?old) = mset (versions_in fs dir)" by (simp add: newest_first_def)
  moreover have "length ?new = min (nat keep) (length (versions_in fs dir))" by (simp add: newest_first_def min.commute)
  moreover have "sorted_wrt (\<lambda>a b. 0 \<le> compare_version a b) (?new @ ?old)"
    using newest_first_facts(3) by simp
  then have "\<forall>a \<in> set ?new. \<forall>b \<in> set ?old. 0 \<le> compare_version a b" unfolding sorted_wrt_append by blast
  moreover have "set (versions_in fs dir) = set ?new \<union> set ?old"
    by (metis append_take_drop_id newest_first_facts(1) set_append)
  then have "set (versions_in fs' dir) = set ?new \<union> {v \<in> set ?old. is_milestone v every}"
    unfolding prune_distribution_spec(1) [OF assms] by auto
  moreover have "\<forall>d. d \<noteq> dir \<and> means_itself fs d \<longrightarrow> versions_in fs' d = versions_in fs d"
    using prune_distribution_spec(2) [OF assms(1)] by (auto simp: versions_in_def glob_names_def means_itself_def)
  ultimately show ?thesis by blast
qed

subsection \<open>What the index and the availability document say\<close>

lemma index_loop_spec:
  "idx_distributions (index_loop fs items idx) = idx_distributions idx @
     map (\<lambda>(name, is_dir). (name, versions_in fs name)) (filter (\<lambda>(name, is_dir). is_dir \<and> versions_in fs name \<noteq> []) items)"
  by (induction fs items idx rule: index_loop.induct) (auto simp: Let_def)

lemma index_versions_published:
  assumes "distinct (map fst items)" "(name, True) \<in> set items"
  shows "index_versions (index_sort (index_loop fs items \<lparr>idx_distributions = [], idx_extensions = []\<rparr>)) name =
    newest_first (versions_in fs name)"
proof -
  let ?kept = "filter (\<lambda>(name, is_dir). is_dir \<and> versions_in fs name \<noteq> []) items"
  have d: "distinct (map fst ?kept)" using assms(1) by (rule distinct_map_filter)
  have "map_of (map (\<lambda>(n, is_dir). (n, newest_first (versions_in fs n))) ?kept) name =
      (if versions_in fs name = [] then None else Some (newest_first (versions_in fs name)))"
  proof (cases "versions_in fs name = []")
    case True
    then show ?thesis by (auto simp: map_of_eq_None_iff)
  next
    case False
    have "distinct (map fst (map (\<lambda>(n, is_dir). (n, newest_first (versions_in fs n))) ?kept))"
      using d by (simp add: comp_def case_prod_beta)
    moreover have "(name, newest_first (versions_in fs name)) \<in> set (map (\<lambda>(n, is_dir). (n, newest_first (versions_in fs n))) ?kept)"
      using assms(2) False by force
    ultimately show ?thesis using False map_of_is_SomeI by fastforce
  qed
  then show ?thesis
    unfolding newest_first_def case_prod_unfold
    by (simp add: index_versions_def index_sort_def index_loop_spec comp_def case_prod_unfold)
qed

definition ships_at :: "(string \<times> string go_set) list \<Rightarrow> string \<Rightarrow> string \<Rightarrow> bool" where
  "ships_at m ty v \<longleftrightarrow> (\<exists>releases. (ty, releases) \<in> set m \<and> v \<in> set_elems releases)"

lemma ships_at_simps:
  "\<not> ships_at [] t w" "ships_at ((a, b) # m) t w \<longleftrightarrow> t = a \<and> w \<in> set_elems b \<or> ships_at m t w"
  by (auto simp: ships_at_def)

lemma add_present_spec:
  assumes "distinct (map fst m)"
  shows "fst ` set (add_present v ty m) = insert ty (fst ` set m)" "distinct (map fst (add_present v ty m))"
    "ships_at (add_present v ty m) t w \<longleftrightarrow> ships_at m t w \<or> t = ty \<and> w = v"
proof -
  have keys: "fst ` set (add_present v ty m) = insert ty (fst ` set m)" for m :: "(string \<times> string go_set) list"
  proof (induction m)
    case (Cons x m)
    then show ?case by (cases x) (simp add: insert_commute)
  qed simp
  then show "fst ` set (add_present v ty m) = insert ty (fst ` set m)" .
  show "distinct (map fst (add_present v ty m))"
    using assms by (induction m) (auto simp: keys)
  show "ships_at (add_present v ty m) t w \<longleftrightarrow> ships_at m t w \<or> t = ty \<and> w = v"
    using assms
  proof (induction m)
    case (Cons x m)
    then show ?case by (cases x) (auto simp: ships_at_simps)
  qed (auto simp: ships_at_simps)
qed

lemma add_release_spec:
  assumes "distinct (map fst m)"
  shows "distinct (map fst (foldl (\<lambda>m ty. add_present v ty m) m tys)) \<and>
    (ships_at (foldl (\<lambda>m ty. add_present v ty m) m tys) t w \<longleftrightarrow> ships_at m t w \<or> t \<in> set tys \<and> w = v)"
  using assms
proof (induction tys arbitrary: m)
  case (Cons ty tys)
  show ?case
    using Cons.IH [OF add_present_spec(2) [OF Cons.prems, of v ty]] add_present_spec(3) [OF Cons.prems, of v ty t w] by auto
qed simp

text \<open>Whether the schema read for a release has a component.\<close>

definition release_has :: "registry_fs \<Rightarrow> string \<Rightarrow> string \<Rightarrow> kind \<Rightarrow> string \<Rightarrow> bool" where
  "release_has fs name v k ty \<longleftrightarrow>
     (case read_registry_schema fs name v of Inl _ \<Rightarrow> False | Inr c \<Rightarrow> ty \<in> fst ` set (sch_components c k))"

lemma presence_loop_spec:
  assumes "presence_loop fs name vs present = Inr out" "distinct (map fst (present k))"
  shows "distinct (map fst (out k)) \<and>
    (ships_at (out k) ty w \<longleftrightarrow> ships_at (present k) ty w \<or> w \<in> set vs \<and> release_has fs name w k ty)"
  using assms
proof (induction vs arbitrary: present)
  case (Cons v vs)
  then obtain c where c: "read_registry_schema fs name v = Inr c"
    "presence_loop fs name vs (add_release v c present) = Inr out"
    by (auto split: sum.splits)
  have step: "distinct (map fst (add_release v c present k))"
    "ships_at (add_release v c present k) ty w \<longleftrightarrow> ships_at (present k) ty w \<or> w = v \<and> release_has fs name v k ty"
    using add_release_spec [OF Cons.prems(2), of v "map fst (sch_components c k)" ty w] c(1)
    by (auto simp: add_release_def release_has_def)
  show ?case using Cons.IH [OF c(2) step(1)] step(2) by auto
qed simp

text \<open>
  C35: the availability a registry publishes for a distribution says of every release it serves exactly which
  components that release's schema has: read back with the spans, a release is covered for a component
  type when, and only when, its schema declares the type.
\<close>

theorem published_spans_exact:
  assumes "spans_in fs name versions = Inr spans" "[] \<notin> set versions" "distinct versions"
    and "\<forall>a \<in> set versions. \<forall>b \<in> set versions. compare_version a b = 0 \<longrightarrow> a = b"
    and "v \<in> set versions"
  shows "(\<exists>tys runs. (k, tys) \<in> set spans \<and> (ty, runs) \<in> set tys \<and> covers runs v) \<longleftrightarrow> release_has fs name v k ty"
proof -
  obtain present where p: "presence_loop fs name versions (\<lambda>_. []) = Inr present"
    and spans: "spans = map (\<lambda>k. (k, map (\<lambda>(ty, releases). (ty, spans_of versions releases)) (present k)))
      (filter (\<lambda>k. present k \<noteq> []) kinds)"
    using assms(1) by (auto simp: spans_in_def split: sum.splits)
  have has: "ships_at (present k) ty v \<longleftrightarrow> release_has fs name v k ty"
    using presence_loop_spec [OF p, of k ty v] assms(5) by (simp add: ships_at_def)
  have cov: "covers (spans_of versions releases) v \<longleftrightarrow> v \<in> set_elems releases" for releases
    using spans_of_covers(1) [of versions releases] assms(2-5) by auto
  have listed: "(k, tys) \<in> set spans \<longleftrightarrow> present k \<noteq> [] \<and> tys = map (\<lambda>(ty, releases). (ty, spans_of versions releases)) (present k)"
    for tys unfolding spans by auto
  have runs: "(ty, runs) \<in> set (map (\<lambda>(ty, releases). (ty, spans_of versions releases)) (present k)) \<longleftrightarrow>
      (\<exists>releases. (ty, releases) \<in> set (present k) \<and> runs = spans_of versions releases)" for runs by auto
  show ?thesis
    unfolding has [symmetric] listed ships_at_def using runs cov by (metis empty_iff list.set(1))
qed

subsection \<open>Publishing\<close>

text \<open>What a directory is left with depends on its own names only.\<close>

definition left_of :: "int \<Rightarrow> int \<Rightarrow> string list \<Rightarrow> string set" where
  "left_of keep every vs = set (take (nat keep) (newest_first vs)) \<union> {v \<in> set vs. is_milestone v every}"

lemma versions_in_cong:
  "rf_names fs dir = rf_names fs' dir \<Longrightarrow> rf_path fs = rf_path fs' \<Longrightarrow> means_itself fs dir \<Longrightarrow>
     versions_in fs dir = versions_in fs' dir"
  by (simp add: versions_in_def glob_names_def means_itself_def)

lemma prune_loop_spec:
  "prune_loop keep every items fs = (None, fs') \<Longrightarrow> distinct (map fst items) \<Longrightarrow>
   (\<exists>names lines. fs' = fs\<lparr>rf_names := names, rf_log := lines\<rparr>) \<and>
   (\<forall>dir. if (dir, True) \<in> set items
     then means_itself fs dir \<longrightarrow> set (versions_in fs' dir) = left_of keep every (versions_in fs dir)
     else rf_names fs' dir = rf_names fs dir)"
proof (induction items arbitrary: fs)
  case Nil
  then show ?case by (intro conjI exI [of _ "rf_names fs"] exI [of _ "rf_log fs"]) simp_all
next
  case (Cons item items)
  obtain name is_dir where item: "item = (name, is_dir)" by fastforce
  show ?case
  proof (cases is_dir)
    case False
    then show ?thesis using Cons item by auto
  next
    case True
    then obtain fs1 where one: "prune_distribution keep every name fs = (None, fs1)"
      and rest: "prune_loop keep every items fs1 = (None, fs')"
      using Cons.prems(1) item by (auto split: prod.splits option.splits)
    obtain names lines where fs1: "fs1 = fs\<lparr>rf_names := (rf_names fs)(name := names), rf_log := lines\<rparr>"
      using prune_distribution_spec(2) [OF one] by blast
    have IH: "\<exists>names lines. fs' = fs1\<lparr>rf_names := names, rf_log := lines\<rparr>"
      "if (dir, True) \<in> set items
       then means_itself fs1 dir \<longrightarrow> set (versions_in fs' dir) = left_of keep every (versions_in fs1 dir)
       else rf_names fs' dir = rf_names fs1 dir" for dir
      using Cons.IH [OF rest] Cons.prems(2) by (simp_all del: split_paired_All)
    have other: "(name, True) \<notin> set items" using Cons.prems(2) item by force
    have "\<exists>names lines. fs' = fs\<lparr>rf_names := names, rf_log := lines\<rparr>" using IH(1) fs1 by auto
    moreover have "if (dir, True) \<in> set (item # items)
        then means_itself fs dir \<longrightarrow> set (versions_in fs' dir) = left_of keep every (versions_in fs dir)
        else rf_names fs' dir = rf_names fs dir" for dir
    proof (cases "dir = name")
      case True
      have "rf_path fs' = rf_path fs" using IH(1) fs1 by auto
      then have "versions_in fs' name = versions_in fs1 name" if "means_itself fs name"
        using IH(2) [of name] other fs1 that by (intro versions_in_cong) (simp_all add: means_itself_def)
      then show ?thesis
        using True prune_distribution_spec(1) [OF one] item \<open>is_dir\<close> by (simp add: left_of_def)
    next
      case False
      then have "rf_names fs1 dir = rf_names fs dir" by (simp add: fs1)
      moreover have "versions_in fs1 dir = versions_in fs dir" if "means_itself fs dir"
        using calculation that fs1 by (intro versions_in_cong) (simp_all add: means_itself_def)
      moreover have "means_itself fs1 dir = means_itself fs dir" by (simp add: fs1 means_itself_def)
      ultimately show ?thesis using IH(2) [of dir] False item by simp
    qed
    ultimately show ?thesis by blast
  qed
qed

text \<open>The documents are worked out from the names and the contents alone.\<close>

lemma spans_in_cong:
  assumes "rf_names fs = rf_names fs'" "rf_read fs = rf_read fs'"
  shows "spans_in fs name vs = spans_in fs' name vs"
proof -
  have r: "read_registry_schema fs name v = read_registry_schema fs' name v" for v
    by (simp add: read_registry_schema_def assms cong: option.case_cong)
  have "presence_loop fs name vs present = presence_loop fs' name vs present" for present
    by (induction vs arbitrary: present) (simp_all add: r split: sum.split)
  then show ?thesis by (simp add: spans_in_def)
qed

lemma spans_in_log [simp]: "spans_in (fs\<lparr>rf_log := l\<rparr>) name vs = spans_in fs name vs"
  by (rule spans_in_cong) simp_all

lemma components_loop_spec:
  "\<exists>lines. components_loop idx names doc fs =
     (doc\<lparr>cd_distributions := cd_distributions doc @ List.map_filter (\<lambda>n. case spans_in fs n (index_versions idx n) of
        Inl _ \<Rightarrow> None | Inr spans \<Rightarrow> Some (n, spans)) names\<rparr>, fs\<lparr>rf_log := lines\<rparr>)"
proof (induction names arbitrary: doc fs)
  case Nil
  show ?case by (intro exI [of _ "rf_log fs"]) (simp add: List.map_filter_def)
next
  case (Cons n names)
  show ?case
  proof (cases "spans_in fs n (index_versions idx n)")
    case (Inl e)
    then show ?thesis
      using Cons.IH [of doc "log_line (''  '' @ n @ '': no availability published ('' @ e @ '')'' @ nl) fs"]
      by (auto simp: log_line_def map_filter_simps)
  next
    case (Inr spans)
    then show ?thesis
      using Cons.IH [of "doc\<lparr>cd_distributions := cd_distributions doc @ [(n, spans)]\<rparr>" fs] by (auto simp: map_filter_simps)
  qed
qed

lemma map_filter_lookup:
  "map_of (List.map_filter (\<lambda>n. case f n of Inl _ \<Rightarrow> None | Inr y \<Rightarrow> Some (n, y)) ns) k =
     (if k \<in> set ns then (case f k of Inl _ \<Rightarrow> None | Inr y \<Rightarrow> Some y) else None)"
  by (induction ns) (auto simp: map_filter_simps split: sum.splits)

lemma published_documents:
  assumes "publish_registry retain every fs = (None, fs')" "rf_dirs fs = Inr items"
    and "distinct (map fst items)" "(dir, True) \<in> set items"
  shows "\<exists>idx doc. rf_index fs' = Some idx \<and> rf_components fs' = Some doc \<and>
    index_versions idx dir = newest_first (versions_in fs' dir) \<and>
    (means_itself fs dir \<or> retain \<le> 0 \<longrightarrow> set (versions_in fs' dir) =
       (if 0 < retain then left_of retain every (versions_in fs dir) else set (versions_in fs dir))) \<and>
    map_of (cd_distributions doc) dir =
      (if versions_in fs' dir = [] then None
       else (case spans_in fs' dir (index_versions idx dir) of Inl _ \<Rightarrow> None | Inr spans \<Rightarrow> Some spans))"
proof -
  obtain fs1 where p: "prune retain every fs = (None, fs1)"
    using assms(1) by (auto simp: publish_registry_def split: prod.splits option.splits)
  have pruned: "rf_dirs fs1 = Inr items"
    "means_itself fs dir \<or> retain \<le> 0 \<Longrightarrow>
       set (versions_in fs1 dir) = (if 0 < retain then left_of retain every (versions_in fs dir) else set (versions_in fs dir))"
  proof -
    have "fs1 = fs" if "\<not> 0 < retain" using p that by (simp add: prune_def)
    moreover have "prune_loop retain every items fs = (None, fs1)" if "0 < retain"
      using p that assms(2) by (simp add: prune_def)
    ultimately show "rf_dirs fs1 = Inr items"
      "means_itself fs dir \<or> retain \<le> 0 \<Longrightarrow>
         set (versions_in fs1 dir) = (if 0 < retain then left_of retain every (versions_in fs dir) else set (versions_in fs dir))"
      using prune_loop_spec [OF _ assms(3), of retain every fs fs1] assms(2,4) by (cases "0 < retain"; force)+
  qed
  define idx where "idx = index_sort (index_loop fs1 items \<lparr>idx_distributions = [], idx_extensions = []\<rparr>)"
  obtain lines where w: "write_index fs1 = (Inr idx, fs1\<lparr>rf_index := Some idx, rf_log := lines\<rparr>)"
    using assms(1) p pruned(1)
    by (auto simp: publish_registry_def write_index_def idx_def Let_def log_line_def split: prod.splits option.splits sum.splits)
  define fs2 where "fs2 = fs1\<lparr>rf_index := Some idx, rf_log := lines\<rparr>"
  obtain lines' where c: "components_loop idx (index_names idx) \<lparr>cd_distributions = []\<rparr> fs2 =
     (\<lparr>cd_distributions = List.map_filter (\<lambda>n. case spans_in fs2 n (index_versions idx n) of
        Inl _ \<Rightarrow> None | Inr spans \<Rightarrow> Some (n, spans)) (index_names idx)\<rparr>, fs2\<lparr>rf_log := lines'\<rparr>)"
    using components_loop_spec [of idx "index_names idx" "\<lparr>cd_distributions = []\<rparr>" fs2] by auto
  define doc where "doc = \<lparr>cd_distributions = List.map_filter (\<lambda>n. case spans_in fs2 n (index_versions idx n) of
        Inl _ \<Rightarrow> None | Inr spans \<Rightarrow> Some (n, spans)) (index_names idx)\<rparr>"
  obtain lines'' where fs': "fs' = fs2\<lparr>rf_components := Some doc, rf_log := lines''\<rparr>"
    using assms(1) p w c unfolding doc_def fs2_def
    by (auto simp: publish_registry_def write_components_def log_line_def split: option.splits)
  have same: "versions_in fs' d = versions_in fs1 d" "spans_in fs' d vs = spans_in fs2 d vs" for d vs
    by (simp_all add: fs' fs2_def versions_in_def glob_names_def cong: spans_in_cong if_cong)
  have idx: "index_versions idx dir = newest_first (versions_in fs' dir)"
    unfolding idx_def same by (rule index_versions_published [OF assms(3,4)])
  have "dir \<in> set (index_names idx) \<longleftrightarrow> versions_in fs1 dir \<noteq> []"
    using assms(3,4) by (force simp: idx_def index_names_def index_sort_def index_loop_spec image_iff)
  then have "map_of (cd_distributions doc) dir =
      (if versions_in fs' dir = [] then None
       else (case spans_in fs' dir (index_versions idx dir) of Inl _ \<Rightarrow> None | Inr spans \<Rightarrow> Some spans))"
    by (simp add: doc_def map_filter_lookup same)
  moreover have "means_itself fs dir \<or> retain \<le> 0 \<Longrightarrow> set (versions_in fs' dir) =
      (if 0 < retain then left_of retain every (versions_in fs dir) else set (versions_in fs dir))"
    unfolding same(1) by (rule pruned(2))
  moreover have "rf_index fs' = Some idx" "rf_components fs' = Some doc" by (simp_all add: fs' fs2_def)
  ultimately show ?thesis using idx by blast
qed

text \<open>
  C34: what a registry publishes describes what it is left holding: after pruning, the index lists for every
  distribution exactly the releases whose files remain, newest first -- the newest ones kept and the
  milestones -- and the availability document is worked out from the same releases, a distribution being
  left out of it when one of its schemas cannot be read. What pruning keeps is stated for a path that means
  itself to \<open>Glob\<close>, which is how \<open>versionsIn\<close> lists the releases to prune and to index.
\<close>

theorem publish_registry_consistent:
  assumes "publish_registry retain every fs = (None, fs')" "rf_dirs fs = Inr items"
    and "distinct (map fst items)" "(dir, True) \<in> set items"
  shows "\<exists>idx doc. rf_index fs' = Some idx \<and> rf_components fs' = Some doc \<and>
    index_versions idx dir = newest_first (versions_in fs' dir) \<and>
    (means_itself fs dir \<or> retain \<le> 0 \<longrightarrow> set (versions_in fs' dir) =
       (if 0 < retain then left_of retain every (versions_in fs dir) else set (versions_in fs dir))) \<and>
    map_of (cd_distributions doc) dir =
      (if versions_in fs' dir = [] then None
       else (case spans_in fs' dir (index_versions idx dir) of Inl _ \<Rightarrow> None | Inr spans \<Rightarrow> Some spans))"
  by (rule published_documents [OF assms])

text \<open>
  A registry whose path holds a pattern is indexed by what the pattern lists: a release filed in it is in no index
  when that is nothing, as the error of \<open>Glob\<close> and its empty list are not told apart from an empty directory.
\<close>

lemma pattern_path_unlisted:
  assumes "\<not> plain_path (rf_path fs)" "\<forall>ext. rf_glob fs (rf_names fs) dir ext = []"
  shows "versions_in fs dir = []"
  using assms versions_in_globbed [of fs dir] by (auto simp: glob_names_def simp flip: set_empty2)

subsection \<open>Writing a schema\<close>

text \<open>
  A generator's state: the registry, what went to standard output, the files written elsewhere, and the
  differences collected for the summary. \<open>gw_text\<close> is the encoding of a schema, \<open>gw_back\<close> what reading it back gives, \<open>gw_create\<close> and \<open>gw_dir\<close>
  the error of creating a file or the directory of a distribution, \<open>gw_root\<close> that of opening the registry, and \<open>gw_out\<close> that of standard output.
\<close>

record gen_world =
  gw_text :: "schema \<Rightarrow> schema_format \<Rightarrow> string"
  gw_back :: "schema \<Rightarrow> schema_format \<Rightarrow> schema go_result"
  gw_create :: "string \<Rightarrow> string option"
  gw_root :: "string option"
  gw_dir :: "string \<Rightarrow> string option"
  gw_out :: "string option"

record gen_state =
  gs_registry :: registry_fs
  gs_out :: "string list"
  gs_files :: "(string \<times> string) list"
  gs_diffs :: "schema_diff list"

definition gen_log :: "string \<Rightarrow> gen_state \<Rightarrow> gen_state" where
  "gen_log line st = st\<lparr>gs_registry := log_line line (gs_registry st)\<rparr>"

definition stdout_marker :: string where "stdout_marker = ''-''"

fun format_string :: "schema_format \<Rightarrow> string" where
  "format_string FormatYAML = ''yaml''"
| "format_string FormatJSON = ''json''"

definition format_for :: "string \<Rightarrow> schema_format list \<Rightarrow> schema_format" where
  "format_for path formats =
     (if has_suffix path ''.json'' \<or> has_suffix path ''.yaml'' \<or> has_suffix path ''.yml'' then format_of path
      else hd formats)"

definition write_file :: "gen_world \<Rightarrow> string \<Rightarrow> schema \<Rightarrow> schema_format list \<Rightarrow> gen_state \<Rightarrow> string option \<times> gen_state" where
  "write_file gw out_file c formats st =
     (let written = gw_text gw c (format_for out_file formats) in
      if out_file = stdout_marker \<or> out_file = [] then
        (case gw_out gw of
           Some e \<Rightarrow> (Some (''write schema: '' @ e), st)
         | None \<Rightarrow> (None, st\<lparr>gs_out := gs_out st @ [written]\<rparr>))
      else (case gw_create gw out_file of
          Some e \<Rightarrow> (Some (''create '' @ out_file @ '': '' @ e), st)
        | None \<Rightarrow>
            (None, gen_log (''  '' @ out_file @ '': '' @ itoa (int (schema_count c)) @ '' components'' @ nl)
              (st\<lparr>gs_files := (out_file, written) # filter (\<lambda>(p, _). p \<noteq> out_file) (gs_files st)\<rparr>))))"

definition put_schema :: "gen_world \<Rightarrow> schema \<Rightarrow> schema_format \<Rightarrow> registry_fs \<Rightarrow> registry_fs" where
  "put_schema gw c format fs =
     (let dir = sch_distribution c; name = sch_collector_version c @ ''.'' @ format_string format in
      fs\<lparr>rf_names := (rf_names fs)(dir := sort (remdups (name # rf_names fs dir))),
         rf_read := (rf_read fs)(dir := (rf_read fs dir)(name := gw_back gw c format))\<rparr>)"

definition make_dir :: "string \<Rightarrow> registry_fs \<Rightarrow> registry_fs" where
  "make_dir name fs =
     (case rf_dirs fs of
        Inl e \<Rightarrow> fs
      | Inr items \<Rightarrow>
          if (name, True) \<in> set items then fs
          else fs\<lparr>rf_dirs := Inr (sort_slice (\<lambda>a b. fst a < fst b) ((name, True) # items))\<rparr>)"

fun write_formats :: "gen_world \<Rightarrow> schema \<Rightarrow> schema_format list \<Rightarrow> registry_fs \<Rightarrow> string option \<times> registry_fs" where
  "write_formats gw c [] fs = (None, fs)"
| "write_formats gw c (format # rest) fs =
     (case rf_put fs (path_join [sch_distribution c, sch_collector_version c @ ''.'' @ format_string format]) of
        Some e \<Rightarrow> (Some e, fs)
      | None \<Rightarrow> write_formats gw c rest (put_schema gw c format fs))"

definition write_registry :: "gen_world \<Rightarrow> schema \<Rightarrow> schema_format list \<Rightarrow> gen_state \<Rightarrow> string option \<times> gen_state" where
  "write_registry gw c formats st =
     (case validate_destination (sch_distribution c) (sch_collector_version c) of
        Some e \<Rightarrow> (Some e, st)
      | None \<Rightarrow>
          (case (gw_root gw, gw_dir gw (sch_distribution c)) of
             (Some e, _) \<Rightarrow> (Some (''open registry: '' @ e), st)
           | (None, Some e) \<Rightarrow> (Some (''create distribution directory: '' @ e), st)
           | (None, None) \<Rightarrow>
               (case write_formats gw c formats (make_dir (sch_distribution c) (gs_registry st)) of
                  (Some e, fs) \<Rightarrow> (Some e, st\<lparr>gs_registry := fs\<rparr>)
                | (None, fs) \<Rightarrow>
                    (None, gen_log (''  '' @ sch_distribution c @ '' '' @ sch_collector_version c @ '': '' @
                       itoa (int (schema_count c)) @ '' components'' @ nl) (st\<lparr>gs_registry := fs\<rparr>)))))"

subsection \<open>summary.go\<close>

fun read_forms :: "registry_fs \<Rightarrow> string \<Rightarrow> string list \<Rightarrow> schema option" where
  "read_forms fs dir [] = None"
| "read_forms fs dir (name # names) =
     (if name \<notin> set (rf_names fs dir) then read_forms fs dir names
      else (case rf_read fs dir name of Inl _ \<Rightarrow> read_forms fs dir names | Inr c \<Rightarrow> Some c))"

definition read_version :: "registry_fs \<Rightarrow> string \<Rightarrow> string \<Rightarrow> schema option" where
  "read_version fs dir version = read_forms fs dir (release_files version)"

fun previous_loop :: "string \<Rightarrow> string list \<Rightarrow> string \<Rightarrow> string" where
  "previous_loop version [] newest = newest"
| "previous_loop version (v # vs) newest =
     (if 0 \<le> compare_version v version then previous_loop version vs newest
      else if newest = [] \<or> 0 < compare_version v newest then previous_loop version vs v
      else previous_loop version vs newest)"

definition previous_in :: "registry_fs \<Rightarrow> string \<Rightarrow> string \<Rightarrow> schema option" where
  "previous_in fs dir version =
     (let newest = previous_loop version (versions_in fs dir) [] in
      if newest = [] then None else read_version fs dir newest)"

definition summarise :: "string \<Rightarrow> string \<Rightarrow> schema \<Rightarrow> gen_state \<Rightarrow> gen_state" where
  "summarise summary_file registry c st =
     (if summary_file = [] \<or> registry = [] then st
      else (let fs = gs_registry st;
                previous = read_version fs (sch_distribution c) (sch_collector_version c);
                previous = (if previous = None then previous_in fs (sch_distribution c) (sch_collector_version c) else previous)
            in st\<lparr>gs_diffs := gs_diffs st @ [diff_schemas previous c]\<rparr>))"

definition summary_text :: "schema_diff list \<Rightarrow> string" where
  "summary_text ds =
     (if length ds = 0 then ''No schemas were generated.'' @ nl else join_strings nl (map markdown ds))"

definition write_summary :: "gen_world \<Rightarrow> string \<Rightarrow> gen_state \<Rightarrow> string option \<times> gen_state" where
  "write_summary gw summary_file st =
     (if summary_file = [] then (None, st)
      else if summary_file = stdout_marker then
        (case gw_out gw of
           Some e \<Rightarrow> (Some (''write summary: '' @ e), st)
         | None \<Rightarrow> (None, st\<lparr>gs_out := gs_out st @ [summary_text (gs_diffs st)]\<rparr>))
      else (case gw_create gw summary_file of
          Some e \<Rightarrow> (Some (''write summary: '' @ e), st)
        | None \<Rightarrow>
            (None, gen_log (''wrote '' @ summary_file @ '' ('' @ itoa (int (length (gs_diffs st))) @ '' distributions)'' @ nl)
              (st\<lparr>gs_files := (summary_file, summary_text (gs_diffs st)) #
                 filter (\<lambda>(p, _). p \<noteq> summary_file) (gs_files st)\<rparr>))))"

text \<open>The release a new one is compared with is the newest older one.\<close>

lemma previous_loop_spec:
  assumes "[] \<notin> set vs" "newest = [] \<or> compare_version newest version < 0"
  shows "let p = previous_loop version vs newest in
    if p = [] then newest = [] \<and> (\<forall>v \<in> set vs. 0 \<le> compare_version v version)
    else p \<in> insert newest (set vs) \<and> compare_version p version < 0 \<and>
      (\<forall>v \<in> insert newest (set vs). v \<noteq> [] \<longrightarrow> compare_version v version < 0 \<longrightarrow> compare_version v p \<le> 0)"
  using assms
proof (induction vs arbitrary: newest)
  case Nil
  then show ?case by (auto simp: rel.cmp_refl)
next
  case (Cons v vs)
  have vs: "[] \<notin> set vs" "v \<noteq> []" using Cons.prems(1) by auto
  show ?case
  proof (cases "0 \<le> compare_version v version")
    case True
    then show ?thesis using Cons.IH [OF vs(1) Cons.prems(2)] by (auto simp: Let_def)
  next
    case older: False
    show ?thesis
    proof (cases "newest = [] \<or> 0 < compare_version v newest")
      case True
      then have "previous_loop version (v # vs) newest = previous_loop version vs v" using older by simp
      moreover have "compare_version newest w \<le> 0" if "newest \<noteq> []" "compare_version v w \<le> 0" for w
        using True that rel.cmp_trans [of newest v w] rel.cmp_le_iff [of newest v] by simp
      ultimately show ?thesis
        using Cons.IH [OF vs(1), of v] older vs(2) by (auto simp: Let_def)
    next
      case False
      then have "previous_loop version (v # vs) newest = previous_loop version vs newest" using older by simp
      moreover have "compare_version v w \<le> 0" if "compare_version newest w \<le> 0" for w
        using False that rel.cmp_trans [of v newest w] by simp
      ultimately show ?thesis
        using Cons.IH [OF vs(1) Cons.prems(2)] False Cons.prems(2) by (auto simp: Let_def)
    qed
  qed
qed

subsection \<open>Example\<close>

text \<open>A registry of three releases, one of which brings an exporter, and a file beside it.\<close>

definition demo_registry :: registry_fs where
  "demo_registry =
     \<lparr>rf_path = ''registry'', rf_dirs = Inr [(''core'', True), (''index.json'', False)],
      rf_names = (\<lambda>d. if d = ''core'' then [''v0.100.0.json'', ''v0.101.0.json'', ''v0.102.0.json''] else []),
      rf_glob = (\<lambda>_ _ _. []), rf_read = (\<lambda>d n. Inr (demo_release (take 8 n)
        (if n = ''v0.102.0.json'' then [demo_entry ''otlp'' [] [], demo_entry ''kafka'' [] []] else [demo_entry ''otlp'' [] []]))),
      rf_stuck = (\<lambda>_ _. None), rf_put = (\<lambda>_. None), rf_index = None, rf_components = None, rf_log = []\<rparr>"

lemma publish_registry_consistent_witness:
  "\<exists>fs' idx. publish_registry 1 10 demo_registry = (None, fs') \<and> rf_index fs' = Some idx \<and>
     index_versions idx ''core'' = newest_first (versions_in fs' ''core'') \<and>
     set (versions_in fs' ''core'') = {''v0.100.0'', ''v0.102.0''}"
proof -
  have "fst (publish_registry 1 10 demo_registry) = None" by code_simp
  then obtain fs' where p: "publish_registry 1 10 demo_registry = (None, fs')" by (metis prod.collapse)
  have "rf_dirs demo_registry = Inr [(''core'', True), (''index.json'', False)]" by (simp add: demo_registry_def)
  moreover have "left_of 1 10 (versions_in demo_registry ''core'') = {''v0.100.0'', ''v0.102.0''}" by code_simp
  moreover have "means_itself demo_registry ''core''" by code_simp
  ultimately show ?thesis
    using publish_registry_consistent [OF p, of "[(''core'', True), (''index.json'', False)]" "''core''"] p by auto
qed

lemma published_spans_exact_witness:
  "\<exists>spans. spans_in demo_registry ''core'' [''v0.102.0'', ''v0.100.0''] = Inr spans \<and>
     (\<exists>tys runs. (Exporter, tys) \<in> set spans \<and> (''kafka'', runs) \<in> set tys \<and> covers runs ''v0.102.0'') \<and>
     \<not> (\<exists>tys runs. (Exporter, tys) \<in> set spans \<and> (''kafka'', runs) \<in> set tys \<and> covers runs ''v0.100.0'')"
proof -
  let ?vs = "[''v0.102.0'', ''v0.100.0'']"
  have "case spans_in demo_registry ''core'' ?vs of Inl _ \<Rightarrow> False | Inr _ \<Rightarrow> True" by code_simp
  then obtain spans where s: "spans_in demo_registry ''core'' ?vs = Inr spans" by (auto split: sum.splits)
  have order: "\<forall>a \<in> set ?vs. \<forall>b \<in> set ?vs. compare_version a b = 0 \<longrightarrow> a = b" by code_simp
  have "release_has demo_registry ''core'' ''v0.102.0'' Exporter ''kafka''"
    "\<not> release_has demo_registry ''core'' ''v0.100.0'' Exporter ''kafka''" by code_simp+
  then show ?thesis
    using published_spans_exact [OF s _ _ order, of "''v0.102.0''" Exporter "''kafka''"]
      published_spans_exact [OF s _ _ order, of "''v0.100.0''" Exporter "''kafka''"] s by simp
qed

end
