(* ===== verification/FieldSchemas.thy ===== *)
theory FieldSchemas
  imports Schema Paths Sets Yaml
begin

section \<open>Field schemas from published documents\<close>

text \<open>
  \<open>pkg/cmd/schemagen/fields.go\<close>: a published config schema becomes the field model of a component, following
  references through the documents of the distribution, and is folded into what the sources say. A map of
  the documents is the list of its entries, each key once; an enum is kept as the texts of its nodes, and
  \<open>additionalProperties\<close> as whether it is there, which is all the code asks. A \<open>null\<close> where a schema is expected
  is dropped by the code wherever it is met, except as the one entry of \<open>items\<close> past the depth limit, and has no
  value here. \<open>yaml.Unmarshal\<close> is a parameter.
\<close>

datatype json_schema =
  JsonSchema (js_ref: string) (js_type: string) (js_format: string) (js_description: string)
    (js_properties: "(string \<times> json_schema) list") (js_items: "json_schema option") (js_enum: "string list")
    (js_defs: "(string \<times> json_schema) list") (js_all_of: "json_schema list") (js_additional: bool)

record schema_set =
  ss_by_key :: "string \<Rightarrow> json_schema option"
  ss_seen :: "string go_set"

definition max_field_depth :: nat where "max_field_depth = 64"

definition new_schema_set :: schema_set where
  "new_schema_set = \<lparr>ss_by_key = Map.empty, ss_seen = set_new []\<rparr>"

definition repository_roots :: "string list" where
  "repository_roots = [''go.opentelemetry.io/collector'', ''github.com/open-telemetry/opentelemetry-collector-contrib'']"

definition repository_path :: "string \<Rightarrow> string option" where
  "repository_path import_path =
     (case List.map_filter (\<lambda>top. cut_prefix import_path (top @ ''/'')) repository_roots of
        [] \<Rightarrow> None | rest # _ \<Rightarrow> Some (''/'' @ rest))"

definition add_document :: "(string \<Rightarrow> json_schema go_result) \<Rightarrow> string \<Rightarrow> string \<Rightarrow> schema_set \<Rightarrow> schema_set" where
  "add_document unmarshal import_path raw s =
     (case unmarshal raw of
        Inl _ \<Rightarrow> s
      | Inr doc \<Rightarrow>
          let s = s\<lparr>ss_by_key := (ss_by_key s)(import_path \<mapsto> doc), ss_seen := set_insert (ss_seen s) [import_path]\<rparr> in
          (case repository_path import_path of
             None \<Rightarrow> s | Some repo \<Rightarrow> s\<lparr>ss_by_key := (ss_by_key s)(repo \<mapsto> doc)\<rparr>))"

definition set_count :: "schema_set \<Rightarrow> nat" where
  "set_count s = set_len (ss_seen s)"

subsection \<open>References\<close>

definition last_dot :: "string \<Rightarrow> string \<times> string \<times> bool" where
  "last_dot ref =
     (if CHR ''.'' \<notin> set ref then (ref, [], False)
      else (let name = rev (takeWhile (\<lambda>c. c \<noteq> CHR ''.'') (rev ref))
            in (take (length ref - length name - 1) ref, name, True)))"

definition is_relative :: "string \<Rightarrow> bool" where
  "is_relative s \<longleftrightarrow> has_prefix s ''./'' \<or> has_prefix s ''../''"

definition def_of :: "schema_set \<Rightarrow> string \<Rightarrow> string \<Rightarrow> json_schema option" where
  "def_of s key name =
     (case List.map_filter (ss_by_key s) [key, ''/'' @ key, trim_prefix key ''/''] of
        [] \<Rightarrow> None | owner # _ \<Rightarrow> map_of (js_defs owner) name)"

definition lookup_ref :: "schema_set \<Rightarrow> string \<Rightarrow> string \<Rightarrow> json_schema option" where
  "lookup_ref s ref from_dir =
     (case last_dot ref of (where_, name, found) \<Rightarrow>
        if \<not> found then def_of s from_dir ref
        else if is_relative where_ then def_of s (path_join [from_dir, where_]) name
        else def_of s where_ name)"

definition ref_key :: "string \<Rightarrow> string \<Rightarrow> string" where
  "ref_key ref from_dir =
     (case last_dot ref of (where_, name, found) \<Rightarrow>
        if \<not> found then from_dir @ ''.'' @ ref
        else if is_relative where_ then path_join [from_dir, where_] @ ''.'' @ name
        else where_ @ ''.'' @ name)"

definition ref_dir :: "string \<Rightarrow> string \<Rightarrow> string" where
  "ref_dir ref from_dir =
     (case last_dot ref of (where_, name, found) \<Rightarrow>
        if \<not> found then from_dir
        else if is_relative where_ then path_join [from_dir, where_]
        else if has_prefix where_ ''/'' then trim_prefix where_ ''/''
        else where_)"

subsection \<open>A document as a field\<close>

definition field_type :: "json_schema \<Rightarrow> string" where
  "field_type doc =
     (if js_format doc = ''duration'' then ''duration''
      else if js_type doc = ''object'' then ''map''
      else if js_type doc = ''array'' then ''list''
      else if js_type doc = ''string'' then ''string''
      else if js_type doc = ''integer'' then ''int''
      else if js_type doc = ''number'' then ''float''
      else if js_type doc = ''boolean'' then ''bool''
      else [])"

definition enum_values :: "string list \<Rightarrow> string list" where
  "enum_values nodes = filter (\<lambda>v. v \<noteq> []) nodes"

definition first_line :: "string \<Rightarrow> string" where
  "first_line s = trim_space (fst (cut s [CHR 0x0A]))"

definition start_field :: "json_schema \<Rightarrow> field" where
  "start_field doc = Field (field_type doc) [] [] (enum_values (js_enum doc)) False [] (first_line (js_description doc)) []"

fun with_type :: "string \<Rightarrow> field \<Rightarrow> field" where
  "with_type t (Field _ cs req en open dep doc ext) = Field t cs req en open dep doc ext"

fun with_open :: "bool \<Rightarrow> field \<Rightarrow> field" where
  "with_open b (Field t cs req en _ dep doc ext) = Field t cs req en b dep doc ext"

fun with_children :: "(string \<times> field) list \<Rightarrow> field \<Rightarrow> field" where
  "with_children cs (Field t _ req en open dep doc ext) = Field t cs req en open dep doc ext"

text \<open>\<open>merge\<close>: the referring schema wins.\<close>

definition merge_field :: "field \<Rightarrow> field option \<Rightarrow> field" where
  "merge_field into from =
     (case from of
        None \<Rightarrow> into
      | Some f \<Rightarrow>
          Field (if fd_type into = [] then fd_type f else fd_type into)
            (fd_children into @ filter (\<lambda>(name, _). map_of (fd_children into) name = None) (fd_children f))
            (fd_required into)
            (if length (fd_enum into) = 0 then fd_enum f else fd_enum into)
            (if fd_open f then True else fd_open into)
            (fd_deprecated into)
            (if fd_doc into = [] then fd_doc f else fd_doc into)
            (if fd_extension_ref into = [] then fd_extension_ref f else fd_extension_ref into))"

definition put_child :: "string \<Rightarrow> field \<Rightarrow> field \<Rightarrow> field" where
  "put_child name child f =
     with_children (if map_of (fd_children f) name = None then fd_children f @ [(name, child)]
       else map (\<lambda>(n, c). (n, if n = name then child else c)) (fd_children f)) f"

definition settle_shape :: "field \<Rightarrow> json_schema \<Rightarrow> field" where
  "settle_shape out doc =
     (let out = (if 0 < length (fd_children out) \<and> fd_type out = [] then with_type ''map'' out else out);
          out = (if js_additional doc then with_open True out else out)
      in if fd_type out = ''map'' \<and> length (fd_children out) = 0 then
           (let out = with_open True out in if \<not> js_additional doc then with_type [] out else out)
         else out)"

text \<open>
  \<open>field\<close>: the depth bounds the recursion, which follows references as well as the document, so that is what
  decreases. The order of \<open>properties\<close> does not matter: each writes a child of its own.
\<close>

function to_field :: "schema_set \<Rightarrow> json_schema option \<Rightarrow> string \<Rightarrow> string list \<Rightarrow> nat \<Rightarrow> field option" where
  "to_field s doc dir seen depth =
     (case doc of
        None \<Rightarrow> None
      | Some d \<Rightarrow>
          if max_field_depth < depth then None
          else if js_ref d \<noteq> [] then
            (if ref_key (js_ref d) dir \<in> set seen then Some (with_open True (with_type ''map'' (start_field d)))
             else Some (merge_field (start_field d)
               (to_field s (lookup_ref s (js_ref d) dir) (ref_dir (js_ref d) dir) (seen @ [ref_key (js_ref d) dir]) (depth + 1))))
          else
            let out = foldl (\<lambda>out one. merge_field out (to_field s (Some one) dir seen (depth + 1))) (start_field d) (js_all_of d);
                out = (case js_items d of
                    None \<Rightarrow> out
                  | Some items \<Rightarrow>
                      with_children (case to_field s (Some items) dir seen (depth + 1) of
                          None \<Rightarrow> [] | Some f \<Rightarrow> [(''item'', f)]) (with_type ''list'' out));
                out = foldl (\<lambda>out (name, prop). case to_field s (Some prop) dir seen (depth + 1) of
                    None \<Rightarrow> out | Some child \<Rightarrow> put_child name child out) out (js_properties d)
            in Some (settle_shape out d))"
  by pat_completeness auto
termination
  by (relation "measure (\<lambda>(s, doc, dir, seen, depth). Suc max_field_depth - depth)") (auto simp: max_field_depth_def)

declare to_field.simps [simp del]

subsection \<open>Folding the published schema into the sources\<close>

definition settled_open :: "field \<Rightarrow> field \<Rightarrow> bool" where
  "settled_open primary secondary =
     (if fd_open secondary then True
      else if \<not> fd_open primary \<or> length (fd_children secondary) = 0 then fd_open primary
      else if list_ex (\<lambda>(name, _). map_of (fd_children primary) name = None) (fd_children secondary) then False
      else fd_open primary)"


text \<open>
  \<open>enrich\<close>. It writes through the primary; a key the primary lacks is given the secondary's own field.
\<close>

lemma children_size [termination_simp]: "(name, child) \<in> set (fd_children f) \<Longrightarrow> size child < size f"
proof (cases f)
  case (Field t cs r e op d doc x)
  assume m: "(name, child) \<in> set (fd_children f)"
  then have "size_prod (\<lambda>x. 0) size (name, child) \<le> size_list (size_prod (\<lambda>x. 0) size) cs"
    using Field by (intro size_list_estimation'[of "(name, child)"]) auto
  then show ?thesis using Field by simp
qed

definition enrich_header :: "field \<Rightarrow> field \<Rightarrow> field" where
  "enrich_header primary secondary =
     Field (fd_type primary) (fd_children primary) (fd_required primary)
       (if length (fd_enum primary) = 0 then fd_enum secondary else fd_enum primary)
       (settled_open primary secondary) (fd_deprecated primary)
       (if fd_doc primary = [] then fd_doc secondary else fd_doc primary)
       (if fd_extension_ref primary = [] then fd_extension_ref secondary else fd_extension_ref primary)"

fun enrich :: "field \<Rightarrow> field \<Rightarrow> field" where
  "enrich primary secondary =
     foldl (\<lambda>out (name, child).
         case map_of (fd_children out) name of
           Some existing \<Rightarrow> put_child name (enrich existing child) out
         | None \<Rightarrow> put_child name child out)
       (enrich_header primary secondary) (fd_children secondary)"

declare enrich.simps [simp del]

text \<open>\<open>attachFields\<close>, over the components of an inventory; the count is of those that gained a published schema.\<close>

definition attach_field :: "schema_set \<Rightarrow> scomp \<Rightarrow> scomp \<times> nat" where
  "attach_field s c =
     (case ss_by_key s (sc_module c) of
        None \<Rightarrow> (c, 0)
      | Some doc \<Rightarrow>
          (case to_field s (Some doc) (sc_module c) [] 0 of
             None \<Rightarrow> (c, 0)
           | Some f \<Rightarrow>
               if length (fd_children f) = 0 then (c, 0)
               else (c\<lparr>sc_fields := Some (case sc_fields c of None \<Rightarrow> f | Some own \<Rightarrow> enrich own f)\<rparr>, 1)))"

definition attach_fields :: "schema_set \<Rightarrow> schema \<Rightarrow> schema \<times> nat" where
  "attach_fields s sch =
     (sch\<lparr>sch_components := \<lambda>k. map (\<lambda>(name, c). (name, fst (attach_field s c))) (sch_components sch k)\<rparr>,
      sum_list (map (\<lambda>k. sum_list (map (\<lambda>(_, c). snd (attach_field s c)) (sch_components sch k))) kinds))"

subsection \<open>What a field schema knows\<close>

text \<open>The field a path of keys leads to, and that no mapping of a schema has a key twice.\<close>

fun field_at :: "field \<Rightarrow> string list \<Rightarrow> field option" where
  "field_at f [] = Some f"
| "field_at f (k # ks) = (case map_of (fd_children f) k of None \<Rightarrow> None | Some c \<Rightarrow> field_at c ks)"

fun keyed :: "field \<Rightarrow> bool" where
  "keyed f \<longleftrightarrow> distinct (map fst (fd_children f)) \<and> list_all (\<lambda>(_, c). keyed c) (fd_children f)"

declare keyed.simps [simp del]

lemma with_children_sel [simp]:
  "fd_type (with_children cs f) = fd_type f" "fd_children (with_children cs f) = cs"
  "fd_required (with_children cs f) = fd_required f" "fd_enum (with_children cs f) = fd_enum f"
  "fd_open (with_children cs f) = fd_open f" "fd_deprecated (with_children cs f) = fd_deprecated f"
  "fd_doc (with_children cs f) = fd_doc f" "fd_extension_ref (with_children cs f) = fd_extension_ref f"
  by (cases f, simp)+

lemma map_of_replace:
  "map_of (map (\<lambda>(n, c). (n, if n = name then child else c)) cs) k =
     (if k = name \<and> map_of cs name \<noteq> None then Some child else map_of cs k)"
  by (induction cs) auto

lemma put_child_lookup [simp]:
  "map_of (fd_children (put_child name child f)) k = (if k = name then Some child else map_of (fd_children f) k)"
  by (auto simp: put_child_def map_of_replace map_add_def split: option.splits)

lemma put_child_sel [simp]:
  "fd_type (put_child name child f) = fd_type f" "fd_required (put_child name child f) = fd_required f"
  "fd_enum (put_child name child f) = fd_enum f" "fd_open (put_child name child f) = fd_open f"
  "fd_deprecated (put_child name child f) = fd_deprecated f" "fd_doc (put_child name child f) = fd_doc f"
  "fd_extension_ref (put_child name child f) = fd_extension_ref f"
  by (simp_all add: put_child_def)

definition enrich_child :: "(field \<Rightarrow> field \<Rightarrow> field) \<Rightarrow> field \<Rightarrow> string \<times> field \<Rightarrow> field" where
  "enrich_child combine out nc =
     (case nc of (name, child) \<Rightarrow>
        case map_of (fd_children out) name of
          Some existing \<Rightarrow> put_child name (combine existing child) out
        | None \<Rightarrow> put_child name child out)"

lemma enrich_fold: "enrich p s = foldl (enrich_child enrich) (enrich_header p s) (fd_children s)"
proof -
  have "enrich_child enrich = (\<lambda>out (name, child).
         case map_of (fd_children out) name of
           Some existing \<Rightarrow> put_child name (enrich existing child) out
         | None \<Rightarrow> put_child name child out)"
    by (intro ext) (simp add: enrich_child_def)
  then show ?thesis by (subst enrich.simps) simp
qed

lemma enrich_loop_lookup:
  assumes "distinct (map fst cs)"
  shows "map_of (fd_children (foldl (enrich_child combine) out cs)) k =
     (case map_of cs k of
        None \<Rightarrow> map_of (fd_children out) k
      | Some c \<Rightarrow> Some (case map_of (fd_children out) k of None \<Rightarrow> c | Some e \<Rightarrow> combine e c))"
  using assms
proof (induction cs arbitrary: out)
  case (Cons nc cs)
  obtain name child where nc: "nc = (name, child)" by (cases nc)
  have step: "map_of (fd_children (enrich_child combine out (name, child))) k' =
      (if k' = name then Some (case map_of (fd_children out) name of None \<Rightarrow> child | Some e \<Rightarrow> combine e child)
       else map_of (fd_children out) k')" for k'
    by (simp add: enrich_child_def split: option.split)
  have fresh: "map_of cs name = None" using Cons.prems by (simp add: nc map_of_eq_None_iff)
  have rest: "distinct (map fst cs)" using Cons.prems by simp
  show ?case using fresh by (simp add: Cons.IH[OF rest] step nc split: option.split)
qed simp

lemma enrich_child_sel [simp]:
  "fd_type (enrich_child combine out nc) = fd_type out" "fd_required (enrich_child combine out nc) = fd_required out"
  "fd_enum (enrich_child combine out nc) = fd_enum out" "fd_open (enrich_child combine out nc) = fd_open out"
  "fd_deprecated (enrich_child combine out nc) = fd_deprecated out" "fd_doc (enrich_child combine out nc) = fd_doc out"
  "fd_extension_ref (enrich_child combine out nc) = fd_extension_ref out"
  by (cases nc, simp add: enrich_child_def split: option.split)+

lemma enrich_loop_sel [simp]:
  "fd_type (foldl (enrich_child combine) out cs) = fd_type out"
  "fd_required (foldl (enrich_child combine) out cs) = fd_required out"
  "fd_enum (foldl (enrich_child combine) out cs) = fd_enum out"
  "fd_open (foldl (enrich_child combine) out cs) = fd_open out"
  "fd_deprecated (foldl (enrich_child combine) out cs) = fd_deprecated out"
  "fd_doc (foldl (enrich_child combine) out cs) = fd_doc out"
  "fd_extension_ref (foldl (enrich_child combine) out cs) = fd_extension_ref out"
  by (induction cs arbitrary: out) simp_all

lemma enrich_header_children [simp]: "fd_children (enrich_header p s) = fd_children p"
  by (simp add: enrich_header_def)

lemma enrich_lookup:
  assumes "distinct (map fst (fd_children s))"
  shows "map_of (fd_children (enrich p s)) k =
     (case map_of (fd_children s) k of
        None \<Rightarrow> map_of (fd_children p) k
      | Some c \<Rightarrow> Some (case map_of (fd_children p) k of None \<Rightarrow> c | Some e \<Rightarrow> enrich e c))"
  by (simp add: enrich_fold enrich_loop_lookup[OF assms] split: option.split)

lemma keyed_child: "keyed f \<Longrightarrow> map_of (fd_children f) k = Some c \<Longrightarrow> keyed c"
  by (subst (asm) keyed.simps) (auto simp: list_all_iff dest: map_of_SomeD)

lemma keyed_distinct: "keyed f \<Longrightarrow> distinct (map fst (fd_children f))"
  by (subst (asm) keyed.simps) simp

text \<open>What enriching says of one field: the primary's own statements win, and its type and required keys stand.\<close>

definition enriched :: "field \<Rightarrow> field \<Rightarrow> field \<Rightarrow> bool" where
  "enriched out p s \<longleftrightarrow>
     fd_type out = fd_type p \<and> fd_required out = fd_required p \<and> fd_deprecated out = fd_deprecated p \<and>
     fd_doc out = (if fd_doc p = [] then fd_doc s else fd_doc p) \<and>
     fd_enum out = (if fd_enum p = [] then fd_enum s else fd_enum p) \<and>
     fd_extension_ref out = (if fd_extension_ref p = [] then fd_extension_ref s else fd_extension_ref p) \<and>
     (fd_open out \<longleftrightarrow> fd_open s \<or>
        fd_open p \<and> fst ` set (fd_children s) \<subseteq> fst ` set (fd_children p))"

lemma enrich_enriched: "enriched (enrich p s) p s"
  by (auto simp: enriched_def enrich_fold enrich_header_def settled_open_def list_ex_iff map_of_eq_None_iff
      image_iff subset_iff split: prod.splits; force)

lemma field_at_enrich:
  assumes "keyed s"
  shows "field_at (enrich p s) ks =
     (case field_at p ks of
        None \<Rightarrow> field_at s ks
      | Some e \<Rightarrow> Some (case field_at s ks of None \<Rightarrow> e | Some c \<Rightarrow> enrich e c))"
  using assms
proof (induction ks arbitrary: p s)
  case (Cons k ks)
  note look = enrich_lookup[OF keyed_distinct[OF Cons.prems], of p k]
  show ?case
  proof (cases "map_of (fd_children s) k")
    case None
    then show ?thesis by (simp add: look split: option.split)
  next
    case (Some c)
    then have "keyed c" using keyed_child Cons.prems by blast
    then show ?thesis using Cons.IH by (simp add: look Some split: option.split)
  qed
qed simp

text \<open>
  C36: folding the published schema of a component into what its sources say loses nothing and invents nothing.
  A path of keys is known afterwards exactly when one of the two knew it; where only one did, its field stands
  as it was; and where both did, the type, the required keys and the deprecation of the sources stand, the
  description, the enum and the extension role are filled in only where the sources have none, and the mapping
  is open exactly when the published one is, or the sources left it open and the published one names no key
  they do not have.
\<close>

theorem enrich_only_adds:
  assumes "keyed published"
  shows "case (field_at sources ks, field_at published ks) of
      (None, None) \<Rightarrow> field_at (enrich sources published) ks = None
    | (Some f, None) \<Rightarrow> field_at (enrich sources published) ks = Some f
    | (None, Some g) \<Rightarrow> field_at (enrich sources published) ks = Some g
    | (Some f, Some g) \<Rightarrow> \<exists>out. field_at (enrich sources published) ks = Some out \<and> enriched out f g"
  by (simp add: field_at_enrich[OF assms] enrich_enriched split: option.split)

definition leaf :: "string \<Rightarrow> string \<Rightarrow> field" where
  "leaf t doc = Field t [] [] [] False [] doc []"

lemma enrich_only_adds_witness:
  "\<exists>out. field_at (enrich (Field ''map'' [(''url'', leaf ''string'' [])] [''url''] [] True [] [] [])
        (Field ''map'' [(''url'', leaf [] ''where to''), (''tls'', leaf ''map'' [])] [] [] False [] [] [])) [''url''] = Some out
      \<and> enriched out (leaf ''string'' []) (leaf [] ''where to'')"
proof -
  have "keyed (Field ''map'' [(''url'', leaf [] ''where to''), (''tls'', leaf ''map'' [])] [] [] False [] [] [])"
    by (simp add: keyed.simps leaf_def)
  from enrich_only_adds[OF this, of "Field ''map'' [(''url'', leaf ''string'' [])] [''url''] [] True [] [] []" "[''url'']"]
  show ?thesis by simp
qed

subsection \<open>Every document becomes a field\<close>

text \<open>A reference already followed on this path is an open mapping, whatever it names.\<close>

lemma reference_cycle:
  assumes "js_ref d \<noteq> []" and "ref_key (js_ref d) dir \<in> set seen" and "depth \<le> max_field_depth"
  shows "\<exists>f. to_field s (Some d) dir seen depth = Some f \<and> fd_type f = ''map'' \<and> fd_open f \<and> fd_children f = []"
  using assms by (subst to_field.simps) (simp add: start_field_def)

lemma to_field_some:
  "to_field s doc dir seen depth \<noteq> None \<longleftrightarrow> doc \<noteq> None \<and> depth \<le> max_field_depth"
  by (subst to_field.simps) (auto simp: Let_def split: option.splits)

text \<open>A mapping without keys is left open, and without \<open>additionalProperties\<close> it constrains nothing.\<close>

lemma settle_shape_spec:
  "fd_children (settle_shape out d) = fd_children out \<and>
   (fd_children out \<noteq> [] \<and> fd_type out = [] \<longrightarrow> fd_type (settle_shape out d) = ''map'') \<and>
   (js_additional d \<longrightarrow> fd_open (settle_shape out d)) \<and>
   (fd_children out = [] \<and> fd_type out = ''map'' \<longrightarrow>
      fd_open (settle_shape out d) \<and> fd_type (settle_shape out d) = (if js_additional d then ''map'' else []))"
  by (cases out) (auto simp: settle_shape_def Let_def)

end
