(* ===== verification/GoSources.thy ===== *)
theory GoSources
  imports FieldSchemas
begin

section \<open>Field schemas from Go sources\<close>

text \<open>
  \<open>pkg/cmd/schemagen/gosource.go\<close>: the settings of a component are the \<open>mapstructure\<close> tags of its config
  struct. A parsed file is data of \<open>go/ast\<close>: the expressions the code tells apart, a string literal as the
  string it denotes, a struct tag as the pairs \<open>reflect.StructTag\<close> reads from it, a comment as its text.
  \<open>go/parser\<close> is a parameter, and a Go name is exported when it starts with a capital letter of ASCII.
\<close>

datatype go_expr =
  Ident string
| Selector go_expr string
| Star go_expr
| IndexOf go_expr go_expr
| ArrayOf "go_expr option" go_expr
| MapOf go_expr go_expr
| InterfaceOf
| StructOf "go_field list"
| OtherExpr
and go_field =
  GoField (gf_names: "string list") (gf_type: go_expr) (gf_tag: "(string \<times> string) list option")
    (gf_doc: "string option") (gf_comment: "string option")

record go_method =
  gm_receiver :: "go_expr list"
  gm_name :: string
  gm_params :: "go_expr list"

datatype go_decl = FuncDecl go_method | TypeDecl "(string \<times> go_expr) list" | OtherDecl

record go_source =
  sf_imports :: "(string option \<times> string) list"
  sf_decls :: "go_decl list"

record go_type =
  gt_struct :: "go_field list option"
  gt_under :: "go_expr option"
  gt_pkg :: string
  gt_imports :: "string \<Rightarrow> string"

record go_index =
  gi_by_name :: "string \<Rightarrow> go_type option"
  gi_textual :: "string go_set"
  gi_self_decoding :: "string go_set"

definition max_alias_hops :: nat where "max_alias_hops = 8"

definition component_id_type :: string where
  "component_id_type = ''go.opentelemetry.io/collector/component.ID''"

definition confmap_conf_type :: string where
  "confmap_conf_type = ''go.opentelemetry.io/collector/confmap.Conf''"

definition new_go_index :: go_index where
  "new_go_index = \<lparr>gi_by_name = Map.empty, gi_textual = set_new [], gi_self_decoding = set_new []\<rparr>"

subsection \<open>Names of types\<close>

fun unwrap :: "go_expr \<Rightarrow> go_expr" where
  "unwrap (Star x) = unwrap x"
| "unwrap (IndexOf x i) = unwrap i"
| "unwrap e = e"

fun expr_name :: "go_expr \<Rightarrow> string" where
  "expr_name (Ident n) = n"
| "expr_name (Selector (Ident pkg) n) = pkg @ ''.'' @ n"
| "expr_name (Star x) = expr_name x"
| "expr_name _ = []"

definition resolve_type :: "go_type \<Rightarrow> go_expr \<Rightarrow> string" where
  "resolve_type decl e =
     (case unwrap e of
        Ident n \<Rightarrow> gt_pkg decl @ ''.'' @ n
      | Selector (Ident pkg) n \<Rightarrow> gt_imports decl pkg @ ''.'' @ n
      | _ \<Rightarrow> [])"

definition basic_kind :: "string \<Rightarrow> string" where
  "basic_kind name =
     (if name = ''string'' then ''string''
      else if name = ''bool'' then ''bool''
      else if name \<in> set [''float32'', ''float64''] then ''float''
      else if name \<in> set [''int'', ''int8'', ''int16'', ''int32'', ''int64'', ''uint'', ''uint8'', ''uint16'',
          ''uint32'', ''uint64'', ''uintptr'', ''byte'', ''rune''] then ''int''
      else [])"

subsection \<open>The index\<close>

definition file_imports :: "go_source \<Rightarrow> string \<Rightarrow> string" where
  "file_imports file =
     foldl (\<lambda>out (name, p). out((case name of None \<Rightarrow> path_base p | Some n \<Rightarrow> n) := p)) (\<lambda>_. []) (sf_imports file)"

definition takes_confmap :: "go_method \<Rightarrow> (string \<Rightarrow> string) \<Rightarrow> bool" where
  "takes_confmap m imports \<longleftrightarrow>
     (if length (gm_params m) \<noteq> 1 then False
      else (case cut (expr_name (unwrap (gm_params m ! 0))) ''.'' of
          (pkg, name, found) \<Rightarrow> found \<and> imports pkg @ ''.'' @ name = confmap_conf_type))"

definition add_method :: "string \<Rightarrow> (string \<Rightarrow> string) \<Rightarrow> go_method \<Rightarrow> go_index \<Rightarrow> go_index" where
  "add_method import_path imports m g =
     (if length (gm_receiver m) = 0 then g
      else (let name = expr_name (unwrap (gm_receiver m ! 0)) in
        if name = [] then g
        else if gm_name m = ''UnmarshalText'' then
          g\<lparr>gi_textual := set_insert (gi_textual g) [import_path @ ''.'' @ name]\<rparr>
        else if gm_name m = ''Unmarshal'' \<and> takes_confmap m imports then
          g\<lparr>gi_self_decoding := set_insert (gi_self_decoding g) [import_path @ ''.'' @ name]\<rparr>
        else g))"

definition add_type :: "string \<Rightarrow> (string \<Rightarrow> string) \<Rightarrow> go_index \<Rightarrow> string \<times> go_expr \<Rightarrow> go_index" where
  "add_type import_path imports g spec =
     (case spec of (name, e) \<Rightarrow>
        let t = (case e of
              StructOf fs \<Rightarrow> \<lparr>gt_struct = Some fs, gt_under = None, gt_pkg = import_path, gt_imports = imports\<rparr>
            | _ \<Rightarrow> \<lparr>gt_struct = None, gt_under = Some e, gt_pkg = import_path, gt_imports = imports\<rparr>)
        in g\<lparr>gi_by_name := (gi_by_name g)(import_path @ ''.'' @ name \<mapsto> t)\<rparr>)"

definition add_decl :: "string \<Rightarrow> (string \<Rightarrow> string) \<Rightarrow> go_index \<Rightarrow> go_decl \<Rightarrow> go_index" where
  "add_decl import_path imports g d =
     (case d of
        FuncDecl m \<Rightarrow> add_method import_path imports m g
      | TypeDecl specs \<Rightarrow> foldl (add_type import_path imports) g specs
      | OtherDecl \<Rightarrow> g)"

definition add_source :: "(string \<Rightarrow> go_source go_result) \<Rightarrow> string \<Rightarrow> string \<Rightarrow> go_index \<Rightarrow> go_index" where
  "add_source parse_go import_path src g =
     (case parse_go src of
        Inl _ \<Rightarrow> g
      | Inr file \<Rightarrow> foldl (add_decl import_path (file_imports file)) g (sf_decls file))"

text \<open>\<open>derefKey\<close>, within the hops that are left.\<close>

fun deref_hops :: "nat \<Rightarrow> go_index \<Rightarrow> string \<Rightarrow> go_type option \<times> string" where
  "deref_hops 0 g key = (None, key)"
| "deref_hops (Suc n) g key =
     (case gi_by_name g key of
        None \<Rightarrow> (None, key)
      | Some decl \<Rightarrow>
          (case gt_under decl of
             None \<Rightarrow> (Some decl, key)
           | Some def_expr \<Rightarrow>
               if gt_struct decl \<noteq> None then (Some decl, key)
               else (let goal = resolve_type decl def_expr in
                 if goal = [] \<or> goal = key then (Some decl, key)
                 else if gi_by_name g goal = None then (Some decl, key)
                 else deref_hops n g goal)))"

definition deref_key :: "go_index \<Rightarrow> string \<Rightarrow> go_type option \<times> string" where
  "deref_key g key = deref_hops max_alias_hops g key"

definition deref :: "go_index \<Rightarrow> string \<Rightarrow> go_type option" where
  "deref g key = fst (deref_key g key)"

subsection \<open>One struct field\<close>

definition tag_get :: "(string \<times> string) list \<Rightarrow> string \<Rightarrow> string" where
  "tag_get tag key = (case map_of tag key of None \<Rightarrow> [] | Some v \<Rightarrow> v)"

definition is_exported :: "string \<Rightarrow> bool" where
  "is_exported name \<longleftrightarrow> name \<noteq> [] \<and> hd name \<in> set ''ABCDEFGHIJKLMNOPQRSTUVWXYZ''"

definition mapstructure_name :: "go_field \<Rightarrow> string \<times> bool \<times> bool" where
  "mapstructure_name f =
     (let tag = (case gf_tag f of None \<Rightarrow> [] | Some t \<Rightarrow> tag_get t ''mapstructure'') in
      case cut tag '','' of (name, opts, _) \<Rightarrow>
        if contains opts ''squash'' then ([], True, True)
        else if name = ''-'' \<or> name = [] then ([], False, False)
        else if 0 < length (gf_names f) \<and> \<not> is_exported (gf_names f ! 0) then ([], False, False)
        else (name, False, True))"

definition doc_text :: "go_field \<Rightarrow> string" where
  "doc_text f =
     (case gf_doc f of Some d \<Rightarrow> d | None \<Rightarrow> (case gf_comment f of Some c \<Rightarrow> c | None \<Rightarrow> []))"

definition extension_role :: "string \<Rightarrow> string" where
  "extension_role key =
     (if key = ''storage'' then role_storage else if key = ''authenticator'' then role_auth else role_extension)"

definition http_bookkeeping :: "string \<Rightarrow> go_field \<Rightarrow> bool" where
  "http_bookkeeping key f \<longleftrightarrow>
     (if key \<noteq> ''go.opentelemetry.io/collector/config/confighttp.ClientConfig'' \<and>
         key \<noteq> ''go.opentelemetry.io/collector/config/confighttp.ServerConfig'' then False
      else if length (gf_names f) \<noteq> 1 \<or> gf_tag f \<noteq> None then False
      else if gf_names f ! 0 = ''_'' then
        (case gf_type f of StructOf fs \<Rightarrow> length fs = 0 | _ \<Rightarrow> False)
      else if gf_names f ! 0 = ''deprecationWarnings'' then
        (case gf_type f of ArrayOf None (Ident n) \<Rightarrow> n = ''string'' | _ \<Rightarrow> False)
      else False)"

definition scalar_type :: "go_index \<Rightarrow> go_type \<Rightarrow> go_expr \<Rightarrow> string" where
  "scalar_type g decl e =
     (let name = expr_name (unwrap e) in
      if name = ''time.Duration'' then ''duration''
      else if basic_kind name \<noteq> [] then basic_kind name
      else if name = [] then []
      else if set_has (gi_textual g) (resolve_type decl e) then ''string''
      else (case deref g (resolve_type decl e) of
          None \<Rightarrow> ''map''
        | Some t \<Rightarrow>
            (case gt_under t of
               None \<Rightarrow> ''map''
             | Some def_expr \<Rightarrow>
                 if gt_struct t \<noteq> None then ''map''
                 else if expr_name def_expr = ''time.Duration'' then ''duration''
                 else basic_kind (expr_name def_expr))))"

subsection \<open>A struct as a field\<close>

text \<open>What a struct field adds: nothing mapstructure fills, the keys of a squashed struct, or a key of its own.\<close>

datatype contribution = Unfilled | Squashed "field option" | UnderKey string field

definition empty_map_field :: field where
  "empty_map_field = Field ''map'' [] [] [] False [] [] []"

definition merge_children :: "field \<Rightarrow> field \<Rightarrow> field" where
  "merge_children into from =
     with_open (fd_open into \<or> fd_open from)
       (with_children
         (fd_children into @ filter (\<lambda>(name, _). map_of (fd_children into) name = None) (fd_children from)) into)"

fun with_role :: "string \<Rightarrow> field \<Rightarrow> field" where
  "with_role r (Field t cs req en open dep doc _) = Field t cs req en open dep doc r"

definition add_struct_field :: "string \<Rightarrow> field \<times> bool \<Rightarrow> go_field \<times> contribution \<Rightarrow> field \<times> bool" where
  "add_struct_field declared_at st fc =
     (case (st, fc) of ((out, unfilled), f, c) \<Rightarrow>
        case c of
          Unfilled \<Rightarrow> (out, if \<not> http_bookkeeping declared_at f then True else unfilled)
        | Squashed None \<Rightarrow> (out, unfilled)
        | Squashed (Some nested) \<Rightarrow> (merge_children out nested, unfilled)
        | UnderKey name child \<Rightarrow> (put_child name child out, unfilled))"

definition finish_fields :: "go_index \<Rightarrow> string \<Rightarrow> field \<times> bool \<Rightarrow> field option" where
  "finish_fields g declared_at st =
     (case st of (out, unfilled) \<Rightarrow>
        if length (fd_children out) = 0 then None
        else Some (with_open (fd_open out \<or> unfilled \<and> set_has (gi_self_decoding g) declared_at) out))"

text \<open>
  \<open>fields\<close> and \<open>field\<close>. A struct at depth \<open>d\<close> asks for types at \<open>d\<close> and structs at \<open>d + 1\<close>; a type asks for
  smaller types and structs further down; a struct past the limit answers at once.
\<close>

lemma size_unwrap: "size (unwrap e) \<le> size e"
  by (induction e rule: unwrap.induct) simp_all

lemma size_element: "unwrap e = ArrayOf l elt \<Longrightarrow> size elt < size e"
  using size_unwrap[of e] by simp

function source_fields :: "go_index \<Rightarrow> string \<Rightarrow> string list \<Rightarrow> nat \<Rightarrow> field option"
  and source_field :: "go_index \<Rightarrow> go_type \<Rightarrow> go_expr \<Rightarrow> string \<Rightarrow> string list \<Rightarrow> nat \<Rightarrow> field" where
  "source_fields g key seen depth =
     (if max_field_depth < depth \<or> key \<in> set seen then None
      else (case deref_key g key of
          (None, _) \<Rightarrow> None
        | (Some decl, declared_at) \<Rightarrow>
            (case gt_struct decl of
               None \<Rightarrow> None
             | Some fs \<Rightarrow>
                 finish_fields g declared_at (foldl (add_struct_field declared_at) (empty_map_field, False)
                   (map (\<lambda>f. (f,
                      case mapstructure_name f of (name, squash, ok) \<Rightarrow>
                        if \<not> ok then Unfilled
                        else if squash then
                          Squashed (source_fields g (resolve_type decl (gf_type f)) (seen @ [key]) (depth + 1))
                        else
                          (let child = source_field g decl (gf_type f) (first_line (doc_text f)) (seen @ [key]) depth in
                           UnderKey name (if resolve_type decl (gf_type f) = component_id_type
                             then with_role (extension_role name) child else child)))) fs)))))"
| "source_field g decl e doc seen depth =
     (case unwrap e of
        ArrayOf l elt \<Rightarrow> Field ''list'' [(''item'', source_field g decl elt [] seen (depth + 1))] [] [] False [] doc []
      | MapOf k v \<Rightarrow> Field ''map'' [] [] [] True [] doc []
      | InterfaceOf \<Rightarrow> Field [] [] [] [] False [] doc []
      | _ \<Rightarrow>
          if scalar_type g decl e = ''map'' then
            (case source_fields g (resolve_type decl e) seen (depth + 1) of
               None \<Rightarrow> Field ''map'' [] [] [] True [] doc []
             | Some nested \<Rightarrow> Field ''map'' (fd_children nested) [] [] (fd_open nested) [] doc [])
          else Field (scalar_type g decl e) [] [] [] False [] doc [])"
  by pat_completeness auto
termination
  by (relation "measures [\<lambda>x. case x of
        Inl (g, key, seen, depth) \<Rightarrow> if max_field_depth < depth then 0 else 2 * (Suc max_field_depth - depth) + 1
      | Inr (g, decl, e, doc, seen, depth) \<Rightarrow> 2 * (Suc max_field_depth - depth),
     \<lambda>x. case x of Inl _ \<Rightarrow> 0 | Inr (g, decl, e, doc, seen, depth) \<Rightarrow> Suc (size e)]")
    (auto dest: size_element)

declare source_fields.simps [simp del] source_field.simps [simp del]

definition attach_source_field :: "go_index \<Rightarrow> scomp \<Rightarrow> scomp \<times> nat" where
  "attach_source_field g c =
     (if sc_fields c \<noteq> None \<or> sc_module c = [] then (c, 0)
      else (case source_fields g (sc_module c @ ''.Config'') [] 0 of
          None \<Rightarrow> (c, 0)
        | Some f \<Rightarrow> (c\<lparr>sc_fields := Some f\<rparr>, 1)))"

definition attach_source_fields :: "go_index \<Rightarrow> schema \<Rightarrow> schema \<times> nat" where
  "attach_source_fields g sch =
     (sch\<lparr>sch_components := \<lambda>k. map (\<lambda>(name, c). (name, fst (attach_source_field g c))) (sch_components sch k)\<rparr>,
      sum_list (map (\<lambda>k. sum_list (map (\<lambda>(_, c). snd (attach_source_field g c)) (sch_components sch k))) kinds))"

definition is_config_source :: "string \<Rightarrow> bool" where
  "is_config_source p \<longleftrightarrow> has_suffix (path_base p) ''.go'' \<and> \<not> has_suffix (path_base p) ''_test.go''"


text \<open>
  The kind of setting a type name stands for: the language's own types, a duration, a type that reads itself from
  text, a type defined as one of the first two, and otherwise a mapping.
\<close>

inductive builtin :: "string \<Rightarrow> string \<Rightarrow> bool" where
  "builtin ''string'' ''string''"
| "builtin ''bool'' ''bool''"
| "n \<in> {''float32'', ''float64''} \<Longrightarrow> builtin n ''float''"
| "n \<in> {''int'', ''int8'', ''int16'', ''int32'', ''int64'', ''uint'', ''uint8'', ''uint16'', ''uint32'', ''uint64'',
     ''uintptr'', ''byte'', ''rune''} \<Longrightarrow> builtin n ''int''"
| "builtin ''time.Duration'' ''duration''"

inductive names_type :: "go_index \<Rightarrow> go_type \<Rightarrow> go_expr \<Rightarrow> string \<Rightarrow> bool"
  for g :: go_index and decl :: go_type and e :: go_expr where
  own_type: "builtin (expr_name e) ty \<Longrightarrow> names_type g decl e ty"
| text_type: "\<nexists>ty. builtin (expr_name e) ty \<Longrightarrow> set_has (gi_textual g) (resolve_type decl e) \<Longrightarrow>
    names_type g decl e ''string''"
| defined_type: "\<nexists>ty. builtin (expr_name e) ty \<Longrightarrow> \<not> set_has (gi_textual g) (resolve_type decl e) \<Longrightarrow>
    deref g (resolve_type decl e) = Some t \<Longrightarrow> gt_struct t = None \<Longrightarrow> gt_under t = Some under_expr \<Longrightarrow>
    (if \<exists>b. builtin (expr_name under_expr) b then builtin (expr_name under_expr) ty else ty = []) \<Longrightarrow>
    names_type g decl e ty"
| struct_type: "\<nexists>ty. builtin (expr_name e) ty \<Longrightarrow> \<not> set_has (gi_textual g) (resolve_type decl e) \<Longrightarrow>
    deref g (resolve_type decl e) = Some t \<Longrightarrow> gt_struct t \<noteq> None \<or> gt_under t = None \<Longrightarrow>
    names_type g decl e ''map''"
| foreign_type: "\<nexists>ty. builtin (expr_name e) ty \<Longrightarrow> \<not> set_has (gi_textual g) (resolve_type decl e) \<Longrightarrow>
    deref g (resolve_type decl e) = None \<Longrightarrow> names_type g decl e ''map''"

lemma builtin_iff:
  "builtin n ty \<longleftrightarrow> (if n = ''time.Duration'' then ty = ''duration'' else basic_kind n \<noteq> [] \<and> ty = basic_kind n)"
  by (auto simp: builtin.simps basic_kind_def)

lemma builtin_ex: "(\<exists>ty. builtin n ty) \<longleftrightarrow> n = ''time.Duration'' \<or> basic_kind n \<noteq> []"
  by (auto simp: builtin_iff)

lemma names_type_iff:
  assumes "e = Ident n \<or> e = Selector (Ident pkg) n" "expr_name e \<noteq> []"
  shows "names_type g decl e ty \<longleftrightarrow> ty = scalar_type g decl e"
proof -
  have e: "unwrap e = e" using assms(1) by auto
  show ?thesis
    unfolding names_type.simps builtin_ex unfolding builtin_iff scalar_type_def e Let_def
    using assms(2) by (auto split: option.splits if_splits)
qed

subsection \<open>What a tag and a type say\<close>

text \<open>
  Read off the text of a tag: what stands before its first comma is the key, and the word \<open>squash\<close> among what
  stands after it asks for the keys of the field's own struct. A key is taken from an exported or embedded field only.
\<close>

definition tag_text :: "go_field \<Rightarrow> string" where
  "tag_text f = (case gf_tag f of Some t \<Rightarrow> tag_get t ''mapstructure'' | None \<Rightarrow> [])"

definition squashes :: "go_field \<Rightarrow> bool" where
  "squashes f \<longleftrightarrow> (\<exists>name options. tag_text f = name @ CHR '','' # options \<and> CHR '','' \<notin> set name \<and>
     sublist ''squash'' options)"

definition names_key :: "go_field \<Rightarrow> string \<Rightarrow> bool" where
  "names_key f key \<longleftrightarrow> key \<noteq> [] \<and> key \<noteq> ''-'' \<and> CHR '','' \<notin> set key \<and>
     (tag_text f = key \<or> (\<exists>options. tag_text f = key @ CHR '','' # options \<and> \<not> sublist ''squash'' options)) \<and>
     (gf_names f = [] \<or> is_exported (gf_names f ! 0))"

lemma contains_sublist: "contains s sub \<longleftrightarrow> sublist sub s"
  by (induction s) (auto simp: sublist_Cons_right)

lemma comma_split:
  obtains "CHR '','' \<notin> set s" | a b where "s = a @ CHR '','' # b" "CHR '','' \<notin> set a"
proof (cases "CHR '','' \<in> set s")
  case True
  then show ?thesis using split_list_first [OF True] that(2) by blast
qed (rule that(1))

lemma comma_unique:
  assumes "a @ CHR '','' # b = a' @ CHR '','' # b'" "CHR '','' \<notin> set a" "CHR '','' \<notin> set a'"
  shows "a = a' \<and> b = b'"
proof -
  have "(a, b, True) = cut (a @ CHR '','' # b) [CHR '','']" by (rule cut_append_sep [OF assms(2), symmetric])
  also have "\<dots> = cut (a' @ CHR '','' # b') [CHR '','']" by (simp only: assms(1))
  also have "\<dots> = (a', b', True)" by (rule cut_append_sep [OF assms(3)])
  finally show ?thesis by simp
qed

lemma mapstructure_name_squashes: "squashes f \<Longrightarrow> mapstructure_name f = ([], True, True)"
  by (auto simp: squashes_def mapstructure_name_def tag_text_def contains_sublist cut_append_sep Let_def split: option.splits)

lemma mapstructure_name_key:
  assumes "names_key f key"
  shows "mapstructure_name f = (key, False, True) \<and> \<not> squashes f"
proof -
  have tag: "(case gf_tag f of None \<Rightarrow> [] | Some t \<Rightarrow> tag_get t ''mapstructure'') = tag_text f"
    by (simp add: tag_text_def split: option.split)
  show ?thesis
    using assms
    by (auto simp: names_key_def squashes_def mapstructure_name_def tag contains_sublist cut_append_sep cut_no_sep Let_def
        dest: comma_unique)
qed

lemma mapstructure_name_other:
  assumes "\<not> squashes f" "\<And>key. \<not> names_key f key"
  shows "mapstructure_name f = ([], False, False)"
proof -
  have tag: "(case gf_tag f of None \<Rightarrow> [] | Some t \<Rightarrow> tag_get t ''mapstructure'') = tag_text f"
    by (simp add: tag_text_def split: option.split)
  show ?thesis
  proof (cases rule: comma_split [of "tag_text f"])
    case 1
    then show ?thesis
      using assms(2) [of "tag_text f"] by (auto simp: names_key_def mapstructure_name_def tag contains_sublist cut_no_sep Let_def)
  next
    case (2 a b)
    then have "\<not> sublist ''squash'' b" using assms(1) by (auto simp: squashes_def)
    then show ?thesis
      using 2 assms(2) [of a] by (auto simp: names_key_def mapstructure_name_def tag contains_sublist cut_append_sep Let_def)
  qed
qed

text \<open>
  The setting a type is read as, for a field of the struct \<open>decl\<close> at a depth: a pointer or an optional as what it
  holds, a list with its items, a map and a type that is not known as an open mapping, a known struct as the keys
  of its own, an interface and a type of no name as anything.
\<close>

definition is_name :: "go_expr \<Rightarrow> bool" where
  "is_name e \<longleftrightarrow> (case e of Ident n \<Rightarrow> n \<noteq> [] | Selector (Ident pkg) n \<Rightarrow> True | _ \<Rightarrow> False)"

inductive reads_as :: "go_index \<Rightarrow> go_type \<Rightarrow> string list \<Rightarrow> nat \<Rightarrow> go_expr \<Rightarrow> string \<Rightarrow> field \<Rightarrow> bool"
  for g :: go_index and decl :: go_type and seen :: "string list" where
  pointer: "reads_as g decl seen d e doc f \<Longrightarrow> reads_as g decl seen d (Star e) doc f"
| optional: "reads_as g decl seen d i doc f \<Longrightarrow> reads_as g decl seen d (IndexOf e i) doc f"
| list_items: "reads_as g decl seen (d + 1) elt [] item \<Longrightarrow>
    reads_as g decl seen d (ArrayOf l elt) doc (Field ''list'' [(''item'', item)] [] [] False [] doc [])"
| open_map: "reads_as g decl seen d (MapOf k v) doc (Field ''map'' [] [] [] True [] doc [])"
| anything: "reads_as g decl seen d InterfaceOf doc (Field [] [] [] [] False [] doc [])"
| nameless: "(case e of Star x \<Rightarrow> False | IndexOf x i \<Rightarrow> False | ArrayOf l elt \<Rightarrow> False | MapOf k v \<Rightarrow> False
      | InterfaceOf \<Rightarrow> False | _ \<Rightarrow> \<not> is_name e) \<Longrightarrow>
    reads_as g decl seen d e doc (Field [] [] [] [] False [] doc [])"
| scalar: "is_name e \<Longrightarrow> names_type g decl e ty \<Longrightarrow> ty \<noteq> ''map'' \<Longrightarrow>
    reads_as g decl seen d e doc (Field ty [] [] [] False [] doc [])"
| known_struct: "is_name e \<Longrightarrow> names_type g decl e ''map'' \<Longrightarrow>
    source_fields g (resolve_type decl e) seen (d + 1) = Some nested \<Longrightarrow>
    reads_as g decl seen d e doc (Field ''map'' (fd_children nested) [] [] (fd_open nested) [] doc [])"
| unknown_struct: "is_name e \<Longrightarrow> names_type g decl e ''map'' \<Longrightarrow>
    source_fields g (resolve_type decl e) seen (d + 1) = None \<Longrightarrow>
    reads_as g decl seen d e doc (Field ''map'' [] [] [] True [] doc [])"

lemma is_name_unwrap: "is_name e \<Longrightarrow> unwrap e = e \<and> expr_name e \<noteq> []"
  by (auto simp: is_name_def split: go_expr.splits)

lemma names_type_name: "is_name e \<Longrightarrow> names_type g decl e ty \<longleftrightarrow> ty = scalar_type g decl e"
  using is_name_unwrap [of e] by (cases e) (auto simp: is_name_def names_type_iff split: go_expr.splits)

lemma nameless_scalar: "expr_name (unwrap e) = [] \<Longrightarrow> scalar_type g decl e = []"
  by (simp add: scalar_type_def basic_kind_def)

lemma source_field_wrapped:
  assumes "unwrap e = unwrap e'"
  shows "source_field g decl e doc seen d = source_field g decl e' doc seen d"
proof -
  have r: "resolve_type decl e = resolve_type decl e'" by (simp only: resolve_type_def assms)
  have t: "scalar_type g decl e = scalar_type g decl e'" by (simp only: scalar_type_def assms r)
  show ?thesis by (simp only: source_field.simps [of g decl e] source_field.simps [of g decl e'] assms r t)
qed

lemma source_field_name:
  assumes "is_name e"
  shows "source_field g decl e doc seen d =
    (if scalar_type g decl e = ''map'' then
       (case source_fields g (resolve_type decl e) seen (d + 1) of
          None \<Rightarrow> Field ''map'' [] [] [] True [] doc []
        | Some nested \<Rightarrow> Field ''map'' (fd_children nested) [] [] (fd_open nested) [] doc [])
     else Field (scalar_type g decl e) [] [] [] False [] doc [])"
  using assms by (subst source_field.simps) (auto simp: is_name_def split: go_expr.splits)

lemma reads_as_sound: "reads_as g decl seen d e doc f \<Longrightarrow> f = source_field g decl e doc seen d"
proof (induction rule: reads_as.induct)
  case (pointer d e doc f)
  then show ?case using source_field_wrapped [of "Star e" e] by simp
next
  case (optional d i doc f e)
  then show ?case using source_field_wrapped [of "IndexOf e i" i] by simp
next
  case (nameless e d doc)
  then have "unwrap e = e" "expr_name e = []" by (auto simp: is_name_def split: go_expr.splits elim: expr_name.elims)
  then show ?case
    using nameless nameless_scalar [of e g decl] by (subst source_field.simps) (auto split: go_expr.splits)
next
  case (scalar e ty d doc)
  then show ?case by (simp add: source_field_name names_type_name)
next
  case (known_struct e d nested doc)
  then show ?case by (simp add: source_field_name names_type_name)
next
  case (unknown_struct e d doc)
  then show ?case by (simp add: source_field_name names_type_name)
qed (simp_all add: source_field.simps)

lemma reads_as_total: "reads_as g decl seen d e doc (source_field g decl e doc seen d)"
proof (induction e arbitrary: d doc rule: measure_induct_rule [of size])
  case (less e)
  show ?case
  proof (cases "is_name e")
    case True
    then have ty: "names_type g decl e (scalar_type g decl e)" by (simp add: names_type_name)
    show ?thesis
    proof (cases "scalar_type g decl e = ''map''")
      case map: True
      show ?thesis
        using known_struct [OF True ty [unfolded map], of seen d] unknown_struct [OF True ty [unfolded map], of seen d]
        by (simp add: source_field_name [OF True] map split: option.split)
    qed (use scalar [OF True ty] in \<open>simp add: source_field_name [OF True]\<close>)
  next
    case False
    show ?thesis
    proof (cases e)
      case (Star x)
      then show ?thesis using less.IH [of x d doc] pointer source_field_wrapped [of "Star x" x] by simp
    next
      case (IndexOf x i)
      then show ?thesis using less.IH [of i d doc] optional source_field_wrapped [of "IndexOf x i" i] by simp
    next
      case (ArrayOf l elt)
      then show ?thesis using less.IH [of elt "d + 1" "[]"] list_items by (simp add: source_field.simps)
    next
      case (MapOf k v)
      then show ?thesis using open_map by (simp add: source_field.simps)
    next
      case InterfaceOf
      then show ?thesis using anything by (simp add: source_field.simps)
    qed (use False nameless [of e g decl seen d doc] reads_as_sound [OF nameless [of e g decl seen d doc]] in simp_all)
  qed
qed

lemma reads_as_iff: "reads_as g decl seen d e doc f \<longleftrightarrow> f = source_field g decl e doc seen d"
  using reads_as_sound reads_as_total by blast

text \<open>A field under its key: what its type reads as with the first line of its comment, and the role of an extension.\<close>

definition setting_of :: "go_index \<Rightarrow> go_type \<Rightarrow> string list \<Rightarrow> nat \<Rightarrow> go_field \<Rightarrow> string \<Rightarrow> field \<Rightarrow> bool" where
  "setting_of g decl seen d f key child \<longleftrightarrow>
     (\<exists>c. reads_as g decl seen d (gf_type f) (first_line (doc_text f)) c \<and>
        child = (if resolve_type decl (gf_type f) \<noteq> component_id_type then c
          else if key = ''storage'' then with_role role_storage c
          else if key = ''authenticator'' then with_role role_auth c
          else with_role role_extension c))"

subsection \<open>Which settings a struct names\<close>

definition contribution_of :: "go_index \<Rightarrow> go_type \<Rightarrow> string \<Rightarrow> string list \<Rightarrow> nat \<Rightarrow> go_field \<Rightarrow> contribution" where
  "contribution_of g decl key seen depth f =
     (case mapstructure_name f of (name, squash, ok) \<Rightarrow>
        if \<not> ok then Unfilled
        else if squash then Squashed (source_fields g (resolve_type decl (gf_type f)) (seen @ [key]) (depth + 1))
        else
          (let child = source_field g decl (gf_type f) (first_line (doc_text f)) (seen @ [key]) depth in
           UnderKey name (if resolve_type decl (gf_type f) = component_id_type
             then with_role (extension_role name) child else child)))"

text \<open>The last field of its own that has a key, and the first squashed struct that has it.\<close>

definition own_key :: "contribution list \<Rightarrow> string \<Rightarrow> field option" where
  "own_key cs name =
     map_of (rev (List.map_filter (\<lambda>c. case c of UnderKey n child \<Rightarrow> Some (n, child) | _ \<Rightarrow> None) cs)) name"

definition squashed_key :: "contribution list \<Rightarrow> string \<Rightarrow> field option" where
  "squashed_key cs name =
     map_of (concat (map (\<lambda>c. case c of Squashed (Some nested) \<Rightarrow> fd_children nested | _ \<Rightarrow> []) cs)) name"

definition or_else :: "'a option \<Rightarrow> 'a option \<Rightarrow> 'a option" where
  "or_else a b = (case a of None \<Rightarrow> b | Some _ \<Rightarrow> a)"

lemma or_else_simps [simp]: "or_else None b = b" "or_else (Some x) b = Some x" "or_else a None = a"
  by (simp_all add: or_else_def split: option.split)

lemma or_else_assoc: "or_else (or_else a b) c = or_else a (or_else b c)"
  by (cases a) simp_all

lemma map_add_or_else: "(m ++ n) k = or_else (n k) (m k)"
  by (simp add: or_else_def map_add_def split: option.split)

lemma add_struct_field_simps:
  "add_struct_field key1 (out, unfilled) (f, Unfilled) = (out, \<not> http_bookkeeping key1 f \<or> unfilled)"
  "add_struct_field key1 (out, unfilled) (f, Squashed None) = (out, unfilled)"
  "add_struct_field key1 (out, unfilled) (f, Squashed (Some nested)) = (merge_children out nested, unfilled)"
  "add_struct_field key1 (out, unfilled) (f, UnderKey name child) = (put_child name child out, unfilled)"
  by (simp_all add: add_struct_field_def)

lemma own_key_Cons:
  "own_key (c # cs) name =
     or_else (own_key cs name) (case c of UnderKey n child \<Rightarrow> if name = n then Some child else None | _ \<Rightarrow> None)"
  by (cases c) (auto simp: own_key_def map_add_or_else map_filter_simps)

lemma squashed_key_Cons:
  "squashed_key (c # cs) name =
     or_else (case c of Squashed (Some nested) \<Rightarrow> map_of (fd_children nested) name | _ \<Rightarrow> None) (squashed_key cs name)"
  by (cases c) (auto simp: squashed_key_def map_add_or_else split: option.split)

lemma with_open_sel [simp]:
  "fd_children (with_open b f) = fd_children f" "fd_type (with_open b f) = fd_type f" "fd_open (with_open b f) = b"
  by (cases f, simp)+

lemma map_of_not_taken:
  "map_of (filter (\<lambda>(name, _). map_of cs name = None) ds) k = (if map_of cs k = None then map_of ds k else None)"
  by (induction ds) auto

lemma merge_children_sel [simp]:
  "map_of (fd_children (merge_children into from)) k = or_else (map_of (fd_children into) k) (map_of (fd_children from) k)"
  "fd_open (merge_children into from) \<longleftrightarrow> fd_open into \<or> fd_open from"
  "fd_type (merge_children into from) = fd_type into"
  by (auto simp: merge_children_def map_add_or_else map_of_not_taken)

lemma struct_loop_lookup:
  "map_of (fd_children (fst (foldl (add_struct_field key1) (out, unfilled) fcs))) name =
     or_else (own_key (map snd fcs) name) (or_else (map_of (fd_children out) name) (squashed_key (map snd fcs) name))"
proof (induction fcs arbitrary: out unfilled)
  case Nil
  then show ?case by (simp add: own_key_def squashed_key_def map_filter_simps)
next
  case (Cons fc fcs)
  obtain f c where fc: "fc = (f, c)" by (cases fc)
  show ?case
  proof (cases c)
    case (Squashed nested)
    then show ?thesis
      by (cases nested) (simp_all add: fc add_struct_field_simps Cons.IH own_key_Cons squashed_key_Cons or_else_assoc)
  qed (simp_all add: fc add_struct_field_simps Cons.IH own_key_Cons squashed_key_Cons or_else_assoc)
qed

lemma struct_loop_rest:
  "fd_type (fst (foldl (add_struct_field key1) (out, unfilled) fcs)) = fd_type out \<and>
   (fd_open (fst (foldl (add_struct_field key1) (out, unfilled) fcs)) \<longleftrightarrow>
      fd_open out \<or> (\<exists>nested. Squashed (Some nested) \<in> set (map snd fcs) \<and> fd_open nested)) \<and>
   (snd (foldl (add_struct_field key1) (out, unfilled) fcs) \<longleftrightarrow>
      unfilled \<or> (\<exists>f. (f, Unfilled) \<in> set fcs \<and> \<not> http_bookkeeping key1 f))"
proof (induction fcs arbitrary: out unfilled)
  case (Cons fc fcs)
  obtain f c where fc: "fc = (f, c)" by (cases fc)
  show ?case
  proof (cases c)
    case (Squashed nested)
    then show ?thesis by (cases nested) (auto simp: fc add_struct_field_simps Cons.IH)
  qed (auto simp: fc add_struct_field_simps Cons.IH)
qed simp

lemma source_fields_eq:
  "source_fields g key seen depth =
     (if max_field_depth < depth \<or> key \<in> set seen then None
      else (case deref_key g key of
          (None, _) \<Rightarrow> None
        | (Some decl, declared_at) \<Rightarrow>
            (case gt_struct decl of
               None \<Rightarrow> None
             | Some fs \<Rightarrow>
                 finish_fields g declared_at (foldl (add_struct_field declared_at) (empty_map_field, False)
                   (map (\<lambda>f. (f, contribution_of g decl key seen depth f)) fs)))))"
  unfolding contribution_of_def by (rule source_fields.simps)

lemma source_fields_contributions:
  assumes "source_fields g key seen depth = Some out"
  shows "\<exists>decl declared_at fs. deref_key g key = (Some decl, declared_at) \<and> gt_struct decl = Some fs \<and>
    (let cs = map (contribution_of g decl key seen depth) fs in
      fd_type out = ''map'' \<and>
      (\<forall>name. map_of (fd_children out) name =
         (case own_key cs name of Some child \<Rightarrow> Some child | None \<Rightarrow> squashed_key cs name)) \<and>
      (fd_open out \<longleftrightarrow>
         (\<exists>nested. Squashed (Some nested) \<in> set cs \<and> fd_open nested) \<or>
         set_has (gi_self_decoding g) declared_at \<and>
         list_ex (\<lambda>f. contribution_of g decl key seen depth f = Unfilled \<and> \<not> http_bookkeeping declared_at f) fs))"
proof -
  obtain decl key1 fs where d: "deref_key g key = (Some decl, key1)" "gt_struct decl = Some fs"
    and fin: "finish_fields g key1 (foldl (add_struct_field key1) (empty_map_field, False)
       (map (\<lambda>f. (f, contribution_of g decl key seen depth f)) fs)) = Some out"
    using assms by (subst (asm) source_fields_eq) (auto split: if_splits option.splits prod.splits)
  define fcs where "fcs = map (\<lambda>f. (f, contribution_of g decl key seen depth f)) fs"
  have cs: "map snd fcs = map (contribution_of g decl key seen depth) fs" by (simp add: fcs_def)
  obtain o1 u1 where loop: "foldl (add_struct_field key1) (empty_map_field, False) fcs = (o1, u1)" by fastforce
  have out: "out = with_open (fd_open o1 \<or> u1 \<and> set_has (gi_self_decoding g) key1) o1"
    using fin by (simp add: fcs_def[symmetric] loop finish_fields_def split: if_splits)
  note look = struct_loop_lookup[of key1 empty_map_field False fcs, unfolded loop cs fst_conv]
  note rest = struct_loop_rest[of key1 empty_map_field False fcs, unfolded loop cs fst_conv snd_conv]
  have empty: "fd_children empty_map_field = []" "\<not> fd_open empty_map_field" "fd_type empty_map_field = ''map''"
    by (simp_all add: empty_map_field_def)
  have listed: "(f, Unfilled) \<in> set fcs \<longleftrightarrow> f \<in> set fs \<and> contribution_of g decl key seen depth f = Unfilled" for f
    by (auto simp: fcs_def image_iff eq_commute[of Unfilled])
  have unfilled: "u1 \<longleftrightarrow> list_ex (\<lambda>f. contribution_of g decl key seen depth f = Unfilled \<and> \<not> http_bookkeeping key1 f) fs"
    using rest by (simp add: listed list_ex_iff) blast
  let ?cs = "map (contribution_of g decl key seen depth) fs"
  have keys: "map_of (fd_children out) name =
      (case own_key ?cs name of Some child \<Rightarrow> Some child | None \<Rightarrow> squashed_key ?cs name)" for name
    using look[of name] empty by (simp add: out or_else_def split: option.splits)
  have opens: "fd_open out \<longleftrightarrow> (\<exists>nested. Squashed (Some nested) \<in> set ?cs \<and> fd_open nested) \<or>
      set_has (gi_self_decoding g) key1 \<and>
      list_ex (\<lambda>f. contribution_of g decl key seen depth f = Unfilled \<and> \<not> http_bookkeeping key1 f) fs"
    using rest empty unfilled by (simp add: out conj_commute)
  have shape: "fd_type out = ''map''" using rest empty by (simp add: out)
  show ?thesis
    by (intro exI[of _ decl] exI[of _ key1] exI[of _ fs]) (simp add: d keys opens shape Let_def del: set_map)
qed


lemma contribution_of_cases:
  "squashes f \<Longrightarrow> contribution_of g decl key seen d f =
     Squashed (source_fields g (resolve_type decl (gf_type f)) (seen @ [key]) (d + 1))"
  "names_key f name \<Longrightarrow> \<exists>child. contribution_of g decl key seen d f = UnderKey name child \<and>
     setting_of g decl (seen @ [key]) d f name child \<and> \<not> squashes f"
  "\<not> squashes f \<Longrightarrow> \<nexists>name. names_key f name \<Longrightarrow> contribution_of g decl key seen d f = Unfilled"
  by (auto simp: contribution_of_def mapstructure_name_squashes mapstructure_name_key mapstructure_name_other
      setting_of_def reads_as_iff Let_def extension_role_def)

lemma setting_of_unique: "setting_of g decl seen d f key c1 \<Longrightarrow> setting_of g decl seen d f key c2 \<Longrightarrow> c1 = c2"
  by (auto simp: setting_of_def reads_as_iff)

lemma contribution_of_own:
  "contribution_of g decl key seen d f = UnderKey name child \<longleftrightarrow>
     names_key f name \<and> setting_of g decl (seen @ [key]) d f name child"
proof (cases "squashes f \<or> (\<nexists>name. names_key f name)")
  case True
  then show ?thesis
    using contribution_of_cases(1,3) [of f g decl key seen d] mapstructure_name_key [of f] by (cases "squashes f") auto
next
  case False
  then obtain n where n: "names_key f n" by blast
  obtain c where c: "contribution_of g decl key seen d f = UnderKey n c" "setting_of g decl (seen @ [key]) d f n c"
    using contribution_of_cases(2) [OF n] by blast
  have "name = n" if "names_key f name" using mapstructure_name_key [OF n] mapstructure_name_key [OF that] by simp
  then show ?thesis using c n setting_of_unique by auto
qed

lemma contribution_of_squashed:
  "contribution_of g decl key seen d f = Squashed nested \<longleftrightarrow>
     squashes f \<and> nested = source_fields g (resolve_type decl (gf_type f)) (seen @ [key]) (d + 1)"
  using contribution_of_cases(1,3) [of f g decl key seen d] contribution_of_cases(2) [of f _ g decl key seen d]
  by (cases "squashes f"; cases "\<exists>name. names_key f name") fastforce+

lemma contribution_of_unfilled:
  "contribution_of g decl key seen d f = Unfilled \<longleftrightarrow> \<not> squashes f \<and> (\<nexists>name. names_key f name)"
  using contribution_of_cases(1,3) [of f g decl key seen d] contribution_of_cases(2) [of f _ g decl key seen d]
  by (cases "squashes f"; cases "\<exists>name. names_key f name") fastforce+

text \<open>The last field that names a key, and the first squashed struct that has it.\<close>

definition own_setting :: "go_index \<Rightarrow> go_type \<Rightarrow> string list \<Rightarrow> nat \<Rightarrow> go_field list \<Rightarrow> string \<Rightarrow> field \<Rightarrow> bool" where
  "own_setting g decl seen d fs name child \<longleftrightarrow> (\<exists>before f after. fs = before @ f # after \<and> names_key f name \<and>
     (\<forall>later \<in> set after. \<not> names_key later name) \<and> setting_of g decl seen d f name child)"

definition nested_fields :: "go_index \<Rightarrow> go_type \<Rightarrow> string list \<Rightarrow> nat \<Rightarrow> go_field \<Rightarrow> (string \<times> field) list" where
  "nested_fields g decl seen d f =
     (if squashes f then
        (case source_fields g (resolve_type decl (gf_type f)) seen (d + 1) of None \<Rightarrow> [] | Some nested \<Rightarrow> fd_children nested)
      else [])"

definition squashed_setting :: "go_index \<Rightarrow> go_type \<Rightarrow> string list \<Rightarrow> nat \<Rightarrow> go_field list \<Rightarrow> string \<Rightarrow> field \<Rightarrow> bool" where
  "squashed_setting g decl seen d fs name child \<longleftrightarrow> (\<exists>before f after. fs = before @ f # after \<and>
     (\<forall>sooner \<in> set before. map_of (nested_fields g decl seen d sooner) name = None) \<and>
     map_of (nested_fields g decl seen d f) name = Some child)"

lemma own_key_none:
  "own_key (map (contribution_of g decl key seen d) fs) name = None \<longleftrightarrow> (\<forall>f \<in> set fs. \<not> names_key f name)"
proof (induction fs)
  case Nil
  then show ?case by (simp add: own_key_def map_filter_simps)
next
  case (Cons f fs)
  show ?case
    using Cons contribution_of_cases(2) [of f name g decl key seen d] contribution_of_own [of g decl key seen d f name]
    by (auto simp: own_key_Cons or_else_def split: option.splits contribution.splits)
qed

lemma own_key_setting:
  "own_key (map (contribution_of g decl key seen d) fs) name = Some child \<longleftrightarrow> own_setting g decl (seen @ [key]) d fs name child"
proof (induction fs)
  case Nil
  then show ?case by (simp add: own_key_def own_setting_def map_filter_simps)
next
  case (Cons f fs)
  note own_key_none [of g decl key seen d fs name]
  then have "own_setting g decl (seen @ [key]) d (f # fs) name child \<longleftrightarrow>
      own_setting g decl (seen @ [key]) d fs name child \<or>
      own_key (map (contribution_of g decl key seen d) fs) name = None \<and> names_key f name \<and>
        setting_of g decl (seen @ [key]) d f name child"
    unfolding own_setting_def by (auto simp: Cons_eq_append_conv)
  then show ?case
    using Cons contribution_of_own [of g decl key seen d f name child] contribution_of_own [of g decl key seen d f name]
    by (auto simp: own_key_Cons or_else_def split: option.splits contribution.splits)
qed

lemma squashed_key_setting:
  "squashed_key (map (contribution_of g decl key seen d) fs) name = Some child \<longleftrightarrow>
     squashed_setting g decl (seen @ [key]) d fs name child"
proof (induction fs)
  case Nil
  then show ?case by (simp add: squashed_key_def squashed_setting_def)
next
  case (Cons f fs)
  have one: "(case contribution_of g decl key seen d f of Squashed (Some nested) \<Rightarrow> map_of (fd_children nested) name | _ \<Rightarrow> None) =
      map_of (nested_fields g decl (seen @ [key]) d f) name"
    using contribution_of_squashed [of g decl key seen d f]
    by (auto simp: nested_fields_def split: contribution.splits option.splits)
  let ?of = "\<lambda>f. map_of (nested_fields g decl (seen @ [key]) d f) name"
  have "squashed_setting g decl (seen @ [key]) d (f # fs) name child \<longleftrightarrow>
      ?of f = Some child \<or> ?of f = None \<and> squashed_setting g decl (seen @ [key]) d fs name child"
  proof
    assume "squashed_setting g decl (seen @ [key]) d (f # fs) name child"
    then obtain before h after where "f # fs = before @ h # after" "\<forall>sooner \<in> set before. ?of sooner = None" "?of h = Some child"
      unfolding squashed_setting_def by blast
    then show "?of f = Some child \<or> ?of f = None \<and> squashed_setting g decl (seen @ [key]) d fs name child"
      unfolding squashed_setting_def by (cases before) auto
  next
    assume "?of f = Some child \<or> ?of f = None \<and> squashed_setting g decl (seen @ [key]) d fs name child"
    then show "squashed_setting g decl (seen @ [key]) d (f # fs) name child"
    proof
      assume "?of f = Some child"
      then show ?thesis unfolding squashed_setting_def by (intro exI [of _ "[]"] exI [of _ f] exI [of _ fs]) simp
    next
      assume none: "?of f = None \<and> squashed_setting g decl (seen @ [key]) d fs name child"
      then obtain before h after where "fs = before @ h # after" "\<forall>sooner \<in> set before. ?of sooner = None" "?of h = Some child"
        unfolding squashed_setting_def by blast
      with none show ?thesis
        unfolding squashed_setting_def by (intro exI [of _ "f # before"] exI [of _ h] exI [of _ after]) simp
    qed
  qed
  then show ?case using Cons by (auto simp: squashed_key_Cons one or_else_def split: option.splits)
qed

text \<open>The comment on \<open>mapstructureName\<close> and its code agree on a field that has a name, a tag with a key, or a squash.\<close>

definition embedded_tagged :: "go_field list \<Rightarrow> bool" where
  "embedded_tagged fs \<longleftrightarrow> (\<forall>f \<in> set fs. gf_names f = [] \<longrightarrow> squashes f \<or> tag_text f \<noteq> [] \<and> hd (tag_text f) \<noteq> CHR '','')"


lemma embedded_unnamed:
  assumes "gf_names f = []" "tag_text f = []"
  shows "contribution_of g decl key seen depth f = Unfilled"
  using assms by (simp add: contribution_of_unfilled squashes_def names_key_def)

text \<open>A config struct with a key of its own and a squashed struct that has the same key and another.\<close>

definition demo_shared :: go_type where
  "demo_shared = \<lparr>gt_struct = Some
     [GoField [''Endpoint''] (Ident ''int'') (Some [(''mapstructure'', ''endpoint'')]) None None,
      GoField [''Timeout''] (Selector (Ident ''time'') ''Duration'') (Some [(''mapstructure'', ''timeout'')]) None None],
     gt_under = None, gt_pkg = ''m'', gt_imports = (\<lambda>_. [])\<rparr>"

definition demo_config :: go_type where
  "demo_config = \<lparr>gt_struct = Some
     [GoField [] (Ident ''Shared'') (Some [(''mapstructure'', '',squash'')]) None None,
      GoField [''Endpoint''] (Ident ''string'') (Some [(''mapstructure'', ''endpoint'')]) None None],
     gt_under = None, gt_pkg = ''m'', gt_imports = (\<lambda>_. [])\<rparr>"

definition demo_index :: go_index where
  "demo_index = \<lparr>gi_by_name = [''m.Config'' \<mapsto> demo_config, ''m.Shared'' \<mapsto> demo_shared],
     gi_textual = set_empty, gi_self_decoding = set_empty\<rparr>"

lemma demo_deref:
  "deref_key demo_index ''m.Config'' = (Some demo_config, ''m.Config'')"
  "deref_key demo_index ''m.Shared'' = (Some demo_shared, ''m.Shared'')"
  by (simp_all add: deref_key_def max_alias_hops_def numeral_eq_Suc demo_index_def demo_config_def demo_shared_def)

lemma demo_structs:
  "gt_struct demo_shared = Some
     [GoField [''Endpoint''] (Ident ''int'') (Some [(''mapstructure'', ''endpoint'')]) None None,
      GoField [''Timeout''] (Selector (Ident ''time'') ''Duration'') (Some [(''mapstructure'', ''timeout'')]) None None]"
  "gt_struct demo_config = Some
     [GoField [] (Ident ''Shared'') (Some [(''mapstructure'', '',squash'')]) None None,
      GoField [''Endpoint''] (Ident ''string'') (Some [(''mapstructure'', ''endpoint'')]) None None]"
  "resolve_type demo_config (Ident n) = ''m.'' @ n" "resolve_type demo_shared (Ident n) = ''m.'' @ n"
  "resolve_type demo_shared (Selector (Ident pkg) n) = ''.'' @ n"
  "gi_self_decoding demo_index = set_empty"
  by (simp_all add: demo_shared_def demo_config_def demo_index_def resolve_type_def)

lemmas demo_eval = demo_deref demo_structs max_field_depth_def contribution_of_def mapstructure_name_def tag_get_def
  is_exported_def doc_text_def source_field.simps scalar_type_def basic_kind_def component_id_type_def
  add_struct_field_simps finish_fields_def put_child_def empty_map_field_def merge_children_def

lemma first_line_nil: "first_line [] = []"
  by (simp add: first_line_def trim_space_nil)

lemma demo_shared_fields:
  "source_fields demo_index ''m.Shared'' [''m.Config''] (Suc 0) = Some (Field ''map''
     [(''endpoint'', Field ''int'' [] [] [] False [] [] []), (''timeout'', Field ''duration'' [] [] [] False [] [] [])]
     [] [] False [] [] [])"
  by (subst source_fields_eq) (simp add: demo_eval first_line_nil)

lemma demo_config_fields:
  "source_fields demo_index ''m.Config'' [] 0 = Some (Field ''map''
     [(''endpoint'', Field ''string'' [] [] [] False [] [] []), (''timeout'', Field ''duration'' [] [] [] False [] [] [])]
     [] [] False [] [] [])"
  by (subst source_fields_eq) (simp add: demo_eval first_line_nil demo_shared_fields)

lemma demo_keys:
  assumes "fs = [GoField [] (Ident ''Shared'') (Some [(''mapstructure'', '',squash'')]) None None,
      GoField [''Endpoint''] (Ident ''string'') (Some [(''mapstructure'', ''endpoint'')]) None None]"
  shows "embedded_tagged fs"
proof -
  have "squashes (GoField [] (Ident ''Shared'') (Some [(''mapstructure'', '',squash'')]) None None)"
    unfolding squashes_def by (intro exI [of _ "[]"] exI [of _ "''squash''"]) (simp add: tag_text_def tag_get_def)
  then show ?thesis by (simp add: embedded_tagged_def assms)
qed


end
