(* ===== verification/Harvest.thy ===== *)
theory Harvest
  imports Manifest GoSources SchemaDiff
begin

section \<open>Harvesting a distribution\<close>

text \<open>
  \<open>pkg/cmd/schemagen/harvest.go\<close>, \<open>module.go\<close> and \<open>decoder.go\<close>: the modules a manifest resolves to, what is read
  from each, and the schema built from it. The go command is a parameter: \<open>hw_go\<close> gives its standard output
  and, when it fails, the error and the standard error, and \<open>hw_decode\<close> the values a JSON decoder reads from
  an output. A module on disk is the tree \<open>afero.Walk\<close> visits, in its order; what it cannot read is not there.
\<close>

datatype resolved_module =
  ResolvedModule (rm_replace: "resolved_module option") (rm_path: string) (rm_version: string) (rm_dir: string)
    (rm_main: bool) (rm_error: "string option")

record module_set =
  ms_incomplete :: bool
  ms_by_path :: "(string \<times> resolved_module) list"

datatype mod_node =
  ModFile (mn_name: string) (mn_size: int) (mn_text: "string go_result")
| ModDir (mn_name: string) (mn_nodes: "mod_node list")

record metadata =
  mt_type :: string
  mt_deprecated_type :: string
  mt_parent :: string
  mt_class :: string
  mt_stability :: "(string \<times> string list) list"
  mt_deprecation :: "(string \<times> string \<times> string) list"

record harvest_world =
  hw_go :: "string \<Rightarrow> string list \<Rightarrow> string \<times> (string \<times> string) option"
  hw_decode :: "string \<Rightarrow> resolved_module decode_outcome list"
  hw_getwd :: "string go_result"
  hw_go_version :: string
  hw_cache :: string
  hw_open_cache :: "string option"
  hw_make_dir :: "string \<Rightarrow> string option"
  hw_write :: "string \<Rightarrow> string option"
  hw_exists :: "string \<Rightarrow> bool"
  hw_tree :: "string \<Rightarrow> mod_node"
  hw_parse_go :: "string \<Rightarrow> go_source go_result"
  hw_parse_json :: "string \<Rightarrow> json_schema go_result"
  hw_parse_meta :: "string \<Rightarrow> metadata go_result"
  hw_now :: string

subsection \<open>module.go\<close>

definition module_lookup :: "module_set \<Rightarrow> string \<Rightarrow> resolved_module option" where
  "module_lookup s path =
     (case map_of (ms_by_path s) path of
        None \<Rightarrow> None | Some m \<Rightarrow> if rm_dir m \<noteq> [] then Some m else None)"

definition add_module :: "resolved_module \<Rightarrow> module_set \<Rightarrow> module_set \<times> string list" where
  "add_module m s =
     (if rm_main m then (s, [])
      else (case rm_error m of
          Some e \<Rightarrow> (s\<lparr>ms_incomplete := True\<rparr>, [''  '' @ rm_path m @ '': '' @ first_line e @ nl])
        | None \<Rightarrow>
            if rm_dir m = [] then (s\<lparr>ms_incomplete := True\<rparr>, [''  '' @ rm_path m @ '': not on disk'' @ nl])
            else (s\<lparr>ms_by_path := AList.update (rm_path m) m (ms_by_path s)\<rparr>, [])))"

fun read_modules :: "resolved_module decode_outcome list \<Rightarrow> module_set \<Rightarrow> module_set go_result \<times> string list" where
  "read_modules [] s = (Inr s, [])"
| "read_modules (EndOfFile # rest) s = (Inr s, [])"
| "read_modules (DecodeFailed e # rest) s = (Inl (''read the module list: '' @ e), [])"
| "read_modules (Decoded m # rest) s =
     (case add_module m s of
        (s, said) \<Rightarrow> (case read_modules rest s of (r, others) \<Rightarrow> (r, said @ others)))"

definition read_module_set :: "harvest_world \<Rightarrow> string \<Rightarrow> module_set go_result \<times> string list" where
  "read_module_set hw out =
     (case read_modules (hw_decode hw out) \<lparr>ms_incomplete = False, ms_by_path = []\<rparr> of
        (Inl e, said) \<Rightarrow> (Inl e, said)
      | (Inr s, said) \<Rightarrow>
          (if length (ms_by_path s) = 0 then Inl ''no modules could be downloaded'' else Inr s, said))"

definition go_command :: "harvest_world \<Rightarrow> string \<Rightarrow> string list \<Rightarrow> string \<times> string option" where
  "go_command hw dir args =
     (case hw_go hw dir args of
        (out, None) \<Rightarrow> (out, None)
      | (out, Some (e, stderr)) \<Rightarrow>
          (out, Some (''go '' @ join_strings '' '' args @ '': '' @ e @ '': '' @
             first_line (if stderr = [] then e else stderr))))"

definition go_directive :: "string \<Rightarrow> string" where
  "go_directive runtime_version =
     (let version = trim_prefix runtime_version ''go'' in
      case cut version ''.'' of (major, rest, found) \<Rightarrow>
        if \<not> found then version else major @ ''.'' @ fst (cut rest ''.''))"

definition go_mod_text :: "harvest_world \<Rightarrow> manifest \<Rightarrow> declared_component list \<Rightarrow> string" where
  "go_mod_text hw m requires =
     ''module schemagen/'' @ mf_name m @ nl @ nl @ ''go '' @ go_directive (hw_go_version hw) @ nl @ nl @ ''require ('' @ nl @
     concat (map (\<lambda>req. [CHR 0x09] @ dc_module req @ '' '' @ dc_version req @ nl) requires) @ '')'' @ nl @
     concat (map (\<lambda>replace. nl @ ''replace '' @ trim_space replace @ nl) (replacements (hw_getwd hw) m))"

definition imports_text :: "declared_component list \<Rightarrow> string" where
  "imports_text requires =
     ''//go:build schemagen'' @ nl @ nl @ ''package schemagen'' @ nl @ nl @ ''import ('' @ nl @
     concat (map (\<lambda>req. [CHR 0x09] @ ''_ '' @ go_quote (dc_module req) @ nl) requires) @ '')'' @ nl"

text \<open>\<open>workspace\<close>: the directory the go command runs in, and the two files written to it.\<close>

definition workspace :: "harvest_world \<Rightarrow> manifest \<Rightarrow> (string \<times> (string \<times> string) list) go_result" where
  "workspace hw m =
     (case validate_destination (mf_name m) (collector_version m) of
        Some e \<Rightarrow> Inl e
      | None \<Rightarrow>
          (case hw_open_cache hw of
             Some e \<Rightarrow> Inl (''open cache: '' @ e)
           | None \<Rightarrow>
               let dir = path_join [''workspace'', mf_name m] in
               (case hw_make_dir hw dir of
                  Some e \<Rightarrow> Inl (''create workspace: '' @ e)
                | None \<Rightarrow>
                    (case manifest_requires m of
                       Inl e \<Rightarrow> Inl e
                     | Inr requires \<Rightarrow>
                         (case hw_write hw (path_join [dir, ''go.mod'']) of
                            Some e \<Rightarrow> Inl (''write go.mod: '' @ e)
                          | None \<Rightarrow>
                              (case hw_write hw (path_join [dir, ''components.go'']) of
                                 Some e \<Rightarrow> Inl (''write components.go: '' @ e)
                               | None \<Rightarrow>
                                   Inr (path_join [hw_cache hw, dir],
                                     [(path_join [dir, ''go.mod''], go_mod_text hw m requires),
                                      (path_join [dir, ''components.go''], imports_text requires)])))))))"

definition command_log :: "string \<Rightarrow> string option \<Rightarrow> string list" where
  "command_log what err = (case err of None \<Rightarrow> [] | Some e \<Rightarrow> [''  '' @ what @ '': '' @ e @ nl])"

definition resolve_modules :: "harvest_world \<Rightarrow> manifest \<Rightarrow> module_set go_result \<times> string list" where
  "resolve_modules hw m =
     (case workspace hw m of
        Inl e \<Rightarrow> (Inl e, [])
      | Inr (work, _) \<Rightarrow>
          let said = command_log ''go mod tidy'' (snd (go_command hw work [''mod'', ''tidy'']));
              said = said @ command_log ''go mod download'' (snd (go_command hw work [''mod'', ''download'', ''all'']))
          in (case go_command hw work [''list'', ''-m'', ''-e'', ''-json'', ''all''] of
                (out, err) \<Rightarrow>
                  (case (if out = [] then err else None) of
                     Some e \<Rightarrow> (Inl (''resolve modules: '' @ e), said)
                   | None \<Rightarrow> (case read_module_set hw out of (r, others) \<Rightarrow> (r, said @ others)))))"

subsection \<open>decoder.go\<close>

definition confmap_module :: string where
  "confmap_module = ''go.opentelemetry.io/collector/confmap''"

definition decoder_modules :: "string list" where
  "decoder_modules = [confmap_module, ''github.com/mitchellh/mapstructure'', ''github.com/go-viper/mapstructure/v2'']"

definition decoder_step :: "module_set \<Rightarrow> decoder \<Rightarrow> string \<Rightarrow> decoder" where
  "decoder_step s d path =
     (case module_lookup s path of
        None \<Rightarrow> d
      | Some m \<Rightarrow>
          let (d, m) = (case rm_replace m of
                None \<Rightarrow> (d, m)
              | Some r \<Rightarrow> (d\<lparr>dec_modified := dec_modified d \<or> rm_path r \<noteq> path \<or> rm_version r = []\<rparr>, r))
          in if path = confmap_module then d\<lparr>dec_confmap_version := rm_version m\<rparr> else d)"

definition module_decoder :: "module_set \<Rightarrow> decoder" where
  "module_decoder s =
     foldl (decoder_step s) \<lparr>dec_confmap_version = [], dec_incomplete = ms_incomplete s, dec_modified = False\<rparr>
       decoder_modules"

definition decoder_of :: "harvest_world \<Rightarrow> manifest \<Rightarrow> module_set \<Rightarrow> decoder \<times> string list" where
  "decoder_of hw m mods =
     (let partial = (module_decoder mods)\<lparr>dec_incomplete := True\<rparr>; dir = replace_base m in
      if mf_output m = [] then (partial, [])
      else if \<not> hw_exists hw (path_join [dir, ''go.mod'']) then (partial, [])
      else (case go_command hw dir [''list'', ''-mod=readonly'', ''-m'', ''-e'', ''-json'', ''all''] of
          (_, Some e) \<Rightarrow> (partial, [''  collector decoder graph: '' @ e @ nl])
        | (out, None) \<Rightarrow>
            (case read_module_set hw out of
               (Inl e, said) \<Rightarrow> (partial, said @ [''  collector decoder graph: '' @ e @ nl])
             | (Inr collector, said) \<Rightarrow> (module_decoder collector, said))))"

subsection \<open>Reading a module\<close>

definition repository_root_of :: "string \<Rightarrow> string" where
  "repository_root_of path =
     (case find (\<lambda>base. path = base \<or> has_prefix path (base @ ''/'')) repository_roots of
        Some base \<Rightarrow> base
      | None \<Rightarrow>
          let parts = split_on slash path in
          if length parts < 3 then path else join_strings ''/'' (take 3 parts))"

definition scannable :: "manifest \<Rightarrow> string \<Rightarrow> bool" where
  "scannable m path \<longleftrightarrow>
     list_ex (\<lambda>base. base \<noteq> [] \<and> (path = base \<or> has_prefix path (base @ ''/'')))
       (repository_roots @ map (\<lambda>d. repository_root_of (dc_module d)) (manifest_components m))"

definition skip_module_dir :: "string \<Rightarrow> bool" where
  "skip_module_dir name \<longleftrightarrow> name \<in> set [''testdata'', ''examples'', ''.git'']"

definition trim_slashes :: "string \<Rightarrow> string" where
  "trim_slashes s = rev (dropWhile (\<lambda>c. c = slash) (rev (dropWhile (\<lambda>c. c = slash) s)))"

definition declarable :: "string \<Rightarrow> string \<Rightarrow> bool" where
  "declarable import_path path \<longleftrightarrow>
     (case cut_prefix import_path path of
        None \<Rightarrow> False
      | Some rest \<Rightarrow>
          list_all (\<lambda>seg. \<not> (seg = ''cmd'' \<or> seg = ''internal'')) (split_on slash (trim_slashes rest)))"

text \<open>\<open>importPathOf\<close>, given the directories between the module's root and the file.\<close>

definition import_path_of :: "string \<Rightarrow> string list \<Rightarrow> string" where
  "import_path_of path dirs = (if dirs = [] then path else path @ ''/'' @ join_strings ''/'' dirs)"

definition read_limited :: "int \<Rightarrow> string go_result \<Rightarrow> int \<Rightarrow> string option" where
  "read_limited len file limit =
     (if limit < len then None else (case file of Inl _ \<Rightarrow> None | Inr raw \<Rightarrow> Some raw))"

definition max_metadata_bytes :: int where "max_metadata_bytes = 2 ^ 20"
definition max_source_bytes :: int where "max_source_bytes = 2 * 2 ^ 20"
definition max_schema_bytes :: int where "max_schema_bytes = 4 * 2 ^ 20"

record scan_state =
  sn_set :: schema_set
  sn_index :: go_index
  sn_metas :: "string \<Rightarrow> metadata option"

definition read_metadata :: "harvest_world \<Rightarrow> int \<Rightarrow> string go_result \<Rightarrow> string \<Rightarrow> scan_state \<Rightarrow> scan_state" where
  "read_metadata hw len file import_path st =
     (case read_limited len file max_metadata_bytes of
        None \<Rightarrow> st
      | Some raw \<Rightarrow>
          (case hw_parse_meta hw raw of
             Inl _ \<Rightarrow> st
           | Inr meta \<Rightarrow>
               if mt_type meta = [] then st
               else if mt_parent meta \<noteq> [] then st
               else st\<lparr>sn_metas := (sn_metas st)(import_path \<mapsto> meta)\<rparr>))"

definition scan_file :: "harvest_world \<Rightarrow> string \<Rightarrow> string list \<Rightarrow> string \<Rightarrow> int \<Rightarrow> string go_result \<Rightarrow> scan_state \<Rightarrow> scan_state" where
  "scan_file hw path dirs name len file st =
     (let import_path = import_path_of path dirs in
      if name = ''metadata.yaml'' then
        (if declarable import_path path then read_metadata hw len file import_path st else st)
      else if name = ''config.schema.yaml'' then
        (case read_limited len file max_schema_bytes of
           None \<Rightarrow> st
         | Some raw \<Rightarrow> st\<lparr>sn_set := add_document (hw_parse_json hw) import_path raw (sn_set st)\<rparr>)
      else if is_config_source name then
        (case read_limited len file max_source_bytes of
           None \<Rightarrow> st
         | Some raw \<Rightarrow> st\<lparr>sn_index := add_source (hw_parse_go hw) import_path raw (sn_index st)\<rparr>)
      else st)"

fun scan_nodes :: "harvest_world \<Rightarrow> string \<Rightarrow> string list \<Rightarrow> mod_node list \<Rightarrow> scan_state \<Rightarrow> scan_state" where
  "scan_nodes hw path dirs [] st = st"
| "scan_nodes hw path dirs (ModFile name len file # ns) st =
     scan_nodes hw path dirs ns (scan_file hw path dirs name len file st)"
| "scan_nodes hw path dirs (ModDir name inner # ns) st =
     scan_nodes hw path dirs ns (if skip_module_dir name then st else scan_nodes hw path (dirs @ [name]) inner st)"

definition scan_module :: "harvest_world \<Rightarrow> resolved_module \<Rightarrow> scan_state \<Rightarrow> scan_state" where
  "scan_module hw m st =
     (case hw_tree hw (path_clean (rm_dir m)) of
        ModFile _ _ _ \<Rightarrow> st | ModDir _ ns \<Rightarrow> scan_nodes hw (rm_path m) [] ns st)"

definition scan_modules :: "harvest_world \<Rightarrow> manifest \<Rightarrow> module_set \<Rightarrow> scan_state" where
  "scan_modules hw m mods =
     foldl (\<lambda>st (path, one). if scannable m path then scan_module hw one st else st)
       \<lparr>sn_set = new_schema_set, sn_index = new_go_index, sn_metas = Map.empty\<rparr> (ms_by_path mods)"


subsection \<open>The schema\<close>

text \<open>\<open>typeOf\<close> and \<open>convert\<close>: a component from its declaration and what its module says of it.\<close>

definition no_metadata :: metadata where
  "no_metadata = \<lparr>mt_type = [], mt_deprecated_type = [], mt_parent = [], mt_class = [], mt_stability = [],
     mt_deprecation = []\<rparr>"

definition type_of :: "declared_component \<Rightarrow> metadata \<Rightarrow> string" where
  "type_of d meta = (if mt_type meta \<noteq> [] then mt_type meta else type_name d)"

definition convert_entry :: "string \<Rightarrow> scomp \<times> signal go_set \<Rightarrow> string \<Rightarrow> scomp \<times> signal go_set" where
  "convert_entry level st entry =
     (case st of (c, sigs) \<Rightarrow>
        let c = c\<lparr>sc_stability := AList.update entry level (sc_stability c)\<rparr> in
        if entry = ''extension'' then (c, sigs)
        else if contains entry ''_to_'' then
          (case cut entry ''_to_'' of (from, to, _) \<Rightarrow>
             (c\<lparr>sc_pairs := sc_pairs c @ [\<lparr>pair_from = from, pair_to = to\<rparr>]\<rparr>, sigs))
        else (c, set_insert sigs [entry]))"

definition pair_before :: "pair \<Rightarrow> pair \<Rightarrow> bool" where
  "pair_before a b \<longleftrightarrow>
     (if pair_from a \<noteq> pair_from b then pair_from a < pair_from b else pair_to a < pair_to b)"

definition convert_component :: "declared_component \<Rightarrow> metadata \<Rightarrow> scomp" where
  "convert_component d meta =
     (let c = \<lparr>sc_type = type_of d meta, sc_signals = [], sc_stability = [], sc_pairs = [], sc_distributions = [],
            sc_module = dc_module d, sc_deprecated = [], sc_alias_of = [], sc_alias = mt_deprecated_type meta,
            sc_fields = None\<rparr>;
          (c, sigs) = foldl (\<lambda>st (level, listed). foldl (convert_entry level) st listed) (c, set_new []) (mt_stability meta);
          c = c\<lparr>sc_signals := filter (set_has sigs) signals\<rparr>;
          c = c\<lparr>sc_pairs := sort_slice pair_before (sc_pairs c)\<rparr>
      in (case find (\<lambda>(_, migration, _). migration \<noteq> []) (mt_deprecation meta) of
            None \<Rightarrow> c
          | Some (_, migration, _) \<Rightarrow> c\<lparr>sc_deprecated := migration\<rparr>))"

definition put_component :: "kind \<Rightarrow> string \<Rightarrow> scomp \<Rightarrow> schema \<Rightarrow> schema" where
  "put_component k name c s =
     s\<lparr>sch_components := (sch_components s)(k := sch_components s k @ [(name, c)])\<rparr>"

definition legacy_component :: "scomp \<Rightarrow> scomp" where
  "legacy_component c = c\<lparr>sc_type := sc_alias c, sc_alias := [], sc_alias_of := sc_type c,
     sc_deprecated := ''renamed to '' @ go_quote (sc_type c) @ '' upstream; the old name still resolves for now''\<rparr>"

text \<open>\<open>add\<close>: every declaration of a manifest's components has a kind.\<close>

definition add_component :: "schema \<Rightarrow> kind \<Rightarrow> declared_component \<Rightarrow> metadata \<Rightarrow> schema \<times> nat" where
  "add_component s k d meta =
     (let c = convert_component d meta in
      if lookup s k (sc_type c) \<noteq> None then (s, 0)
      else (let s = put_component k (sc_type c) c s in
        if sc_alias c = [] then (s, 1)
        else if lookup s k (sc_alias c) \<noteq> None then (s, 1)
        else (put_component k (sc_alias c) (legacy_component c) s, 2)))"

definition metadata_of :: "(string \<Rightarrow> metadata option) \<Rightarrow> string \<Rightarrow> metadata" where
  "metadata_of metas path = (case metas path of None \<Rightarrow> no_metadata | Some meta \<Rightarrow> meta)"

fun add_declared :: "module_set \<Rightarrow> (string \<Rightarrow> metadata option) \<Rightarrow> declared_component list \<Rightarrow> schema \<Rightarrow> nat \<Rightarrow> (schema \<times> nat) go_result" where
  "add_declared mods metas [] s n = Inr (s, n)"
| "add_declared mods metas (d # ds) s n =
     (case module_lookup mods (dc_module d) of
        None \<Rightarrow> Inl (''module could not be resolved: '' @ dc_module d)
      | Some m \<Rightarrow>
          (case add_component s (the (dc_kind d)) d (metadata_of metas (rm_path m)) of
             (s, added) \<Rightarrow> add_declared mods metas ds s (n + added)))"

definition start_schema :: "harvest_world \<Rightarrow> manifest \<Rightarrow> decoder \<Rightarrow> schema" where
  "start_schema hw m d =
     \<lparr>sch_collector_version = collector_version m, sch_distribution = mf_name m, sch_decoder = Some d,
      sch_generated_at = hw_now hw,
      sch_sources = (if mf_module m \<noteq> [] then [(mf_name m, mf_module m)] else []),
      sch_components = (\<lambda>_. [])\<rparr>"

definition build :: "harvest_world \<Rightarrow> manifest \<Rightarrow> schema go_result \<times> string list" where
  "build hw m =
     (case resolve_modules hw m of
        (Inl e, said) \<Rightarrow> (Inl e, said)
      | (Inr mods, said) \<Rightarrow>
          let scanned = scan_modules hw m mods in
          (case decoder_of hw m mods of
             (d, others) \<Rightarrow>
               let said = said @ others in
               (case add_declared mods (sn_metas scanned) (manifest_components m) (start_schema hw m d) 0 of
                  Inl e \<Rightarrow> (Inl e, said)
                | Inr (s, n) \<Rightarrow>
                    if schema_count s = 0 then (Inl (mf_name m @ '': declares no components''), said)
                    else
                      (case attach_source_fields (sn_index scanned) s of
                         (s, from_source) \<Rightarrow>
                           (case attach_fields (sn_set scanned) s of
                              (s, published) \<Rightarrow>
                                (Inr s, said @ [''  '' @ itoa (int n) @ '' components, '' @ itoa (int from_source) @
                                   '' from source, '' @ itoa (int published) @ '' enriched by '' @
                                   itoa (int (set_count (sn_set scanned))) @ '' published schemas'' @ nl]))))))"


subsection \<open>What a harvest holds\<close>

lemma convert_entry_sel [simp]:
  "sc_type (fst (convert_entry level st entry)) = sc_type (fst st)"
  "sc_module (fst (convert_entry level st entry)) = sc_module (fst st)"
  "sc_alias (fst (convert_entry level st entry)) = sc_alias (fst st)"
  "sc_alias_of (fst (convert_entry level st entry)) = sc_alias_of (fst st)"
  "sc_fields (fst (convert_entry level st entry)) = sc_fields (fst st)"
  by (simp_all add: convert_entry_def Let_def split: prod.split)

definition same_component :: "scomp \<Rightarrow> scomp \<Rightarrow> bool" where
  "same_component a b \<longleftrightarrow> sc_type a = sc_type b \<and> sc_module a = sc_module b \<and> sc_alias a = sc_alias b \<and>
     sc_alias_of a = sc_alias_of b \<and> sc_fields a = sc_fields b"

lemma convert_entries_same:
  "same_component (fst (foldl (\<lambda>st (level, listed). foldl (convert_entry level) st listed) st levels)) (fst st)"
proof -
  have one: "same_component (fst (foldl (convert_entry level) st listed)) (fst st)" for level st listed
    by (induction listed arbitrary: st) (auto simp: same_component_def)
  show ?thesis
  proof (induction levels arbitrary: st)
    case (Cons l levels)
    show ?case using Cons.IH[of "case l of (level, listed) \<Rightarrow> foldl (convert_entry level) st listed"] one
      by (cases l) (auto simp: same_component_def)
  qed (simp add: same_component_def)
qed

lemma convert_component_sel [simp]:
  "sc_type (convert_component d meta) = type_of d meta"
  "sc_module (convert_component d meta) = dc_module d"
  "sc_alias (convert_component d meta) = mt_deprecated_type meta"
  "sc_alias_of (convert_component d meta) = []"
  "sc_fields (convert_component d meta) = None"
proof -
  define start where "start = (\<lparr>sc_type = type_of d meta, sc_signals = [], sc_stability = [], sc_pairs = [],
      sc_distributions = [], sc_module = dc_module d, sc_deprecated = [], sc_alias_of = [],
      sc_alias = mt_deprecated_type meta, sc_fields = None\<rparr>, set_new [] :: signal go_set)"
  obtain c sigs where loop:
    "foldl (\<lambda>st (level, listed). foldl (convert_entry level) st listed) start (mt_stability meta) = (c, sigs)"
    by fastforce
  have same: "same_component c (fst start)"
    using convert_entries_same[of start "mt_stability meta"] loop by simp
  have c: "convert_component d meta =
      (let c = c\<lparr>sc_signals := filter (set_has sigs) signals, sc_pairs := sort_slice pair_before (sc_pairs c)\<rparr>
       in (case find (\<lambda>(_, migration, _). migration \<noteq> []) (mt_deprecation meta) of
             None \<Rightarrow> c | Some (_, migration, _) \<Rightarrow> c\<lparr>sc_deprecated := migration\<rparr>))"
    unfolding convert_component_def Let_def start_def[symmetric] loop by (simp split: option.split)
  show "sc_type (convert_component d meta) = type_of d meta"
    "sc_module (convert_component d meta) = dc_module d"
    "sc_alias (convert_component d meta) = mt_deprecated_type meta"
    "sc_alias_of (convert_component d meta) = []"
    "sc_fields (convert_component d meta) = None"
    using same by (simp_all add: c same_component_def start_def Let_def split: option.split)
qed

lemma lookup_put_component:
  "lookup s k name = None \<Longrightarrow>
    lookup (put_component k name c s) k' n = (if k' = k \<and> n = name then Some c else lookup s k' n)"
  by (auto simp: lookup_def put_component_def map_add_def split: option.splits)

lemma put_component_ok:
  "schema_ok s \<Longrightarrow> lookup s k name = None \<Longrightarrow> schema_ok (put_component k name c s)"
  by (simp add: schema_ok_def put_component_def lookup_def map_of_eq_None_iff)

text \<open>An entry of a component of kind \<open>k\<close>: under its type, or a legacy name pointing at it.\<close>

definition entry_of :: "declared_component \<Rightarrow> metadata \<Rightarrow> string \<Rightarrow> scomp \<Rightarrow> bool" where
  "entry_of d meta name c \<longleftrightarrow> sc_type c = name \<and> sc_module c = dc_module d \<and>
     (name = type_of d meta \<and> sc_alias_of c = [] \<or>
      name = mt_deprecated_type meta \<and> sc_alias_of c = type_of d meta)"

lemma add_component_spec:
  assumes "add_component s k d meta = (s', n)"
  shows "lookup s k' name = Some c \<Longrightarrow> lookup s' k' name = Some c"
    and "lookup s' k (type_of d meta) \<noteq> None"
    and "lookup s' k' name = Some c \<Longrightarrow> lookup s k' name = Some c \<or> k' = k \<and> entry_of d meta name c"
    and "schema_ok s \<Longrightarrow> schema_ok s'"
    and "sch_collector_version s' = sch_collector_version s \<and> sch_distribution s' = sch_distribution s"
proof -
  let ?c = "convert_component d meta"
  let ?s = "put_component k (type_of d meta) ?c s"
  consider (dup) "lookup s k (type_of d meta) \<noteq> None" "s' = s"
    | (one) "lookup s k (type_of d meta) = None" "s' = ?s"
    | (two) "lookup s k (type_of d meta) = None" "lookup ?s k (mt_deprecated_type meta) = None"
        "s' = put_component k (mt_deprecated_type meta) (legacy_component ?c) ?s"
  proof -
    have "s' = (if lookup s k (type_of d meta) \<noteq> None then s
        else if mt_deprecated_type meta = [] \<or> lookup ?s k (mt_deprecated_type meta) \<noteq> None then ?s
        else put_component k (mt_deprecated_type meta) (legacy_component ?c) ?s)"
      using assms unfolding add_component_def Let_def convert_component_sel by (simp split: if_split_asm)
    then show ?thesis using that by (simp split: if_split_asm)
  qed
  note cases = this
  have own: "entry_of d meta (type_of d meta) ?c" by (simp add: entry_of_def)
  have legacy: "entry_of d meta (mt_deprecated_type meta) (legacy_component ?c)"
    by (simp add: entry_of_def legacy_component_def)
  show "lookup s k' name = Some c \<Longrightarrow> lookup s' k' name = Some c"
    using cases by cases (auto simp: lookup_put_component)
  show "lookup s' k (type_of d meta) \<noteq> None"
    using cases by cases (auto simp: lookup_put_component)
  show "lookup s' k' name = Some c \<Longrightarrow> lookup s k' name = Some c \<or> k' = k \<and> entry_of d meta name c"
    using cases own legacy by cases (auto simp: lookup_put_component split: if_splits)
  show "schema_ok s \<Longrightarrow> schema_ok s'"
    using cases by cases (auto intro: put_component_ok)
  show "sch_collector_version s' = sch_collector_version s \<and> sch_distribution s' = sch_distribution s"
    using cases by cases (auto simp: put_component_def)
qed

text \<open>What the module of a declared component says of it, once the modules are resolved and read.\<close>

definition harvested :: "harvest_world \<Rightarrow> manifest \<Rightarrow> declared_component \<Rightarrow> metadata option" where
  "harvested hw m d =
     (case fst (resolve_modules hw m) of
        Inl _ \<Rightarrow> None
      | Inr mods \<Rightarrow>
          map_option (\<lambda>one. metadata_of (sn_metas (scan_modules hw m mods)) (rm_path one))
            (module_lookup mods (dc_module d)))"

lemma add_declared_spec:
  assumes "add_declared mods metas ds s n = Inr (s', n')" "\<forall>d \<in> set ds. dc_kind d \<noteq> None"
  shows "(lookup s k name = Some c \<longrightarrow> lookup s' k name = Some c) \<and>
    (lookup s' k name = Some c \<longrightarrow> lookup s k name = Some c \<or>
       (\<exists>d one. d \<in> set ds \<and> dc_kind d = Some k \<and> module_lookup mods (dc_module d) = Some one \<and>
          entry_of d (metadata_of metas (rm_path one)) name c)) \<and>
    (\<forall>d \<in> set ds. \<exists>one. module_lookup mods (dc_module d) = Some one \<and>
       lookup s' (the (dc_kind d)) (type_of d (metadata_of metas (rm_path one))) \<noteq> None) \<and>
    (schema_ok s \<longrightarrow> schema_ok s') \<and>
    sch_collector_version s' = sch_collector_version s \<and> sch_distribution s' = sch_distribution s"
  using assms
proof (induction ds arbitrary: s n name k c)
  case (Cons d ds)
  obtain one where one: "module_lookup mods (dc_module d) = Some one"
    using Cons.prems(1) by (auto split: option.splits)
  obtain s1 added where s1: "add_component s (the (dc_kind d)) d (metadata_of metas (rm_path one)) = (s1, added)"
    by fastforce
  have rest: "add_declared mods metas ds s1 (n + added) = Inr (s', n')"
    using Cons.prems(1) by (simp add: one s1)
  have kinds: "\<forall>d \<in> set ds. dc_kind d \<noteq> None" "dc_kind d = Some (the (dc_kind d))" using Cons.prems(2) by auto
  note spec = add_component_spec[OF s1]
  note IH = Cons.IH[OF rest kinds(1)]
  obtain own where own: "lookup s1 (the (dc_kind d)) (type_of d (metadata_of metas (rm_path one))) = Some own"
    using spec(2) by auto
  have here: "lookup s' (the (dc_kind d)) (type_of d (metadata_of metas (rm_path one))) \<noteq> None"
    using IH own by (metis option.distinct(1))
  have kept: "lookup s k name = Some c \<longrightarrow> lookup s' k name = Some c" using IH spec(1) by blast
  have named: "lookup s' k name = Some c \<longrightarrow> lookup s k name = Some c \<or>
       (\<exists>d' one. d' \<in> set (d # ds) \<and> dc_kind d' = Some k \<and> module_lookup mods (dc_module d') = Some one \<and>
          entry_of d' (metadata_of metas (rm_path one)) name c)"
  proof
    assume "lookup s' k name = Some c"
    then consider "lookup s1 k name = Some c"
      | d' one where "d' \<in> set ds" "dc_kind d' = Some k" "module_lookup mods (dc_module d') = Some one"
          "entry_of d' (metadata_of metas (rm_path one)) name c"
      using IH by blast
    then show "lookup s k name = Some c \<or>
       (\<exists>d' one. d' \<in> set (d # ds) \<and> dc_kind d' = Some k \<and> module_lookup mods (dc_module d') = Some one \<and>
          entry_of d' (metadata_of metas (rm_path one)) name c)"
    proof cases
      case 1
      then show ?thesis using spec(3) one kinds(2) by (metis list.set_intros(1))
    qed auto
  qed
  have others: "\<forall>d \<in> set ds. \<exists>one. module_lookup mods (dc_module d) = Some one \<and>
       lookup s' (the (dc_kind d)) (type_of d (metadata_of metas (rm_path one))) \<noteq> None"
    using IH by blast
  have rest_ok: "(schema_ok s \<longrightarrow> schema_ok s') \<and>
    sch_collector_version s' = sch_collector_version s \<and> sch_distribution s' = sch_distribution s"
    using IH spec(4,5) by auto
  show ?case using kept named here one others rest_ok by auto
qed simp

lemma lookup_map_components:
  "map_of (map (\<lambda>(name, c). (name, f c)) cs) name = map_option f (map_of cs name)"
  by (induction cs) auto

lemma attach_source_fields_lookup:
  "lookup (fst (attach_source_fields g s)) k name = map_option (\<lambda>c. fst (attach_source_field g c)) (lookup s k name)"
  by (simp add: attach_source_fields_def lookup_def lookup_map_components)

lemma attach_fields_lookup:
  "lookup (fst (attach_fields docs s)) k name = map_option (\<lambda>c. fst (attach_field docs c)) (lookup s k name)"
  by (simp add: attach_fields_def lookup_def lookup_map_components)

lemma attach_entry:
  "entry_of d meta name (fst (attach_source_field g c)) \<longleftrightarrow> entry_of d meta name c"
  "entry_of d meta name (fst (attach_field docs c)) \<longleftrightarrow> entry_of d meta name c"
  by (auto simp: entry_of_def attach_source_field_def attach_field_def Let_def split: option.split)

lemma attach_rest:
  "schema_ok (fst (attach_source_fields g s)) \<longleftrightarrow> schema_ok s"
  "schema_ok (fst (attach_fields docs s)) \<longleftrightarrow> schema_ok s"
  "sch_collector_version (fst (attach_source_fields g s)) = sch_collector_version s"
  "sch_collector_version (fst (attach_fields docs s)) = sch_collector_version s"
  "sch_distribution (fst (attach_source_fields g s)) = sch_distribution s"
  "sch_distribution (fst (attach_fields docs s)) = sch_distribution s"
  by (simp_all add: attach_source_fields_def attach_fields_def schema_ok_def case_prod_unfold comp_def)

lemma manifest_components_kind: "d \<in> set (manifest_components m) \<Longrightarrow> dc_kind d \<noteq> None"
proof -
  have one: "d \<in> set (declared_in k es) \<Longrightarrow> dc_kind d = Some k" for k es
    by (induction es) (auto split: sum.splits prod.splits)
  show "d \<in> set (manifest_components m) \<Longrightarrow> dc_kind d \<noteq> None"
    by (auto simp: manifest_components_def manifest_sections_def dest!: one)
qed

lemma harvest_holds:
  assumes "build hw m = (Inr s, said)"
  shows "sch_collector_version s = collector_version m \<and> sch_distribution s = mf_name m \<and> schema_ok s \<and>
    (\<forall>d \<in> set (manifest_components m). \<exists>meta. harvested hw m d = Some meta \<and>
       lookup s (the (dc_kind d)) (type_of d meta) \<noteq> None) \<and>
    (\<forall>k name c. lookup s k name = Some c \<longrightarrow>
       (\<exists>d meta. d \<in> set (manifest_components m) \<and> dc_kind d = Some k \<and> harvested hw m d = Some meta \<and>
          entry_of d meta name c))"
proof -
  obtain mods said1 where mods: "resolve_modules hw m = (Inr mods, said1)"
    using assms by (auto simp: build_def split: sum.splits prod.splits)
  define scanned where "scanned = scan_modules hw m mods"
  obtain d0 said2 where dec: "decoder_of hw m mods = (d0, said2)" by fastforce
  obtain s1 n where s1: "add_declared mods (sn_metas scanned) (manifest_components m) (start_schema hw m d0) 0 = Inr (s1, n)"
    using assms by (auto simp: build_def mods dec Let_def scanned_def[symmetric] split: sum.splits)
  define s2 where "s2 = fst (attach_source_fields (sn_index scanned) s1)"
  have s: "s = fst (attach_fields (sn_set scanned) s2)"
    using assms by (auto simp: build_def mods dec Let_def scanned_def[symmetric] s1 s2_def split: if_splits prod.splits)
  have hv: "harvested hw m d = map_option (\<lambda>one. metadata_of (sn_metas scanned) (rm_path one))
      (module_lookup mods (dc_module d))" for d
    by (simp add: harvested_def mods scanned_def)
  have kinds: "\<forall>d \<in> set (manifest_components m). dc_kind d \<noteq> None" using manifest_components_kind by blast
  note spec = add_declared_spec[OF s1 kinds]
  have start: "lookup (start_schema hw m d0) k name = None" "schema_ok (start_schema hw m d0)"
    "sch_collector_version (start_schema hw m d0) = collector_version m"
    "sch_distribution (start_schema hw m d0) = mf_name m" for k name
    by (simp_all add: start_schema_def lookup_def schema_ok_def)
  have look: "lookup s k name = map_option (\<lambda>c. fst (attach_field (sn_set scanned)
      (fst (attach_source_field (sn_index scanned) c)))) (lookup s1 k name)" for k name
    by (simp add: s s2_def attach_fields_lookup attach_source_fields_lookup option.map_comp comp_def)
  have filed: "sch_collector_version s = collector_version m" "sch_distribution s = mf_name m" "schema_ok s"
    using spec start by (simp_all add: s s2_def attach_rest)
  have all: "\<forall>d \<in> set (manifest_components m). \<exists>meta. harvested hw m d = Some meta \<and>
      lookup s (the (dc_kind d)) (type_of d meta) \<noteq> None"
  proof
    fix d assume "d \<in> set (manifest_components m)"
    then obtain one where "module_lookup mods (dc_module d) = Some one"
      "lookup s1 (the (dc_kind d)) (type_of d (metadata_of (sn_metas scanned) (rm_path one))) \<noteq> None"
      using spec by blast
    then show "\<exists>meta. harvested hw m d = Some meta \<and> lookup s (the (dc_kind d)) (type_of d meta) \<noteq> None"
      by (simp add: hv look)
  qed
  have only: "\<exists>d meta. d \<in> set (manifest_components m) \<and> dc_kind d = Some k \<and> harvested hw m d = Some meta \<and>
      entry_of d meta name c" if "lookup s k name = Some c" for k name c
  proof -
    obtain c1 where c1: "lookup s1 k name = Some c1"
      "c = fst (attach_field (sn_set scanned) (fst (attach_source_field (sn_index scanned) c1)))"
      using \<open>lookup s k name = Some c\<close> by (auto simp: look)
    then obtain d one where "d \<in> set (manifest_components m)" "dc_kind d = Some k"
      "module_lookup mods (dc_module d) = Some one" "entry_of d (metadata_of (sn_metas scanned) (rm_path one)) name c1"
      using add_declared_spec[OF s1 kinds, of k name c1] start(1) by auto
    then show ?thesis using c1(2) by (auto simp: hv attach_entry)
  qed
  show ?thesis using filed all only by blast
qed

text \<open>
  C38: a harvest that succeeds describes the distribution of its manifest and no other. The schema is filed
  under the manifest's name and release; every component the manifest declares was read from its module and is
  in the schema under the type its module gives it, or the manifest implies; and every entry of the schema is
  such a component, or the legacy name of one, pointing at its current name.
\<close>

theorem harvest_exact:
  assumes "build hw m = (Inr s, said)"
  shows "sch_collector_version s = collector_version m \<and> sch_distribution s = mf_name m \<and> schema_ok s \<and>
    (\<forall>d \<in> set (manifest_components m). \<exists>meta. harvested hw m d = Some meta \<and>
       lookup s (the (dc_kind d)) (type_of d meta) \<noteq> None) \<and>
    (\<forall>k name c. lookup s k name = Some c \<longrightarrow>
       (\<exists>d meta. d \<in> set (manifest_components m) \<and> dc_kind d = Some k \<and> harvested hw m d = Some meta \<and>
          entry_of d meta name c))"
  by (rule harvest_holds [OF assms])

text \<open>A manifest of one receiver, whose module says that it was renamed.\<close>

definition demo_manifest :: manifest where
  "demo_manifest = \<lparr>mf_module = [], mf_name = ''core'', mf_version = [], mf_otelcol = ''0.150.0'', mf_output = [],
     mf_receivers = [\<lparr>mc_gomod = ''a/b/c v1'', mc_name = []\<rparr>], mf_processors = [], mf_exporters = [],
     mf_extensions = [], mf_connectors = [], mf_replaces = [], mf_dir = ''.''\<rparr>"

definition demo_module :: resolved_module where
  "demo_module = ResolvedModule None ''a/b/c'' ''v1'' ''/d'' False None"

definition demo_metadata :: metadata where
  "demo_metadata = no_metadata\<lparr>mt_type := ''foo'', mt_deprecated_type := ''old''\<rparr>"

definition demo_harvest :: harvest_world where
  "demo_harvest = \<lparr>hw_go = (\<lambda>_ _. (''x'', None)), hw_decode = (\<lambda>_. [Decoded demo_module]), hw_getwd = Inr ''/'',
     hw_go_version = ''go1.25'', hw_cache = ''/c'', hw_open_cache = None, hw_make_dir = (\<lambda>_. None),
     hw_write = (\<lambda>_. None), hw_exists = (\<lambda>_. False),
     hw_tree = (\<lambda>_. ModDir ''d'' [ModFile ''metadata.yaml'' 1 (Inr ''x'')]), hw_parse_go = (\<lambda>_. Inl ''x''),
     hw_parse_json = (\<lambda>_. Inl ''x''), hw_parse_meta = (\<lambda>_. Inr demo_metadata), hw_now = ''now''\<rparr>"

lemma demo_destination: "validate_destination (mf_name demo_manifest) (collector_version demo_manifest) = None"
  by code_simp

lemma demo_components:
  "manifest_components demo_manifest = [\<lparr>dc_kind = Some Receiver, dc_module = ''a/b/c'', dc_version = ''v1'', dc_name = []\<rparr>]"
  "manifest_requires demo_manifest = Inr [\<lparr>dc_kind = None, dc_module = ''a/b/c'', dc_version = ''v1'', dc_name = []\<rparr>]"
  by code_simp+

lemma demo_modules:
  "resolve_modules demo_harvest demo_manifest = (Inr \<lparr>ms_incomplete = False, ms_by_path = [(''a/b/c'', demo_module)]\<rparr>, [])"
  by (simp add: resolve_modules_def workspace_def demo_destination demo_components Let_def command_log_def
      go_command_def read_module_set_def add_module_def demo_harvest_def demo_module_def)

lemma demo_scannable: "scannable demo_manifest ''a/b/c''"
  by code_simp

lemma demo_scan:
  "sn_metas (scan_modules demo_harvest demo_manifest \<lparr>ms_incomplete = False, ms_by_path = [(''a/b/c'', demo_module)]\<rparr>) =
     [''a/b/c'' \<mapsto> demo_metadata]"
proof -
  have "declarable ''a/b/c'' ''a/b/c''" by code_simp
  then show ?thesis
    by (simp add: scan_modules_def demo_scannable scan_module_def demo_harvest_def demo_module_def scan_file_def
        import_path_of_def read_metadata_def read_limited_def max_metadata_bytes_def demo_metadata_def no_metadata_def)
qed

lemma demo_build: "\<exists>s said. build demo_harvest demo_manifest = (Inr s, said)"
proof -
  let ?d = "\<lparr>dc_kind = Some Receiver, dc_module = ''a/b/c'', dc_version = ''v1'', dc_name = []\<rparr>"
  let ?mods = "\<lparr>ms_incomplete = False, ms_by_path = [(''a/b/c'', demo_module)]\<rparr>"
  obtain d said where dec: "decoder_of demo_harvest demo_manifest ?mods = (d, said)" by fastforce
  have empty: "lookup (start_schema demo_harvest demo_manifest d) k n = None" for k n
    by (simp add: start_schema_def lookup_def)
  have found: "module_lookup ?mods ''a/b/c'' = Some demo_module" by (simp add: module_lookup_def demo_module_def)
  obtain s n where s: "add_component (start_schema demo_harvest demo_manifest d) Receiver ?d demo_metadata = (s, n)"
    by fastforce
  have "lookup s Receiver (type_of ?d demo_metadata) \<noteq> None" using add_component_spec(2)[OF s] .
  then have "sch_components s Receiver \<noteq> []" by (auto simp: lookup_def)
  then have counted: "schema_count s \<noteq> 0" using schema_count_pos[of s] by auto
  have path: "rm_path demo_module = ''a/b/c''" by (simp add: demo_module_def)
  have all: "add_declared ?mods [''a/b/c'' \<mapsto> demo_metadata] [?d] (start_schema demo_harvest demo_manifest d) 0 = Inr (s, n)"
    using found by (simp add: path metadata_of_def s)
  obtain s1 k1 where s1: "attach_source_fields (sn_index (scan_modules demo_harvest demo_manifest ?mods)) s = (s1, k1)"
    by fastforce
  obtain s2 k2 where s2: "attach_fields (sn_set (scan_modules demo_harvest demo_manifest ?mods)) s1 = (s2, k2)"
    by fastforce
  show ?thesis
    unfolding build_def demo_modules prod.case sum.case Let_def dec demo_scan demo_components(1) all s1 s2
    using counted by simp
qed

lemma harvest_exact_witness:
  "\<exists>s said. build demo_harvest demo_manifest = (Inr s, said) \<and> sch_collector_version s = ''v0.150.0'' \<and>
     sch_distribution s = ''core'' \<and> lookup s Receiver ''foo'' \<noteq> None \<and> lookup s Exporter ''foo'' = None"
proof -
  obtain s said where b: "build demo_harvest demo_manifest = (Inr s, said)" using demo_build by blast
  let ?d = "\<lparr>dc_kind = Some Receiver, dc_module = ''a/b/c'', dc_version = ''v1'', dc_name = []\<rparr>"
  have h: "harvested demo_harvest demo_manifest ?d = Some demo_metadata"
    unfolding harvested_def demo_modules fst_conv sum.case demo_scan
    by (simp add: module_lookup_def metadata_of_def demo_module_def)
  have v: "collector_version demo_manifest = ''v0.150.0''" by code_simp
  have name: "type_of ?d demo_metadata = ''foo''" by (simp add: type_of_def demo_metadata_def)
  have filed: "sch_collector_version s = ''v0.150.0''" "sch_distribution s = ''core''"
    using harvest_exact [OF b] v by (simp_all add: demo_manifest_def)
  have mem: "?d \<in> set (manifest_components demo_manifest)" by (simp add: demo_components)
  have has: "lookup s Receiver ''foo'' \<noteq> None"
  proof -
    obtain meta where meta: "harvested demo_harvest demo_manifest ?d = Some meta"
      and found: "lookup s (the (dc_kind ?d)) (type_of ?d meta) \<noteq> None"
      using harvest_exact [OF b] mem by blast
    have "meta = demo_metadata" using meta unfolding h by (rule option.inject[THEN iffD1, symmetric])
    then show ?thesis using found unfolding name[symmetric] by simp
  qed
  have lacks: "lookup s Exporter ''foo'' = None"
  proof (rule ccontr)
    assume "lookup s Exporter ''foo'' \<noteq> None"
    then obtain d where "d \<in> set (manifest_components demo_manifest)" "dc_kind d = Some Exporter"
      using harvest_exact [OF b] by blast
    then show False by (simp add: demo_components)
  qed
  show ?thesis using b filed has lacks by blast
qed

end
