(* ===== verification/Generate.thy ===== *)
theory Generate
  imports Harvest Registry
begin

section \<open>The generator\<close>

text \<open>
  \<open>pkg/cmd/schemagen/schemagen.go\<close>: the flags of a run and what they can disagree about, one manifest, the run
  over all of them, and its exit status. A run is given the harvest's world, the generator's, how manifests are
  read, and what its usage text is. What the run reports goes to the log of the registry's state.
\<close>

record gen_options =
  gn_builders :: "string list"
  gn_out :: string
  gn_registry :: string
  gn_formats :: string
  gn_summary :: string
  gn_retain :: int
  gn_retain_every :: int

record generator =
  gx_harvest :: harvest_world
  gx_world :: gen_world
  gx_file :: "string \<Rightarrow> string go_result"
  gx_manifest :: "string \<Rightarrow> manifest go_result"
  gx_usage :: string

datatype gen_error = UsageError string | GenFailed string

subsection \<open>Flags\<close>

definition generate_flags :: gen_options where
  "generate_flags = \<lparr>gn_builders = [], gn_out = ''-'', gn_registry = [], gn_formats = ''yaml,json'', gn_summary = [],
     gn_retain = 0, gn_retain_every = 10\<rparr>"

definition split_list :: "string \<Rightarrow> string list" where
  "split_list s = filter (\<lambda>part. part \<noteq> []) (map trim_space (split_on (CHR '','') s))"

fun named_formats :: "string list \<Rightarrow> gen_error + schema_format list" where
  "named_formats [] = Inr []"
| "named_formats (name # names) =
     (if name = ''yaml'' \<or> name = ''json'' then
        (case named_formats names of
           Inl e \<Rightarrow> Inl e
         | Inr rest \<Rightarrow> Inr ((if name = ''json'' then FormatJSON else FormatYAML) # rest))
      else Inl (UsageError (''--formats: unknown schema format '' @ go_quote name)))"

definition parse_formats :: "string \<Rightarrow> gen_error + schema_format list" where
  "parse_formats written =
     (let names = split_list written in
      if length names = 0 then Inl (UsageError ''no schema formats specified'') else named_formats names)"

definition check_destination :: "gen_options \<Rightarrow> gen_error option" where
  "check_destination opts =
     (if gn_registry opts \<noteq> [] \<and> gn_out opts \<noteq> [] \<and> gn_out opts \<noteq> stdout_marker then
        Some (UsageError ''--out and --registry name two different places to write'')
      else if gn_registry opts = [] \<and> 1 < length (gn_builders opts) then
        Some (UsageError ''several manifests write several schemas, which needs --registry'')
      else if gn_registry opts = [] \<and> gn_summary opts \<noteq> [] then
        Some (UsageError ''--summary has nothing to compare against without --registry'')
      else if gn_registry opts = [] \<and> 0 < gn_retain opts then
        Some (UsageError ''--retain has nothing to prune without --registry'')
      else None)"

subsection \<open>One manifest\<close>

definition gen_logs :: "string list \<Rightarrow> gen_state \<Rightarrow> gen_state" where
  "gen_logs lines st = foldl (\<lambda>st line. gen_log line st) st lines"

definition generate :: "generator \<Rightarrow> gen_options \<Rightarrow> schema_format list \<Rightarrow> string \<Rightarrow> gen_state \<Rightarrow> string option \<times> gen_state" where
  "generate gx opts formats builder st =
     (case split_builder builder of (name, path) \<Rightarrow>
        case read_manifest (gx_file gx) (gx_manifest gx) path name of
          Inl e \<Rightarrow> (Some e, st)
        | Inr m \<Rightarrow>
            let st = gen_log (path @ '': '' @ mf_name m @ '' '' @ collector_version m @ nl) st in
            (case build (gx_harvest gx) m of
               (Inl e, said) \<Rightarrow> (Some e, gen_logs said st)
             | (Inr c, said) \<Rightarrow>
                 let st = gen_logs said st in
                 if gn_registry opts \<noteq> [] then
                   write_registry (gx_world gx) c formats (summarise (gn_summary opts) (gn_registry opts) c st)
                 else write_file (gx_world gx) (gn_out opts) c formats st))"

subsection \<open>A run\<close>

fun generate_loop :: "generator \<Rightarrow> gen_options \<Rightarrow> schema_format list \<Rightarrow> string list \<Rightarrow> gen_state \<Rightarrow> string list \<times> gen_state" where
  "generate_loop gx opts formats [] st = ([], st)"
| "generate_loop gx opts formats (builder # rest) st =
     (case generate gx opts formats builder st of
        (None, st) \<Rightarrow> generate_loop gx opts formats rest st
      | (Some e, st) \<Rightarrow>
          (case generate_loop gx opts formats rest (gen_log (''  '' @ builder @ '': skipped ('' @ e @ '')'' @ nl) st) of
             (skipped, st) \<Rightarrow> (builder # skipped, st)))"

definition publish :: "gen_options \<Rightarrow> gen_state \<Rightarrow> string option \<times> gen_state" where
  "publish opts st =
     (if gn_registry opts = [] then (None, st)
      else (case publish_registry (gn_retain opts) (gn_retain_every opts) (gs_registry st) of
          (e, fs) \<Rightarrow> (e, st\<lparr>gs_registry := fs\<rparr>)))"

definition skipped_message :: "string list \<Rightarrow> string list \<Rightarrow> string" where
  "skipped_message skipped builders =
     itoa (int (length skipped)) @ '' of '' @ itoa (int (length builders)) @ '' manifests could not be generated: '' @
     join_strings '', '' skipped"

definition finish_run :: "generator \<Rightarrow> gen_options \<Rightarrow> string list \<Rightarrow> gen_state \<Rightarrow> gen_error option \<times> gen_state" where
  "finish_run gx opts skipped st =
     (case (if length skipped < length (gn_builders opts)
            then (case publish opts st of
                (Some e, st) \<Rightarrow> (Some e, st)
              | (None, st) \<Rightarrow> write_summary (gx_world gx) (gn_summary opts) st)
            else (None, st)) of
        (Some e, st) \<Rightarrow> (Some (GenFailed e), st)
      | (None, st) \<Rightarrow>
          (if 0 < length skipped then Some (GenFailed (skipped_message skipped (gn_builders opts))) else None, st))"

definition run_generate :: "generator \<Rightarrow> gen_options \<Rightarrow> gen_state \<Rightarrow> gen_error option \<times> gen_state" where
  "run_generate gx opts st =
     (if length (gn_builders opts) = 0 then
        (Some (UsageError ''no builder manifests specified''), gen_log (gx_usage gx) st)
      else (case parse_formats (gn_formats opts) of
          Inl e \<Rightarrow> (Some e, st)
        | Inr formats \<Rightarrow>
            (case check_destination opts of
               Some e \<Rightarrow> (Some e, st)
             | None \<Rightarrow>
                 (case generate_loop gx opts formats (gn_builders opts) st of
                    (skipped, st) \<Rightarrow> finish_run gx opts skipped st))))"

text \<open>\<open>print-version\<close>.\<close>

fun print_loop :: "generator \<Rightarrow> string list \<Rightarrow> gen_state \<Rightarrow> gen_error option \<times> gen_state" where
  "print_loop gx [] st = (None, st)"
| "print_loop gx (builder # rest) st =
     (case split_builder builder of (name, path) \<Rightarrow>
        case read_manifest (gx_file gx) (gx_manifest gx) path name of
          Inl e \<Rightarrow> (Some (GenFailed e), st)
        | Inr m \<Rightarrow>
            (case gw_out (gx_world gx) of
               Some e \<Rightarrow> (Some (GenFailed (''write the release: '' @ e)), st)
             | None \<Rightarrow>
                 print_loop gx rest (st\<lparr>gs_out := gs_out st @ [mf_name m @ [CHR 0x09] @ collector_version m @ nl]\<rparr>)))"

definition print_versions :: "generator \<Rightarrow> gen_options \<Rightarrow> gen_state \<Rightarrow> gen_error option \<times> gen_state" where
  "print_versions gx opts st =
     (if length (gn_builders opts) = 0 then
        (Some (UsageError ''no builder manifests specified''), gen_log (gx_usage gx) st)
      else print_loop gx (gn_builders opts) st)"

definition gen_exit_code :: "gen_error option \<Rightarrow> int" where
  "gen_exit_code r = (case r of None \<Rightarrow> 0 | Some (UsageError _) \<Rightarrow> 2 | Some (GenFailed _) \<Rightarrow> 1)"


subsection \<open>A run that succeeds publishes what it was asked for\<close>

text \<open>
  What generating keeps of a registry: every file that was there, every directory, each name once. Creating a
  directory where a file stands fails.
\<close>

definition no_file_in_the_way :: "gen_world \<Rightarrow> registry_fs \<Rightarrow> bool" where
  "no_file_in_the_way gw fs \<longleftrightarrow>
     (case rf_dirs fs of
        Inl _ \<Rightarrow> True
      | Inr items \<Rightarrow> distinct (map fst items) \<and> list_all (\<lambda>(name, is_dir). is_dir \<or> gw_dir gw name \<noteq> None) items)"

definition holds_file :: "registry_fs \<Rightarrow> string \<Rightarrow> string \<Rightarrow> bool" where
  "holds_file fs dir name \<longleftrightarrow> name \<in> set (rf_names fs dir)"

definition holds_dir :: "registry_fs \<Rightarrow> string \<Rightarrow> bool" where
  "holds_dir fs dir \<longleftrightarrow> (case rf_dirs fs of Inl _ \<Rightarrow> True | Inr items \<Rightarrow> (dir, True) \<in> set items)"

definition grown :: "gen_world \<Rightarrow> registry_fs \<Rightarrow> registry_fs \<Rightarrow> bool" where
  "grown gw fs fs' \<longleftrightarrow> rf_path fs' = rf_path fs \<and>
     (\<forall>dir name. holds_file fs dir name \<longrightarrow> holds_file fs' dir name) \<and>
     (\<forall>dir. holds_dir fs dir \<longrightarrow> holds_dir fs' dir) \<and>
     (no_file_in_the_way gw fs \<longrightarrow> no_file_in_the_way gw fs')"

lemma grown_refl: "grown gw fs fs"
  by (simp add: grown_def)

lemma grown_trans: "grown gw fs1 fs2 \<Longrightarrow> grown gw fs2 fs3 \<Longrightarrow> grown gw fs1 fs3"
  by (simp add: grown_def)

lemma grown_log [simp]: "grown gw fs (fs'\<lparr>rf_log := l\<rparr>) \<longleftrightarrow> grown gw fs fs'"
  by (simp add: grown_def holds_file_def holds_dir_def no_file_in_the_way_def cong: sum.case_cong)

lemma gen_log_registry: "gs_registry (gen_log line st) = (gs_registry st)\<lparr>rf_log := rf_log (gs_registry st) @ [line]\<rparr>"
  by (simp add: gen_log_def log_line_def)

lemma gen_logs_grown [simp]: "grown gw fs (gs_registry (gen_logs lines st)) \<longleftrightarrow> grown gw fs (gs_registry st)"
  unfolding gen_logs_def by (induction lines arbitrary: st) (simp_all add: gen_log_registry)

lemma put_schema_grown: "grown gw fs (put_schema gw c format fs)"
  by (auto simp: grown_def put_schema_def holds_file_def holds_dir_def no_file_in_the_way_def Let_def set_insort_key
      cong: sum.case_cong)

lemma make_dir_grown: "gw_dir gw name = None \<Longrightarrow> grown gw fs (make_dir name fs)"
  by (cases "rf_dirs fs")
    (auto simp: grown_def make_dir_def holds_file_def holds_dir_def no_file_in_the_way_def list_all_iff
       distinct_map_sort_slice)

definition release_file :: "schema \<Rightarrow> schema_format \<Rightarrow> string" where
  "release_file c format = sch_collector_version c @ ''.'' @ format_string format"

lemma put_schema_holds: "holds_file (put_schema gw c format fs) (sch_distribution c) (release_file c format)"
  by (simp add: holds_file_def put_schema_def release_file_def Let_def set_insort_key)

lemma write_formats_spec:
  "write_formats gw c formats fs = (r, fs') \<Longrightarrow>
     grown gw fs fs' \<and> (r = None \<longrightarrow> (\<forall>format \<in> set formats. holds_file fs' (sch_distribution c) (release_file c format)))"
proof (induction formats arbitrary: fs)
  case (Cons format formats)
  show ?case
  proof (cases "rf_put fs (path_join [sch_distribution c, release_file c format])")
    case None
    then have rest: "write_formats gw c formats (put_schema gw c format fs) = (r, fs')"
      using Cons.prems by (simp add: release_file_def)
    note IH = Cons.IH[OF rest]
    have "grown gw fs fs'" using IH put_schema_grown grown_trans by blast
    moreover have "holds_file fs' (sch_distribution c) (release_file c format)"
      using IH put_schema_holds unfolding grown_def by blast
    ultimately show ?thesis using IH by auto
  qed (use Cons.prems in \<open>auto simp: release_file_def grown_refl\<close>)
qed (simp add: grown_refl)

text \<open>A release is filed when the registry has its directory and every file of it.\<close>

definition filed :: "schema_format list \<Rightarrow> schema \<Rightarrow> registry_fs \<Rightarrow> bool" where
  "filed formats c fs \<longleftrightarrow> plain_path (sch_distribution c) \<and> holds_dir fs (sch_distribution c) \<and>
     list_all (\<lambda>format. holds_file fs (sch_distribution c) (release_file c format)) formats"

lemma filed_grown: "filed formats c fs \<Longrightarrow> grown gw fs fs' \<Longrightarrow> filed formats c fs'"
  by (simp add: filed_def grown_def list_all_iff)

lemma destination_plain: "validate_destination name version = None \<Longrightarrow> plain_path name"
proof -
  assume "validate_destination name version = None"
  then have d: "distribution_pattern name"
    by (auto simp: validate_destination_def validate_distribution_def split: if_splits)
  then obtain c cs where s: "name = c # cs" "name_start c" "cs = [] \<or> list_all name_char (butlast cs) \<and> name_end (last cs)"
    by (cases name) (auto simp: distribution_pattern_def)
  have "\<forall>x \<in> set cs. name_char x"
    using s(3) by (cases cs rule: rev_cases) (auto simp: list_all_iff name_end_def name_char_def)
  then have "\<forall>x \<in> set name. name_char x" using s by (simp add: name_char_def)
  moreover have "\<not> name_char (CHR ''*'')" "\<not> name_char (CHR ''?'')" "\<not> name_char (CHR ''['')" "\<not> name_char (CHR 0x5C)"
    by (simp_all add: name_char_def name_start_def)
  ultimately show ?thesis unfolding plain_path_def list_all_iff by auto
qed

lemma make_dir_holds: "holds_dir (make_dir name fs) name"
  by (auto simp: holds_dir_def make_dir_def split: sum.split)

lemma write_registry_spec:
  assumes "write_registry gw c formats st = (r, st')"
  shows "grown gw (gs_registry st) (gs_registry st') \<and> (r = None \<longrightarrow> filed formats c (gs_registry st'))"
proof (cases "validate_destination (sch_distribution c) (sch_collector_version c) = None \<and> gw_root gw = None \<and>
    gw_dir gw (sch_distribution c) = None")
  case True
  obtain r1 fs1 where w: "write_formats gw c formats (make_dir (sch_distribution c) (gs_registry st)) = (r1, fs1)"
    by fastforce
  note spec = write_formats_spec[OF w]
  have dir: "grown gw (gs_registry st) (make_dir (sch_distribution c) (gs_registry st))"
    using make_dir_grown True by simp
  have g: "grown gw (gs_registry st) fs1" using spec dir grown_trans by blast
  have f: "r1 = None \<longrightarrow> filed formats c fs1"
    using spec make_dir_holds True destination_plain unfolding filed_def grown_def list_all_iff by blast
  have "filed formats c (fs1\<lparr>rf_log := l\<rparr>) = filed formats c fs1" for l
    by (simp add: filed_def holds_dir_def holds_file_def cong: sum.case_cong)
  then show ?thesis
    using assms True w g f by (auto simp: write_registry_def gen_log_registry split: option.splits)
qed (use assms in \<open>auto simp: write_registry_def grown_refl split: option.splits\<close>)

lemma summarise_registry [simp]: "gs_registry (summarise sf rg c st) = gs_registry st"
  by (simp add: summarise_def Let_def)

text \<open>What a builder is generated from, when it is.\<close>

definition generated_from :: "generator \<Rightarrow> string \<Rightarrow> manifest \<Rightarrow> schema \<Rightarrow> bool" where
  "generated_from gx builder m c \<longleftrightarrow>
     read_manifest (gx_file gx) (gx_manifest gx) (snd (split_builder builder)) (fst (split_builder builder)) = Inr m \<and>
     fst (build (gx_harvest gx) m) = Inr c"

lemma generate_spec:
  assumes "generate gx opts formats builder st = (None, st')" "gn_registry opts \<noteq> []"
  shows "grown (gx_world gx) (gs_registry st) (gs_registry st') \<and>
    (\<exists>m c. generated_from gx builder m c \<and> filed formats c (gs_registry st'))"
proof -
  obtain name path where b: "split_builder builder = (name, path)" by fastforce
  obtain m where m: "read_manifest (gx_file gx) (gx_manifest gx) path name = Inr m"
    using assms(1) by (auto simp: generate_def b split: sum.splits)
  obtain c said where c: "build (gx_harvest gx) m = (Inr c, said)"
    using assms(1) by (auto simp: generate_def b m Let_def split: sum.splits prod.splits)
  let ?st = "gen_logs said (gen_log (path @ '': '' @ mf_name m @ '' '' @ collector_version m @ nl) st)"
  have w: "write_registry (gx_world gx) c formats (summarise (gn_summary opts) (gn_registry opts) c ?st) = (None, st')"
    using assms by (simp add: generate_def b m c Let_def)
  have start: "grown (gx_world gx) (gs_registry st) (gs_registry ?st)"
    by (simp add: gen_log_registry grown_refl)
  have source: "generated_from gx builder m c" by (simp add: generated_from_def b m c)
  show ?thesis
    using write_registry_spec[OF w] start source grown_trans by (metis summarise_registry)
qed

lemma generate_loop_spec:
  "generate_loop gx opts formats builders st = ([], st') \<Longrightarrow> gn_registry opts \<noteq> [] \<Longrightarrow>
    grown (gx_world gx) (gs_registry st) (gs_registry st') \<and>
    (\<forall>builder \<in> set builders. \<exists>m c. generated_from gx builder m c \<and> filed formats c (gs_registry st'))"
proof (induction builders arbitrary: st)
  case (Cons builder builders)
  obtain st1 where st1: "generate gx opts formats builder st = (None, st1)"
    and rest: "generate_loop gx opts formats builders st1 = ([], st')"
    using Cons.prems(1) by (auto split: prod.splits option.splits)
  note one = generate_spec[OF st1 Cons.prems(2)]
  note IH = Cons.IH[OF rest Cons.prems(2)]
  obtain m c where mc: "generated_from gx builder m c" "filed formats c (gs_registry st1)" using one by blast
  have "filed formats c (gs_registry st')" using mc(2) IH filed_grown by blast
  moreover have "grown (gx_world gx) (gs_registry st) (gs_registry st')" using one IH grown_trans by blast
  ultimately show ?case using mc(1) IH by auto
qed (simp add: grown_refl)

lemma named_formats_length: "named_formats names = Inr formats \<Longrightarrow> length formats = length names"
  by (induction names arbitrary: formats) (auto split: if_splits sum.splits)

lemma parse_formats_nonempty: "parse_formats written = Inr formats \<Longrightarrow> formats \<noteq> []"
  by (auto simp: parse_formats_def Let_def dest: named_formats_length split: if_splits)

lemma filed_version:
  assumes "filed formats c fs" "formats \<noteq> []" "plain_path (rf_path fs)"
  shows "sch_collector_version c \<in> set (versions_in fs (sch_distribution c))"
proof -
  obtain format where f: "format \<in> set formats" using assms(2) by (cases formats) auto
  then have "holds_file fs (sch_distribution c) (release_file c format)" using assms(1) by (simp add: filed_def list_all_iff)
  moreover have "''.'' @ format_string format \<in> set extensions" by (cases format) (simp_all add: extensions_def)
  moreover have "means_itself fs (sch_distribution c)" using assms(1,3) by (simp add: means_itself_def filed_def)
  ultimately show ?thesis by (auto simp: versions_in_spec(2) holds_file_def release_file_def)
qed

lemma published_dirs:
  assumes "publish_registry retain every fs = (None, fs')"
  obtains items where "rf_dirs fs = Inr items"
proof -
  obtain fs1 where p: "prune retain every fs = (None, fs1)"
    using assms by (auto simp: publish_registry_def split: prod.splits option.splits)
  show thesis
  proof (cases "rf_dirs fs")
    case (Inl e)
    then have "fs1 = fs" "retain \<le> 0" using p by (auto simp: prune_def split: if_splits)
    then show ?thesis using assms Inl by (simp add: publish_registry_def p write_index_def)
  qed (rule that)
qed

lemma write_summary_index:
  "write_summary gw sf st = (r, st') \<Longrightarrow> rf_index (gs_registry st') = rf_index (gs_registry st)"
  by (auto simp: write_summary_def gen_log_registry split: if_splits option.splits)

text \<open>
  C39: a run of the generator over a registry whose path means itself to \<open>Glob\<close>, if it ends in success, has served
  every manifest it was given. Each was read and harvested, and the release it resolves to is among those its
  distribution holds once all are generated; and the index the registry is left with lists, of those, exactly the
  ones the retention policy keeps: the newest ones and the milestones with \<open>--retain\<close>, and all of them without.
\<close>

theorem generated_published:
  assumes "run_generate gx opts st = (None, st')" and "gn_registry opts \<noteq> []"
    and "rf_path (gs_registry st) = gn_registry opts" "plain_path (gn_registry opts)"
    and "no_file_in_the_way (gx_world gx) (gs_registry st)" and "builder \<in> set (gn_builders opts)"
  shows "\<exists>m c idx formats st1. generated_from gx builder m c \<and> rf_index (gs_registry st') = Some idx \<and>
    parse_formats (gn_formats opts) = Inr formats \<and>
    generate_loop gx opts formats (gn_builders opts) st = ([], st1) \<and>
    (let held = versions_in (gs_registry st1) (mf_name m) in
      collector_version m \<in> set held \<and>
      set (index_versions idx (mf_name m)) =
        (if 0 < gn_retain opts then left_of (gn_retain opts) (gn_retain_every opts) held else set held))"
proof -
  obtain formats where formats: "parse_formats (gn_formats opts) = Inr formats"
    using assms(1) by (auto simp: run_generate_def split: if_splits sum.splits)
  obtain skipped st1 where loop: "generate_loop gx opts formats (gn_builders opts) st = (skipped, st1)" by fastforce
  have fin: "finish_run gx opts skipped st1 = (None, st')"
    using assms(1) by (auto simp: run_generate_def formats loop split: if_splits option.splits)
  have none: "skipped = []" using fin by (auto simp: finish_run_def split: if_splits prod.splits option.splits)
  obtain st2 where pub: "publish opts st1 = (None, st2)" and sum: "write_summary (gx_world gx) (gn_summary opts) st2 = (None, st')"
    using fin assms(6) none by (auto simp: finish_run_def split: prod.splits option.splits if_splits)
  note run = generate_loop_spec[OF loop[unfolded none] assms(2)]
  let ?fs = "gs_registry st1"
  have docs: "publish_registry (gn_retain opts) (gn_retain_every opts) ?fs = (None, gs_registry st2)"
    using pub assms(2) by (auto simp: publish_def split: prod.splits)
  obtain m c where mc: "generated_from gx builder m c" "filed formats c ?fs" using run assms(6) by blast
  obtain said where b: "build (gx_harvest gx) m = (Inr c, said)"
    using mc(1) by (cases "build (gx_harvest gx) m") (auto simp: generated_from_def)
  have names: "sch_distribution c = mf_name m" "sch_collector_version c = collector_version m"
    using harvest_holds[OF b] by simp_all
  obtain items where items: "rf_dirs ?fs = Inr items" using docs by (rule published_dirs)
  have plain: "plain_path (rf_path ?fs)" "means_itself ?fs (mf_name m)"
    using run assms(3,4) mc(2) by (simp_all add: grown_def filed_def means_itself_def names)
  have "no_file_in_the_way (gx_world gx) ?fs" using run assms(5) by (simp add: grown_def)
  then have distinct: "distinct (map fst items)" by (simp add: no_file_in_the_way_def items)
  have dir: "(mf_name m, True) \<in> set items" using mc(2) by (simp add: filed_def holds_dir_def items names)
  obtain idx where idx: "rf_index (gs_registry st2) = Some idx"
    "index_versions idx (mf_name m) = newest_first (versions_in (gs_registry st2) (mf_name m))"
    "set (versions_in (gs_registry st2) (mf_name m)) =
       (if 0 < gn_retain opts then left_of (gn_retain opts) (gn_retain_every opts) (versions_in ?fs (mf_name m))
        else set (versions_in ?fs (mf_name m)))"
    using published_documents[OF docs items distinct dir] plain(2) by auto
  have "collector_version m \<in> set (versions_in ?fs (mf_name m))"
    using filed_version[OF mc(2) parse_formats_nonempty[OF formats] plain(1)] by (simp add: names)
  moreover have "rf_index (gs_registry st') = Some idx" using write_summary_index[OF sum] idx(1) by simp
  ultimately show ?thesis
    using mc(1) loop formats none idx(2,3) by (auto simp: Let_def newest_first_facts)
qed

text \<open>When every manifest is skipped, the documents of the registry stay as they were.\<close>

definition same_documents :: "gen_state \<Rightarrow> gen_state \<Rightarrow> bool" where
  "same_documents st st' \<longleftrightarrow> rf_index (gs_registry st') = rf_index (gs_registry st) \<and>
     rf_components (gs_registry st') = rf_components (gs_registry st)"

lemma write_formats_documents:
  "write_formats gw c formats fs = (r, fs') \<Longrightarrow> rf_index fs' = rf_index fs \<and> rf_components fs' = rf_components fs"
  by (induction formats arbitrary: fs) (auto simp: put_schema_def Let_def split: option.splits)

lemma gen_log_documents [simp]: "same_documents st (gen_log line st') \<longleftrightarrow> same_documents st st'"
  by (simp add: same_documents_def gen_log_registry)

lemma gen_logs_documents [simp]: "same_documents st (gen_logs lines st') \<longleftrightarrow> same_documents st st'"
  unfolding gen_logs_def by (induction lines arbitrary: st') simp_all

lemma write_registry_documents: "write_registry gw c formats st = (r, st') \<Longrightarrow> same_documents st st'"
  by (auto simp: write_registry_def same_documents_def gen_log_registry make_dir_def
      split: option.splits prod.splits sum.splits dest!: write_formats_documents)

lemma generate_documents:
  assumes "generate gx opts formats builder st = (r, st')"
  shows "same_documents st st'"
proof -
  have refl: "same_documents st st" by (simp add: same_documents_def)
  have writes: "same_documents st st1" if "write_registry gw c formats (summarise sf rg c st0) = (r, st1)"
    "same_documents st st0" for gw c sf rg st0 st1
    using write_registry_documents[OF that(1)] that(2) by (simp add: same_documents_def)
  have filing: "same_documents st st1" if "write_file gw out c formats st0 = (r, st1)" "same_documents st st0"
    for gw out c st0 st1
    using that by (auto simp: write_file_def same_documents_def gen_log_registry Let_def split: if_splits option.splits)
  show ?thesis
    using assms refl by (auto simp: generate_def Let_def split: prod.splits sum.splits if_splits intro: writes filing)
qed

lemma generate_loop_documents:
  "generate_loop gx opts formats builders st = (skipped, st') \<Longrightarrow> same_documents st st'"
proof (induction builders arbitrary: st skipped)
  case (Cons builder builders)
  obtain r st1 where st1: "generate gx opts formats builder st = (r, st1)" by fastforce
  have "same_documents st st1" by (rule generate_documents[OF st1])
  moreover have "same_documents st1 st'"
  proof (cases r)
    case None
    then show ?thesis using Cons.prems st1 Cons.IH by simp
  next
    case (Some e)
    let ?st2 = "gen_log (''  '' @ builder @ '': skipped ('' @ e @ '')'' @ nl) st1"
    obtain more where "generate_loop gx opts formats builders ?st2 = (more, st')"
      using Cons.prems st1 Some by (auto split: prod.splits)
    then have "same_documents ?st2 st'" by (rule Cons.IH)
    then show ?thesis by (simp add: same_documents_def gen_log_registry)
  qed
  ultimately show ?case by (simp add: same_documents_def)
qed (simp add: same_documents_def)

lemma rejected_run_untouched:
  assumes "parse_formats (gn_formats opts) = Inr formats" "check_destination opts = None"
    and "generate_loop gx opts formats (gn_builders opts) st = (skipped, st1)" "length skipped = length (gn_builders opts)"
    and "run_generate gx opts st = (r, st')"
  shows "same_documents st st' \<and> gs_out st' = gs_out st1 \<and> r \<noteq> None"
  using assms generate_loop_documents[OF assms(3)]
  by (auto simp: run_generate_def finish_run_def gen_log_def log_line_def same_documents_def split: if_splits)

text \<open>
  A manifest whose schema could not be written is skipped, and yet what it would have changed is in the
  summary: the difference is collected before the write.
\<close>

lemma skipped_but_summarised:
  assumes "generated_from gx builder m c" "gn_registry opts \<noteq> []" "gn_summary opts \<noteq> []"
    and "gw_dir (gx_world gx) (sch_distribution c) = Some e"
  shows "fst (generate gx opts formats builder st) \<noteq> None \<and>
    length (gs_diffs (snd (generate gx opts formats builder st))) = length (gs_diffs st) + 1"
proof -
  obtain said where b: "build (gx_harvest gx) m = (Inr c, said)"
    using assms(1) by (cases "build (gx_harvest gx) m") (auto simp: generated_from_def)
  have logs: "gs_diffs (gen_logs lines st) = gs_diffs st" for lines st
    unfolding gen_logs_def by (induction lines arbitrary: st) (simp_all add: gen_log_def)
  have one: "gs_diffs (gen_log line st) = gs_diffs st" for line st by (simp add: gen_log_def)
  show ?thesis
    using assms b
    by (auto simp: generate_def generated_from_def write_registry_def summarise_def logs one Let_def
        split: prod.splits option.splits)
qed

text \<open>A run over one manifest into an empty registry.\<close>

definition demo_generator :: generator where
  "demo_generator = \<lparr>gx_harvest = demo_harvest,
     gx_world = \<lparr>gw_text = (\<lambda>_ _. []), gw_back = (\<lambda>c _. Inr c), gw_create = (\<lambda>_. None), gw_root = None,
       gw_dir = (\<lambda>_. None), gw_out = None\<rparr>,
     gx_file = (\<lambda>_. Inr ''x''), gx_manifest = (\<lambda>_. Inr demo_manifest), gx_usage = []\<rparr>"

definition demo_gen_options :: gen_options where
  "demo_gen_options = generate_flags\<lparr>gn_builders := [''m''], gn_registry := ''r'', gn_formats := ''json''\<rparr>"

definition empty_registry :: registry_fs where
  "empty_registry = \<lparr>rf_path = ''r'', rf_dirs = Inr [], rf_names = (\<lambda>_. []), rf_glob = (\<lambda>_ _ _. []), rf_read = (\<lambda>_ _. Inl []), rf_stuck = (\<lambda>_ _. None),
     rf_put = (\<lambda>_. None), rf_index = None, rf_components = None, rf_log = []\<rparr>"

definition empty_gen_state :: gen_state where
  "empty_gen_state = \<lparr>gs_registry = empty_registry, gs_out = [], gs_files = [], gs_diffs = []\<rparr>"

lemma gen_logs_fields:
  "rf_put (gs_registry (gen_logs lines st)) = rf_put (gs_registry st)"
  "rf_dirs (gs_registry (gen_logs lines st)) = rf_dirs (gs_registry st)"
  unfolding gen_logs_def by (induction lines arbitrary: st) (simp_all add: gen_log_registry)

lemma demo_generates:
  "\<exists>st. generate demo_generator demo_gen_options [FormatJSON] ''m'' empty_gen_state = (None, st) \<and>
     rf_put (gs_registry st) = (\<lambda>_. None) \<and> rf_dirs (gs_registry st) = Inr [(''core'', True)]"
proof -
  obtain c said where b: "build demo_harvest demo_manifest = (Inr c, said)" using demo_build by blast
  have names: "sch_distribution c = ''core''" "sch_collector_version c = collector_version demo_manifest"
    using harvest_holds[OF b] by (simp_all add: demo_manifest_def)
  have read: "read_manifest (\<lambda>_. Inr ''x'') (\<lambda>_. Inr demo_manifest) ''m'' [] = Inr demo_manifest" by code_simp
  have split: "split_builder ''m'' = ([], ''m'')" by code_simp
  have core: "mf_name demo_manifest = ''core''" by (simp add: demo_manifest_def)
  have valid: "validate_destination ''core'' (collector_version demo_manifest) = None"
    using demo_destination unfolding core .
  show ?thesis
    by (simp add: generate_def demo_generator_def demo_gen_options_def generate_flags_def split read b valid
        write_registry_def summarise_def put_schema_def Let_def gen_log_registry gen_logs_fields make_dir_def names
        empty_gen_state_def empty_registry_def sort_slice_def)
qed

lemma demo_run:
  "\<exists>st. run_generate demo_generator demo_gen_options empty_gen_state = (None, st)"
proof -
  obtain st where st: "generate demo_generator demo_gen_options [FormatJSON] ''m'' empty_gen_state = (None, st)"
    "rf_put (gs_registry st) = (\<lambda>_. None)" "rf_dirs (gs_registry st) = Inr [(''core'', True)]"
    using demo_generates by blast
  have formats: "parse_formats ''json'' = Inr [FormatJSON]" by code_simp
  have opts: "gn_builders demo_gen_options = [''m'']" "gn_registry demo_gen_options = ''r''"
    "gn_formats demo_gen_options = ''json''" "gn_summary demo_gen_options = []" "gn_retain demo_gen_options = 0"
    "gn_out demo_gen_options = ''-''"
    by (simp_all add: demo_gen_options_def generate_flags_def)
  have loop: "generate_loop demo_generator demo_gen_options [FormatJSON] [''m''] empty_gen_state = ([], st)"
    by (simp add: st)
  obtain idx fs where w: "write_index (gs_registry st) = (Inr idx, fs)" and put: "rf_put fs = (\<lambda>_. None)"
    by (simp add: write_index_def st Let_def log_line_def)
  obtain doc lines where comps: "components_loop idx (index_names idx) \<lparr>cd_distributions = []\<rparr> fs = (doc, fs\<lparr>rf_log := lines\<rparr>)"
    using components_loop_spec[of idx "index_names idx" "\<lparr>cd_distributions = []\<rparr>" fs] by blast
  have pub: "\<exists>fs'. publish_registry 0 every (gs_registry st) = (None, fs')" for every
    by (simp add: publish_registry_def prune_def w write_components_def comps put)
  have check: "check_destination demo_gen_options = None" by (simp add: check_destination_def opts stdout_marker_def)
  obtain fs' where fs': "publish_registry 0 (gn_retain_every demo_gen_options) (gs_registry st) = (None, fs')"
    using pub by blast
  show ?thesis
    by (simp add: run_generate_def opts formats check loop finish_run_def publish_def fs' write_summary_def
        del: generate_loop.simps)
qed

lemma generated_published_witness:
  "\<exists>st m idx. run_generate demo_generator demo_gen_options empty_gen_state = (None, st) \<and>
     rf_index (gs_registry st) = Some idx \<and> collector_version m \<in> set (index_versions idx (mf_name m))"
proof -
  obtain st where st: "run_generate demo_generator demo_gen_options empty_gen_state = (None, st)" using demo_run by blast
  have retain: "gn_retain demo_gen_options = 0" by (simp add: demo_gen_options_def generate_flags_def)
  have pre: "gn_registry demo_gen_options \<noteq> []" "rf_path (gs_registry empty_gen_state) = gn_registry demo_gen_options"
    "plain_path (gn_registry demo_gen_options)" "no_file_in_the_way (gx_world demo_generator) (gs_registry empty_gen_state)"
    "''m'' \<in> set (gn_builders demo_gen_options)"
    by (simp_all add: demo_gen_options_def generate_flags_def no_file_in_the_way_def empty_gen_state_def empty_registry_def
        plain_path_def)
  obtain m idx held where "rf_index (gs_registry st) = Some idx" and held: "collector_version m \<in> set held"
    "set (index_versions idx (mf_name m)) =
       (if 0 < gn_retain demo_gen_options then left_of (gn_retain demo_gen_options) (gn_retain_every demo_gen_options) held
        else set held)"
    using generated_published [OF st pre] unfolding Let_def by blast
  moreover have "collector_version m \<in> set (index_versions idx (mf_name m))" using held by (simp add: retain)
  ultimately show ?thesis using st by blast
qed

end
