(* ===== verification/Spec2Isabelle.thy ===== *)
theory Spec2Isabelle
  imports Prelude Strconv Sets Slices Releases Component Spans Diag Text Quantity Yaml Config
    Resolve ResolveTree Parse Schema Vocabulary Index Upstream Durations Rule FieldWalker
    ReferenceRules StructureRules ComponentRules MemoryLimiter ProcessorRules ExporterRules Endpoints Secrets SchemaDiff
    Ruleset Linter LintAll Fetch Paths SchemaRead Store Encoders Output Reports Indexes Prepare Scanner Policies Settings Run DiskCache
    Listing Manifest Registry FieldSchemas GoSources Harvest Generate
begin

text \<open>
  \<^bold>\<open>A model of otelcol-config-lint\<close>, the linter of OpenTelemetry Collector configurations. A run reads
  YAML files, builds a config from each, asks some thirty rules about it with the component inventory of a
  collector release at hand, and reports findings. Each theory models the files of \<open>src/pkg\<close> it names and
  states what makes them correct; a definition carries the name of the Go function it translates wherever
  HOL allows it.

  \<^bold>\<open>How Go is read.\<close> A string is its bytes (\<^typ>\<open>string\<close>). An \<open>int\<close> is the HOL \<^typ>\<open>int\<close>, and
  \<^const>\<open>wrap64\<close> stands where a product or difference can leave 64 bits. An error is the left side of a sum
  (\<open>go_result\<close>, or a datatype per package). A map is the list of its entries in the order of one iteration
  where the order can be seen, and a function otherwise. A struct is a record, a set the list of its keys.
  Third-party code is a parameter: yaml.v3 (the fields of \<open>yaml_lib\<close>, the documents \<open>Parse\<close> is given, the
  decoders of \<open>world\<close>), the scalar decoders of a collector (\<open>go_lib\<close>), the network (\<open>net\<close>), the file system
  (\<open>world\<close>, \<open>scan_fs\<close>, and of a registry whose path is a pattern what \<open>Glob\<close> lists, \<open>rf_glob\<close>) and a context (\<open>run_ctx\<close>: whether it is done when asked).

  \<^bold>\<open>Libraries.\<close> \<open>Prelude\<close> (strings), \<open>Strconv\<close> (numbers and quoting), \<open>Durations\<close>, \<open>Paths\<close> (\<open>filepath\<close> and its
  glob matcher), \<open>Encoders\<close> (JSON and XML with indents), \<open>Slices\<close> (stable sorting under the contract of a
  less or compare function: locales \<open>strict_weak\<close> and \<open>comparator\<close>) and \<open>Sets\<close> (\<open>pkg/sets\<close>, with the contract
  of a set as the locale \<open>set_api\<close>).

  \<^bold>\<open>Reading a config\<close> (\<open>pkg/config\<close>). \<open>Component\<close> has the kinds and identifiers; \<open>Yaml\<close> the resolved tree and
  its readers; \<open>Config\<close> what \<open>parse.go\<close> reads from the tree; \<open>Resolve\<close> the shared graph the decoder gives, as
  a heap of nodes with aliases: the preflight that refuses cycles and documents that expand to more than
  100000 nodes, and the rewriting of merge keys; \<open>ResolveTree\<close> that the rewritten graph stands for the
  document with every alias and merge written out; \<open>Parse\<close> the whole of \<open>Parse\<close>. The fuel of the preflight is
  one more than the number of nodes, and of \<open>resolve\<close> that number; both are shown to be enough.

  \<^bold>\<open>What a release ships\<close> (\<open>pkg/schema\<close>). \<open>Schema\<close> and \<open>SchemaRead\<close> the inventory and its decoding checks,
  \<open>Releases\<close> and \<open>Spans\<close> the order of releases and the registry's two documents, \<open>SchemaDiff\<close> the difference
  of two releases, \<open>Fetch\<close> a request with its redirects (at most ten), retries (three attempts, two waits)
  and cache, \<open>DiskCache\<close> the files that cache keeps and the writing of one as steps of concurrent processes, \<open>Store\<close> the lookup of a release through the configured locations. Every operation of the store
  keeps what the locale \<open>store_effect\<close> asks of a relation between states; it is interpreted twice, for the
  log of requests (no plain http unless allowed) and for the memo of documents.

  \<^bold>\<open>The rules\<close> (\<open>pkg/rule\<close>). \<open>Vocabulary\<close>, \<open>Text\<close>, \<open>Rule\<close> and \<open>Quantity\<close> (\<open>pkg/quantity\<close>) are what they share;
  \<open>Index\<close> what a config declares, uses and wires; \<open>Upstream\<close> the memoised search for a processor on every way
  into a pipeline, whose fuel of two visits per pipeline and flag is shown to be enough; \<open>FieldWalker\<close> the
  walk over settings beside their field schema, bounded as in the code by a settings depth, with an
  inductive judgement of conformance. The rules themselves are in \<open>StructureRules\<close>, \<open>ReferenceRules\<close>,
  \<open>ComponentRules\<close>, \<open>MemoryLimiter\<close>, \<open>ProcessorRules\<close>, \<open>ExporterRules\<close>, \<open>Endpoints\<close> and \<open>Secrets\<close>: their theorems
  say for which configs a rule is silent, or exactly what it reports.

  \<^bold>\<open>Linting\<close> (\<open>pkg/lint\<close>, \<open>pkg/ruleset\<close>, \<open>pkg/settings\<close>, \<open>pkg/scanner\<close>, \<open>pkg/diag\<close>). \<open>Ruleset\<close> is the
  selection of rules, \<open>Policies\<close> the rules block of a settings file and its per-file overrides, \<open>Scanner\<close> the
  files a run finds and the environments by path, \<open>Linter\<close> one file from its text to its result
  (suppressions, thresholds, policies, coverage, ConfigMap blocks, cancellation), \<open>LintAll\<close> the pool of workers
  as a step relation over every schedule, \<open>Indexes\<close> and \<open>Prepare\<close> how a linter is built from a store, \<open>Output\<close>
  and \<open>Reports\<close> the five report formats. \<open>Diag\<close> is severities and findings.

  \<^bold>\<open>The command\<close> (\<open>pkg/cmd/otelcol-config-lint/run\<close>, \<open>pkg/cmdutil\<close>). \<open>Settings\<close> is the settings file: its blocks,
  the flat keys of the first release folded into them, where it is found and how it is folded into flags;
  \<open>Run\<close> the flags of a run, what preparing makes of them and of the file, the run itself and its exit status;
  \<open>Listing\<close> what \<open>list\<close> prints of rules and releases, and the version of the linter (\<open>pkg/version\<close>).

  \<^bold>\<open>The generator\<close> (\<open>pkg/cmd/schemagen\<close>). \<open>Manifest\<close> is the builder manifest and the names that may become
  paths; \<open>GoSources\<close> the settings of a component read from its Go structs, \<open>FieldSchemas\<close> from published documents,
  and how the second is folded into the first, both bounded by the code's depth of 64; \<open>Harvest\<close> the modules of a
  manifest and the schema built from them; \<open>Registry\<close> which releases a registry keeps and the documents it
  publishes; \<open>Generate\<close> the run over all manifests.

  \<^bold>\<open>How the parts meet.\<close> \<open>Prepare\<close> builds the linter of \<open>Linter\<close> from a selection (\<open>Ruleset\<close>) and a schema
  (\<open>Store\<close>); \<open>lint\<close> parses (\<open>Parse\<close>), indexes (\<open>Index\<close>) and runs every rule of \<open>Ruleset\<close> on one context;
  \<open>LintAll\<close> runs \<open>lint_file\<close> per path; \<open>Run\<close> hands the results to the formatters in path order. The registry
  \<open>Generate\<close> leaves is what \<open>Store\<close> reads. Each theorem named as a property
  stands after a text with its number; a property with a premise is followed by a witness that applies it
  at a concrete input.

  \<^bold>\<open>What modelling showed.\<close> Lemmas that pin down behaviour other than the one described: \<open>used_signals_set\<close>,
  \<open>check_limit_wraps\<close>, \<open>retry_after_wraps\<close>, \<open>tap_message_breaks\<close>, \<open>read_queue_batching_expansion\<close>,
  \<open>renamed_and_removed\<close>, \<open>own_distribution_asked\<close>, \<open>skipped_but_summarised\<close>, \<open>given_list_replaces\<close>,
  \<open>embedded_unnamed\<close>, \<open>pattern_path_unlisted\<close>.

  \<^bold>\<open>Not modelled.\<close> In \<open>pkg/cmd\<close> the declaration of commands over cobra and their usage texts; the
  parser of Go and the go command, which are parameters, and the wrappers that confine writes to a directory.
  In \<open>pkg/settings\<close> the JSON schema generated for editors, which reflects over Go types and the syntax tree of
  its own comments. The encoding of schemas, registry documents and cache entries, the alignment of printed
  columns, case folding beyond ASCII, the process's signals and terminal detection.
\<close>

end
